(* ===== verification/Py_Value.thy ===== *)
theory Py_Value
  imports Flow_Prelude Complex_Main "HOL-Library.Char_ord" "HOL-Library.List_Lexorder"
begin

text \<open>
  The Python values the flow engine handles: the documents that come from \<open>flow.yaml\<close>, from
  run inputs and from node outputs. A \<open>str\<close> is a \<open>string\<close> whose characters are the
  code points 0 to 255, an \<open>int\<close> is an \<open>int\<close>, a \<open>float\<close> an exact rational
  (no rounding, no infinities and no NaN), a \<open>dict\<close> an association list in insertion order
  whose keys are strings, integers, booleans or \<open>None\<close>. \<open>PObj\<close> is any other object,
  one that \<open>json.dumps\<close> refuses. How \<open>float\<close> and such objects print, and the ISO-8601
  text of an instant (microseconds since the epoch) and its reader, are parameters (\<open>py_env\<close>).
\<close>

datatype pykey = KStr string | KInt int | KBool bool | KNone

datatype pyval =
    PNone
  | PBool bool
  | PInt int
  | PFloat rat
  | PStr string
  | PList "pyval list"
  | PTuple "pyval list"
  | PDict "(pykey \<times> pyval) list"
  | PObj nat

type_synonym pydict = "(pykey \<times> pyval) list"

record py_env =
  float_repr :: "rat \<Rightarrow> string"
  obj_repr :: "nat \<Rightarrow> string"
  isoformat :: "int \<Rightarrow> string"
  fromisoformat :: "string \<Rightarrow> int option"

subsection \<open>Dictionaries\<close>

text \<open>Python identifies \<open>True\<close> with \<open>1\<close> and \<open>False\<close> with \<open>0\<close> as dictionary keys.\<close>

fun key_norm :: "pykey \<Rightarrow> pykey" where
  "key_norm (KBool b) = KInt (if b then 1 else 0)"
| "key_norm k = k"

fun dlookup :: "pykey \<Rightarrow> pydict \<Rightarrow> pyval option" where
  "dlookup k [] = None"
| "dlookup k ((k', v) # d) = (if key_norm k' = key_norm k then Some v else dlookup k d)"

text \<open>\<open>d[k] = v\<close>: an existing entry keeps its key and its position.\<close>

fun dset :: "pykey \<Rightarrow> pyval \<Rightarrow> pydict \<Rightarrow> pydict" where
  "dset k v [] = [(k, v)]"
| "dset k v ((k', w) # d) = (if key_norm k' = key_norm k then (k', v) # d else (k', w) # dset k v d)"

abbreviation dget :: "pydict \<Rightarrow> string \<Rightarrow> pyval option" where
  "dget d s \<equiv> dlookup (KStr s) d"

text \<open>\<open>d.get(s)\<close>: a missing key reads as \<open>None\<close>.\<close>

definition dget_none :: "pydict \<Rightarrow> string \<Rightarrow> pyval" where
  "dget_none d s = (case dget d s of None \<Rightarrow> PNone | Some v \<Rightarrow> v)"

text \<open>\<open>{**d, **e}\<close>.\<close>

definition dmerge :: "pydict \<Rightarrow> pydict \<Rightarrow> pydict" where
  "dmerge d e = foldl (\<lambda>acc (k, v). dset k v acc) [] (d @ e)"

definition dict_wf :: "pydict \<Rightarrow> bool" where
  "dict_wf d = distinct (map (key_norm \<circ> fst) d)"

subsection \<open>Numbers, truth and equality\<close>

fun num_of :: "pyval \<Rightarrow> rat option" where
  "num_of (PBool b) = Some (if b then 1 else 0)"
| "num_of (PInt i) = Some (of_int i)"
| "num_of (PFloat q) = Some q"
| "num_of _ = None"

text \<open>\<open>bool(value)\<close>.\<close>

fun truthy :: "pyval \<Rightarrow> bool" where
  "truthy PNone = False"
| "truthy (PBool b) = b"
| "truthy (PInt i) = (i \<noteq> 0)"
| "truthy (PFloat q) = (q \<noteq> 0)"
| "truthy (PStr s) = (s \<noteq> [])"
| "truthy (PList vs) = (vs \<noteq> [])"
| "truthy (PTuple vs) = (vs \<noteq> [])"
| "truthy (PDict d) = (d \<noteq> [])"
| "truthy (PObj n) = True"

text \<open>\<open>==\<close>: numbers compare by value whatever their type, dictionaries as mappings.\<close>

fun py_eq :: "pyval \<Rightarrow> pyval \<Rightarrow> bool"
  and py_eq_list :: "pyval list \<Rightarrow> pyval list \<Rightarrow> bool"
  and py_eq_items :: "pydict \<Rightarrow> pydict \<Rightarrow> bool" where
  "py_eq PNone w = (w = PNone)"
| "py_eq (PBool b) w = (num_of w = Some (if b then 1 else 0))"
| "py_eq (PInt i) w = (num_of w = Some (of_int i))"
| "py_eq (PFloat q) w = (num_of w = Some q)"
| "py_eq (PStr s) w = (w = PStr s)"
| "py_eq (PList vs) w = (case w of PList ws \<Rightarrow> py_eq_list vs ws | _ \<Rightarrow> False)"
| "py_eq (PTuple vs) w = (case w of PTuple ws \<Rightarrow> py_eq_list vs ws | _ \<Rightarrow> False)"
| "py_eq (PDict d) w = (case w of PDict e \<Rightarrow> length d = length e \<and> py_eq_items d e | _ \<Rightarrow> False)"
| "py_eq (PObj n) w = (w = PObj n)"
| "py_eq_list [] ws = (ws = [])"
| "py_eq_list (v # vs) ws = (case ws of [] \<Rightarrow> False | w # ws' \<Rightarrow> py_eq v w \<and> py_eq_list vs ws')"
| "py_eq_items [] e = True"
| "py_eq_items ((k, v) # d) e =
     ((case dlookup k e of None \<Rightarrow> False | Some w \<Rightarrow> py_eq v w) \<and> py_eq_items d e)"

subsection \<open>Printing\<close>

definition digit_char :: "nat \<Rightarrow> char" where
  "digit_char d = char_of (48 + d)"

fun str_nat :: "nat \<Rightarrow> string" where
  "str_nat n = (if n < 10 then [digit_char n] else str_nat (n div 10) @ [digit_char (n mod 10)])"

declare str_nat.simps [simp del]

definition str_int :: "int \<Rightarrow> string" where
  "str_int i = (if i < 0 then CHR ''-'' # str_nat (nat (- i)) else str_nat (nat i))"

fun intercalate :: "string \<Rightarrow> string list \<Rightarrow> string" where
  "intercalate sep [] = []"
| "intercalate sep [s] = s"
| "intercalate sep (s # t # ss) = s @ sep @ intercalate sep (t # ss)"

definition hex_char :: "nat \<Rightarrow> char" where
  "hex_char d = (if d < 10 then char_of (48 + d) else char_of (87 + d))"

text \<open>\<open>repr\<close> of one character of a string quoted with \<open>q\<close>.\<close>

definition repr_char :: "char \<Rightarrow> char \<Rightarrow> string" where
  "repr_char q c =
     (let n = of_char c :: nat; bs = CHR 0x5C in
      if c = q \<or> n = 92 then [bs, c]
      else if n = 10 then [bs, CHR ''n''] else if n = 13 then [bs, CHR ''r'']
      else if n = 9 then [bs, CHR ''t'']
      else if (32 \<le> n \<and> n \<le> 126) \<or> (161 \<le> n \<and> n \<noteq> 173) then [c]
      else [bs, CHR ''x'', hex_char (n div 16), hex_char (n mod 16)])"

definition squote :: char where "squote = CHR 0x27"
definition dquote :: char where "dquote = CHR 0x22"

definition repr_str :: "string \<Rightarrow> string" where
  "repr_str s =
     (let q = (if squote \<in> set s \<and> dquote \<notin> set s then dquote else squote)
      in [q] @ concat (map (repr_char q) s) @ [q])"

fun repr_key :: "pykey \<Rightarrow> string" where
  "repr_key (KStr s) = repr_str s"
| "repr_key (KInt i) = str_int i"
| "repr_key (KBool b) = (if b then ''True'' else ''False'')"
| "repr_key KNone = ''None''"

fun py_repr :: "py_env \<Rightarrow> pyval \<Rightarrow> string"
  and py_repr_list :: "py_env \<Rightarrow> pyval list \<Rightarrow> string list"
  and py_repr_items :: "py_env \<Rightarrow> pydict \<Rightarrow> string list" where
  "py_repr env PNone = ''None''"
| "py_repr env (PBool b) = (if b then ''True'' else ''False'')"
| "py_repr env (PInt i) = str_int i"
| "py_repr env (PFloat q) = float_repr env q"
| "py_repr env (PStr s) = repr_str s"
| "py_repr env (PList vs) = ''['' @ intercalate '', '' (py_repr_list env vs) @ '']''"
| "py_repr env (PTuple vs) =
     ''('' @ intercalate '', '' (py_repr_list env vs) @ (if length vs = 1 then '','' else []) @ '')''"
| "py_repr env (PDict d) = ''{'' @ intercalate '', '' (py_repr_items env d) @ ''}''"
| "py_repr env (PObj n) = obj_repr env n"
| "py_repr_list env [] = []"
| "py_repr_list env (v # vs) = py_repr env v # py_repr_list env vs"
| "py_repr_items env [] = []"
| "py_repr_items env ((k, v) # d) = (repr_key k @ '': '' @ py_repr env v) # py_repr_items env d"

text \<open>\<open>str(value)\<close>.\<close>

definition py_str :: "py_env \<Rightarrow> pyval \<Rightarrow> string" where
  "py_str env v = (case v of PStr s \<Rightarrow> s | _ \<Rightarrow> py_repr env v)"

subsection \<open>Characters and trimming\<close>

text \<open>\<open>str.isspace\<close> on the code points 0 to 255; \<open>re\<close>'s \<^verbatim>\<open>\s\<close> is the same set.\<close>

definition is_space :: "char \<Rightarrow> bool" where
  "is_space c = (let n = of_char c :: nat in
     (9 \<le> n \<and> n \<le> 13) \<or> (28 \<le> n \<and> n \<le> 32) \<or> n = 133 \<or> n = 160)"

definition is_digit :: "char \<Rightarrow> bool" where
  "is_digit c = (let n = of_char c :: nat in 48 \<le> n \<and> n \<le> 57)"

definition digit_val :: "char \<Rightarrow> nat" where
  "digit_val c = of_char c - 48"

definition is_lower :: "char \<Rightarrow> bool" where
  "is_lower c = (let n = of_char c :: nat in 97 \<le> n \<and> n \<le> 122)"

definition is_alpha :: "char \<Rightarrow> bool" where
  "is_alpha c = (let n = of_char c :: nat in (97 \<le> n \<and> n \<le> 122) \<or> (65 \<le> n \<and> n \<le> 90))"

definition lstrip :: "string \<Rightarrow> string" where
  "lstrip s = dropWhile is_space s"

definition strip :: "string \<Rightarrow> string" where
  "strip s = rev (dropWhile is_space (rev (dropWhile is_space s)))"

fun starts_with :: "string \<Rightarrow> string \<Rightarrow> bool" where
  "starts_with [] s = True"
| "starts_with (p # ps) [] = False"
| "starts_with (p # ps) (c # s) = (p = c \<and> starts_with ps s)"

definition ends_with :: "string \<Rightarrow> string \<Rightarrow> bool" where
  "ends_with p s = starts_with (rev p) (rev s)"

text \<open>\<open>int(text)\<close> of a run of decimal digits.\<close>

definition nat_of_digits :: "string \<Rightarrow> nat" where
  "nat_of_digits ds = foldl (\<lambda>n c. 10 * n + digit_val c) 0 ds"

subsection \<open>The JSON round trip\<close>

text \<open>How \<open>json.dumps\<close> writes a key.\<close>

fun json_key :: "pykey \<Rightarrow> string" where
  "json_key (KStr s) = s"
| "json_key (KInt i) = str_int i"
| "json_key (KBool b) = (if b then ''true'' else ''false'')"
| "json_key KNone = ''null''"

text \<open>
  \<open>json.loads(json.dumps(v))\<close>: \<open>None\<close> is the \<open>TypeError\<close> of an object that is not
  serialisable. Tuples come back as lists, keys as strings; of two keys that print alike the later
  value wins.
\<close>

fun json_val :: "pyval \<Rightarrow> pyval option"
  and json_list :: "pyval list \<Rightarrow> pyval list option"
  and json_items :: "pydict \<Rightarrow> pydict \<Rightarrow> pydict option" where
  "json_val (PList vs) = map_option PList (json_list vs)"
| "json_val (PTuple vs) = map_option PList (json_list vs)"
| "json_val (PDict d) = map_option PDict (json_items d [])"
| "json_val (PObj n) = None"
| "json_val v = Some v"
| "json_list [] = Some []"
| "json_list (v # vs) =
     (case json_val v of None \<Rightarrow> None | Some w \<Rightarrow> map_option (Cons w) (json_list vs))"
| "json_items [] acc = Some acc"
| "json_items ((k, v) # d) acc =
     (case json_val v of None \<Rightarrow> None | Some w \<Rightarrow> json_items d (dset (KStr (json_key k)) w acc))"

text \<open>A JSON document: what \<open>json.loads\<close> can return.\<close>

fun is_json :: "pyval \<Rightarrow> bool"
  and is_json_list :: "pyval list \<Rightarrow> bool"
  and is_json_items :: "pydict \<Rightarrow> bool" where
  "is_json (PList vs) = is_json_list vs"
| "is_json (PTuple vs) = False"
| "is_json (PDict d) = (is_json_items d \<and> distinct (map fst d))"
| "is_json (PObj n) = False"
| "is_json v = True"
| "is_json_list [] = True"
| "is_json_list (v # vs) = (is_json v \<and> is_json_list vs)"
| "is_json_items [] = True"
| "is_json_items ((k, v) # d) = ((case k of KStr s \<Rightarrow> True | _ \<Rightarrow> False) \<and> is_json v \<and> is_json_items d)"

subsection \<open>Lemmas on dictionaries\<close>

lemma key_norm_KStr_iff [simp]: "key_norm k = KStr s \<longleftrightarrow> k = KStr s"
  by (cases k) auto

lemma dlookup_dset [simp]:
  "dlookup k (dset k' v d) = (if key_norm k = key_norm k' then Some v else dlookup k d)"
  by (induction d) auto

lemma dlookup_cong: "key_norm k = key_norm k' \<Longrightarrow> dlookup k d = dlookup k' d"
  by (induction d) auto

lemma dset_not_Nil [simp]: "dset k v d \<noteq> []"
  by (cases "(k, v, d)" rule: dset.cases) auto

lemma dlookup_None_iff: "dlookup k d = None \<longleftrightarrow> key_norm k \<notin> (key_norm \<circ> fst) ` set d"
  by (induction k d rule: dlookup.induct) auto

lemma dlookup_SomeD: "dlookup k d = Some v \<Longrightarrow> \<exists>k'. (k', v) \<in> set d \<and> key_norm k' = key_norm k"
  by (induction d) (auto split: if_splits)

lemma dset_keys:
  "(key_norm \<circ> fst) ` set (dset k v d) = insert (key_norm k) ((key_norm \<circ> fst) ` set d)"
  by (induction k v d rule: dset.induct) auto

lemma dict_wf_Cons: "dict_wf ((k, v) # d) \<longleftrightarrow> dlookup k d = None \<and> dict_wf d"
  by (simp add: dict_wf_def dlookup_None_iff)

lemma dict_wf_dset: "dict_wf d \<Longrightarrow> dict_wf (dset k v d)"
proof (induction k v d rule: dset.induct)
  case (1 k v)
  then show ?case by (simp add: dict_wf_def)
next
  case (2 k v k' w d)
  then show ?case by (auto simp: dict_wf_Cons)
qed

lemma dict_wf_dlookup: "dict_wf d \<Longrightarrow> (k, v) \<in> set d \<Longrightarrow> dlookup k d = Some v"
  by (induction d) (force simp: dict_wf_def)+

lemma dmerge_snoc: "foldl (\<lambda>acc (k, v). dset k v acc) acc (d @ [(k, v)]) =
    dset k v (foldl (\<lambda>acc (k, v). dset k v acc) acc d)"
  by simp

lemma dlookup_foldl_dset:
  "dlookup k (foldl (\<lambda>acc (k, v). dset k v acc) acc d) =
     (case dlookup k (rev d) of None \<Rightarrow> dlookup k acc | Some v \<Rightarrow> Some v)"
proof (induction d rule: rev_induct)
  case (snoc x d)
  then show ?case by (cases x) auto
qed simp

lemma dlookup_rev: "dict_wf d \<Longrightarrow> dlookup k (rev d) = dlookup k d"
proof (cases "dlookup k d")
  case None
  then have "dlookup k (rev d) = None" by (simp only: dlookup_None_iff set_rev not_False_eq_True)
  with None show ?thesis by simp
next
  case (Some v)
  assume wf: "dict_wf d"
  from Some obtain k' where k': "(k', v) \<in> set d" "key_norm k' = key_norm k"
    by (auto dest: dlookup_SomeD)
  have "dict_wf (rev d)" using wf by (simp add: dict_wf_def rev_map [symmetric])
  with k' have "dlookup k' (rev d) = Some v" by (intro dict_wf_dlookup) auto
  with k' Some show ?thesis by (metis dlookup_cong)
qed

text \<open>\<open>{**d, **e}\<close> reads \<open>e\<close> first.\<close>

lemma dlookup_dmerge:
  "dict_wf d \<Longrightarrow> dict_wf e \<Longrightarrow>
   dlookup k (dmerge d e) = (case dlookup k e of None \<Rightarrow> dlookup k d | Some v \<Rightarrow> Some v)"
  by (simp add: dmerge_def dlookup_foldl_dset dlookup_rev split: option.splits)

subsection \<open>Lemmas on JSON documents\<close>

lemma is_json_items_keys: "is_json_items d \<Longrightarrow> (k, v) \<in> set d \<Longrightarrow> (\<exists>s. k = KStr s) \<and> is_json v"
  by (induction d) (auto split: pykey.splits)

lemma is_json_items_iff:
  "is_json_items d \<longleftrightarrow> (\<forall>(k, v)\<in>set d. (\<exists>s. k = KStr s) \<and> is_json v)"
  by (induction d) (auto split: pykey.splits)

lemma is_json_list_iff: "is_json_list vs \<longleftrightarrow> (\<forall>v\<in>set vs. is_json v)"
  by (induction vs) auto

lemma is_json_items_norm: "is_json_items d \<Longrightarrow> map (key_norm \<circ> fst) d = map fst d"
  by (force simp: is_json_items_iff)

lemma is_json_dict_wf: "is_json (PDict d) \<Longrightarrow> dict_wf d"
  by (simp add: dict_wf_def is_json_items_norm)

lemma is_json_dset:
  assumes "is_json (PDict d)" and "is_json v"
  shows "is_json (PDict (dset (KStr s) v d))"
proof -
  have items: "is_json_items (dset (KStr s) v d)"
    using assms by (induction d) (auto split: pykey.splits)
  have "dict_wf (dset (KStr s) v d)"
    using assms(1) by (intro dict_wf_dset is_json_dict_wf)
  with items show ?thesis by (simp add: dict_wf_def is_json_items_norm)
qed

lemma dmerge_json:
  assumes "is_json (PDict d)" and "is_json (PDict e)"
  shows "is_json (PDict (dmerge d e))"
proof -
  have "is_json (PDict acc) \<Longrightarrow> \<forall>(k, v)\<in>set xs. (\<exists>s. k = KStr s) \<and> is_json v \<Longrightarrow>
      is_json (PDict (foldl (\<lambda>acc (k, v). dset k v acc) acc xs))" for acc xs
  proof (induction xs arbitrary: acc)
    case (Cons x xs)
    then obtain s v where "x = (KStr s, v)" "is_json v" by auto
    then show ?case using Cons is_json_dset [of acc v s] by (simp del: is_json.simps)
  qed simp
  moreover have "\<forall>(k, v)\<in>set (d @ e). (\<exists>s. k = KStr s) \<and> is_json v" using assms is_json_items_keys by auto
  ultimately show ?thesis unfolding dmerge_def by simp
qed

lemma is_json_dlookup: "is_json_items d \<Longrightarrow> dlookup k d = Some v \<Longrightarrow> is_json v"
  using is_json_items_keys dlookup_SomeD by blast

text \<open>Whatever survives the round trip is a JSON document.\<close>

lemma json_sound:
  "json_val v = Some w \<Longrightarrow> is_json w"
  "json_list vs = Some ws \<Longrightarrow> is_json_list ws"
  "json_items d acc = Some e \<Longrightarrow> is_json (PDict acc) \<Longrightarrow> is_json (PDict e)"
proof (induction v and vs and d acc arbitrary: w and ws and e rule: json_val_json_list_json_items.induct)
  case (3 d)
  then obtain e where "json_items d [] = Some e" "w = PDict e" by auto
  with 3 show ?case by simp
next
  case (9 k v d acc)
  then obtain w where w: "json_val v = Some w" "json_items d (dset (KStr (json_key k)) w acc) = Some e"
    by (auto split: option.splits)
  with 9 have "is_json (PDict (dset (KStr (json_key k)) w acc))"
    by (intro is_json_dset) auto
  with w 9 show ?case by blast
qed (auto split: option.splits)

lemma dset_new: "dlookup k d = None \<Longrightarrow> dset k v d = d @ [(k, v)]"
  by (induction d) (auto split: if_splits)

text \<open>A JSON document is its own round trip.\<close>

lemma json_id:
  "is_json v \<Longrightarrow> json_val v = Some v"
  "is_json_list vs \<Longrightarrow> json_list vs = Some vs"
  "is_json_items d \<Longrightarrow> distinct (map fst (acc @ d)) \<Longrightarrow> is_json_items acc \<Longrightarrow> json_items d acc = Some (acc @ d)"
proof (induction v and vs and d arbitrary: and and acc rule: is_json_is_json_list_is_json_items.induct)
  case (9 k v d)
  from 9 obtain s where k: "k = KStr s" by (auto split: pykey.splits)
  have "\<forall>a\<in>set acc. key_norm (fst a) = fst a" and "KStr s \<notin> fst ` set acc"
    using "9.prems" k is_json_items_norm [of acc] by auto
  then have "dlookup (KStr s) acc = None"
    by (force simp: dlookup_None_iff)
  then have "dset (KStr s) v acc = acc @ [(KStr s, v)]" by (rule dset_new)
  moreover have "is_json_items (acc @ [(KStr s, v)])"
    using 9 k by (auto simp: is_json_items_iff)
  ultimately show ?case using 9 k by simp
qed auto

lemma json_idem: "json_val v = Some w \<Longrightarrow> json_val w = Some w"
  by (blast intro: json_id json_sound)

subsection \<open>Equality is reflexive on JSON documents\<close>

lemma py_eq_refl_json:
  "is_json v \<Longrightarrow> py_eq v v"
  "is_json_list vs \<Longrightarrow> py_eq_list vs vs"
  "is_json_items d \<Longrightarrow> set d \<subseteq> set e \<Longrightarrow> dict_wf e \<Longrightarrow> py_eq_items d e"
proof (induction v and vs and d arbitrary: and and e rule: is_json_is_json_list_is_json_items.induct)
  case (3 d)
  then show ?case using is_json_dict_wf [of d] by simp
next
  case (9 k v d)
  then have "dlookup k e = Some v" by (intro dict_wf_dlookup) auto
  with 9 show ?case by simp
qed auto

subsection \<open>Decimal numbers\<close>

lemma digit_char_code: "d < 10 \<Longrightarrow> of_char (digit_char d) = 48 + d"
  by (simp add: digit_char_def)

lemma digit_char_digit:
  assumes "d < 10"
  shows "is_digit (digit_char d) \<and> digit_val (digit_char d) = d \<and> digit_char d \<noteq> CHR ''-'' \<and> digit_char d \<noteq> CHR ''.''"
proof -
  have "of_char (digit_char d) \<noteq> (of_char (CHR ''-'') :: nat)"
    and "of_char (digit_char d) \<noteq> (of_char (CHR ''.'') :: nat)"
    unfolding digit_char_code [OF assms] by simp_all
  then show ?thesis
    using digit_char_code [OF assms] assms by (auto simp: is_digit_def digit_val_def Let_def)
qed

lemma str_nat_digits: "\<forall>c\<in>set (str_nat n). is_digit c \<and> c \<noteq> CHR ''-'' \<and> c \<noteq> CHR ''.''"
proof (induction n rule: str_nat.induct)
  case (1 n)
  then show ?case by (subst str_nat.simps) (auto simp: digit_char_digit)
qed

lemma str_nat_not_Nil [simp]: "str_nat n \<noteq> []"
  by (subst str_nat.simps) simp

lemma nat_of_digits_snoc: "nat_of_digits (ds @ [c]) = 10 * nat_of_digits ds + digit_val c"
  by (simp add: nat_of_digits_def)

lemma nat_of_digits_str_nat [simp]: "nat_of_digits (str_nat n) = n"
proof (induction n rule: str_nat.induct)
  case (1 n)
  show ?case
  proof (cases "n < 10")
    case True
    then show ?thesis
      by (subst str_nat.simps) (simp add: nat_of_digits_def digit_char_digit)
  next
    case False
    with 1 show ?thesis
      by (subst str_nat.simps) (simp add: nat_of_digits_snoc digit_char_digit)
  qed
qed

lemma str_nat_inject [simp]: "str_nat m = str_nat n \<longleftrightarrow> m = n"
  by (metis nat_of_digits_str_nat)

end
