(* ===== verification/Flow_Model.thy ===== *)
theory Flow_Model
  imports Py_Value
begin

text \<open>
  The typed model of \<^verbatim>\<open>flow.yaml\<close> manifests (\<^verbatim>\<open>backend/flows/model.py\<close>): retry policies, budgets,
  triggers, nodes, edges and manifests, with the lookups on a manifest and the version helpers. The
  \<^verbatim>\<open>packaging\<close> library (\<open>Version\<close>, \<open>SpecifierSet\<close>) is the parameter \<open>version_lib\<close>.
\<close>

subsection \<open>Records\<close>

record flow_retry_policy =
  max_attempts :: int
  backoff :: string
  initial_delay_sec :: rat

definition DEFAULT_FLOW_RETRIES :: flow_retry_policy where
  "DEFAULT_FLOW_RETRIES = \<lparr>max_attempts = 1, backoff = ''exponential'', initial_delay_sec = 2\<rparr>"

record flow_defaults =
  default_retries :: flow_retry_policy
  default_timeout_sec :: "int option"

definition DEFAULT_FLOW_DEFAULTS :: flow_defaults where
  "DEFAULT_FLOW_DEFAULTS = \<lparr>default_retries = DEFAULT_FLOW_RETRIES, default_timeout_sec = None\<rparr>"

datatype flow_budgets =
  FlowBudgets (max_cost_usd: rat) (max_wall_clock_sec: int) (max_tokens: int)

definition DEFAULT_FLOW_BUDGETS :: flow_budgets where
  "DEFAULT_FLOW_BUDGETS = FlowBudgets 10 3600 2000000"

record run_metrics =
  tokens :: rat
  cost_usd :: rat

datatype violation =
    WallClockExceeded rat int
  | TokensExceeded rat int
  | CostExceeded rat rat
  | StepCapReached int

definition budgets_violation :: "flow_budgets \<Rightarrow> run_metrics \<Rightarrow> rat \<Rightarrow> violation option" where
  "budgets_violation b m elapsed =
     (if elapsed > of_int (max_wall_clock_sec b) then Some (WallClockExceeded elapsed (max_wall_clock_sec b))
      else if tokens m > of_int (max_tokens b) then Some (TokensExceeded (tokens m) (max_tokens b))
      else if cost_usd m > max_cost_usd b then Some (CostExceeded (cost_usd m) (max_cost_usd b))
      else None)"

record flow_trigger =
  trigger_type :: string
  trigger_on :: "string option"
  trigger_schedule :: "string option"
  trigger_metadata :: pydict

record flow_node_ref =
  ref_id :: string
  version_range :: string

definition ref_raw :: "flow_node_ref \<Rightarrow> string" where
  "ref_raw r = (if version_range r = ''*'' then ref_id r else ref_id r @ ''@'' @ version_range r)"

record flow_node =
  node_id :: string
  node_type :: string
  node_ref :: "flow_node_ref option"
  input_bindings :: pydict
  prompt :: "string option"
  form :: "pydict option"
  timeout_sec :: "int option"
  on_timeout :: "string option"
  retries :: "flow_retry_policy option"
  over :: "string option"
  reduce_mode :: string
  max_parallel :: "int option"
  node_raw :: pydict

record flow_edge =
  source :: string
  target :: string
  edge_when :: "string option"
  edge_on :: "string option"

definition guarded :: "flow_edge \<Rightarrow> bool" where
  "guarded e = (edge_when e \<noteq> None \<or> edge_on e \<noteq> None)"

record flow_io =
  io_schema_version :: string
  io_schema :: pydict

record flow_manifest =
  schema_version :: string
  flow_id :: string
  version :: string
  host_api :: string
  flow_name :: "string option"
  description :: "string option"
  triggers :: "flow_trigger list"
  flow_input :: "flow_io option"
  flow_output :: "flow_io option"
  defaults :: flow_defaults
  nodes :: "flow_node list"
  edges :: "flow_edge list"
  budgets :: flow_budgets
  manifest_raw :: pydict

subsection \<open>Vocabularies\<close>

definition FLOW_NODE_TYPES :: "string list" where
  "FLOW_NODE_TYPES = [''agent'', ''skill'', ''tool'', ''conditional'', ''human'', ''subflow'', ''map'']"

definition REF_NODE_TYPES :: "string list" where
  "REF_NODE_TYPES = [''agent'', ''skill'', ''tool'', ''subflow'', ''map'']"

definition TRIGGER_TYPES :: "string list" where
  "TRIGGER_TYPES = [''message'', ''webhook'', ''cron'', ''event'']"

definition BACKOFF_MODES :: "string list" where
  "BACKOFF_MODES = [''fixed'', ''exponential'']"

definition REDUCE_MODES :: "string list" where
  "REDUCE_MODES = [''collect'']"

subsection \<open>Lookups on a manifest\<close>

text \<open>\<open>FlowManifest.node\<close>: \<open>None\<close> is the \<open>KeyError\<close>.\<close>

definition find_node :: "flow_manifest \<Rightarrow> string \<Rightarrow> flow_node option" where
  "find_node m nid = List.find (\<lambda>n. node_id n = nid) (nodes m)"

definition edges_from :: "flow_manifest \<Rightarrow> string \<Rightarrow> flow_edge list" where
  "edges_from m nid = filter (\<lambda>e. source e = nid) (edges m)"

text \<open>\<open>FlowManifest.entry_node\<close>: \<open>None\<close> is the \<open>ValueError\<close>.\<close>

definition entry_node :: "flow_manifest \<Rightarrow> flow_node option" where
  "entry_node m =
     (case filter (\<lambda>n. node_id n \<notin> target ` set (edges m)) (nodes m) of
        [n] \<Rightarrow> Some n
      | _ \<Rightarrow> None)"

subsection \<open>Identifiers and versions\<close>

text \<open>\<open>str.split(sep)\<close> with a separator of one character.\<close>

fun split_on :: "char \<Rightarrow> string \<Rightarrow> string list" where
  "split_on sep [] = [[]]"
| "split_on sep (c # s) =
     (if c = sep then [] # split_on sep s
      else case split_on sep s of [] \<Rightarrow> [[c]] | p # ps \<Rightarrow> (c # p) # ps)"

text \<open>\<open>str.split()\<close>: the runs of characters that are not white space.\<close>

function words_of :: "string \<Rightarrow> string list" where
  "words_of s =
     (case dropWhile is_space s of
        [] \<Rightarrow> []
      | c # r \<Rightarrow> (c # takeWhile (\<lambda>x. \<not> is_space x) r) # words_of (dropWhile (\<lambda>x. \<not> is_space x) r))"
  by pat_completeness auto
termination
proof (relation "measure length", goal_cases)
  case (2 s c r)
  have "length (dropWhile (\<lambda>x. \<not> is_space x) r) \<le> length r" by (rule length_dropWhile_le)
  also have "length r < length (dropWhile is_space s)" using 2 by simp
  also have "\<dots> \<le> length s" by (rule length_dropWhile_le)
  finally show ?case by simp
qed simp

declare words_of.simps [simp del]

text \<open>
  \<open>re.match\<close> of a pattern that ends in the dollar sign, which also matches just before a final
  newline.
\<close>

definition dollar :: "(string \<Rightarrow> bool) \<Rightarrow> string \<Rightarrow> bool" where
  "dollar p s = (p s \<or> (s \<noteq> [] \<and> last s = CHR 0x0A \<and> p (butlast s)))"

definition kebab :: "string \<Rightarrow> bool" where
  "kebab s = (\<forall>p\<in>set (split_on (CHR ''-'') s). p \<noteq> [] \<and> (\<forall>c\<in>set p. is_lower c \<or> is_digit c))"

definition kebab_pair :: "string \<Rightarrow> bool" where
  "kebab_pair s = (case split_on (CHR ''/'') s of [a, b] \<Rightarrow> kebab a \<and> kebab b | _ \<Rightarrow> False)"

definition NODE_ID_RE :: "string \<Rightarrow> bool" where
  "NODE_ID_RE = dollar kebab"

definition FLOW_ID_RE :: "string \<Rightarrow> bool" where
  "FLOW_ID_RE = dollar kebab_pair"

definition semver_char :: "char \<Rightarrow> bool" where
  "semver_char c = (is_digit c \<or> is_alpha c \<or> c = CHR ''.'' \<or> c = CHR ''-'')"

text \<open>One run of digits and the separator after it.\<close>

definition digits_dot :: "string \<Rightarrow> string option" where
  "digits_dot s =
     (if takeWhile is_digit s = [] then None
      else case dropWhile is_digit s of
             c # r \<Rightarrow> if c = CHR ''.'' then Some r else None
           | [] \<Rightarrow> None)"

definition semver_core :: "string \<Rightarrow> bool" where
  "semver_core s =
     (case digits_dot s of None \<Rightarrow> False
      | Some s1 \<Rightarrow> (case digits_dot s1 of None \<Rightarrow> False
      | Some s2 \<Rightarrow>
          takeWhile is_digit s2 \<noteq> [] \<and>
          (case dropWhile is_digit s2 of
             [] \<Rightarrow> True
           | c # r \<Rightarrow> (c = CHR ''-'' \<or> c = CHR ''+'') \<and> r \<noteq> [] \<and> (\<forall>x\<in>set r. semver_char x))))"

definition is_semver :: "string \<Rightarrow> bool" where
  "is_semver = dollar semver_core"

text \<open>
  The \<^verbatim>\<open>packaging\<close> library: which strings parse as versions and as specifier sets, when two
  versions are equal, when one is below another, and when a version is in a specifier set.
\<close>

record version_lib =
  version_ok :: "string \<Rightarrow> bool"
  version_eq :: "string \<Rightarrow> string \<Rightarrow> bool"
  version_less :: "string \<Rightarrow> string \<Rightarrow> bool"
  specifier_ok :: "string \<Rightarrow> bool"
  in_specifier :: "string \<Rightarrow> string \<Rightarrow> bool"

definition normalize_range :: "string \<Rightarrow> string" where
  "normalize_range r = intercalate '','' (words_of r)"

definition is_supported_range :: "version_lib \<Rightarrow> string \<Rightarrow> bool" where
  "is_supported_range lib r =
     (r = ''*'' \<or> is_semver r \<or> specifier_ok lib (normalize_range r))"

text \<open>
  \<open>version_in_range\<close>. The call \<open>Version(version_range)\<close> on a range that is a SemVer string
  raises when the library does not parse it (\<open>None\<close>).
\<close>

definition version_in_range :: "version_lib \<Rightarrow> string \<Rightarrow> string \<Rightarrow> bool option" where
  "version_in_range lib v r =
     (if r = ''*'' then Some True
      else if \<not> version_ok lib v then Some False
      else if is_semver r then (if version_ok lib r then Some (version_eq lib r v) else None)
      else if specifier_ok lib (normalize_range r) then Some (in_specifier lib v (normalize_range r))
      else Some False)"

subsection \<open>Lemmas\<close>

lemma find_node_SomeD: "find_node m nid = Some n \<Longrightarrow> n \<in> set (nodes m) \<and> node_id n = nid"
  unfolding find_node_def by (drule find_SomeD) simp

lemma find_node_distinct:
  "distinct (map node_id (nodes m)) \<Longrightarrow> n \<in> set (nodes m) \<Longrightarrow> find_node m (node_id n) = Some n"
proof -
  assume d: "distinct (map node_id (nodes m))" and n: "n \<in> set (nodes m)"
  have "find_node m (node_id n) \<noteq> None" using n by (auto simp: find_node_def find_None_iff)
  then obtain n' where n': "find_node m (node_id n) = Some n'" by blast
  with find_node_SomeD have "n' \<in> set (nodes m)" "node_id n' = node_id n" by blast+
  with d n have "n' = n" by (auto simp: distinct_map dest: inj_onD)
  with n' show ?thesis by simp
qed

lemma find_node_exists: "nid \<in> node_id ` set (nodes m) \<Longrightarrow> \<exists>n. find_node m nid = Some n \<and> node_id n = nid"
proof -
  assume "nid \<in> node_id ` set (nodes m)"
  then have "find_node m nid \<noteq> None" by (auto simp: find_node_def find_None_iff)
  then show ?thesis using find_node_SomeD by blast
qed

lemma edges_from_mem [simp]: "e \<in> set (edges_from m nid) \<longleftrightarrow> e \<in> set (edges m) \<and> source e = nid"
  by (auto simp: edges_from_def)

lemma entry_node_SomeD:
  "entry_node m = Some n \<Longrightarrow> n \<in> set (nodes m) \<and> (\<forall>e\<in>set (edges m). target e \<noteq> node_id n)"
proof -
  assume a: "entry_node m = Some n"
  then have "filter (\<lambda>n. node_id n \<notin> target ` set (edges m)) (nodes m) = [n]"
    by (auto simp: entry_node_def split: list.splits)
  then have "n \<in> set (filter (\<lambda>n. node_id n \<notin> target ` set (edges m)) (nodes m))" by simp
  then show ?thesis by force
qed

lemma budgets_violation_None:
  "budgets_violation b m elapsed = None \<longleftrightarrow>
     elapsed \<le> of_int (max_wall_clock_sec b) \<and> tokens m \<le> of_int (max_tokens b) \<and> cost_usd m \<le> max_cost_usd b"
  by (auto simp: budgets_violation_def)

end
