(* ===== verification/Flow_Expressions.thy ===== *)
theory Flow_Expressions
  imports Py_Value
begin

text \<open>
  The expression language of flow predicates and input bindings
  (\<^verbatim>\<open>backend/flows/expressions.py\<close>): the tokenizer, the recursive-descent parser, the evaluator,
  template rendering and the collection of referenced state paths. Every \<open>raise ExpressionError\<close>
  is a constructor of \<open>expr_error\<close>, with the arguments its message prints. The parser recurses
  with fuel (constructor \<open>OutOfFuel\<close>, no error of the source); \<open>compile_expression\<close> gives it
  enough, which is proved.
\<close>

subsection \<open>Syntax\<close>

datatype seg = SKey string | SIdx int

datatype enode =
    Literal pyval
  | Path "seg list"
  | Compare string enode enode
  | BoolOp string enode enode
  | Not enode

datatype expr_error =
    UnexpectedCharacter char string
  | UnexpectedEnd
  | ExpectedToken string
  | EmptyExpression
  | TrailingTokens string
  | UnexpectedKeyword string
  | UnexpectedToken string
  | ExpectedIdentifier string
  | InvalidSubscript string
  | OrderingRequiresNumbers string pyval pyval
  | OutOfFuel

datatype tkind = TOp | TNumber | TString | TIdent

type_synonym token = "tkind \<times> string"
type_synonym 'a parsed = "(expr_error, 'a \<times> token list) result"

definition comparison_ops :: "string list" where
  "comparison_ops = [''=='', ''!='', ''<'', ''<='', ''>'', ''>='']"

definition expr_keywords :: "string list" where
  "expr_keywords = [''and'', ''or'', ''not'', ''true'', ''false'', ''null'']"

subsection \<open>The tokenizer\<close>

definition ident_start :: "char \<Rightarrow> bool" where
  "ident_start c = (is_alpha c \<or> c = CHR ''_'')"

definition ident_char :: "char \<Rightarrow> bool" where
  "ident_char c = (is_alpha c \<or> is_digit c \<or> c = CHR ''_'' \<or> c = CHR ''-'')"

definition op_lexemes :: "string list" where
  "op_lexemes = [''=='', ''!='', ''<='', ''>='', ''<'', ''>'', ''('', '')'', ''['', '']'', ''.'']"

definition lex_op :: "string \<Rightarrow> (string \<times> string) option" where
  "lex_op s =
     (case List.find (\<lambda>p. starts_with p s) op_lexemes of
        None \<Rightarrow> None
      | Some p \<Rightarrow> Some (p, drop (length p) s))"

definition lex_digits :: "string \<Rightarrow> string \<Rightarrow> (string \<times> string) option" where
  "lex_digits sign r =
     (let ds = takeWhile is_digit r; r1 = dropWhile is_digit r in
      if ds = [] then None
      else case r1 of
             [] \<Rightarrow> Some (sign @ ds, r1)
           | c # r2 \<Rightarrow>
               (let fs = takeWhile is_digit r2 in
                if c = CHR ''.'' \<and> fs \<noteq> [] then Some (sign @ ds @ ''.'' @ fs, dropWhile is_digit r2)
                else Some (sign @ ds, r1)))"

definition lex_number :: "string \<Rightarrow> (string \<times> string) option" where
  "lex_number s =
     (case s of [] \<Rightarrow> None
      | c # r \<Rightarrow> if c = CHR ''-'' then lex_digits ''-'' r else lex_digits [] s)"

definition lex_string :: "string \<Rightarrow> (string \<times> string) option" where
  "lex_string s =
     (case s of [] \<Rightarrow> None
      | q # r \<Rightarrow>
          if q = squote \<or> q = dquote
          then case dropWhile (\<lambda>c. c \<noteq> q) r of
                 [] \<Rightarrow> None
               | _ # r' \<Rightarrow> Some ([q] @ takeWhile (\<lambda>c. c \<noteq> q) r @ [q], r')
          else None)"

definition lex_ident :: "string \<Rightarrow> (string \<times> string) option" where
  "lex_ident s =
     (case s of [] \<Rightarrow> None
      | c # r \<Rightarrow>
          if ident_start c then Some (c # takeWhile ident_char r, dropWhile ident_char r) else None)"

text \<open>One match of the token pattern, its alternatives in their order; \<open>None\<close> as kind is white space.\<close>

definition match_token :: "string \<Rightarrow> (tkind option \<times> string \<times> string) option" where
  "match_token s =
     (if takeWhile is_space s \<noteq> [] then Some (None, takeWhile is_space s, dropWhile is_space s)
      else case lex_op s of Some (t, r) \<Rightarrow> Some (Some TOp, t, r)
      | None \<Rightarrow> (case lex_number s of Some (t, r) \<Rightarrow> Some (Some TNumber, t, r)
      | None \<Rightarrow> (case lex_string s of Some (t, r) \<Rightarrow> Some (Some TString, t, r)
      | None \<Rightarrow> (case lex_ident s of Some (t, r) \<Rightarrow> Some (Some TIdent, t, r)
      | None \<Rightarrow> None))))"

lemma starts_with_length: "starts_with p s \<Longrightarrow> length p \<le> length s"
  by (induction p s rule: starts_with.induct) auto

lemma lex_op_shorter:
  assumes "lex_op s = Some (t, r)"
  shows "length r < length s"
proof -
  from assms have f: "List.find (\<lambda>p. starts_with p s) op_lexemes = Some t" and r: "r = drop (length t) s"
    by (auto simp: lex_op_def split: option.splits)
  from f have "t \<in> set op_lexemes" and "starts_with t s"
    by (auto dest: find_SomeD)
  then have "t \<noteq> []" and "length t \<le> length s"
    by (auto simp: op_lexemes_def starts_with_length)
  with r show ?thesis by (cases s; cases t) auto
qed

lemma lex_digits_shorter: "lex_digits sg r = Some (t, r') \<Longrightarrow> length r' < length r"
proof -
  assume a: "lex_digits sg r = Some (t, r')"
  have 1: "length r = length (takeWhile is_digit r) + length (dropWhile is_digit r)"
    by (metis length_append takeWhile_dropWhile_id)
  have 2: "length r' \<le> length (dropWhile is_digit r)"
    using a length_dropWhile_le [of is_digit "tl (dropWhile is_digit r)"]
    by (cases "dropWhile is_digit r") (auto simp: lex_digits_def Let_def split: if_splits, (metis length_Cons order_refl)+)
  have "takeWhile is_digit r \<noteq> []"
    using a by (auto simp: lex_digits_def Let_def split: if_splits)
  with 1 2 show ?thesis by (cases "takeWhile is_digit r") auto
qed

lemma lex_number_shorter: "lex_number s = Some (t, r) \<Longrightarrow> length r < length s"
  by (fastforce simp: lex_number_def split: list.splits if_splits dest: lex_digits_shorter)

lemma lex_string_shorter: "lex_string s = Some (t, r) \<Longrightarrow> length r < length s"
proof (cases s)
  case (Cons q r0)
  assume "lex_string s = Some (t, r)"
  with Cons have "length r < length (dropWhile (\<lambda>c. c \<noteq> q) r0)"
    by (auto simp: lex_string_def split: if_splits list.splits)
  also have "\<dots> \<le> length r0" by (rule length_dropWhile_le)
  finally show ?thesis using Cons by simp
qed (simp add: lex_string_def)

lemma lex_ident_shorter: "lex_ident s = Some (t, r) \<Longrightarrow> length r < length s"
  using length_dropWhile_le
  by (auto simp: lex_ident_def less_Suc_eq_le split: list.splits if_splits)

lemma match_token_shorter: "match_token s = Some (k, t, r) \<Longrightarrow> length r < length s"
proof -
  have "takeWhile is_space s \<noteq> [] \<Longrightarrow> length (dropWhile is_space s) < length s"
    by (metis add_less_same_cancel2 length_append length_greater_0_conv less_add_same_cancel2
        takeWhile_dropWhile_id)
  then show "match_token s = Some (k, t, r) \<Longrightarrow> length r < length s"
    by (auto simp: match_token_def split: if_splits option.splits
        dest: lex_op_shorter lex_number_shorter lex_string_shorter lex_ident_shorter)
qed

function tokenize :: "string \<Rightarrow> string \<Rightarrow> (expr_error, token list) result" where
  "tokenize src [] = Inr []"
| "tokenize src (c # s) =
     (case match_token (c # s) of
        None \<Rightarrow> Inl (UnexpectedCharacter c src)
      | Some (None, t, r) \<Rightarrow> tokenize src r
      | Some (Some k, t, r) \<Rightarrow> bind_r (tokenize src r) (\<lambda>ts. Inr ((k, t) # ts)))"
  by pat_completeness auto
termination
proof (relation "measure (\<lambda>(src, s). length s)", goal_cases)
  case 1
  then show ?case by simp
next
  case (2 src c s p k q t r)
  then show ?case using match_token_shorter [of "c # s" k t r] by simp
next
  case (3 src c s p ok q k t r)
  then show ?case using match_token_shorter [of "c # s" ok t r] by simp
qed

subsection \<open>The parser\<close>

text \<open>\<open>int(text)\<close> and \<open>float(text)\<close> of a number token.\<close>

definition unsigned_part :: "string \<Rightarrow> string" where
  "unsigned_part t = (case t of [] \<Rightarrow> [] | c # r \<Rightarrow> if c = CHR ''-'' then r else t)"

definition number_int :: "string \<Rightarrow> int" where
  "number_int t = (let m = int (nat_of_digits (unsigned_part t)) in
     if starts_with ''-'' t then - m else m)"

definition number_rat :: "string \<Rightarrow> rat" where
  "number_rat t =
     (let u = unsigned_part t; ds = takeWhile is_digit u; fs = tl (dropWhile is_digit u);
          m = of_nat (nat_of_digits (ds @ fs)) / 10 ^ length fs
      in if starts_with ''-'' t then - m else m)"

definition number_literal :: "string \<Rightarrow> pyval" where
  "number_literal t = (if CHR ''.'' \<in> set t then PFloat (number_rat t) else PInt (number_int t))"

text \<open>\<open>text[1:-1]\<close> of a string token.\<close>

definition string_body :: "string \<Rightarrow> string" where
  "string_body t = butlast (tl t)"

definition peek_keyword :: "token list \<Rightarrow> string option" where
  "peek_keyword ts =
     (case ts of
        (TIdent, t) # _ \<Rightarrow> if t \<in> {''and'', ''or'', ''not''} then Some t else None
      | _ \<Rightarrow> None)"

text \<open>The token \<open>expect\<close>ed next.\<close>

definition expect :: "string \<Rightarrow> token list \<Rightarrow> (expr_error, token list) result" where
  "expect text ts =
     (case ts of
        [] \<Rightarrow> Inl (ExpectedToken text)
      | (k, t) # r \<Rightarrow> if t = text then Inr r else Inl (ExpectedToken text))"

text \<open>The loop of \<open>_parse_path\<close>, after its first identifier.\<close>

fun parse_path_loop :: "seg list \<Rightarrow> token list \<Rightarrow> enode parsed" where
  "parse_path_loop segs [] = Inr (Path segs, [])"
| "parse_path_loop segs ((k, t) # ts) =
     (if t = ''.'' then
        (case ts of
           [] \<Rightarrow> Inl UnexpectedEnd
         | (k2, t2) # r \<Rightarrow>
             if k2 \<noteq> TIdent then Inl (ExpectedIdentifier t2)
             else parse_path_loop (segs @ [SKey t2]) r)
      else if t = ''['' then
        (case ts of
           [] \<Rightarrow> Inl UnexpectedEnd
         | (k2, t2) # r \<Rightarrow>
             if k2 = TString then
               (case r of
                  [] \<Rightarrow> Inl (ExpectedToken '']'')
                | (k3, t3) # r3 \<Rightarrow>
                    if t3 = '']'' then parse_path_loop (segs @ [SKey (string_body t2)]) r3
                    else Inl (ExpectedToken '']''))
             else if k2 = TNumber \<and> CHR ''.'' \<notin> set t2 then
               (case r of
                  [] \<Rightarrow> Inl (ExpectedToken '']'')
                | (k3, t3) # r3 \<Rightarrow>
                    if t3 = '']'' then parse_path_loop (segs @ [SIdx (number_int t2)]) r3
                    else Inl (ExpectedToken '']''))
             else Inl (InvalidSubscript t2))
      else Inr (Path segs, (k, t) # ts))"

function (sequential) parse_or :: "nat \<Rightarrow> token list \<Rightarrow> enode parsed"
  and parse_or_loop :: "nat \<Rightarrow> enode \<Rightarrow> token list \<Rightarrow> enode parsed"
  and parse_and :: "nat \<Rightarrow> token list \<Rightarrow> enode parsed"
  and parse_and_loop :: "nat \<Rightarrow> enode \<Rightarrow> token list \<Rightarrow> enode parsed"
  and parse_not :: "nat \<Rightarrow> token list \<Rightarrow> enode parsed"
  and parse_comparison :: "nat \<Rightarrow> token list \<Rightarrow> enode parsed"
  and parse_operand :: "nat \<Rightarrow> token list \<Rightarrow> enode parsed" where
  "parse_or 0 ts = Inl OutOfFuel"
| "parse_or (Suc n) ts = bind_r (parse_and n ts) (\<lambda>(node, r). parse_or_loop n node r)"
| "parse_or_loop 0 node ts = Inl OutOfFuel"
| "parse_or_loop (Suc n) node ts =
     (if peek_keyword ts = Some ''or''
      then bind_r (parse_and n (tl ts)) (\<lambda>(right, r). parse_or_loop n (BoolOp ''or'' node right) r)
      else Inr (node, ts))"
| "parse_and 0 ts = Inl OutOfFuel"
| "parse_and (Suc n) ts = bind_r (parse_not n ts) (\<lambda>(node, r). parse_and_loop n node r)"
| "parse_and_loop 0 node ts = Inl OutOfFuel"
| "parse_and_loop (Suc n) node ts =
     (if peek_keyword ts = Some ''and''
      then bind_r (parse_not n (tl ts)) (\<lambda>(right, r). parse_and_loop n (BoolOp ''and'' node right) r)
      else Inr (node, ts))"
| "parse_not 0 ts = Inl OutOfFuel"
| "parse_not (Suc n) ts =
     (if peek_keyword ts = Some ''not''
      then bind_r (parse_not n (tl ts)) (\<lambda>(node, r). Inr (Not node, r))
      else parse_comparison n ts)"
| "parse_comparison 0 ts = Inl OutOfFuel"
| "parse_comparison (Suc n) ts =
     bind_r (parse_operand n ts) (\<lambda>(left, r).
       (case r of
          (k, op) # r' \<Rightarrow>
            if op \<in> set comparison_ops
            then bind_r (parse_operand n r') (\<lambda>(right, r2). Inr (Compare op left right, r2))
            else Inr (left, r)
        | [] \<Rightarrow> Inr (left, r)))"
| "parse_operand 0 ts = Inl OutOfFuel"
| "parse_operand (Suc n) ts =
     (case ts of
        [] \<Rightarrow> Inl UnexpectedEnd
      | (kind, text) # r \<Rightarrow>
          if text = ''('' then
            bind_r (parse_or n r) (\<lambda>(node, r1). bind_r (expect '')'' r1) (\<lambda>r2. Inr (node, r2)))
          else if kind = TNumber then Inr (Literal (number_literal text), r)
          else if kind = TString then Inr (Literal (PStr (string_body text)), r)
          else if kind = TIdent then
            (if text \<in> {''true'', ''false''} then Inr (Literal (PBool (text = ''true'')), r)
             else if text = ''null'' then Inr (Literal PNone, r)
             else if text \<in> set expr_keywords then Inl (UnexpectedKeyword text)
             else parse_path_loop [SKey text] r)
          else Inl (UnexpectedToken text))"
  by pat_completeness auto
termination
  by (relation "measure (case_sum (case_sum fst (case_sum fst fst))
        (case_sum (case_sum fst fst) (case_sum fst fst)))") simp_all

definition parse_fuel :: "token list \<Rightarrow> nat" where
  "parse_fuel ts = 5 + 5 * length ts"

definition parse_tokens :: "string \<Rightarrow> token list \<Rightarrow> (expr_error, enode) result" where
  "parse_tokens src ts =
     bind_r (parse_or (parse_fuel ts) ts) (\<lambda>(root, r).
       if r \<noteq> [] then Inl (TrailingTokens src) else Inr root)"

definition compile_expression :: "string \<Rightarrow> (expr_error, enode) result" where
  "compile_expression source =
     (let text = strip source in
      if text = [] then Inl EmptyExpression
      else bind_r (tokenize text text) (\<lambda>ts. parse_tokens source ts))"

subsection \<open>Paths and evaluation\<close>

fun key_prefix :: "seg list \<Rightarrow> string list" where
  "key_prefix (SKey k # segs) = k # key_prefix segs"
| "key_prefix _ = []"

fun collect_paths :: "enode \<Rightarrow> string list list" where
  "collect_paths (Path segs) = [key_prefix segs]"
| "collect_paths (Compare op l r) = collect_paths l @ collect_paths r"
| "collect_paths (BoolOp op l r) = collect_paths l @ collect_paths r"
| "collect_paths (Not e) = collect_paths e"
| "collect_paths (Literal v) = []"

fun seq_items :: "pyval \<Rightarrow> pyval list option" where
  "seq_items (PList vs) = Some vs"
| "seq_items (PTuple vs) = Some vs"
| "seq_items _ = None"

fun resolve_path :: "seg list \<Rightarrow> pyval \<Rightarrow> pyval" where
  "resolve_path [] cur = cur"
| "resolve_path (SIdx i # segs) cur =
     (case seq_items cur of
        Some vs \<Rightarrow>
          if - int (length vs) \<le> i \<and> i < int (length vs)
          then resolve_path segs (vs ! nat (if i < 0 then int (length vs) + i else i))
          else PNone
      | None \<Rightarrow> PNone)"
| "resolve_path (SKey k # segs) cur =
     (case cur of
        PDict d \<Rightarrow> (case dget d k of Some v \<Rightarrow> resolve_path segs v | None \<Rightarrow> PNone)
      | _ \<Rightarrow> PNone)"

definition compare_values :: "string \<Rightarrow> pyval \<Rightarrow> pyval \<Rightarrow> (expr_error, pyval) result" where
  "compare_values op l r =
     (if op = ''=='' then Inr (PBool (py_eq l r))
      else if op = ''!='' then Inr (PBool (\<not> py_eq l r))
      else case (num_of l, num_of r) of
             (Some a, Some b) \<Rightarrow>
               Inr (PBool (if op = ''<'' then a < b else if op = ''<='' then a \<le> b
                           else if op = ''>'' then a > b else a \<ge> b))
           | _ \<Rightarrow> Inl (OrderingRequiresNumbers op l r))"

fun evaluate_node :: "enode \<Rightarrow> pyval \<Rightarrow> (expr_error, pyval) result" where
  "evaluate_node (Literal v) st = Inr v"
| "evaluate_node (Path segs) st = Inr (resolve_path segs st)"
| "evaluate_node (Not e) st = bind_r (evaluate_node e st) (\<lambda>v. Inr (PBool (\<not> truthy v)))"
| "evaluate_node (BoolOp op l r) st =
     bind_r (evaluate_node l st) (\<lambda>lv.
       if op = ''and''
       then (if truthy lv then bind_r (evaluate_node r st) (\<lambda>rv. Inr (PBool (truthy rv)))
             else Inr (PBool False))
       else (if truthy lv then Inr (PBool True)
             else bind_r (evaluate_node r st) (\<lambda>rv. Inr (PBool (truthy rv)))))"
| "evaluate_node (Compare op l r) st =
     bind_r (evaluate_node l st) (\<lambda>lv. bind_r (evaluate_node r st) (\<lambda>rv. compare_values op lv rv))"

definition evaluate_expression :: "string \<Rightarrow> pyval \<Rightarrow> (expr_error, pyval) result" where
  "evaluate_expression source st = bind_r (compile_expression source) (\<lambda>root. evaluate_node root st)"

subsection \<open>Templates\<close>

text \<open>The first occurrence of a delimiter: the text before it and the text after it.\<close>

fun break_at :: "string \<Rightarrow> string \<Rightarrow> (string \<times> string) option" where
  "break_at p [] = (if p = [] then Some ([], []) else None)"
| "break_at p (c # s) =
     (if starts_with p (c # s) then Some ([], drop (length p) (c # s))
      else map_option (\<lambda>(a, b). (c # a, b)) (break_at p s))"

lemma break_at_Some: "break_at p s = Some (a, b) \<Longrightarrow> length a + length p + length b = length s"
proof (induction p s arbitrary: a b rule: break_at.induct)
  case (2 p c s)
  then show ?case
    using starts_with_length [of p "c # s"] by (auto split: if_splits)
qed (auto split: if_splits)

text \<open>
  The matches of the template pattern in a string, left to right: for each match the text before it
  and the expression, and last the text after them all.
\<close>

function template_parts :: "string \<Rightarrow> (string \<times> string) list \<times> string" where
  "template_parts s =
     (case break_at ''{{'' s of
        None \<Rightarrow> ([], s)
      | Some (pre, r) \<Rightarrow>
          (case break_at ''}}'' r of
             None \<Rightarrow> ([], s)
           | Some (e, r') \<Rightarrow> (case template_parts r' of (ps, rest) \<Rightarrow> ((pre, e) # ps, rest))))"
  by pat_completeness auto
termination
proof (relation "measure length", goal_cases)
  case 1
  then show ?case by simp
next
  case (2 s p pre r q e r')
  then have "length pre + length ''{{'' + length r = length s"
    and "length e + length ''}}'' + length r' = length r"
    by (auto dest!: break_at_Some)
  then show ?case by simp
qed

declare template_parts.simps [simp del]

text \<open>
  \<open>fullmatch\<close> of the template pattern: the lazy group must reach the end of the string, so it
  spans everything between the first two and the last two characters.
\<close>

definition fullmatch_template :: "string \<Rightarrow> string option" where
  "fullmatch_template t =
     (if starts_with ''{{'' t \<and> ends_with ''}}'' t \<and> 4 \<le> length t
      then Some (take (length t - 4) (drop 2 t)) else None)"

fun interpolate :: "py_env \<Rightarrow> pyval \<Rightarrow> (string \<times> string) list \<Rightarrow> (expr_error, string) result" where
  "interpolate env st [] = Inr []"
| "interpolate env st ((pre, e) # ps) =
     bind_r (evaluate_expression e st) (\<lambda>v.
       bind_r (interpolate env st ps) (\<lambda>s. Inr (pre @ py_str env v @ s)))"

definition render_string :: "py_env \<Rightarrow> string \<Rightarrow> pyval \<Rightarrow> (expr_error, pyval) result" where
  "render_string env s st =
     (case fullmatch_template (strip s) of
        Some e \<Rightarrow> evaluate_expression e st
      | None \<Rightarrow>
          (case template_parts s of
             (ps, rest) \<Rightarrow> bind_r (interpolate env st ps) (\<lambda>t. Inr (PStr (t @ rest)))))"

fun render_template :: "py_env \<Rightarrow> pyval \<Rightarrow> pyval \<Rightarrow> (expr_error, pyval) result"
  and render_list :: "py_env \<Rightarrow> pyval list \<Rightarrow> pyval \<Rightarrow> (expr_error, pyval list) result"
  and render_items :: "py_env \<Rightarrow> pydict \<Rightarrow> pyval \<Rightarrow> (expr_error, pydict) result" where
  "render_template env (PStr s) st = render_string env s st"
| "render_template env (PDict d) st = bind_r (render_items env d st) (\<lambda>d'. Inr (PDict d'))"
| "render_template env (PList vs) st = bind_r (render_list env vs st) (\<lambda>vs'. Inr (PList vs'))"
| "render_template env v st = Inr v"
| "render_list env [] st = Inr []"
| "render_list env (v # vs) st =
     bind_r (render_template env v st) (\<lambda>w. bind_r (render_list env vs st) (\<lambda>ws. Inr (w # ws)))"
| "render_items env [] st = Inr []"
| "render_items env ((k, v) # d) st =
     bind_r (render_template env v st) (\<lambda>w. bind_r (render_items env d st) (\<lambda>e. Inr ((k, w) # e)))"

fun paths_of_parts :: "(string \<times> string) list \<Rightarrow> (expr_error, string list list) result" where
  "paths_of_parts [] = Inr []"
| "paths_of_parts ((pre, e) # ps) =
     bind_r (compile_expression e) (\<lambda>root.
       bind_r (paths_of_parts ps) (\<lambda>found. Inr (collect_paths root @ found)))"

fun extract_template_paths :: "pyval \<Rightarrow> (expr_error, string list list) result"
  and extract_list :: "pyval list \<Rightarrow> (expr_error, string list list) result"
  and extract_items :: "pydict \<Rightarrow> (expr_error, string list list) result" where
  "extract_template_paths (PStr s) = paths_of_parts (fst (template_parts s))"
| "extract_template_paths (PDict d) = extract_items d"
| "extract_template_paths (PList vs) = extract_list vs"
| "extract_template_paths v = Inr []"
| "extract_list [] = Inr []"
| "extract_list (v # vs) =
     bind_r (extract_template_paths v) (\<lambda>p. bind_r (extract_list vs) (\<lambda>q. Inr (p @ q)))"
| "extract_items [] = Inr []"
| "extract_items ((k, v) # d) =
     bind_r (extract_template_paths v) (\<lambda>p. bind_r (extract_items d) (\<lambda>q. Inr (p @ q)))"

subsection \<open>Notions the properties use\<close>

text \<open>Two state documents agree on the sub-documents some paths lead to.\<close>

definition agree_on :: "string list list \<Rightarrow> pyval \<Rightarrow> pyval \<Rightarrow> bool" where
  "agree_on paths st st' = (\<forall>p\<in>set paths. resolve_path (map SKey p) st = resolve_path (map SKey p) st')"

text \<open>Every literal of an expression is a JSON document.\<close>

fun literals_json :: "enode \<Rightarrow> bool" where
  "literals_json (Literal v) = is_json v"
| "literals_json (Path segs) = True"
| "literals_json (Compare op l r) = (literals_json l \<and> literals_json r)"
| "literals_json (BoolOp op l r) = (literals_json l \<and> literals_json r)"
| "literals_json (Not e) = literals_json e"

subsection \<open>The parser consumes its tokens and has enough fuel\<close>

lemma parse_path_loop_consumes:
  "parse_path_loop segs ts = Inr (e, r) \<Longrightarrow> length r \<le> length ts"
  by (induction segs ts arbitrary: e r rule: parse_path_loop.induct)
     (force split: if_splits list.splits)+

lemma expect_consumes: "expect t ts = Inr r \<Longrightarrow> length r < length ts"
  by (auto simp: expect_def split: list.splits if_splits)

lemma peek_keyword_Nil [simp]: "peek_keyword [] = None"
  by (simp add: peek_keyword_def)

lemma parse_consumes:
  "parse_or n ts = Inr (e, r) \<Longrightarrow> length r < length ts"
  "parse_or_loop n node ts = Inr (e, r) \<Longrightarrow> length r \<le> length ts"
  "parse_and n ts = Inr (e, r) \<Longrightarrow> length r < length ts"
  "parse_and_loop n node ts = Inr (e, r) \<Longrightarrow> length r \<le> length ts"
  "parse_not n ts = Inr (e, r) \<Longrightarrow> length r < length ts"
  "parse_comparison n ts = Inr (e, r) \<Longrightarrow> length r < length ts"
  "parse_operand n ts = Inr (e, r) \<Longrightarrow> length r < length ts"
proof (induction n ts and n node ts and n ts and n node ts and n ts and n ts and n ts
    arbitrary: e r and e r and e r and e r and e r and e r and e r
    rule: parse_or_parse_or_loop_parse_and_parse_and_loop_parse_not_parse_comparison_parse_operand.induct)
  case (2 n ts)
  then obtain e1 r1 where "parse_and n ts = Inr (e1, r1)" "parse_or_loop n e1 r1 = Inr (e, r)"
    by (auto simp: bind_r_eq_Inr)
  with 2 show ?case by (meson order.strict_trans1)
next
  case (4 n node ts)
  show ?case
  proof (cases "peek_keyword ts = Some ''or''")
    case True
    with 4 obtain e1 r1 where "parse_and n (tl ts) = Inr (e1, r1)"
        "parse_or_loop n (BoolOp ''or'' node e1) r1 = Inr (e, r)"
      by (auto simp: bind_r_eq_Inr)
    with 4 True have "length r1 < length (tl ts)" "length r \<le> length r1" by blast+
    then show ?thesis by simp
  next
    case False
    with 4 show ?thesis by simp
  qed
next
  case (6 n ts)
  then obtain e1 r1 where "parse_not n ts = Inr (e1, r1)" "parse_and_loop n e1 r1 = Inr (e, r)"
    by (auto simp: bind_r_eq_Inr)
  with 6 show ?case by (meson order.strict_trans1)
next
  case (8 n node ts)
  show ?case
  proof (cases "peek_keyword ts = Some ''and''")
    case True
    with 8 obtain e1 r1 where "parse_not n (tl ts) = Inr (e1, r1)"
        "parse_and_loop n (BoolOp ''and'' node e1) r1 = Inr (e, r)"
      by (auto simp: bind_r_eq_Inr)
    with 8 True have "length r1 < length (tl ts)" "length r \<le> length r1" by blast+
    then show ?thesis by simp
  next
    case False
    with 8 show ?thesis by simp
  qed
next
  case (10 n ts)
  show ?case
  proof (cases "peek_keyword ts = Some ''not''")
    case True
    with 10 obtain e1 where "parse_not n (tl ts) = Inr (e1, r)"
      by (auto simp: bind_r_eq_Inr)
    with 10 True have "length r < length (tl ts)" by blast
    then show ?thesis by simp
  next
    case False
    with 10 show ?thesis by simp
  qed
next
  case (12 n ts)
  then obtain e1 r1 where 1: "parse_operand n ts = Inr (e1, r1)"
    and 2: "(case r1 of (k, op) # r' \<Rightarrow>
            if op \<in> set comparison_ops
            then bind_r (parse_operand n r') (\<lambda>(right, r2). Inr (Compare op e1 right, r2))
            else Inr (e1, r1)
        | [] \<Rightarrow> Inr (e1, r1)) = Inr (e, r)"
    by (auto simp: bind_r_eq_Inr)
  from 1 12 have l: "length r1 < length ts" by blast
  show ?case
  proof (cases "\<exists>k op r'. r1 = (k, op) # r' \<and> op \<in> set comparison_ops")
    case True
    then obtain k op r' where r1: "r1 = (k, op) # r'" "op \<in> set comparison_ops" by blast
    with 2 obtain e2 where "parse_operand n r' = Inr (e2, r)" by (auto simp: bind_r_eq_Inr)
    with 12 1 r1 have "length r < length r'" by blast
    with r1 l show ?thesis by simp
  next
    case False
    with 2 l show ?thesis by (auto split: list.splits if_splits)
  qed
next
  case (14 n ts)
  then obtain k t ts' where ts: "ts = (k, t) # ts'" by (cases ts) auto
  show ?case
  proof (cases "t = ''(''")
    case True
    with 14 ts obtain r1 where "parse_or n ts' = Inr (e, r1)" "expect '')'' r1 = Inr r"
      by (auto simp: bind_r_eq_Inr)
    with 14 ts True have "length r1 < length ts'" "length r < length r1"
      by (blast, blast dest: expect_consumes)
    with ts show ?thesis by simp
  next
    case False
    with 14(2) ts show ?thesis
      by (auto simp: less_Suc_eq_le split: if_splits dest: parse_path_loop_consumes)
  qed
qed auto

lemma parse_path_loop_fuel: "parse_path_loop segs ts \<noteq> Inl OutOfFuel"
  by (induction segs ts rule: parse_path_loop.induct) (auto split: list.splits)

lemma parse_fuel_enough:
  "5 + 5 * length ts \<le> n \<Longrightarrow> parse_or n ts \<noteq> Inl OutOfFuel"
  "1 + 5 * length ts \<le> n \<Longrightarrow> parse_or_loop n node ts \<noteq> Inl OutOfFuel"
  "4 + 5 * length ts \<le> n \<Longrightarrow> parse_and n ts \<noteq> Inl OutOfFuel"
  "1 + 5 * length ts \<le> n \<Longrightarrow> parse_and_loop n node ts \<noteq> Inl OutOfFuel"
  "3 + 5 * length ts \<le> n \<Longrightarrow> parse_not n ts \<noteq> Inl OutOfFuel"
  "2 + 5 * length ts \<le> n \<Longrightarrow> parse_comparison n ts \<noteq> Inl OutOfFuel"
  "1 + 5 * length ts \<le> n \<Longrightarrow> parse_operand n ts \<noteq> Inl OutOfFuel"
proof (induction n ts and n node ts and n ts and n node ts and n ts and n ts and n ts
    rule: parse_or_parse_or_loop_parse_and_parse_and_loop_parse_not_parse_comparison_parse_operand.induct)
  case (2 n ts)
  then show ?case by (auto simp: bind_r_eq_Inl dest!: parse_consumes(3))
next
  case (4 n node ts)
  then show ?case by (cases ts) (auto simp: bind_r_eq_Inl dest!: parse_consumes(3))
next
  case (6 n ts)
  then show ?case by (auto simp: bind_r_eq_Inl dest!: parse_consumes(5))
next
  case (8 n node ts)
  then show ?case by (cases ts) (auto simp: bind_r_eq_Inl dest!: parse_consumes(5))
next
  case (10 n ts)
  then show ?case by (cases ts) (auto simp: bind_r_eq_Inl)
next
  case (12 n ts)
  show ?case
  proof (cases "parse_operand n ts")
    case (Inl e)
    with 12 show ?thesis by auto
  next
    case (Inr x)
    then obtain e1 r1 where 1: "parse_operand n ts = Inr (e1, r1)" by (cases x) auto
    then have "length r1 < length ts" by (rule parse_consumes)
    with 1 12 show ?thesis by (cases r1) (auto simp: bind_r_eq_Inl split: if_splits)
  qed
next
  case (14 n ts)
  show ?case
  proof (cases ts)
    case (Cons a ts')
    obtain k t where a: "a = (k, t)" by fastforce
    show ?thesis
    proof (cases "t = ''(''")
      case True
      with 14 Cons a show ?thesis by (auto simp: bind_r_eq_Inl expect_def split: list.splits if_splits)
    next
      case False
      with Cons a parse_path_loop_fuel show ?thesis by auto
    qed
  qed simp
qed auto

lemma tokenize_fuel: "tokenize src s \<noteq> Inl OutOfFuel"
  by (induction src s rule: tokenize.induct) (auto simp: bind_r_eq_Inl split: option.splits)

lemma compile_expression_fuel: "compile_expression s \<noteq> Inl OutOfFuel"
  using parse_fuel_enough(1)
  by (auto simp: compile_expression_def parse_tokens_def parse_fuel_def Let_def bind_r_eq_Inl tokenize_fuel
      split: if_splits)

subsection \<open>Evaluation\<close>

lemma resolve_path_PNone [simp]: "resolve_path segs PNone = PNone"
  by (cases segs rule: key_prefix.cases) auto

lemma resolve_path_append: "resolve_path (p @ q) st = resolve_path q (resolve_path p st)"
  by (induction p st rule: resolve_path.induct) (auto split: option.splits pyval.splits)

lemma key_prefix_split: "\<exists>rest. segs = map SKey (key_prefix segs) @ rest"
  by (induction segs rule: key_prefix.induct) auto

lemma agree_on_append [simp]: "agree_on (p @ q) st st' \<longleftrightarrow> agree_on p st st' \<and> agree_on q st st'"
  by (auto simp: agree_on_def)

lemma resolve_path_local:
  assumes "agree_on [key_prefix segs] st st'"
  shows "resolve_path segs st = resolve_path segs st'"
proof -
  obtain rest where "segs = map SKey (key_prefix segs) @ rest"
    using key_prefix_split by blast
  with assms show ?thesis
    by (metis agree_on_def list.set_intros(1) resolve_path_append)
qed

lemma evaluate_node_local:
  "agree_on (collect_paths e) st st' \<Longrightarrow> evaluate_node e st = evaluate_node e st'"
  by (induction e) (simp_all add: resolve_path_local cong: if_cong)

lemma compare_values_error: "compare_values op l r = Inl err \<Longrightarrow> err = OrderingRequiresNumbers op l r"
  by (auto simp: compare_values_def split: if_splits option.splits)

lemma evaluate_node_error:
  "evaluate_node e st = Inl err \<Longrightarrow> \<exists>op l r. err = OrderingRequiresNumbers op l r"
  by (induction e) (auto simp: bind_r_eq_Inl split: if_splits dest: compare_values_error)

subsection \<open>JSON documents stay JSON documents\<close>

lemma resolve_path_json: "is_json st \<Longrightarrow> is_json (resolve_path segs st)"
proof (induction segs st rule: resolve_path.induct)
  case (2 i segs cur)
  show ?case
  proof (cases cur)
    case (PList vs)
    with 2 show ?thesis by (auto simp: is_json_list_iff intro!: nth_mem)
  qed (use 2 in auto)
next
  case (3 k segs cur)
  show ?case
  proof (cases cur)
    case (PDict d)
    with 3 show ?thesis by (auto split: option.splits dest: is_json_dlookup)
  qed (use 3 in auto)
qed simp

lemma evaluate_node_json:
  "is_json st \<Longrightarrow> literals_json e \<Longrightarrow> evaluate_node e st = Inr v \<Longrightarrow> is_json v"
  by (cases e)
     (auto simp: resolve_path_json bind_r_eq_Inr compare_values_def split: if_splits option.splits)

lemma parse_path_loop_literals: "parse_path_loop segs ts = Inr (e, r) \<Longrightarrow> literals_json e"
  by (induction segs ts arbitrary: e r rule: parse_path_loop.induct) (force split: if_splits list.splits)+

lemma parse_literals:
  "parse_or n ts = Inr (e, r) \<Longrightarrow> literals_json e"
  "parse_or_loop n node ts = Inr (e, r) \<Longrightarrow> literals_json node \<Longrightarrow> literals_json e"
  "parse_and n ts = Inr (e, r) \<Longrightarrow> literals_json e"
  "parse_and_loop n node ts = Inr (e, r) \<Longrightarrow> literals_json node \<Longrightarrow> literals_json e"
  "parse_not n ts = Inr (e, r) \<Longrightarrow> literals_json e"
  "parse_comparison n ts = Inr (e, r) \<Longrightarrow> literals_json e"
  "parse_operand n ts = Inr (e, r) \<Longrightarrow> literals_json e"
proof (induction n ts and n node ts and n ts and n node ts and n ts and n ts and n ts
    arbitrary: e r and e r and e r and e r and e r and e r and e r
    rule: parse_or_parse_or_loop_parse_and_parse_and_loop_parse_not_parse_comparison_parse_operand.induct)
  case (4 n node ts)
  then show ?case by (auto simp: bind_r_eq_Inr split: if_splits)
next
  case (8 n node ts)
  then show ?case by (auto simp: bind_r_eq_Inr split: if_splits)
next
  case (12 n ts)
  then obtain e1 r1 where 1: "parse_operand n ts = Inr (e1, r1)"
    and 2: "(case r1 of (k, op) # r' \<Rightarrow>
            if op \<in> set comparison_ops
            then bind_r (parse_operand n r') (\<lambda>(right, r2). Inr (Compare op e1 right, r2))
            else Inr (e1, r1)
        | [] \<Rightarrow> Inr (e1, r1)) = Inr (e, r)"
    by (auto simp: bind_r_eq_Inr)
  with 12 have "literals_json e1" by blast
  with 1 2 12 show ?case by (cases r1) (auto simp: bind_r_eq_Inr split: if_splits)
next
  case (14 n ts)
  then obtain k t ts' where ts: "ts = (k, t) # ts'" by (cases ts) auto
  show ?case
  proof (cases "t = ''(''")
    case True
    with 14 ts show ?thesis by (auto simp: bind_r_eq_Inr)
  next
    case False
    with 14(2) ts show ?thesis
      by (auto simp: number_literal_def split: if_splits dest: parse_path_loop_literals)
  qed
qed (auto simp: bind_r_eq_Inr split: if_splits)

lemma compile_expression_literals: "compile_expression s = Inr e \<Longrightarrow> literals_json e"
  by (auto simp: compile_expression_def parse_tokens_def Let_def bind_r_eq_Inr split: if_splits
      dest: parse_literals(1))

lemma evaluate_expression_json:
  "is_json st \<Longrightarrow> evaluate_expression s st = Inr v \<Longrightarrow> is_json v"
  by (auto simp: evaluate_expression_def bind_r_eq_Inr dest: compile_expression_literals intro: evaluate_node_json)

lemma render_json:
  "is_json v \<Longrightarrow> is_json st \<Longrightarrow> render_template env v st = Inr w \<Longrightarrow> is_json w"
  "is_json_list vs \<Longrightarrow> is_json st \<Longrightarrow> render_list env vs st = Inr ws \<Longrightarrow> is_json_list ws"
  "is_json_items d \<Longrightarrow> is_json st \<Longrightarrow> render_items env d st = Inr e \<Longrightarrow>
     is_json_items e \<and> map fst e = map fst d"
proof (induction env v st and env vs st and env d st arbitrary: w and ws and e
    rule: render_template_render_list_render_items.induct)
  case (1 env s st)
  then show ?case
    by (auto simp: render_string_def bind_r_eq_Inr split: option.splits prod.splits
        dest: evaluate_expression_json)
qed (auto simp: bind_r_eq_Inr split: pykey.splits)

subsection \<open>Properties\<close>

text \<open>
  C30. Compiling any text ends with an expression tree or one of the errors of the source: the
  recursive-descent parser's fuel, bounded by the number of tokens, is always enough.
\<close>

theorem compile_expression_total:
  "case compile_expression s of Inl err \<Rightarrow> err \<noteq> OutOfFuel | Inr e \<Rightarrow> literals_json e"
  using compile_expression_fuel compile_expression_literals by (auto split: sum.splits)

text \<open>
  The paths collected from an expression are all it reads: on two state documents that agree on
  the sub-documents these paths lead to it evaluates to the same result, and the only error of an
  evaluation is an ordering comparison of values that are not numbers.
\<close>

theorem evaluate_node_reads_collected_paths:
  assumes "agree_on (collect_paths e) st st'"
  shows "evaluate_node e st = evaluate_node e st' \<and>
    (case evaluate_node e st of Inl err \<Rightarrow> (\<exists>op l r. err = OrderingRequiresNumbers op l r) | Inr v \<Rightarrow> True)"
  using evaluate_node_local [OF assms] evaluate_node_error by (auto split: sum.splits)

theorem evaluate_node_reads_collected_paths_witness:
  "evaluate_node (Path [SKey ''a'']) (PDict [(KStr ''a'', PInt 1)]) =
   evaluate_node (Path [SKey ''a'']) (PDict [(KStr ''b'', PInt 2), (KStr ''a'', PInt 1)])"
  using evaluate_node_reads_collected_paths [of "Path [SKey ''a'']" "PDict [(KStr ''a'', PInt 1)]"
      "PDict [(KStr ''b'', PInt 2), (KStr ''a'', PInt 1)]"]
  by (simp add: agree_on_def)

text \<open>
  Rendering a JSON template against a JSON state document gives a JSON document, and keeps the
  keys of a mapping in their order.
\<close>

theorem render_template_json:
  assumes "is_json v" and "is_json st" and "render_template env v st = Inr r"
  shows "is_json r \<and> (\<forall>d. v = PDict d \<longrightarrow> (\<exists>d'. r = PDict d' \<and> map fst d' = map fst d))"
proof -
  have "\<exists>d'. r = PDict d' \<and> map fst d' = map fst d" if "v = PDict d" for d
    using assms that render_json(3) by (auto simp: bind_r_eq_Inr)
  then show ?thesis using render_json(1) [OF assms] by blast
qed

theorem render_template_json_witness:
  "\<exists>r. render_template \<lparr>float_repr = (\<lambda>_. []), obj_repr = (\<lambda>_. []), isoformat = (\<lambda>_. []), fromisoformat = (\<lambda>_. None)\<rparr>
     (PDict [(KStr ''k'', PInt 1)]) (PDict []) = Inr r \<and> is_json r"
  using render_template_json [of "PDict [(KStr ''k'', PInt 1)]" "PDict []"] by (simp add: bind_r_def)

text \<open>
  A text with two embedded templates is taken for one template that spans both, because the lazy
  group of the pattern extends until the full match succeeds, and fails to parse.
\<close>

theorem adjacent_templates_rejected:
  "\<exists>err. render_template env (PStr ''{{ a }}-{{ b }}'') st = Inl err"
proof -
  have "fullmatch_template (strip ''{{ a }}-{{ b }}'') = Some '' a }}-{{ b ''" by code_simp
  moreover have "case compile_expression '' a }}-{{ b '' of Inl _ \<Rightarrow> True | Inr _ \<Rightarrow> False" by code_simp
  ultimately show ?thesis by (auto simp: render_string_def evaluate_expression_def bind_r_def split: sum.splits)
qed

end
