(* ===== verification/Flow_Graph.thy ===== *)
theory Flow_Graph
  imports Flow_Model Flow_Expressions
begin

text \<open>
  Structural validation of a flow graph (\<^verbatim>\<open>backend/flows/graph.py\<close>): duplicate ids, dangling edges,
  entry and terminal nodes, reachability by a worklist, unguarded cycles by a depth-first search with
  three colours, guards per node type, and the state paths that bindings and predicates may name.
  An error message is a constructor of \<open>graph_error\<close> with the values the message prints.
\<close>

subsection \<open>Errors\<close>

datatype path_error =
    UnknownFlowScope "string list"
  | InputNotDeclared string
  | UnknownNodePath string
  | SelfReference
  | OnlyOutputs string
  | ItemNotAvailable
  | UnknownStateRoot string

datatype location = EdgeLocation string string | InputLocation string

datatype graph_error =
    DuplicateNode string
  | NoNodes
  | EdgeUnknownNode string
  | NotOneEntry "string list"
  | NoTerminal
  | Unreachable "string list"
  | UnknownSignal string string string
  | TimeoutNotHuman string string
  | ConditionalFewEdges string
  | ConditionalUnguarded string
  | ManyUnguarded string nat
  | HumanNoTimeoutEdge string
  | HumanTimeoutTarget string string
  | HumanNoTimeoutSec string
  | OnTimeoutNotHuman string
  | UnconditionalCycle "string list"
  | InvalidWhen string string expr_error
  | InvalidTemplate string expr_error
  | BadPath location path_error

definition EDGE_SIGNALS :: "string list" where
  "EDGE_SIGNALS = [''timeout'']"

subsection \<open>Entry, terminals and reachability\<close>

text \<open>\<open>adjacency.get(n, [])\<close> of the adjacency lists the code builds from the edges.\<close>

definition successors :: "flow_edge list \<Rightarrow> string \<Rightarrow> string list" where
  "successors es n = map target (filter (\<lambda>e. source e = n) es)"

definition edge_nodes :: "flow_edge list \<Rightarrow> string set" where
  "edge_nodes es = source ` set es \<union> target ` set es"

lemma successors_mem [simp]: "y \<in> set (successors es x) \<longleftrightarrow> (\<exists>e\<in>set es. source e = x \<and> target e = y)"
  by (auto simp: successors_def)

lemma successors_Nil: "x \<notin> edge_nodes es \<Longrightarrow> successors es x = []"
  by (auto simp: successors_def edge_nodes_def filter_empty_conv)

lemma finite_edge_nodes [simp]: "finite (edge_nodes es)"
  by (simp add: edge_nodes_def)

text \<open>
  The \<open>while frontier\<close> loop. The frontier is a stack whose top is the head of the list, so
  \<open>frontier.extend(ys)\<close> followed by \<open>pop()\<close> takes the last of \<open>ys\<close> first.
\<close>

function reach_loop :: "flow_edge list \<Rightarrow> string list \<Rightarrow> string list \<Rightarrow> string list" where
  "reach_loop es [] seen = seen"
| "reach_loop es (x # frontier) seen =
     (if x \<in> set seen then reach_loop es frontier seen
      else reach_loop es (rev (successors es x) @ frontier) (x # seen))"
  by pat_completeness auto
termination
proof (relation "measures [\<lambda>(es, frontier, seen). card (edge_nodes es - set seen),
    \<lambda>(es, frontier, seen). length frontier]", goal_cases)
  case (3 es x frontier seen)
  show ?case
  proof (cases "x \<in> edge_nodes es")
    case True
    with 3 have "card (edge_nodes es - set (x # seen)) < card (edge_nodes es - set seen)"
      by (intro psubset_card_mono) auto
    then show ?thesis by simp
  next
    case False
    then have "edge_nodes es - set (x # seen) = edge_nodes es - set seen" by auto
    with False show ?thesis by (simp add: successors_Nil)
  qed
qed auto

definition entry_ids :: "flow_node list \<Rightarrow> flow_edge list \<Rightarrow> string list" where
  "entry_ids ns es = filter (\<lambda>n. n \<notin> target ` set es) (map node_id ns)"

definition validate_entry_and_reachability :: "flow_node list \<Rightarrow> flow_edge list \<Rightarrow> graph_error list" where
  "validate_entry_and_reachability ns es =
     (let entries = entry_ids ns es;
          terminals = filter (\<lambda>n. n \<notin> source ` set es) (map node_id ns);
          unreachable = (case entries of
             [entry] \<Rightarrow> sort (remdups (filter (\<lambda>n. n \<notin> set (reach_loop es [entry] [])) (map node_id ns)))
           | _ \<Rightarrow> [])
      in (if length entries \<noteq> 1 then [NotOneEntry (sort entries)] else []) @
         (if terminals = [] then [NoTerminal] else []) @
         (if unreachable \<noteq> [] then [Unreachable unreachable] else []))"

subsection \<open>Guards\<close>

definition edge_guard_errors :: "(string \<Rightarrow> flow_node option) \<Rightarrow> flow_edge \<Rightarrow> graph_error list" where
  "edge_guard_errors by_id e =
     (case edge_on e of
        None \<Rightarrow> []
      | Some sig \<Rightarrow>
          (if sig \<notin> set EDGE_SIGNALS then [UnknownSignal (source e) (target e) sig] else []) @
          (if sig = ''timeout'' \<and> map_option node_type (by_id (source e)) \<noteq> Some ''human''
           then [TimeoutNotHuman (source e) (target e)] else []))"

definition node_guard_errors :: "flow_edge list \<Rightarrow> flow_node \<Rightarrow> graph_error list" where
  "node_guard_errors es n =
     (let node_edges = filter (\<lambda>e. source e = node_id n) es;
          unguarded = filter (\<lambda>e. \<not> guarded e) node_edges;
          timeout_edges = filter (\<lambda>e. edge_on e = Some ''timeout'') node_edges
      in (if node_type n = ''conditional'' then
            (if length node_edges < 2 then [ConditionalFewEdges (node_id n)] else []) @
            (if unguarded \<noteq> [] then [ConditionalUnguarded (node_id n)] else [])
          else if length unguarded > 1 then [ManyUnguarded (node_id n) (length unguarded)]
          else []) @
         (if node_type n = ''human'' then
            (case on_timeout n of
               None \<Rightarrow> []
             | Some t \<Rightarrow>
                 if timeout_edges = [] then [HumanNoTimeoutEdge (node_id n)]
                 else if \<forall>e\<in>set timeout_edges. target e \<noteq> t then [HumanTimeoutTarget (node_id n) t]
                 else []) @
            (if timeout_edges \<noteq> [] \<and> timeout_sec n = None then [HumanNoTimeoutSec (node_id n)] else [])
          else if on_timeout n \<noteq> None then [OnTimeoutNotHuman (node_id n)] else []))"

definition lookup_node :: "flow_node list \<Rightarrow> string \<Rightarrow> flow_node option" where
  "lookup_node ns nid = List.find (\<lambda>n. node_id n = nid) ns"

definition validate_guards :: "flow_node list \<Rightarrow> flow_edge list \<Rightarrow> graph_error list" where
  "validate_guards ns es =
     concat (map (edge_guard_errors (lookup_node ns)) es) @ concat (map (node_guard_errors es) ns)"

subsection \<open>Unguarded cycles\<close>

datatype colour = WHITE | GRAY | BLACK

type_synonym colouring = "string \<Rightarrow> colour"

definition white_nodes :: "flow_edge list \<Rightarrow> colouring \<Rightarrow> string set" where
  "white_nodes es col = {x \<in> edge_nodes es. col x = WHITE}"

lemma finite_white_nodes [simp]: "finite (white_nodes es col)"
  by (simp add: white_nodes_def)

text \<open>
  \<open>visit\<close> and its loop over the neighbours, as one recursion on the neighbours still to look at:
  a white neighbour is coloured grey and pushed, its own neighbours are visited, and it turns black
  when they are done. The result is the cycle found, if any, and the colours. The edges given are the
  unguarded ones.
\<close>

function visit :: "flow_edge list \<Rightarrow> string list \<Rightarrow> string list \<Rightarrow> colouring \<Rightarrow> string list option \<times> colouring" where
  "visit es [] stack col = (None, col)"
| "visit es (y # ys) stack col =
     (case col y of
        GRAY \<Rightarrow> (Some (dropWhile (\<lambda>x. x \<noteq> y) stack @ [y]), col)
      | BLACK \<Rightarrow> visit es ys stack col
      | WHITE \<Rightarrow>
          (case visit es (successors es y) (stack @ [y]) (col(y := GRAY)) of
             (Some cyc, col') \<Rightarrow> (Some cyc, col')
           | (None, col') \<Rightarrow> visit es ys stack (col'(y := BLACK))))"
  by pat_completeness auto

lemma visit_white:
  "visit_dom (es, ys, stack, col) \<Longrightarrow> snd (visit es ys stack col) x = WHITE \<Longrightarrow> col x = WHITE"
proof (induction es ys stack col rule: visit.pinduct)
  case (2 es y ys stack col)
  show ?case
  proof (cases "col y")
    case WHITE
    obtain r col' where v: "visit es (successors es y) (stack @ [y]) (col(y := GRAY)) = (r, col')"
      by fastforce
    have step: "col' x = WHITE \<Longrightarrow> col x = WHITE"
      using 2(2) [OF WHITE, unfolded v] by (simp split: if_splits)
    show ?thesis
    proof (cases r)
      case None
      with v WHITE 2(1) have "visit es (y # ys) stack col = visit es ys stack (col'(y := BLACK))"
        by (simp add: visit.psimps)
      with 2(5) have "snd (visit es ys stack (col'(y := BLACK))) x = WHITE" by simp
      with 2(3) [OF WHITE v [symmetric] None] have "(col'(y := BLACK)) x = WHITE" by blast
      with step show ?thesis by (simp split: if_splits)
    next
      case (Some cyc)
      with v WHITE 2(1,5) step show ?thesis by (simp add: visit.psimps)
    qed
  qed (use 2 in \<open>simp_all add: visit.psimps\<close>)
qed (simp add: visit.psimps)

lemma white_nodes_grey: "col y = WHITE \<Longrightarrow> y \<in> edge_nodes es \<Longrightarrow>
    card (white_nodes es (col(y := GRAY))) < card (white_nodes es col)"
  by (intro psubset_card_mono) (auto simp: white_nodes_def)

lemma white_nodes_mono: "(\<And>x. col' x = WHITE \<Longrightarrow> col x = WHITE) \<Longrightarrow>
    card (white_nodes es col') \<le> card (white_nodes es col)"
  by (intro card_mono) (auto simp: white_nodes_def)

termination visit
proof (relation "measures [\<lambda>(es, ys, stack, col). card (white_nodes es col),
    \<lambda>(es, ys, stack, col). length ys]", goal_cases)
  case (2 es y ys stack col)
  have "y \<notin> edge_nodes es \<Longrightarrow> white_nodes es (col(y := GRAY)) = white_nodes es col"
    by (auto simp: white_nodes_def)
  with 2 show ?case
    by (cases "y \<in> edge_nodes es") (auto simp: white_nodes_grey successors_Nil)
next
  case (3 es y ys stack col r col')
  have "(col'(y := BLACK)) x = WHITE \<Longrightarrow> col x = WHITE" for x
    using visit_white [OF 3(4), of x, unfolded 3(2) [symmetric]] by (simp split: if_splits)
  then have "card (white_nodes es (col'(y := BLACK))) \<le> card (white_nodes es col)"
    by (rule white_nodes_mono)
  then show ?case by (auto simp: le_less)
qed auto

text \<open>The outer loop over the sources of unguarded edges, in the order they first occur.\<close>

fun visit_all :: "flow_edge list \<Rightarrow> string list \<Rightarrow> colouring \<Rightarrow> string list option" where
  "visit_all es [] col = None"
| "visit_all es (s # starts) col =
     (if col s = WHITE
      then case visit es [s] [] col of
             (Some cyc, col') \<Rightarrow> Some cyc
           | (None, col') \<Rightarrow> visit_all es starts col'
      else visit_all es starts col)"

definition unguarded_edges :: "flow_edge list \<Rightarrow> flow_edge list" where
  "unguarded_edges es = filter (\<lambda>e. \<not> guarded e) es"

definition find_cycle :: "flow_edge list \<Rightarrow> string list option" where
  "find_cycle es =
     visit_all (unguarded_edges es) (rev (remdups (rev (map source (unguarded_edges es))))) (\<lambda>_. WHITE)"

definition validate_unconditional_cycles :: "flow_edge list \<Rightarrow> graph_error list" where
  "validate_unconditional_cycles es =
     (case find_cycle es of None \<Rightarrow> [] | Some cyc \<Rightarrow> [UnconditionalCycle cyc])"

subsection \<open>Expressions and the paths they name\<close>

definition strip_template :: "string \<Rightarrow> string" where
  "strip_template s =
     (let t = strip s in
      if starts_with ''{{'' t \<and> ends_with ''}}'' t then take (length t - 4) (drop 2 t) else t)"

definition check_path ::
  "flow_node list \<Rightarrow> string list option \<Rightarrow> bool \<Rightarrow> string option \<Rightarrow> string list \<Rightarrow> path_error list" where
  "check_path ns declared allow_item self_id path =
     (let rt = (case path of [] \<Rightarrow> [] | r # _ \<Rightarrow> r) in
      if rt = ''flow'' then
        (if 2 \<le> length path \<and> path ! 1 \<noteq> ''input'' then [UnknownFlowScope (take 2 path)]
         else case declared of
                None \<Rightarrow> []
              | Some ds \<Rightarrow> if 3 \<le> length path \<and> path ! 2 \<notin> set ds then [InputNotDeclared (path ! 2)] else [])
      else if rt = ''nodes'' then
        (if length path < 2 then [UnknownNodePath ''?'']
         else if lookup_node ns (path ! 1) = None then [UnknownNodePath (path ! 1)]
         else if Some (path ! 1) = self_id then [SelfReference]
         else if 3 \<le> length path \<and> path ! 2 \<noteq> ''output'' then [OnlyOutputs (path ! 1)]
         else [])
      else if rt = ''item'' then (if \<not> allow_item then [ItemNotAvailable] else [])
      else [UnknownStateRoot rt])"

definition check_paths ::
  "flow_node list \<Rightarrow> string list option \<Rightarrow> bool \<Rightarrow> string option \<Rightarrow> string list list \<Rightarrow> path_error list" where
  "check_paths ns declared allow_item self_id paths =
     concat (map (check_path ns declared allow_item self_id) (sort (remdups paths)))"

definition edge_expression_errors :: "flow_node list \<Rightarrow> string list option \<Rightarrow> flow_edge \<Rightarrow> graph_error list" where
  "edge_expression_errors ns declared e =
     (case edge_when e of
        None \<Rightarrow> []
      | Some w \<Rightarrow>
          (case compile_expression (strip_template w) of
             Inl err \<Rightarrow> [InvalidWhen (source e) (target e) err]
           | Inr rt \<Rightarrow> map (BadPath (EdgeLocation (source e) (target e)))
               (check_paths ns declared False None (collect_paths rt))))"

definition node_paths :: "flow_node \<Rightarrow> (expr_error, string list list) result" where
  "node_paths n =
     bind_r (extract_template_paths (PDict (input_bindings n))) (\<lambda>paths.
       case over n of
         None \<Rightarrow> Inr paths
       | Some ov \<Rightarrow> bind_r (extract_template_paths (PStr ov)) (\<lambda>more. Inr (paths @ more)))"

definition node_expression_errors :: "flow_node list \<Rightarrow> string list option \<Rightarrow> flow_node \<Rightarrow> graph_error list" where
  "node_expression_errors ns declared n =
     (case node_paths n of
        Inl err \<Rightarrow> [InvalidTemplate (node_id n) err]
      | Inr paths \<Rightarrow> map (BadPath (InputLocation (node_id n)))
          (check_paths ns declared (node_type n = ''map'') (Some (node_id n)) paths))"

text \<open>The input properties the flow declares; a key that is not a string is no path segment.\<close>

definition declared_inputs :: "pydict option \<Rightarrow> string list option" where
  "declared_inputs schema =
     (case schema of
        None \<Rightarrow> None
      | Some d \<Rightarrow>
          (case dget d ''properties'' of
             Some (PDict ps) \<Rightarrow> Some (concat (map (\<lambda>(k, v). case k of KStr s \<Rightarrow> [s] | _ \<Rightarrow> []) ps))
           | _ \<Rightarrow> None))"

definition validate_expressions :: "flow_node list \<Rightarrow> flow_edge list \<Rightarrow> pydict option \<Rightarrow> graph_error list" where
  "validate_expressions ns es schema =
     (let declared = declared_inputs schema in
      concat (map (edge_expression_errors ns declared) es) @
      concat (map (node_expression_errors ns declared) ns))"

subsection \<open>The validator\<close>

definition duplicates :: "string list \<Rightarrow> string list" where
  "duplicates ids = sort (remdups (filter (\<lambda>x. 1 < count_list ids x) ids))"

definition edge_endpoint_errors :: "flow_node list \<Rightarrow> flow_edge \<Rightarrow> graph_error list" where
  "edge_endpoint_errors ns e =
     (if source e \<notin> node_id ` set ns then [EdgeUnknownNode (source e)] else []) @
     (if target e \<notin> node_id ` set ns then [EdgeUnknownNode (target e)] else [])"

definition validate_graph :: "flow_node list \<Rightarrow> flow_edge list \<Rightarrow> pydict option \<Rightarrow> graph_error list" where
  "validate_graph ns es schema =
     (let dup_errors = map DuplicateNode (duplicates (map node_id ns));
          endpoint_errors = concat (map (edge_endpoint_errors ns) es)
      in if ns = [] then dup_errors @ [NoNodes]
         else if duplicates (map node_id ns) \<noteq> [] then dup_errors
         else if endpoint_errors \<noteq> [] then endpoint_errors
         else validate_entry_and_reachability ns es @ validate_guards ns es @
              validate_unconditional_cycles es @ validate_expressions ns es schema)"

subsection \<open>The edge relations\<close>

definition edge_rel :: "flow_edge list \<Rightarrow> (string \<times> string) set" where
  "edge_rel es = (\<lambda>e. (source e, target e)) ` set es"

lemma successors_edge_rel: "y \<in> set (successors es x) \<longleftrightarrow> (x, y) \<in> edge_rel es"
  by (auto simp: edge_rel_def)

subsection \<open>The worklist computes reachability\<close>

lemma reach_loop_closed:
  "(\<And>x y. x \<in> set seen \<Longrightarrow> (x, y) \<in> edge_rel es \<Longrightarrow> y \<in> set seen \<union> set frontier) \<Longrightarrow>
   set seen \<union> set frontier \<subseteq> set (reach_loop es frontier seen) \<and>
   (\<forall>x y. x \<in> set (reach_loop es frontier seen) \<longrightarrow> (x, y) \<in> edge_rel es \<longrightarrow> y \<in> set (reach_loop es frontier seen))"
proof (induction es frontier seen rule: reach_loop.induct)
  case (1 es seen)
  then show ?case by auto
next
  case (2 es x frontier seen)
  show ?case
  proof (cases "x \<in> set seen")
    case True
    with 2(1) 2(3) show ?thesis by auto
  next
    case False
    have "y \<in> set (x # seen) \<union> set (rev (successors es x) @ frontier)"
      if "z \<in> set (x # seen)" "(z, y) \<in> edge_rel es" for z y
      using that 2(3) by (cases "z = x") (auto simp: successors_edge_rel simp del: successors_mem)
    from 2(2) [OF False this] False show ?thesis by auto
  qed
qed

lemma reach_loop_sound:
  "set (reach_loop es frontier seen) \<subseteq> set seen \<union> (edge_rel es)\<^sup>* `` set frontier"
proof (induction es frontier seen rule: reach_loop.induct)
  case (2 es x frontier seen)
  show ?case
  proof (cases "x \<in> set seen")
    case True
    with 2(1) show ?thesis by auto
  next
    case False
    have "(edge_rel es)\<^sup>* `` set (successors es x) \<subseteq> (edge_rel es)\<^sup>* `` {x}"
      by (auto simp: successors_edge_rel simp del: successors_mem intro: converse_rtrancl_into_rtrancl)
    with 2(2) [OF False] False show ?thesis by auto
  qed
qed simp

lemma reach_loop_eq: "set (reach_loop es [x] []) = (edge_rel es)\<^sup>* `` {x}"
proof
  show "set (reach_loop es [x] []) \<subseteq> (edge_rel es)\<^sup>* `` {x}"
    using reach_loop_sound [of es "[x]" "[]"] by simp
  have c: "x \<in> set (reach_loop es [x] [])"
    "\<And>u v. u \<in> set (reach_loop es [x] []) \<Longrightarrow> (u, v) \<in> edge_rel es \<Longrightarrow> v \<in> set (reach_loop es [x] [])"
    using reach_loop_closed [of "[]" es "[x]"] by auto
  have "(x, y) \<in> (edge_rel es)\<^sup>* \<Longrightarrow> y \<in> set (reach_loop es [x] [])" for y
    by (induction rule: rtrancl_induct) (blast intro: c)+
  then show "(edge_rel es)\<^sup>* `` {x} \<subseteq> set (reach_loop es [x] [])" by auto
qed


subsection \<open>The depth-first search finds exactly the cycles\<close>

text \<open>
  The search keeps: the grey nodes are the stack, the black nodes are closed under edges and no cycle
  runs through them.
\<close>

definition black_edges :: "flow_edge list \<Rightarrow> colouring \<Rightarrow> (string \<times> string) set" where
  "black_edges es col = {(x, y) \<in> edge_rel es. col x = BLACK}"

definition dfs_inv :: "flow_edge list \<Rightarrow> string list \<Rightarrow> colouring \<Rightarrow> bool" where
  "dfs_inv es stack col \<longleftrightarrow>
     {x. col x = GRAY} = set stack \<and>
     (\<forall>x y. col x = BLACK \<longrightarrow> (x, y) \<in> edge_rel es \<longrightarrow> col y = BLACK) \<and>
     acyclic (black_edges es col)"

fun walk :: "flow_edge list \<Rightarrow> string list \<Rightarrow> bool" where
  "walk es (x # y # zs) = ((x, y) \<in> edge_rel es \<and> walk es (y # zs))"
| "walk es _ = True"

definition closed_walk :: "flow_edge list \<Rightarrow> string list \<Rightarrow> bool" where
  "closed_walk es cyc \<longleftrightarrow> 2 \<le> length cyc \<and> hd cyc = last cyc \<and> walk es cyc"

lemma acyclic_no_incoming:
  assumes "acyclic {(a, b) \<in> r. a \<noteq> y}" and "y \<notin> Range r"
  shows "acyclic r"
proof -
  have step: "(a, b) \<in> r\<^sup>+ \<Longrightarrow> a \<noteq> y \<Longrightarrow> (a, b) \<in> {(a, b) \<in> r. a \<noteq> y}\<^sup>+" for a b
  proof (induction rule: trancl_induct)
    case (base b)
    then show ?case by blast
  next
    case (step b c)
    have "b \<noteq> y" using step(1) assms(2) by (metis Range_iff tranclD2)
    with step show ?case by (auto intro: trancl_into_trancl)
  qed
  have "a \<noteq> y" if "(a, a) \<in> r\<^sup>+" for a using that assms(2) by (metis Range_iff tranclD2)
  with step assms(1) show ?thesis by (auto simp: acyclic_def)
qed

lemma dfs_inv_white: "dfs_inv es stack col \<Longrightarrow> col y = WHITE \<Longrightarrow> y \<notin> set stack"
  by (metis (mono_tags, lifting) colour.distinct(1) dfs_inv_def mem_Collect_eq)

lemma dfs_inv_push:
  assumes "dfs_inv es stack col" and "col y = WHITE"
  shows "dfs_inv es (stack @ [y]) (col(y := GRAY))"
proof -
  have "black_edges es (col(y := GRAY)) = black_edges es col"
    using assms(2) by (auto simp: black_edges_def split: if_splits)
  moreover have "{x. (col(y := GRAY)) x = GRAY} = set (stack @ [y])"
    using assms(1) by (auto simp: dfs_inv_def)
  moreover have "(col(y := GRAY)) z = BLACK"
    if "(col(y := GRAY)) x = BLACK" "(x, z) \<in> edge_rel es" for x z
  proof -
    have "col x = BLACK" using that(1) by (auto split: if_splits)
    then have "col z = BLACK" using assms(1) that(2) by (auto simp: dfs_inv_def)
    with assms(2) show ?thesis by auto
  qed
  ultimately show ?thesis using assms(1) by (auto simp: dfs_inv_def)
qed

lemma dfs_inv_pop:
  assumes "dfs_inv es (stack @ [y]) col" and "y \<notin> set stack"
    and "\<forall>z\<in>set (successors es y). col z = BLACK"
  shows "dfs_inv es stack (col(y := BLACK))"
proof -
  have grey: "{x. col x = GRAY} = insert y (set stack)"
    and closed: "\<And>x z. col x = BLACK \<Longrightarrow> (x, z) \<in> edge_rel es \<Longrightarrow> col z = BLACK"
    and acyc: "acyclic (black_edges es col)"
    using assms(1) by (auto simp: dfs_inv_def)
  have succ: "\<And>z. (y, z) \<in> edge_rel es \<Longrightarrow> col z = BLACK"
    using assms(3) successors_edge_rel by blast
  have y: "col y = GRAY" using grey by auto
  let ?col = "col(y := BLACK)"
  have "{(a, b) \<in> black_edges es ?col. a \<noteq> y} \<subseteq> black_edges es col"
    by (auto simp: black_edges_def)
  with acyc have "acyclic {(a, b) \<in> black_edges es ?col. a \<noteq> y}" by (rule acyclic_subset)
  moreover have "y \<notin> Range (black_edges es ?col)"
    using y closed succ by (force simp: black_edges_def split: if_splits)
  ultimately have "acyclic (black_edges es ?col)" by (rule acyclic_no_incoming)
  moreover have "{x. ?col x = GRAY} = set stack" using grey assms(2) by auto
  moreover have "?col z = BLACK" if "?col x = BLACK" "(x, z) \<in> edge_rel es" for x z
    using that closed succ by (auto split: if_splits)
  ultimately show ?thesis by (auto simp: dfs_inv_def)
qed

lemma visit_None:
  "dfs_inv es stack col \<Longrightarrow> visit es ys stack col = (None, col') \<Longrightarrow>
   dfs_inv es stack col' \<and> (\<forall>y\<in>set ys. col' y = BLACK) \<and> (\<forall>x. col x = BLACK \<longrightarrow> col' x = BLACK)"
proof (induction es ys stack col arbitrary: col' rule: visit.induct)
  case (2 es y ys stack col)
  show ?case
  proof (cases "col y")
    case WHITE
    let ?col = "col(y := GRAY)"
    obtain r c where v: "visit es (successors es y) (stack @ [y]) ?col = (r, c)" by fastforce
    with 2(5) WHITE have r: "r = None" and v2: "visit es ys stack (c(y := BLACK)) = (None, col')"
      by (auto split: option.splits)
    have push: "dfs_inv es (stack @ [y]) ?col" using 2(4) WHITE by (rule dfs_inv_push)
    from 2(1) [OF WHITE push] v r have post: "dfs_inv es (stack @ [y]) c" "\<forall>z\<in>set (successors es y). c z = BLACK"
      "\<And>x. ?col x = BLACK \<Longrightarrow> c x = BLACK" by blast+
    have "y \<notin> set stack" using 2(4) WHITE by (rule dfs_inv_white)
    with post have "dfs_inv es stack (c(y := BLACK))" by (intro dfs_inv_pop)
    from 2(2) [OF WHITE v [symmetric] r this v2]
    have end_: "dfs_inv es stack col'" "\<forall>z\<in>set ys. col' z = BLACK"
      "\<And>x. (c(y := BLACK)) x = BLACK \<Longrightarrow> col' x = BLACK" by blast+
    have "col' y = BLACK" using end_(3) [of y] by simp
    moreover have "col x = BLACK \<Longrightarrow> col' x = BLACK" for x
      using end_(3) [of x] post(3) [of x] WHITE by (cases "x = y") auto
    ultimately show ?thesis using end_ by simp
  next
    case GRAY
    with 2 show ?thesis by simp
  next
    case BLACK
    with 2(3) [OF BLACK 2(4)] 2(5) show ?thesis by simp
  qed
qed simp

lemma walk_append: "walk es (xs @ [y]) \<longleftrightarrow> walk es xs \<and> (xs \<noteq> [] \<longrightarrow> (last xs, y) \<in> edge_rel es)"
  by (induction es xs rule: walk.induct) auto

lemma walk_dropWhile: "walk es xs \<Longrightarrow> walk es (dropWhile p xs)"
  by (induction es xs rule: walk.induct) auto

lemma visit_Some:
  "dfs_inv es stack col \<Longrightarrow> walk es stack \<Longrightarrow> stack \<noteq> [] \<longrightarrow> (\<forall>y\<in>set ys. (last stack, y) \<in> edge_rel es) \<Longrightarrow>
   visit es ys stack col = (Some cyc, col') \<Longrightarrow> closed_walk es cyc"
proof (induction es ys stack col arbitrary: cyc col' rule: visit.induct)
  case (2 es y ys stack col)
  show ?case
  proof (cases "col y")
    case WHITE
    let ?col = "col(y := GRAY)"
    obtain r c where v: "visit es (successors es y) (stack @ [y]) ?col = (r, c)" by fastforce
    have push: "dfs_inv es (stack @ [y]) ?col" using 2(4) WHITE by (rule dfs_inv_push)
    have w: "walk es (stack @ [y])" using 2(5,6) by (auto simp: walk_append)
    have succ: "stack @ [y] \<noteq> [] \<longrightarrow> (\<forall>z\<in>set (successors es y). (last (stack @ [y]), z) \<in> edge_rel es)"
      by (auto simp: successors_edge_rel simp del: successors_mem)
    show ?thesis
    proof (cases r)
      case (Some cyc')
      with 2(7) WHITE v have "cyc' = cyc" by simp
      with 2(1) [OF WHITE push w succ] v Some show ?thesis by blast
    next
      case None
      with visit_None [OF push] v have post: "dfs_inv es (stack @ [y]) c" "\<forall>z\<in>set (successors es y). c z = BLACK"
        by blast+
      have "y \<notin> set stack" using 2(4) WHITE by (rule dfs_inv_white)
      with post have inv: "dfs_inv es stack (c(y := BLACK))" by (intro dfs_inv_pop)
      have "visit es ys stack (c(y := BLACK)) = (Some cyc, col')"
        using 2(7) WHITE v None by simp
      moreover have "stack \<noteq> [] \<longrightarrow> (\<forall>z\<in>set ys. (last stack, z) \<in> edge_rel es)" using 2(6) by simp
      ultimately show ?thesis using 2(2) [OF WHITE v [symmetric] None inv 2(5)] by blast
    qed
  next
    case GRAY
    then have mem: "y \<in> set stack" using 2(4) by (auto simp: dfs_inv_def)
    let ?d = "dropWhile (\<lambda>x. x \<noteq> y) stack"
    have cyc: "cyc = ?d @ [y]" using 2(7) GRAY by simp
    have ne: "?d \<noteq> []" using mem by (simp add: dropWhile_eq_Nil_conv)
    then have "hd ?d = y" using hd_dropWhile [OF ne] by simp
    moreover have "last ?d = last stack" using ne by (metis last_appendR takeWhile_dropWhile_id)
    moreover have "walk es ?d" using 2(5) by (rule walk_dropWhile)
    moreover have "(last stack, y) \<in> edge_rel es" using 2(6) mem by auto
    ultimately show ?thesis using ne cyc
      by (auto simp: closed_walk_def walk_append hd_append Suc_le_eq)
  next
    case BLACK
    with 2(3) [OF BLACK 2(4,5)] 2(6,7) show ?thesis by simp
  qed
qed simp

lemma visit_all_None:
  "dfs_inv es [] col \<Longrightarrow> visit_all es starts col = None \<Longrightarrow>
   \<exists>col'. dfs_inv es [] col' \<and> (\<forall>s\<in>set starts. col' s = BLACK) \<and> (\<forall>x. col x = BLACK \<longrightarrow> col' x = BLACK)"
proof (induction es starts col rule: visit_all.induct)
  case (1 es col)
  then show ?case by auto
next
  case (2 es s starts col)
  show ?case
  proof (cases "col s = WHITE")
    case True
    with 2(4) obtain c where v: "visit es [s] [] col = (None, c)" and rest: "visit_all es starts c = None"
      by (auto split: option.splits prod.splits)
    have post: "dfs_inv es [] c" "c s = BLACK" "\<forall>x. col x = BLACK \<longrightarrow> c x = BLACK"
      using visit_None [OF 2(3) v] by auto
    from 2(1) [OF True v [symmetric] refl post(1) rest] post show ?thesis by force
  next
    case False
    then have "col s = BLACK" using 2(3) by (cases "col s") (auto simp: dfs_inv_def)
    with 2(2) [OF False 2(3)] 2(4) False show ?thesis by force
  qed
qed

lemma visit_all_Some:
  "dfs_inv es [] col \<Longrightarrow> visit_all es starts col = Some cyc \<Longrightarrow> closed_walk es cyc"
proof (induction es starts col rule: visit_all.induct)
  case (2 es s starts col)
  show ?case
  proof (cases "col s = WHITE")
    case True
    obtain r c where v: "visit es [s] [] col = (r, c)" by fastforce
    show ?thesis
    proof (cases r)
      case None
      with visit_None [OF 2(3)] v have "dfs_inv es [] c" by blast
      with 2(1) [OF True v [symmetric] None] 2(4) True v None show ?thesis by simp
    next
      case (Some cyc')
      with 2(4) True v have "cyc' = cyc" by simp
      with visit_Some [OF 2(3), of "[s]"] v Some show ?thesis by simp
    qed
  next
    case False
    with 2 show ?thesis by simp
  qed
qed simp

lemma dfs_inv_start: "dfs_inv es [] (\<lambda>_. WHITE)"
  by (simp add: dfs_inv_def black_edges_def acyclic_def)

lemma find_cycle_None: "find_cycle es = None \<Longrightarrow> acyclic (edge_rel (unguarded_edges es))"
proof -
  assume "find_cycle es = None"
  then obtain col where col: "dfs_inv (unguarded_edges es) [] col"
    "\<forall>s\<in>source ` set (unguarded_edges es). col s = BLACK"
    using visit_all_None [OF dfs_inv_start, of "unguarded_edges es" "rev (remdups (rev (map source (unguarded_edges es))))"]
    by (auto simp: find_cycle_def)
  then have "black_edges (unguarded_edges es) col = edge_rel (unguarded_edges es)"
    by (auto simp: black_edges_def edge_rel_def)
  with col(1) show ?thesis by (simp add: dfs_inv_def)
qed

lemma find_cycle_Some: "find_cycle es = Some cyc \<Longrightarrow> closed_walk (unguarded_edges es) cyc"
  unfolding find_cycle_def by (rule visit_all_Some [OF dfs_inv_start])

lemma walk_trancl: "walk es (x # y # zs) \<Longrightarrow> (x, last (y # zs)) \<in> (edge_rel es)\<^sup>+"
proof (induction zs arbitrary: x y)
  case (Cons z zs)
  then have "(y, last (z # zs)) \<in> (edge_rel es)\<^sup>+" by simp
  with Cons.prems show ?case by (auto intro: trancl_into_trancl2)
qed auto

lemma closed_walk_cyclic: "closed_walk es cyc \<Longrightarrow> \<not> acyclic (edge_rel es)"
proof -
  assume c: "closed_walk es cyc"
  then obtain x y zs where "cyc = x # y # zs"
    by (cases cyc; cases "tl cyc") (auto simp: closed_walk_def)
  with c walk_trancl [of es x y zs] show ?thesis by (auto simp: closed_walk_def acyclic_def)
qed

lemma find_cycle_iff: "find_cycle es = None \<longleftrightarrow> acyclic (edge_rel (unguarded_edges es))"
  using find_cycle_None find_cycle_Some closed_walk_cyclic by (cases "find_cycle es") fastforce+

subsection \<open>What a graph without errors satisfies\<close>

lemma duplicates_Nil: "duplicates ids = [] \<longleftrightarrow> distinct ids"
proof -
  have "duplicates ids = [] \<longleftrightarrow> (\<forall>x\<in>set ids. \<not> 1 < count_list ids x)"
    by (auto simp: duplicates_def filter_empty_conv simp flip: set_empty2)
  also have "\<dots> \<longleftrightarrow> distinct ids"
  proof (induction ids)
    case (Cons a ids)
    have "count_list ids a = 0 \<longleftrightarrow> a \<notin> set ids" by (rule count_list_0_iff)
    with Cons show ?case by (auto simp: not_less)
  qed simp
  finally show ?thesis .
qed

lemma concat_map_Nil: "concat (map f xs) = [] \<longleftrightarrow> (\<forall>x\<in>set xs. f x = [])"
  by auto

lemma validate_graph_parts:
  "validate_graph ns es schema = [] \<longleftrightarrow>
     ns \<noteq> [] \<and> distinct (map node_id ns) \<and> (\<forall>e\<in>set es. source e \<in> node_id ` set ns \<and> target e \<in> node_id ` set ns) \<and>
     validate_entry_and_reachability ns es = [] \<and> validate_guards ns es = [] \<and>
     validate_unconditional_cycles es = [] \<and> validate_expressions ns es schema = []"
  by (auto simp: validate_graph_def Let_def duplicates_Nil concat_map_Nil edge_endpoint_errors_def)

lemma validate_entry_and_reachability_Nil:
  "validate_entry_and_reachability ns es = [] \<longleftrightarrow>
     (\<exists>entry. entry_ids ns es = [entry] \<and> node_id ` set ns \<subseteq> (edge_rel es)\<^sup>* `` {entry}) \<and>
     (\<exists>n\<in>set ns. node_id n \<notin> source ` set es)"
proof -
  have sort_Nil: "sort (remdups xs) = [] \<longleftrightarrow> xs = []" for xs :: "string list"
    by (metis remdups_eq_nil_iff set_empty2 set_sort)
  have "(case entry_ids ns es of
           [entry] \<Rightarrow> sort (remdups (filter (\<lambda>n. n \<notin> set (reach_loop es [entry] [])) (map node_id ns)))
         | _ \<Rightarrow> []) = [] \<longleftrightarrow> node_id ` set ns \<subseteq> (edge_rel es)\<^sup>* `` {entry}"
    if "entry_ids ns es = [entry]" for entry
    unfolding that reach_loop_eq [symmetric] by (auto simp: sort_Nil filter_empty_conv simp del: reach_loop.simps)
  then show ?thesis
    unfolding validate_entry_and_reachability_def Let_def
    by (auto simp: filter_empty_conv length_Suc_conv simp del: reach_loop.simps split: if_splits)
qed

subsection \<open>Properties\<close>

text \<open>
  A graph without validation errors has nodes with distinct ids, edges between declared nodes,
  exactly one entry node, from which every node is reachable, a terminal node, no cycle of unguarded
  edges, and only edge predicates that compile.
\<close>

theorem validate_graph_sound:
  assumes "validate_graph ns es schema = []"
  shows "distinct (map node_id ns) \<and> (\<forall>e\<in>set es. source e \<in> node_id ` set ns \<and> target e \<in> node_id ` set ns) \<and>
    (\<exists>entry. entry_ids ns es = [entry] \<and> node_id ` set ns \<subseteq> (edge_rel es)\<^sup>* `` {entry}) \<and>
    (\<exists>n\<in>set ns. node_id n \<notin> source ` set es) \<and> acyclic (edge_rel (unguarded_edges es)) \<and>
    (\<forall>e\<in>set es. \<forall>p. edge_when e = Some p \<longrightarrow> (\<exists>x. compile_expression (strip_template p) = Inr x))"
proof -
  note v = assms [unfolded validate_graph_parts validate_entry_and_reachability_Nil]
  have "find_cycle es = None" using v by (auto simp: validate_unconditional_cycles_def split: option.splits)
  moreover have "\<exists>x. compile_expression (strip_template p) = Inr x" if "e \<in> set es" "edge_when e = Some p" for e p
  proof -
    have "edge_expression_errors ns (declared_inputs schema) e = []"
      using v that(1) by (auto simp: validate_expressions_def Let_def)
    then show ?thesis using that(2) by (auto simp: edge_expression_errors_def split: sum.splits)
  qed
  ultimately show ?thesis using v by (simp add: find_cycle_iff)
qed

definition plain_node :: "string \<Rightarrow> flow_node" where
  "plain_node nid = \<lparr>node_id = nid, node_type = ''tool'', node_ref = None, input_bindings = [], prompt = None, form = None,
     timeout_sec = None, on_timeout = None, retries = None, over = None, reduce_mode = ''collect'', max_parallel = None,
     node_raw = []\<rparr>"

definition plain_edge :: "string \<Rightarrow> string \<Rightarrow> flow_edge" where
  "plain_edge a b = \<lparr>source = a, target = b, edge_when = None, edge_on = None\<rparr>"

theorem validate_graph_sound_witness:
  "acyclic (edge_rel (unguarded_edges [plain_edge ''a'' ''b'']))"
proof -
  have "validate_graph [plain_node ''a'', plain_node ''b''] [plain_edge ''a'' ''b''] None = []" by code_simp
  from validate_graph_sound [OF this] show ?thesis by blast
qed

text \<open>
  C28. The depth-first search over the unguarded edges finds a cycle exactly when they have one, and
  the node ids it reports are a closed walk along unguarded edges.
\<close>

theorem find_cycle_correct:
  "(find_cycle es = None \<longleftrightarrow> acyclic (edge_rel (unguarded_edges es))) \<and>
   (case find_cycle es of None \<Rightarrow> True | Some cyc \<Rightarrow> closed_walk (unguarded_edges es) cyc)"
  using find_cycle_iff find_cycle_Some by (auto split: option.splits)

end
