(* ===== verification/Flow_Monad.thy ===== *)
theory Flow_Monad
  imports Flow_Prelude
begin

text \<open>
  Effects of the flow engine: an action reads and changes the world and either returns a value or
  raises an exception, keeping the changes made so far (every store operation of the program commits
  on its own, so an exception never rolls one back). The weakest-precondition transformer \<open>wp\<close>
  carries the proofs about actions; \<open>preserves\<close> is its instance for invariants.
\<close>

type_synonym ('e, 'a, 'w) action = "'w \<Rightarrow> ('e, 'a) result \<times> 'w"

definition return_a :: "'a \<Rightarrow> ('e, 'a, 'w) action" where
  "return_a x w = (Inr x, w)"

definition raise_a :: "'e \<Rightarrow> ('e, 'a, 'w) action" where
  "raise_a e w = (Inl e, w)"

definition bind_a :: "('e, 'a, 'w) action \<Rightarrow> ('a \<Rightarrow> ('e, 'b, 'w) action) \<Rightarrow> ('e, 'b, 'w) action" where
  "bind_a m f w = (case m w of (Inl e, w') \<Rightarrow> (Inl e, w') | (Inr x, w') \<Rightarrow> f x w')"

definition then_a :: "('e, 'a, 'w) action \<Rightarrow> ('e, 'b, 'w) action \<Rightarrow> ('e, 'b, 'w) action" where
  "then_a m k = bind_a m (\<lambda>_. k)"

definition gets_a :: "('w \<Rightarrow> 'a) \<Rightarrow> ('e, 'a, 'w) action" where
  "gets_a f w = (Inr (f w), w)"

definition modify_a :: "('w \<Rightarrow> 'w) \<Rightarrow> ('e, unit, 'w) action" where
  "modify_a f w = (Inr (), f w)"

text \<open>A pure computation that may raise.\<close>

definition lift_a :: "('e, 'a) result \<Rightarrow> ('e, 'a, 'w) action" where
  "lift_a r w = (r, w)"

text \<open>\<open>try: m except Exception as exc: h(exc)\<close>, with the result of a normal return passed on to \<open>k\<close>.\<close>

definition try_a :: "('e, 'a, 'w) action \<Rightarrow> ('a \<Rightarrow> ('f, 'b, 'w) action) \<Rightarrow> ('e \<Rightarrow> ('f, 'b, 'w) action) \<Rightarrow>
    ('f, 'b, 'w) action" where
  "try_a m k h w = (case m w of (Inl e, w') \<Rightarrow> h e w' | (Inr x, w') \<Rightarrow> k x w')"

fun each_a :: "('a \<Rightarrow> ('e, unit, 'w) action) \<Rightarrow> 'a list \<Rightarrow> ('e, unit, 'w) action" where
  "each_a f [] = return_a ()"
| "each_a f (x # xs) = then_a (f x) (each_a f xs)"

definition wp :: "('e, 'a, 'w) action \<Rightarrow> ('a \<Rightarrow> 'w \<Rightarrow> bool) \<Rightarrow> ('e \<Rightarrow> 'w \<Rightarrow> bool) \<Rightarrow> 'w \<Rightarrow> bool" where
  "wp m Q E w = (case m w of (Inl e, w') \<Rightarrow> E e w' | (Inr x, w') \<Rightarrow> Q x w')"

definition preserves :: "('w \<Rightarrow> bool) \<Rightarrow> ('e, 'a, 'w) action \<Rightarrow> bool" where
  "preserves I m = (\<forall>w. I w \<longrightarrow> I (snd (m w)))"

subsection \<open>Laws of the actions\<close>

lemma bind_a_cong [fundef_cong]: "m = m' \<Longrightarrow> (\<And>x. f x = g x) \<Longrightarrow> bind_a m f = bind_a m' g"
  by (simp add: fun_eq_iff bind_a_def split: prod.splits sum.splits)

lemma try_a_cong [fundef_cong]:
  "m = m' \<Longrightarrow> (\<And>x. k x = k' x) \<Longrightarrow> (\<And>e. h e = h' e) \<Longrightarrow> try_a m k h = try_a m' k' h'"
  by (simp add: fun_eq_iff try_a_def split: prod.splits sum.splits)

lemma bind_return [simp]: "bind_a (return_a x) f = f x"
  by (simp add: fun_eq_iff bind_a_def return_a_def)

lemma bind_raise [simp]: "bind_a (raise_a e) f = raise_a e"
  by (simp add: fun_eq_iff bind_a_def raise_a_def)

lemma bind_assoc: "bind_a (bind_a m f) g = bind_a m (\<lambda>x. bind_a (f x) g)"
  by (simp add: fun_eq_iff bind_a_def split: prod.splits sum.splits)

lemma bind_try: "bind_a (try_a m k h) f = try_a m (\<lambda>x. bind_a (k x) f) (\<lambda>e. bind_a (h e) f)"
  by (simp add: fun_eq_iff bind_a_def try_a_def split: prod.splits sum.splits)

subsection \<open>Weakest preconditions\<close>

lemma wp_return [simp]: "wp (return_a x) Q E w = Q x w"
  by (simp add: wp_def return_a_def)

lemma wp_return_eta [simp]: "wp (return_a x) Q E = Q x"
  by (simp add: fun_eq_iff)

lemma wp_raise [simp]: "wp (raise_a e) Q E w = E e w"
  by (simp add: wp_def raise_a_def)

lemma wp_raise_eta [simp]: "wp (raise_a e) Q E = E e"
  by (simp add: fun_eq_iff)

lemma wp_bind [simp]: "wp (bind_a m f) Q E w = wp m (\<lambda>x. wp (f x) Q E) E w"
  by (simp add: wp_def bind_a_def split: prod.splits sum.splits)

lemma wp_then [simp]: "wp (then_a m k) Q E w = wp m (\<lambda>_. wp k Q E) E w"
  by (simp add: then_a_def)

lemma wp_gets [simp]: "wp (gets_a f) Q E w = Q (f w) w"
  by (simp add: wp_def gets_a_def)

lemma wp_gets_eta: "wp (gets_a f) Q E = (\<lambda>w. Q (f w) w)"
  by (simp add: fun_eq_iff)

lemma wp_modify [simp]: "wp (modify_a f) Q E w = Q () (f w)"
  by (simp add: wp_def modify_a_def)

lemma wp_lift [simp]: "wp (lift_a r) Q E w = (case r of Inl e \<Rightarrow> E e w | Inr x \<Rightarrow> Q x w)"
  by (simp add: wp_def lift_a_def split: sum.splits)

lemma wp_try [simp]: "wp (try_a m k h) Q E w = wp m (\<lambda>x. wp (k x) Q E) (\<lambda>e. wp (h e) Q E) w"
  by (simp add: wp_def try_a_def split: prod.splits sum.splits)

lemma wp_if: "wp (if b then m else m') Q E w = (if b then wp m Q E w else wp m' Q E w)"
  by simp

lemma wp_mono:
  "wp m Q E w \<Longrightarrow> (\<And>x w'. Q x w' \<Longrightarrow> Q' x w') \<Longrightarrow> (\<And>e w'. E e w' \<Longrightarrow> E' e w') \<Longrightarrow> wp m Q' E' w"
  by (auto simp: wp_def split: prod.splits sum.splits)

lemma wp_conj: "wp m Q E w \<Longrightarrow> wp m Q' E' w \<Longrightarrow> wp m (\<lambda>x w'. Q x w' \<and> Q' x w') (\<lambda>e w'. E e w' \<and> E' e w') w"
  by (auto simp: wp_def split: prod.splits sum.splits)

lemma wp_conj_total: "wp m Q (\<lambda>_ _. False) w \<Longrightarrow> wp m Q' E' w \<Longrightarrow> wp m (\<lambda>x w'. Q x w' \<and> Q' x w') E w"
  by (auto simp: wp_def split: prod.splits sum.splits)

lemma wp_InrD: "wp m Q E w \<Longrightarrow> m w = (Inr x, w') \<Longrightarrow> Q x w'"
  by (simp add: wp_def)

lemma wp_InlD: "wp m Q E w \<Longrightarrow> m w = (Inl e, w') \<Longrightarrow> E e w'"
  by (simp add: wp_def)

lemma wp_Inr: "wp m Q (\<lambda>_ _. False) w \<Longrightarrow> \<exists>x w'. m w = (Inr x, w') \<and> Q x w'"
  by (auto simp: wp_def split: prod.splits sum.splits)

lemma wp_bindI: "wp m Q0 E w \<Longrightarrow> (\<And>x w'. Q0 x w' \<Longrightarrow> wp (k x) Q E w') \<Longrightarrow> wp (bind_a m k) Q E w"
  unfolding wp_bind by (rule wp_mono)

lemma wp_thenI: "wp m Q0 E w \<Longrightarrow> (\<And>x w'. Q0 x w' \<Longrightarrow> wp k Q E w') \<Longrightarrow> wp (then_a m k) Q E w"
  unfolding wp_then by (rule wp_mono)

lemma wp_tryI:
  "wp m Q0 E0 w \<Longrightarrow> (\<And>x w'. Q0 x w' \<Longrightarrow> wp (k x) Q E w') \<Longrightarrow> (\<And>e w'. E0 e w' \<Longrightarrow> wp (h e) Q E w') \<Longrightarrow>
   wp (try_a m k h) Q E w"
  unfolding wp_try by (rule wp_mono)

lemma wp_each:
  assumes "I w" and "\<And>x w. x \<in> set xs \<Longrightarrow> I w \<Longrightarrow> wp (f x) (\<lambda>_. I) E w"
  shows "wp (each_a f xs) (\<lambda>_. I) E w"
  using assms
proof (induction xs arbitrary: w)
  case (Cons x xs)
  have "wp (f x) (\<lambda>_. I) E w" using Cons.prems by simp
  then have "wp (f x) (\<lambda>_. wp (each_a f xs) (\<lambda>_. I) E) E w"
    by (rule wp_mono) (use Cons in auto)
  then show ?case by simp
qed simp

subsection \<open>Invariants\<close>

lemma preserves_wp: "preserves I m \<longleftrightarrow> (\<forall>w. I w \<longrightarrow> wp m (\<lambda>_. I) (\<lambda>_. I) w)"
proof -
  have "wp m (\<lambda>_. I) (\<lambda>_. I) w \<longleftrightarrow> I (snd (m w))" for w
    by (cases "m w"; cases "fst (m w)") (simp_all add: wp_def)
  then show ?thesis by (simp add: preserves_def)
qed

lemma preservesI: "(\<And>w. I w \<Longrightarrow> wp m (\<lambda>_. I) (\<lambda>_. I) w) \<Longrightarrow> preserves I m"
  by (simp add: preserves_wp)

lemma preservesD: "preserves I m \<Longrightarrow> I w \<Longrightarrow> I (snd (m w))"
  by (simp add: preserves_def)

lemma preserves_wpD: "preserves I m \<Longrightarrow> I w \<Longrightarrow> wp m (\<lambda>_. I) (\<lambda>_. I) w"
  by (simp add: preserves_wp)

named_theorems preserves_intros \<open>invariant preservation of the actions, by their structure\<close>

lemma preserves_return [preserves_intros]: "preserves I (return_a x)"
  by (simp add: preserves_wp)

lemma preserves_raise [preserves_intros]: "preserves I (raise_a e)"
  by (simp add: preserves_wp)

lemma preserves_gets [preserves_intros]: "preserves I (gets_a f)"
  by (simp add: preserves_wp)

lemma preserves_lift [preserves_intros]: "preserves I (lift_a r)"
  by (simp add: preserves_wp split: sum.splits)

lemma preserves_bind [preserves_intros]:
  "preserves I m \<Longrightarrow> (\<And>x. preserves I (f x)) \<Longrightarrow> preserves I (bind_a m f)"
  unfolding preserves_wp wp_bind by (blast intro: wp_mono)

lemma preserves_then [preserves_intros]: "preserves I m \<Longrightarrow> preserves I k \<Longrightarrow> preserves I (then_a m k)"
  by (simp add: then_a_def preserves_bind)

lemma preserves_try [preserves_intros]:
  "preserves I m \<Longrightarrow> (\<And>x. preserves I (k x)) \<Longrightarrow> (\<And>e. preserves I (h e)) \<Longrightarrow> preserves I (try_a m k h)"
  unfolding preserves_wp wp_try by (blast intro: wp_mono)

lemma preserves_if [preserves_intros]:
  "(b \<Longrightarrow> preserves I m) \<Longrightarrow> (\<not> b \<Longrightarrow> preserves I m') \<Longrightarrow> preserves I (if b then m else m')"
  by simp

lemma preserves_case_option [preserves_intros]:
  "(x = None \<Longrightarrow> preserves I m) \<Longrightarrow> (\<And>y. x = Some y \<Longrightarrow> preserves I (f y)) \<Longrightarrow>
   preserves I (case x of None \<Rightarrow> m | Some y \<Rightarrow> f y)"
  by (cases x) auto

lemma preserves_case_sum [preserves_intros]:
  "(\<And>e. x = Inl e \<Longrightarrow> preserves I (g e)) \<Longrightarrow> (\<And>y. x = Inr y \<Longrightarrow> preserves I (f y)) \<Longrightarrow>
   preserves I (case x of Inl e \<Rightarrow> g e | Inr y \<Rightarrow> f y)"
  by (cases x) auto

lemma preserves_case_prod [preserves_intros]:
  "(\<And>a b. x = (a, b) \<Longrightarrow> preserves I (f a b)) \<Longrightarrow> preserves I (case x of (a, b) \<Rightarrow> f a b)"
  by (cases x) auto

lemma preserves_each [preserves_intros]:
  "(\<And>x. x \<in> set xs \<Longrightarrow> preserves I (f x)) \<Longrightarrow> preserves I (each_a f xs)"
  by (induction xs) (auto intro!: preserves_intros)

end
