(* ===== verification/Sequenced_Log.thy ===== *)
theory Sequenced_Log
  imports Flow_Monad
begin

text \<open>
  Logs whose rows carry a sequence number per owner (a run, a partition): the number a new row gets
  and the listing of one owner's rows, the invariant that the numbers are contiguous, and the interface of such
  a log, which the steps and the events of the flow runs and the durable event store implement.
\<close>

subsection \<open>Sequenced rows\<close>

text \<open>\<open>COALESCE(MAX(sequence), 0) + 1\<close> over the rows of one owner (a run, a partition), and \<open>ORDER BY sequence\<close>.\<close>

definition next_sequence :: "('r \<Rightarrow> string) \<Rightarrow> ('r \<Rightarrow> nat) \<Rightarrow> string \<Rightarrow> 'r list \<Rightarrow> nat" where
  "next_sequence owner pos rid rows = Suc (foldr max (map pos (filter (\<lambda>r. owner r = rid) rows)) 0)"

definition in_order :: "('r \<Rightarrow> string) \<Rightarrow> ('r \<Rightarrow> nat) \<Rightarrow> string \<Rightarrow> 'r list \<Rightarrow> 'r list" where
  "in_order owner pos rid rows = sort_key pos (filter (\<lambda>r. owner r = rid) rows)"

subsection \<open>Contiguous sequence numbers\<close>

definition contiguous :: "('r \<Rightarrow> string) \<Rightarrow> ('r \<Rightarrow> nat) \<Rightarrow> 'r list \<Rightarrow> bool" where
  "contiguous owner pos rows \<longleftrightarrow>
     (\<forall>rid. let own = filter (\<lambda>r. owner r = rid) rows in map pos own = [1..<Suc (length own)])"

lemma contiguousD:
  "contiguous owner pos rows \<Longrightarrow>
   map pos (filter (\<lambda>r. owner r = rid) rows) = [1..<Suc (length (filter (\<lambda>r. owner r = rid) rows))]"
  by (simp add: contiguous_def Let_def del: upt_Suc)

lemma foldr_max_upt: "foldr max [1..<Suc n] 0 = n"
proof -
  have "foldr max [1..<Suc n] a = max n a" for a
    by (induction n arbitrary: a) (auto simp: max_def)
  then show ?thesis by (simp del: upt_Suc)
qed

lemma next_sequence_contiguous:
  "contiguous owner pos rows \<Longrightarrow>
   next_sequence owner pos rid rows = Suc (length (filter (\<lambda>r. owner r = rid) rows))"
  by (simp add: next_sequence_def contiguousD foldr_max_upt [unfolded One_nat_def] del: upt_Suc)

lemma in_order_contiguous:
  assumes "contiguous owner pos rows"
  shows "in_order owner pos rid rows = filter (\<lambda>r. owner r = rid) rows"
proof -
  have "sorted (map pos (filter (\<lambda>r. owner r = rid) rows))"
    by (simp add: contiguousD [OF assms] del: upt_Suc)
  then show ?thesis by (simp add: in_order_def sorted_sort_id sort_key_id_if_sorted)
qed

lemma contiguous_snoc:
  assumes "contiguous owner pos rows" and "owner r = rid" and "pos r = next_sequence owner pos rid rows"
  shows "contiguous owner pos (rows @ [r])"
  using assms next_sequence_contiguous [OF assms(1), of rid]
  by (auto simp: contiguous_def Let_def)

lemma contiguous_map:
  assumes "\<And>r. owner (f r) = owner r" and "\<And>r. pos (f r) = pos r"
  shows "contiguous owner pos (map f rows) = contiguous owner pos rows"
  using assms by (simp add: contiguous_def Let_def filter_map o_def del: upt_Suc)

lemma in_order_map:
  assumes "contiguous owner pos rows" and "\<And>r. owner (f r) = owner r" and "\<And>r. pos (f r) = pos r"
  shows "in_order owner pos rid (map f rows) = map f (in_order owner pos rid rows)"
proof -
  have c: "contiguous owner pos (map f rows)" using assms by (simp add: contiguous_map)
  show ?thesis
    using assms(2) by (simp add: in_order_contiguous [OF assms(1)] in_order_contiguous [OF c] filter_map o_def)
qed

subsection \<open>The interface of a sequenced log\<close>

locale sequenced_log =
  fixes rows :: "'w \<Rightarrow> 'r list"
    and owner :: "'r \<Rightarrow> string"
    and pos :: "'r \<Rightarrow> nat"
    and listing :: "string \<Rightarrow> 'w \<Rightarrow> 'r list"
    and insert_row :: "string \<Rightarrow> 'a \<Rightarrow> ('e, 'x, 'w) action"
  assumes listing: "listing rid w = in_order owner pos rid (rows w)"
    and insert_law: "wp (insert_row rid a)
          (\<lambda>_ w'. \<exists>r. rows w' = rows w @ [r] \<and> owner r = rid \<and> pos r = next_sequence owner pos rid (rows w))
          (\<lambda>_ w'. rows w' = rows w) w"
begin

lemma insert_contiguous: "preserves (\<lambda>w. contiguous owner pos (rows w)) (insert_row rid a)"
proof (rule preservesI)
  fix w
  assume "contiguous owner pos (rows w)"
  with insert_law [of rid a w]
  show "wp (insert_row rid a) (\<lambda>_ w. contiguous owner pos (rows w)) (\<lambda>_ w. contiguous owner pos (rows w)) w"
    by (elim wp_mono) (auto intro: contiguous_snoc)
qed

lemma listing_positions:
  "contiguous owner pos (rows w) \<Longrightarrow> map pos (listing rid w) = [1..<Suc (length (listing rid w))]"
  by (simp add: listing in_order_contiguous contiguousD del: upt_Suc)

lemma listing_owner: "r \<in> set (listing rid w) \<Longrightarrow> owner r = rid"
  by (auto simp: listing in_order_def)

text \<open>Appending to the log of one run extends its listing at the end and no other listing.\<close>

lemma listing_insert:
  assumes "contiguous owner pos (rows w)" and "insert_row rid a w = (Inr x, w')"
  shows "\<exists>r. owner r = rid \<and> pos r = Suc (length (listing rid w)) \<and>
           (\<forall>o'. listing o' w' = listing o' w @ (if o' = rid then [r] else []))"
proof -
  from wp_InrD [OF insert_law assms(2)]
  obtain r where r: "rows w' = rows w @ [r]" "owner r = rid" "pos r = next_sequence owner pos rid (rows w)"
    by blast
  have "contiguous owner pos (rows w')" unfolding r(1) by (rule contiguous_snoc) (use assms r in auto)
  with assms(1) r have "\<forall>o'. listing o' w' = listing o' w @ (if o' = rid then [r] else [])"
    by (simp add: listing in_order_contiguous)
  moreover have "pos r = Suc (length (listing rid w))"
    using assms(1) r by (simp add: listing in_order_contiguous next_sequence_contiguous)
  ultimately show ?thesis using r(2) by blast
qed

lemma listing_insert_error:
  "insert_row rid a w = (Inl e, w') \<Longrightarrow> listing o' w' = listing o' w"
  using wp_InlD [OF insert_law] by (metis listing)

end

end
