(* ===== verification/Flow_Budgets.thy ===== *)
theory Flow_Budgets
  imports Flow_Model
begin

text \<open>
  Budget arithmetic (\<^verbatim>\<open>backend/flows/budgets.py\<close>). A cap persists in the durable state of a run as
  a document of numbers; the budgets of an execution are the infimum of the manifest's budgets and
  the caps, in the component-wise order that the instantiation of \<open>semilattice_inf\<close> states.
\<close>

subsection \<open>The run state\<close>

text \<open>
  \<open>state["budget_cap"]\<close>: the document's numbers, each of them possibly absent. The other
  parts of the state (cursor, node outputs, metrics, pause) are optional keys of the same document:
  \<open>None\<close> is a missing key; a cursor of \<open>Some None\<close> is the value \<open>None\<close>.
\<close>

record cap_doc =
  doc_max_cost_usd :: "rat option"
  doc_max_wall_clock_sec :: "rat option"
  doc_max_tokens :: "rat option"

record pause_doc =
  pause_node :: string
  pause_step :: string
  pause_expires :: pyval

record run_state =
  st_cursor :: "string option option"
  st_nodes :: "pydict option"
  st_metrics :: "run_metrics option"
  st_budget_cap :: "cap_doc option"
  st_pause :: "pause_doc option"

definition zero_metrics :: run_metrics where
  "zero_metrics = \<lparr>tokens = 0, cost_usd = 0\<rparr>"

definition metrics_of :: "run_state \<Rightarrow> run_metrics" where
  "metrics_of st = (case st_metrics st of None \<Rightarrow> zero_metrics | Some m \<Rightarrow> m)"

subsection \<open>Operations\<close>

definition merge_budgets :: "flow_budgets \<Rightarrow> flow_budgets \<Rightarrow> flow_budgets" where
  "merge_budgets b c = FlowBudgets
     (min (max_cost_usd b) (max_cost_usd c))
     (min (max_wall_clock_sec b) (max_wall_clock_sec c))
     (min (max_tokens b) (max_tokens c))"

definition budget_cap_document :: "flow_budgets \<Rightarrow> cap_doc" where
  "budget_cap_document c = \<lparr>
     doc_max_cost_usd = Some (max_cost_usd c),
     doc_max_wall_clock_sec = Some (of_int (max_wall_clock_sec c)),
     doc_max_tokens = Some (of_int (max_tokens c))\<rparr>"

text \<open>\<open>int(x)\<close> of a number truncates towards zero.\<close>

definition py_int :: "rat \<Rightarrow> int" where
  "py_int q = (if 0 \<le> q then \<lfloor>q\<rfloor> else \<lceil>q\<rceil>)"

definition budget_cap_from_state :: "run_state \<Rightarrow> flow_budgets option" where
  "budget_cap_from_state st =
     (case st_budget_cap st of
        None \<Rightarrow> None
      | Some d \<Rightarrow> Some (FlowBudgets
          (case doc_max_cost_usd d of None \<Rightarrow> max_cost_usd DEFAULT_FLOW_BUDGETS | Some q \<Rightarrow> q)
          (case doc_max_wall_clock_sec d of None \<Rightarrow> max_wall_clock_sec DEFAULT_FLOW_BUDGETS | Some q \<Rightarrow> py_int q)
          (case doc_max_tokens d of None \<Rightarrow> max_tokens DEFAULT_FLOW_BUDGETS | Some q \<Rightarrow> py_int q)))"

definition effective_budgets :: "flow_budgets \<Rightarrow> run_state \<Rightarrow> flow_budgets option \<Rightarrow> flow_budgets" where
  "effective_budgets b st cap =
     (let e = (case budget_cap_from_state st of None \<Rightarrow> b | Some p \<Rightarrow> merge_budgets b p)
      in case cap of None \<Rightarrow> e | Some c \<Rightarrow> merge_budgets e c)"

definition budget_violation :: "flow_budgets \<Rightarrow> run_state \<Rightarrow> rat \<Rightarrow> int \<Rightarrow> int \<Rightarrow> violation option" where
  "budget_violation b st elapsed activations max_steps =
     (if elapsed > of_int (max_wall_clock_sec b) then Some (WallClockExceeded elapsed (max_wall_clock_sec b))
      else if tokens (metrics_of st) > of_int (max_tokens b)
        then Some (TokensExceeded (tokens (metrics_of st)) (max_tokens b))
      else if cost_usd (metrics_of st) > max_cost_usd b
        then Some (CostExceeded (cost_usd (metrics_of st)) (max_cost_usd b))
      else if activations \<ge> max_steps then Some (StepCapReached max_steps)
      else None)"

subsection \<open>Budgets as a meet semilattice\<close>

instantiation flow_budgets :: semilattice_inf
begin

definition less_eq_flow_budgets :: "flow_budgets \<Rightarrow> flow_budgets \<Rightarrow> bool" where
  "b \<le> c \<longleftrightarrow> max_cost_usd b \<le> max_cost_usd c \<and> max_wall_clock_sec b \<le> max_wall_clock_sec c \<and>
     max_tokens b \<le> max_tokens c"

definition less_flow_budgets :: "flow_budgets \<Rightarrow> flow_budgets \<Rightarrow> bool" where
  "less_flow_budgets b c \<longleftrightarrow> b \<le> c \<and> \<not> c \<le> b"

definition inf_flow_budgets :: "flow_budgets \<Rightarrow> flow_budgets \<Rightarrow> flow_budgets" where
  "inf_flow_budgets = merge_budgets"

instance
proof
  fix b c d :: flow_budgets
  show "b < c \<longleftrightarrow> b \<le> c \<and> \<not> c \<le> b" by (rule less_flow_budgets_def)
  show "b \<le> b" by (simp add: less_eq_flow_budgets_def)
  show "b \<le> c \<Longrightarrow> c \<le> d \<Longrightarrow> b \<le> d" by (auto simp: less_eq_flow_budgets_def)
  show "b \<le> c \<Longrightarrow> c \<le> b \<Longrightarrow> b = c" by (auto simp: less_eq_flow_budgets_def intro: flow_budgets.expand)
  show "inf b c \<le> b" "inf b c \<le> c"
    by (simp_all add: inf_flow_budgets_def merge_budgets_def less_eq_flow_budgets_def)
  show "b \<le> c \<Longrightarrow> b \<le> d \<Longrightarrow> b \<le> inf c d"
    by (simp add: inf_flow_budgets_def merge_budgets_def less_eq_flow_budgets_def)
qed

end

lemma merge_budgets_inf: "merge_budgets b c = inf b c"
  by (simp add: inf_flow_budgets_def)

subsection \<open>Lemmas\<close>

lemma py_int_of_int [simp]: "py_int (of_int i) = i"
  by (simp add: py_int_def)

lemma py_int_le: "0 \<le> q \<Longrightarrow> of_int (py_int q) \<le> q"
  by (simp add: py_int_def)

lemma py_int_nonneg: "0 \<le> q \<Longrightarrow> 0 \<le> py_int q"
  by (simp add: py_int_def)

lemma budget_cap_roundtrip:
  "budget_cap_from_state (st\<lparr>st_budget_cap := Some (budget_cap_document c)\<rparr>) = Some c"
  by (cases c) (simp add: budget_cap_from_state_def budget_cap_document_def)

lemma effective_budgets_inf:
  "effective_budgets b st cap =
     (let e = (case budget_cap_from_state st of None \<Rightarrow> b | Some p \<Rightarrow> inf b p)
      in case cap of None \<Rightarrow> e | Some c \<Rightarrow> inf e c)"
  by (simp add: effective_budgets_def merge_budgets_inf [abs_def] cong: option.case_cong)

lemma effective_budgets_le: "effective_budgets b st cap \<le> b"
  by (auto simp: effective_budgets_inf Let_def le_infI1 split: option.splits)

lemma effective_budgets_cong:
  "st_budget_cap st = st_budget_cap st' \<Longrightarrow> effective_budgets b st cap = effective_budgets b st' cap"
  by (simp add: effective_budgets_def budget_cap_from_state_def)

lemma budget_violation_None:
  "budget_violation b st elapsed n k = None \<longleftrightarrow>
     elapsed \<le> of_int (max_wall_clock_sec b) \<and> tokens (metrics_of st) \<le> of_int (max_tokens b) \<and>
     cost_usd (metrics_of st) \<le> max_cost_usd b \<and> n < k"
  by (auto simp: budget_violation_def)

lemma budget_violation_step_cap: "k \<le> n \<Longrightarrow> budget_violation b st elapsed n k \<noteq> None"
  by (simp add: budget_violation_None)

text \<open>Stricter budgets never accept what looser ones refuse.\<close>

lemma budget_violation_mono:
  assumes "b \<le> c" and "budget_violation b st elapsed n k = None"
  shows "budget_violation c st elapsed n k = None"
proof -
  have "(of_int (max_wall_clock_sec b) :: rat) \<le> of_int (max_wall_clock_sec c)"
    "(of_int (max_tokens b) :: rat) \<le> of_int (max_tokens c)" "max_cost_usd b \<le> max_cost_usd c"
    using assms(1) by (simp_all add: less_eq_flow_budgets_def)
  then show ?thesis using assms(2) by (auto simp: budget_violation_None intro: order_trans)
qed

subsection \<open>Properties\<close>

text \<open>
  The budgets a run executes under are the greatest ones below the manifest's budgets, the cap
  persisted in the run state and the cap of the call: no cap ever loosens another.
\<close>

theorem effective_budgets_greatest:
  "c \<le> effective_budgets b st cap \<longleftrightarrow>
     c \<le> b \<and> (case budget_cap_from_state st of None \<Rightarrow> True | Some p \<Rightarrow> c \<le> p) \<and>
     (case cap of None \<Rightarrow> True | Some p \<Rightarrow> c \<le> p)"
  by (auto simp: effective_budgets_inf Let_def split: option.splits)

text \<open>
  A budget cap persisted in the run state is read back unchanged, whatever else the state holds,
  and is enforced by the following executions.
\<close>

theorem persisted_cap_roundtrip:
  "budget_cap_from_state (st\<lparr>st_budget_cap := Some (budget_cap_document c)\<rparr>) = Some c \<and>
   effective_budgets b (st\<lparr>st_budget_cap := Some (budget_cap_document c)\<rparr>) None = merge_budgets b c"
  by (simp add: effective_budgets_def budget_cap_roundtrip)

text \<open>
  The budget gate passes exactly while the elapsed time, the tokens and the cost are within the
  budgets and the step cap is not used up, and it passes under merged budgets exactly when it passes
  under both.
\<close>

theorem budget_gate:
  "(budget_violation b st elapsed n k = None \<longleftrightarrow>
     elapsed \<le> of_int (max_wall_clock_sec b) \<and> tokens (metrics_of st) \<le> of_int (max_tokens b) \<and>
     cost_usd (metrics_of st) \<le> max_cost_usd b \<and> n < k) \<and>
   (budget_violation (merge_budgets b c) st elapsed n k = None \<longleftrightarrow>
     budget_violation b st elapsed n k = None \<and> budget_violation c st elapsed n k = None)"
  by (auto simp: budget_violation_None merge_budgets_def of_int_min)

end
