(* ===== verification/Flow_Store.thy ===== *)
theory Flow_Store
  imports Sequenced_Log Flow_Budgets Flow_Expressions "HOL-Library.Product_Lexorder"
begin

text \<open>
  The durable run, step and event store (\<^verbatim>\<open>backend/flows/records.py\<close>, \<^verbatim>\<open>backend/flows/state.py\<close>,
  \<^verbatim>\<open>backend/flows/schema_sql.py\<close>). A table is the list of its rows in insertion order, a write is
  an action that commits one statement, a query is a function of the world. JSON columns hold what
  \<open>json.loads\<close> returns for the text \<open>json.dumps\<close> wrote. \<open>uuid4\<close> draws from a supply of
  identifiers; wall-clock instants are microseconds; the \<open>n\<close>-th reading of a clock is a function of
  \<open>n\<close>. Event payloads are a datatype with one constructor per event name, whose arguments are the
  payload's fields; a failure's text is the structured \<open>fail_detail\<close> it is formatted from.
\<close>

subsection \<open>Records\<close>

definition RUN_STATUSES :: "string list" where
  "RUN_STATUSES = [''pending'', ''running'', ''waiting_human'', ''completed'', ''failed'']"

definition TERMINAL_RUN_STATUSES :: "string list" where
  "TERMINAL_RUN_STATUSES = [''completed'', ''failed'']"

definition STEP_STATUSES :: "string list" where
  "STEP_STATUSES = [''running'', ''completed'', ''failed'', ''waiting_human'']"

record flow_run_record =
  run_id :: string
  run_flow_id :: string
  run_flow_version :: string
  run_tenant_id :: string
  run_status :: string
  stop_reason :: string
  run_trigger :: pydict
  run_input :: pydict
  run_state :: run_state
  run_output :: "pydict option"
  parent_run_id :: "string option"
  created_at :: int
  updated_at :: int

record flow_step_record =
  step_id :: string
  step_run_id :: string
  step_node_id :: string
  step_node_type :: string
  step_status :: string
  step_attempt :: int
  step_input :: pydict
  step_output :: "pydict option"
  step_error :: string
  step_started_at :: int
  step_completed_at :: "int option"
  step_sequence :: nat

datatype fail_detail =
    BudgetDetail violation
  | BindingDetail string expr_error
  | NodeDetail string
  | BackoffDetail string rat int
  | OutputDetail string
  | RoutingDetail string expr_error
  | NoRouteDetail string
  | TimeoutDetail string

datatype replay_divergence =
    NoEntry
  | TerminalCursor nat string
  | OtherNode nat string string
  | BindingsFailed nat string expr_error
  | InputDiffers nat string
  | RoutingFailed nat string
  | FinalCursor "string option" "string option"

record flow_replay_report =
  report_run_id :: string
  report_flow_id :: string
  deterministic :: bool
  recorded_sequence :: "string list"
  replayed_sequence :: "string list"
  divergences :: "replay_divergence list"

datatype flow_event =
    RunStarted string string string pydict string
  | StepStarted string string int
  | StepFailed string string int string string bool
  | StepCompleted string string int "string option" bool
  | RunPaused string string pyval pyval
  | RunResumed string string "string option"
  | RunReplayed flow_replay_report
  | RunCompleted string pydict
  | RunFailed string fail_detail
  | HumanDecisionRecorded string string string pydict
  | HumanTimeoutExpired string string pyval

fun event_name :: "flow_event \<Rightarrow> string" where
  "event_name (RunStarted _ _ _ _ _) = ''flow.run.started''"
| "event_name (StepStarted _ _ _) = ''run.step.started''"
| "event_name (StepFailed _ _ _ _ _ _) = ''run.step.failed''"
| "event_name (StepCompleted _ _ _ _ _) = ''run.step.completed''"
| "event_name (RunPaused _ _ _ _) = ''flow.run.paused''"
| "event_name (RunResumed _ _ _) = ''flow.run.resumed''"
| "event_name (RunReplayed _) = ''flow.run.replayed''"
| "event_name (RunCompleted _ _) = ''flow.run.completed''"
| "event_name (RunFailed _ _) = ''flow.run.failed''"
| "event_name (HumanDecisionRecorded _ _ _ _) = ''flow.human.decision.recorded''"
| "event_name (HumanTimeoutExpired _ _ _) = ''flow.human.timeout.expired''"

record flow_event_record =
  event_id :: string
  event_run_id :: string
  event_sequence :: nat
  event_payload :: flow_event
  event_created_at :: int

text \<open>The exceptions of the engine, its store and the human decision service.\<close>

datatype human_reason =
    WaitExpired pyval
  | InvalidDecision "pyval list" "pykey list"
  | EditsNotObject
  | EditPatchNotObject pykey
  | EditsTargetHuman
  | EditsUnknownNode pykey

datatype flow_exc =
    NotSerializable
  | Unhashable
  | UnknownStatus string
  | IntegrityError string
  | InvalidVersion string
  | KeyError string string
  | NoEntryNode
  | UnknownRun string
  | UnknownFlow string string
  | InvalidRunInput "pyval list" "pykey list"
  | NoAttempt string
  | TerminalRun string string
  | NotTerminalRun string string
  | RunVanished string
  | HumanUnknownRun string
  | HumanNoWaitingStep string
  | HumanStateError string string
  | HumanDecisionError human_reason
  | InvalidTimestamp string
  | AttributeError string

record bus_event =
  bus_name :: string
  bus_tenant :: string
  bus_run :: string
  bus_step :: "string option"

record world =
  tbl_runs :: "flow_run_record list"
  tbl_steps :: "flow_step_record list"
  tbl_events :: "flow_event_record list"
  tbl_flows :: "(string \<times> string \<times> pydict) list"
  uuid_supply :: nat
  wall_src :: "nat \<Rightarrow> int"
  wall_reads :: nat
  clock_src :: "nat \<Rightarrow> rat"
  clock_reads :: nat
  slept :: "rat list"
  bus :: "bus_event list"

type_synonym 'a flow_action = "(flow_exc, 'a, world) action"

subsection \<open>Clocks, identifiers and JSON columns\<close>

definition utcnow :: "int flow_action" where
  "utcnow = bind_a (gets_a (\<lambda>w. wall_src w (wall_reads w))) (\<lambda>t.
     then_a (modify_a (\<lambda>w. w\<lparr>wall_reads := Suc (wall_reads w)\<rparr>)) (return_a t))"

definition uuid4 :: "string flow_action" where
  "uuid4 = bind_a (gets_a (\<lambda>w. str_nat (uuid_supply w))) (\<lambda>i.
     then_a (modify_a (\<lambda>w. w\<lparr>uuid_supply := Suc (uuid_supply w)\<rparr>)) (return_a i))"

definition json_doc :: "pydict \<Rightarrow> pydict option" where
  "json_doc d = json_items d []"

definition json_opt :: "('a \<Rightarrow> 'a option) \<Rightarrow> 'a option \<Rightarrow> 'a option option" where
  "json_opt f x = (case x of None \<Rightarrow> Some None | Some y \<Rightarrow> map_option Some (f y))"

definition json_pause :: "pause_doc \<Rightarrow> pause_doc option" where
  "json_pause p = map_option (\<lambda>v. p\<lparr>pause_expires := v\<rparr>) (json_val (pause_expires p))"

definition json_state :: "run_state \<Rightarrow> run_state option" where
  "json_state st =
     (case (json_opt json_doc (st_nodes st), json_opt json_pause (st_pause st)) of
        (Some ns, Some p) \<Rightarrow> Some (st\<lparr>st_nodes := ns, st_pause := p\<rparr>)
      | _ \<Rightarrow> None)"

text \<open>\<open>json.dumps\<close> of a column, with the document that will be read back.\<close>

definition dumps :: "'a option \<Rightarrow> 'a flow_action" where
  "dumps r = (case r of None \<Rightarrow> raise_a NotSerializable | Some x \<Rightarrow> return_a x)"

subsection \<open>Runs\<close>

definition insert_run :: "flow_run_record \<Rightarrow> unit flow_action" where
  "insert_run r = bind_a (gets_a tbl_runs) (\<lambda>rows.
     if run_id r \<in> run_id ` set rows then raise_a (IntegrityError (run_id r))
     else modify_a (\<lambda>w. w\<lparr>tbl_runs := tbl_runs w @ [r]\<rparr>))"

definition create_run :: "string \<Rightarrow> string \<Rightarrow> string \<Rightarrow> pydict \<Rightarrow> pydict \<Rightarrow> run_state \<Rightarrow> string option \<Rightarrow>
    string option \<Rightarrow> flow_run_record flow_action" where
  "create_run fid ver tenant trig inp st parent rid =
     bind_a (case rid of Some i \<Rightarrow> if i = [] then uuid4 else return_a i | None \<Rightarrow> uuid4) (\<lambda>i.
     bind_a utcnow (\<lambda>c. bind_a utcnow (\<lambda>u.
     let r = \<lparr>run_id = i, run_flow_id = fid, run_flow_version = ver, run_tenant_id = tenant,
              run_status = ''pending'', stop_reason = [], run_trigger = trig, run_input = inp,
              run_state = st, run_output = None, parent_run_id = parent, created_at = c, updated_at = u\<rparr>
     in bind_a (dumps (json_doc trig)) (\<lambda>t.
        bind_a (dumps (json_doc inp)) (\<lambda>j.
        bind_a (dumps (json_state st)) (\<lambda>s.
        then_a (insert_run (r\<lparr>run_trigger := t, run_input := j, run_state := s\<rparr>)) (return_a r)))))))"

definition set_run :: "string \<Rightarrow> (flow_run_record \<Rightarrow> flow_run_record) \<Rightarrow> world \<Rightarrow> world" where
  "set_run rid f w = w\<lparr>tbl_runs := map (\<lambda>r. if run_id r = rid then f r else r) (tbl_runs w)\<rparr>"

definition assign :: "'a option \<Rightarrow> ('a \<Rightarrow> 'r \<Rightarrow> 'r) \<Rightarrow> 'r \<Rightarrow> 'r" where
  "assign x f r = (case x of None \<Rightarrow> r | Some y \<Rightarrow> f y r)"

definition patch_run :: "int \<Rightarrow> string option \<Rightarrow> string option \<Rightarrow> run_state option \<Rightarrow> pydict option \<Rightarrow>
    flow_run_record \<Rightarrow> flow_run_record" where
  "patch_run t st reason state out r =
     assign out (\<lambda>x r. r\<lparr>run_output := Some x\<rparr>)
     (assign state (\<lambda>x r. r\<lparr>run_state := x\<rparr>)
     (assign reason (\<lambda>x r. r\<lparr>stop_reason := x\<rparr>)
     (assign st (\<lambda>x r. r\<lparr>run_status := x\<rparr>) (r\<lparr>updated_at := t\<rparr>))))"

definition update_run :: "string \<Rightarrow> string option \<Rightarrow> string option \<Rightarrow> run_state option \<Rightarrow> pydict option \<Rightarrow>
    unit flow_action" where
  "update_run rid st reason state out =
     (if (case st of None \<Rightarrow> False | Some s \<Rightarrow> s \<notin> set RUN_STATUSES)
      then raise_a (UnknownStatus (the st))
      else bind_a utcnow (\<lambda>t.
        bind_a (dumps (json_opt json_state state)) (\<lambda>s.
        bind_a (dumps (json_opt json_doc out)) (\<lambda>p.
        modify_a (set_run rid (patch_run t st reason s p))))))"

definition get_run :: "string \<Rightarrow> string option \<Rightarrow> world \<Rightarrow> flow_run_record option" where
  "get_run rid tenant w =
     (case tenant of
        None \<Rightarrow> List.find (\<lambda>r. run_id r = rid) (tbl_runs w)
      | Some t \<Rightarrow> List.find (\<lambda>r. run_id r = rid \<and> run_tenant_id r = t) (tbl_runs w))"

text \<open>\<open>ORDER BY created_at DESC, run_id\<close>.\<close>

definition list_runs :: "string option \<Rightarrow> string option \<Rightarrow> string option \<Rightarrow> world \<Rightarrow> flow_run_record list" where
  "list_runs fid st parent w =
     sort_key (\<lambda>r. (- created_at r, run_id r))
       (filter (\<lambda>r. (case fid of None \<Rightarrow> True | Some x \<Rightarrow> run_flow_id r = x) \<and>
                    (case st of None \<Rightarrow> True | Some x \<Rightarrow> run_status r = x) \<and>
                    (case parent of None \<Rightarrow> True | Some x \<Rightarrow> parent_run_id r = Some x)) (tbl_runs w))"

subsection \<open>Steps\<close>

definition create_step :: "string \<Rightarrow> string \<Rightarrow> string \<Rightarrow> int \<Rightarrow> pydict \<Rightarrow> flow_step_record flow_action" where
  "create_step rid nid nty att inp =
     bind_a (gets_a tbl_steps) (\<lambda>rows.
     bind_a uuid4 (\<lambda>i. bind_a utcnow (\<lambda>t.
     let s = \<lparr>step_id = i, step_run_id = rid, step_node_id = nid, step_node_type = nty,
              step_status = ''running'', step_attempt = att, step_input = inp, step_output = None,
              step_error = [], step_started_at = t, step_completed_at = None,
              step_sequence = next_sequence step_run_id step_sequence rid rows\<rparr>
     in bind_a (dumps (json_doc inp)) (\<lambda>j.
        if i \<in> step_id ` set rows then raise_a (IntegrityError i)
        else then_a (modify_a (\<lambda>w. w\<lparr>tbl_steps := tbl_steps w @ [s\<lparr>step_input := j\<rparr>]\<rparr>)) (return_a s)))))"

definition set_step :: "string \<Rightarrow> (flow_step_record \<Rightarrow> flow_step_record) \<Rightarrow> world \<Rightarrow> world" where
  "set_step sid f w = w\<lparr>tbl_steps := map (\<lambda>s. if step_id s = sid then f s else s) (tbl_steps w)\<rparr>"

definition complete_step :: "string \<Rightarrow> string \<Rightarrow> pydict option \<Rightarrow> string \<Rightarrow> unit flow_action" where
  "complete_step sid st out err =
     (if st \<notin> set STEP_STATUSES then raise_a (UnknownStatus st)
      else bind_a (dumps (json_opt json_doc out)) (\<lambda>p. bind_a utcnow (\<lambda>t.
        modify_a (set_step sid (\<lambda>s. s\<lparr>step_status := st, step_output := p, step_error := err,
          step_completed_at := Some t\<rparr>)))))"

definition list_steps :: "string \<Rightarrow> world \<Rightarrow> flow_step_record list" where
  "list_steps rid w = in_order step_run_id step_sequence rid (tbl_steps w)"

subsection \<open>Events\<close>

definition append_event :: "string \<Rightarrow> flow_event \<Rightarrow> flow_event_record flow_action" where
  "append_event rid p =
     bind_a (gets_a tbl_events) (\<lambda>rows.
     bind_a uuid4 (\<lambda>i. bind_a utcnow (\<lambda>t.
     let e = \<lparr>event_id = i, event_run_id = rid,
              event_sequence = next_sequence event_run_id event_sequence rid rows,
              event_payload = p, event_created_at = t\<rparr>
     in if i \<in> event_id ` set rows then raise_a (IntegrityError i)
        else then_a (modify_a (\<lambda>w. w\<lparr>tbl_events := tbl_events w @ [e]\<rparr>)) (return_a e))))"

definition list_events :: "string \<Rightarrow> world \<Rightarrow> flow_event_record list" where
  "list_events rid w = in_order event_run_id event_sequence rid (tbl_events w)"

text \<open>\<open>emit_event\<close> hands a notification to the platform's event runtime, which is outside the store.\<close>

definition emit_event :: "string \<Rightarrow> string \<Rightarrow> string \<Rightarrow> string option \<Rightarrow> unit flow_action" where
  "emit_event name tenant rid sid =
     modify_a (\<lambda>w. w\<lparr>bus := bus w @ [\<lparr>bus_name = name, bus_tenant = tenant, bus_run = rid, bus_step = sid\<rparr>]\<rparr>)"

end
