(* ===== verification/Flow_Manifest.thy ===== *)
theory Flow_Manifest
  imports Flow_Graph Flow_Store
begin

text \<open>
  Parsing and validation of \<^verbatim>\<open>flow.yaml\<close> documents (\<^verbatim>\<open>backend/flows/fields.py\<close>,
  \<^verbatim>\<open>backend/flows/manifest.py\<close>). A parser returns the errors it appends to the accumulator, in
  order, with its value. A \<open>backoff\<close> that is not hashable makes the membership test in a
  \<open>frozenset\<close> raise \<open>TypeError\<close>, so the parsers of retry policies, and validation with them,
  may raise.
\<close>

subsection \<open>Errors\<close>

datatype manifest_error =
    RequiredKey string
  | BadSchemaVersion
  | BadFlowId
  | BadVersion
  | BadHostApi
  | TriggersNotList
  | TriggerNotObject nat
  | BadTriggerType nat
  | TriggerOnRequired nat
  | TriggerScheduleRequired nat
  | IONotObject string
  | BudgetsNotObject
  | BadMaxCost
  | BadMaxWallClock
  | BadMaxTokens
  | RetriesNotObject string
  | BadMaxAttempts string
  | BadBackoff string
  | BadInitialDelay string
  | BadTimeout string
  | DefaultsNotObject
  | NodesNotList
  | NodeNotObject nat
  | BadNodeId nat
  | BadNodeType string
  | RefRequired string
  | BadRefId string
  | BadRefRange string string
  | RefNotAllowed string string
  | InputNotObject string
  | FormNotObject string
  | PromptRequired string
  | OverRequired string
  | OverNotAllowed string
  | BadReduce string
  | BadMaxParallel string
  | EdgesNotList
  | EdgeNotObject nat
  | EdgeEndpointsRequired nat
  | EdgeWhenAndOn nat
  | InvalidGraph graph_error

subsection \<open>Field parsers\<close>

definition str_field :: "pyval option \<Rightarrow> string" where
  "str_field v = (case v of Some (PStr s) \<Rightarrow> s | _ \<Rightarrow> [])"

definition str_opt :: "pyval option \<Rightarrow> string option" where
  "str_opt v = (if str_field v = [] then None else Some (str_field v))"

text \<open>\<open>isinstance(v, int)\<close>: a \<open>bool\<close> is an \<open>int\<close>.\<close>

fun int_of_val :: "pyval \<Rightarrow> int option" where
  "int_of_val (PInt i) = Some i"
| "int_of_val (PBool b) = Some (if b then 1 else 0)"
| "int_of_val _ = None"

definition get_or :: "pydict \<Rightarrow> string \<Rightarrow> pyval \<Rightarrow> pyval" where
  "get_or d k v = (case dget d k of None \<Rightarrow> v | Some w \<Rightarrow> w)"

fun hashable :: "pyval \<Rightarrow> bool" where
  "hashable (PList vs) = False"
| "hashable (PDict d) = False"
| "hashable (PTuple vs) = (\<forall>v\<in>set vs. hashable v)"
| "hashable _ = True"

text \<open>\<open>text.partition("@")\<close>.\<close>

definition partition_at :: "char \<Rightarrow> string \<Rightarrow> string \<times> string" where
  "partition_at c s = (takeWhile (\<lambda>x. x \<noteq> c) s, drop 1 (dropWhile (\<lambda>x. x \<noteq> c) s))"

definition parse_ref :: "version_lib \<Rightarrow> pyval option \<Rightarrow> string \<Rightarrow> manifest_error list \<times> flow_node_ref option" where
  "parse_ref lib v nid =
     (let text = str_field v in
      if text = [] then ([RefRequired nid], None)
      else case partition_at (CHR ''@'') text of (rid, r0) \<Rightarrow>
        let r1 = strip r0; rng = (if r1 = [] then ''*'' else r1) in
        if \<not> FLOW_ID_RE rid then ([BadRefId nid], None)
        else if \<not> is_supported_range lib rng then ([BadRefRange nid rng], None)
        else ([], Some \<lparr>ref_id = rid, version_range = rng\<rparr>))"

definition parse_retries :: "pyval option \<Rightarrow> string \<Rightarrow>
    (flow_exc, manifest_error list \<times> flow_retry_policy option) result" where
  "parse_retries v ctx =
     (case v of
        None \<Rightarrow> Inr ([], None)
      | Some PNone \<Rightarrow> Inr ([], None)
      | Some (PDict d) \<Rightarrow>
          (let ma = get_or d ''maxAttempts'' (PInt (max_attempts DEFAULT_FLOW_RETRIES));
               bo = get_or d ''backoff'' (PStr (backoff DEFAULT_FLOW_RETRIES));
               de = get_or d ''initialDelaySec'' (PFloat (initial_delay_sec DEFAULT_FLOW_RETRIES))
           in case int_of_val ma of
                None \<Rightarrow> Inr ([BadMaxAttempts ctx], None)
              | Some n \<Rightarrow>
                  if n < 1 then Inr ([BadMaxAttempts ctx], None)
                  else if \<not> hashable bo then Inl Unhashable
                  else (case bo of
                    PStr b \<Rightarrow>
                      if b \<notin> set BACKOFF_MODES then Inr ([BadBackoff ctx], None)
                      else (case num_of de of
                        None \<Rightarrow> Inr ([BadInitialDelay ctx], None)
                      | Some q \<Rightarrow>
                          if q < 0 then Inr ([BadInitialDelay ctx], None)
                          else Inr ([], Some \<lparr>max_attempts = n, backoff = b, initial_delay_sec = q\<rparr>))
                  | _ \<Rightarrow> Inr ([BadBackoff ctx], None)))
      | Some _ \<Rightarrow> Inr ([RetriesNotObject ctx], None))"

definition parse_timeout :: "pyval option \<Rightarrow> string \<Rightarrow> manifest_error list \<times> int option" where
  "parse_timeout v ctx =
     (case v of
        None \<Rightarrow> ([], None)
      | Some PNone \<Rightarrow> ([], None)
      | Some (PInt n) \<Rightarrow> if n < 1 then ([BadTimeout ctx], None) else ([], Some n)
      | Some _ \<Rightarrow> ([BadTimeout ctx], None))"

definition parse_io :: "pyval option \<Rightarrow> string \<Rightarrow> manifest_error list \<times> flow_io option" where
  "parse_io v key =
     (case v of
        None \<Rightarrow> ([], None)
      | Some PNone \<Rightarrow> ([], None)
      | Some (PDict d) \<Rightarrow>
          ([], Some \<lparr>io_schema_version = (if str_field (dget d ''schemaVersion'') = [] then ''1''
                                        else str_field (dget d ''schemaVersion'')),
                    io_schema = filter (\<lambda>(k, _). k \<noteq> KStr ''schemaVersion'') d\<rparr>)
      | Some _ \<Rightarrow> ([IONotObject key], None))"

text \<open>\<open>str(key)\<close>.\<close>

fun str_key :: "pykey \<Rightarrow> string" where
  "str_key (KStr s) = s"
| "str_key k = repr_key k"

definition normalize_on_key :: "pydict \<Rightarrow> pydict" where
  "normalize_on_key d =
     (if dlookup (KBool True) d \<noteq> None \<and> dget d ''on'' = None
      then dset (KStr ''on'') (the (dlookup (KBool True) d)) (filter (\<lambda>(k, _). k \<noteq> KBool True) d)
      else foldl (\<lambda>acc (k, v). dset (KStr (str_key k)) v acc) [] d)"

subsection \<open>Triggers and budgets\<close>

definition parse_trigger :: "nat \<Rightarrow> pyval \<Rightarrow> manifest_error list \<times> flow_trigger list" where
  "parse_trigger i item =
     (case item of
        PDict d0 \<Rightarrow>
          (let d = normalize_on_key d0; ty = str_field (dget d ''type'');
               on = str_opt (dget d ''on''); sched = str_opt (dget d ''schedule'') in
           if ty \<notin> set TRIGGER_TYPES then ([BadTriggerType i], [])
           else if ty = ''event'' \<and> on = None then ([TriggerOnRequired i], [])
           else if ty = ''cron'' \<and> sched = None then ([TriggerScheduleRequired i], [])
           else ([], [\<lparr>trigger_type = ty, trigger_on = on, trigger_schedule = sched,
                     trigger_metadata = filter (\<lambda>(k, _). k \<notin> {KStr ''type'', KStr ''on'', KStr ''schedule''}) d\<rparr>]))
      | _ \<Rightarrow> ([TriggerNotObject i], []))"

definition parse_indexed :: "(nat \<Rightarrow> pyval \<Rightarrow> manifest_error list \<times> 'a list) \<Rightarrow> pyval list \<Rightarrow>
    manifest_error list \<times> 'a list" where
  "parse_indexed f vs =
     (let rs = map (\<lambda>(i, v). f i v) (enumerate 0 vs) in (concat (map fst rs), concat (map snd rs)))"

definition parse_triggers :: "pyval option \<Rightarrow> manifest_error list \<times> flow_trigger list" where
  "parse_triggers v =
     (case v of
        None \<Rightarrow> ([], [])
      | Some PNone \<Rightarrow> ([], [])
      | Some (PList vs) \<Rightarrow> parse_indexed parse_trigger vs
      | Some _ \<Rightarrow> ([TriggersNotList], []))"

definition parse_budgets :: "pyval option \<Rightarrow> manifest_error list \<times> flow_budgets" where
  "parse_budgets v =
     (case v of
        None \<Rightarrow> ([], DEFAULT_FLOW_BUDGETS)
      | Some PNone \<Rightarrow> ([], DEFAULT_FLOW_BUDGETS)
      | Some (PDict d) \<Rightarrow>
          (let cost = get_or d ''maxCostUsd'' (PFloat (max_cost_usd DEFAULT_FLOW_BUDGETS));
               wall = get_or d ''maxWallClockSec'' (PInt (max_wall_clock_sec DEFAULT_FLOW_BUDGETS));
               toks = get_or d ''maxTokens'' (PInt (max_tokens DEFAULT_FLOW_BUDGETS))
           in case num_of cost of
                None \<Rightarrow> ([BadMaxCost], DEFAULT_FLOW_BUDGETS)
              | Some c \<Rightarrow> if c \<le> 0 then ([BadMaxCost], DEFAULT_FLOW_BUDGETS) else
                (case int_of_val wall of
                   None \<Rightarrow> ([BadMaxWallClock], DEFAULT_FLOW_BUDGETS)
                 | Some s \<Rightarrow> if s < 1 then ([BadMaxWallClock], DEFAULT_FLOW_BUDGETS) else
                   (case int_of_val toks of
                      None \<Rightarrow> ([BadMaxTokens], DEFAULT_FLOW_BUDGETS)
                    | Some t \<Rightarrow> if t < 1 then ([BadMaxTokens], DEFAULT_FLOW_BUDGETS)
                               else ([], FlowBudgets c s t))))
      | Some _ \<Rightarrow> ([BudgetsNotObject], DEFAULT_FLOW_BUDGETS))"

subsection \<open>Nodes and edges\<close>

definition opt_present :: "pyval option \<Rightarrow> bool" where
  "opt_present v = (v \<noteq> None \<and> v \<noteq> Some PNone)"

definition parse_max_parallel :: "pyval option \<Rightarrow> string \<Rightarrow> manifest_error list \<times> int option" where
  "parse_max_parallel v nid =
     (if \<not> opt_present v then ([], None)
      else case int_of_val (the v) of
             None \<Rightarrow> ([BadMaxParallel nid], None)
           | Some k \<Rightarrow> if k < 1 then ([BadMaxParallel nid], None) else ([], Some k))"

definition ref_field :: "version_lib \<Rightarrow> pydict \<Rightarrow> string \<Rightarrow> string \<Rightarrow> manifest_error list \<times> flow_node_ref option" where
  "ref_field lib d nid ty =
     (if ty \<in> set REF_NODE_TYPES then parse_ref lib (dget d ''ref'') nid
      else if opt_present (dget d ''ref'') then ([RefNotAllowed nid ty], None) else ([], None))"

definition input_field :: "pydict \<Rightarrow> string \<Rightarrow> manifest_error list \<times> pydict" where
  "input_field d nid = (case get_or d ''input'' (PDict []) of PDict b \<Rightarrow> ([], b) | _ \<Rightarrow> ([InputNotObject nid], []))"

definition form_field :: "pydict \<Rightarrow> string \<Rightarrow> manifest_error list \<times> pydict option" where
  "form_field d nid =
     (case dget d ''form'' of
        None \<Rightarrow> ([], None)
      | Some PNone \<Rightarrow> ([], None)
      | Some (PDict f) \<Rightarrow> ([], Some f)
      | Some _ \<Rightarrow> ([FormNotObject nid], None))"

definition reduce_field :: "pydict \<Rightarrow> string \<Rightarrow> manifest_error list \<times> string" where
  "reduce_field d nid =
     (let rm = (if str_field (dget d ''reduce'') = [] then ''collect'' else str_field (dget d ''reduce''))
      in if rm \<in> set REDUCE_MODES then ([], rm) else ([BadReduce nid], ''collect''))"

definition node_errors :: "version_lib \<Rightarrow> pydict \<Rightarrow> string \<Rightarrow> string \<Rightarrow> manifest_error list" where
  "node_errors lib d nid ty =
     fst (ref_field lib d nid ty) @ fst (input_field d nid) @ fst (form_field d nid) @
     (if ty = ''human'' \<and> str_opt (dget d ''prompt'') = None then [PromptRequired nid] else []) @
     (if ty = ''map'' \<and> str_opt (dget d ''over'') = None then [OverRequired nid] else []) @
     (if ty \<noteq> ''map'' \<and> str_opt (dget d ''over'') \<noteq> None then [OverNotAllowed nid] else []) @
     fst (reduce_field d nid) @ fst (parse_max_parallel (dget d ''maxParallel'') nid) @
     fst (parse_timeout (dget d ''timeoutSec'') (''nodes.'' @ nid @ ''.timeoutSec''))"

definition node_of :: "version_lib \<Rightarrow> pydict \<Rightarrow> string \<Rightarrow> string \<Rightarrow> flow_retry_policy option \<Rightarrow> flow_node" where
  "node_of lib d nid ty ret =
     \<lparr>node_id = nid, node_type = ty, node_ref = snd (ref_field lib d nid ty), input_bindings = snd (input_field d nid),
      prompt = str_opt (dget d ''prompt''), form = snd (form_field d nid),
      timeout_sec = snd (parse_timeout (dget d ''timeoutSec'') (''nodes.'' @ nid @ ''.timeoutSec'')),
      on_timeout = str_opt (dget d ''onTimeout''), retries = ret, over = str_opt (dget d ''over''),
      reduce_mode = snd (reduce_field d nid), max_parallel = snd (parse_max_parallel (dget d ''maxParallel'') nid),
      node_raw = d\<rparr>"

definition parse_node_body :: "version_lib \<Rightarrow> pydict \<Rightarrow> string \<Rightarrow> string \<Rightarrow>
    (flow_exc, manifest_error list \<times> flow_node list) result" where
  "parse_node_body lib d nid ty =
     bind_r (parse_retries (dget d ''retries'') (''nodes.'' @ nid @ ''.retries'')) (\<lambda>r.
       Inr (node_errors lib d nid ty @ fst r, [node_of lib d nid ty (snd r)]))"

definition parse_node :: "version_lib \<Rightarrow> nat \<Rightarrow> pyval \<Rightarrow> (flow_exc, manifest_error list \<times> flow_node list) result" where
  "parse_node lib i item =
     (case item of
        PDict d \<Rightarrow>
          (let nid = str_field (dget d ''id''); ty = str_field (dget d ''type'') in
           if nid = [] \<or> \<not> NODE_ID_RE nid then Inr ([BadNodeId i], [])
           else if ty \<notin> set FLOW_NODE_TYPES then Inr ([BadNodeType nid], [])
           else parse_node_body lib d nid ty)
      | _ \<Rightarrow> Inr ([NodeNotObject i], []))"

fun parse_nodes_from :: "version_lib \<Rightarrow> nat \<Rightarrow> pyval list \<Rightarrow> (flow_exc, manifest_error list \<times> flow_node list) result" where
  "parse_nodes_from lib i [] = Inr ([], [])"
| "parse_nodes_from lib i (v # vs) =
     bind_r (parse_node lib i v) (\<lambda>(es, ns).
       bind_r (parse_nodes_from lib (Suc i) vs) (\<lambda>(es', ns'). Inr (es @ es', ns @ ns')))"

definition parse_edge :: "nat \<Rightarrow> pyval \<Rightarrow> manifest_error list \<times> flow_edge list" where
  "parse_edge i item =
     (case item of
        PDict d0 \<Rightarrow>
          (let d = normalize_on_key d0; src = str_field (dget d ''from''); tgt = str_field (dget d ''to'');
               wh = str_opt (dget d ''when''); on = str_opt (dget d ''on'') in
           if src = [] \<or> tgt = [] then ([EdgeEndpointsRequired i], [])
           else if wh \<noteq> None \<and> on \<noteq> None then ([EdgeWhenAndOn i], [])
           else ([], [\<lparr>source = src, target = tgt, edge_when = wh, edge_on = on\<rparr>]))
      | _ \<Rightarrow> ([EdgeNotObject i], []))"

definition parse_edges :: "pyval \<Rightarrow> manifest_error list \<times> flow_edge list" where
  "parse_edges v = (case v of PList vs \<Rightarrow> parse_indexed parse_edge vs | _ \<Rightarrow> ([EdgesNotList], []))"

subsection \<open>Validation\<close>

definition FLOW_SCHEMA_VERSION :: string where
  "FLOW_SCHEMA_VERSION = ''1''"

definition header_errors :: "version_lib \<Rightarrow> pydict \<Rightarrow> manifest_error list" where
  "header_errors lib raw =
     map RequiredKey (filter (\<lambda>k. dget raw k = None) [''schemaVersion'', ''id'', ''version'', ''hostApi'', ''nodes'', ''edges'']) @
     (let sv = str_field (dget raw ''schemaVersion''); fid = str_field (dget raw ''id'');
          ver = str_field (dget raw ''version''); api = str_field (dget raw ''hostApi'') in
      (if sv \<noteq> [] \<and> sv \<noteq> FLOW_SCHEMA_VERSION then [BadSchemaVersion] else []) @
      (if fid \<noteq> [] \<and> \<not> FLOW_ID_RE fid then [BadFlowId] else []) @
      (if ver \<noteq> [] \<and> \<not> is_semver ver then [BadVersion] else []) @
      (if api \<noteq> [] \<and> \<not> is_supported_range lib api then [BadHostApi] else []))"

definition parse_defaults :: "pyval option \<Rightarrow> (flow_exc, manifest_error list \<times> flow_defaults) result" where
  "parse_defaults v =
     (case v of
        None \<Rightarrow> Inr ([], DEFAULT_FLOW_DEFAULTS)
      | Some PNone \<Rightarrow> Inr ([], DEFAULT_FLOW_DEFAULTS)
      | Some (PDict d) \<Rightarrow>
          bind_r (parse_retries (dget d ''retries'') ''defaults.retries'') (\<lambda>(e_ret, ret).
            case parse_timeout (dget d ''timeoutSec'') ''defaults.timeoutSec'' of (e_tim, tim) \<Rightarrow>
              Inr (e_ret @ e_tim,
                \<lparr>default_retries = (case ret of None \<Rightarrow> DEFAULT_FLOW_RETRIES | Some r \<Rightarrow> r), default_timeout_sec = tim\<rparr>))
      | Some _ \<Rightarrow> Inr ([DefaultsNotObject], DEFAULT_FLOW_DEFAULTS))"

definition parse_node_list :: "version_lib \<Rightarrow> pyval option \<Rightarrow> (flow_exc, manifest_error list \<times> flow_node list) result" where
  "parse_node_list lib v =
     (case v of
        None \<Rightarrow> Inr ([], [])
      | Some PNone \<Rightarrow> Inr ([], [])
      | Some (PList vs) \<Rightarrow> parse_nodes_from lib 0 vs
      | Some _ \<Rightarrow> Inr ([NodesNotList], []))"

definition edges_field :: "pydict \<Rightarrow> manifest_error list \<times> flow_edge list" where
  "edges_field raw = (case dget raw ''edges'' of None \<Rightarrow> ([], []) | Some v \<Rightarrow> parse_edges v)"

definition manifest_of :: "pydict \<Rightarrow> flow_defaults \<Rightarrow> flow_node list \<Rightarrow> flow_manifest" where
  "manifest_of raw def ns =
     \<lparr>schema_version = str_field (dget raw ''schemaVersion''), flow_id = str_field (dget raw ''id''),
      version = str_field (dget raw ''version''), host_api = str_field (dget raw ''hostApi''),
      flow_name = str_opt (dget raw ''name''), description = str_opt (dget raw ''description''),
      triggers = snd (parse_triggers (dget raw ''triggers'')), flow_input = snd (parse_io (dget raw ''input'') ''input''),
      flow_output = snd (parse_io (dget raw ''output'') ''output''), defaults = def, nodes = ns,
      edges = snd (edges_field raw), budgets = snd (parse_budgets (dget raw ''budgets'')), manifest_raw = raw\<rparr>"

definition validate_flow_manifest :: "version_lib \<Rightarrow> pydict \<Rightarrow> (flow_exc, (manifest_error list, flow_manifest) result) result" where
  "validate_flow_manifest lib raw =
     bind_r (parse_defaults (dget raw ''defaults'')) (\<lambda>d.
     bind_r (parse_node_list lib (dget raw ''nodes'')) (\<lambda>ns.
       let field_errors = header_errors lib raw @ fst (parse_triggers (dget raw ''triggers'')) @
             fst (parse_io (dget raw ''input'') ''input'') @ fst (parse_io (dget raw ''output'') ''output'') @
             fst (parse_budgets (dget raw ''budgets'')) @ fst d @ fst ns @ fst (edges_field raw);
           m = manifest_of raw (snd d) (snd ns);
           errors = (if field_errors = []
                     then map InvalidGraph (validate_graph (nodes m) (edges m) (map_option io_schema (flow_input m)))
                     else field_errors)
       in if errors \<noteq> [] then Inr (Inl errors) else Inr (Inr m)))"

text \<open>
  \<open>load_flow_manifest\<close>, after \<open>yaml.safe_load\<close> read the document: \<open>None\<close> is the
  \<open>ValueError\<close>.
\<close>

definition load_flow_manifest :: "version_lib \<Rightarrow> pyval \<Rightarrow> (flow_exc, flow_manifest option) result" where
  "load_flow_manifest lib doc =
     (case doc of
        PDict raw \<Rightarrow> bind_r (validate_flow_manifest lib raw) (\<lambda>r. Inr (case r of Inl _ \<Rightarrow> None | Inr m \<Rightarrow> Some m))
      | _ \<Rightarrow> Inr None)"

subsection \<open>Run inputs\<close>

text \<open>\<open>value in dict\<close>: an unhashable value raises \<open>TypeError\<close>.\<close>

definition val_in_dict :: "pyval \<Rightarrow> pydict \<Rightarrow> (flow_exc, bool) result" where
  "val_in_dict v d =
     (if \<not> hashable v then Inl Unhashable
      else Inr (case v of
                  PStr s \<Rightarrow> dget d s \<noteq> None
                | PNone \<Rightarrow> dlookup KNone d \<noteq> None
                | PBool b \<Rightarrow> dlookup (KBool b) d \<noteq> None
                | PInt i \<Rightarrow> dlookup (KInt i) d \<noteq> None
                | PFloat q \<Rightarrow> of_int \<lfloor>q\<rfloor> = q \<and> dlookup (KInt \<lfloor>q\<rfloor>) d \<noteq> None
                | _ \<Rightarrow> False))"

fun missing_keys :: "pyval list \<Rightarrow> pydict \<Rightarrow> (flow_exc, pyval list) result" where
  "missing_keys [] d = Inr []"
| "missing_keys (v # vs) d =
     bind_r (val_in_dict v d) (\<lambda>b. bind_r (missing_keys vs d) (\<lambda>ms. Inr (if b then ms else v # ms)))"

text \<open>The missing and the unknown fields of a payload, by the light JSON-Schema check.\<close>

definition schema_errors :: "pydict \<Rightarrow> pydict \<Rightarrow> (flow_exc, pyval list \<times> pykey list) result" where
  "schema_errors schema payload =
     bind_r (case dget schema ''required'' of Some (PList vs) \<Rightarrow> missing_keys vs payload | _ \<Rightarrow> Inr []) (\<lambda>missing.
       Inr (missing,
         case dget schema ''properties'' of
           Some (PDict ps) \<Rightarrow>
             if dget schema ''additionalProperties'' = Some (PBool False)
             then filter (\<lambda>k. dlookup k ps = None) (map fst payload) else []
         | _ \<Rightarrow> []))"

definition validate_run_input :: "flow_manifest \<Rightarrow> pydict \<Rightarrow> (flow_exc, pyval list \<times> pykey list) result" where
  "validate_run_input m inp =
     (case flow_input m of None \<Rightarrow> Inr ([], []) | Some io \<Rightarrow> schema_errors (io_schema io) inp)"

subsection \<open>What validation guarantees\<close>

definition retry_policy_ok :: "flow_retry_policy \<Rightarrow> bool" where
  "retry_policy_ok p \<longleftrightarrow> 1 \<le> max_attempts p \<and> backoff p \<in> set BACKOFF_MODES \<and> 0 \<le> initial_delay_sec p"

definition node_ok :: "flow_node \<Rightarrow> bool" where
  "node_ok n \<longleftrightarrow> NODE_ID_RE (node_id n) \<and> node_id n \<noteq> [] \<and> node_type n \<in> set FLOW_NODE_TYPES \<and>
     (node_type n \<in> set REF_NODE_TYPES \<longleftrightarrow> node_ref n \<noteq> None) \<and>
     (\<forall>r. node_ref n = Some r \<longrightarrow> FLOW_ID_RE (ref_id r)) \<and>
     (node_type n = ''human'' \<longrightarrow> prompt n \<noteq> None) \<and> (node_type n = ''map'' \<longleftrightarrow> over n \<noteq> None) \<and>
     reduce_mode n = ''collect'' \<and>
     (\<forall>k. max_parallel n = Some k \<longrightarrow> 1 \<le> k) \<and> (\<forall>t. timeout_sec n = Some t \<longrightarrow> 1 \<le> t) \<and>
     (\<forall>p. retries n = Some p \<longrightarrow> retry_policy_ok p)"

definition edge_ok :: "flow_edge \<Rightarrow> bool" where
  "edge_ok e \<longleftrightarrow> source e \<noteq> [] \<and> target e \<noteq> [] \<and> (edge_when e = None \<or> edge_on e = None)"

definition budgets_ok :: "flow_budgets \<Rightarrow> bool" where
  "budgets_ok b \<longleftrightarrow> 0 < max_cost_usd b \<and> 1 \<le> max_wall_clock_sec b \<and> 1 \<le> max_tokens b"

definition trigger_ok :: "flow_trigger \<Rightarrow> bool" where
  "trigger_ok t \<longleftrightarrow> trigger_type t \<in> set TRIGGER_TYPES \<and>
     (trigger_type t = ''event'' \<longrightarrow> trigger_on t \<noteq> None) \<and>
     (trigger_type t = ''cron'' \<longrightarrow> trigger_schedule t \<noteq> None)"

definition manifest_ok :: "flow_manifest \<Rightarrow> bool" where
  "manifest_ok m \<longleftrightarrow> validate_graph (nodes m) (edges m) (map_option io_schema (flow_input m)) = [] \<and>
     (\<forall>n\<in>set (nodes m). node_ok n) \<and> (\<forall>e\<in>set (edges m). edge_ok e) \<and> budgets_ok (budgets m) \<and>
     retry_policy_ok (default_retries (defaults m)) \<and> (\<forall>t\<in>set (triggers m). trigger_ok t)"

lemma parse_retries_ok: "parse_retries v ctx = Inr (es, Some p) \<Longrightarrow> retry_policy_ok p"
  by (auto simp: parse_retries_def retry_policy_ok_def Let_def split: option.splits pyval.splits if_splits)

lemma parse_timeout_ok: "parse_timeout v ctx = (es, Some t) \<Longrightarrow> 1 \<le> t"
  by (auto simp: parse_timeout_def split: option.splits pyval.splits if_splits)

lemma parse_budgets_ok: "budgets_ok (snd (parse_budgets v))"
  by (auto simp: parse_budgets_def budgets_ok_def DEFAULT_FLOW_BUDGETS_def Let_def
      split: option.splits pyval.splits if_splits)

lemma parse_trigger_ok: "t \<in> set (snd (parse_trigger i item)) \<Longrightarrow> trigger_ok t"
  by (auto simp: parse_trigger_def trigger_ok_def Let_def split: pyval.splits if_splits)

lemma parse_edge_ok: "e \<in> set (snd (parse_edge i item)) \<Longrightarrow> edge_ok e"
  by (auto simp: parse_edge_def edge_ok_def Let_def split: pyval.splits if_splits)

lemma parse_indexed_mem:
  assumes "x \<in> set (snd (parse_indexed f vs))" and "\<And>i v. x \<in> set (snd (f i v)) \<Longrightarrow> P x"
  shows "P x"
  using assms by (auto simp: parse_indexed_def Let_def)

lemma parse_triggers_ok: "t \<in> set (snd (parse_triggers v)) \<Longrightarrow> trigger_ok t"
  by (auto simp: parse_triggers_def split: option.splits pyval.splits dest: parse_trigger_ok elim!: parse_indexed_mem)

lemma parse_edges_ok: "e \<in> set (snd (parse_edges v)) \<Longrightarrow> edge_ok e"
  by (auto simp: parse_edges_def split: option.splits pyval.splits dest: parse_edge_ok elim!: parse_indexed_mem)

lemma parse_ref_ok:
  "parse_ref lib v nid = ([], r) \<Longrightarrow> \<exists>x. r = Some x \<and> FLOW_ID_RE (ref_id x)"
  by (auto simp: parse_ref_def Let_def split: if_splits prod.splits)

lemma parse_max_parallel_ok: "parse_max_parallel v nid = (es, Some k) \<Longrightarrow> 1 \<le> k"
  by (auto simp: parse_max_parallel_def split: if_splits option.splits)

lemma parse_defaults_ok: "parse_defaults v = Inr (es, def) \<Longrightarrow> retry_policy_ok (default_retries def)"
  by (auto simp: parse_defaults_def bind_r_eq_Inr DEFAULT_FLOW_DEFAULTS_def DEFAULT_FLOW_RETRIES_def retry_policy_ok_def
      BACKOFF_MODES_def split: option.splits pyval.splits prod.splits dest!: parse_retries_ok)

lemma ref_types_sub: "ty \<in> set REF_NODE_TYPES \<Longrightarrow> ty \<noteq> ''human''"
  by (auto simp: REF_NODE_TYPES_def)

lemma ref_field_ok:
  assumes "fst (ref_field lib d nid ty) = []"
  shows "ty \<in> set REF_NODE_TYPES \<longleftrightarrow> snd (ref_field lib d nid ty) \<noteq> None"
    and "snd (ref_field lib d nid ty) = Some r \<Longrightarrow> FLOW_ID_RE (ref_id r)"
  using assms parse_ref_ok [of lib "dget d ''ref''" nid "snd (parse_ref lib (dget d ''ref'') nid)"]
  by (auto simp: ref_field_def prod_eq_iff split: if_splits)

lemma reduce_field_collect: "snd (reduce_field d nid) = ''collect''"
  by (simp add: reduce_field_def REDUCE_MODES_def Let_def)

lemma parse_node_body_ok:
  assumes "parse_node_body lib d nid ty = Inr ([], ns)" and "n \<in> set ns"
    and "NODE_ID_RE nid" and "nid \<noteq> []" and "ty \<in> set FLOW_NODE_TYPES"
  shows "node_ok n"
proof -
  from assms(1,2) obtain ret where ret: "parse_retries (dget d ''retries'') (''nodes.'' @ nid @ ''.retries'') = Inr ([], ret)"
    and err: "node_errors lib d nid ty = []" and n: "n = node_of lib d nid ty ret"
    by (auto simp: parse_node_body_def bind_r_eq_Inr)
  have "1 \<le> k" if "snd (parse_max_parallel (dget d ''maxParallel'') nid) = Some k" for k
    using that parse_max_parallel_ok by (metis prod.collapse)
  moreover have "1 \<le> t" if "snd (parse_timeout (dget d ''timeoutSec'') (''nodes.'' @ nid @ ''.timeoutSec'')) = Some t" for t
    using that parse_timeout_ok by (metis prod.collapse)
  ultimately show ?thesis
    using assms(3-5) ret err n ref_field_ok [of lib d nid ty]
    by (auto simp: node_ok_def node_of_def node_errors_def reduce_field_collect dest: parse_retries_ok split: if_splits)
qed

lemma parse_node_ok: "parse_node lib i item = Inr ([], ns) \<Longrightarrow> n \<in> set ns \<Longrightarrow> node_ok n"
  by (auto simp: parse_node_def Let_def split: pyval.splits if_splits dest: parse_node_body_ok)

lemma parse_nodes_from_ok: "parse_nodes_from lib i vs = Inr ([], ns) \<Longrightarrow> n \<in> set ns \<Longrightarrow> node_ok n"
  by (induction lib i vs arbitrary: ns rule: parse_nodes_from.induct)
    (auto simp: bind_r_eq_Inr dest: parse_node_ok)

lemma parse_node_list_ok: "parse_node_list lib v = Inr ([], ns) \<Longrightarrow> n \<in> set ns \<Longrightarrow> node_ok n"
  by (auto simp: parse_node_list_def split: option.splits pyval.splits dest: parse_nodes_from_ok)

lemma validate_flow_manifest_InrD:
  "validate_flow_manifest lib raw = Inr (Inr m) \<Longrightarrow>
     (\<exists>def. parse_defaults (dget raw ''defaults'') = Inr ([], def) \<and>
        parse_node_list lib (dget raw ''nodes'') = Inr ([], nodes m) \<and> m = manifest_of raw def (nodes m) \<and>
        header_errors lib raw = [] \<and> fst (parse_triggers (dget raw ''triggers'')) = [] \<and>
        fst (parse_io (dget raw ''input'') ''input'') = [] \<and> fst (parse_io (dget raw ''output'') ''output'') = [] \<and>
        fst (parse_budgets (dget raw ''budgets'')) = [] \<and> fst (edges_field raw) = [] \<and>
        validate_graph (nodes m) (edges m) (map_option io_schema (flow_input m)) = [])"
proof -
  have n: "nodes (manifest_of raw def ns) = ns" for def ns by (simp add: manifest_of_def)
  show "validate_flow_manifest lib raw = Inr (Inr m) \<Longrightarrow> ?thesis"
    unfolding validate_flow_manifest_def Let_def
    by (auto simp: bind_r_eq_Inr n split: if_splits)
qed

lemma edges_field_ok: "e \<in> set (snd (edges_field raw)) \<Longrightarrow> edge_ok e"
  by (auto simp: edges_field_def split: option.splits dest: parse_edges_ok)

lemma validated_manifest_ok:
  assumes "validate_flow_manifest lib raw = Inr (Inr m)"
  shows "manifest_ok m"
proof -
  from assms obtain def where m: "m = manifest_of raw def (nodes m)"
    and def: "parse_defaults (dget raw ''defaults'') = Inr ([], def)"
    and ns: "parse_node_list lib (dget raw ''nodes'') = Inr ([], nodes m)"
    and g: "validate_graph (nodes m) (edges m) (map_option io_schema (flow_input m)) = []"
    by (blast dest: validate_flow_manifest_InrD)
  have "edges m = snd (edges_field raw)" "budgets m = snd (parse_budgets (dget raw ''budgets''))" "defaults m = def"
    "triggers m = snd (parse_triggers (dget raw ''triggers''))"
    by (subst m, simp add: manifest_of_def)+
  with g ns def show ?thesis
    unfolding manifest_ok_def
    by (auto simp: parse_budgets_ok intro: parse_node_list_ok edges_field_ok parse_defaults_ok parse_triggers_ok)
qed

text \<open>A backoff mode that cannot be hashed escapes validation as an exception.\<close>

lemma unhashable_backoff_raises:
  "parse_retries (Some (PDict [(KStr ''backoff'', PList [])])) ctx = Inl Unhashable"
  by (simp add: parse_retries_def get_or_def DEFAULT_FLOW_RETRIES_def)

end
