(* ===== verification/Flow_Store_Laws.thy ===== *)
theory Flow_Store_Laws
  imports Flow_Store
begin

text \<open>
  The laws of the durable store: its well-formedness invariant and that every write keeps it, the
  steps and the events as sequenced logs (\<open>Sequenced_Log\<close>), and the abstract store, a map from run ids to the run's
  row, its steps and its events, which the tables refine.
\<close>

subsection \<open>The writes, as equations of the world\<close>

definition tick :: "world \<Rightarrow> world" where
  "tick w = w\<lparr>wall_reads := Suc (wall_reads w)\<rparr>"

definition draw :: "world \<Rightarrow> world" where
  "draw w = w\<lparr>uuid_supply := Suc (uuid_supply w)\<rparr>"

lemma tick_simps [simp]:
  "tbl_runs (tick w) = tbl_runs w" "tbl_steps (tick w) = tbl_steps w" "tbl_events (tick w) = tbl_events w"
  "uuid_supply (tick w) = uuid_supply w" "clock_src (tick w) = clock_src w" "clock_reads (tick w) = clock_reads w"
  by (simp_all add: tick_def)

lemma draw_simps [simp]:
  "tbl_runs (draw w) = tbl_runs w" "tbl_steps (draw w) = tbl_steps w" "tbl_events (draw w) = tbl_events w"
  "uuid_supply (draw w) = Suc (uuid_supply w)" "clock_src (draw w) = clock_src w"
  "clock_reads (draw w) = clock_reads w"
  by (simp_all add: draw_def)

lemma wp_utcnow [simp]: "wp utcnow Q E w = Q (wall_src w (wall_reads w)) (tick w)"
  by (simp add: utcnow_def tick_def)

lemma wp_uuid4 [simp]: "wp uuid4 Q E w = Q (str_nat (uuid_supply w)) (draw w)"
  by (simp add: uuid4_def draw_def)

lemma wp_dumps [simp]: "wp (dumps r) Q E w = (case r of None \<Rightarrow> E NotSerializable w | Some x \<Rightarrow> Q x w)"
  by (simp add: dumps_def split: option.splits)

lemma wp_emit_event [simp]:
  "wp (emit_event n t r s) Q E w =
     Q () (w\<lparr>bus := bus w @ [\<lparr>bus_name = n, bus_tenant = t, bus_run = r, bus_step = s\<rparr>]\<rparr>)"
  by (simp add: emit_event_def)

interpretation step_log: sequenced_log tbl_steps step_run_id step_sequence list_steps
  "\<lambda>rid (nid, nty, att, inp). create_step rid nid nty att inp"
proof
  show "list_steps rid w = in_order step_run_id step_sequence rid (tbl_steps w)" for rid w
    by (rule list_steps_def)
  show "wp (case a of (nid, nty, att, inp) \<Rightarrow> create_step rid nid nty att inp)
      (\<lambda>_ w'. \<exists>r. tbl_steps w' = tbl_steps w @ [r] \<and> step_run_id r = rid \<and>
         step_sequence r = next_sequence step_run_id step_sequence rid (tbl_steps w))
      (\<lambda>_ w'. tbl_steps w' = tbl_steps w) w" for rid a w
    by (cases a) (simp add: create_step_def Let_def split: option.splits)
qed

interpretation event_log: sequenced_log tbl_events event_run_id event_sequence list_events append_event
proof
  show "list_events rid w = in_order event_run_id event_sequence rid (tbl_events w)" for rid w
    by (rule list_events_def)
  show "wp (append_event rid a)
      (\<lambda>_ w'. \<exists>r. tbl_events w' = tbl_events w @ [r] \<and> event_run_id r = rid \<and>
         event_sequence r = next_sequence event_run_id event_sequence rid (tbl_events w))
      (\<lambda>_ w'. tbl_events w' = tbl_events w) w" for rid a w
    by (simp add: append_event_def Let_def)
qed

subsection \<open>The invariant of the store\<close>

definition run_row_ok :: "flow_run_record \<Rightarrow> bool" where
  "run_row_ok r \<longleftrightarrow> run_status r \<in> set RUN_STATUSES \<and> is_json (PDict (run_trigger r)) \<and>
     is_json (PDict (run_input r)) \<and> json_state (run_state r) = Some (run_state r) \<and>
     (\<forall>d. run_output r = Some d \<longrightarrow> is_json (PDict d))"

definition step_row_ok :: "flow_step_record \<Rightarrow> bool" where
  "step_row_ok s \<longleftrightarrow> step_status s \<in> set STEP_STATUSES \<and> is_json (PDict (step_input s)) \<and>
     (\<forall>d. step_output s = Some d \<longrightarrow> is_json (PDict d))"

definition store_inv :: "world \<Rightarrow> bool" where
  "store_inv w \<longleftrightarrow>
     distinct (map run_id (tbl_runs w)) \<and> distinct (map step_id (tbl_steps w)) \<and>
     distinct (map event_id (tbl_events w)) \<and>
     contiguous step_run_id step_sequence (tbl_steps w) \<and>
     contiguous event_run_id event_sequence (tbl_events w) \<and>
     (\<forall>r\<in>set (tbl_runs w). run_row_ok r) \<and> (\<forall>s\<in>set (tbl_steps w). step_row_ok s)"

text \<open>Every identifier was drawn from the supply, so the next one is new.\<close>

definition ids_of :: "world \<Rightarrow> string set" where
  "ids_of w = run_id ` set (tbl_runs w) \<union> step_id ` set (tbl_steps w) \<union> event_id ` set (tbl_events w) \<union>
     step_run_id ` set (tbl_steps w) \<union> event_run_id ` set (tbl_events w)"

definition ids_fresh :: "world \<Rightarrow> bool" where
  "ids_fresh w \<longleftrightarrow> ids_of w \<subseteq> str_nat ` {..<uuid_supply w}"

subsection \<open>JSON columns\<close>

lemma json_doc_sound: "json_doc d = Some e \<Longrightarrow> is_json (PDict e)"
  unfolding json_doc_def by (rule json_sound(3) [where acc = "[]"]) simp_all

lemma json_doc_id: "is_json (PDict d) \<Longrightarrow> json_doc d = Some d"
  unfolding json_doc_def using json_id(3) [of d "[]"] by simp

lemma json_opt_idem:
  "(\<And>x y. f x = Some y \<Longrightarrow> f y = Some y) \<Longrightarrow> json_opt f x = Some y \<Longrightarrow> json_opt f y = Some y"
  by (auto simp: json_opt_def split: option.splits)

lemma json_doc_idem: "json_doc d = Some e \<Longrightarrow> json_doc e = Some e"
  by (blast intro: json_doc_id json_doc_sound)

lemma json_pause_idem: "json_pause p = Some q \<Longrightarrow> json_pause q = Some q"
  by (auto simp: json_pause_def dest: json_idem)

lemma json_state_idem:
  assumes "json_state st = Some st'"
  shows "json_state st' = Some st'"
proof -
  from assms obtain ns p where *: "json_opt json_doc (st_nodes st) = Some ns"
    "json_opt json_pause (st_pause st) = Some p" "st' = st\<lparr>st_nodes := ns, st_pause := p\<rparr>"
    by (auto simp: json_state_def split: option.splits)
  have "json_opt json_doc ns = Some ns" using *(1) by (rule json_opt_idem [rotated]) (rule json_doc_idem)
  moreover have "json_opt json_pause p = Some p" using *(2) by (rule json_opt_idem [rotated]) (rule json_pause_idem)
  ultimately show ?thesis using *(3) by (simp add: json_state_def)
qed

lemma json_state_id:
  "(\<And>d. st_nodes st = Some d \<Longrightarrow> is_json (PDict d)) \<Longrightarrow> (\<And>p. st_pause st = Some p \<Longrightarrow> is_json (pause_expires p)) \<Longrightarrow>
   json_state st = Some st"
  by (auto simp: json_state_def json_opt_def json_doc_id json_pause_def json_id(1) split: option.splits)

lemma json_state_nodes:
  assumes "json_state st = Some st'" and "st_nodes st' = Some d"
  shows "is_json (PDict d)"
proof -
  from assms obtain x where "st_nodes st = Some x" "json_doc x = Some d"
    by (auto simp: json_state_def json_opt_def split: option.splits)
  then show ?thesis using json_doc_sound by simp
qed

subsection \<open>Every write keeps the invariant\<close>

lemma store_inv_cong:
  "tbl_runs w = tbl_runs w' \<Longrightarrow> tbl_steps w = tbl_steps w' \<Longrightarrow> tbl_events w = tbl_events w' \<Longrightarrow>
   store_inv w = store_inv w'"
  by (simp add: store_inv_def)

lemma store_inv_tick [simp]: "store_inv (tick w) = store_inv w"
  by (rule store_inv_cong) simp_all

lemma store_inv_draw [simp]: "store_inv (draw w) = store_inv w"
  by (rule store_inv_cong) simp_all

lemma store_inv_add_run:
  "store_inv w \<Longrightarrow> rows = tbl_runs w \<Longrightarrow> run_id r \<notin> run_id ` set (tbl_runs w) \<Longrightarrow> run_row_ok r \<Longrightarrow> store_inv (w\<lparr>tbl_runs := rows @ [r]\<rparr>)"
  by (auto simp: store_inv_def)

lemma store_inv_set_run:
  assumes "store_inv w" and "\<And>r. run_id (f r) = run_id r" and "\<And>r. run_row_ok r \<Longrightarrow> run_row_ok (f r)"
  shows "store_inv (set_run rid f w)"
proof -
  have "run_id \<circ> (\<lambda>r. if run_id r = rid then f r else r) = run_id"
    using assms(2) by auto
  then show ?thesis using assms by (auto simp: store_inv_def set_run_def)
qed

lemma store_inv_add_step:
  "store_inv w \<Longrightarrow> rows = tbl_steps w \<Longrightarrow> step_id s \<notin> step_id ` set (tbl_steps w) \<Longrightarrow> step_row_ok s \<Longrightarrow>
   step_sequence s = next_sequence step_run_id step_sequence (step_run_id s) (tbl_steps w) \<Longrightarrow>
   store_inv (w\<lparr>tbl_steps := rows @ [s]\<rparr>)"
  by (auto simp: store_inv_def intro: contiguous_snoc)

lemma store_inv_set_step:
  assumes "store_inv w" and "\<And>s. step_id (f s) = step_id s" and "\<And>s. step_run_id (f s) = step_run_id s"
    and "\<And>s. step_sequence (f s) = step_sequence s" and "\<And>s. step_row_ok s \<Longrightarrow> step_row_ok (f s)"
  shows "store_inv (set_step sid f w)"
proof -
  have "step_id \<circ> (\<lambda>s. if step_id s = sid then f s else s) = step_id"
    using assms(2) by auto
  moreover have "contiguous step_run_id step_sequence (map (\<lambda>s. if step_id s = sid then f s else s) (tbl_steps w)) =
      contiguous step_run_id step_sequence (tbl_steps w)"
    by (rule contiguous_map) (simp_all add: assms)
  ultimately show ?thesis using assms by (auto simp: store_inv_def set_step_def)
qed

lemma store_inv_add_event:
  "store_inv w \<Longrightarrow> rows = tbl_events w \<Longrightarrow> event_id e \<notin> event_id ` set (tbl_events w) \<Longrightarrow>
   event_sequence e = next_sequence event_run_id event_sequence (event_run_id e) (tbl_events w) \<Longrightarrow>
   store_inv (w\<lparr>tbl_events := rows @ [e]\<rparr>)"
  by (auto simp: store_inv_def intro: contiguous_snoc)

lemma create_run_inv [preserves_intros]: "preserves store_inv (create_run fid ver tenant trig inp st parent rid)"
proof (rule preservesI)
  fix w
  assume inv: "store_inv w"
  have ok: "run_row_ok \<lparr>run_id = i, run_flow_id = fid, run_flow_version = ver, run_tenant_id = tenant,
      run_status = ''pending'', stop_reason = [], run_trigger = t, run_input = j, run_state = s,
      run_output = None, parent_run_id = parent, created_at = c, updated_at = u\<rparr>"
    if "json_doc trig = Some t" "json_doc inp = Some j" "json_state st = Some s" for i t j s c u
    using that json_doc_sound json_state_idem by (auto simp: run_row_ok_def RUN_STATUSES_def simp del: is_json.simps)
  show "wp (create_run fid ver tenant trig inp st parent rid) (\<lambda>_. store_inv) (\<lambda>_. store_inv) w"
    using inv
    by (auto simp: create_run_def insert_run_def Let_def split: option.splits if_splits
        intro!: store_inv_add_run ok [simplified])
qed

lemma assign_simps [simp]: "assign None f r = r" "assign (Some x) f r = f x r"
  by (simp_all add: assign_def)

lemma patch_run_simps [simp]:
  "run_id (patch_run t st reason s p r) = run_id r"
  "run_flow_id (patch_run t st reason s p r) = run_flow_id r"
  "run_flow_version (patch_run t st reason s p r) = run_flow_version r"
  "run_tenant_id (patch_run t st reason s p r) = run_tenant_id r"
  "run_input (patch_run t st reason s p r) = run_input r"
  "run_trigger (patch_run t st reason s p r) = run_trigger r"
  "parent_run_id (patch_run t st reason s p r) = parent_run_id r"
  "created_at (patch_run t st reason s p r) = created_at r"
  "run_status (patch_run t st reason s p r) = (case st of None \<Rightarrow> run_status r | Some x \<Rightarrow> x)"
  "stop_reason (patch_run t st reason s p r) = (case reason of None \<Rightarrow> stop_reason r | Some x \<Rightarrow> x)"
  "run_state (patch_run t st reason s p r) = (case s of None \<Rightarrow> run_state r | Some x \<Rightarrow> x)"
  "run_output (patch_run t st reason s p r) = (case p of None \<Rightarrow> run_output r | Some x \<Rightarrow> Some x)"
  by (simp_all add: patch_run_def assign_def split: option.splits)

lemma patch_run_ok:
  assumes "run_row_ok r" and "json_opt json_state state = Some s" and "json_opt json_doc out = Some p"
    and "case st of None \<Rightarrow> True | Some x \<Rightarrow> x \<in> set RUN_STATUSES"
  shows "run_row_ok (patch_run t st reason s p r)"
  using assms json_doc_sound json_state_idem
  by (auto simp: run_row_ok_def json_opt_def simp del: is_json.simps split: option.splits)

lemma wp_update_run:
  "wp (update_run rid st reason state out) Q E w =
     (if (case st of None \<Rightarrow> False | Some s \<Rightarrow> s \<notin> set RUN_STATUSES) then E (UnknownStatus (the st)) w
      else case json_opt json_state state of None \<Rightarrow> E NotSerializable (tick w)
      | Some s \<Rightarrow> (case json_opt json_doc out of None \<Rightarrow> E NotSerializable (tick w)
      | Some p \<Rightarrow> Q () (set_run rid (patch_run (wall_src w (wall_reads w)) st reason s p) (tick w))))"
  by (simp add: update_run_def split: option.splits)

lemma update_run_inv [preserves_intros]: "preserves store_inv (update_run rid st reason state out)"
  by (rule preservesI)
    (auto simp: wp_update_run split: option.splits if_splits intro!: store_inv_set_run patch_run_ok)

lemma create_step_inv [preserves_intros]: "preserves store_inv (create_step rid nid nty att inp)"
  by (rule preservesI)
    (auto simp: create_step_def Let_def step_row_ok_def STEP_STATUSES_def simp del: is_json.simps
      split: option.splits if_splits intro!: store_inv_add_step json_doc_sound)

lemma complete_step_inv [preserves_intros]: "preserves store_inv (complete_step sid st out err)"
  by (rule preservesI)
    (auto simp: complete_step_def step_row_ok_def json_opt_def simp del: is_json.simps
      split: option.splits if_splits intro!: store_inv_set_step json_doc_sound)

lemma append_event_inv [preserves_intros]: "preserves store_inv (append_event rid p)"
  by (rule preservesI) (auto simp: append_event_def Let_def intro!: store_inv_add_event)

lemma emit_event_inv [preserves_intros]: "preserves store_inv (emit_event n t r s)"
  by (rule preservesI) (simp add: store_inv_def)

subsection \<open>Fresh identifiers\<close>

lemma ids_fresh_new: "ids_fresh w \<Longrightarrow> str_nat (uuid_supply w) \<notin> ids_of w"
  unfolding ids_fresh_def by auto

lemma ids_freshD:
  assumes "ids_fresh w"
  shows "str_nat (uuid_supply w) \<notin> run_id ` set (tbl_runs w)"
    and "str_nat (uuid_supply w) \<notin> step_id ` set (tbl_steps w)"
    and "str_nat (uuid_supply w) \<notin> event_id ` set (tbl_events w)"
    and "str_nat (uuid_supply w) \<notin> step_run_id ` set (tbl_steps w)"
    and "str_nat (uuid_supply w) \<notin> event_run_id ` set (tbl_events w)"
  using ids_fresh_new [OF assms] unfolding ids_of_def by blast+

lemma ids_of_tick [simp]: "ids_of (tick w) = ids_of w"
  by (simp add: ids_of_def)

lemma ids_fresh_tick [simp]: "ids_fresh (tick w) = ids_fresh w"
  by (simp add: ids_fresh_def)

lemma ids_fresh_draw:
  assumes "ids_fresh w" and "ids_of w' \<subseteq> insert (str_nat (uuid_supply w)) (ids_of w)"
    and "uuid_supply w' = Suc (uuid_supply w)"
  shows "ids_fresh w'"
proof -
  have eq: "str_nat ` {..<uuid_supply w'} = insert (str_nat (uuid_supply w)) (str_nat ` {..<uuid_supply w})"
    unfolding assms(3) lessThan_Suc by (rule image_insert)
  have "insert (str_nat (uuid_supply w)) (ids_of w) \<subseteq> insert (str_nat (uuid_supply w)) (str_nat ` {..<uuid_supply w})"
    by (rule insert_mono) (rule assms(1) [unfolded ids_fresh_def])
  with assms(2) show ?thesis unfolding ids_fresh_def eq by (rule subset_trans)
qed

lemma ids_fresh_same: "ids_fresh w \<Longrightarrow> ids_of w' = ids_of w \<Longrightarrow> uuid_supply w' = uuid_supply w \<Longrightarrow> ids_fresh w'"
  by (simp add: ids_fresh_def)

lemma image_if_same: "(\<And>x. g (f x) = g x) \<Longrightarrow> g ` set (map (\<lambda>x. if P x then f x else x) xs) = g ` set xs"
  by (induction xs) auto

lemma ids_fresh_set_run: "ids_fresh w \<Longrightarrow> (\<And>r. run_id (f r) = run_id r) \<Longrightarrow> ids_fresh (set_run rid f w)"
  by (rule ids_fresh_same) (simp_all add: ids_of_def set_run_def image_if_same del: set_map list.set_map)

lemma ids_fresh_set_step:
  "ids_fresh w \<Longrightarrow> (\<And>s. step_id (f s) = step_id s) \<Longrightarrow> (\<And>s. step_run_id (f s) = step_run_id s) \<Longrightarrow>
   ids_fresh (set_step sid f w)"
  by (rule ids_fresh_same) (simp_all add: ids_of_def set_step_def image_if_same del: set_map list.set_map)

lemma ids_of_run: "get_run rid None w = Some r \<Longrightarrow> rid \<in> ids_of w"
  unfolding ids_of_def get_run_def by (auto dest!: find_SomeD)

subsection \<open>The abstract store\<close>

record run_view =
  v_row :: "flow_run_record option"
  v_steps :: "flow_step_record list"
  v_events :: "flow_event_record list"

definition view :: "string \<Rightarrow> world \<Rightarrow> run_view" where
  "view rid w = \<lparr>v_row = get_run rid None w, v_steps = list_steps rid w, v_events = list_events rid w\<rparr>"

lemma view_cong:
  "tbl_runs w' = tbl_runs w \<Longrightarrow> tbl_steps w' = tbl_steps w \<Longrightarrow> tbl_events w' = tbl_events w \<Longrightarrow> view rid w' = view rid w"
  by (simp add: view_def get_run_def list_steps_def list_events_def)

lemma get_run_tenant:
  "store_inv w \<Longrightarrow> get_run rid (Some t) w =
     (case get_run rid None w of None \<Rightarrow> None | Some r \<Rightarrow> if run_tenant_id r = t then Some r else None)"
proof -
  assume "store_inv w"
  then have d: "distinct (map run_id (tbl_runs w))" by (simp add: store_inv_def)
  have "List.find (\<lambda>r. run_id r = rid \<and> run_tenant_id r = t) rows =
      (case List.find (\<lambda>r. run_id r = rid) rows of None \<Rightarrow> None | Some r \<Rightarrow> if run_tenant_id r = t then Some r else None)"
    if "distinct (map run_id rows)" for rows
    using that
  proof (induction rows)
    case (Cons a rows)
    show ?case
    proof (cases "run_id a = rid")
      case True
      then have "List.find (\<lambda>r. run_id r = rid \<and> run_tenant_id r = t) rows = None"
        unfolding find_None_iff_all using Cons.prems by (metis distinct.simps(2) list.set_map list.simps(9) rev_image_eqI)
      with True show ?thesis by simp
    qed (use Cons in simp)
  qed simp
  with d show ?thesis by (simp add: get_run_def)
qed

lemma get_run_set_run:
  assumes "\<And>r. run_id (f r) = run_id r"
  shows "get_run r0 None (set_run rid f w) = (if r0 = rid then map_option f (get_run r0 None w) else get_run r0 None w)"
proof -
  have "List.find (\<lambda>r. run_id r = r0) (map (\<lambda>r. if run_id r = rid then f r else r) rows) =
     (if r0 = rid then map_option f (List.find (\<lambda>r. run_id r = r0) rows) else List.find (\<lambda>r. run_id r = r0) rows)" for rows
    using assms by (induction rows) auto
  then show ?thesis by (simp add: get_run_def set_run_def)
qed

lemma view_set_run:
  assumes "\<And>r. run_id (f r) = run_id r"
  shows "view r0 (set_run rid f w) = (if r0 = rid then (view r0 w)\<lparr>v_row := map_option f (v_row (view r0 w))\<rparr> else view r0 w)"
  using get_run_set_run [OF assms] by (simp add: view_def) (simp add: list_steps_def list_events_def set_run_def)

lemma list_steps_add:
  "store_inv w \<Longrightarrow> rows = tbl_steps w \<Longrightarrow>
   step_sequence s = next_sequence step_run_id step_sequence (step_run_id s) (tbl_steps w) \<Longrightarrow>
   list_steps r0 (w\<lparr>tbl_steps := rows @ [s]\<rparr>) = list_steps r0 w @ (if r0 = step_run_id s then [s] else [])"
  using contiguous_snoc [of step_run_id step_sequence "tbl_steps w" s "step_run_id s"]
  by (simp add: list_steps_def in_order_contiguous store_inv_def)

lemma list_events_add:
  "store_inv w \<Longrightarrow> rows = tbl_events w \<Longrightarrow>
   event_sequence e = next_sequence event_run_id event_sequence (event_run_id e) (tbl_events w) \<Longrightarrow>
   list_events r0 (w\<lparr>tbl_events := rows @ [e]\<rparr>) = list_events r0 w @ (if r0 = event_run_id e then [e] else [])"
  using contiguous_snoc [of event_run_id event_sequence "tbl_events w" e "event_run_id e"]
  by (simp add: list_events_def in_order_contiguous store_inv_def)

lemma list_steps_set_step:
  assumes "store_inv w" and "\<And>s. step_run_id (f s) = step_run_id s" and "\<And>s. step_sequence (f s) = step_sequence s"
  shows "list_steps r0 (set_step sid f w) = map (\<lambda>s. if step_id s = sid then f s else s) (list_steps r0 w)"
proof -
  have c: "contiguous step_run_id step_sequence (tbl_steps w)" using assms(1) by (simp add: store_inv_def)
  have "in_order step_run_id step_sequence r0 (map (\<lambda>s. if step_id s = sid then f s else s) (tbl_steps w)) =
      map (\<lambda>s. if step_id s = sid then f s else s) (in_order step_run_id step_sequence r0 (tbl_steps w))"
    by (rule in_order_map [OF c]) (simp_all add: assms)
  then show ?thesis by (simp add: list_steps_def set_step_def)
qed

lemma list_steps_mem: "s \<in> set (list_steps rid w) \<longleftrightarrow> s \<in> set (tbl_steps w) \<and> step_run_id s = rid"
  by (auto simp: list_steps_def in_order_def)

lemma list_events_mem: "e \<in> set (list_events rid w) \<longleftrightarrow> e \<in> set (tbl_events w) \<and> event_run_id e = rid"
  by (auto simp: list_events_def in_order_def)

lemma list_steps_distinct: "store_inv w \<Longrightarrow> distinct (map step_id (list_steps rid w))"
  by (simp add: list_steps_def in_order_contiguous store_inv_def distinct_map_filter)

lemma get_run_in: "get_run rid None w = Some r \<Longrightarrow> r \<in> set (tbl_runs w) \<and> run_id r = rid"
  by (auto simp: get_run_def dest: find_SomeD)

subsection \<open>One run at a time\<close>

text \<open>The run \<open>rid\<close> has the row \<open>R\<close>, the steps \<open>S\<close> and the events \<open>Es\<close> in a well-formed store.\<close>

definition run_at :: "string \<Rightarrow> flow_run_record \<Rightarrow> flow_step_record list \<Rightarrow> flow_event_record list \<Rightarrow> world \<Rightarrow> bool" where
  "run_at rid R S Es w \<longleftrightarrow> store_inv w \<and> ids_fresh w \<and> view rid w = \<lparr>v_row = Some R, v_steps = S, v_events = Es\<rparr>"

lemma run_atD:
  assumes "run_at rid R S Es w"
  shows "store_inv w" "ids_fresh w" "get_run rid None w = Some R" "list_steps rid w = S" "list_events rid w = Es"
    "run_id R = rid" "run_row_ok R"
  using assms get_run_in [of rid w R] by (auto simp: run_at_def view_def store_inv_def)

lemma run_at_cong:
  "tbl_runs w' = tbl_runs w \<Longrightarrow> tbl_steps w' = tbl_steps w \<Longrightarrow> tbl_events w' = tbl_events w \<Longrightarrow>
   uuid_supply w' = uuid_supply w \<Longrightarrow> run_at rid R S Es w' = run_at rid R S Es w"
  by (simp add: run_at_def ids_fresh_def ids_of_def cong: store_inv_cong view_cong)

lemma run_at_tick [simp]: "run_at rid R S Es (tick w) = run_at rid R S Es w"
  by (rule run_at_cong) simp_all

lemma run_at_bus [simp]: "run_at rid R S Es (w\<lparr>bus := b\<rparr>) = run_at rid R S Es w"
  by (rule run_at_cong) simp_all

lemma run_at_clock [simp]: "run_at rid R S Es (w\<lparr>clock_reads := n\<rparr>) = run_at rid R S Es w"
  by (rule run_at_cong) simp_all

lemma run_at_slept [simp]: "run_at rid R S Es (w\<lparr>slept := n\<rparr>) = run_at rid R S Es w"
  by (rule run_at_cong) simp_all

lemma run_at_update_run:
  assumes "run_at rid R S Es w" and "case st of None \<Rightarrow> True | Some x \<Rightarrow> x \<in> set RUN_STATUSES"
    and "json_opt json_state state = Some s" and "json_opt json_doc out = Some p"
  shows "wp (update_run rid st reason state out)
           (\<lambda>_ w'. \<exists>t. run_at rid (patch_run t st reason s p R) S Es w') E w"
proof -
  let ?w' = "set_run rid (patch_run (wall_src w (wall_reads w)) st reason s p) (tick w)"
  have "preserves store_inv (update_run rid st reason state out)" by (rule update_run_inv)
  from preserves_wpD [OF this run_atD(1) [OF assms(1)]] have inv: "store_inv ?w'"
    using assms(2-4) by (simp add: wp_update_run split: option.splits if_splits)
  have "view rid (tick w) = view rid w" by (rule view_cong) simp_all
  then have "view rid ?w' = \<lparr>v_row = Some (patch_run (wall_src w (wall_reads w)) st reason s p R), v_steps = S, v_events = Es\<rparr>"
    using assms(1) by (simp add: view_set_run run_at_def)
  moreover have "ids_fresh ?w'" using run_atD(2) [OF assms(1)] by (simp add: ids_fresh_set_run)
  ultimately have "run_at rid (patch_run (wall_src w (wall_reads w)) st reason s p R) S Es ?w'"
    using inv by (simp add: run_at_def)
  then show ?thesis using assms(2-4) by (auto simp: wp_update_run split: option.splits)
qed

lemma run_at_create_step:
  assumes "run_at rid R S Es w" and "json_doc inp = Some j"
  shows "wp (create_step rid nid nty att inp)
           (\<lambda>s w'. run_at rid R (S @ [s\<lparr>step_input := j\<rparr>]) Es w' \<and> step_id s \<notin> step_id ` set S \<and>
              step_run_id s = rid \<and> step_node_id s = nid \<and> step_node_type s = nty \<and>
              step_status s = ''running'' \<and> step_attempt s = att \<and> step_output s = None) E w"
proof -
  define s where "s = \<lparr>step_id = str_nat (uuid_supply w), step_run_id = rid, step_node_id = nid,
    step_node_type = nty, step_status = ''running'', step_attempt = att, step_input = inp, step_output = None,
    step_error = [], step_started_at = wall_src (draw w) (wall_reads (draw w)), step_completed_at = None,
    step_sequence = next_sequence step_run_id step_sequence rid (tbl_steps w)\<rparr>"
  let ?w' = "(tick (draw w))\<lparr>tbl_steps := tbl_steps w @ [s\<lparr>step_input := j\<rparr>]\<rparr>"
  note at = run_atD [OF assms(1)]
  have id: "step_id s \<notin> step_id ` set (tbl_steps w)" using ids_freshD(2) [OF at(2)] by (simp add: s_def)
  have "step_row_ok (s\<lparr>step_input := j\<rparr>)"
    using json_doc_sound [OF assms(2)] by (simp add: s_def step_row_ok_def STEP_STATUSES_def)
  then have inv: "store_inv ?w'"
    by (intro store_inv_add_step) (use at(1) id in \<open>auto simp: s_def\<close>)
  have "ids_fresh ?w'" by (rule ids_fresh_draw [OF at(2)]) (use ids_of_run [OF at(3)] in \<open>auto simp: s_def ids_of_def\<close>)
  moreover have "list_steps rid ?w' = list_steps rid (tick (draw w)) @ [s\<lparr>step_input := j\<rparr>]"
    using list_steps_add [of "tick (draw w)" "tbl_steps w" "s\<lparr>step_input := j\<rparr>" rid] at(1) by (simp add: s_def)
  moreover have "view rid (tick (draw w)) = view rid w" by (rule view_cong) simp_all
  ultimately have "run_at rid R (S @ [s\<lparr>step_input := j\<rparr>]) Es ?w'"
    using inv assms(1) by (simp add: run_at_def view_def) (simp add: get_run_def list_events_def)
  moreover have "step_id s \<notin> step_id ` set S" using id at(4) list_steps_mem by fastforce
  moreover have "wp (create_step rid nid nty att inp) Q E w = Q s ?w'" for Q
    using id assms(2) by (simp add: create_step_def Let_def s_def)
  ultimately show ?thesis by (simp add: s_def)
qed

lemma run_at_append_event:
  assumes "run_at rid R S Es w"
  shows "wp (append_event rid p) (\<lambda>e w'. run_at rid R S (Es @ [e]) w' \<and> event_payload e = p \<and> event_run_id e = rid) E w"
proof -
  define e where "e = \<lparr>event_id = str_nat (uuid_supply w), event_run_id = rid,
    event_sequence = next_sequence event_run_id event_sequence rid (tbl_events w), event_payload = p,
    event_created_at = wall_src (draw w) (wall_reads (draw w))\<rparr>"
  let ?w' = "(tick (draw w))\<lparr>tbl_events := tbl_events w @ [e]\<rparr>"
  note at = run_atD [OF assms]
  have id: "event_id e \<notin> event_id ` set (tbl_events w)" using ids_freshD(3) [OF at(2)] by (simp add: e_def)
  then have inv: "store_inv ?w'"
    by (intro store_inv_add_event) (use at(1) in \<open>auto simp: e_def\<close>)
  have "ids_fresh ?w'" by (rule ids_fresh_draw [OF at(2)]) (use ids_of_run [OF at(3)] in \<open>auto simp: e_def ids_of_def\<close>)
  moreover have "list_events rid ?w' = list_events rid (tick (draw w)) @ [e]"
    using list_events_add [of "tick (draw w)" "tbl_events w" e rid] at(1) by (simp add: e_def)
  moreover have "view rid (tick (draw w)) = view rid w" by (rule view_cong) simp_all
  ultimately have "run_at rid R S (Es @ [e]) ?w'"
    using inv assms by (simp add: run_at_def view_def) (simp add: get_run_def list_steps_def)
  moreover have "wp (append_event rid p) Q E w = Q e ?w'" for Q
    using id by (simp add: append_event_def Let_def e_def)
  ultimately show ?thesis by (simp add: e_def)
qed

lemma run_at_complete_step:
  assumes "run_at rid R (S @ [s]) Es w" and "st \<in> set STEP_STATUSES" and "json_opt json_doc out = Some p"
  shows "wp (complete_step (step_id s) st out err)
           (\<lambda>_ w'. \<exists>t. run_at rid R (S @ [s\<lparr>step_status := st, step_output := p, step_error := err,
                step_completed_at := Some t\<rparr>]) Es w') E w"
proof -
  let ?f = "\<lambda>x. x\<lparr>step_status := st, step_output := p, step_error := err,
    step_completed_at := Some (wall_src w (wall_reads w))\<rparr>"
  let ?w' = "set_step (step_id s) ?f (tick w)"
  note at = run_atD [OF assms(1)]
  have tick: "view rid (tick w) = view rid w" by (rule view_cong) simp_all
  have eq: "wp (complete_step (step_id s) st out err) Q E w = Q () ?w'" for Q
    using assms(2,3) by (simp add: complete_step_def)
  have inv: "store_inv ?w'"
    using preserves_wpD [OF complete_step_inv [of "step_id s" st out err] at(1)] assms(2,3)
    by (simp add: complete_step_def)
  have "distinct (map step_id (S @ [s]))" using list_steps_distinct [OF at(1)] at(4) by metis
  then have "map (\<lambda>x. if step_id x = step_id s then ?f x else x) (S @ [s]) = S @ [?f s]"
    by (auto simp: rev_image_eqI intro!: map_idI)
  moreover have "list_steps rid ?w' = map (\<lambda>x. if step_id x = step_id s then ?f x else x) (list_steps rid (tick w))"
    by (rule list_steps_set_step) (use at(1) in simp_all)
  moreover have "list_steps rid (tick w) = S @ [s]" using tick at(4) by (simp add: view_def)
  ultimately have steps: "list_steps rid ?w' = S @ [?f s]" by simp
  have "ids_fresh ?w'" using at(2) by (simp add: ids_fresh_set_step)
  then have "run_at rid R (S @ [?f s]) Es ?w'"
    using inv at(3,5) by (simp add: run_at_def view_def steps) (simp add: get_run_def list_events_def set_step_def)
  then show ?thesis unfolding eq by blast
qed

lemma run_at_json_state: "run_at rid R S Es w \<Longrightarrow> json_state (run_state R) = Some (run_state R)"
  using run_atD(7) by (simp add: run_row_ok_def)

subsection \<open>Properties\<close>

text \<open>
  C26. Every write of the store, whether it succeeds or raises, keeps the invariant of the tables:
  unique ids, step and event sequences of each run numbered from one without gaps, documented
  statuses only, and JSON documents in every JSON column.
\<close>

theorem store_writes_keep_invariant:
  "preserves store_inv (create_run fid ver tenant trig inp st parent rid) \<and>
   preserves store_inv (update_run rid' status reason state out) \<and>
   preserves store_inv (create_step rid' nid nty att inp) \<and>
   preserves store_inv (complete_step sid status' out' err) \<and>
   preserves store_inv (append_event rid' p)"
  by (intro conjI preserves_intros)

text \<open>
  Appending a step or an event gives it the next sequence number of its run, puts it at the end
  of that run's listing and leaves the listing of every other run as it was.
\<close>

theorem appends_extend_one_listing:
  assumes "store_inv w" and "create_step rid nid nty att inp w = (Inr s, w1)" and "append_event rid p w1 = (Inr e, w2)"
  shows "(\<exists>s'. step_sequence s' = Suc (length (list_steps rid w)) \<and>
            (\<forall>o'. list_steps o' w1 = list_steps o' w @ (if o' = rid then [s'] else []))) \<and>
         (\<exists>e'. event_sequence e' = Suc (length (list_events rid w1)) \<and>
            (\<forall>o'. list_events o' w2 = list_events o' w1 @ (if o' = rid then [e'] else [])))"
proof -
  have c: "contiguous step_run_id step_sequence (tbl_steps w)" using assms(1) by (simp add: store_inv_def)
  have "store_inv w1" using preservesD [OF create_step_inv assms(1)] assms(2) by (metis snd_conv)
  then have d: "contiguous event_run_id event_sequence (tbl_events w1)" by (simp add: store_inv_def)
  show ?thesis
    using step_log.listing_insert [OF c, of rid "(nid, nty, att, inp)" s w1] event_log.listing_insert [OF d assms(3)] assms(2)
    by auto
qed

definition bare_world :: world where
  "bare_world = \<lparr>tbl_runs = [], tbl_steps = [], tbl_events = [], tbl_flows = [], uuid_supply = 0, wall_src = (\<lambda>n. int n),
     wall_reads = 0, clock_src = (\<lambda>n. of_nat n), clock_reads = 0, slept = [], bus = []\<rparr>"

lemma bare_world_inv: "store_inv bare_world"
  by (simp add: bare_world_def store_inv_def contiguous_def)

theorem appends_extend_one_listing_witness:
  "\<exists>s w1 e w2. create_step ''r'' ''n'' ''tool'' 1 [] bare_world = (Inr s, w1) \<and>
     append_event ''r'' (StepStarted ''n'' ''0'' 1) w1 = (Inr e, w2) \<and>
     (\<exists>e'. event_sequence e' = 1 \<and> list_events ''r'' w2 = [e'])"
proof -
  obtain s w1 where s: "create_step ''r'' ''n'' ''tool'' 1 [] bare_world = (Inr s, w1)" "list_events ''r'' w1 = []"
    by (simp add: create_step_def bare_world_def uuid4_def utcnow_def dumps_def json_doc_def bind_a_def then_a_def gets_a_def
        modify_a_def return_a_def Let_def list_events_def in_order_def)
  obtain e w2 where e: "append_event ''r'' (StepStarted ''n'' ''0'' 1) w1 = (Inr e, w2)"
    using s by (auto simp: append_event_def create_step_def bare_world_def uuid4_def utcnow_def dumps_def json_doc_def bind_a_def
        then_a_def gets_a_def modify_a_def return_a_def Let_def)
  from appends_extend_one_listing [OF bare_world_inv s(1) e] s e show ?thesis by fastforce
qed

text \<open>
  A lookup restricted to a tenant finds a run exactly when the run belongs to that tenant, so one
  tenant's runs are invisible to another.
\<close>

theorem tenant_isolation:
  assumes "store_inv w"
  shows "get_run rid (Some t) w =
      (case get_run rid None w of None \<Rightarrow> None | Some r \<Rightarrow> if run_tenant_id r = t then Some r else None)"
  by (rule get_run_tenant [OF assms])

theorem tenant_isolation_witness: "get_run ''r'' (Some ''t'') bare_world = None"
  using tenant_isolation [OF bare_world_inv] by (simp add: get_run_def bare_world_def)

text \<open>
  An update of a run refines the update of the abstract store, the map from run ids to a row and
  two logs: it changes the row of that run and no other run's row, steps or events.
\<close>

theorem update_run_refines:
  assumes "update_run rid status reason state out w = (Inr x, w')"
  shows "\<exists>t s p. json_opt json_state state = Some s \<and> json_opt json_doc out = Some p \<and>
    (\<forall>r0. view r0 w' = (if r0 = rid then (view r0 w)\<lparr>v_row := map_option (patch_run t status reason s p) (v_row (view r0 w))\<rparr>
       else view r0 w))"
proof -
  let ?t = "wall_src w (wall_reads w)"
  have "wp (update_run rid status reason state out) (\<lambda>_ w'. \<exists>s p. json_opt json_state state = Some s \<and>
      json_opt json_doc out = Some p \<and> w' = set_run rid (patch_run ?t status reason s p) (tick w)) (\<lambda>_ _. True) w"
    by (simp add: wp_update_run split: option.splits)
  from wp_InrD [OF this assms] obtain s p where sp: "json_opt json_state state = Some s" "json_opt json_doc out = Some p"
    and w': "w' = set_run rid (patch_run ?t status reason s p) (tick w)" by blast
  have "view r0 (tick w) = view r0 w" for r0 by (rule view_cong) simp_all
  then show ?thesis using sp unfolding w' by (auto simp: view_set_run)
qed

theorem update_run_refines_witness:
  "\<exists>w'. update_run ''r'' (Some ''running'') None None None bare_world = (Inr (), w') \<and> view ''s'' w' = view ''s'' bare_world"
proof -
  obtain w' where w': "update_run ''r'' (Some ''running'') None None None bare_world = (Inr (), w')"
    by (simp add: update_run_def RUN_STATUSES_def json_opt_def dumps_def utcnow_def bind_a_def then_a_def gets_a_def modify_a_def
        return_a_def)
  from update_run_refines [OF this] w' show ?thesis by fastforce
qed

end
