(* ===== verification/Flow_Registry.thy ===== *)
theory Flow_Registry
  imports Flow_Manifest Flow_Store_Laws
begin

text \<open>
  The versioned registry of flow definitions (\<^verbatim>\<open>backend/flows/registry.py\<close>): a table keyed by
  flow id and version that holds manifest documents, which every read validates again, and the
  resolution of a version range to the highest matching version.
\<close>

definition upsert_flow :: "string \<Rightarrow> string \<Rightarrow> pydict \<Rightarrow> (string \<times> string \<times> pydict) list \<Rightarrow>
    (string \<times> string \<times> pydict) list" where
  "upsert_flow fid ver doc rows =
     (if \<exists>r\<in>set rows. fst r = fid \<and> fst (snd r) = ver
      then map (\<lambda>r. if fst r = fid \<and> fst (snd r) = ver then (fid, ver, doc) else r) rows
      else rows @ [(fid, ver, doc)])"

definition register :: "flow_manifest \<Rightarrow> flow_manifest flow_action" where
  "register m = bind_a (dumps (json_doc (manifest_raw m))) (\<lambda>doc.
     then_a (modify_a (\<lambda>w. w\<lparr>tbl_flows := upsert_flow (flow_id m) (version m) doc (tbl_flows w)\<rparr>)) (return_a m))"

text \<open>\<open>Inr None\<close> is the \<open>ValueError\<close> of a document that fails validation.\<close>

definition register_raw :: "version_lib \<Rightarrow> pydict \<Rightarrow> flow_manifest option flow_action" where
  "register_raw lib raw = bind_a (lift_a (validate_flow_manifest lib raw)) (\<lambda>r.
     case r of Inl _ \<Rightarrow> return_a None | Inr m \<Rightarrow> bind_a (register m) (\<lambda>m. return_a (Some m)))"

fun valid_manifests :: "version_lib \<Rightarrow> pydict list \<Rightarrow> (flow_exc, flow_manifest list) result" where
  "valid_manifests lib [] = Inr []"
| "valid_manifests lib (doc # docs) =
     bind_r (validate_flow_manifest lib doc) (\<lambda>r.
     bind_r (valid_manifests lib docs) (\<lambda>ms. Inr (case r of Inl _ \<Rightarrow> ms | Inr m \<Rightarrow> m # ms)))"

definition list_flows :: "version_lib \<Rightarrow> string option \<Rightarrow> world \<Rightarrow> (flow_exc, flow_manifest list) result" where
  "list_flows lib fid w = valid_manifests lib (map (snd \<circ> snd)
     (case fid of
        None \<Rightarrow> sort_key (\<lambda>r. (fst r, fst (snd r))) (tbl_flows w)
      | Some i \<Rightarrow> sort_key (\<lambda>r. fst (snd r)) (filter (\<lambda>r. fst r = i) (tbl_flows w))))"

fun matching :: "version_lib \<Rightarrow> string \<Rightarrow> flow_manifest list \<Rightarrow> (flow_exc, flow_manifest list) result" where
  "matching lib rng [] = Inr []"
| "matching lib rng (m # ms) =
     (case version_in_range lib (version m) rng of
        None \<Rightarrow> Inl (InvalidVersion rng)
      | Some b \<Rightarrow> bind_r (matching lib rng ms) (\<lambda>rest. Inr (if b then m # rest else rest)))"

text \<open>\<open>sorted(matches, key=Version, reverse=True)[0]\<close>: the first of the highest versions.\<close>

definition highest :: "version_lib \<Rightarrow> flow_manifest \<Rightarrow> flow_manifest list \<Rightarrow> flow_manifest" where
  "highest lib m ms = foldl (\<lambda>best x. if version_less lib (version best) (version x) then x else best) m ms"

definition resolve :: "version_lib \<Rightarrow> string \<Rightarrow> string \<Rightarrow> world \<Rightarrow> (flow_exc, flow_manifest) result" where
  "resolve lib fid rng w =
     bind_r (list_flows lib (Some fid) w) (\<lambda>ms.
     bind_r (matching lib rng ms) (\<lambda>found.
       case found of
         [] \<Rightarrow> Inl (KeyError fid rng)
       | m # rest \<Rightarrow>
           (case List.find (\<lambda>x. \<not> version_ok lib (version x)) found of
              Some x \<Rightarrow> Inl (InvalidVersion (version x))
            | None \<Rightarrow> Inr (highest lib m rest))))"

definition opt_str :: "string option \<Rightarrow> pyval" where
  "opt_str x = (case x of None \<Rightarrow> PNone | Some s \<Rightarrow> PStr s)"

definition catalog_entry :: "flow_manifest \<Rightarrow> pyval" where
  "catalog_entry m = PDict [
     (KStr ''id'', PStr (flow_id m)), (KStr ''version'', PStr (version m)), (KStr ''name'', opt_str (flow_name m)),
     (KStr ''description'', opt_str (description m)), (KStr ''hostApi'', PStr (host_api m)),
     (KStr ''triggers'', PList (map (\<lambda>t. PDict [(KStr ''type'', PStr (trigger_type t)),
        (KStr ''on'', opt_str (trigger_on t)), (KStr ''schedule'', opt_str (trigger_schedule t))]) (triggers m))),
     (KStr ''nodes'', PInt (int (length (nodes m))))]"

definition catalog :: "version_lib \<Rightarrow> world \<Rightarrow> (flow_exc, pydict) result" where
  "catalog lib w = bind_r (list_flows lib None w) (\<lambda>ms.
     Inr [(KStr ''schemaVersion'', PStr ''1''), (KStr ''flows'', PList (map catalog_entry ms))])"

subsection \<open>Lemmas\<close>

lemma valid_manifests_ok: "valid_manifests lib docs = Inr ms \<Longrightarrow> m \<in> set ms \<Longrightarrow>
    \<exists>doc\<in>set docs. validate_flow_manifest lib doc = Inr (Inr m)"
proof (induction docs arbitrary: ms)
  case (Cons d docs)
  then obtain r ms' where r: "validate_flow_manifest lib d = Inr r" "valid_manifests lib docs = Inr ms'"
    "ms = (case r of Inl _ \<Rightarrow> ms' | Inr m \<Rightarrow> m # ms')"
    by (auto simp: bind_r_eq_Inr)
  show ?case
  proof (cases "m \<in> set ms'")
    case True
    then show ?thesis using Cons.IH [OF r(2)] by auto
  next
    case False
    then have "r = Inr m" using r(3) Cons.prems(2) by (cases r) auto
    with r(1) show ?thesis by simp
  qed
qed simp

lemma matching_sub: "matching lib rng ms = Inr xs \<Longrightarrow>
    set xs = {m\<in>set ms. version_in_range lib (version m) rng = Some True}"
  by (induction ms arbitrary: xs) (auto simp: bind_r_eq_Inr split: option.splits if_splits)

lemma highest_mem: "highest lib m ms \<in> set (m # ms)"
  unfolding highest_def by (induction ms arbitrary: m) auto

lemma list_flows_mem:
  assumes "list_flows lib (Some fid) w = Inr ms" and "m \<in> set ms"
  shows "\<exists>ver doc. (fid, ver, doc) \<in> set (tbl_flows w) \<and> validate_flow_manifest lib doc = Inr (Inr m)"
proof -
  from assms obtain doc where "doc \<in> (snd \<circ> snd) ` {r\<in>set (tbl_flows w). fst r = fid}"
    and "validate_flow_manifest lib doc = Inr (Inr m)"
    unfolding list_flows_def by (auto dest!: valid_manifests_ok)
  then show ?thesis by force
qed

lemma resolve_cong: "tbl_flows w = tbl_flows w' \<Longrightarrow> resolve lib fid rng w = resolve lib fid rng w'"
  by (simp add: resolve_def list_flows_def)

lemma list_flows_complete:
  assumes "list_flows lib (Some fid) w = Inr ms" and "(fid, ver, doc) \<in> set (tbl_flows w)"
    and "validate_flow_manifest lib doc = Inr (Inr m)"
  shows "m \<in> set ms"
proof -
  have "doc \<in> set docs \<Longrightarrow> valid_manifests lib docs = Inr ms \<Longrightarrow> m \<in> set ms" for docs ms
    using assms(3)
    by (induction docs arbitrary: ms) (auto simp: bind_r_eq_Inr split: sum.splits, metis list.set_intros(2) sum.exhaust)
  then show ?thesis using assms(1,2) unfolding list_flows_def by force
qed

lemma resolve_found:
  assumes "resolve lib fid rng w = Inr m"
  obtains ms x rest where "list_flows lib (Some fid) w = Inr ms" "matching lib rng ms = Inr (x # rest)"
    "\<forall>y\<in>set (x # rest). version_ok lib (version y)" "m = highest lib x rest"
proof -
  from assms obtain ms found where ms: "list_flows lib (Some fid) w = Inr ms" and f: "matching lib rng ms = Inr found"
    and c: "(case found of [] \<Rightarrow> Inl (KeyError fid rng)
       | m # rest \<Rightarrow> (case List.find (\<lambda>x. \<not> version_ok lib (version x)) found of
              Some x \<Rightarrow> Inl (InvalidVersion (version x)) | None \<Rightarrow> Inr (highest lib m rest))) = Inr m"
    unfolding resolve_def bind_r_eq_Inr by blast
  from c obtain x rest where x: "found = x # rest" by (cases found) auto
  with c have "List.find (\<lambda>x. \<not> version_ok lib (version x)) (x # rest) = None" and "m = highest lib x rest"
    by (auto split: option.splits simp del: find.simps)
  then show ?thesis using that [OF ms] f x by (simp add: find_None_iff_all del: find.simps)
qed

lemma resolve_registered:
  assumes "resolve lib fid rng w = Inr m"
  shows "\<exists>ver doc. (fid, ver, doc) \<in> set (tbl_flows w) \<and> validate_flow_manifest lib doc = Inr (Inr m)"
    and "version_in_range lib (version m) rng = Some True" and "version_ok lib (version m)"
proof -
  obtain ms x rest where ms: "list_flows lib (Some fid) w = Inr ms" and f: "matching lib rng ms = Inr (x # rest)"
    and ok: "\<forall>y\<in>set (x # rest). version_ok lib (version y)" and m: "m = highest lib x rest"
    by (rule resolve_found [OF assms])
  have in_found: "m \<in> set (x # rest)" unfolding m by (rule highest_mem)
  with matching_sub [OF f] have "m \<in> set ms" and r: "version_in_range lib (version m) rng = Some True" by auto
  then show "\<exists>ver doc. (fid, ver, doc) \<in> set (tbl_flows w) \<and> validate_flow_manifest lib doc = Inr (Inr m)"
    using list_flows_mem [OF ms] by blast
  show "version_in_range lib (version m) rng = Some True" by (rule r)
  show "version_ok lib (version m)" using ok in_found by blast
qed

lemma resolve_manifest_ok: "resolve lib fid rng w = Inr m \<Longrightarrow> manifest_ok m"
  using resolve_registered(1) validated_manifest_ok by blast

text \<open>No matching version is above the resolved one, when the library's order is a strict weak order.\<close>

lemma highest_max:
  assumes "\<And>a b c. version_less lib a b \<Longrightarrow> version_less lib b c \<Longrightarrow> version_less lib a c"
    and "\<And>a. \<not> version_less lib a a"
    and "\<And>a b c. \<not> version_less lib a b \<Longrightarrow> \<not> version_less lib b c \<Longrightarrow> \<not> version_less lib a c"
    and "x \<in> set (m # ms)"
  shows "\<not> version_less lib (version (highest lib m ms)) (version x)"
  using assms(4)
proof (induction ms arbitrary: m x)
  case Nil
  then show ?case by (simp add: highest_def assms(2))
next
  case (Cons y ms)
  let ?b = "if version_less lib (version m) (version y) then y else m"
  have h: "highest lib m (y # ms) = highest lib ?b ms" by (simp add: highest_def)
  have b: "\<not> version_less lib (version (highest lib ?b ms)) (version ?b)" by (rule Cons.IH) simp
  consider "x = m" | "x = y" | "x \<in> set ms" using Cons.prems by auto
  then show ?case
  proof cases
    case 3
    then show ?thesis unfolding h by (intro Cons.IH) simp
  next
    case 1
    have "\<not> version_less lib (version ?b) (version m)"
      using assms(1) [of "version m" "version y" "version m"] assms(2) [of "version m"] by auto
    with b 1 show ?thesis unfolding h using assms(3) by blast
  next
    case 2
    have "\<not> version_less lib (version ?b) (version y)" using assms(2) by simp
    with b 2 show ?thesis unfolding h using assms(3) by blast
  qed
qed

end
