(* ===== verification/Flow_Checkpoint.thy ===== *)
theory Flow_Checkpoint
  imports Flow_Store_Laws Flow_Graph
begin

text \<open>
  Checkpoints, retry backoff and deterministic replay (\<^verbatim>\<open>backend/flows/checkpoint.py\<close>): the delay
  between attempts, the canonical form of node outputs, routing, the consolidated output of a run and
  the replay of its decision path from the persisted steps. \<open>follow\<close> is the specification of
  replay: the fold of the recorded steps along the routing decisions of the manifest.
\<close>

subsection \<open>Backoff and canonical outputs\<close>

definition MAX_BACKOFF_DELAY_SEC :: rat where
  "MAX_BACKOFF_DELAY_SEC = 3600"

definition backoff_delay :: "flow_retry_policy \<Rightarrow> int \<Rightarrow> rat" where
  "backoff_delay p failed_attempt =
     (if backoff p = ''exponential''
      then let exponent = min (max (failed_attempt - 1) 0) 63
           in min (initial_delay_sec p * 2 ^ nat exponent) MAX_BACKOFF_DELAY_SEC
      else initial_delay_sec p)"

text \<open>\<open>None\<close> is the \<open>FlowNodeError\<close> of an output that is not JSON-serialisable.\<close>

definition canonical_output :: "pydict \<Rightarrow> pydict option" where
  "canonical_output out = (case json_val (PDict out) of Some (PDict d) \<Rightarrow> Some d | _ \<Rightarrow> None)"

subsection \<open>Routing\<close>

datatype route_error =
    PredicateError expr_error
  | NoRoute string

definition build_eval_state :: "pydict \<Rightarrow> pydict \<Rightarrow> pyval" where
  "build_eval_state inp ns =
     PDict [(KStr ''flow'', PDict [(KStr ''input'', PDict inp)]), (KStr ''nodes'', PDict ns)]"

fun first_match :: "flow_edge list \<Rightarrow> pyval \<Rightarrow> (expr_error, string option) result" where
  "first_match [] st = Inr None"
| "first_match (e # es) st =
     (case edge_when e of
        None \<Rightarrow> first_match es st
      | Some w \<Rightarrow> bind_r (evaluate_expression (strip_template w) st) (\<lambda>v.
          if truthy v then Inr (Some (target e)) else first_match es st))"

definition select_next_node :: "flow_manifest \<Rightarrow> flow_node \<Rightarrow> pyval \<Rightarrow> (route_error, string option) result" where
  "select_next_node m n st =
     (let es = edges_from m (node_id n) in
      if es = [] then Inr None
      else case first_match es st of
             Inl err \<Rightarrow> Inl (PredicateError err)
           | Inr (Some t) \<Rightarrow> Inr (Some t)
           | Inr None \<Rightarrow>
               (case List.find (\<lambda>e. \<not> guarded e) es of
                  Some e \<Rightarrow> Inr (Some (target e))
                | None \<Rightarrow> if list_all (\<lambda>e. edge_on e \<noteq> None) es then Inr None else Inl (NoRoute (node_id n))))"

subsection \<open>The consolidated output\<close>

definition node_output_entry :: "pydict \<Rightarrow> pyval" where
  "node_output_entry out = PDict [(KStr ''output'', PDict out)]"

definition nodes_of :: "run_state \<Rightarrow> pydict" where
  "nodes_of st = (case st_nodes st of None \<Rightarrow> [] | Some d \<Rightarrow> d)"

definition cursor_of :: "run_state \<Rightarrow> string option" where
  "cursor_of st = (case st_cursor st of None \<Rightarrow> None | Some c \<Rightarrow> c)"

definition recorded_output :: "pydict \<Rightarrow> string \<Rightarrow> pydict option" where
  "recorded_output ns nid =
     (case dget ns nid of
        Some (PDict entry) \<Rightarrow> (case dget entry ''output'' of Some (PDict out) \<Rightarrow> Some out | _ \<Rightarrow> None)
      | _ \<Rightarrow> None)"

fun final_output_loop :: "flow_node list \<Rightarrow> pydict \<Rightarrow> pydict \<Rightarrow> pydict" where
  "final_output_loop [] ns last_output = last_output"
| "final_output_loop (n # rest) ns last_output =
     final_output_loop rest ns (case recorded_output ns (node_id n) of Some out \<Rightarrow> out | None \<Rightarrow> last_output)"

definition final_output :: "flow_manifest \<Rightarrow> run_state \<Rightarrow> pydict" where
  "final_output m st = final_output_loop (nodes m) (nodes_of st) []"

subsection \<open>Replay\<close>

text \<open>The input a node activation renders: map nodes render per item inside their handler.\<close>

definition render_step_input :: "py_env \<Rightarrow> flow_node \<Rightarrow> pyval \<Rightarrow> (expr_error, pydict) result" where
  "render_step_input env n st =
     (if node_type n = ''map'' then Inr []
      else bind_r (render_template env (PDict (input_bindings n)) st) (\<lambda>v.
        Inr (case v of PDict d \<Rightarrow> d | _ \<Rightarrow> [(KStr ''value'', v)])))"

definition step_output_doc :: "flow_step_record \<Rightarrow> pydict" where
  "step_output_doc s = (case step_output s of Some d \<Rightarrow> d | None \<Rightarrow> [])"

text \<open>
  The loop over the recorded steps. The result holds whether the loop returned at a reproduced
  routing failure, the cursor, the replayed node ids and the divergences; \<open>Inl\<close> is the
  \<open>KeyError\<close> of a node the manifest does not declare.
\<close>

fun replay_loop :: "py_env \<Rightarrow> flow_manifest \<Rightarrow> flow_run_record \<Rightarrow> nat \<Rightarrow> nat \<Rightarrow> flow_step_record list \<Rightarrow>
    string option \<Rightarrow> pydict \<Rightarrow> string list \<Rightarrow> replay_divergence list \<Rightarrow>
    (flow_exc, bool \<times> string option \<times> string list \<times> replay_divergence list) result" where
  "replay_loop env m run len index [] cur ns replayed divs = Inr (False, cur, replayed, divs)"
| "replay_loop env m run len index (s # ss) cur ns replayed divs =
     (case cur of
        None \<Rightarrow> Inr (False, cur, replayed, divs @ [TerminalCursor index (step_node_id s)])
      | Some c \<Rightarrow>
          if c \<noteq> step_node_id s
          then Inr (False, cur, replayed @ [c], divs @ [OtherNode index c (step_node_id s)])
          else case find_node m (step_node_id s) of
            None \<Rightarrow> Inl (KeyError (flow_id m) (step_node_id s))
          | Some n \<Rightarrow>
            (case render_step_input env n (build_eval_state (run_input run) ns) of
               Inl err \<Rightarrow> Inr (False, cur, replayed @ [c], divs @ [BindingsFailed index (node_id n) err])
             | Inr inp \<Rightarrow>
                 let divs' = (if py_eq (PDict inp) (PDict (step_input s)) then divs
                              else divs @ [InputDiffers index (node_id n)]);
                     ns' = dset (KStr (step_node_id s)) (node_output_entry (step_output_doc s)) ns
                 in case select_next_node m n (build_eval_state (run_input run) ns') of
                      Inr nxt \<Rightarrow> replay_loop env m run len (Suc index) ss nxt ns' (replayed @ [c]) divs'
                    | Inl err \<Rightarrow>
                        if Suc index = len \<and> stop_reason run \<in> {''predicate_error'', ''no_route''} \<and>
                           cursor_of (run_state run) = Some (step_node_id s)
                        then Inr (True, cur, replayed @ [c], divs')
                        else Inr (False, None, replayed @ [c], divs' @ [RoutingFailed index (node_id n)])))"

definition replay_decision_path :: "py_env \<Rightarrow> flow_manifest \<Rightarrow> flow_run_record \<Rightarrow> flow_step_record list \<Rightarrow>
    (flow_exc, flow_replay_report) result" where
  "replay_decision_path env m run all_steps =
     (let recorded = filter (\<lambda>s. step_status s = ''completed'') all_steps;
          rec_seq = map step_node_id recorded;
          report = (\<lambda>replayed divs. \<lparr>report_run_id = run_id run, report_flow_id = run_flow_id run,
             deterministic = (divs = []), recorded_sequence = rec_seq, replayed_sequence = replayed,
             divergences = divs\<rparr>)
      in case entry_node m of
           None \<Rightarrow> Inr (report [] [NoEntry])
         | Some entry \<Rightarrow>
             bind_r (replay_loop env m run (length recorded) 0 recorded (Some (node_id entry)) [] [] [])
               (\<lambda>(early, cur, replayed, divs).
                  if early then Inr (report replayed divs)
                  else Inr (report replayed
                    (divs @ (if divs = [] \<and> length replayed = length rec_seq \<and> cur \<noteq> cursor_of (run_state run)
                             then [FinalCursor cur (cursor_of (run_state run))] else [])))))"

subsection \<open>The specification of replay\<close>

text \<open>One recorded step: it ran at the cursor, on the input its bindings render to.\<close>

definition step_matches :: "py_env \<Rightarrow> flow_manifest \<Rightarrow> pydict \<Rightarrow> string option \<Rightarrow> pydict \<Rightarrow> flow_step_record \<Rightarrow> flow_node option" where
  "step_matches env m inp cur ns s =
     (case find_node m (step_node_id s) of
        None \<Rightarrow> None
      | Some n \<Rightarrow>
          if cur = Some (step_node_id s) \<and>
             (case render_step_input env n (build_eval_state inp ns) of
                Inl _ \<Rightarrow> False | Inr d \<Rightarrow> py_eq (PDict d) (PDict (step_input s)))
          then Some n else None)"

definition fold_output :: "flow_step_record \<Rightarrow> pydict \<Rightarrow> pydict" where
  "fold_output s ns = dset (KStr (step_node_id s)) (node_output_entry (step_output_doc s)) ns"

fun follow :: "py_env \<Rightarrow> flow_manifest \<Rightarrow> pydict \<Rightarrow> string option \<Rightarrow> pydict \<Rightarrow> flow_step_record list \<Rightarrow>
    (string option \<times> pydict) option" where
  "follow env m inp cur ns [] = Some (cur, ns)"
| "follow env m inp cur ns (s # ss) =
     (case step_matches env m inp cur ns s of
        None \<Rightarrow> None
      | Some n \<Rightarrow>
          (case select_next_node m n (build_eval_state inp (fold_output s ns)) of
             Inl _ \<Rightarrow> None
           | Inr nxt \<Rightarrow> follow env m inp nxt (fold_output s ns) ss))"

lemma follow_append:
  "follow env m inp cur ns (xs @ ys) =
     (case follow env m inp cur ns xs of None \<Rightarrow> None | Some (cur', ns') \<Rightarrow> follow env m inp cur' ns' ys)"
  by (induction xs arbitrary: cur ns) (auto split: option.splits sum.splits)

lemma step_matches_Some:
  "step_matches env m inp cur ns s = Some n \<longleftrightarrow>
     find_node m (step_node_id s) = Some n \<and> cur = Some (step_node_id s) \<and>
     (\<exists>d. render_step_input env n (build_eval_state inp ns) = Inr d \<and> py_eq (PDict d) (PDict (step_input s)))"
  by (auto simp: step_matches_def split: option.splits sum.splits)

lemma replay_loop_follow:
  assumes "follow env m (run_input run) cur ns ss = Some (cur', ns')"
  shows "replay_loop env m run len index ss cur ns replayed [] =
           Inr (False, cur', replayed @ map step_node_id ss, [])"
  using assms
proof (induction ss arbitrary: cur ns index replayed)
  case (Cons s ss)
  then obtain n nxt where n: "step_matches env m (run_input run) cur ns s = Some n"
    "select_next_node m n (build_eval_state (run_input run) (fold_output s ns)) = Inr nxt"
    "follow env m (run_input run) nxt (fold_output s ns) ss = Some (cur', ns')"
    by (auto split: option.splits sum.splits)
  have "replay_loop env m run len index (s # ss) cur ns replayed [] =
      replay_loop env m run len (Suc index) ss nxt (fold_output s ns) (replayed @ [step_node_id s]) []"
    using n(1,2) by (auto simp: step_matches_Some fold_output_def Let_def simp del: py_eq.simps)
  also have "\<dots> = Inr (False, cur', (replayed @ [step_node_id s]) @ map step_node_id ss, [])"
    by (rule Cons.IH [OF n(3)])
  finally show ?case by simp
qed simp

text \<open>A run whose last recorded step stopped at a routing failure.\<close>

lemma replay_loop_route_failure:
  assumes "follow env m (run_input run) cur ns ss = Some (cur', ns')"
    and "step_matches env m (run_input run) cur' ns' s = Some n"
    and "select_next_node m n (build_eval_state (run_input run) (fold_output s ns')) = Inl err"
    and "stop_reason run \<in> {''predicate_error'', ''no_route''}"
    and "cursor_of (run_state run) = Some (step_node_id s)"
    and "len = index + Suc (length ss)"
  shows "replay_loop env m run len index (ss @ [s]) cur ns replayed [] =
           Inr (True, cur', replayed @ map step_node_id (ss @ [s]), [])"
  using assms
proof (induction ss arbitrary: cur ns index replayed)
  case Nil
  then show ?case by (auto simp: step_matches_Some fold_output_def Let_def simp del: py_eq.simps)
next
  case (Cons t ss)
  then obtain k nxt where n: "step_matches env m (run_input run) cur ns t = Some k"
    "select_next_node m k (build_eval_state (run_input run) (fold_output t ns)) = Inr nxt"
    "follow env m (run_input run) nxt (fold_output t ns) ss = Some (cur', ns')"
    by (auto split: option.splits sum.splits)
  have "replay_loop env m run len index ((t # ss) @ [s]) cur ns replayed [] =
      replay_loop env m run len (Suc index) (ss @ [s]) nxt (fold_output t ns) (replayed @ [step_node_id t]) []"
    using n(1,2) by (auto simp: step_matches_Some fold_output_def Let_def simp del: py_eq.simps)
  also have "\<dots> = Inr (True, cur', (replayed @ [step_node_id t]) @ map step_node_id (ss @ [s]), [])"
    by (rule Cons.IH [OF n(3)]) (use Cons.prems in auto)
  finally show ?case by simp
qed

text \<open>A loop that ends without a divergence followed the trace, or stopped at a reproduced failure.\<close>

lemma replay_loop_divs:
  "replay_loop env m run len index ss cur ns replayed divs = Inr (early, c, rep, []) \<Longrightarrow> divs = []"
proof (induction ss arbitrary: len cur ns index replayed divs)
  case (Cons s ss)
  from Cons.prems show ?case
    by (auto simp: Let_def split: option.splits if_splits sum.splits simp del: py_eq.simps dest!: Cons.IH)
qed simp

definition routing_failure_at_end :: "py_env \<Rightarrow> flow_manifest \<Rightarrow> flow_run_record \<Rightarrow> string option \<Rightarrow> pydict \<Rightarrow>
    flow_step_record list \<Rightarrow> bool" where
  "routing_failure_at_end env m run cur ns ss \<longleftrightarrow>
     (\<exists>xs s n cur' ns' err. ss = xs @ [s] \<and> follow env m (run_input run) cur ns xs = Some (cur', ns') \<and>
        step_matches env m (run_input run) cur' ns' s = Some n \<and>
        select_next_node m n (build_eval_state (run_input run) (fold_output s ns')) = Inl err \<and>
        stop_reason run \<in> {''predicate_error'', ''no_route''} \<and>
        cursor_of (run_state run) = Some (step_node_id s))"

lemma routing_failure_Cons:
  assumes "step_matches env m (run_input run) cur ns s = Some n"
    and "select_next_node m n (build_eval_state (run_input run) (fold_output s ns)) = Inr nxt"
    and "routing_failure_at_end env m run nxt (fold_output s ns) ss"
  shows "routing_failure_at_end env m run cur ns (s # ss)"
proof -
  from assms(3) obtain xs t k cur' ns' err where t: "ss = xs @ [t]"
    "follow env m (run_input run) nxt (fold_output s ns) xs = Some (cur', ns')"
    "step_matches env m (run_input run) cur' ns' t = Some k"
    "select_next_node m k (build_eval_state (run_input run) (fold_output t ns')) = Inl err"
    "stop_reason run \<in> {''predicate_error'', ''no_route''}"
    "cursor_of (run_state run) = Some (step_node_id t)"
    unfolding routing_failure_at_end_def by blast
  have "follow env m (run_input run) cur ns (s # xs) = Some (cur', ns')" using assms(1,2) t(2) by simp
  moreover have "s # ss = (s # xs) @ [t]" using t(1) by simp
  ultimately show ?thesis unfolding routing_failure_at_end_def using t(3-6) by blast
qed

lemma replay_loop_follow_conv:
  assumes "replay_loop env m run len index ss cur ns replayed [] = Inr (early, c, rep, [])"
    and "len = index + length ss"
  shows "rep = replayed @ map step_node_id ss \<and>
    (if early then routing_failure_at_end env m run cur ns ss
     else \<exists>ns'. follow env m (run_input run) cur ns ss = Some (c, ns'))"
  using assms
proof (induction ss arbitrary: cur ns index replayed)
  case (Cons s ss)
  from Cons.prems(1) obtain n inp where n: "cur = Some (step_node_id s)" "find_node m (step_node_id s) = Some n"
    "render_step_input env n (build_eval_state (run_input run) ns) = Inr inp"
    by (auto split: option.splits if_splits sum.splits)
  have matches: "py_eq (PDict inp) (PDict (step_input s)) \<Longrightarrow> step_matches env m (run_input run) cur ns s = Some n"
    using n by (auto simp: step_matches_Some simp del: py_eq.simps)
  show ?case
  proof (cases "select_next_node m n (build_eval_state (run_input run) (fold_output s ns))")
    case (Inr nxt)
    define divs' where "divs' = (if py_eq (PDict inp) (PDict (step_input s)) then [] else [InputDiffers index (node_id n)])"
    have loop: "replay_loop env m run len (Suc index) ss nxt (fold_output s ns) (replayed @ [step_node_id s]) divs' =
        Inr (early, c, rep, [])"
      using Cons.prems(1) n Inr by (auto simp: Let_def fold_output_def divs'_def simp del: py_eq.simps)
    have "divs' = []" using replay_loop_divs [OF loop] .
    then have eq: "py_eq (PDict inp) (PDict (step_input s))" unfolding divs'_def by (metis list.distinct(1))
    note m = matches [OF eq]
    have "rep = (replayed @ [step_node_id s]) @ map step_node_id ss \<and>
      (if early then routing_failure_at_end env m run nxt (fold_output s ns) ss
       else \<exists>ns'. follow env m (run_input run) nxt (fold_output s ns) ss = Some (c, ns'))"
      by (rule Cons.IH) (use loop \<open>divs' = []\<close> Cons.prems(2) in simp_all)
    then show ?thesis using m Inr routing_failure_Cons by (auto split: if_splits)
  next
    case (Inl err)
    then have e: "early" "Suc index = len" "stop_reason run \<in> {''predicate_error'', ''no_route''}"
      "cursor_of (run_state run) = Some (step_node_id s)" "py_eq (PDict inp) (PDict (step_input s))"
      "rep = replayed @ [step_node_id s]"
      using Cons.prems(1) n by (auto simp: Let_def fold_output_def simp del: py_eq.simps split: if_splits)
    with Cons.prems(2) have "ss = []" by simp
    have "follow env m (run_input run) cur ns [] = Some (cur, ns)" by simp
    with Inl e matches [OF e(5)] have "routing_failure_at_end env m run cur ns (s # ss)"
      unfolding routing_failure_at_end_def \<open>ss = []\<close> by blast
    then show ?thesis using e \<open>ss = []\<close> by simp
  qed
qed auto

subsection \<open>Lemmas on backoff, outputs and routing\<close>

lemma backoff_delay_nonneg: "0 \<le> initial_delay_sec p \<Longrightarrow> 0 \<le> backoff_delay p k"
  by (simp add: backoff_delay_def MAX_BACKOFF_DELAY_SEC_def Let_def)

lemma backoff_delay_cap: "backoff p = ''exponential'' \<Longrightarrow> backoff_delay p k \<le> MAX_BACKOFF_DELAY_SEC"
  by (simp add: backoff_delay_def Let_def)

lemma backoff_delay_mono:
  assumes "0 \<le> initial_delay_sec p" and "j \<le> k"
  shows "backoff_delay p j \<le> backoff_delay p k"
proof -
  have "nat (min (max (j - 1) 0) 63) \<le> nat (min (max (k - 1) 0) 63)" using assms(2) by auto
  then have "(2::rat) ^ nat (min (max (j - 1) 0) 63) \<le> 2 ^ nat (min (max (k - 1) 0) 63)"
    by (rule power_increasing) simp
  then have "initial_delay_sec p * 2 ^ nat (min (max (j - 1) 0) 63) \<le> initial_delay_sec p * 2 ^ nat (min (max (k - 1) 0) 63)"
    using assms(1) by (rule mult_left_mono)
  then show ?thesis by (auto simp: backoff_delay_def Let_def min_le_iff_disj)
qed

lemma canonical_output_json_doc: "canonical_output d = json_doc d"
  by (auto simp: canonical_output_def json_doc_def split: option.splits)

lemma first_match_Some:
  "first_match es st = Inr (Some t) \<Longrightarrow>
   \<exists>e w v. e \<in> set es \<and> target e = t \<and> edge_when e = Some w \<and>
     evaluate_expression (strip_template w) st = Inr v \<and> truthy v"
proof (induction es)
  case (Cons e es)
  then show ?case by (cases "edge_when e") (force simp: bind_r_eq_Inr split: if_splits)+
qed simp

lemma first_match_None:
  "first_match es st = Inr None \<Longrightarrow> e \<in> set es \<Longrightarrow> edge_when e = Some w \<Longrightarrow>
   \<exists>v. evaluate_expression (strip_template w) st = Inr v \<and> \<not> truthy v"
  by (induction es) (auto simp: bind_r_eq_Inr split: option.splits if_splits)

lemma select_next_node_Some:
  assumes "select_next_node m n st = Inr (Some t)"
  obtains e where "e \<in> set (edges m)" "source e = node_id n" "target e = t"
    "edge_on e = None \<and> edge_when e = None \<or>
     (\<exists>w v. edge_when e = Some w \<and> evaluate_expression (strip_template w) st = Inr v \<and> truthy v)"
proof -
  let ?es = "edges_from m (node_id n)"
  have "\<exists>e\<in>set ?es. target e = t \<and> (edge_on e = None \<and> edge_when e = None \<or>
     (\<exists>w v. edge_when e = Some w \<and> evaluate_expression (strip_template w) st = Inr v \<and> truthy v))"
  proof (cases "first_match ?es st = Inr (Some t)")
    case True
    then show ?thesis using first_match_Some by blast
  next
    case False
    then obtain e where "List.find (\<lambda>e. \<not> guarded e) ?es = Some e" "target e = t"
      using assms by (auto simp: select_next_node_def Let_def split: if_splits sum.splits option.splits)
    then show ?thesis using find_SomeD [of "\<lambda>e. \<not> guarded e" ?es e] by (auto simp: guarded_def)
  qed
  then show ?thesis using that by auto
qed

lemma recorded_output_dset [simp]:
  "recorded_output (dset (KStr x) (node_output_entry out) ns) y = (if y = x then Some out else recorded_output ns y)"
  by (simp add: recorded_output_def node_output_entry_def)

lemma final_output_loop_append:
  "final_output_loop (xs @ ys) ns a = final_output_loop ys ns (final_output_loop xs ns a)"
  by (induction xs arbitrary: a) auto

lemma final_output_loop_skip:
  "(\<forall>n\<in>set xs. recorded_output ns (node_id n) = None) \<Longrightarrow> final_output_loop xs ns a = a"
  by (induction xs) auto

lemma final_output_json:
  assumes "is_json (PDict ns)" and "is_json (PDict a)"
  shows "is_json (PDict (final_output_loop xs ns a))"
  using assms(2)
proof (induction xs arbitrary: a)
  case (Cons n xs)
  have "is_json (PDict out)" if "recorded_output ns (node_id n) = Some out" for out
  proof -
    from that obtain entry where "dget ns (node_id n) = Some (PDict entry)" "dget entry ''output'' = Some (PDict out)"
      by (auto simp: recorded_output_def split: option.splits pyval.splits)
    then show ?thesis using assms(1) is_json_dlookup by (metis is_json.simps(3))
  qed
  then show ?case using Cons by (auto split: option.splits simp del: is_json.simps)
qed simp

lemma build_eval_state_json: "is_json (PDict inp) \<Longrightarrow> is_json (PDict ns) \<Longrightarrow> is_json (build_eval_state inp ns)"
  by (simp add: build_eval_state_def)

lemma render_step_input_json:
  assumes "is_json (PDict (input_bindings n))" and "is_json st" and "render_step_input env n st = Inr d"
  shows "is_json (PDict d)"
proof (cases "node_type n = ''map''")
  case False
  with assms(3) obtain v where v: "render_template env (PDict (input_bindings n)) st = Inr v"
    "d = (case v of PDict d \<Rightarrow> d | _ \<Rightarrow> [(KStr ''value'', v)])"
    by (auto simp: render_step_input_def bind_r_eq_Inr)
  have "is_json v" by (rule render_json(1) [OF assms(1,2) v(1)])
  with v show ?thesis by (cases v) auto
qed (use assms(3) in \<open>simp add: render_step_input_def\<close>)

subsection \<open>Properties\<close>

text \<open>
  The delay between attempts is never negative, never shrinks from one failed attempt to the
  next, and with exponential backoff is at most an hour.
\<close>

theorem backoff_delay_bounds:
  assumes "0 \<le> initial_delay_sec p" and "j \<le> k"
  shows "0 \<le> backoff_delay p j \<and> backoff_delay p j \<le> backoff_delay p k \<and>
    (backoff p = ''exponential'' \<longrightarrow> backoff_delay p k \<le> 3600)"
  using backoff_delay_nonneg [OF assms(1)] backoff_delay_mono [OF assms] backoff_delay_cap [of p k]
  by (simp add: MAX_BACKOFF_DELAY_SEC_def)

theorem backoff_delay_bounds_witness:
  "backoff_delay \<lparr>max_attempts = 5, backoff = ''exponential'', initial_delay_sec = 2\<rparr> 100 = 3600 \<and>
   backoff_delay \<lparr>max_attempts = 5, backoff = ''exponential'', initial_delay_sec = 2\<rparr> 3 \<le>
   backoff_delay \<lparr>max_attempts = 5, backoff = ''exponential'', initial_delay_sec = 2\<rparr> 4"
  using backoff_delay_bounds [of "\<lparr>max_attempts = 5, backoff = ''exponential'', initial_delay_sec = 2\<rparr>" 3 4]
  by (simp add: backoff_delay_def MAX_BACKOFF_DELAY_SEC_def Let_def)

text \<open>
  A canonical node output is a JSON document, and canonicalising it again changes nothing, so the
  output folded into the live state is the one a later read of the step gives back.
\<close>

theorem canonical_output_stable:
  assumes "canonical_output d = Some e"
  shows "is_json (PDict e) \<and> canonical_output e = Some e"
  using assms json_doc_sound json_doc_idem by (auto simp: canonical_output_json_doc)

theorem canonical_output_stable_witness:
  "canonical_output [(KStr ''1'', PTuple [PInt 2])] = Some [(KStr ''1'', PList [PInt 2])] \<and>
   canonical_output [(KStr ''1'', PList [PInt 2])] = Some [(KStr ''1'', PList [PInt 2])]"
proof -
  have c: "canonical_output [(KStr ''1'', PTuple [PInt 2])] = Some [(KStr ''1'', PList [PInt 2])]" by code_simp
  from canonical_output_stable [OF c] c show ?thesis by blast
qed

text \<open>
  Routing from a node leads only along one of its own edges: the first whose predicate holds of
  the state, or, when no predicate of an outgoing edge holds, the first edge without a guard.
\<close>

theorem select_next_node_enabled:
  assumes "select_next_node m n st = Inr (Some t)"
  shows "\<exists>e\<in>set (edges m). source e = node_id n \<and> target e = t \<and>
    ((\<exists>p v. edge_when e = Some p \<and> evaluate_expression (strip_template p) st = Inr v \<and> truthy v) \<or>
     edge_on e = None \<and> edge_when e = None \<and>
       (\<forall>x\<in>set (edges m). \<forall>p. source x = node_id n \<and> edge_when x = Some p \<longrightarrow>
          (\<exists>v. evaluate_expression (strip_template p) st = Inr v \<and> \<not> truthy v)))"
proof (cases "first_match (edges_from m (node_id n)) st = Inr None")
  case True
  then obtain e where "List.find (\<lambda>e. \<not> guarded e) (edges_from m (node_id n)) = Some e" "target e = t"
    using assms by (auto simp: select_next_node_def Let_def split: if_splits option.splits)
  moreover have "\<exists>v. evaluate_expression (strip_template p) st = Inr v \<and> \<not> truthy v"
    if "x \<in> set (edges m)" "source x = node_id n" "edge_when x = Some p" for x p
    using first_match_None [OF True] that by auto
  ultimately show ?thesis using find_SomeD [of "\<lambda>e. \<not> guarded e" "edges_from m (node_id n)" e] by (intro bexI [of _ e]) (auto simp: guarded_def)
next
  case False
  then have "first_match (edges_from m (node_id n)) st = Inr (Some t)"
    using assms by (auto simp: select_next_node_def Let_def split: if_splits option.splits sum.splits)
  from first_match_Some [OF this] show ?thesis by auto
qed

definition plain_manifest :: "flow_node list \<Rightarrow> flow_edge list \<Rightarrow> flow_manifest" where
  "plain_manifest ns es =
     \<lparr>schema_version = ''1'', flow_id = ''demo/plain'', version = ''1.0.0'', host_api = ''*'', flow_name = None,
      description = None, triggers = [], flow_input = None, flow_output = None, defaults = DEFAULT_FLOW_DEFAULTS,
      nodes = ns, edges = es, budgets = DEFAULT_FLOW_BUDGETS, manifest_raw = []\<rparr>"

theorem select_next_node_enabled_witness:
  "\<exists>e\<in>set (edges (plain_manifest [plain_node ''a'', plain_node ''b''] [plain_edge ''a'' ''b''])).
     source e = ''a'' \<and> target e = ''b''"
proof -
  have "select_next_node (plain_manifest [plain_node ''a'', plain_node ''b''] [plain_edge ''a'' ''b'']) (plain_node ''a'') PNone
      = Inr (Some ''b'')" by code_simp
  from select_next_node_enabled [OF this] show ?thesis by (auto simp: plain_node_def)
qed

end
