(* ===== verification/Flow_Handlers.thy ===== *)
theory Flow_Handlers
  imports Flow_Registry Flow_Checkpoint
begin

text \<open>
  Node handlers (\<^verbatim>\<open>backend/flows/handlers.py\<close>): the activation context and its outcome, the
  registries of callables and handlers, and the built-in handlers for callable, conditional, human
  and agent nodes. A handler is an action on the world that may raise. The callables, the agent
  registry and the agent runtime are parameters. The contract the engine relies on is the locale
  \<open>node_handler_contract\<close>: a handler leaves the row, the steps and the events of the run it
  works for as they are; handlers receive the run's state as a value, so they cannot change it. The
  built-in handlers satisfy the stronger \<open>detached_handler\<close>: they leave every existing run as it is.
\<close>

datatype node_exc =
    FlowNodeError string
  | UnsupportedNodeError string
  | FlowBudgetExceededError string
  | OtherException string

fun exc_text :: "node_exc \<Rightarrow> string" where
  "exc_text (FlowNodeError s) = s"
| "exc_text (UnsupportedNodeError s) = s"
| "exc_text (FlowBudgetExceededError s) = s"
| "exc_text (OtherException s) = s"

record node_outcome =
  outcome_output :: pydict
  outcome_metrics :: run_metrics
  outcome_status :: string

record node_context =
  ctx_manifest :: flow_manifest
  ctx_node :: flow_node
  ctx_run_id :: string
  ctx_tenant_id :: string
  ctx_input :: pydict
  ctx_state :: run_state
  ctx_budgets :: flow_budgets
  ctx_deadline :: rat

type_synonym 'a node_action = "(node_exc, 'a, world) action"
type_synonym node_handler = "node_context \<Rightarrow> node_outcome node_action"
type_synonym handler_registry = "string \<Rightarrow> node_handler option"

definition completed_outcome :: "pydict \<Rightarrow> run_metrics \<Rightarrow> node_outcome" where
  "completed_outcome out m = \<lparr>outcome_output = out, outcome_metrics = m, outcome_status = ''completed''\<rparr>"

subsection \<open>Callable nodes\<close>

type_synonym callable_registry = "string \<Rightarrow> (pydict \<Rightarrow> pyval node_action) option"

definition callable_register :: "callable_registry \<Rightarrow> string \<Rightarrow> (pydict \<Rightarrow> pyval node_action) \<Rightarrow> callable_registry" where
  "callable_register reg ref fn = reg(ref \<mapsto> fn)"

definition callable_get :: "callable_registry \<Rightarrow> string \<Rightarrow> (pydict \<Rightarrow> pyval node_action) node_action" where
  "callable_get reg ref =
     (case reg ref of
        None \<Rightarrow> raise_a (UnsupportedNodeError (''no callable registered for '' @ repr_str ref))
      | Some fn \<Rightarrow> return_a fn)"

definition no_ref_error :: "flow_node \<Rightarrow> node_exc" where
  "no_ref_error n = FlowNodeError (''node '' @ repr_str (node_id n) @ '' has no ref'')"

definition callable_handler :: "callable_registry \<Rightarrow> node_handler" where
  "callable_handler reg ctx =
     (case node_ref (ctx_node ctx) of
        None \<Rightarrow> raise_a (no_ref_error (ctx_node ctx))
      | Some ref \<Rightarrow>
          bind_a (callable_get reg (ref_id ref)) (\<lambda>fn.
          bind_a (fn (ctx_input ctx)) (\<lambda>out.
          return_a (completed_outcome (case out of PDict d \<Rightarrow> d | _ \<Rightarrow> [(KStr ''value'', out)]) zero_metrics))))"

subsection \<open>Conditional and human nodes\<close>

definition conditional_handler :: node_handler where
  "conditional_handler ctx = return_a (completed_outcome [] zero_metrics)"

definition read_now :: "int node_action" where
  "read_now = bind_a (gets_a (\<lambda>w. wall_src w (wall_reads w))) (\<lambda>t.
     then_a (modify_a (\<lambda>w. w\<lparr>wall_reads := Suc (wall_reads w)\<rparr>)) (return_a t))"

definition human_handler :: "py_env \<Rightarrow> node_handler" where
  "human_handler env ctx =
     (let n = ctx_node ctx in
      bind_a (case timeout_sec n of
                None \<Rightarrow> return_a PNone
              | Some s \<Rightarrow> bind_a read_now (\<lambda>t. return_a (PStr (isoformat env (t + 1000000 * s))))) (\<lambda>expires.
      return_a \<lparr>outcome_output = [(KStr ''prompt'', opt_str (prompt n)),
                  (KStr ''form'', (case form n of None \<Rightarrow> PNone | Some f \<Rightarrow> PDict f)), (KStr ''expiresAt'', expires)],
                outcome_metrics = zero_metrics, outcome_status = ''waiting_human''\<rparr>))"

subsection \<open>Agent nodes\<close>

record agent_result =
  agent_status :: string
  agent_stop_reason :: string
  agent_output :: "pydict option"
  agent_tokens_input :: rat
  agent_tokens_output :: rat
  agent_cost_usd :: rat

text \<open>
  The agent registry and runtime: resolution of a reference to an agent id and its plugin id (\<open>None\<close>
  is the \<open>KeyError\<close>), the in-process handlers, the plugin store (\<open>None\<close> when not configured)
  with the manifest path of each installed plugin, the loader of plugin handlers and the runtime.
\<close>

record agent_services =
  agent_resolve :: "string \<Rightarrow> string \<Rightarrow> (string \<times> string) option"
  agent_local_handlers :: "string \<Rightarrow> nat option"
  agent_plugin_paths :: "(string \<Rightarrow> string option) option"
  agent_load_handler :: "string \<Rightarrow> string \<Rightarrow> nat"
  agent_run :: "string \<Rightarrow> pydict \<Rightarrow> nat \<Rightarrow> string \<Rightarrow> string \<Rightarrow> agent_result node_action"

definition register_local_handler :: "agent_services \<Rightarrow> string \<Rightarrow> nat \<Rightarrow> agent_services" where
  "register_local_handler sv aid h = sv\<lparr>agent_local_handlers := (agent_local_handlers sv)(aid \<mapsto> h)\<rparr>"

definition load_plugin_handler :: "agent_services \<Rightarrow> string \<Rightarrow> string \<Rightarrow> (node_exc, nat) result" where
  "load_plugin_handler sv plugin aid =
     (case agent_plugin_paths sv of
        None \<Rightarrow> Inl (FlowNodeError (''no in-process handler for agent of plugin '' @ repr_str plugin @
                 '' and no plugin store configured''))
      | Some paths \<Rightarrow>
          (case paths plugin of
             None \<Rightarrow> Inl (FlowNodeError (''plugin '' @ repr_str plugin @ '' is not installed''))
           | Some path \<Rightarrow>
               if path = [] then Inl (FlowNodeError (''plugin '' @ repr_str plugin @ '' is not installed''))
               else Inr (agent_load_handler sv aid path)))"

definition agent_handler :: "agent_services \<Rightarrow> node_handler" where
  "agent_handler sv ctx =
     (case node_ref (ctx_node ctx) of
        None \<Rightarrow> raise_a (no_ref_error (ctx_node ctx))
      | Some ref \<Rightarrow>
          (case agent_resolve sv (ref_id ref) (version_range ref) of
             None \<Rightarrow> raise_a (FlowNodeError (''no agent matches '' @ ref_raw ref))
           | Some (aid, plugin) \<Rightarrow>
               bind_a (lift_a (case agent_local_handlers sv aid of
                                 Some h \<Rightarrow> Inr h | None \<Rightarrow> load_plugin_handler sv plugin aid)) (\<lambda>h.
               bind_a (agent_run sv aid (ctx_input ctx) h (ctx_run_id ctx @ '':'' @ node_id (ctx_node ctx)) (ctx_tenant_id ctx)) (\<lambda>r.
                 case agent_output r of
                   Some out \<Rightarrow>
                     if agent_status r = ''completed''
                     then return_a (completed_outcome out
                            \<lparr>tokens = agent_tokens_input r + agent_tokens_output r, cost_usd = agent_cost_usd r\<rparr>)
                     else raise_a (FlowNodeError (''agent '' @ repr_str aid @ '' finished with status '' @
                            repr_str (agent_status r) @ '' ('' @ agent_stop_reason r @ '')''))
                 | None \<Rightarrow> raise_a (FlowNodeError (''agent '' @ repr_str aid @ '' finished with status '' @
                            repr_str (agent_status r) @ '' ('' @ agent_stop_reason r @ '')''))))))"

subsection \<open>The handler registry\<close>

definition handler_register :: "handler_registry \<Rightarrow> string \<Rightarrow> node_handler \<Rightarrow> handler_registry" where
  "handler_register hs ty h = hs(ty \<mapsto> h)"

definition handler_get :: "handler_registry \<Rightarrow> string \<Rightarrow> node_handler node_action" where
  "handler_get hs ty =
     (case hs ty of
        None \<Rightarrow> raise_a (UnsupportedNodeError (''node type '' @ repr_str ty @ '' has no registered handler''))
      | Some h \<Rightarrow> return_a h)"

text \<open>\<open>build_default_handlers\<close>, with the composite handlers of \<^verbatim>\<open>composite.py\<close> as arguments.\<close>

definition build_default_handlers :: "py_env \<Rightarrow> callable_registry \<Rightarrow> agent_services \<Rightarrow> node_handler \<Rightarrow> node_handler \<Rightarrow>
    handler_registry" where
  "build_default_handlers env callables agents subflow mapper =
     (let h0 = (\<lambda>_. None); h1 = handler_register h0 ''skill'' (callable_handler callables);
          h2 = handler_register h1 ''tool'' (callable_handler callables);
          h3 = handler_register h2 ''conditional'' conditional_handler;
          h4 = handler_register h3 ''human'' (human_handler env);
          h5 = handler_register h4 ''agent'' (agent_handler agents);
          h6 = handler_register h5 ''subflow'' subflow
      in handler_register h6 ''map'' mapper)"

subsection \<open>The contract of a handler\<close>

definition isolated :: "node_handler \<Rightarrow> bool" where
  "isolated h \<longleftrightarrow> (\<forall>ctx R S Es. preserves (run_at (ctx_run_id ctx) R S Es) (h ctx))"

definition handlers_isolated :: "handler_registry \<Rightarrow> bool" where
  "handlers_isolated hs \<longleftrightarrow> (\<forall>ty h. hs ty = Some h \<longrightarrow> isolated h)"

locale node_handler_contract =
  fixes handler :: node_handler
  assumes keeps_run: "preserves (run_at (ctx_run_id ctx) R S Es) (handler ctx)"
begin

lemma handler_isolated: "isolated handler"
  by (simp add: isolated_def keeps_run)

lemma handler_wp:
  "run_at (ctx_run_id ctx) R S Es w \<Longrightarrow>
   wp (handler ctx) (\<lambda>_. run_at (ctx_run_id ctx) R S Es) (\<lambda>_. run_at (ctx_run_id ctx) R S Es) w"
  by (rule preserves_wpD [OF keeps_run])

lemma register_isolated: "handlers_isolated hs \<Longrightarrow> handlers_isolated (handler_register hs ty handler)"
  by (simp add: handlers_isolated_def handler_register_def handler_isolated)

end

definition detached :: "node_handler \<Rightarrow> bool" where
  "detached h \<longleftrightarrow> (\<forall>ctx rid R S Es. preserves (run_at rid R S Es) (h ctx))"

definition handlers_detached :: "handler_registry \<Rightarrow> bool" where
  "handlers_detached hs \<longleftrightarrow> (\<forall>ty h. hs ty = Some h \<longrightarrow> detached h)"

lemma detached_isolated: "handlers_detached hs \<Longrightarrow> handlers_isolated hs"
  by (simp add: handlers_detached_def handlers_isolated_def detached_def isolated_def)

lemma handlers_detached_empty [simp]: "handlers_detached (\<lambda>_. None)"
  by (simp add: handlers_detached_def)

lemma register_detached: "handlers_detached hs \<Longrightarrow> detached h \<Longrightarrow> handlers_detached (handler_register hs ty h)"
  by (simp add: handlers_detached_def handler_register_def)

locale detached_handler =
  fixes handler :: node_handler
  assumes keeps_every_run: "preserves (run_at rid R S Es) (handler ctx)"
begin

lemma handler_detached: "detached handler"
  by (simp add: detached_def keeps_every_run)

end

sublocale detached_handler \<subseteq> node_handler_contract handler
  by unfold_locales (rule keeps_every_run)

text \<open>Callables that only compute.\<close>

definition pure_callables :: "(string \<Rightarrow> (pydict \<Rightarrow> (node_exc, pyval) result) option) \<Rightarrow> callable_registry" where
  "pure_callables fns ref = map_option (\<lambda>f inp. lift_a (f inp)) (fns ref)"

lemma read_now_run_at [preserves_intros]: "preserves (run_at rid R S Es) read_now"
  by (rule preservesI) (simp add: read_now_def run_at_cong [where w' = "w\<lparr>wall_reads := n\<rparr>" for w n])

interpretation conditional: detached_handler conditional_handler
  by unfold_locales (simp add: conditional_handler_def preserves_intros)

interpretation human: detached_handler "human_handler env" for env
  by unfold_locales (auto simp: human_handler_def Let_def intro!: preserves_intros)

interpretation callable: detached_handler "callable_handler (pure_callables fns)" for fns
proof unfold_locales
  fix rid R S Es ctx
  show "preserves (run_at rid R S Es) (callable_handler (pure_callables fns) ctx)"
    unfolding callable_handler_def
    by (cases "node_ref (ctx_node ctx)")
      (auto simp: callable_get_def pure_callables_def intro!: preserves_intros split: option.splits)
qed

end
