(* ===== verification/Flow_Engine.thy ===== *)
theory Flow_Engine
  imports Flow_Handlers
begin

text \<open>
  The flow engine (\<^verbatim>\<open>backend/flows/activation.py\<close>, \<^verbatim>\<open>backend/flows/pause.py\<close>,
  \<^verbatim>\<open>backend/flows/engine.py\<close>): one node activation with its retries, the pause of a run at a human
  node, the loop that drives a run from its cursor, and the operations to start, execute, resume and
  replay runs. The loop ends because the number of activations is capped. Traces and the payload of
  bus notifications are not modelled.
\<close>

record flow_engine =
  eng_env :: py_env
  eng_lib :: version_lib
  eng_handlers :: handler_registry
  eng_max_steps :: int

definition read_clock :: "rat flow_action" where
  "read_clock = bind_a (gets_a (\<lambda>w. clock_src w (clock_reads w))) (\<lambda>t.
     then_a (modify_a (\<lambda>w. w\<lparr>clock_reads := Suc (clock_reads w)\<rparr>)) (return_a t))"

definition sleeper :: "rat \<Rightarrow> unit flow_action" where
  "sleeper d = modify_a (\<lambda>w. w\<lparr>slept := slept w @ [d]\<rparr>)"

subsection \<open>Failing and pausing a run\<close>

definition require_run :: "string \<Rightarrow> flow_run_record flow_action" where
  "require_run rid = bind_a (gets_a (get_run rid None)) (\<lambda>r.
     case r of None \<Rightarrow> raise_a (RunVanished rid) | Some rec \<Rightarrow> return_a rec)"

definition fail_run :: "string \<Rightarrow> run_state \<Rightarrow> string \<Rightarrow> fail_detail \<Rightarrow> flow_run_record flow_action" where
  "fail_run rid st reason detail =
     then_a (update_run rid (Some ''failed'') (Some reason) (Some st) None)
     (then_a (append_event rid (RunFailed reason detail))
     (bind_a (require_run rid) (\<lambda>rec.
      then_a (emit_event ''flow.run.failed'' (run_tenant_id rec) rid None) (return_a rec))))"

definition pause_run :: "flow_run_record \<Rightarrow> flow_node \<Rightarrow> flow_step_record \<Rightarrow> run_state \<Rightarrow> node_outcome \<Rightarrow>
    flow_run_record flow_action" where
  "pause_run run n s st out =
     then_a (complete_step (step_id s) ''waiting_human'' (Some (outcome_output out)) [])
     (let expires = dget_none (outcome_output out) ''expiresAt'';
          st' = st\<lparr>st_pause := Some \<lparr>pause_node = node_id n, pause_step = step_id s, pause_expires = expires\<rparr>\<rparr>
      in then_a (update_run (run_id run) (Some ''waiting_human'') None (Some st') None)
         (then_a (append_event (run_id run) (RunPaused (node_id n) (step_id s)
                    (dget_none (outcome_output out) ''prompt'') expires))
         (require_run (run_id run))))"

subsection \<open>Attempts\<close>

definition failure_reason :: "node_exc \<Rightarrow> string" where
  "failure_reason exc =
     (case exc of
        UnsupportedNodeError _ \<Rightarrow> ''unsupported_node''
      | FlowBudgetExceededError _ \<Rightarrow> ''budget_exhausted''
      | _ \<Rightarrow> ''node_failed'')"

datatype attempt_result =
    Attempted flow_step_record node_outcome
  | Stopped flow_run_record

definition invoke_handler :: "flow_engine \<Rightarrow> node_context \<Rightarrow> node_outcome node_action" where
  "invoke_handler eng ctx = bind_a (handler_get (eng_handlers eng) (node_type (ctx_node ctx))) (\<lambda>h. h ctx)"

definition step_context :: "flow_run_record \<Rightarrow> flow_manifest \<Rightarrow> flow_node \<Rightarrow> run_state \<Rightarrow> pydict \<Rightarrow> flow_budgets \<Rightarrow> rat \<Rightarrow>
    node_context" where
  "step_context run m n st inp bud deadline =
     \<lparr>ctx_manifest = m, ctx_node = n, ctx_run_id = run_id run, ctx_tenant_id = run_tenant_id run, ctx_input = inp,
      ctx_state = st, ctx_budgets = bud, ctx_deadline = deadline\<rparr>"

text \<open>The handling of a failed attempt, with the next attempt as an argument.\<close>

definition attempt_failed :: "flow_run_record \<Rightarrow> flow_node \<Rightarrow> run_state \<Rightarrow> flow_retry_policy \<Rightarrow> flow_budgets \<Rightarrow> rat \<Rightarrow> int \<Rightarrow>
    flow_step_record \<Rightarrow> attempt_result flow_action \<Rightarrow> node_exc \<Rightarrow> attempt_result flow_action" where
  "attempt_failed run n st policy bud deadline attempt s again exc =
     (let reason = failure_reason exc;
          will_retry = (reason = ''node_failed'' \<and> attempt < max_attempts policy)
      in then_a (complete_step (step_id s) ''failed'' None (exc_text exc))
         (then_a (append_event (run_id run)
                    (StepFailed (node_id n) (step_id s) (step_attempt s) reason (exc_text exc) will_retry))
         (then_a (emit_event ''run.step.failed'' (run_tenant_id run) (run_id run) (Some (step_id s)))
         (if \<not> will_retry
          then bind_a (fail_run (run_id run) st reason (NodeDetail (exc_text exc))) (\<lambda>r. return_a (Stopped r))
          else let delay = backoff_delay policy attempt
               in bind_a read_clock (\<lambda>t.
                  if t + delay > deadline
                  then bind_a (fail_run (run_id run) st ''budget_exhausted''
                                (BackoffDetail (node_id n) delay (max_wall_clock_sec bud))) (\<lambda>r. return_a (Stopped r))
                  else then_a (sleeper delay) again)))))"

primrec attempt_loop :: "nat \<Rightarrow> flow_engine \<Rightarrow> flow_run_record \<Rightarrow> flow_manifest \<Rightarrow> flow_node \<Rightarrow> run_state \<Rightarrow> pydict \<Rightarrow>
    flow_retry_policy \<Rightarrow> flow_budgets \<Rightarrow> rat \<Rightarrow> int \<Rightarrow> attempt_result flow_action" where
  "attempt_loop 0 eng run m n st inp policy bud deadline attempt = raise_a (NoAttempt (node_id n))"
| "attempt_loop (Suc k) eng run m n st inp policy bud deadline attempt =
     bind_a (create_step (run_id run) (node_id n) (node_type n) attempt inp) (\<lambda>s.
     then_a (append_event (run_id run) (StepStarted (node_id n) (step_id s) (step_attempt s)))
     (then_a (emit_event ''run.step.started'' (run_tenant_id run) (run_id run) (Some (step_id s)))
     (try_a (invoke_handler eng (step_context run m n st inp bud deadline))
       (\<lambda>out. return_a (Attempted s out))
       (attempt_failed run n st policy bud deadline attempt s
          (attempt_loop k eng run m n st inp policy bud deadline (attempt + 1))))))"

subsection \<open>One node activation\<close>

definition charge :: "run_metrics \<Rightarrow> run_state \<Rightarrow> run_state" where
  "charge m st = st\<lparr>st_metrics := Some \<lparr>tokens = tokens (metrics_of st) + tokens m,
                                      cost_usd = cost_usd (metrics_of st) + cost_usd m\<rparr>\<rparr>"

definition record_output :: "string \<Rightarrow> pydict \<Rightarrow> run_state \<Rightarrow> run_state" where
  "record_output nid out st = st\<lparr>st_nodes := Some (dset (KStr nid) (node_output_entry out) (nodes_of st))\<rparr>"

definition route_failure :: "string \<Rightarrow> run_state \<Rightarrow> string \<Rightarrow> route_error \<Rightarrow> flow_run_record flow_action" where
  "route_failure rid st nid err =
     (case err of
        PredicateError e \<Rightarrow> fail_run rid st ''predicate_error'' (RoutingDetail nid e)
      | NoRoute i \<Rightarrow> fail_run rid st ''no_route'' (NoRouteDetail i))"

definition finish_step :: "flow_run_record \<Rightarrow> flow_manifest \<Rightarrow> flow_node \<Rightarrow> run_state \<Rightarrow> flow_step_record \<Rightarrow> node_outcome \<Rightarrow>
    (flow_run_record option \<times> run_state) flow_action" where
  "finish_step run m n st s out =
     (case canonical_output (outcome_output out) of
        None \<Rightarrow> then_a (complete_step (step_id s) ''failed'' None ''node output is not JSON-serializable'')
                 (bind_a (fail_run (run_id run) st ''node_failed'' (OutputDetail (node_id n))) (\<lambda>r. return_a (Some r, st)))
      | Some output \<Rightarrow>
          then_a (complete_step (step_id s) ''completed'' (Some output) [])
          (let st1 = charge (outcome_metrics out) (record_output (node_id n) output st)
           in case select_next_node m n (build_eval_state (run_input run) (nodes_of st1)) of
                Inl err \<Rightarrow> bind_a (route_failure (run_id run) st1 (node_id n) err) (\<lambda>r. return_a (Some r, st1))
              | Inr nxt \<Rightarrow>
                  (let st2 = st1\<lparr>st_cursor := Some nxt\<rparr>
                   in then_a (update_run (run_id run) None None (Some st2) None)
                      (then_a (append_event (run_id run) (StepCompleted (node_id n) (step_id s) (step_attempt s) nxt False))
                      (then_a (emit_event ''run.step.completed'' (run_tenant_id run) (run_id run) (Some (step_id s)))
                      (return_a (None, st2)))))))"

definition policy_of :: "flow_manifest \<Rightarrow> flow_node \<Rightarrow> flow_retry_policy" where
  "policy_of m n = (case retries n of Some p \<Rightarrow> p | None \<Rightarrow> default_retries (defaults m))"

definition activate_node :: "flow_engine \<Rightarrow> flow_run_record \<Rightarrow> flow_manifest \<Rightarrow> flow_node \<Rightarrow> run_state \<Rightarrow> flow_budgets \<Rightarrow> rat \<Rightarrow>
    (flow_run_record option \<times> run_state) flow_action" where
  "activate_node eng run m n st bud deadline =
     (case render_step_input (eng_env eng) n (build_eval_state (run_input run) (nodes_of st)) of
        Inl err \<Rightarrow> bind_a (fail_run (run_id run) st ''binding_error'' (BindingDetail (node_id n) err)) (\<lambda>r. return_a (Some r, st))
      | Inr inp \<Rightarrow>
          (let policy = policy_of m n
           in bind_a (attempt_loop (nat (max (max_attempts policy) 1)) eng run m n st inp policy bud deadline 1) (\<lambda>res.
              case res of
                Stopped r \<Rightarrow> return_a (Some r, st)
              | Attempted s out \<Rightarrow>
                  if outcome_status out = ''waiting_human''
                  then bind_a (pause_run run n s st out) (\<lambda>r. return_a (Some r, st))
                  else finish_step run m n st s out)))"

subsection \<open>The loop\<close>

definition complete_run :: "flow_run_record \<Rightarrow> flow_manifest \<Rightarrow> run_state \<Rightarrow> flow_run_record flow_action" where
  "complete_run run m st =
     (let out = final_output m st
      in then_a (update_run (run_id run) (Some ''completed'') (Some ''completed'') (Some st) (Some out))
         (then_a (append_event (run_id run) (RunCompleted (flow_id m) out))
         (then_a (emit_event ''flow.run.completed'' (run_tenant_id run) (run_id run) None)
         (require_run (run_id run)))))"

definition live_cursor :: "run_state \<Rightarrow> string option" where
  "live_cursor st = (case cursor_of st of Some c \<Rightarrow> if c = [] then None else Some c | None \<Rightarrow> None)"

function drive :: "flow_engine \<Rightarrow> flow_run_record \<Rightarrow> flow_manifest \<Rightarrow> flow_budgets \<Rightarrow> rat \<Rightarrow> int \<Rightarrow> run_state \<Rightarrow>
    flow_run_record flow_action" where
  "drive eng run m bud started activations st =
     (case live_cursor st of
        None \<Rightarrow>
          bind_a read_clock (\<lambda>t.
            case budget_violation bud st (t - started) 0 (eng_max_steps eng) of
              Some v \<Rightarrow> fail_run (run_id run) st ''budget_exhausted'' (BudgetDetail v)
            | None \<Rightarrow> complete_run run m st)
      | Some c \<Rightarrow>
          bind_a read_clock (\<lambda>t.
            case budget_violation bud st (t - started) activations (eng_max_steps eng) of
              Some v \<Rightarrow> fail_run (run_id run) st ''budget_exhausted'' (BudgetDetail v)
            | None \<Rightarrow>
                (case find_node m c of
                   None \<Rightarrow> raise_a (KeyError (flow_id m) c)
                 | Some n \<Rightarrow>
                     bind_a (activate_node eng run m n st bud (started + of_int (max_wall_clock_sec bud))) (\<lambda>p.
                       case fst p of
                         Some r \<Rightarrow> return_a r
                       | None \<Rightarrow> drive eng run m bud started (activations + 1) (snd p)))))"
  by pat_completeness auto
termination
  by (relation "measure (\<lambda>(eng, run, m, bud, started, activations, st). nat (eng_max_steps eng - activations))")
    (auto simp: budget_violation_None)

declare drive.simps [simp del]

definition initial_state :: "string \<Rightarrow> run_state \<Rightarrow> run_state" where
  "initial_state entry st = st\<lparr>
     st_cursor := Some (case st_cursor st of None \<Rightarrow> Some entry | Some c \<Rightarrow> c),
     st_nodes := Some (case st_nodes st of None \<Rightarrow> [] | Some d \<Rightarrow> d),
     st_metrics := Some (case st_metrics st of None \<Rightarrow> zero_metrics | Some x \<Rightarrow> x)\<rparr>"

definition resolve_action :: "flow_engine \<Rightarrow> string \<Rightarrow> string \<Rightarrow> flow_manifest flow_action" where
  "resolve_action eng fid rng = bind_a (gets_a (resolve (eng_lib eng) fid rng)) lift_a"

definition entry_action :: "flow_manifest \<Rightarrow> flow_node flow_action" where
  "entry_action m = (case entry_node m of None \<Rightarrow> raise_a NoEntryNode | Some n \<Rightarrow> return_a n)"

definition run_loop :: "flow_engine \<Rightarrow> flow_run_record \<Rightarrow> flow_budgets option \<Rightarrow> flow_run_record flow_action" where
  "run_loop eng run cap =
     bind_a (resolve_action eng (run_flow_id run) (run_flow_version run)) (\<lambda>m.
     then_a (update_run (run_id run) (Some ''running'') None None None)
     (bind_a (entry_action m) (\<lambda>entry.
      let st = initial_state (node_id entry) (run_state run);
          bud = effective_budgets (budgets m) st cap
      in bind_a read_clock (\<lambda>started. drive eng run m bud started 0 st))))"

subsection \<open>Starting, executing, resuming and replaying runs\<close>

definition start_state :: "string \<Rightarrow> flow_budgets option \<Rightarrow> run_state" where
  "start_state entry cap =
     \<lparr>st_cursor = Some (Some entry), st_nodes = Some [], st_metrics = Some zero_metrics,
      st_budget_cap = map_option budget_cap_document cap, st_pause = None\<rparr>"

definition default_trigger :: "pydict option \<Rightarrow> pydict" where
  "default_trigger t = (case t of Some (x # xs) \<Rightarrow> x # xs | _ \<Rightarrow> [(KStr ''type'', PStr ''api'')])"

definition start_run :: "flow_engine \<Rightarrow> string \<Rightarrow> string \<Rightarrow> pydict \<Rightarrow> pydict option \<Rightarrow> string \<Rightarrow> string option \<Rightarrow> bool \<Rightarrow>
    flow_budgets option \<Rightarrow> flow_run_record flow_action" where
  "start_run eng fid rng inp trig tenant parent execute cap =
     bind_a (gets_a (resolve (eng_lib eng) fid rng)) (\<lambda>found.
     case found of
       Inl (KeyError f r) \<Rightarrow> raise_a (UnknownFlow f r)
     | Inl e \<Rightarrow> raise_a e
     | Inr m \<Rightarrow>
         bind_a (lift_a (validate_run_input m inp)) (\<lambda>errs.
         if errs \<noteq> ([], []) then raise_a (InvalidRunInput (fst errs) (snd errs))
         else bind_a (entry_action m) (\<lambda>entry.
           bind_a (create_run (flow_id m) (version m) tenant (default_trigger trig) inp
                    (start_state (node_id entry) cap) parent None) (\<lambda>run.
           then_a (append_event (run_id run) (RunStarted (flow_id m) (version m) tenant (run_trigger run) (node_id entry)))
           (then_a (emit_event ''flow.run.started'' tenant (run_id run) None)
           (if execute then run_loop eng run None else return_a run))))))"

definition execute_run :: "flow_engine \<Rightarrow> string \<Rightarrow> flow_budgets option \<Rightarrow> flow_run_record flow_action" where
  "execute_run eng rid cap =
     bind_a (gets_a (get_run rid None)) (\<lambda>r.
     case r of
       None \<Rightarrow> raise_a (UnknownRun rid)
     | Some run \<Rightarrow> if run_status run \<in> set TERMINAL_RUN_STATUSES then return_a run else run_loop eng run cap)"

definition completed_event_steps :: "flow_event_record list \<Rightarrow> string set" where
  "completed_event_steps es =
     set (concat (map (\<lambda>e. case event_payload e of StepCompleted nid sid att nxt b \<Rightarrow> [sid] | _ \<Rightarrow> []) es))"

text \<open>Folding the recorded output of a committed step back into the state, and routing from there.\<close>

definition fold_recorded :: "flow_run_record \<Rightarrow> flow_manifest \<Rightarrow> string \<Rightarrow> flow_step_record \<Rightarrow> flow_run_record flow_action" where
  "fold_recorded run m c s =
     (case find_node m c of
        None \<Rightarrow> raise_a (KeyError (flow_id m) c)
      | Some n \<Rightarrow>
          (let ns = dset (KStr (node_id n))
                      (PDict [(KStr ''output'', (case step_output s of Some d \<Rightarrow> PDict d | None \<Rightarrow> PNone))])
                      (nodes_of (run_state run));
               st = (run_state run)\<lparr>st_nodes := Some ns\<rparr>
           in case select_next_node m n (build_eval_state (run_input run) ns) of
                Inl err \<Rightarrow> route_failure (run_id run) st (node_id n) err
              | Inr nxt \<Rightarrow>
                  then_a (update_run (run_id run) None None (Some (st\<lparr>st_cursor := Some nxt\<rparr>)) None)
                  (then_a (append_event (run_id run) (StepCompleted (node_id n) (step_id s) (step_attempt s) nxt True))
                  (require_run (run_id run)))))"

definition reconcile_crash_window :: "flow_engine \<Rightarrow> flow_run_record \<Rightarrow> flow_run_record flow_action" where
  "reconcile_crash_window eng run =
     (case live_cursor (run_state run) of
        None \<Rightarrow> return_a run
      | Some c \<Rightarrow>
          bind_a (gets_a (list_steps (run_id run))) (\<lambda>all.
          let completed = filter (\<lambda>s. step_node_id s = c \<and> step_status s = ''completed'') all in
          if completed = [] then return_a run
          else bind_a (gets_a (list_events (run_id run))) (\<lambda>evs.
            if step_id (last completed) \<in> completed_event_steps evs then return_a run
            else bind_a (resolve_action eng (run_flow_id run) (run_flow_version run)) (\<lambda>m.
              fold_recorded run m c (last completed)))))"

definition resume_run :: "flow_engine \<Rightarrow> string \<Rightarrow> flow_run_record flow_action" where
  "resume_run eng rid =
     bind_a (gets_a (get_run rid None)) (\<lambda>r.
     case r of
       None \<Rightarrow> raise_a (UnknownRun rid)
     | Some run \<Rightarrow>
         if run_status run \<in> set TERMINAL_RUN_STATUSES then raise_a (TerminalRun rid (run_status run))
         else bind_a (gets_a (list_steps rid)) (\<lambda>all.
           then_a (each_a (\<lambda>s. if step_status s = ''running''
                             then complete_step (step_id s) ''failed'' None ''interrupted: attempt superseded by resume''
                             else return_a ()) all)
           (bind_a (reconcile_crash_window eng run) (\<lambda>run'.
            if run_status run' \<in> set TERMINAL_RUN_STATUSES then return_a run'
            else then_a (append_event rid (RunResumed (run_flow_id run') (run_flow_version run') (cursor_of (run_state run'))))
                   (execute_run eng (run_id run') None)))))"

definition replay_run :: "flow_engine \<Rightarrow> string \<Rightarrow> flow_replay_report flow_action" where
  "replay_run eng rid =
     bind_a (gets_a (get_run rid None)) (\<lambda>r.
     case r of
       None \<Rightarrow> raise_a (UnknownRun rid)
     | Some run \<Rightarrow>
         if run_status run \<notin> set TERMINAL_RUN_STATUSES then raise_a (NotTerminalRun rid (run_status run))
         else bind_a (resolve_action eng (run_flow_id run) (run_flow_version run)) (\<lambda>m.
           bind_a (gets_a (list_steps rid)) (\<lambda>all.
           bind_a (lift_a (replay_decision_path (eng_env eng) m run all)) (\<lambda>report.
           then_a (append_event rid (RunReplayed report)) (return_a report)))))"

end
