(* ===== verification/Flow_Engine_Laws.thy ===== *)
theory Flow_Engine_Laws
  imports Flow_Engine
begin

text \<open>
  The laws of the flow engine, proved with weakest preconditions over the view of one run
  (\<open>run_at\<close>): failing, pausing, attempting and finishing a node activation, and the loop. The
  invariant of the loop is that the completed steps of the run, folded along the manifest's routing
  decisions, give the state in memory; at every stop it is what replay verifies.
\<close>

subsection \<open>Clock and store of the engine\<close>

lemma wp_read_clock [simp]:
  "wp read_clock Q E w = Q (clock_src w (clock_reads w)) (w\<lparr>clock_reads := Suc (clock_reads w)\<rparr>)"
  by (simp add: read_clock_def)

lemma wp_sleeper [simp]: "wp (sleeper d) Q E w = Q () (w\<lparr>slept := slept w @ [d]\<rparr>)"
  by (simp add: sleeper_def)

lemma read_clock_wp: "run_at rid R S Es w \<Longrightarrow> wp read_clock (\<lambda>_. run_at rid R S Es) E w"
  by simp

lemma wp_require_run: "run_at rid R S Es w \<Longrightarrow> wp (require_run rid) Q E w = Q R w"
  by (simp add: require_run_def run_atD(3))

text \<open>The fields of a run that no operation of the engine changes.\<close>

definition same_run :: "flow_run_record \<Rightarrow> flow_run_record \<Rightarrow> bool" where
  "same_run R R' \<longleftrightarrow> run_id R' = run_id R \<and> run_flow_id R' = run_flow_id R \<and> run_flow_version R' = run_flow_version R \<and>
     run_tenant_id R' = run_tenant_id R \<and> run_trigger R' = run_trigger R \<and> run_input R' = run_input R \<and>
     parent_run_id R' = parent_run_id R \<and> created_at R' = created_at R"

lemma same_run_refl [simp]: "same_run R R"
  by (simp add: same_run_def)

lemma same_run_patch [simp]: "same_run R (patch_run t st reason s p R)"
  by (simp add: same_run_def)

lemma same_run_trans: "same_run A B \<Longrightarrow> same_run B C \<Longrightarrow> same_run A C"
  by (simp add: same_run_def)

definition settled :: "flow_run_record \<Rightarrow> flow_run_record \<Rightarrow> string \<Rightarrow> string \<Rightarrow> run_state \<Rightarrow> bool" where
  "settled R r status reason st \<longleftrightarrow> same_run R r \<and> run_status r = status \<and> stop_reason r = reason \<and> run_state r = st"

lemma update_run_wp:
  assumes "run_at rid R S Es w" and "status \<in> set RUN_STATUSES" and "json_state st = Some st"
  shows "wp (update_run rid (Some status) reason (Some st) None)
    (\<lambda>_ w'. \<exists>R'. run_at rid R' S Es w' \<and>
       settled R R' status (case reason of None \<Rightarrow> stop_reason R | Some x \<Rightarrow> x) st) E w"
  by (rule wp_mono [OF run_at_update_run [OF assms(1), of "Some status" "Some st" "Some st" None None]])
    (use assms in \<open>auto simp: json_opt_def settled_def\<close>)

lemma checkpoint_wp:
  assumes "run_at rid R S Es w" and "json_state st = Some st"
  shows "wp (update_run rid None None (Some st) None)
    (\<lambda>_ w'. \<exists>R'. run_at rid R' S Es w' \<and> settled R R' (run_status R) (stop_reason R) st) E w"
  by (rule wp_mono [OF run_at_update_run [OF assms(1), of None "Some st" "Some st" None None]])
    (use assms in \<open>auto simp: json_opt_def settled_def\<close>)

lemma fail_run_wp:
  assumes "run_at rid R S Es w" and "json_state st = Some st"
  shows "wp (fail_run rid st reason d)
    (\<lambda>r w'. \<exists>e. run_at rid r S (Es @ [e]) w' \<and> settled R r ''failed'' reason st \<and> event_payload e = RunFailed reason d) E w"
  unfolding fail_run_def
proof (rule wp_thenI [OF update_run_wp [OF assms(1) _ assms(2)]], goal_cases)
  case (2 x w1)
  then obtain R' where at: "run_at rid R' S Es w1" and R': "settled R R' ''failed'' reason st" by auto
  show ?case
    by (rule wp_thenI [OF run_at_append_event [OF at]]) (use R' in \<open>auto simp: wp_require_run\<close>)
qed (simp add: RUN_STATUSES_def)

lemma complete_run_wp:
  assumes "run_at (run_id run) R S Es w" and "json_state st = Some st" and "st_nodes st \<noteq> None"
  shows "wp (complete_run run m st)
    (\<lambda>r w'. \<exists>e. run_at (run_id run) r S (Es @ [e]) w' \<and> settled R r ''completed'' ''completed'' st \<and>
       run_output r = Some (final_output m st) \<and> event_payload e = RunCompleted (flow_id m) (final_output m st)) E w"
proof -
  from assms(3) obtain ns where ns: "st_nodes st = Some ns" by blast
  have "is_json (PDict (final_output m st))"
    unfolding final_output_def by (rule final_output_json) (use ns json_state_nodes [OF assms(2) ns] in \<open>simp_all add: nodes_of_def\<close>)
  then have json: "json_opt json_doc (Some (final_output m st)) = Some (Some (final_output m st))"
    by (simp add: json_opt_def json_doc_id del: is_json.simps)
  have upd: "wp (update_run (run_id run) (Some ''completed'') (Some ''completed'') (Some st) (Some (final_output m st)))
      (\<lambda>_ w'. \<exists>t. run_at (run_id run) (patch_run t (Some ''completed'') (Some ''completed'') (Some st)
          (Some (final_output m st)) R) S Es w') E w"
    by (rule run_at_update_run [OF assms(1) _ _ json]) (simp_all add: RUN_STATUSES_def json_opt_def assms(2))
  show ?thesis
    unfolding complete_run_def Let_def
  proof (rule wp_thenI [OF upd])
    fix w1
    assume "\<exists>t. run_at (run_id run) (patch_run t (Some ''completed'') (Some ''completed'') (Some st)
          (Some (final_output m st)) R) S Es w1"
    then obtain t where at: "run_at (run_id run) (patch_run t (Some ''completed'') (Some ''completed'') (Some st)
          (Some (final_output m st)) R) S Es w1" ..
    show "wp (then_a (append_event (run_id run) (RunCompleted (flow_id m) (final_output m st)))
         (then_a (emit_event ''flow.run.completed'' (run_tenant_id run) (run_id run) None) (require_run (run_id run))))
      (\<lambda>r w'. \<exists>e. run_at (run_id run) r S (Es @ [e]) w' \<and> settled R r ''completed'' ''completed'' st \<and>
       run_output r = Some (final_output m st) \<and> event_payload e = RunCompleted (flow_id m) (final_output m st)) E w1"
      by (rule wp_thenI [OF run_at_append_event [OF at]]) (auto simp: wp_require_run settled_def)
  qed
qed

lemma json_items_val: "json_items d acc = Some e \<Longrightarrow> (k, v) \<in> set d \<Longrightarrow> json_val v \<noteq> None"
  by (induction d arbitrary: acc) (auto split: option.splits)

lemma json_doc_dget: "json_doc d = Some e \<Longrightarrow> \<exists>v. json_val (dget_none d s) = Some v"
proof (cases "dget d s")
  case (Some v)
  assume "json_doc d = Some e"
  moreover from Some obtain k where "(k, v) \<in> set d" by (auto dest: dlookup_SomeD)
  ultimately have "json_val v \<noteq> None" unfolding json_doc_def by (rule json_items_val)
  with Some show ?thesis by (simp add: dget_none_def)
qed (simp add: dget_none_def)

lemma json_stateD:
  "json_state st = Some st' \<Longrightarrow>
   json_opt json_doc (st_nodes st) = Some (st_nodes st') \<and> json_opt json_pause (st_pause st) = Some (st_pause st')"
  by (auto simp: json_state_def split: option.splits)

lemma json_state_pause:
  assumes "json_state st = Some st" and "json_val (pause_expires p) = Some v"
  shows "json_state (st\<lparr>st_pause := Some p\<rparr>) = Some (st\<lparr>st_pause := Some (p\<lparr>pause_expires := v\<rparr>)\<rparr>)"
  using json_stateD [OF assms(1)] assms(2) by (simp add: json_state_def json_opt_def json_pause_def)

lemma pause_run_wp:
  assumes "run_at (run_id run) R (S @ [s0]) Es w" and "step_id s0 = step_id s" and "json_state st = Some st"
  shows "wp (pause_run run n s st out)
    (\<lambda>r w'. \<exists>e s' st'. run_at (run_id run) r (S @ [s']) (Es @ [e]) w' \<and> settled R r ''waiting_human'' (stop_reason R) st' \<and>
       step_status s' = ''waiting_human'' \<and> step_id s' = step_id s \<and> step_node_id s' = step_node_id s0 \<and>
       step_input s' = step_input s0 \<and> (\<exists>p. st' = st\<lparr>st_pause := Some p\<rparr> \<and> pause_node p = node_id n \<and> pause_step p = step_id s))
    (\<lambda>e _. e = NotSerializable \<and> json_doc (outcome_output out) = None) w"
proof (cases "json_doc (outcome_output out)")
  case None
  then show ?thesis by (simp add: pause_run_def complete_step_def STEP_STATUSES_def json_opt_def)
next
  case (Some d)
  let ?x = "dget_none (outcome_output out) ''expiresAt''"
  let ?st = "st\<lparr>st_pause := Some \<lparr>pause_node = node_id n, pause_step = step_id s, pause_expires = ?x\<rparr>\<rparr>"
  obtain v where v: "json_val ?x = Some v" using json_doc_dget [OF Some] by blast
  let ?st' = "st\<lparr>st_pause := Some \<lparr>pause_node = node_id n, pause_step = step_id s, pause_expires = v\<rparr>\<rparr>"
  have st: "json_opt json_state (Some ?st) = Some (Some ?st')"
    using json_state_pause [OF assms(3), of "\<lparr>pause_node = node_id n, pause_step = step_id s, pause_expires = ?x\<rparr>"] v
    by (simp add: json_opt_def)
  show ?thesis
    unfolding pause_run_def Let_def assms(2) [symmetric]
  proof (rule wp_thenI [OF run_at_complete_step [OF assms(1), where p = "Some d"]], goal_cases)
    case (3 x w1)
    then obtain t where "run_at (run_id run) R (S @ [s0\<lparr>step_status := ''waiting_human'', step_output := Some d,
        step_error := [], step_completed_at := Some t\<rparr>]) Es w1" by blast
    then show ?case
    proof (rule wp_thenI [OF run_at_update_run [OF _ _ st [folded assms(2)], where p = None]], goal_cases)
      case (3 y w2)
      then obtain t' where at: "run_at (run_id run) (patch_run t' (Some ''waiting_human'') None (Some ?st') None R)
          (S @ [s0\<lparr>step_status := ''waiting_human'', step_output := Some d, step_error := [],
            step_completed_at := Some t\<rparr>]) Es w2" by (auto simp: assms(2))
      show ?case
        by (rule wp_thenI [OF run_at_append_event [OF at]])
          (fastforce simp: wp_require_run settled_def assms(2))
    qed (simp_all add: RUN_STATUSES_def json_opt_def)
  qed (simp_all add: STEP_STATUSES_def json_opt_def Some)
qed

subsection \<open>Attempts\<close>

definition failed_attempts :: "flow_node \<Rightarrow> int \<Rightarrow> flow_step_record list \<Rightarrow> bool" where
  "failed_attempts n a S1 \<longleftrightarrow>
     (\<forall>i<length S1. step_status (S1 ! i) = ''failed'' \<and> step_node_id (S1 ! i) = node_id n \<and>
        step_attempt (S1 ! i) = a + int i)"

lemma failed_attempts_Nil [simp]: "failed_attempts n a []"
  by (simp add: failed_attempts_def)

lemma failed_attempts_Cons [simp]:
  "failed_attempts n a (s # S1) \<longleftrightarrow>
     step_status s = ''failed'' \<and> step_node_id s = node_id n \<and> step_attempt s = a \<and> failed_attempts n (a + 1) S1"
  by (auto simp: failed_attempts_def All_less_Suc2 ac_simps)

lemma failed_attempts_completed:
  "failed_attempts n a S1 \<Longrightarrow> filter (\<lambda>s. step_status s = ''completed'') S1 = []"
  by (induction S1 arbitrary: a) auto

definition node_failure_reasons :: "string set" where
  "node_failure_reasons = {''unsupported_node'', ''budget_exhausted'', ''node_failed''}"

lemma failure_reason_cases: "failure_reason exc \<in> node_failure_reasons"
  by (cases exc) (simp_all add: failure_reason_def node_failure_reasons_def)

lemma invoke_handler_wp:
  assumes "handlers_isolated (eng_handlers eng)" and "run_at (run_id run) R S Es w"
  shows "wp (invoke_handler eng (step_context run m n st inp bud deadline))
    (\<lambda>_. run_at (run_id run) R S Es) (\<lambda>_. run_at (run_id run) R S Es) w"
proof (cases "eng_handlers eng (node_type n)")
  case (Some h)
  then have "isolated h" using assms(1) by (auto simp: handlers_isolated_def)
  then have "preserves (run_at (run_id run) R S Es) (h (step_context run m n st inp bud deadline))"
    unfolding isolated_def by (metis node_context.select_convs(3) step_context_def)
  with Some show ?thesis
    using assms(2) by (simp add: invoke_handler_def step_context_def handler_get_def preserves_wpD)
qed (use assms(2) in \<open>simp add: invoke_handler_def step_context_def handler_get_def\<close>)

definition attempt_post :: "nat \<Rightarrow> flow_run_record \<Rightarrow> flow_node \<Rightarrow> run_state \<Rightarrow> pydict \<Rightarrow> int \<Rightarrow> flow_run_record \<Rightarrow>
    flow_step_record list \<Rightarrow> attempt_result \<Rightarrow> world \<Rightarrow> bool" where
  "attempt_post k run n st j a R S res w \<longleftrightarrow>
     (\<exists>S1 Es. failed_attempts n a S1 \<and>
       (case res of
          Attempted s out \<Rightarrow> length S1 < k \<and> run_at (run_id run) R (S @ S1 @ [s\<lparr>step_input := j\<rparr>]) Es w \<and>
            step_node_id s = node_id n \<and> step_node_type s = node_type n \<and> step_status s = ''running'' \<and>
            step_run_id s = run_id run \<and> step_attempt s = a + int (length S1)
        | Stopped r \<Rightarrow> length S1 \<le> k \<and> run_at (run_id run) r (S @ S1) Es w \<and>
            settled R r ''failed'' (stop_reason r) st \<and> stop_reason r \<in> node_failure_reasons))"

lemma attempt_post_Cons:
  assumes "attempt_post k run n st j (a + 1) R (S @ [s]) res w"
    and "step_status s = ''failed''" "step_node_id s = node_id n" "step_attempt s = a"
  shows "attempt_post (Suc k) run n st j a R S res w"
proof -
  from assms(1) obtain S1 Es where *: "failed_attempts n (a + 1) S1"
    "case res of
          Attempted s' out \<Rightarrow> length S1 < k \<and> run_at (run_id run) R ((S @ [s]) @ S1 @ [s'\<lparr>step_input := j\<rparr>]) Es w \<and>
            step_node_id s' = node_id n \<and> step_node_type s' = node_type n \<and> step_status s' = ''running'' \<and>
            step_run_id s' = run_id run \<and> step_attempt s' = a + 1 + int (length S1)
        | Stopped r \<Rightarrow> length S1 \<le> k \<and> run_at (run_id run) r ((S @ [s]) @ S1) Es w \<and>
            settled R r ''failed'' (stop_reason r) st \<and> stop_reason r \<in> node_failure_reasons"
    unfolding attempt_post_def by blast
  have "failed_attempts n a (s # S1)" using *(1) assms(2-4) by simp
  then show ?thesis
    unfolding attempt_post_def by (intro exI [of _ "s # S1"] exI [of _ Es] conjI)
      (use *(2) in \<open>auto split: attempt_result.splits\<close>)
qed

lemma stop_attempt_wp:
  assumes "run_at (run_id run) R (S @ [s]) Es w" and "json_state st = Some st"
    and "step_status s = ''failed''" "step_node_id s = node_id n" "step_attempt s = a"
    and "reason \<in> node_failure_reasons"
  shows "wp (bind_a (fail_run (run_id run) st reason d) (\<lambda>r. return_a (Stopped r)))
    (attempt_post (Suc k) run n st j a R S) E w"
proof (rule wp_bindI [OF fail_run_wp [OF assms(1,2)]])
  fix r w'
  assume "\<exists>e. run_at (run_id run) r (S @ [s]) (Es @ [e]) w' \<and> settled R r ''failed'' reason st \<and> event_payload e = RunFailed reason d"
  moreover have "failed_attempts n a [s]" using assms(3-5) by simp
  ultimately show "wp (return_a (Stopped r)) (attempt_post (Suc k) run n st j a R S) E w'"
    using assms(6) unfolding wp_return attempt_post_def settled_def by (intro exI [of _ "[s]"]) auto
qed

lemma attempt_failed_wp:
  assumes "run_at (run_id run) R (S @ [s0]) Es w" and "json_state st = Some st" and "step_id s0 = step_id s"
    and "step_node_id s0 = node_id n" "step_attempt s0 = a"
    and again: "\<And>s1 Es w. a < max_attempts policy \<Longrightarrow> run_at (run_id run) R (S @ [s1]) Es w \<Longrightarrow>
      wp again (attempt_post k run n st j (a + 1) R (S @ [s1])) E w"
  shows "wp (attempt_failed run n st policy bud deadline a s again exc) (attempt_post (Suc k) run n st j a R S) E w"
  unfolding attempt_failed_def Let_def assms(3) [symmetric]
proof (rule wp_thenI [OF run_at_complete_step [OF assms(1), where p = None]], goal_cases)
  case (3 x w1)
  then obtain s1 where at: "run_at (run_id run) R (S @ [s1]) Es w1"
    and s1: "step_status s1 = ''failed''" "step_node_id s1 = node_id n" "step_attempt s1 = a"
    using assms(4,5) by force
  have retry: "wp again (attempt_post (Suc k) run n st j a R S) E w2"
    if "a < max_attempts policy" "run_at (run_id run) R (S @ [s1]) Es2 w2" for Es2 w2
    using again [OF that] by (rule wp_mono) (use s1 attempt_post_Cons in blast)+
  show ?case
  proof (rule wp_thenI [OF run_at_append_event [OF at]], goal_cases)
    case (1 e w2)
    then have at2: "run_at (run_id run) R (S @ [s1]) (Es @ [e]) w2" by blast
    let ?reason = "failure_reason exc"
    have stop: "wp (bind_a (fail_run (run_id run) st reason d) (\<lambda>r. return_a (Stopped r)))
        (attempt_post (Suc k) run n st j a R S) E w3"
      if "run_at (run_id run) R (S @ [s1]) (Es @ [e]) w3" "reason \<in> node_failure_reasons" for w3 reason d
      by (rule stop_attempt_wp [OF that(1) assms(2) s1 that(2)])
    show ?case
    proof (cases "?reason = ''node_failed'' \<and> a < max_attempts policy")
      case True
      have "wp (bind_a read_clock (\<lambda>t. if t + backoff_delay policy a > deadline
            then bind_a (fail_run (run_id run) st ''budget_exhausted''
                  (BackoffDetail (node_id n) (backoff_delay policy a) (max_wall_clock_sec bud))) (\<lambda>r. return_a (Stopped r))
            else then_a (sleeper (backoff_delay policy a)) again))
          (attempt_post (Suc k) run n st j a R S) E w3" if "run_at (run_id run) R (S @ [s1]) (Es @ [e]) w3" for w3
        by (rule wp_bindI [OF read_clock_wp [OF that]])
          (use True stop retry in \<open>simp add: node_failure_reasons_def del: wp_bind\<close>)
      with True at2 show ?thesis by (simp del: wp_bind)
    next
      case False
      then show ?thesis using stop [of _ ?reason] at2 failure_reason_cases [of exc] by (simp del: wp_bind)
    qed
  qed
qed (simp_all add: STEP_STATUSES_def json_opt_def)

lemma attempt_loop_wp:
  assumes "handlers_isolated (eng_handlers eng)" and "json_doc inp = Some j" and "json_state st = Some st"
    and "run_at (run_id run) R S Es w" and "0 < k" and "max_attempts policy < a + int k"
  shows "wp (attempt_loop k eng run m n st inp policy bud deadline a) (attempt_post k run n st j a R S) E w"
  using assms(4-6)
proof (induction k arbitrary: a S Es w)
  case (Suc k)
  let ?invoke = "\<lambda>s. try_a (invoke_handler eng (step_context run m n st inp bud deadline)) (\<lambda>out. return_a (Attempted s out))
      (attempt_failed run n st policy bud deadline a s (attempt_loop k eng run m n st inp policy bud deadline (a + 1)))"
  have attempt: "wp (?invoke s) (attempt_post (Suc k) run n st j a R S) E w2"
    if at2: "run_at (run_id run) R (S @ [s\<lparr>step_input := j\<rparr>]) Es2 w2"
      and s: "step_run_id s = run_id run" "step_node_id s = node_id n" "step_node_type s = node_type n"
        "step_status s = ''running''" "step_attempt s = a" for s Es2 w2
  proof (rule wp_tryI [OF invoke_handler_wp [OF assms(1) at2]], goal_cases)
    case (1 out w3)
    then show ?case
      using s unfolding wp_return attempt_post_def by (intro exI [of _ "[]"] exI [of _ Es2]) simp
  next
    case (2 exc w3)
    have "wp (attempt_loop k eng run m n st inp policy bud deadline (a + 1)) (attempt_post k run n st j (a + 1) R (S @ [s1])) E w4"
      if "a < max_attempts policy" "run_at (run_id run) R (S @ [s1]) Es4 w4" for s1 Es4 w4
      by (rule Suc.IH [OF that(2)]) (use Suc.prems that(1) in auto)
    then show ?case by (intro attempt_failed_wp [OF 2 assms(3)]) (use s in auto)
  qed
  show ?case
    unfolding attempt_loop.simps
  proof (rule wp_bindI [OF run_at_create_step [OF Suc.prems(1) assms(2)]], goal_cases)
    case (1 s w1)
    then have at1: "run_at (run_id run) R (S @ [s\<lparr>step_input := j\<rparr>]) Es w1" by blast
    show ?case
      by (rule wp_thenI [OF run_at_append_event [OF at1]]) (use attempt [of s] 1 in \<open>auto simp del: wp_try\<close>)
  qed
qed simp

subsection \<open>The trace of a run\<close>

definition completed_steps :: "flow_step_record list \<Rightarrow> flow_step_record list" where
  "completed_steps S = filter (\<lambda>s. step_status s = ''completed'') S"

text \<open>
  A trace is followed from a base: a number of completed steps, and the cursor and node outputs there.
  The \<open>origin\<close> of a run is before its first step. A human decision that edits earlier outputs, and
  an expired wait, start from a new base.
\<close>

type_synonym trace_base = "nat \<times> string option \<times> pydict"

definition origin :: "string \<Rightarrow> trace_base" where
  "origin entry = (0, Some entry, [])"

definition follow_from :: "py_env \<Rightarrow> flow_manifest \<Rightarrow> pydict \<Rightarrow> trace_base \<Rightarrow> flow_step_record list \<Rightarrow>
    (string option \<times> pydict) option" where
  "follow_from env m inp base C =
     (case base of (k, cur, ns) \<Rightarrow> if k \<le> length C then follow env m inp cur ns (drop k C) else None)"

lemma follow_from_origin [simp]: "follow_from env m inp (origin entry) C = follow env m inp (Some entry) [] C"
  by (simp add: follow_from_def origin_def)

lemma follow_from_append:
  "follow_from env m inp base C = Some (cur, ns) \<Longrightarrow> follow_from env m inp base (C @ D) = follow env m inp cur ns D"
  by (auto simp: follow_from_def follow_append split: prod.splits if_splits)

text \<open>The state in memory is the fold of the completed steps.\<close>

definition in_step :: "py_env \<Rightarrow> flow_manifest \<Rightarrow> trace_base \<Rightarrow> pydict \<Rightarrow> run_state \<Rightarrow> flow_step_record list \<Rightarrow> bool" where
  "in_step env m base inp st S \<longleftrightarrow>
     follow_from env m inp base (completed_steps S) = Some (cursor_of st, nodes_of st)"

text \<open>What replay verifies of a stopped run.\<close>

definition routing_failure_from :: "py_env \<Rightarrow> flow_manifest \<Rightarrow> flow_run_record \<Rightarrow> trace_base \<Rightarrow> flow_step_record list \<Rightarrow> bool" where
  "routing_failure_from env m r base C \<longleftrightarrow>
     (\<exists>xs s n cur' ns' err. C = xs @ [s] \<and> follow_from env m (run_input r) base xs = Some (cur', ns') \<and>
        step_matches env m (run_input r) cur' ns' s = Some n \<and>
        select_next_node m n (build_eval_state (run_input r) (fold_output s ns')) = Inl err \<and>
        stop_reason r \<in> {''predicate_error'', ''no_route''} \<and>
        cursor_of (run_state r) = Some (step_node_id s))"

lemma routing_failure_from_origin [simp]:
  "routing_failure_from env m r (origin entry) C = routing_failure_at_end env m r (Some entry) [] C"
  by (simp add: routing_failure_from_def routing_failure_at_end_def)

definition replays :: "py_env \<Rightarrow> flow_manifest \<Rightarrow> trace_base \<Rightarrow> flow_run_record \<Rightarrow> flow_step_record list \<Rightarrow> bool" where
  "replays env m base r S \<longleftrightarrow>
     (\<exists>ns. follow_from env m (run_input r) base (completed_steps S) = Some (cursor_of (run_state r), ns)) \<or>
     routing_failure_from env m r base (completed_steps S)"

definition state_ok :: "run_state \<Rightarrow> bool" where
  "state_ok st \<longleftrightarrow> json_state st = Some st \<and> st_nodes st \<noteq> None"

definition cursor_known :: "flow_manifest \<Rightarrow> run_state \<Rightarrow> bool" where
  "cursor_known m st \<longleftrightarrow> (\<forall>c. cursor_of st = Some c \<longrightarrow> find_node m c \<noteq> None)"

lemma json_state_iff:
  "json_state st = Some st \<longleftrightarrow>
     (\<forall>d. st_nodes st = Some d \<longrightarrow> is_json (PDict d)) \<and> (\<forall>p. st_pause st = Some p \<longrightarrow> is_json (pause_expires p))"
proof
  assume a: "json_state st = Some st"
  have "is_json (pause_expires p)" if "st_pause st = Some p" for p
  proof -
    have "json_pause p = Some p" using json_stateD [OF a] that by (simp add: json_opt_def split: option.splits)
    then have "json_val (pause_expires p) = Some (pause_expires p)"
      by (cases p) (auto simp: json_pause_def)
    then show ?thesis by (rule json_sound(1))
  qed
  then show "(\<forall>d. st_nodes st = Some d \<longrightarrow> is_json (PDict d)) \<and> (\<forall>p. st_pause st = Some p \<longrightarrow> is_json (pause_expires p))"
    using json_state_nodes [OF a] by blast
qed (blast intro: json_state_id)

lemma record_output_simps [simp]:
  "cursor_of (charge x (record_output nid out st)) = cursor_of st"
  "nodes_of (charge x (record_output nid out st)) = dset (KStr nid) (node_output_entry out) (nodes_of st)"
  "st_budget_cap (charge x (record_output nid out st)) = st_budget_cap st"
  by (simp_all add: charge_def record_output_def cursor_of_def nodes_of_def)

lemma state_ok_record:
  assumes "state_ok st" and "is_json (PDict out)"
  shows "state_ok (charge x (record_output nid out st))"
proof -
  from assms(1) obtain ns where "st_nodes st = Some ns" "is_json (PDict ns)" by (auto simp: state_ok_def json_state_iff)
  moreover from this have "is_json (PDict (dset (KStr nid) (node_output_entry out) ns))"
    using assms(2) by (intro is_json_dset) (simp_all add: node_output_entry_def)
  ultimately show ?thesis using assms(1)
    by (auto simp: state_ok_def json_state_iff charge_def record_output_def nodes_of_def simp del: is_json.simps)
qed

lemma completed_steps_attempts:
  assumes "failed_attempts n a S1"
  shows "completed_steps (S @ S1 @ [s]) = completed_steps S @ (if step_status s = ''completed'' then [s] else [])"
  using failed_attempts_completed [OF assms] by (simp add: completed_steps_def)

lemma completed_steps_failed: "failed_attempts n a S1 \<Longrightarrow> completed_steps (S @ S1) = completed_steps S"
  by (simp add: completed_steps_def failed_attempts_completed)

text \<open>A stop that changes neither the cursor nor the completed steps replays.\<close>

lemma replays_settled:
  assumes "in_step env m base (run_input R) st S" and "settled R r status reason st'" and "cursor_of st' = cursor_of st"
    and "completed_steps S' = completed_steps S"
  shows "replays env m base r S'"
  using assms by (auto simp: replays_def in_step_def settled_def same_run_def)

text \<open>A completed step of the node at the cursor matches the trace.\<close>

lemma step_matches_live:
  assumes "find_node m (node_id n) = Some n" and "cursor_of st = Some (node_id n)"
    and "render_step_input env n (build_eval_state inp (nodes_of st)) = Inr d" and "is_json (PDict d)"
    and "step_node_id s = node_id n" and "step_input s = d"
  shows "step_matches env m inp (cursor_of st) (nodes_of st) s = Some n"
  using assms py_eq_refl_json(1) [OF assms(4)] by (simp add: step_matches_Some del: py_eq.simps is_json.simps)

lemma in_step_next:
  assumes "in_step env m base inp st S" and "step_matches env m inp (cursor_of st) (nodes_of st) s = Some n"
    and "select_next_node m n (build_eval_state inp (fold_output s (nodes_of st))) = Inr (cursor_of st')"
    and "nodes_of st' = fold_output s (nodes_of st)" and "completed_steps S' = completed_steps S @ [s]"
  shows "in_step env m base inp st' S'"
  using assms by (simp add: in_step_def follow_from_append)

lemma replays_route_failure:
  assumes "in_step env m base (run_input r) st S"
    and "step_matches env m (run_input r) (cursor_of st) (nodes_of st) s = Some n"
    and "select_next_node m n (build_eval_state (run_input r) (fold_output s (nodes_of st))) = Inl err"
    and "stop_reason r \<in> {''predicate_error'', ''no_route''}" and "cursor_of (run_state r) = Some (step_node_id s)"
    and "completed_steps S' = completed_steps S @ [s]"
  shows "replays env m base r S'"
  using assms unfolding replays_def routing_failure_from_def in_step_def by blast

subsection \<open>One node activation\<close>

text \<open>A run that waits at a human node: its last step is the wait, at the cursor.\<close>

definition awaiting :: "py_env \<Rightarrow> flow_manifest \<Rightarrow> trace_base \<Rightarrow> flow_run_record \<Rightarrow> flow_step_record list \<Rightarrow> bool" where
  "awaiting env m base r S \<longleftrightarrow>
     (\<exists>S0 s n p. S = S0 @ [s] \<and> step_status s = ''waiting_human'' \<and> st_pause (run_state r) = Some p \<and>
        pause_node p = node_id n \<and> pause_step p = step_id s \<and> find_node m (node_id n) = Some n \<and>
        state_ok (run_state r) \<and> st_cursor (run_state r) \<noteq> None \<and>
        in_step env m base (run_input r) (run_state r) S0 \<and>
        step_matches env m (run_input r) (cursor_of (run_state r)) (nodes_of (run_state r)) s = Some n)"

definition stopped_at :: "py_env \<Rightarrow> flow_manifest \<Rightarrow> trace_base \<Rightarrow> flow_run_record \<Rightarrow> flow_run_record \<Rightarrow> world \<Rightarrow> bool" where
  "stopped_at env m base R r w \<longleftrightarrow>
     (\<exists>S Es. run_at (run_id R) r S Es w \<and> same_run R r \<and> run_status r \<in> {''failed'', ''waiting_human''} \<and>
        replays env m base r S \<and> (run_status r = ''waiting_human'' \<longrightarrow> awaiting env m base r S))"

definition advanced :: "py_env \<Rightarrow> flow_manifest \<Rightarrow> trace_base \<Rightarrow> flow_run_record \<Rightarrow> run_state \<Rightarrow> world \<Rightarrow> bool" where
  "advanced env m base R st w \<longleftrightarrow>
     (\<exists>R' S Es. run_at (run_id R) R' S Es w \<and> same_run R R' \<and> run_status R' = run_status R \<and>
        stop_reason R' = stop_reason R \<and> state_ok st \<and>
        in_step env m base (run_input R) st S)"

lemma stopped_atI:
  "run_at (run_id R) r S Es w \<Longrightarrow> settled R r status reason st \<Longrightarrow> status \<in> {''failed'', ''waiting_human''} \<Longrightarrow>
   replays env m base r S \<Longrightarrow> (status = ''waiting_human'' \<Longrightarrow> awaiting env m base r S) \<Longrightarrow> stopped_at env m base R r w"
  unfolding stopped_at_def settled_def by blast

lemma route_failure_wp:
  assumes "run_at rid R S Es w" and "json_state st = Some st"
  shows "wp (route_failure rid st nid err)
    (\<lambda>r w'. \<exists>Es'. run_at rid r S Es' w' \<and> settled R r ''failed'' (stop_reason r) st \<and>
       stop_reason r \<in> {''predicate_error'', ''no_route''}) E w"
  unfolding route_failure_def
  by (cases err; simp; rule wp_mono [OF fail_run_wp [OF assms]]) (auto simp: settled_def)

lemma finish_step_wp:
  assumes at: "run_at (run_id run) R (S @ S1 @ [s0]) Es w" and run: "run_id run = run_id R" "run_input run = run_input R"
    and st: "state_ok st" and s1: "failed_attempts n a S1" and s0: "step_id s0 = step_id s" "step_node_id s0 = node_id n" "step_input s0 = d"
    and trace: "in_step env m base (run_input R) st S"
    and node: "find_node m (node_id n) = Some n" "cursor_of st = Some (node_id n)"
    and d: "render_step_input env n (build_eval_state (run_input R) (nodes_of st)) = Inr d" "is_json (PDict d)"
  shows "wp (finish_step run m n st s out)
    (\<lambda>p. case fst p of None \<Rightarrow> advanced env m base R (snd p) | Some r \<Rightarrow> stopped_at env m base R r) E w"
proof -
  have at': "run_at (run_id R) R ((S @ S1) @ [s0]) Es w" using at run by simp
  have ok: "json_state st = Some st" using st by (simp add: state_ok_def)
  show ?thesis
  proof (cases "canonical_output (outcome_output out)")
    case None
    show ?thesis
      unfolding finish_step_def None option.case s0(1) [symmetric] run(1)
    proof (rule wp_thenI [OF run_at_complete_step [OF at', where p = None]], goal_cases)
      case (3 x w1)
      then obtain s' where at1: "run_at (run_id R) R ((S @ S1) @ [s']) Es w1" and "step_status s' = ''failed''" by force
      then have "completed_steps ((S @ S1) @ [s']) = completed_steps S"
        using completed_steps_attempts [OF s1] by simp
      then show ?case
        by (intro wp_bindI [OF fail_run_wp [OF at1 ok]])
          (auto simp del: append_assoc intro!: stopped_atI intro: replays_settled [OF trace])
    qed (simp_all add: STEP_STATUSES_def json_opt_def)
  next
    case (Some o1)
    then have jo: "is_json (PDict o1)" by (simp add: canonical_output_json_doc json_doc_sound del: is_json.simps)
    let ?st1 = "charge (outcome_metrics out) (record_output (node_id n) o1 st)"
    have ok1: "state_ok ?st1" by (rule state_ok_record [OF st jo])
    show ?thesis
      unfolding finish_step_def Some option.case s0(1) [symmetric] run Let_def
    proof (rule wp_thenI [OF run_at_complete_step [OF at', where p = "Some o1"]], goal_cases)
      case (3 x w1)
      then obtain s' where at1: "run_at (run_id R) R ((S @ S1) @ [s']) Es w1"
        and s': "step_status s' = ''completed''" "step_output s' = Some o1" "step_node_id s' = node_id n" "step_input s' = d"
        using s0 by force
      have cs: "completed_steps ((S @ S1) @ [s']) = completed_steps S @ [s']"
        using completed_steps_attempts [OF s1] s'(1) by simp
      have fold: "fold_output s' (nodes_of st) = nodes_of ?st1"
        by (simp add: fold_output_def step_output_doc_def s')
      have matches: "step_matches env m (run_input R) (cursor_of st) (nodes_of st) s' = Some n"
        by (rule step_matches_live [OF node d s'(3,4)])
      show ?case
      proof (cases "select_next_node m n (build_eval_state (run_input R) (nodes_of ?st1))")
        case (Inl err)
        show ?thesis
          unfolding Inl sum.case
        proof (rule wp_bindI [OF route_failure_wp [OF at1]], goal_cases)
          case (2 r w2)
          then obtain Es' where r: "run_at (run_id R) r ((S @ S1) @ [s']) Es' w2" "settled R r ''failed'' (stop_reason r) ?st1"
            "stop_reason r \<in> {''predicate_error'', ''no_route''}" by blast
          then have "run_input r = run_input R" "run_state r = ?st1" by (auto simp: settled_def same_run_def)
          then have "replays env m base r ((S @ S1) @ [s'])"
            by (intro replays_route_failure [OF _ _ _ r(3) _ cs, where st = st and n = n and err = err])
              (use trace matches Inl fold node s' in simp_all)
          with r show ?case by (auto simp del: append_assoc intro: stopped_atI)
        qed (use ok1 in \<open>simp add: state_ok_def\<close>)
      next
        case (Inr nxt)
        let ?st2 = "?st1\<lparr>st_cursor := Some nxt\<rparr>"
        have ok2: "state_ok ?st2" using ok1 by (simp add: state_ok_def json_state_iff)
        have c2: "cursor_of ?st2 = nxt" "nodes_of ?st2 = nodes_of ?st1" by (simp_all add: cursor_of_def nodes_of_def)
        have trace2: "in_step env m base (run_input R) ?st2 ((S @ S1) @ [s'])"
          by (rule in_step_next [OF trace matches _ _ cs]) (use Inr fold c2 in simp_all)
        show ?thesis
          unfolding Inr sum.case
        proof (rule wp_thenI [OF checkpoint_wp [OF at1]], goal_cases)
          case (2 y w2)
          then obtain R' where at2: "run_at (run_id R) R' ((S @ S1) @ [s']) Es w2" and R': "settled R R' (run_status R) (stop_reason R) ?st2"
            by blast
          show ?case
            by (rule wp_thenI [OF run_at_append_event [OF at2]])
              (use R' ok2 trace2 in \<open>auto simp: advanced_def settled_def simp del: append_assoc\<close>)
        qed (use ok2 in \<open>simp add: state_ok_def\<close>)
      qed
    qed (use jo in \<open>simp_all add: STEP_STATUSES_def json_opt_def json_doc_id del: is_json.simps\<close>)
  qed
qed

definition bindings_json :: "flow_manifest \<Rightarrow> bool" where
  "bindings_json m \<longleftrightarrow> (\<forall>n\<in>set (nodes m). is_json (PDict (input_bindings n)))"

lemma pause_stops_wp:
  assumes at: "run_at (run_id run) R (S @ S1 @ [s0]) Es w" and run: "run_id run = run_id R" and ok: "state_ok st"
    and s1: "failed_attempts n a S1" and s0: "step_id s0 = step_id s" "step_node_id s0 = node_id n" "step_input s0 = d"
    and trace: "in_step env m base (run_input R) st S"
    and node: "find_node m (node_id n) = Some n" "cursor_of st = Some (node_id n)"
    and d: "render_step_input env n (build_eval_state (run_input R) (nodes_of st)) = Inr d" "is_json (PDict d)"
  shows "wp (bind_a (pause_run run n s st out) (\<lambda>r. return_a (Some r, st)))
    (\<lambda>p. case fst p of None \<Rightarrow> advanced env m base R (snd p) | Some r \<Rightarrow> stopped_at env m base R r)
    (\<lambda>e _. e = NotSerializable) w"
proof -
  have at': "run_at (run_id run) R ((S @ S1) @ [s0]) Es w" using at by simp
  have js: "json_state st = Some st" using ok by (simp add: state_ok_def)
  have "wp (pause_run run n s st out) (stopped_at env m base R) (\<lambda>e _. e = NotSerializable) w"
  proof (rule wp_mono [OF pause_run_wp [OF at' s0(1) js]], goal_cases)
    case (1 r w2)
    then obtain e s' st' p where r: "run_at (run_id R) r ((S @ S1) @ [s']) (Es @ [e]) w2"
      "settled R r ''waiting_human'' (stop_reason R) st'" and s': "step_status s' = ''waiting_human''" "step_id s' = step_id s"
      "step_node_id s' = node_id n" "step_input s' = d"
      and st': "st' = st\<lparr>st_pause := Some p\<rparr>" "pause_node p = node_id n" "pause_step p = step_id s"
      using run s0 by auto
    have k: "cursor_of st' = cursor_of st" "nodes_of st' = nodes_of st" by (simp_all add: st' cursor_of_def nodes_of_def)
    have r': "run_state r = st'" "run_input r = run_input R" using r(2) by (auto simp: settled_def same_run_def)
    have c: "completed_steps ((S @ S1) @ [s']) = completed_steps S" "completed_steps (S @ S1) = completed_steps S"
      using completed_steps_attempts [OF s1, of S s'] completed_steps_failed [OF s1, of S] s'(1) by simp_all
    have "json_state st' = Some st'" using run_at_json_state [OF r(1)] r' by simp
    then have "state_ok st'" "st_cursor st' \<noteq> None" using ok node(2) by (auto simp: state_ok_def st' cursor_of_def split: option.splits)
    moreover have "in_step env m base (run_input R) st' (S @ S1)" using trace by (simp add: in_step_def c k)
    moreover have "step_matches env m (run_input R) (cursor_of st') (nodes_of st') s' = Some n"
      unfolding k by (rule step_matches_live [OF node d s'(3,4)])
    ultimately have "awaiting env m base r ((S @ S1) @ [s'])"
      unfolding awaiting_def r' using s' st' node(1) by (intro exI [of _ "S @ S1"] exI [of _ s'] exI [of _ n] exI [of _ p]) simp
    moreover have "replays env m base r ((S @ S1) @ [s'])" by (rule replays_settled [OF trace r(2) k(1) c(1)])
    ultimately show ?case by (intro stopped_atI [OF r(1,2)]) simp_all
  qed auto
  then show ?thesis by (rule wp_bindI) simp
qed

lemma after_attempts_wp:
  assumes post: "attempt_post k run n st d 1 R S res w" and run: "run_id run = run_id R" "run_input run = run_input R"
    and st: "state_ok st" and trace: "in_step env m base (run_input R) st S"
    and node: "find_node m (node_id n) = Some n" "cursor_of st = Some (node_id n)"
    and d: "render_step_input env n (build_eval_state (run_input R) (nodes_of st)) = Inr d" "is_json (PDict d)"
  shows "wp (case res of Stopped r \<Rightarrow> return_a (Some r, st)
      | Attempted s out \<Rightarrow>
          if outcome_status out = ''waiting_human'' then bind_a (pause_run run n s st out) (\<lambda>r. return_a (Some r, st))
          else finish_step run m n st s out)
    (\<lambda>p. case fst p of None \<Rightarrow> advanced env m base R (snd p) | Some r \<Rightarrow> stopped_at env m base R r)
    (\<lambda>e _. e = NotSerializable) w"
proof (cases res)
  case (Stopped r)
  with post obtain S1 Es1 where s1: "failed_attempts n 1 S1"
    and r: "run_at (run_id R) r (S @ S1) Es1 w" "settled R r ''failed'' (stop_reason r) st"
    using run by (auto simp: attempt_post_def)
  have "replays env m base r (S @ S1)"
    by (rule replays_settled [OF trace r(2) refl completed_steps_failed [OF s1]])
  then have "stopped_at env m base R r w" by (intro stopped_atI [OF r]) simp_all
  then show ?thesis by (simp add: Stopped)
next
  case (Attempted s out)
  with post obtain S1 Es1 where s1: "failed_attempts n 1 S1" and s: "step_node_id s = node_id n"
    and at1: "run_at (run_id run) R (S @ S1 @ [s\<lparr>step_input := d\<rparr>]) Es1 w"
    by (auto simp: attempt_post_def)
  show ?thesis
  proof (cases "outcome_status out = ''waiting_human''")
    case True
    show ?thesis
      unfolding Attempted attempt_result.case if_P [OF True]
      by (rule pause_stops_wp [OF at1 run(1) st s1 _ _ _ trace node d]) (use s in simp_all)
  next
    case False
    show ?thesis
      unfolding Attempted attempt_result.case if_not_P [OF False]
      by (intro finish_step_wp [OF at1 run st s1 _ _ _ trace node d]) (use s in simp_all)
  qed
qed

lemma activate_node_wp:
  assumes at: "run_at (run_id R) R S Es w" and run: "run_id run = run_id R" "run_input run = run_input R"
    and iso: "handlers_isolated (eng_handlers eng)" and st: "state_ok st" and json: "bindings_json m"
    and trace: "in_step (eng_env eng) m base (run_input R) st S"
    and node: "find_node m (node_id n) = Some n" "cursor_of st = Some (node_id n)"
  shows "wp (activate_node eng run m n st bud deadline)
    (\<lambda>p. case fst p of None \<Rightarrow> advanced (eng_env eng) m base R (snd p) | Some r \<Rightarrow> stopped_at (eng_env eng) m base R r)
    (\<lambda>e _. e = NotSerializable) w"
proof -
  have ok: "json_state st = Some st" using st by (simp add: state_ok_def)
  have "is_json (PDict (nodes_of st))" using st by (auto simp: state_ok_def json_state_iff nodes_of_def simp del: is_json.simps)
  moreover have "is_json (PDict (run_input R))" using run_atD(7) [OF at] by (simp add: run_row_ok_def)
  ultimately have eval: "is_json (build_eval_state (run_input R) (nodes_of st))" by (intro build_eval_state_json)
  have bind: "is_json (PDict (input_bindings n))" using json find_node_SomeD [OF node(1)] by (simp add: bindings_json_def)
  show ?thesis
  proof (cases "render_step_input (eng_env eng) n (build_eval_state (run_input R) (nodes_of st))")
    case (Inl err)
    show ?thesis
      unfolding activate_node_def run Inl sum.case
      by (intro wp_bindI [OF fail_run_wp [OF at ok]])
        (auto intro!: stopped_atI intro: replays_settled [OF trace])
  next
    case (Inr d)
    have d: "is_json (PDict d)" by (rule render_step_input_json [OF bind eval Inr])
    have at': "run_at (run_id run) R S Es w" using at run by simp
    show ?thesis
      unfolding activate_node_def run(2) Inr sum.case Let_def
    proof (rule wp_bindI [OF attempt_loop_wp [OF iso json_doc_id [OF d] ok at']], goal_cases)
      case (3 res w1)
      then show ?case by (rule after_attempts_wp [OF _ run st trace node Inr d])
    qed (auto simp: max_def)
  qed
qed

subsection \<open>The loop\<close>

definition targets_known :: "flow_manifest \<Rightarrow> bool" where
  "targets_known m \<longleftrightarrow> (\<forall>e\<in>set (edges m). find_node m (target e) \<noteq> None)"

lemma follow_cursor_known:
  assumes "targets_known m" and "follow env m inp cur ns ss = Some (Some c, ns')"
    and "\<And>c. cur = Some c \<Longrightarrow> find_node m c \<noteq> None"
  shows "find_node m c \<noteq> None"
  using assms(2,3)
proof (induction ss arbitrary: cur ns)
  case (Cons s ss)
  then obtain n nxt where n: "select_next_node m n (build_eval_state inp (fold_output s ns)) = Inr nxt"
    "follow env m inp nxt (fold_output s ns) ss = Some (Some c, ns')"
    by (auto split: option.splits sum.splits)
  have "find_node m t \<noteq> None" if "nxt = Some t" for t
    using n(1) assms(1) unfolding that targets_known_def by (auto elim!: select_next_node_Some)
  then show ?case by (rule Cons.IH [OF n(2)])
qed simp

definition base_known :: "flow_manifest \<Rightarrow> trace_base \<Rightarrow> bool" where
  "base_known m base \<longleftrightarrow> (case base of (k, cur, ns) \<Rightarrow> \<forall>c. cur = Some c \<longrightarrow> find_node m c \<noteq> None)"

lemma base_known_origin [simp]: "base_known m (origin entry) \<longleftrightarrow> find_node m entry \<noteq> None"
  by (simp add: base_known_def origin_def)

lemma in_step_cursor_known:
  assumes "targets_known m" and "base_known m base" and "in_step env m base inp st S" and "cursor_of st = Some c"
  shows "find_node m c \<noteq> None"
  using assms(2-4) follow_cursor_known [OF assms(1)]
  by (auto simp: in_step_def follow_from_def base_known_def split: prod.splits if_splits)

text \<open>How the loop leaves the store: the run is stopped, it replays, and if it completed it is within its budgets.\<close>

definition within_budgets :: "flow_budgets \<Rightarrow> run_state \<Rightarrow> bool" where
  "within_budgets b st \<longleftrightarrow> tokens (metrics_of st) \<le> of_int (max_tokens b) \<and> cost_usd (metrics_of st) \<le> max_cost_usd b"

definition finished :: "py_env \<Rightarrow> flow_manifest \<Rightarrow> trace_base \<Rightarrow> flow_budgets \<Rightarrow> flow_run_record \<Rightarrow> flow_run_record \<Rightarrow> world \<Rightarrow> bool" where
  "finished env m base bud R r w \<longleftrightarrow>
     (\<exists>S Es. run_at (run_id R) r S Es w \<and> same_run R r \<and> run_status r \<in> {''completed'', ''failed'', ''waiting_human''} \<and>
        replays env m base r S \<and> (run_status r = ''waiting_human'' \<longrightarrow> awaiting env m base r S) \<and>
        (run_status r = ''completed'' \<longrightarrow> within_budgets bud (run_state r)))"

lemma finished_mono: "same_run R0 R \<Longrightarrow> finished env m base bud R r w \<Longrightarrow> finished env m base bud R0 r w"
proof -
  assume a: "same_run R0 R" and "finished env m base bud R r w"
  then obtain S Es where "run_at (run_id R) r S Es w" "same_run R r"
    "run_status r \<in> {''completed'', ''failed'', ''waiting_human''}" "replays env m base r S"
    "run_status r = ''waiting_human'' \<longrightarrow> awaiting env m base r S"
    "run_status r = ''completed'' \<longrightarrow> within_budgets bud (run_state r)"
    unfolding finished_def by blast
  moreover have "run_id R = run_id R0" "same_run R0 r"
    using a \<open>same_run R r\<close> same_run_trans by (auto simp: same_run_def)
  ultimately show ?thesis unfolding finished_def by metis
qed

lemma fail_finishes_wp:
  assumes "run_at (run_id R) R S Es w" and "state_ok st" and "in_step env m base (run_input R) st S"
  shows "wp (fail_run (run_id R) st reason d) (finished env m base bud R) E w"
proof (rule wp_mono [OF fail_run_wp [OF assms(1)]], goal_cases)
  case (2 r w')
  then obtain e where r: "run_at (run_id R) r S (Es @ [e]) w'" "settled R r ''failed'' reason st" by blast
  have "replays env m base r S" by (rule replays_settled [OF assms(3) r(2)]) simp_all
  with r show ?case unfolding finished_def settled_def by auto
qed (use assms(2) in \<open>simp_all add: state_ok_def\<close>)

lemma complete_finishes_wp:
  assumes "run_at (run_id R) R S Es w" and "run_id run = run_id R" and "state_ok st"
    and "in_step env m base (run_input R) st S" and "within_budgets bud st"
  shows "wp (complete_run run m st) (finished env m base bud R) E w"
proof (rule wp_mono [OF complete_run_wp [OF assms(1) [folded assms(2)]]], goal_cases)
  case (3 r w')
  then obtain e where r: "run_at (run_id R) r S (Es @ [e]) w'" "settled R r ''completed'' ''completed'' st"
    using assms(2) by auto
  have "replays env m base r S" by (rule replays_settled [OF assms(4) r(2)]) simp_all
  with r assms(5) show ?case unfolding finished_def settled_def by auto
qed (use assms(3) in \<open>simp_all add: state_ok_def\<close>)

lemma drive_wp:
  assumes "handlers_isolated (eng_handlers eng)" and "bindings_json m" and "targets_known m" and "base_known m base"
    and "run_at (run_id R) R S Es w" and "run_id run = run_id R" and "run_input run = run_input R"
    and "state_ok st" and "in_step (eng_env eng) m base (run_input R) st S"
  shows "wp (drive eng run m bud started act st) (finished (eng_env eng) m base bud R) (\<lambda>e _. e = NotSerializable) w"
  using assms
proof (induction eng run m bud started act st arbitrary: R S Es w rule: drive.induct)
  case (1 eng run m bud started act st)
  note at = "1.prems"(5) and run = "1.prems"(6,7) and st = "1.prems"(8) and trace = "1.prems"(9)
  show ?case
  proof (cases "live_cursor st")
    case None
    show ?thesis
      unfolding drive.simps [of eng run m bud started act st] None option.case
    proof (rule wp_bindI [OF read_clock_wp [OF at]])
      fix t w1
      assume at1: "run_at (run_id R) R S Es w1"
      show "wp (case budget_violation bud st (t - started) 0 (eng_max_steps eng) of
              Some v \<Rightarrow> fail_run (run_id run) st ''budget_exhausted'' (BudgetDetail v)
            | None \<Rightarrow> complete_run run m st) (finished (eng_env eng) m base bud R) (\<lambda>e _. e = NotSerializable) w1"
      proof (cases "budget_violation bud st (t - started) 0 (eng_max_steps eng)")
        case None
        then have "within_budgets bud st" by (simp add: budget_violation_None within_budgets_def)
        then show ?thesis
          unfolding None option.case by (rule complete_finishes_wp [OF at1 run(1) st trace])
      qed (use fail_finishes_wp [OF at1 st trace] run in simp)
    qed
  next
    case (Some c)
    then have cur: "cursor_of st = Some c" by (auto simp: live_cursor_def split: option.splits if_splits)
    obtain n where n: "find_node m c = Some n" "node_id n = c"
      using in_step_cursor_known [OF "1.prems"(3,4) trace cur] find_node_SomeD by blast
    show ?thesis
      unfolding drive.simps [of eng run m bud started act st] Some option.case
    proof (rule wp_bindI [OF read_clock_wp [OF at]], goal_cases)
      case (1 t w1)
      show ?case
      proof (cases "budget_violation bud st (t - started) act (eng_max_steps eng)")
        case None
        note IH = "1.IH" [OF Some None n(1)]
        show ?thesis
          unfolding None option.case n(1)
        proof (rule wp_bindI [OF activate_node_wp [OF 1 run "1.prems"(1) st "1.prems"(2) trace]], goal_cases)
          case (3 p w2)
          show ?case
          proof (cases "fst p")
            case None
            with 3 obtain R' S' Es' where a: "run_at (run_id R) R' S' Es' w2" "same_run R R'" "state_ok (snd p)"
              "in_step (eng_env eng) m base (run_input R) (snd p) S'"
              by (auto simp: advanced_def)
            then have eq: "run_id R' = run_id R" "run_input R' = run_input R" by (simp_all add: same_run_def)
            have "wp (drive eng run m bud started (act + 1) (snd p)) (finished (eng_env eng) m base bud R')
                (\<lambda>e _. e = NotSerializable) w2"
              by (rule IH [OF None "1.prems"(1-4)]) (use a eq run in simp_all)
            then show ?thesis unfolding None option.case by (rule wp_mono) (simp_all add: finished_mono [OF a(2)])
          next
            case (Some r)
            with 3 show ?thesis by (auto simp: stopped_at_def finished_def)
          qed
        qed (use n cur in simp_all)
      qed (use fail_finishes_wp [OF 1 st trace] run in simp)
    qed
  qed
qed

end
