(* ===== verification/Flow_Runs.thy ===== *)
theory Flow_Runs
  imports Flow_Engine_Laws
begin

text \<open>
  The operations on whole runs: what replay reports, what a started run guarantees when it stops,
  that executing a terminal run changes nothing, and that resuming an interrupted run from any point
  at which the process may have died recovers it.
\<close>

subsection \<open>Replay reports\<close>

lemma replay_of_replays:
  assumes "entry_node m = Some e" and "replays env m (origin (node_id e)) r S"
  shows "\<exists>rep. replay_decision_path env m r S = Inr rep \<and> deterministic rep \<and> divergences rep = [] \<and>
    replayed_sequence rep = recorded_sequence rep"
proof -
  let ?c = "completed_steps S"
  from assms(2) consider (f) ns where "follow env m (run_input r) (Some (node_id e)) [] ?c = Some (cursor_of (run_state r), ns)"
    | (g) "routing_failure_at_end env m r (Some (node_id e)) [] ?c"
    unfolding replays_def by auto
  then show ?thesis
  proof cases
    case f
    from replay_loop_follow [OF f, of "length ?c" 0 "[]"] show ?thesis
      using assms(1) by (auto simp: replay_decision_path_def Let_def completed_steps_def)
  next
    case g
    then obtain xs s n cur' ns' err where x: "?c = xs @ [s]"
      "follow env m (run_input r) (Some (node_id e)) [] xs = Some (cur', ns')"
      "step_matches env m (run_input r) cur' ns' s = Some n"
      "select_next_node m n (build_eval_state (run_input r) (fold_output s ns')) = Inl err"
      "stop_reason r \<in> {''predicate_error'', ''no_route''}" "cursor_of (run_state r) = Some (step_node_id s)"
      unfolding routing_failure_at_end_def by blast
    from replay_loop_route_failure [OF x(2-6), of "length ?c" 0 "[]"] x(1)
    have "replay_loop env m r (length ?c) 0 ?c (Some (node_id e)) [] [] [] = Inr (True, cur', map step_node_id ?c, [])"
      by simp
    then show ?thesis using assms(1) by (auto simp: replay_decision_path_def Let_def completed_steps_def)
  qed
qed

lemma replays_of_replay:
  assumes "entry_node m = Some e" and "replay_decision_path env m r S = Inr rep" and "deterministic rep"
  shows "replays env m (origin (node_id e)) r S"
proof -
  let ?c = "completed_steps S"
  obtain early cur replayed divs where loop:
    "replay_loop env m r (length ?c) 0 ?c (Some (node_id e)) [] [] [] = Inr (early, cur, replayed, divs)"
    using assms(1,2) by (auto simp: replay_decision_path_def Let_def completed_steps_def bind_r_eq_Inr)
  then have divs: "divs = []" and fin: "early \<or> length replayed \<noteq> length ?c \<or> cur = cursor_of (run_state r)"
    using assms by (auto simp: replay_decision_path_def Let_def completed_steps_def split: if_splits)
  have *: "replayed = [] @ map step_node_id ?c \<and>
    (if early then routing_failure_at_end env m r (Some (node_id e)) [] ?c
     else \<exists>ns'. follow env m (run_input r) (Some (node_id e)) [] ?c = Some (cur, ns'))"
    by (rule replay_loop_follow_conv [OF loop [unfolded divs]]) simp
  then show ?thesis using fin unfolding replays_def by (auto split: if_splits)
qed

lemma replay_run_wp:
  assumes "run_at rid r S Es w" and "run_status r \<in> set TERMINAL_RUN_STATUSES"
    and "resolve (eng_lib eng) (run_flow_id r) (run_flow_version r) w = Inr m"
    and "entry_node m = Some e" and "replays (eng_env eng) m (origin (node_id e)) r S"
  shows "wp (replay_run eng rid) (\<lambda>rep w'. deterministic rep \<and> divergences rep = [] \<and> replayed_sequence rep = recorded_sequence rep \<and>
    (\<exists>ev. run_at rid r S (Es @ [ev]) w' \<and> event_payload ev = RunReplayed rep)) E w"
proof -
  obtain rep where rep: "replay_decision_path (eng_env eng) m r S = Inr rep" "deterministic rep"
    "divergences rep = []" "replayed_sequence rep = recorded_sequence rep"
    using replay_of_replays [OF assms(4,5)] by blast
  have "wp (append_event rid (RunReplayed rep)) (\<lambda>_ w'. \<exists>ev. run_at rid r S (Es @ [ev]) w' \<and> event_payload ev = RunReplayed rep) E w"
    by (rule wp_mono [OF run_at_append_event [OF assms(1)]]) auto
  then show ?thesis
    using assms(2,3) rep run_atD(3,4) [OF assms(1)] by (simp add: replay_run_def resolve_action_def)
qed

subsection \<open>Starting a run\<close>

lemma create_run_wp:
  assumes "store_inv w" and "ids_fresh w" and "is_json (PDict trig)" and "is_json (PDict inp)" and "json_state st = Some st"
  shows "wp (create_run fid ver tenant trig inp st parent None)
    (\<lambda>run w'. run_at (run_id run) run [] [] w' \<and> run_id run \<notin> run_id ` set (tbl_runs w) \<and> run_flow_id run = fid \<and> run_flow_version run = ver \<and>
       run_tenant_id run = tenant \<and> run_status run = ''pending'' \<and> run_trigger run = trig \<and> run_input run = inp \<and>
       run_state run = st \<and> parent_run_id run = parent \<and> tbl_flows w' = tbl_flows w) E w"
proof -
  define r where "r = \<lparr>run_id = str_nat (uuid_supply w), run_flow_id = fid, run_flow_version = ver, run_tenant_id = tenant,
    run_status = ''pending'', stop_reason = [], run_trigger = trig, run_input = inp, run_state = st, run_output = None,
    parent_run_id = parent, created_at = wall_src (draw w) (wall_reads (draw w)),
    updated_at = wall_src (tick (draw w)) (wall_reads (tick (draw w)))\<rparr>"
  let ?w' = "(tick (tick (draw w)))\<lparr>tbl_runs := tbl_runs w @ [r]\<rparr>"
  have id: "run_id r \<notin> run_id ` set (tbl_runs w)" using ids_freshD(1) [OF assms(2)] by (simp add: r_def)
  have json: "json_doc trig = Some trig" "json_doc inp = Some inp" using assms(3,4) by (auto intro: json_doc_id)
  have eq: "wp (create_run fid ver tenant trig inp st parent None) Q E w = Q r ?w'" for Q
    using id by (simp add: create_run_def insert_run_def Let_def json assms(5) r_def)
  have "preserves store_inv (create_run fid ver tenant trig inp st parent None)" by (rule create_run_inv)
  from preserves_wpD [OF this assms(1)] have inv: "store_inv ?w'"
    using id by (simp add: create_run_def insert_run_def Let_def json assms(5) r_def)
  have "ids_fresh ?w'" by (rule ids_fresh_draw [OF assms(2)]) (auto simp: r_def ids_of_def)
  moreover have "List.find (\<lambda>x. run_id x = run_id r) (tbl_runs w) = None"
    unfolding find_None_iff_all using id by (metis rev_image_eqI)
  then have "get_run (run_id r) None ?w' = Some r" by (simp add: get_run_def find_append)
  moreover have "filter (\<lambda>s. step_run_id s = run_id r) (tbl_steps w) = []"
    "filter (\<lambda>s. event_run_id s = run_id r) (tbl_events w) = []"
    unfolding filter_empty_conv r_def using ids_freshD(4,5) [OF assms(2)] by (simp, metis rev_image_eqI)+
  then have "list_steps (run_id r) ?w' = []" "list_events (run_id r) ?w' = []"
    by (simp_all add: list_steps_def list_events_def in_order_def)
  ultimately have "run_at (run_id r) r [] [] ?w'" using inv by (simp add: run_at_def view_def)
  then show ?thesis unfolding eq using id by (simp add: r_def tick_def draw_def)
qed

lemma manifest_ok_graph:
  assumes "manifest_ok m"
  shows "targets_known m" and "\<exists>e. entry_node m = Some e \<and> find_node m (node_id e) = Some e"
proof -
  have v: "distinct (map node_id (nodes m))" "\<forall>e\<in>set (edges m). target e \<in> node_id ` set (nodes m)"
    "validate_entry_and_reachability (nodes m) (edges m) = []"
    using assms unfolding manifest_ok_def validate_graph_parts by auto
  show "targets_known m" unfolding targets_known_def using v(2) find_node_exists by blast
  from v(3) obtain i where "entry_ids (nodes m) (edges m) = [i]" unfolding validate_entry_and_reachability_Nil by blast
  then obtain e where "filter (\<lambda>n. node_id n \<notin> target ` set (edges m)) (nodes m) = [e]"
    by (auto simp: entry_ids_def filter_map o_def map_eq_Cons_conv)
  then have "entry_node m = Some e" by (simp add: entry_node_def)
  moreover from this have "find_node m (node_id e) = Some e"
    by (intro find_node_distinct [OF v(1)]) (auto dest: entry_node_SomeD)
  ultimately show "\<exists>e. entry_node m = Some e \<and> find_node m (node_id e) = Some e" by blast
qed

lemma origin_known: "manifest_ok m \<Longrightarrow> entry_node m = Some e \<Longrightarrow> base_known m (origin (node_id e))"
  using manifest_ok_graph(2) by fastforce

lemma run_loop_wp:
  assumes iso: "handlers_isolated (eng_handlers eng)"
    and res: "resolve (eng_lib eng) (run_flow_id run) (run_flow_version run) w = Inr m" and json: "bindings_json m"
    and at: "run_at (run_id run) R S Es w" and run: "run_id run = run_id R" "run_input run = run_input R"
    and e: "entry_node m = Some e" and st: "state_ok (initial_state (node_id e) (run_state run))"
    and known: "base_known m base"
    and trace: "in_step (eng_env eng) m base (run_input R) (initial_state (node_id e) (run_state run)) S"
  shows "wp (run_loop eng run cap)
    (finished (eng_env eng) m base (effective_budgets (budgets m) (run_state run) cap) R) (\<lambda>x _. x = NotSerializable) w"
proof -
  let ?st = "initial_state (node_id e) (run_state run)"
  have eff: "effective_budgets (budgets m) ?st cap = effective_budgets (budgets m) (run_state run) cap"
    by (rule effective_budgets_cong) (simp add: initial_state_def)
  have upd: "wp (update_run (run_id run) (Some ''running'') None None None)
      (\<lambda>_ w'. \<exists>t. run_at (run_id run) (patch_run t (Some ''running'') None None None R) S Es w') E w" for E
    by (rule run_at_update_run [OF at]) (simp_all add: RUN_STATUSES_def json_opt_def)
  show ?thesis
    unfolding run_loop_def resolve_action_def entry_action_def e option.case
  proof (simp only: wp_bind wp_gets res wp_lift sum.case, rule wp_thenI [OF upd], goal_cases)
    case (1 x w1)
    then obtain R' where at1: "run_at (run_id R') R' S Es w1" and R': "same_run R R'"
      using run by (auto simp: same_run_def)
    then have run': "run_id run = run_id R'" "run_input run = run_input R'" and tr: "run_input R' = run_input R"
      using run by (auto simp: same_run_def)
    have "wp (drive eng run m (effective_budgets (budgets m) ?st cap) t 0 ?st)
        (finished (eng_env eng) m base (effective_budgets (budgets m) ?st cap) R) (\<lambda>x _. x = NotSerializable) w2"
      if "run_at (run_id R') R' S Es w2" for t w2
      by (rule wp_mono [OF drive_wp [OF iso json manifest_ok_graph(1) [OF resolve_manifest_ok [OF res]] known that run' st]])
        (use trace tr finished_mono [OF R'] in auto)
    then show ?case using at1 by (simp add: Let_def eff e)
  qed
qed

lemma within_budgets_mono: "b \<le> c \<Longrightarrow> within_budgets b st \<Longrightarrow> within_budgets c st"
  using of_int_le_iff [of "max_tokens b" "max_tokens c", where ?'a = rat]
  by (force simp: within_budgets_def less_eq_flow_budgets_def)

lemma effective_start_budgets:
  "effective_budgets b (start_state entry cap) None = (case cap of None \<Rightarrow> b | Some c \<Rightarrow> inf b c)"
proof (cases cap)
  case (Some c)
  have "start_state entry cap = (start_state entry None)\<lparr>st_budget_cap := Some (budget_cap_document c)\<rparr>"
    by (simp add: start_state_def Some)
  then show ?thesis using Some budget_cap_roundtrip by (simp add: effective_budgets_def merge_budgets_inf)
qed (simp add: effective_budgets_def budget_cap_from_state_def start_state_def)

lemma start_state_simps [simp]:
  "initial_state entry (start_state entry cap) = start_state entry cap"
  "state_ok (start_state entry cap)" "cursor_of (start_state entry cap) = Some entry" "nodes_of (start_state entry cap) = []"
  by (simp_all add: start_state_def initial_state_def state_ok_def json_state_iff cursor_of_def nodes_of_def)

lemma append_event_flows:
  "tbl_flows w = F \<Longrightarrow> wp (append_event rid p) (\<lambda>_ w'. tbl_flows w' = F) (\<lambda>_ w'. tbl_flows w' = F) w"
  by (simp add: append_event_def Let_def tick_def draw_def)

text \<open>How a started run ends: \<open>r\<close> is its stored record.\<close>

definition run_ended :: "flow_engine \<Rightarrow> flow_manifest \<Rightarrow> flow_budgets option \<Rightarrow> flow_run_record \<Rightarrow> world \<Rightarrow> bool" where
  "run_ended eng m cap r w \<longleftrightarrow>
     (\<exists>e S Es. entry_node m = Some e \<and> run_at (run_id r) r S Es w \<and>
        run_status r \<in> {''completed'', ''failed'', ''waiting_human''} \<and> replays (eng_env eng) m (origin (node_id e)) r S \<and>
        (run_status r = ''waiting_human'' \<longrightarrow> awaiting (eng_env eng) m (origin (node_id e)) r S) \<and>
        (run_status r = ''completed'' \<longrightarrow>
           within_budgets (budgets m) (run_state r) \<and> (\<forall>c. cap = Some c \<longrightarrow> within_budgets c (run_state r))))"

lemma start_run_wp:
  assumes iso: "handlers_isolated (eng_handlers eng)" and inv: "store_inv w" "ids_fresh w"
    and res: "resolve (eng_lib eng) fid rng w = Inr m" "resolve (eng_lib eng) (flow_id m) (version m) w = Inr m"
    and json: "bindings_json m" "is_json (PDict inp)" "is_json (PDict (default_trigger trig))"
    and input: "validate_run_input m inp = Inr ([], [])"
  shows "wp (start_run eng fid rng inp trig tenant parent True cap)
    (\<lambda>r w'. run_ended eng m cap r w' \<and> run_id r \<notin> run_id ` set (tbl_runs w) \<and> run_flow_id r = flow_id m \<and>
       run_flow_version r = version m \<and> run_tenant_id r = tenant \<and> run_input r = inp \<and> parent_run_id r = parent)
    (\<lambda>x _. x = NotSerializable) w"
proof -
  obtain e where e: "entry_node m = Some e" using manifest_ok_graph(2) [OF resolve_manifest_ok [OF res(1)]] by blast
  let ?st = "start_state (node_id e) cap"
  have jst: "json_state ?st = Some ?st" using start_state_simps(2) by (simp add: state_ok_def)
  let ?tail = "bind_a (create_run (flow_id m) (version m) tenant (default_trigger trig) inp ?st parent None) (\<lambda>run.
      then_a (append_event (run_id run) (RunStarted (flow_id m) (version m) tenant (run_trigger run) (node_id e)))
      (then_a (emit_event ''flow.run.started'' tenant (run_id run) None) (run_loop eng run None)))"
  have "wp (start_run eng fid rng inp trig tenant parent True cap) Q E w = wp ?tail Q E w" for Q E
    by (simp add: start_run_def entry_action_def res(1) input e)
  moreover have "wp ?tail (\<lambda>r w'. run_ended eng m cap r w' \<and> run_id r \<notin> run_id ` set (tbl_runs w) \<and> run_flow_id r = flow_id m \<and>
       run_flow_version r = version m \<and> run_tenant_id r = tenant \<and> run_input r = inp \<and> parent_run_id r = parent)
    (\<lambda>x _. x = NotSerializable) w"
  proof (rule wp_bindI [OF create_run_wp [OF inv json(3,2) jst]], goal_cases)
    case (1 run w1)
    note created = 1
    then have at: "run_at (run_id run) run [] [] w1" and flows: "tbl_flows w1 = tbl_flows w" by simp_all
    let ?b = "effective_budgets (budgets m) (run_state run) None"
    have b: "?b = (case cap of None \<Rightarrow> budgets m | Some c \<Rightarrow> inf (budgets m) c)"
      using 1 by (simp add: effective_start_budgets)
    have loop: "wp (run_loop eng run None) (finished (eng_env eng) m (origin (node_id e)) ?b run) (\<lambda>x _. x = NotSerializable) w2"
      if "run_at (run_id run) run [] Es w2" "tbl_flows w2 = tbl_flows w" for Es w2
      by (rule run_loop_wp [OF iso _ json(1) that(1) refl refl e])
        (use 1 res(2) resolve_cong [OF that(2)] origin_known [OF resolve_manifest_ok [OF res(2)] e] in
          \<open>simp_all add: in_step_def completed_steps_def\<close>)
    have ended: "run_ended eng m cap r w' \<and> run_id r \<notin> run_id ` set (tbl_runs w) \<and> run_flow_id r = flow_id m \<and>
       run_flow_version r = version m \<and> run_tenant_id r = tenant \<and> run_input r = inp \<and> parent_run_id r = parent"
      if fin: "finished (eng_env eng) m (origin (node_id e)) ?b run r w'" for r w'
    proof -
      from fin obtain S Es where r: "run_at (run_id run) r S Es w'" "same_run run r"
        "run_status r \<in> {''completed'', ''failed'', ''waiting_human''}" "replays (eng_env eng) m (origin (node_id e)) r S"
        "run_status r = ''completed'' \<longrightarrow> within_budgets ?b (run_state r)"
        "run_status r = ''waiting_human'' \<longrightarrow> awaiting (eng_env eng) m (origin (node_id e)) r S"
        unfolding finished_def by blast
      have "within_budgets (budgets m) st \<and> (\<forall>c. cap = Some c \<longrightarrow> within_budgets c st)" if "within_budgets ?b st" for st
        using that unfolding b
        by (cases cap) (auto intro: within_budgets_mono [OF inf_le1, of "budgets m"] within_budgets_mono [OF inf_le2, of "budgets m"])
      with r(5) have "run_status r = ''completed'' \<longrightarrow> within_budgets (budgets m) (run_state r) \<and>
          (\<forall>c. cap = Some c \<longrightarrow> within_budgets c (run_state r))" by blast
      moreover have "run_at (run_id r) r S Es w'" using r(1,2) by (simp add: same_run_def)
      ultimately have "run_ended eng m cap r w'" unfolding run_ended_def using e r(3,4,6) by blast
      then show ?thesis using r(2) created unfolding same_run_def by simp
    qed
    show ?case
    proof (rule wp_thenI [OF wp_conj_total [OF run_at_append_event [OF at] append_event_flows [OF flows]]], goal_cases)
      case (1 ev w2)
      then have "wp (run_loop eng run None) (finished (eng_env eng) m (origin (node_id e)) ?b run) (\<lambda>x _. x = NotSerializable) (w2\<lparr>bus := b\<rparr>)" for b
        by (intro loop) auto
      then show ?case unfolding wp_then wp_emit_event by (rule wp_mono) (use ended in auto)
    qed
  qed
  ultimately show ?thesis by simp
qed

end
