(* ===== verification/Flow_Recovery.thy ===== *)
theory Flow_Recovery
  imports Flow_Runs
begin

text \<open>
  Crash recovery (\<open>FlowEngine.resume_run\<close>, \<open>FlowEngine._reconcile_crash_window\<close>). Every
  store operation commits on its own, so a process may die between any two of them.
  \<open>recoverable\<close> describes what it can leave behind: a run whose checkpoint agrees with its completed
  steps, or one whose last step completed and was not yet folded into the checkpoint.
\<close>

subsection \<open>The registry is left alone\<close>

lemma flows_preserved [preserves_intros]:
  "preserves (\<lambda>w. tbl_flows w = F) (update_run rid st reason state out)"
  "preserves (\<lambda>w. tbl_flows w = F) (complete_step sid ss sout err)"
  "preserves (\<lambda>w. tbl_flows w = F) (append_event rid p)"
  by (rule preservesI,
      simp add: wp_update_run complete_step_def append_event_def Let_def tick_def draw_def set_run_def set_step_def
        split: option.splits)+

lemma flows_preserved_emit [preserves_intros]:
  "preserves (\<lambda>w. tbl_flows w = F) (emit_event name tenant erid sid)"
  "preserves (\<lambda>w. tbl_flows w = F) (require_run rid)"
  by (rule preservesI, simp add: emit_event_def require_run_def split: option.splits)+

lemma with_flows:
  assumes "wp m Q (\<lambda>_ _. False) w" and "preserves (\<lambda>w. tbl_flows w = F) m" and "tbl_flows w = F"
  shows "wp m (\<lambda>x w'. Q x w' \<and> tbl_flows w' = F) E w"
  by (rule wp_conj_total [OF assms(1) preserves_wpD [OF assms(2,3)]])

subsection \<open>Interrupted steps\<close>

definition interrupted :: "flow_step_record \<Rightarrow> flow_step_record \<Rightarrow> bool" where
  "interrupted s s' \<longleftrightarrow> s' = s \<or> (step_id s' = step_id s \<and> step_status s = ''running'' \<and> step_status s' = ''failed'')"

lemma run_at_complete_any:
  assumes "run_at rid R S Es w" and "st \<in> set STEP_STATUSES"
  shows "wp (complete_step sid st None err)
    (\<lambda>_ w'. \<exists>t. run_at rid R (map (\<lambda>x. if step_id x = sid then x\<lparr>step_status := st, step_output := None,
       step_error := err, step_completed_at := Some t\<rparr> else x) S) Es w') E w"
proof -
  let ?f = "\<lambda>x. x\<lparr>step_status := st, step_output := None, step_error := err,
    step_completed_at := Some (wall_src w (wall_reads w))\<rparr>"
  let ?w' = "set_step sid ?f (tick w)"
  note at = run_atD [OF assms(1)]
  have eq: "wp (complete_step sid st None err) Q E w = Q () ?w'" for Q
    using assms(2) by (simp add: complete_step_def json_opt_def)
  have inv: "store_inv ?w'"
    using preserves_wpD [OF complete_step_inv [of sid st None err] at(1)] assms(2)
    by (simp add: complete_step_def json_opt_def)
  have "list_steps rid (tick w) = S" using at(4) by (simp add: list_steps_def)
  then have steps: "list_steps rid ?w' = map (\<lambda>x. if step_id x = sid then ?f x else x) S"
    using list_steps_set_step [of "tick w" ?f rid sid] at(1) by simp
  have "ids_fresh ?w'" using at(2) by (simp add: ids_fresh_set_step)
  then have "run_at rid R (map (\<lambda>x. if step_id x = sid then ?f x else x) S) Es ?w'"
    using inv at(3,5) by (simp add: run_at_def view_def steps) (simp add: get_run_def list_events_def set_step_def)
  then show ?thesis unfolding eq by blast
qed

lemma interrupt_step:
  assumes "list_all2 interrupted S S'" and "distinct (map step_id S)" and "s \<in> set S" and "step_status s = ''running''"
    and "\<And>x. step_id (f x) = step_id x \<and> step_status (f x) = ''failed''"
  shows "list_all2 interrupted S (map (\<lambda>x. if step_id x = step_id s then f x else x) S')"
proof (rule list_all2_all_nthI)
  show "length S = length (map (\<lambda>x. if step_id x = step_id s then f x else x) S')"
    using assms(1) by (simp add: list_all2_lengthD)
next
  fix i
  assume i: "i < length S"
  have int: "interrupted (S ! i) (S' ! i)" by (rule list_all2_nthD [OF assms(1) i])
  then have ids: "step_id (S' ! i) = step_id (S ! i)" by (auto simp: interrupted_def)
  have "i < length S'" using i list_all2_lengthD [OF assms(1)] by simp
  moreover have "S ! i = s" if "step_id (S ! i) = step_id s"
    using that assms(2,3) i by (metis distinct_map inj_onD nth_mem)
  ultimately show "interrupted (S ! i) (map (\<lambda>x. if step_id x = step_id s then f x else x) S' ! i)"
    using int ids assms(4,5) by (auto simp: interrupted_def)
qed

lemma interrupted_completed: "list_all2 interrupted S S' \<Longrightarrow> completed_steps S' = completed_steps S"
  unfolding completed_steps_def by (induction rule: list_all2_induct) (auto simp: interrupted_def)

lemma interrupt_all_wp:
  assumes "run_at rid R S Es w" and "tbl_flows w = F"
  shows "wp (each_a (\<lambda>s. if step_status s = ''running''
      then complete_step (step_id s) ''failed'' None ''interrupted: attempt superseded by resume'' else return_a ()) S)
    (\<lambda>_ w'. \<exists>S'. run_at rid R S' Es w' \<and> completed_steps S' = completed_steps S \<and> tbl_flows w' = F) E w"
proof -
  let ?I = "\<lambda>w'. \<exists>S'. run_at rid R S' Es w' \<and> list_all2 interrupted S S' \<and> tbl_flows w' = F"
  have d: "distinct (map step_id S)" using list_steps_distinct [OF run_atD(1) [OF assms(1)]] run_atD(4) [OF assms(1)] by metis
  have "?I w" using assms by (auto simp: list_all2_same interrupted_def)
  then have "wp (each_a (\<lambda>s. if step_status s = ''running''
      then complete_step (step_id s) ''failed'' None ''interrupted: attempt superseded by resume'' else return_a ()) S) (\<lambda>_. ?I) E w"
  proof (rule wp_each)
    fix s w1
    assume s: "s \<in> set S" and "?I w1"
    then obtain S' where at: "run_at rid R S' Es w1" and S': "list_all2 interrupted S S'" and fl: "tbl_flows w1 = F" by blast
    have "wp (complete_step (step_id s) ''failed'' None ''interrupted: attempt superseded by resume'') (\<lambda>_. ?I) E w1"
      if r: "step_status s = ''running''"
      by (rule wp_mono [OF with_flows [OF run_at_complete_any [OF at] flows_preserved(2) fl]])
        (use interrupt_step [OF S' d s r] in \<open>auto simp: STEP_STATUSES_def\<close>)
    then show "wp (if step_status s = ''running''
      then complete_step (step_id s) ''failed'' None ''interrupted: attempt superseded by resume'' else return_a ()) (\<lambda>_. ?I) E w1"
      using \<open>?I w1\<close> by simp
  qed
  then show ?thesis by (rule wp_mono) (auto dest: interrupted_completed)
qed

subsection \<open>The crash window\<close>

definition recoverable :: "py_env \<Rightarrow> flow_manifest \<Rightarrow> string \<Rightarrow> flow_run_record \<Rightarrow> flow_step_record list \<Rightarrow>
    flow_event_record list \<Rightarrow> bool" where
  "recoverable env m entry R S Es \<longleftrightarrow>
     run_status R \<notin> set TERMINAL_RUN_STATUSES \<and> state_ok (run_state R) \<and> st_cursor (run_state R) \<noteq> None \<and>
     (\<forall>s\<in>set (completed_steps S). step_output s \<noteq> None) \<and>
     (in_step env m (origin entry) (run_input R) (run_state R) S \<and>
        (\<forall>s\<in>set (butlast (completed_steps S)). step_id s \<in> completed_event_steps Es) \<or>
      (\<exists>C s n. completed_steps S = C @ [s] \<and>
        follow env m (run_input R) (Some entry) [] C = Some (cursor_of (run_state R), nodes_of (run_state R)) \<and>
        step_matches env m (run_input R) (cursor_of (run_state R)) (nodes_of (run_state R)) s = Some n \<and>
        step_id s \<notin> completed_event_steps Es))"

definition reconciled :: "py_env \<Rightarrow> flow_manifest \<Rightarrow> string \<Rightarrow> flow_run_record \<Rightarrow> flow_step_record list \<Rightarrow>
    flow_run_record \<Rightarrow> world \<Rightarrow> bool" where
  "reconciled env m entry R S r w \<longleftrightarrow>
     (\<exists>Es. run_at (run_id R) r S Es w) \<and> same_run R r \<and>
     (run_status r = ''failed'' \<and> replays env m (origin entry) r S \<or>
      run_status r = run_status R \<and> state_ok (run_state r) \<and> st_cursor (run_state r) \<noteq> None \<and>
      st_budget_cap (run_state r) = st_budget_cap (run_state R) \<and>
      in_step env m (origin entry) (run_input R) (run_state r) S)"

lemma dset_idem: "dset k v (dset k v d) = dset k v d"
  by (induction d) auto

lemma fold_recorded_wp:
  assumes at: "run_at (run_id R) R S Es w" and ok: "state_ok (run_state R)" and n: "find_node m c = Some n"
    and c: "completed_steps S = C @ [s]" "step_node_id s = c" "step_output s \<noteq> None"
    and C: "follow env m (run_input R) (Some entry) [] C = Some (cur, ns)"
    and matches: "step_matches env m (run_input R) cur ns s = Some n"
    and nodes: "fold_output s (nodes_of (run_state R)) = fold_output s ns" and cur: "cursor_of (run_state R) = Some c"
    and F: "tbl_flows w = F"
  shows "wp (fold_recorded R m c s) (\<lambda>r w'. reconciled env m entry R S r w' \<and> tbl_flows w' = F) E w"
proof -
  from c(3) obtain d where d: "step_output s = Some d" by blast
  have jd: "is_json (PDict d)"
  proof -
    have "s \<in> set S" using c(1) unfolding completed_steps_def by (metis filter_is_subset in_set_conv_decomp subset_iff)
    then have "step_row_ok s" using run_atD(1,4) [OF at] list_steps_mem by (auto simp: store_inv_def)
    then show ?thesis using d by (simp add: step_row_ok_def)
  qed
  have nid: "node_id n = c" using find_node_SomeD [OF n] by simp
  let ?ns = "fold_output s ns"
  have ns: "dset (KStr (node_id n)) (PDict [(KStr ''output'', (case step_output s of Some d \<Rightarrow> PDict d | None \<Rightarrow> PNone))])
      (nodes_of (run_state R)) = ?ns"
    using nodes d nid c(2) by (simp add: fold_output_def step_output_doc_def node_output_entry_def)
  let ?st = "(run_state R)\<lparr>st_nodes := Some ?ns\<rparr>"
  have "is_json (PDict (nodes_of (run_state R)))"
    using ok by (auto simp: state_ok_def json_state_iff nodes_of_def simp del: is_json.simps)
  then have "is_json (PDict (fold_output s (nodes_of (run_state R))))"
    unfolding fold_output_def by (intro is_json_dset) (use d jd in \<open>simp_all add: step_output_doc_def node_output_entry_def\<close>)
  then have "is_json (PDict ?ns)" by (simp only: nodes)
  then have ok1: "state_ok ?st" using ok by (simp add: state_ok_def json_state_iff del: is_json.simps)
  show ?thesis
  proof (cases "select_next_node m n (build_eval_state (run_input R) ?ns)")
    case (Inl err)
    have "wp (route_failure (run_id R) ?st (node_id n) err)
        (\<lambda>r w'. \<exists>Es'. run_at (run_id R) r S Es' w' \<and> settled R r ''failed'' (stop_reason r) ?st \<and>
          stop_reason r \<in> {''predicate_error'', ''no_route''}) (\<lambda>_ _. False) w"
      by (rule route_failure_wp [OF at]) (use ok1 in \<open>simp add: state_ok_def\<close>)
    moreover have "preserves (\<lambda>w. tbl_flows w = F) (route_failure (run_id R) ?st (node_id n) err)"
      unfolding route_failure_def fail_run_def by (cases err) (auto intro!: preserves_intros)
    ultimately have "wp (route_failure (run_id R) ?st (node_id n) err)
        (\<lambda>r w'. (\<exists>Es'. run_at (run_id R) r S Es' w' \<and> settled R r ''failed'' (stop_reason r) ?st \<and>
          stop_reason r \<in> {''predicate_error'', ''no_route''}) \<and> tbl_flows w' = F) E w"
      by (rule with_flows [OF _ _ F])
    then show ?thesis
      unfolding fold_recorded_def n option.case ns Let_def Inl sum.case
    proof (rule wp_mono, goal_cases)
      case (1 r w')
      then obtain Es' where r: "run_at (run_id R) r S Es' w'" "settled R r ''failed'' (stop_reason r) ?st"
        "stop_reason r \<in> {''predicate_error'', ''no_route''}" by blast
      then have "routing_failure_at_end env m r (Some entry) [] (completed_steps S)"
        unfolding routing_failure_at_end_def
        by (intro exI [of _ C] exI [of _ s] exI [of _ n] exI [of _ cur] exI [of _ ns] exI [of _ err])
          (use C matches Inl c cur in \<open>auto simp: settled_def same_run_def cursor_of_def\<close>)
      with r 1 show ?case by (auto simp: reconciled_def settled_def replays_def)
    qed
  next
    case (Inr nxt)
    let ?st2 = "?st\<lparr>st_cursor := Some nxt\<rparr>"
    have st2: "state_ok ?st2" "cursor_of ?st2 = nxt" "nodes_of ?st2 = ?ns"
      using ok1 by (simp_all add: state_ok_def json_state_iff cursor_of_def nodes_of_def)
    have trace: "in_step env m (origin entry) (run_input R) ?st2 S"
      using C matches Inr st2 c(1) by (simp add: in_step_def follow_append)
    show ?thesis
      unfolding fold_recorded_def n option.case ns Let_def Inr sum.case
    proof (rule wp_thenI [OF with_flows [OF checkpoint_wp [OF at] flows_preserved(1) F]], goal_cases)
      case (2 x w1)
      then obtain R' where at1: "run_at (run_id R) R' S Es w1" and R': "settled R R' (run_status R) (stop_reason R) ?st2" and F1: "tbl_flows w1 = F"
        by blast
      show ?case
        by (rule wp_thenI [OF with_flows [OF run_at_append_event [OF at1] flows_preserved(3) F1]])
          (use R' st2 trace in \<open>auto simp: wp_require_run reconciled_def settled_def\<close>)
    qed (use st2 in \<open>simp add: state_ok_def\<close>)
  qed
qed

lemma completed_at_cursor:
  "filter (\<lambda>s. step_node_id s = c \<and> step_status s = ''completed'') S = filter (\<lambda>s. step_node_id s = c) (completed_steps S)"
  by (simp add: completed_steps_def conj_commute)

lemma reconcile_wp:
  assumes at: "run_at (run_id R) R S Es w" and rec: "recoverable env m entry R S Es"
    and res: "resolve (eng_lib eng) (run_flow_id R) (run_flow_version R) w = Inr m" and F: "tbl_flows w = F"
  shows "wp (reconcile_crash_window eng R) (\<lambda>r w'. reconciled env m entry R S r w' \<and> tbl_flows w' = F) E w"
proof -
  have mok: "manifest_ok m" by (rule resolve_manifest_ok [OF res])
  let ?st = "run_state R"
  have ok: "state_ok ?st" "st_cursor ?st \<noteq> None" and outs: "\<forall>s\<in>set (completed_steps S). step_output s \<noteq> None"
    using rec by (simp_all add: recoverable_def)
  have keep: "reconciled env m entry R S R w" if "in_step env m (origin entry) (run_input R) ?st S"
    using that at ok by (auto simp: reconciled_def)
  note lists = run_atD(4,5) [OF at]
  show ?thesis
  proof (cases "live_cursor ?st")
    case None
    have "in_step env m (origin entry) (run_input R) ?st S"
    proof (rule ccontr)
      assume "\<not> ?thesis"
      then obtain s n where "step_matches env m (run_input R) (cursor_of ?st) (nodes_of ?st) s = Some n"
        using rec by (auto simp: recoverable_def)
      then have "cursor_of ?st = Some (node_id n)" "n \<in> set (nodes m)"
        using find_node_SomeD by (force simp: step_matches_Some)+
      then show False using None mok by (auto simp: live_cursor_def manifest_ok_def node_ok_def split: if_splits)
    qed
    then show ?thesis using keep F by (simp add: reconcile_crash_window_def None)
  next
    case (Some c)
    then have cur: "cursor_of ?st = Some c" by (auto simp: live_cursor_def split: option.splits if_splits)
    let ?comp = "filter (\<lambda>s. step_node_id s = c) (completed_steps S)"
    have step: "wp (reconcile_crash_window eng R) Q E w =
        (if ?comp = [] \<or> step_id (last ?comp) \<in> completed_event_steps Es then Q R w
         else wp (fold_recorded R m c (last ?comp)) Q E w)" for Q
      by (simp add: reconcile_crash_window_def Some lists completed_at_cursor resolve_action_def res Let_def)
    from rec consider
      (a) "in_step env m (origin entry) (run_input R) ?st S" "\<forall>s\<in>set (butlast (completed_steps S)). step_id s \<in> completed_event_steps Es"
    | (b) C s n where "completed_steps S = C @ [s]"
        "follow env m (run_input R) (Some entry) [] C = Some (cursor_of ?st, nodes_of ?st)"
        "step_matches env m (run_input R) (cursor_of ?st) (nodes_of ?st) s = Some n" "step_id s \<notin> completed_event_steps Es"
      unfolding recoverable_def by blast
    then show ?thesis
    proof cases
      case b
      then have s: "step_node_id s = c" "find_node m c = Some n" using cur by (auto simp: step_matches_Some)
      then have "last ?comp = s" "?comp \<noteq> []" using b(1) by simp_all
      moreover have "wp (fold_recorded R m c s) (\<lambda>r w'. reconciled env m entry R S r w' \<and> tbl_flows w' = F) E w"
        by (rule fold_recorded_wp [OF at ok(1) s(2) b(1) s(1) _ b(2,3) refl cur F]) (use outs b(1) in simp)
      ultimately show ?thesis using b(4) by (simp add: step)
    next
      case a
      show ?thesis
      proof (cases "?comp = [] \<or> step_id (last ?comp) \<in> completed_event_steps Es")
        case False
        let ?l = "last ?comp"
        have l: "?l \<in> set (completed_steps S)" "step_node_id ?l = c" using False last_in_set [of ?comp] by auto
        then obtain C s where C: "completed_steps S = C @ [s]" by (metis empty_iff list.set(1) rev_exhaust)
        have ls: "?l = s"
        proof (rule ccontr)
          assume "?l \<noteq> s"
          then have "?l \<in> set (butlast (completed_steps S))" using l(1) C by auto
          then show False using a(2) False by blast
        qed
        from a(1) C obtain cur' ns' n where f: "follow env m (run_input R) (Some entry) [] C = Some (cur', ns')"
          "step_matches env m (run_input R) cur' ns' s = Some n" "nodes_of ?st = fold_output s ns'"
          by (auto simp: in_step_def follow_append split: option.splits sum.splits)
        have "find_node m c = Some n" using f(2) l(2) ls by (simp add: step_matches_Some)
        moreover have "fold_output s (nodes_of ?st) = fold_output s ns'" unfolding f(3) by (simp add: fold_output_def dset_idem)
        ultimately have "wp (fold_recorded R m c s) (\<lambda>r w'. reconciled env m entry R S r w' \<and> tbl_flows w' = F) E w"
          by (intro fold_recorded_wp [OF at ok(1) _ C _ _ f(1,2) _ cur F]) (use outs C l(2) ls in auto)
        then show ?thesis using False ls by (simp add: step)
      qed (use keep [OF a(1)] F in \<open>simp add: step\<close>)
    qed
  qed
qed

lemma initial_state_kept:
  assumes "st_cursor st \<noteq> None" and "state_ok st"
  shows "cursor_of (initial_state e st) = cursor_of st" "nodes_of (initial_state e st) = nodes_of st" "state_ok (initial_state e st)"
  using assms by (auto simp: initial_state_def cursor_of_def nodes_of_def state_ok_def json_state_iff)

lemma resume_run_wp:
  assumes iso: "handlers_isolated (eng_handlers eng)"
    and at: "run_at rid R S Es w" and e: "entry_node m = Some e" and rec: "recoverable (eng_env eng) m (node_id e) R S Es"
    and res: "resolve (eng_lib eng) (run_flow_id R) (run_flow_version R) w = Inr m" and json: "bindings_json m"
  shows "wp (resume_run eng rid)
    (finished (eng_env eng) m (origin (node_id e)) (effective_budgets (budgets m) (run_state R) None) R) (\<lambda>x _. x = NotSerializable) w"
proof -
  have rid: "rid = run_id R" using run_atD(6) [OF at] by simp
  note at = at [unfolded rid]
  have nt: "run_status R \<notin> set TERMINAL_RUN_STATUSES" using rec by (simp add: recoverable_def)
  let ?fin = "finished (eng_env eng) m (origin (node_id e)) (effective_budgets (budgets m) (run_state R) None)"
  let ?sweep = "each_a (\<lambda>s. if step_status s = ''running''
      then complete_step (step_id s) ''failed'' None ''interrupted: attempt superseded by resume'' else return_a ()) S"
  let ?tail = "bind_a (reconcile_crash_window eng R) (\<lambda>run'.
      if run_status run' \<in> set TERMINAL_RUN_STATUSES then return_a run'
      else then_a (append_event (run_id R) (RunResumed (run_flow_id run') (run_flow_version run') (cursor_of (run_state run'))))
             (execute_run eng (run_id run') None))"
  have start: "wp (resume_run eng rid) Q E w = wp (then_a ?sweep ?tail) Q E w" for Q E
    using run_atD(3,4) [OF at] nt by (simp add: resume_run_def rid)
  have exec: "wp (execute_run eng (run_id R) None) (?fin R) (\<lambda>x _. x = NotSerializable) w1"
    if a1: "run_at (run_id R) r S' Es' w1" and r: "same_run R r" "run_status r \<notin> set TERMINAL_RUN_STATUSES"
      "state_ok (run_state r)" "st_cursor (run_state r) \<noteq> None" "st_budget_cap (run_state r) = st_budget_cap (run_state R)"
      "in_step (eng_env eng) m (origin (node_id e)) (run_input R) (run_state r) S'" and F: "tbl_flows w1 = tbl_flows w" for r S' Es' w1
  proof -
    have r': "run_id r = run_id R" "run_input r = run_input R" "run_flow_id r = run_flow_id R" "run_flow_version r = run_flow_version R"
      using r(1) by (simp_all add: same_run_def)
    note k = initial_state_kept [OF r(4,3)]
    have "wp (run_loop eng r None) (finished (eng_env eng) m (origin (node_id e)) (effective_budgets (budgets m) (run_state r) None) r)
        (\<lambda>x _. x = NotSerializable) w1"
      by (rule run_loop_wp [OF iso _ json _ refl refl e])
        (use a1 r' res resolve_cong [OF F] k r(6) origin_known [OF resolve_manifest_ok [OF res] e] in \<open>simp_all add: in_step_def\<close>)
    then have "wp (run_loop eng r None) (?fin R) (\<lambda>x _. x = NotSerializable) w1"
      unfolding effective_budgets_cong [OF r(5)] by (rule wp_mono) (auto intro: finished_mono [OF r(1)])
    then show ?thesis using run_atD(3) [OF a1] r(2) by (simp add: execute_run_def)
  qed
  show ?thesis
    unfolding start
  proof (rule wp_thenI [OF interrupt_all_wp [OF at refl]], goal_cases)
    case (1 x w1)
    then obtain S' where at1: "run_at (run_id R) R S' Es w1" and S': "completed_steps S' = completed_steps S"
      and F1: "tbl_flows w1 = tbl_flows w" by blast
    have rec1: "recoverable (eng_env eng) m (node_id e) R S' Es" using rec S' by (simp add: recoverable_def in_step_def)
    show ?case
    proof (rule wp_bindI [OF reconcile_wp [OF at1 rec1 _ F1]], goal_cases)
      case (2 r w2)
      then obtain Es2 where at2: "run_at (run_id R) r S' Es2 w2" and r: "same_run R r" and F2: "tbl_flows w2 = tbl_flows w"
        by (auto simp: reconciled_def)
      show ?case
      proof (cases "run_status r \<in> set TERMINAL_RUN_STATUSES")
        case True
        then have "run_status r = ''failed''" "replays (eng_env eng) m (origin (node_id e)) r S'"
          using 2 nt by (auto simp: reconciled_def)
        then have "?fin R r w2" using at2 r unfolding finished_def by auto
        then show ?thesis using True by simp
      next
        case False
        then have st: "state_ok (run_state r)" "st_cursor (run_state r) \<noteq> None" "st_budget_cap (run_state r) = st_budget_cap (run_state R)"
          "in_step (eng_env eng) m (origin (node_id e)) (run_input R) (run_state r) S'"
          using 2 by (auto simp: reconciled_def TERMINAL_RUN_STATUSES_def)
        show ?thesis
          unfolding if_not_P [OF False]
          by (rule wp_thenI [OF with_flows [OF run_at_append_event [OF at2] flows_preserved(3) F2]])
            (use exec [OF _ r False st] r in \<open>auto simp: same_run_def\<close>)
      qed
    qed (use res resolve_cong [OF F1] in simp)
  qed
qed

end
