(* ===== verification/Flow_Example.thy ===== *)
theory Flow_Example
  imports Flow_Runs
begin

text \<open>
  A concrete flow, engine and store on which the hypotheses of the properties hold: a conditional
  node that routes on the run input to one of two tool nodes, registered in an otherwise empty
  store, with handlers for callables that only compute.
\<close>

definition example_lib :: version_lib where
  "example_lib = \<lparr>version_ok = is_semver, version_eq = (=), version_less = (\<lambda>a b. a < b),
     specifier_ok = (\<lambda>_. False), in_specifier = (\<lambda>_ _. False)\<rparr>"

text \<open>Timestamps are written in binary, least significant digit first.\<close>

function iso_text :: "int \<Rightarrow> string" where
  "iso_text t = (if t \<le> 0 then [] else (if even t then CHR ''0'' else CHR ''1'') # iso_text (t div 2))"
  by pat_completeness auto
termination by (relation "measure nat") auto

declare iso_text.simps [simp del]

definition example_env :: py_env where
  "example_env = \<lparr>float_repr = (\<lambda>_. ''0.0''), obj_repr = (\<lambda>_. ''object''), isoformat = iso_text,
     fromisoformat = (\<lambda>s. Some (foldr (\<lambda>c n. 2 * n + (if c = CHR ''1'' then 1 else 0)) s 0))\<rparr>"

definition example_raw :: pydict where
  "example_raw = [
     (KStr ''schemaVersion'', PStr ''1''), (KStr ''id'', PStr ''demo/check''), (KStr ''version'', PStr ''1.0.0''),
     (KStr ''hostApi'', PStr ''*''),
     (KStr ''nodes'', PList [
        PDict [(KStr ''id'', PStr ''gate''), (KStr ''type'', PStr ''conditional'')],
        PDict [(KStr ''id'', PStr ''accept''), (KStr ''type'', PStr ''tool''), (KStr ''ref'', PStr ''demo/tool''),
               (KStr ''input'', PDict [(KStr ''ok'', PStr ''{{ flow.input.ok }}'')])],
        PDict [(KStr ''id'', PStr ''reject''), (KStr ''type'', PStr ''tool''), (KStr ''ref'', PStr ''demo/tool'')]]),
     (KStr ''edges'', PList [
        PDict [(KStr ''from'', PStr ''gate''), (KStr ''to'', PStr ''accept''), (KStr ''when'', PStr ''{{ flow.input.ok == true }}'')],
        PDict [(KStr ''from'', PStr ''gate''), (KStr ''to'', PStr ''reject''), (KStr ''when'', PStr ''not flow.input.ok'')]])]"

definition example_node :: "string \<Rightarrow> string \<Rightarrow> flow_node_ref option \<Rightarrow> pydict \<Rightarrow> pydict \<Rightarrow> flow_node" where
  "example_node nid ty ref inp raw =
     \<lparr>node_id = nid, node_type = ty, node_ref = ref, input_bindings = inp, prompt = None, form = None,
      timeout_sec = None, on_timeout = None, retries = None, over = None, reduce_mode = ''collect'',
      max_parallel = None, node_raw = raw\<rparr>"

definition example_tool :: "flow_node_ref option" where
  "example_tool = Some \<lparr>ref_id = ''demo/tool'', version_range = ''*''\<rparr>"

definition example_manifest :: flow_manifest where
  "example_manifest =
     \<lparr>schema_version = ''1'', flow_id = ''demo/check'', version = ''1.0.0'', host_api = ''*'', flow_name = None,
      description = None, triggers = [], flow_input = None, flow_output = None, defaults = DEFAULT_FLOW_DEFAULTS,
      nodes = [
        example_node ''gate'' ''conditional'' None []
          [(KStr ''id'', PStr ''gate''), (KStr ''type'', PStr ''conditional'')],
        example_node ''accept'' ''tool'' example_tool [(KStr ''ok'', PStr ''{{ flow.input.ok }}'')]
          [(KStr ''id'', PStr ''accept''), (KStr ''type'', PStr ''tool''), (KStr ''ref'', PStr ''demo/tool''),
           (KStr ''input'', PDict [(KStr ''ok'', PStr ''{{ flow.input.ok }}'')])],
        example_node ''reject'' ''tool'' example_tool []
          [(KStr ''id'', PStr ''reject''), (KStr ''type'', PStr ''tool''), (KStr ''ref'', PStr ''demo/tool'')]],
      edges = [
        \<lparr>source = ''gate'', target = ''accept'', edge_when = Some ''{{ flow.input.ok == true }}'', edge_on = None\<rparr>,
        \<lparr>source = ''gate'', target = ''reject'', edge_when = Some ''not flow.input.ok'', edge_on = None\<rparr>],
      budgets = DEFAULT_FLOW_BUDGETS, manifest_raw = example_raw\<rparr>"

definition example_callables :: callable_registry where
  "example_callables = pure_callables [''demo/tool'' \<mapsto> (\<lambda>inp. Inr (PDict [(KStr ''echo'', PDict inp)]))]"

definition example_handlers :: handler_registry where
  "example_handlers = handler_register (handler_register (handler_register (\<lambda>_. None) ''tool'' (callable_handler example_callables))
     ''conditional'' conditional_handler) ''human'' (human_handler example_env)"

definition example_engine :: flow_engine where
  "example_engine = \<lparr>eng_env = example_env, eng_lib = example_lib, eng_handlers = example_handlers, eng_max_steps = 1000\<rparr>"

definition example_world :: world where
  "example_world = \<lparr>tbl_runs = [], tbl_steps = [], tbl_events = [],
     tbl_flows = [(''demo/check'', ''1.0.0'', example_raw)], uuid_supply = 0, wall_src = (\<lambda>n. int n), wall_reads = 0,
     clock_src = (\<lambda>n. of_nat n), clock_reads = 0, slept = [], bus = []\<rparr>"

definition example_input :: pydict where
  "example_input = [(KStr ''ok'', PBool True)]"

lemma example_validates: "validate_flow_manifest example_lib example_raw = Inr (Inr example_manifest)"
  by code_simp

lemma example_resolve:
  "resolve example_lib ''demo/check'' ''*'' example_world = Inr example_manifest"
  "resolve example_lib (flow_id example_manifest) (version example_manifest) example_world = Inr example_manifest"
  by code_simp+

lemma example_isolated: "handlers_isolated (eng_handlers example_engine)"
proof -
  have "handlers_isolated (\<lambda>_. None)" by (simp add: handlers_isolated_def)
  then show ?thesis
    by (simp add: example_engine_def example_handlers_def example_callables_def callable.register_isolated
        conditional.register_isolated human.register_isolated)
qed

lemma example_store: "store_inv example_world" "ids_fresh example_world"
  by (simp_all add: example_world_def store_inv_def ids_fresh_def ids_of_def contiguous_def)

lemma example_json: "bindings_json example_manifest" "is_json (PDict example_input)" "is_json (PDict (default_trigger None))"
  by code_simp+

lemma example_valid_input: "validate_run_input example_manifest example_input = Inr ([], [])"
  by code_simp

lemma example_completes:
  obtains r w' where
    "start_run example_engine ''demo/check'' ''*'' example_input None ''t'' None True None example_world = (Inr r, w')"
    "run_status r = ''completed''" "tbl_flows w' = tbl_flows example_world" "run_flow_id r = flow_id example_manifest"
    "run_flow_version r = version example_manifest"
proof -
  have "case start_run example_engine ''demo/check'' ''*'' example_input None ''t'' None True None example_world of
      (Inr r, w') \<Rightarrow> run_status r = ''completed'' \<and> tbl_flows w' = tbl_flows example_world \<and>
        run_flow_id r = flow_id example_manifest \<and> run_flow_version r = version example_manifest
    | (Inl x, w') \<Rightarrow> False"
    by code_simp
  then show ?thesis using that by (auto split: prod.splits sum.splits)
qed

text \<open>An id that is not a string skips the format check and is taken for the empty id.\<close>

theorem nonstring_id_accepted:
  "case validate_flow_manifest example_lib (dset (KStr ''id'') (PInt 5) example_raw) of
     Inr (Inr m) \<Rightarrow> flow_id m = [] | _ \<Rightarrow> False"
  by code_simp

end
