(* ===== verification/Flow_Run_Properties.thy ===== *)
theory Flow_Run_Properties
  imports Flow_Recovery Flow_Example
begin

text \<open>
  The properties of whole runs and of the flow definitions they execute, stated on the operations
  themselves, with witnesses on the concrete flow of the previous theory.
\<close>

subsection \<open>Definitions that are executed\<close>

text \<open>
  C27. A manifest accepted by validation has a sound graph, nodes with well-formed ids and the fields
  their types require, retry policies with at least one attempt, positive budgets, and triggers that
  name their event or schedule.
\<close>

theorem validate_flow_manifest_sound:
  assumes "validate_flow_manifest lib raw = Inr (Inr m)"
  shows "validate_graph (nodes m) (edges m) (map_option io_schema (flow_input m)) = [] \<and>
    (\<forall>n\<in>set (nodes m). NODE_ID_RE (node_id n) \<and> node_type n \<in> set FLOW_NODE_TYPES \<and>
       (node_type n \<in> set REF_NODE_TYPES \<longleftrightarrow> node_ref n \<noteq> None) \<and> (node_type n = ''map'' \<longleftrightarrow> over n \<noteq> None) \<and>
       (\<forall>p. retries n = Some p \<longrightarrow> 1 \<le> max_attempts p \<and> 0 \<le> initial_delay_sec p)) \<and>
    0 < max_cost_usd (budgets m) \<and> 1 \<le> max_wall_clock_sec (budgets m) \<and> 1 \<le> max_tokens (budgets m) \<and>
    (\<forall>t\<in>set (triggers m). trigger_type t \<in> set TRIGGER_TYPES \<and> (trigger_type t = ''event'' \<longrightarrow> trigger_on t \<noteq> None) \<and>
       (trigger_type t = ''cron'' \<longrightarrow> trigger_schedule t \<noteq> None))"
  using validated_manifest_ok [OF assms]
  by (auto simp: manifest_ok_def node_ok_def budgets_ok_def trigger_ok_def retry_policy_ok_def)

theorem validate_flow_manifest_sound_witness:
  "validate_graph (nodes example_manifest) (edges example_manifest) (map_option io_schema (flow_input example_manifest)) = []"
  using validate_flow_manifest_sound [OF example_validates] by blast

text \<open>
  Resolving a flow id and version range gives a registered definition of that flow that validates,
  whose version is in the range, and such that no other registered valid version of the flow in the
  range is higher, when the version library's order is a strict weak order.
\<close>

theorem resolve_highest:
  assumes "resolve lib fid rng w = Inr m"
    and "\<And>a b c. version_less lib a b \<Longrightarrow> version_less lib b c \<Longrightarrow> version_less lib a c"
    and "\<And>a. \<not> version_less lib a a"
    and "\<And>a b c. \<not> version_less lib a b \<Longrightarrow> \<not> version_less lib b c \<Longrightarrow> \<not> version_less lib a c"
  shows "(\<exists>ver doc. (fid, ver, doc) \<in> set (tbl_flows w) \<and> validate_flow_manifest lib doc = Inr (Inr m)) \<and>
    version_in_range lib (version m) rng = Some True \<and>
    (\<forall>ver doc m'. (fid, ver, doc) \<in> set (tbl_flows w) \<and> validate_flow_manifest lib doc = Inr (Inr m') \<and>
       version_in_range lib (version m') rng = Some True \<longrightarrow> \<not> version_less lib (version m) (version m'))"
proof -
  obtain ms x rest where ms: "list_flows lib (Some fid) w = Inr ms" and f: "matching lib rng ms = Inr (x # rest)"
    and m: "m = highest lib x rest"
    by (rule resolve_found [OF assms(1)])
  have "\<not> version_less lib (version m) (version m')"
    if "(fid, ver, doc) \<in> set (tbl_flows w)" "validate_flow_manifest lib doc = Inr (Inr m')"
      "version_in_range lib (version m') rng = Some True" for ver doc m'
    unfolding m
    by (rule highest_max [OF assms(2-4)]) (use list_flows_complete [OF ms that(1,2)] matching_sub [OF f] that(3) in auto)
  then show ?thesis using resolve_registered(1,2) [OF assms(1)] by blast
qed

theorem resolve_highest_witness:
  "version_in_range example_lib (version example_manifest) ''*'' = Some True"
proof -
  have "\<not> version_less example_lib a c" if "\<not> version_less example_lib a b" "\<not> version_less example_lib b c" for a b c
    using that by (simp add: example_lib_def not_less)
  then show ?thesis
    by (intro conjunct1 [OF conjunct2 [OF resolve_highest [OF example_resolve(1)]]]) (simp_all add: example_lib_def)
qed

subsection \<open>Starting runs\<close>

text \<open>
  C1. Starting and executing a run of a resolved flow on a valid input always stops: the run is
  stored, belongs to the caller's tenant, pins the resolved version, and is completed, failed or
  waiting for a human; the only exception that escapes is the one for a payload that cannot be
  serialised to JSON. No hypothesis is made on what the handlers compute or raise, only that they do
  not write to the run they were invoked for.
\<close>

theorem start_run_stops:
  assumes "handlers_isolated (eng_handlers eng)" and "store_inv w" and "ids_fresh w"
    and "resolve (eng_lib eng) fid rng w = Inr m" and "resolve (eng_lib eng) (flow_id m) (version m) w = Inr m"
    and "bindings_json m" and "is_json (PDict inp)" and "is_json (PDict (default_trigger trig))"
    and "validate_run_input m inp = Inr ([], [])"
  shows "case start_run eng fid rng inp trig tenant parent True cap w of
      (Inr r, w') \<Rightarrow> get_run (run_id r) (Some tenant) w' = Some r \<and> store_inv w' \<and>
        run_status r \<in> {''completed'', ''failed'', ''waiting_human''} \<and> run_flow_id r = flow_id m \<and>
        run_flow_version r = version m \<and> run_input r = inp \<and> run_id r \<notin> run_id ` set (tbl_runs w)
    | (Inl x, w') \<Rightarrow> x = NotSerializable"
proof -
  have "get_run (run_id r) (Some tenant) w' = Some r \<and> store_inv w' \<and> run_status r \<in> {''completed'', ''failed'', ''waiting_human''}"
    if "run_ended eng m cap r w'" "run_tenant_id r = tenant" for r w'
    using that run_atD(1,3) get_run_tenant unfolding run_ended_def by fastforce
  then show ?thesis
    using start_run_wp [OF assms, of tenant parent cap] unfolding wp_def by (auto split: sum.splits prod.splits)
qed

lemmas example_hyps = example_isolated example_store

theorem start_run_stops_witness:
  "case start_run example_engine ''demo/check'' ''*'' example_input None ''t'' None True None example_world of
      (Inr r, w') \<Rightarrow> get_run (run_id r) (Some ''t'') w' = Some r \<and> store_inv w' \<and>
        run_status r \<in> {''completed'', ''failed'', ''waiting_human''} \<and> run_flow_id r = flow_id example_manifest \<and>
        run_flow_version r = version example_manifest \<and> run_input r = example_input \<and>
        run_id r \<notin> run_id ` set (tbl_runs example_world)
    | (Inl x, w') \<Rightarrow> x = NotSerializable"
  by (rule start_run_stops [OF example_hyps _ _ example_json example_valid_input])
    (simp_all add: example_engine_def example_resolve)

text \<open>
  C7. A run that completes has spent no more tokens and no more money than the manifest's budgets and
  the cap given when it was started.
\<close>

theorem completed_run_within_budgets:
  assumes "handlers_isolated (eng_handlers eng)" and "store_inv w" and "ids_fresh w"
    and "resolve (eng_lib eng) fid rng w = Inr m" and "resolve (eng_lib eng) (flow_id m) (version m) w = Inr m"
    and "bindings_json m" and "is_json (PDict inp)" and "is_json (PDict (default_trigger trig))"
    and "validate_run_input m inp = Inr ([], [])"
    and "start_run eng fid rng inp trig tenant parent True cap w = (Inr r, w')" and "run_status r = ''completed''"
    and "b = budgets m \<or> cap = Some b"
  shows "tokens (metrics_of (run_state r)) \<le> of_int (max_tokens b) \<and> cost_usd (metrics_of (run_state r)) \<le> max_cost_usd b"
  using wp_InrD [OF start_run_wp [OF assms(1-9)] assms(10)] assms(11,12)
  by (auto simp: run_ended_def within_budgets_def)

theorem completed_run_within_budgets_witness:
  "case start_run example_engine ''demo/check'' ''*'' example_input None ''t'' None True None example_world of
     (Inr r, w') \<Rightarrow> tokens (metrics_of (run_state r)) \<le> of_int (max_tokens (budgets example_manifest))
   | (Inl x, w') \<Rightarrow> False"
proof -
  obtain r w' where r: "start_run example_engine ''demo/check'' ''*'' example_input None ''t'' None True None example_world = (Inr r, w')"
    "run_status r = ''completed''" by (rule example_completes)
  have "tokens (metrics_of (run_state r)) \<le> of_int (max_tokens (budgets example_manifest))"
    using completed_run_within_budgets [OF example_hyps _ _ example_json example_valid_input r disjI1 [OF refl]]
    by (simp add: example_engine_def example_resolve)
  then show ?thesis using r(1) by simp
qed

text \<open>
  C2. Replaying a run that stopped in a terminal status, from its persisted steps and without invoking
  a handler, reproduces its decision path: the report is deterministic, the replayed node sequence is
  the recorded one, and the run's row and steps are left as they were.
\<close>

theorem started_run_replays:
  assumes "handlers_isolated (eng_handlers eng)" and "store_inv w" and "ids_fresh w"
    and "resolve (eng_lib eng) fid rng w = Inr m" and "resolve (eng_lib eng) (flow_id m) (version m) w = Inr m"
    and "bindings_json m" and "is_json (PDict inp)" and "is_json (PDict (default_trigger trig))"
    and "validate_run_input m inp = Inr ([], [])"
    and "start_run eng fid rng inp trig tenant parent True cap w = (Inr r, w')" and "run_status r \<in> set TERMINAL_RUN_STATUSES"
    and "resolve (eng_lib eng) (run_flow_id r) (run_flow_version r) w' = Inr m"
  shows "\<exists>rep w''. replay_run eng (run_id r) w' = (Inr rep, w'') \<and> deterministic rep \<and> divergences rep = [] \<and>
    replayed_sequence rep = recorded_sequence rep \<and>
    get_run (run_id r) None w'' = Some r \<and> list_steps (run_id r) w'' = list_steps (run_id r) w'"
proof -
  from wp_InrD [OF start_run_wp [OF assms(1-9)] assms(10)] obtain e S Es where e: "entry_node m = Some e"
    and at: "run_at (run_id r) r S Es w'" and reps: "replays (eng_env eng) m (origin (node_id e)) r S"
    by (auto simp: run_ended_def)
  from wp_Inr [OF replay_run_wp [OF at assms(11,12) e reps]] obtain rep w'' ev
    where "replay_run eng (run_id r) w' = (Inr rep, w'')" "deterministic rep" "divergences rep = []"
      "replayed_sequence rep = recorded_sequence rep" and at': "run_at (run_id r) r S (Es @ [ev]) w''" by blast
  then show ?thesis using run_atD(3,4) [OF at'] run_atD(4) [OF at] by (intro exI [of _ rep] exI [of _ w'']) simp
qed

theorem started_run_replays_witness:
  "\<exists>r w' rep w''. start_run example_engine ''demo/check'' ''*'' example_input None ''t'' None True None example_world = (Inr r, w') \<and>
     replay_run example_engine (run_id r) w' = (Inr rep, w'') \<and> deterministic rep"
proof -
  obtain r w' where r: "start_run example_engine ''demo/check'' ''*'' example_input None ''t'' None True None example_world = (Inr r, w')"
    "run_status r = ''completed''" "tbl_flows w' = tbl_flows example_world" "run_flow_id r = flow_id example_manifest"
    "run_flow_version r = version example_manifest" by (rule example_completes)
  have "resolve (eng_lib example_engine) (run_flow_id r) (run_flow_version r) w' = Inr example_manifest"
    unfolding resolve_cong [OF r(3)] r(4,5) by (simp add: example_engine_def example_resolve)
  then show ?thesis
    using started_run_replays [OF example_hyps _ _ example_json example_valid_input r(1)] r(1,2)
    by (force simp: example_engine_def example_resolve TERMINAL_RUN_STATUSES_def)
qed

text \<open>
  Replay reports a run as deterministic exactly when its completed steps are the path the manifest
  dictates: each ran at the cursor on the input its bindings render to, routing after it gives the
  next cursor, and the path ends at the persisted cursor or at the routing failure that stopped it.
\<close>

theorem replay_deterministic_iff:
  assumes "entry_node m = Some e"
  shows "(\<exists>rep. replay_decision_path env m r S = Inr rep \<and> deterministic rep) \<longleftrightarrow> replays env m (origin (node_id e)) r S"
  using replay_of_replays [OF assms] replays_of_replay [OF assms] by blast

text \<open>A run that died after its first step was committed and before the checkpoint was written.\<close>

definition crashed_run :: flow_run_record where
  "crashed_run = \<lparr>run_id = ''0'', run_flow_id = ''demo/check'', run_flow_version = ''1.0.0'', run_tenant_id = ''t'',
     run_status = ''running'', stop_reason = [], run_trigger = [], run_input = example_input,
     run_state = start_state ''gate'' None, run_output = None, parent_run_id = None, created_at = 0, updated_at = 0\<rparr>"

definition committed_step :: flow_step_record where
  "committed_step = \<lparr>step_id = ''1'', step_run_id = ''0'', step_node_id = ''gate'', step_node_type = ''conditional'',
     step_status = ''completed'', step_attempt = 1, step_input = [], step_output = Some [], step_error = [],
     step_started_at = 0, step_completed_at = Some 1, step_sequence = 1\<rparr>"

theorem replay_deterministic_iff_witness:
  "replays example_env example_manifest (origin ''gate'') (crashed_run\<lparr>run_state := start_state ''accept'' None\<rparr>) [committed_step]"
proof -
  have e: "entry_node example_manifest = Some (hd (nodes example_manifest))" "node_id (hd (nodes example_manifest)) = ''gate''"
    by code_simp+
  have "case replay_decision_path example_env example_manifest (crashed_run\<lparr>run_state := start_state ''accept'' None\<rparr>) [committed_step] of
      Inl _ \<Rightarrow> False | Inr rep \<Rightarrow> deterministic rep" by code_simp
  then show ?thesis
    using replay_deterministic_iff [OF e(1), of example_env "crashed_run\<lparr>run_state := start_state ''accept'' None\<rparr>" "[committed_step]"]
    by (auto simp: e(2) split: sum.splits)
qed

subsection \<open>Executing and resuming runs\<close>

text \<open>
  Executing a run in a terminal status returns its record and changes nothing, resuming it raises
  and changes nothing; executing, resuming or replaying an unknown run raises and changes nothing.
\<close>

theorem terminal_runs_stay:
  "case get_run rid None w of
     None \<Rightarrow> execute_run eng rid cap w = (Inl (UnknownRun rid), w) \<and> resume_run eng rid w = (Inl (UnknownRun rid), w) \<and>
       replay_run eng rid w = (Inl (UnknownRun rid), w)
   | Some r \<Rightarrow>
       if run_status r \<in> set TERMINAL_RUN_STATUSES
       then execute_run eng rid cap w = (Inr r, w) \<and> resume_run eng rid w = (Inl (TerminalRun rid (run_status r)), w)
       else replay_run eng rid w = (Inl (NotTerminalRun rid (run_status r)), w)"
  by (simp add: execute_run_def resume_run_def replay_run_def bind_a_def gets_a_def return_a_def raise_a_def
      split: option.splits)

text \<open>
  C6. Resuming a run that a crash interrupted recovers it. The process may have died with steps still
  marked running, and between committing a step's result and folding it into the checkpoint; then the
  recorded result is used and the node is not run again. The resumed run ends as an uninterrupted one
  would: stored, stopped, with a history that replays, and within its budgets when it completes.
\<close>

theorem resume_run_recovers:
  assumes "handlers_isolated (eng_handlers eng)" and "run_at rid R S Es w" and "entry_node m = Some e"
    and "recoverable (eng_env eng) m (node_id e) R S Es"
    and "resolve (eng_lib eng) (run_flow_id R) (run_flow_version R) w = Inr m" and "bindings_json m"
  shows "case resume_run eng rid w of
      (Inr r, w') \<Rightarrow> get_run rid None w' = Some r \<and> same_run R r \<and> run_status r \<in> {''completed'', ''failed'', ''waiting_human''} \<and>
        (\<exists>S'. list_steps rid w' = S' \<and> replays (eng_env eng) m (origin (node_id e)) r S') \<and>
        (run_status r = ''completed'' \<longrightarrow>
           within_budgets (effective_budgets (budgets m) (run_state R) None) (run_state r))
    | (Inl x, w') \<Rightarrow> x = NotSerializable"
proof -
  have "run_id R = rid" by (rule run_atD(6) [OF assms(2)])
  then have "get_run rid None w' = Some r \<and> list_steps rid w' = S'" if "run_at (run_id R) r S' Es' w'" for r S' Es' w'
    using run_atD(3,4) [OF that] by simp
  then show ?thesis
    using resume_run_wp [OF assms] unfolding wp_def finished_def by (auto split: sum.splits prod.splits)
qed

definition crashed_world :: world where
  "crashed_world = example_world\<lparr>tbl_runs := [crashed_run], tbl_steps := [committed_step], uuid_supply := 2\<rparr>"

lemma crashed_at: "run_at ''0'' crashed_run [committed_step] [] crashed_world"
proof -
  have id0: "''0'' = str_nat 0" "''1'' = str_nat 1" by code_simp+
  have "ids_of crashed_world = {''0'', ''1''}"
    by (auto simp: ids_of_def crashed_world_def crashed_run_def committed_step_def example_world_def)
  then have "ids_fresh crashed_world" unfolding ids_fresh_def id0 by (auto simp: crashed_world_def)
  moreover have "store_inv crashed_world"
    by (simp add: store_inv_def contiguous_def run_row_ok_def step_row_ok_def crashed_world_def crashed_run_def
        committed_step_def example_world_def RUN_STATUSES_def STEP_STATUSES_def example_input_def
        start_state_simps(2) [unfolded state_ok_def])
  moreover have "view ''0'' crashed_world = \<lparr>v_row = Some crashed_run, v_steps = [committed_step], v_events = []\<rparr>"
    by (simp add: view_def get_run_def list_steps_def list_events_def in_order_def crashed_world_def crashed_run_def
        committed_step_def example_world_def)
  ultimately show ?thesis by (simp add: run_at_def)
qed

lemma crashed_recoverable:
  "recoverable example_env example_manifest ''gate'' crashed_run [committed_step] []"
proof -
  have "step_matches example_env example_manifest example_input (Some ''gate'') [] committed_step =
      Some (hd (nodes example_manifest))" by code_simp
  then show ?thesis
    unfolding recoverable_def
    by (simp add: completed_steps_def crashed_run_def committed_step_def TERMINAL_RUN_STATUSES_def completed_event_steps_def)
      (simp add: start_state_def)
qed

theorem resume_run_recovers_witness:
  "case resume_run example_engine ''0'' crashed_world of
      (Inr r, w') \<Rightarrow> get_run ''0'' None w' = Some r \<and> run_status r \<in> {''completed'', ''failed'', ''waiting_human''}
    | (Inl x, w') \<Rightarrow> x = NotSerializable"
proof -
  have "entry_node example_manifest = Some (hd (nodes example_manifest))" by code_simp
  moreover have "node_id (hd (nodes example_manifest)) = ''gate''" by code_simp
  moreover have "resolve example_lib (run_flow_id crashed_run) (run_flow_version crashed_run) crashed_world = Inr example_manifest"
    using resolve_cong [of crashed_world example_world] example_resolve(2)
    by (simp add: crashed_run_def crashed_world_def example_manifest_def)
  ultimately show ?thesis
    using resume_run_recovers [OF example_isolated crashed_at _ _ _ example_json(1), of "hd (nodes example_manifest)"]
      crashed_recoverable
    by (auto simp: example_engine_def split: prod.splits sum.splits)
qed

text \<open>
  C25. The attempts at a node are bounded and numbered: an activation makes at most as many attempts as
  the retry policy allows, appends one step for each, numbered from one in order, all but the last
  failed, and when it gives up the run is failed with the documented reasons.
\<close>

theorem attempts_bounded:
  assumes "handlers_isolated (eng_handlers eng)" and "json_doc inp = Some j" and "json_state st = Some st"
    and "run_at (run_id run) R S Es w"
  shows "\<exists>res w' S1. attempt_loop (nat (max (max_attempts policy) 1)) eng run m n st inp policy bud deadline 1 w = (Inr res, w') \<and>
    failed_attempts n 1 S1 \<and>
    (case res of
       Attempted s out \<Rightarrow> int (length S1) < max (max_attempts policy) 1 \<and> list_steps (run_id run) w' = S @ S1 @ [s\<lparr>step_input := j\<rparr>] \<and>
         step_attempt s = int (length S1) + 1 \<and> step_node_id s = node_id n
     | Stopped r \<Rightarrow> int (length S1) \<le> max (max_attempts policy) 1 \<and> list_steps (run_id run) w' = S @ S1 \<and>
         get_run (run_id run) None w' = Some r \<and> run_status r = ''failed'' \<and>
         stop_reason r \<in> {''node_failed'', ''unsupported_node'', ''budget_exhausted''})"
proof -
  let ?k = "nat (max (max_attempts policy) 1)"
  have "wp (attempt_loop ?k eng run m n st inp policy bud deadline 1) (attempt_post ?k run n st j 1 R S) (\<lambda>_ _. False) w"
    by (rule attempt_loop_wp [OF assms]) auto
  from wp_Inr [OF this] obtain res w' where run: "attempt_loop ?k eng run m n st inp policy bud deadline 1 w = (Inr res, w')"
    and post: "attempt_post ?k run n st j 1 R S res w'" by blast
  from post obtain S1 Es' where S1: "failed_attempts n 1 S1" and c: "case res of
      Attempted s out \<Rightarrow> length S1 < ?k \<and> run_at (run_id run) R (S @ S1 @ [s\<lparr>step_input := j\<rparr>]) Es' w' \<and>
        step_node_id s = node_id n \<and> step_node_type s = node_type n \<and> step_status s = ''running'' \<and>
        step_run_id s = run_id run \<and> step_attempt s = 1 + int (length S1)
    | Stopped r \<Rightarrow> length S1 \<le> ?k \<and> run_at (run_id run) r (S @ S1) Es' w' \<and>
        settled R r ''failed'' (stop_reason r) st \<and> stop_reason r \<in> node_failure_reasons"
    unfolding attempt_post_def by blast
  show ?thesis
  proof (cases res)
    case (Attempted s out)
    then show ?thesis using run S1 c run_atD(4) [of "run_id run" R "S @ S1 @ [s\<lparr>step_input := j\<rparr>]" Es' w']
      by (intro exI [of _ res] exI [of _ w'] exI [of _ S1]) auto
  next
    case (Stopped r)
    then show ?thesis using run S1 c run_atD(3,4) [of "run_id run" r "S @ S1" Es' w']
      by (intro exI [of _ res] exI [of _ w'] exI [of _ S1]) (auto simp: settled_def node_failure_reasons_def)
  qed
qed

theorem attempts_bounded_witness:
  "\<exists>res w'. attempt_loop 1 example_engine crashed_run example_manifest (hd (nodes example_manifest)) (start_state ''gate'' None) []
     DEFAULT_FLOW_RETRIES DEFAULT_FLOW_BUDGETS 100 1 crashed_world = (Inr res, w')"
proof -
  have "json_state (start_state ''gate'' None) = Some (start_state ''gate'' None)"
    using start_state_simps(2) by (simp add: state_ok_def)
  moreover have "run_at (run_id crashed_run) crashed_run [committed_step] [] crashed_world"
    using crashed_at by (simp add: crashed_run_def)
  moreover have "nat (max (max_attempts DEFAULT_FLOW_RETRIES) 1) = 1" by (simp add: DEFAULT_FLOW_RETRIES_def)
  ultimately show ?thesis
    using attempts_bounded [OF example_isolated, of "[]" "[]" "start_state ''gate'' None" crashed_run crashed_run "[committed_step]" "[]"
        crashed_world DEFAULT_FLOW_RETRIES example_manifest "hd (nodes example_manifest)" DEFAULT_FLOW_BUDGETS 100]
    by (fastforce simp: json_doc_def)
qed

end
