(* ===== verification/Flow_Human.thy ===== *)
theory Flow_Human
  imports Flow_Recovery
begin

text \<open>
  Human decisions (\<^verbatim>\<open>backend/flows/human.py\<close>): the pending request of a paused run, recording a
  decision with edits of earlier outputs, and the expiry of overdue waits through the timeout edge.
\<close>

subsection \<open>The paused run\<close>

record pending_request =
  req_run_id :: string
  req_node_id :: string
  req_prompt :: string
  req_form :: "pydict option"
  req_expires :: pyval

definition pause_expiry :: "run_state \<Rightarrow> pyval" where
  "pause_expiry st = (case st_pause st of None \<Rightarrow> PNone | Some p \<Rightarrow> pause_expires p)"

text \<open>\<open>str(pause.get("nodeId") or run.state.get("cursor"))\<close>.\<close>

definition waiting_node_id :: "run_state \<Rightarrow> string" where
  "waiting_node_id st =
     (let cursor = (case cursor_of st of None \<Rightarrow> ''None'' | Some c \<Rightarrow> c)
      in case st_pause st of None \<Rightarrow> cursor | Some p \<Rightarrow> if pause_node p = [] then cursor else pause_node p)"

definition manifest_node :: "flow_manifest \<Rightarrow> string \<Rightarrow> flow_node flow_action" where
  "manifest_node m nid = (case find_node m nid of None \<Rightarrow> raise_a (KeyError (flow_id m) nid) | Some n \<Rightarrow> return_a n)"

definition pending :: "flow_engine \<Rightarrow> string \<Rightarrow> pending_request option flow_action" where
  "pending eng rid =
     bind_a (gets_a (get_run rid None)) (\<lambda>r.
     case r of
       None \<Rightarrow> raise_a (HumanUnknownRun rid)
     | Some run \<Rightarrow>
         if run_status run \<noteq> ''waiting_human'' then return_a None
         else bind_a (resolve_action eng (run_flow_id run) (run_flow_version run)) (\<lambda>m.
           bind_a (manifest_node m (waiting_node_id (run_state run))) (\<lambda>n.
           return_a (Some \<lparr>req_run_id = run_id run, req_node_id = node_id n,
             req_prompt = (case prompt n of None \<Rightarrow> [] | Some p \<Rightarrow> p), req_form = form n,
             req_expires = pause_expiry (run_state run)\<rparr>))))"

definition waiting_step :: "string \<Rightarrow> string option \<Rightarrow> flow_step_record flow_action" where
  "waiting_step rid sid =
     bind_a (gets_a (list_steps rid)) (\<lambda>all.
     case List.find (\<lambda>s. case sid of Some i \<Rightarrow> step_id s = i | None \<Rightarrow> step_status s = ''waiting_human'') (rev all) of
       None \<Rightarrow> raise_a (HumanNoWaitingStep rid)
     | Some s \<Rightarrow> return_a s)"

definition waiting_parts :: "flow_engine \<Rightarrow> flow_run_record \<Rightarrow> (flow_manifest \<times> flow_node \<times> flow_step_record) flow_action" where
  "waiting_parts eng run =
     bind_a (resolve_action eng (run_flow_id run) (run_flow_version run)) (\<lambda>m.
     bind_a (manifest_node m (waiting_node_id (run_state run))) (\<lambda>n.
     bind_a (waiting_step (run_id run) (map_option pause_step (st_pause (run_state run)))) (\<lambda>s.
     return_a (m, n, s))))"

definition waiting_context :: "flow_engine \<Rightarrow> string \<Rightarrow>
    (flow_run_record \<times> flow_manifest \<times> flow_node \<times> flow_step_record) flow_action" where
  "waiting_context eng rid =
     bind_a (gets_a (get_run rid None)) (\<lambda>r.
     case r of
       None \<Rightarrow> raise_a (HumanUnknownRun rid)
     | Some run \<Rightarrow>
         if run_status run \<noteq> ''waiting_human'' then raise_a (HumanStateError rid (run_status run))
         else bind_a (waiting_parts eng run) (\<lambda>p. return_a (run, p)))"

definition expired :: "py_env \<Rightarrow> pyval \<Rightarrow> int option \<Rightarrow> bool flow_action" where
  "expired env expires moment =
     (case fromisoformat env (py_str env expires) of
        None \<Rightarrow> raise_a (InvalidTimestamp (py_str env expires))
      | Some deadline \<Rightarrow>
          bind_a (case moment of None \<Rightarrow> utcnow | Some t \<Rightarrow> return_a t) (\<lambda>t. return_a (deadline \<le> t)))"

definition wait_due :: "py_env \<Rightarrow> run_state \<Rightarrow> int option \<Rightarrow> bool flow_action" where
  "wait_due env st moment =
     (if pause_expiry st = PNone then return_a False else expired env (pause_expiry st) moment)"

subsection \<open>Decisions\<close>

definition validate_decision :: "pydict option \<Rightarrow> pydict \<Rightarrow> (flow_exc, pyval list \<times> pykey list) result" where
  "validate_decision frm decision = (case frm of None \<Rightarrow> Inr ([], []) | Some f \<Rightarrow> schema_errors f decision)"

definition apply_edit :: "flow_manifest \<Rightarrow> flow_node \<Rightarrow> pykey \<Rightarrow> pyval \<Rightarrow> pydict \<Rightarrow> (flow_exc, pydict) result" where
  "apply_edit m human k v ns =
     (case v of
        PDict patch \<Rightarrow>
          (let nid = str_key k in
           if nid = node_id human then Inl (HumanDecisionError EditsTargetHuman)
           else if find_node m nid = None then Inl (HumanDecisionError (EditsUnknownNode k))
           else case (case dget ns nid of None \<Rightarrow> PDict [] | Some e \<Rightarrow> e) of
                  PDict entry \<Rightarrow>
                    (let out = (case dget entry ''output'' of Some (PDict d) \<Rightarrow> d | _ \<Rightarrow> [])
                     in Inr (dset (KStr nid) (PDict (dset (KStr ''output'') (PDict (dmerge out patch)) entry)) ns))
                | _ \<Rightarrow> Inl (AttributeError ''get''))
      | _ \<Rightarrow> Inl (HumanDecisionError (EditPatchNotObject k)))"

fun apply_edit_list :: "flow_manifest \<Rightarrow> flow_node \<Rightarrow> (pykey \<times> pyval) list \<Rightarrow> pydict \<Rightarrow> (flow_exc, pydict) result" where
  "apply_edit_list m human [] ns = Inr ns"
| "apply_edit_list m human ((k, v) # es) ns = bind_r (apply_edit m human k v ns) (apply_edit_list m human es)"

definition apply_edits :: "flow_manifest \<Rightarrow> flow_node \<Rightarrow> pydict \<Rightarrow> pyval \<Rightarrow> (flow_exc, pydict) result" where
  "apply_edits m human ns edits =
     (case edits of
        PNone \<Rightarrow> Inr ns
      | PDict es \<Rightarrow> apply_edit_list m human es ns
      | _ \<Rightarrow> Inl (HumanDecisionError EditsNotObject))"

text \<open>The checkpoint, the completion event and the execution that follow a chosen next node.\<close>

definition continue_run :: "flow_engine \<Rightarrow> flow_run_record \<Rightarrow> flow_node \<Rightarrow> flow_step_record \<Rightarrow> run_state \<Rightarrow> string option \<Rightarrow>
    flow_run_record flow_action" where
  "continue_run eng run n s st nxt =
     then_a (update_run (run_id run) None None (Some (st\<lparr>st_cursor := Some nxt\<rparr>)) None)
     (then_a (append_event (run_id run) (StepCompleted (node_id n) (step_id s) (step_attempt s) nxt False))
     (execute_run eng (run_id run) None))"

definition human_resume :: "flow_engine \<Rightarrow> flow_run_record \<Rightarrow> flow_manifest \<Rightarrow> flow_node \<Rightarrow> flow_step_record \<Rightarrow> run_state \<Rightarrow>
    flow_run_record flow_action" where
  "human_resume eng run m n s st =
     (case select_next_node m n (build_eval_state (run_input run) (nodes_of st)) of
        Inl err \<Rightarrow> route_failure (run_id run) st (node_id n) err
      | Inr nxt \<Rightarrow> continue_run eng run n s st nxt)"

text \<open>The state after the wait is over: the node's output is recorded and the pause is gone.\<close>

definition wait_over :: "run_state \<Rightarrow> string \<Rightarrow> pydict \<Rightarrow> pydict \<Rightarrow> run_state" where
  "wait_over st nid out ns = st\<lparr>st_nodes := Some (dset (KStr nid) (node_output_entry out) ns), st_pause := None\<rparr>"

definition timeout_target :: "flow_manifest \<Rightarrow> flow_node \<Rightarrow> string option" where
  "timeout_target m n =
     (case on_timeout n of
        Some t \<Rightarrow> Some t
      | None \<Rightarrow> map_option target (List.find (\<lambda>e. edge_on e = Some ''timeout'') (edges_from m (node_id n))))"

definition route_timeout :: "flow_engine \<Rightarrow> flow_run_record \<Rightarrow> flow_manifest \<Rightarrow> flow_node \<Rightarrow> flow_step_record \<Rightarrow>
    flow_run_record flow_action" where
  "route_timeout eng run m n s =
     (let out = [(KStr ''timedOut'', PBool True)];
          st = wait_over (run_state run) (node_id n) out (nodes_of (run_state run))
      in then_a (complete_step (step_id s) ''completed'' (Some out) [])
         (then_a (append_event (run_id run) (HumanTimeoutExpired (node_id n) (step_id s) (pause_expiry (run_state run))))
         (case timeout_target m n of
            None \<Rightarrow> fail_run (run_id run) st ''no_route'' (TimeoutDetail (node_id n))
          | Some t \<Rightarrow> continue_run eng run n s st (Some t))))"

definition record_decision :: "flow_engine \<Rightarrow> flow_run_record \<Rightarrow> flow_manifest \<Rightarrow> flow_node \<Rightarrow> flow_step_record \<Rightarrow> pydict \<Rightarrow>
    string \<Rightarrow> flow_run_record flow_action" where
  "record_decision eng run m n s decision actor =
     bind_a (lift_a (validate_decision (form n) decision)) (\<lambda>errs.
     if errs \<noteq> ([], []) then raise_a (HumanDecisionError (InvalidDecision (fst errs) (snd errs)))
     else bind_a (lift_a (apply_edits m n (nodes_of (run_state run)) (dget_none decision ''edits''))) (\<lambda>ns.
       then_a (complete_step (step_id s) ''completed'' (Some decision) [])
       (then_a (append_event (run_id run) (HumanDecisionRecorded (node_id n) (step_id s) actor decision))
       (human_resume eng run m n s (wait_over (run_state run) (node_id n) decision ns)))))"

definition decide :: "flow_engine \<Rightarrow> string \<Rightarrow> pydict \<Rightarrow> string \<Rightarrow> flow_run_record flow_action" where
  "decide eng rid decision actor =
     bind_a (waiting_context eng rid) (\<lambda>(run, m, n, s).
     bind_a (wait_due (eng_env eng) (run_state run) None) (\<lambda>due.
     if due then then_a (route_timeout eng run m n s) (raise_a (HumanDecisionError (WaitExpired (pause_expiry (run_state run)))))
     else record_decision eng run m n s decision actor))"

subsection \<open>Expiring overdue waits\<close>

fun expire_loop :: "flow_engine \<Rightarrow> int option \<Rightarrow> flow_run_record list \<Rightarrow> string list flow_action" where
  "expire_loop eng moment [] = return_a []"
| "expire_loop eng moment (run # rest) =
     bind_a (wait_due (eng_env eng) (run_state run) moment) (\<lambda>due.
     if \<not> due then expire_loop eng moment rest
     else bind_a (waiting_parts eng run) (\<lambda>(m, n, s).
       then_a (route_timeout eng run m n s)
       (bind_a (expire_loop eng moment rest) (\<lambda>ids. return_a (run_id run # ids)))))"

definition expire_due :: "flow_engine \<Rightarrow> int option \<Rightarrow> string list flow_action" where
  "expire_due eng moment = bind_a (gets_a (list_runs None (Some ''waiting_human'') None)) (expire_loop eng moment)"

end
