(* ===== verification/Flow_Frame.thy ===== *)
theory Flow_Frame
  imports Flow_Runs
begin

text \<open>
  What the execution of one run does to the rest of the store. The locale \<open>engine_invariant\<close> lifts a
  predicate kept by the writes to one run and by the handlers to the whole engine, for any engine and
  any starting point, whether an operation returns or raises. Its instances are the frame of a run
  (every other run keeps its row, its steps and its events) and the identity of a run (the fields that
  never change).
\<close>

subsection \<open>Invariants of the engine\<close>

text \<open>A stopped run: its stored record, within the budgets when it is completed.\<close>

definition stopped_within :: "flow_budgets \<Rightarrow> string \<Rightarrow> flow_run_record \<Rightarrow> world \<Rightarrow> bool" where
  "stopped_within b rid r w \<longleftrightarrow> get_run rid None w = Some r \<and>
     (run_status r = ''completed'' \<longrightarrow> within_budgets b (run_state r))"

lemma wp_append_event_runs:
  "tbl_runs w = T \<Longrightarrow> wp (append_event rid p) (\<lambda>_ w'. tbl_runs w' = T) (\<lambda>_ w'. tbl_runs w' = T) w"
  by (simp add: append_event_def Let_def)

lemma get_run_cong: "tbl_runs w' = tbl_runs w \<Longrightarrow> get_run rid t w' = get_run rid t w"
  by (simp add: get_run_def split: option.split)

lemma json_state_metrics: "json_state st = Some s \<Longrightarrow> metrics_of s = metrics_of st"
  by (auto simp: json_state_def metrics_of_def split: option.splits)

text \<open>The row of a run has a status and, with it, the metrics of a state.\<close>

definition row_is :: "string \<Rightarrow> string \<Rightarrow> run_state \<Rightarrow> world \<Rightarrow> bool" where
  "row_is rid status st w \<longleftrightarrow>
     (\<forall>r. get_run rid None w = Some r \<longrightarrow> run_status r = status \<and> metrics_of (run_state r) = metrics_of st)"

lemma update_run_row: "wp (update_run rid (Some status) reason (Some st) out) (\<lambda>_. row_is rid status st) (\<lambda>_ _. True) w"
  by (auto simp: wp_update_run row_is_def get_run_set_run json_opt_def json_state_metrics split: option.splits)

lemma append_event_row:
  assumes "row_is rid status st w"
  shows "wp (append_event i p) (\<lambda>_. row_is rid status st) (\<lambda>_ _. True) w"
proof (rule wp_mono [OF wp_append_event_runs [OF refl]])
  fix x and w' :: world
  assume "tbl_runs w' = tbl_runs w"
  with assms show "row_is rid status st w'" by (simp add: row_is_def get_run_cong [of w' w])
qed simp

lemma row_is_bus [simp]: "row_is rid status st (w\<lparr>bus := b\<rparr>) = row_is rid status st w"
  by (simp add: row_is_def get_run_def)

lemma require_run_row:
  assumes "row_is rid status st w" and "status = ''completed'' \<Longrightarrow> within_budgets b st"
  shows "wp (require_run rid) (stopped_within b rid) (\<lambda>_ _. True) w"
  using assms by (auto simp: require_run_def row_is_def stopped_within_def within_budgets_def split: option.splits)

lemma stopped_within_bus [simp]: "stopped_within b rid r (w\<lparr>bus := x\<rparr>) = stopped_within b rid r w"
  by (simp add: stopped_within_def get_run_def)

lemma fail_run_stops: "wp (fail_run rid st reason d) (stopped_within b rid) (\<lambda>_ _. True) w"
  unfolding fail_run_def
  by (intro wp_thenI [OF update_run_row] wp_thenI [OF append_event_row] wp_bindI [OF require_run_row [where b = b]]) auto

lemma complete_run_stops:
  "within_budgets b st \<Longrightarrow> wp (complete_run run m st) (stopped_within b (run_id run)) (\<lambda>_ _. True) w"
  unfolding complete_run_def Let_def
  by (intro wp_thenI [OF update_run_row] wp_thenI [OF append_event_row])
    (auto intro!: require_run_row [where status = "''completed''" and st = st])

lemma wp_any: "wp m (\<lambda>_ _. True) (\<lambda>_ _. True) w"
  by (simp add: wp_def split: prod.splits sum.splits)

lemma pause_run_stops: "wp (pause_run run n s st out) (stopped_within b (run_id run)) (\<lambda>_ _. True) w"
  unfolding pause_run_def Let_def
  by (intro wp_thenI [OF wp_any] wp_thenI [OF update_run_row] wp_thenI [OF append_event_row] require_run_row) auto

definition attempt_stops :: "flow_budgets \<Rightarrow> string \<Rightarrow> attempt_result \<Rightarrow> world \<Rightarrow> bool" where
  "attempt_stops b rid res w \<longleftrightarrow> (case res of Attempted s out \<Rightarrow> True | Stopped r \<Rightarrow> stopped_within b rid r w)"

lemma fail_attempt_stops:
  "wp (bind_a (fail_run rid st reason d) (\<lambda>r. return_a (Stopped r))) (attempt_stops b rid) (\<lambda>_ _. True) w"
  by (rule wp_bindI [OF fail_run_stops [where b = b]]) (simp add: attempt_stops_def)

lemma attempt_failed_stops:
  assumes "\<And>w. wp again (attempt_stops b (run_id run)) (\<lambda>_ _. True) w"
  shows "wp (attempt_failed run n st policy bud deadline a s again exc) (attempt_stops b (run_id run)) (\<lambda>_ _. True) w"
  unfolding attempt_failed_def Let_def
  by (intro wp_thenI [OF wp_any]) (auto simp: fail_attempt_stops assms simp del: wp_bind intro!: wp_bindI [OF wp_any])

lemma attempt_loop_stops:
  "wp (attempt_loop k eng run m n st inp policy bud deadline a) (attempt_stops b (run_id run)) (\<lambda>_ _. True) w"
proof (induction k arbitrary: a w)
  case (Suc k)
  show ?case
    unfolding attempt_loop.simps
    by (intro wp_bindI [OF wp_any] wp_thenI [OF wp_any] wp_tryI [OF wp_any] attempt_failed_stops Suc.IH)
      (simp add: attempt_stops_def)
qed simp

text \<open>An activation stops the run or goes on.\<close>

definition step_stops :: "flow_budgets \<Rightarrow> string \<Rightarrow> flow_run_record option \<times> run_state \<Rightarrow> world \<Rightarrow> bool" where
  "step_stops b rid p w \<longleftrightarrow> (case fst p of None \<Rightarrow> True | Some r \<Rightarrow> stopped_within b rid r w)"

lemma stop_step:
  assumes "wp m (stopped_within b rid) (\<lambda>_ _. True) w"
  shows "wp (bind_a m (\<lambda>r. return_a (Some r, st))) (step_stops b rid) (\<lambda>_ _. True) w"
  by (rule wp_bindI [OF assms]) (simp add: step_stops_def)

lemma route_failure_stops: "wp (route_failure rid st nid err) (stopped_within b rid) (\<lambda>_ _. True) w"
  by (cases err) (simp_all add: route_failure_def fail_run_stops)

lemma go_on: "wp (return_a (None, st)) (step_stops b rid) E w"
  by (simp add: step_stops_def)

lemma finish_step_stops: "wp (finish_step run m n st s out) (step_stops b (run_id run)) (\<lambda>_ _. True) w"
proof (cases "canonical_output (outcome_output out)")
  case None
  then show ?thesis
    unfolding finish_step_def by (simp del: wp_bind wp_then) (intro wp_thenI [OF wp_any] stop_step fail_run_stops)
next
  case (Some d)
  let ?st = "charge (outcome_metrics out) (record_output (node_id n) d st)"
  show ?thesis
  proof (cases "select_next_node m n (build_eval_state (run_input run) (nodes_of ?st))")
    case (Inl err)
    then show ?thesis
      unfolding finish_step_def Some
      by (simp add: Let_def del: wp_bind wp_then) (intro wp_thenI [OF wp_any] stop_step route_failure_stops)
  next
    case (Inr nxt)
    then show ?thesis
      unfolding finish_step_def Some
      by (simp add: Let_def del: wp_bind wp_then wp_return) (intro wp_thenI [OF wp_any] go_on)
  qed
qed

lemma activate_node_stops:
  "wp (activate_node eng run m n st bud deadline) (step_stops b (run_id run)) (\<lambda>_ _. True) w"
proof (cases "render_step_input (eng_env eng) n (build_eval_state (run_input run) (nodes_of st))")
  case (Inl err)
  then show ?thesis unfolding activate_node_def by (simp del: wp_bind) (intro stop_step fail_run_stops)
next
  case (Inr inp)
  have rest: "wp (case res of Stopped r \<Rightarrow> return_a (Some r, st)
       | Attempted s out \<Rightarrow> if outcome_status out = ''waiting_human'' then bind_a (pause_run run n s st out) (\<lambda>r. return_a (Some r, st))
           else finish_step run m n st s out) (step_stops b (run_id run)) (\<lambda>_ _. True) w'"
    if "attempt_stops b (run_id run) res w'" for res w'
    using that by (cases res) (auto simp: attempt_stops_def step_stops_def simp del: wp_bind
        intro!: stop_step pause_run_stops finish_step_stops)
  show ?thesis
    unfolding activate_node_def Inr sum.case Let_def
    by (rule wp_bindI [OF attempt_loop_stops [where b = b]]) (rule rest)
qed

lemma budget_violation_within: "budget_violation b st t 0 k = None \<Longrightarrow> within_budgets b st"
  by (auto simp: budget_violation_def within_budgets_def split: if_splits)

lemma drive_stops:
  "wp (drive eng run m b started activations st) (stopped_within b (run_id run)) (\<lambda>_ _. True) w"
proof (induction eng run m b started activations st arbitrary: w rule: drive.induct)
  case (1 eng run m b started activations st)
  show ?case
  proof (cases "live_cursor st")
    case None
    then show ?thesis
      by (subst drive.simps) (auto simp: fail_run_stops dest: budget_violation_within intro!: complete_run_stops split: option.splits)
  next
    case (Some c)
    have step: "wp (case fst p of Some r \<Rightarrow> return_a r | None \<Rightarrow> drive eng run m b started (activations + 1) (snd p))
        (stopped_within b (run_id run)) (\<lambda>_ _. True) w'"
      if "budget_violation b st (t - started) activations (eng_max_steps eng) = None" "find_node m c = Some n"
        "step_stops b (run_id run) p w'" for t n p w'
      using "1.IH" [OF Some that(1,2), of p] that(3) by (auto simp: step_stops_def split: option.splits)
    show ?thesis
      by (subst drive.simps) (auto simp: Some fail_run_stops simp del: wp_bind split: option.splits
          intro!: wp_bindI [OF wp_any] wp_bindI [OF activate_node_stops [where b = b]] step)
  qed
qed

lemma run_loop_stops:
  "wp (run_loop eng run None) (\<lambda>r w'. \<exists>b. stopped_within b (run_id run) r w' \<and>
     (\<forall>c. budget_cap_from_state (run_state run) = Some c \<longrightarrow> b \<le> c)) (\<lambda>_ _. True) w"
proof -
  have le: "effective_budgets B (initial_state i (run_state run)) None \<le> c"
    if "budget_cap_from_state (run_state run) = Some c" for B i c
  proof -
    have "budget_cap_from_state (initial_state i (run_state run)) = Some c"
      using that by (simp add: budget_cap_from_state_def initial_state_def)
    then show ?thesis by (simp add: effective_budgets_def merge_budgets_inf)
  qed
  show ?thesis
    unfolding run_loop_def Let_def
    by (intro wp_bindI [OF wp_any] wp_thenI [OF wp_any] wp_mono [OF drive_stops]) (use le in blast)+
qed

subsection \<open>Invariants of the engine\<close>

text \<open>
  \<open>P\<close> is kept by the writes to the run \<open>rid\<close>, by the handlers invoked for it and by the clocks;
  \<open>owned\<close> says of a step that completing it keeps \<open>P\<close>.
\<close>

locale engine_invariant =
  fixes P :: "world \<Rightarrow> bool" and rid :: string and owned :: "flow_step_record \<Rightarrow> bool" and handlers :: handler_registry
  assumes keeps_update: "preserves P (update_run rid st reason state out)"
    and keeps_event: "preserves P (append_event rid p)"
    and keeps_step: "P w \<Longrightarrow> wp (create_step rid nid nty att inp) (\<lambda>s w'. P w' \<and> owned s) (\<lambda>_. P) w"
    and keeps_complete: "owned s \<Longrightarrow> preserves P (complete_step (step_id s) status out err)"
    and keeps_emit: "preserves P (emit_event name tenant r i)"
    and keeps_clock: "preserves P read_clock"
    and keeps_sleep: "preserves P (sleeper d)"
    and keeps_handler: "handlers ty = Some h \<Longrightarrow> ctx_run_id ctx = rid \<Longrightarrow> preserves P (h ctx)"
begin

lemmas keeps = keeps_update keeps_event keeps_emit keeps_clock keeps_sleep keeps_complete

lemma require_run_keeps: "preserves P (require_run rid)"
  unfolding require_run_def by (intro preserves_intros)

lemma fail_run_keeps: "preserves P (fail_run rid st reason d)"
  unfolding fail_run_def by (intro preserves_intros keeps require_run_keeps)

lemma complete_run_keeps: "run_id run = rid \<Longrightarrow> preserves P (complete_run run m st)"
  by (simp add: complete_run_def Let_def) (intro preserves_intros keeps require_run_keeps)

lemma pause_run_keeps: "run_id run = rid \<Longrightarrow> owned s \<Longrightarrow> preserves P (pause_run run n s st out)"
  by (simp add: pause_run_def Let_def) (intro preserves_intros keeps require_run_keeps)

lemma invoke_keeps:
  "eng_handlers eng = handlers \<Longrightarrow> ctx_run_id ctx = rid \<Longrightarrow> preserves P (invoke_handler eng ctx)"
  unfolding invoke_handler_def handler_get_def
  by (auto intro!: preserves_intros keeps_handler split: option.split)

lemma attempt_failed_keeps:
  assumes "run_id run = rid" and "owned s" and "P w"
    and "\<And>w. P w \<Longrightarrow> wp again (\<lambda>res w'. P w' \<and> (case res of Attempted s' out \<Rightarrow> owned s' | _ \<Rightarrow> True)) (\<lambda>_. P) w"
  shows "wp (attempt_failed run n st policy bud deadline a s again exc)
    (\<lambda>res w'. P w' \<and> (case res of Attempted s' out \<Rightarrow> owned s' | _ \<Rightarrow> True)) (\<lambda>_. P) w"
proof -
  have stop: "wp (bind_a (fail_run rid st reason d) (\<lambda>r. return_a (Stopped r)))
      (\<lambda>res w'. P w' \<and> (case res of Attempted s' out \<Rightarrow> owned s' | _ \<Rightarrow> True)) (\<lambda>_. P) w" if "P w" for reason d w
    by (rule wp_bindI [OF preserves_wpD [OF fail_run_keeps that]]) simp
  have retry: "wp (bind_a read_clock (\<lambda>t. if t + delay > deadline
        then bind_a (fail_run rid st reason d) (\<lambda>r. return_a (Stopped r)) else then_a (sleeper delay) again))
      (\<lambda>res w'. P w' \<and> (case res of Attempted s' out \<Rightarrow> owned s' | _ \<Rightarrow> True)) (\<lambda>_. P) w" if "P w" for delay reason d w
    by (rule wp_bindI [OF preserves_wpD [OF keeps_clock that]])
      (auto simp: stop simp del: wp_bind wp_then intro!: wp_thenI [OF preserves_wpD [OF keeps_sleep]] assms(4))
  show ?thesis
    unfolding attempt_failed_def Let_def assms(1)
    by (intro wp_thenI [OF preserves_wpD [OF keeps_complete [OF assms(2)] assms(3)]]
        wp_thenI [OF preserves_wpD [OF keeps_event]] wp_thenI [OF preserves_wpD [OF keeps_emit]])
      (simp_all add: stop retry del: wp_bind)
qed

lemma attempt_loop_keeps:
  assumes "eng_handlers eng = handlers" and "run_id run = rid" and "P w"
  shows "wp (attempt_loop k eng run m n st inp policy bud deadline a)
    (\<lambda>res w'. P w' \<and> (case res of Attempted s out \<Rightarrow> owned s | _ \<Rightarrow> True)) (\<lambda>_. P) w"
  using assms(3)
proof (induction k arbitrary: a w)
  case (Suc k)
  have invoke: "preserves P (invoke_handler eng (step_context run m n st inp bud deadline))"
    by (rule invoke_keeps) (simp_all add: assms step_context_def)
  show ?case
    unfolding attempt_loop.simps assms(2)
    by (rule wp_bindI [OF keeps_step [OF Suc.prems]])
      (auto simp del: wp_then wp_try intro!: wp_thenI [OF preserves_wpD [OF keeps_event]]
        wp_thenI [OF preserves_wpD [OF keeps_emit]] wp_tryI [OF preserves_wpD [OF invoke]] attempt_failed_keeps Suc.IH assms(2))
qed simp

lemma route_failure_keeps: "preserves P (route_failure rid st nid err)"
  by (cases err) (simp_all add: route_failure_def fail_run_keeps)

lemma finish_step_keeps:
  assumes "run_id run = rid" and "owned s"
  shows "preserves P (finish_step run m n st s out)"
  unfolding finish_step_def Let_def assms(1)
  by (intro preserves_intros keeps fail_run_keeps route_failure_keeps assms(2))

lemma activate_node_keeps:
  assumes "eng_handlers eng = handlers" and "run_id run = rid"
  shows "preserves P (activate_node eng run m n st bud deadline)"
proof (cases "render_step_input (eng_env eng) n (build_eval_state (run_input run) (nodes_of st))")
  case (Inl err)
  then show ?thesis by (simp add: activate_node_def assms(2)) (intro preserves_intros fail_run_keeps)
next
  case (Inr inp)
  have rest: "wp (case res of Stopped r \<Rightarrow> return_a (Some r, st)
       | Attempted s out \<Rightarrow> if outcome_status out = ''waiting_human'' then bind_a (pause_run run n s st out) (\<lambda>r. return_a (Some r, st))
           else finish_step run m n st s out) (\<lambda>_. P) (\<lambda>_. P) w"
    if "P w" "case res of Attempted s out \<Rightarrow> owned s | _ \<Rightarrow> True" for res w
  proof (cases res)
    case (Attempted s out)
    have "preserves P (bind_a (pause_run run n s st out) (\<lambda>r. return_a (Some r, st)))" "preserves P (finish_step run m n st s out)"
      using that(2) Attempted by (auto intro!: preserves_intros pause_run_keeps finish_step_keeps assms(2))
    with Attempted that(1) show ?thesis by (simp add: preserves_wpD del: wp_bind)
  qed (use that(1) in simp)
  show ?thesis
    unfolding activate_node_def Inr sum.case Let_def
    by (intro preservesI wp_bindI [OF attempt_loop_keeps [OF assms]] rest) auto
qed

lemma drive_keeps:
  assumes "eng_handlers eng = handlers" and "run_id run = rid"
  shows "preserves P (drive eng run m bud started activations st)"
  using assms
proof (induction eng run m bud started activations st rule: drive.induct)
  case (1 eng run m bud started activations st)
  show ?case
    by (subst drive.simps)
      (auto intro!: preserves_intros keeps_clock fail_run_keeps complete_run_keeps activate_node_keeps "1.IH" "1.prems"
        simp: "1.prems" split: option.split)
qed

lemma run_loop_keeps:
  assumes "eng_handlers eng = handlers" and "run_id run = rid"
  shows "preserves P (run_loop eng run cap)"
  unfolding run_loop_def resolve_action_def entry_action_def Let_def assms(2)
  by (intro preserves_intros keeps_clock keeps_update drive_keeps assms)

end

subsection \<open>The frame of a run\<close>

definition store_ok :: "world \<Rightarrow> bool" where
  "store_ok w \<longleftrightarrow> store_inv w \<and> ids_fresh w"

definition exists_run :: "string \<Rightarrow> world \<Rightarrow> bool" where
  "exists_run q w \<longleftrightarrow> get_run q None w \<noteq> None"

text \<open>The runs of \<open>w\<close> are as they were; new ones may have been added.\<close>

definition stays :: "world \<Rightarrow> world \<Rightarrow> bool" where
  "stays w w' \<longleftrightarrow> store_ok w' \<and> (\<forall>q. exists_run q w \<longrightarrow> view q w' = view q w)"

text \<open>The same but for the run \<open>rid\<close>, which keeps its fixed fields.\<close>

definition framed :: "string \<Rightarrow> world \<Rightarrow> world \<Rightarrow> bool" where
  "framed rid w w' \<longleftrightarrow> store_ok w' \<and> (\<forall>q. q \<noteq> rid \<and> exists_run q w \<longrightarrow> view q w' = view q w) \<and>
     (\<exists>R R'. get_run rid None w = Some R \<and> get_run rid None w' = Some R' \<and> same_run R R')"

lemma view_row: "v_row (view q w) = get_run q None w"
  by (simp add: view_def)

lemma exists_run_at: "store_ok w \<Longrightarrow> exists_run q w \<Longrightarrow> \<exists>R S Es. run_at q R S Es w"
  by (auto simp: store_ok_def exists_run_def run_at_def view_def)

lemma run_at_store_ok: "run_at q R S Es w \<Longrightarrow> store_ok w"
  by (simp add: run_at_def store_ok_def)

lemma stays_exists: "stays w w' \<Longrightarrow> exists_run q w \<Longrightarrow> exists_run q w'"
  unfolding stays_def exists_run_def view_row [symmetric] by metis

lemma stays_refl: "store_ok w \<Longrightarrow> stays w w"
  by (simp add: stays_def)

lemma stays_trans: "stays w w' \<Longrightarrow> stays w' w'' \<Longrightarrow> stays w w''"
  using stays_exists unfolding stays_def by metis

lemma stays_run_at: "stays w w' \<Longrightarrow> run_at q R S Es w \<Longrightarrow> run_at q R S Es w'"
  by (auto simp: stays_def run_at_def store_ok_def exists_run_def view_def)

lemma framed_exists: "framed rid w w' \<Longrightarrow> exists_run q w \<Longrightarrow> exists_run q w'"
  unfolding framed_def exists_run_def view_row [symmetric] by (cases "q = rid") force+

lemma framed_refl: "store_ok w \<Longrightarrow> exists_run rid w \<Longrightarrow> framed rid w w"
  by (auto simp: framed_def exists_run_def)

lemma framed_trans: "framed rid w w' \<Longrightarrow> framed rid w' w'' \<Longrightarrow> framed rid w w''"
  using framed_exists [of rid w w'] same_run_trans unfolding framed_def by (metis option.inject)

lemma stays_framed: "stays w w' \<Longrightarrow> exists_run rid w \<Longrightarrow> framed rid w w'"
  unfolding stays_def framed_def exists_run_def view_row [symmetric] by force

lemma keeps_stays:
  assumes "\<And>q R S Es. preserves (run_at q R S Es) m" and "store_ok w" and "exists_run rid w"
  shows "stays w (snd (m w))"
proof -
  have *: "view q (snd (m w)) = view q w \<and> store_ok (snd (m w))" if q: "exists_run q w" for q
  proof -
    obtain R S Es where at: "run_at q R S Es w" using exists_run_at [OF assms(2) q] by blast
    from preservesD [OF assms(1) at] have "run_at q R S Es (snd (m w))" .
    with at show ?thesis by (simp add: run_at_def store_ok_def)
  qed
  then show ?thesis using assms(3) by (auto simp: stays_def)
qed

lemma detached_stays: "detached h \<Longrightarrow> store_ok w \<Longrightarrow> exists_run rid w \<Longrightarrow> stays w (snd (h ctx w))"
  by (rule keeps_stays) (simp_all add: detached_def)

lemma framed_idle:
  "framed rid w w1 \<Longrightarrow> tbl_runs w2 = tbl_runs w1 \<Longrightarrow> tbl_steps w2 = tbl_steps w1 \<Longrightarrow> tbl_events w2 = tbl_events w1 \<Longrightarrow>
   uuid_supply w1 \<le> uuid_supply w2 \<Longrightarrow> framed rid w w2"
proof -
  assume *: "framed rid w w1" "tbl_runs w2 = tbl_runs w1" "tbl_steps w2 = tbl_steps w1" "tbl_events w2 = tbl_events w1"
    "uuid_supply w1 \<le> uuid_supply w2"
  have "ids_of w2 = ids_of w1" using * by (simp add: ids_of_def)
  moreover have "{..<uuid_supply w1} \<subseteq> {..<uuid_supply w2}" using *(5) by auto
  ultimately have "ids_fresh w1 \<Longrightarrow> ids_fresh w2" unfolding ids_fresh_def by (metis image_mono subset_trans)
  moreover have "view q w2 = view q w1" for q by (rule view_cong) (use * in simp_all)
  moreover have "store_inv w2 = store_inv w1" by (rule store_inv_cong) (use * in simp_all)
  moreover have "get_run rid None w2 = get_run rid None w1" by (rule get_run_cong) (use * in simp)
  ultimately show ?thesis using *(1) by (auto simp: framed_def store_ok_def)
qed

lemma framed_inv: "framed rid w w1 \<Longrightarrow> store_inv w1 \<and> ids_fresh w1"
  by (simp add: framed_def store_ok_def)

lemma framed_step:
  assumes "framed rid w w1" and "store_inv w2" and "ids_fresh w2"
    and "\<And>q. q \<noteq> rid \<Longrightarrow> exists_run q w \<Longrightarrow> view q w2 = view q w1"
    and "\<And>R. get_run rid None w1 = Some R \<Longrightarrow> \<exists>R'. get_run rid None w2 = Some R' \<and> same_run R R'"
  shows "framed rid w w2"
  using assms same_run_trans unfolding framed_def store_ok_def by metis

lemma update_run_framed: "preserves (framed rid w) (update_run rid st reason state out)"
proof (rule preservesI)
  fix w1
  assume f: "framed rid w w1"
  have tick: "framed rid w (tick w1)" by (rule framed_idle [OF f]) simp_all
  have inv: "wp (update_run rid st reason state out) (\<lambda>_. store_inv) (\<lambda>_. store_inv) w1"
    by (rule preserves_wpD [OF update_run_inv]) (use f framed_inv in blast)
  have "framed rid w (set_run rid (patch_run t st reason s p) (tick w1))"
    if "store_inv (set_run rid (patch_run t st reason s p) (tick w1))" for t s p
    by (rule framed_step [OF tick that]) (use framed_inv [OF f] in
        \<open>auto simp: ids_fresh_set_run view_set_run get_run_set_run\<close>)
  with inv f tick show "wp (update_run rid st reason state out) (\<lambda>_. framed rid w) (\<lambda>_. framed rid w) w1"
    by (simp add: wp_update_run split: option.splits if_splits)
qed

lemma view_add_event:
  "store_inv w \<Longrightarrow> event_sequence e = next_sequence event_run_id event_sequence (event_run_id e) (tbl_events w) \<Longrightarrow>
   event_run_id e \<noteq> q \<Longrightarrow> view q (w\<lparr>tbl_events := tbl_events w @ [e]\<rparr>) = view q w"
  using list_events_add [of w "tbl_events w" e q] by (simp add: view_def get_run_def list_steps_def)

lemma view_add_step:
  "store_inv w \<Longrightarrow> step_sequence s = next_sequence step_run_id step_sequence (step_run_id s) (tbl_steps w) \<Longrightarrow>
   step_run_id s \<noteq> q \<Longrightarrow> view q (w\<lparr>tbl_steps := tbl_steps w @ [s]\<rparr>) = view q w"
  using list_steps_add [of w "tbl_steps w" s q] by (simp add: view_def get_run_def list_events_def)

lemma append_event_framed: "preserves (framed rid w) (append_event rid p)"
proof (rule preservesI)
  fix w1
  assume f: "framed rid w w1"
  let ?w1 = "tick (draw w1)"
  have draw: "framed rid w ?w1" by (rule framed_idle [OF f]) simp_all
  have id: "rid \<in> ids_of w1" using f ids_of_run unfolding framed_def by blast
  have inv: "wp (append_event rid p) (\<lambda>_. store_inv) (\<lambda>_. store_inv) w1"
    by (rule preserves_wpD [OF append_event_inv]) (use f framed_inv in blast)
  have "framed rid w (?w1\<lparr>tbl_events := tbl_events ?w1 @ [e]\<rparr>)"
    if "store_inv (?w1\<lparr>tbl_events := tbl_events ?w1 @ [e]\<rparr>)" "event_run_id e = rid" "event_id e = str_nat (uuid_supply w1)"
      "event_sequence e = next_sequence event_run_id event_sequence rid (tbl_events w1)" for e
  proof (rule framed_step [OF draw that(1)])
    show "ids_fresh (?w1\<lparr>tbl_events := tbl_events ?w1 @ [e]\<rparr>)"
      by (rule ids_fresh_draw [where w = w1]) (use framed_inv [OF f] that id in \<open>auto simp: ids_of_def\<close>)
    show "view q (?w1\<lparr>tbl_events := tbl_events ?w1 @ [e]\<rparr>) = view q ?w1" if "q \<noteq> rid" for q
      by (rule view_add_event) (use framed_inv [OF draw] that \<open>event_run_id e = rid\<close> \<open>event_sequence e = _\<close> in auto)
  qed (auto simp: get_run_def)
  with inv draw show "wp (append_event rid p) (\<lambda>_. framed rid w) (\<lambda>_. framed rid w) w1"
    by (simp add: append_event_def Let_def wp_if split: if_splits)
qed

text \<open>A step whose completion leaves the other runs of \<open>w\<close> as they are.\<close>

definition foreign :: "string \<Rightarrow> world \<Rightarrow> flow_step_record \<Rightarrow> bool" where
  "foreign rid w s \<longleftrightarrow> (\<forall>q. q \<noteq> rid \<and> exists_run q w \<longrightarrow> step_id s \<notin> step_id ` set (list_steps q w))"

lemma create_step_framed:
  assumes f: "framed rid w w1"
  shows "wp (create_step rid nid nty att inp) (\<lambda>s w'. framed rid w w' \<and> foreign rid w s) (\<lambda>_. framed rid w) w1"
proof -
  let ?w1 = "tick (draw w1)"
  have draw: "framed rid w ?w1" by (rule framed_idle [OF f]) simp_all
  have id: "rid \<in> ids_of w1" using f ids_of_run unfolding framed_def by blast
  have inv: "wp (create_step rid nid nty att inp) (\<lambda>_. store_inv) (\<lambda>_. store_inv) w1"
    by (rule preserves_wpD [OF create_step_inv]) (use f framed_inv in blast)
  have "framed rid w (?w1\<lparr>tbl_steps := tbl_steps ?w1 @ [s]\<rparr>)"
    if "store_inv (?w1\<lparr>tbl_steps := tbl_steps ?w1 @ [s]\<rparr>)" "step_run_id s = rid" "step_id s = str_nat (uuid_supply w1)"
      "step_sequence s = next_sequence step_run_id step_sequence rid (tbl_steps w1)" for s
  proof (rule framed_step [OF draw that(1)])
    show "ids_fresh (?w1\<lparr>tbl_steps := tbl_steps ?w1 @ [s]\<rparr>)"
      by (rule ids_fresh_draw [where w = w1]) (use framed_inv [OF f] that id in \<open>auto simp: ids_of_def\<close>)
    show "view q (?w1\<lparr>tbl_steps := tbl_steps ?w1 @ [s]\<rparr>) = view q ?w1" if "q \<noteq> rid" for q
      by (rule view_add_step) (use framed_inv [OF draw] that \<open>step_run_id s = rid\<close> \<open>step_sequence s = _\<close> in auto)
  qed (auto simp: get_run_def)
  moreover have "foreign rid w s" if "step_id s = str_nat (uuid_supply w1)" for s
  proof -
    have "str_nat (uuid_supply w1) \<notin> step_id ` set (list_steps q w1)" for q
      using ids_freshD(2) [of w1] framed_inv [OF f] by (auto simp: list_steps_mem image_iff)
    moreover have "list_steps q w = list_steps q w1" if "q \<noteq> rid" "exists_run q w" for q
      using f that unfolding framed_def view_def by auto
    ultimately show ?thesis using that unfolding foreign_def by simp
  qed
  ultimately show ?thesis using inv draw by (simp add: create_step_def Let_def wp_if split: option.splits if_splits)
qed

lemma complete_step_framed:
  assumes "foreign rid w s"
  shows "preserves (framed rid w) (complete_step (step_id s) st out err)"
proof (rule preservesI)
  fix w1
  assume f: "framed rid w w1"
  have tick: "framed rid w (tick w1)" by (rule framed_idle [OF f]) simp_all
  have inv: "wp (complete_step (step_id s) st out err) (\<lambda>_. store_inv) (\<lambda>_. store_inv) w1"
    by (rule preserves_wpD [OF complete_step_inv]) (use f framed_inv in blast)
  have "framed rid w (set_step (step_id s) g (tick w1))"
    if g: "store_inv (set_step (step_id s) g (tick w1))"
      "\<And>x. step_run_id (g x) = step_run_id x" "\<And>x. step_sequence (g x) = step_sequence x" "\<And>x. step_id (g x) = step_id x" for g
  proof (rule framed_step [OF tick g(1)])
    show "ids_fresh (set_step (step_id s) g (tick w1))"
      using framed_inv [OF f] g by (simp add: ids_fresh_set_step)
    show "view q (set_step (step_id s) g (tick w1)) = view q (tick w1)" if q: "q \<noteq> rid" "exists_run q w" for q
    proof -
      have "view q (tick w1) = view q w" using tick q unfolding framed_def by blast
      then have "list_steps q (tick w1) = list_steps q w" by (simp add: view_def)
      then have "map (\<lambda>x. if step_id x = step_id s then g x else x) (list_steps q (tick w1)) = list_steps q (tick w1)"
        using assms q unfolding foreign_def by (intro map_idI) (auto simp: image_iff, metis)
      moreover have "list_steps q (set_step (step_id s) g (tick w1)) =
          map (\<lambda>x. if step_id x = step_id s then g x else x) (list_steps q (tick w1))"
        by (rule list_steps_set_step) (use framed_inv [OF tick] g in auto)
      ultimately show ?thesis by (simp add: view_def) (simp add: get_run_def list_events_def set_step_def)
    qed
  qed (auto simp: get_run_def set_step_def)
  with inv f tick show "wp (complete_step (step_id s) st out err) (\<lambda>_. framed rid w) (\<lambda>_. framed rid w) w1"
    by (simp add: complete_step_def wp_if split: option.splits if_splits)
qed

lemma idle_framed:
  assumes "\<And>w. tbl_runs (f w) = tbl_runs w \<and> tbl_steps (f w) = tbl_steps w \<and> tbl_events (f w) = tbl_events w \<and>
    uuid_supply (f w) = uuid_supply w"
  shows "preserves (framed rid w) (modify_a f)"
  by (rule preservesI) (auto intro: framed_idle simp: assms)

text \<open>The handlers of a registry that leave existing runs alone.\<close>

definition detached_part :: "handler_registry \<Rightarrow> handler_registry" where
  "detached_part hs ty = (case hs ty of None \<Rightarrow> None | Some h \<Rightarrow> if detached h then Some h else None)"

lemma detached_part_id: "handlers_detached hs \<Longrightarrow> detached_part hs = hs"
  by (auto simp: fun_eq_iff detached_part_def handlers_detached_def split: option.split)

lemma clocks_framed:
  "preserves (framed rid w) (emit_event name tenant r i)" "preserves (framed rid w) read_clock" "preserves (framed rid w) (sleeper d)"
  unfolding emit_event_def read_clock_def sleeper_def by (intro preserves_intros idle_framed; simp)+

lemma handler_framed:
  assumes "detached_part hs ty = Some h"
  shows "preserves (framed rid w) (h ctx)"
proof -
  have "detached h" using assms by (auto simp: detached_part_def split: option.splits if_splits)
  then have "stays w1 (snd (h ctx w1))" "exists_run rid w1" if "framed rid w w1" for w1
    using detached_stays [of h w1 rid] that by (auto simp: framed_def exists_run_def)
  then show ?thesis unfolding preserves_def by (blast intro: framed_trans stays_framed)
qed

interpretation frame: engine_invariant "framed rid w" rid "foreign rid w" "detached_part hs" for rid w hs
  by unfold_locales
    (fact update_run_framed append_event_framed create_step_framed complete_step_framed clocks_framed | erule handler_framed)+

subsection \<open>Starting a run\<close>

lemma create_run_stays:
  assumes "store_ok w"
  shows "wp (create_run fid ver tenant trig inp st parent None)
    (\<lambda>run w'. stays w w' \<and> \<not> exists_run (run_id run) w \<and> exists_run (run_id run) w' \<and> run_state run = st \<and>
       (\<forall>R. get_run (run_id run) None w' = Some R \<longrightarrow> run_tenant_id R = tenant \<and> parent_run_id R = parent \<and> run_flow_id R = fid \<and>
          run_flow_version R = ver \<and> json_doc inp = Some (run_input R) \<and> json_doc trig = Some (run_trigger R)))
    (\<lambda>_. stays w) w"
proof -
  let ?w1 = "tick (tick (draw w))"
  have idle: "stays w ?w1"
  proof -
    have "ids_fresh ?w1" by (simp, rule ids_fresh_draw [of w]) (use assms in \<open>auto simp: store_ok_def ids_of_def\<close>)
    moreover have "view q ?w1 = view q w" for q by (rule view_cong) simp_all
    ultimately show ?thesis using assms by (simp add: stays_def store_ok_def)
  qed
  have inv: "wp (create_run fid ver tenant trig inp st parent None) (\<lambda>_. store_inv) (\<lambda>_. store_inv) w"
    by (rule preserves_wpD [OF create_run_inv]) (use assms store_ok_def in blast)
  have new: "\<not> exists_run (str_nat (uuid_supply w)) w"
    using ids_freshD(1) [of w] assms get_run_in unfolding exists_run_def store_ok_def by (metis image_eqI not_None_eq)
  have added: "stays w (?w1\<lparr>tbl_runs := tbl_runs w @ [r]\<rparr>)" "get_run (run_id r) None (?w1\<lparr>tbl_runs := tbl_runs w @ [r]\<rparr>) = Some r"
    if "store_inv (?w1\<lparr>tbl_runs := tbl_runs w @ [r]\<rparr>)" "run_id r = str_nat (uuid_supply w)" for r
  proof -
    have "ids_fresh (?w1\<lparr>tbl_runs := tbl_runs w @ [r]\<rparr>)"
      by (rule ids_fresh_draw [of w]) (use assms that in \<open>auto simp: store_ok_def ids_of_def\<close>)
    moreover have "get_run q None (?w1\<lparr>tbl_runs := tbl_runs w @ [r]\<rparr>) = get_run q None w" if "exists_run q w" for q
      using that by (auto simp: exists_run_def get_run_def find_append)
    then have "view q (?w1\<lparr>tbl_runs := tbl_runs w @ [r]\<rparr>) = view q w" if "exists_run q w" for q
      using that by (simp add: view_def) (simp add: list_steps_def list_events_def)
    ultimately show "stays w (?w1\<lparr>tbl_runs := tbl_runs w @ [r]\<rparr>)" using that by (simp add: stays_def store_ok_def)
    show "get_run (run_id r) None (?w1\<lparr>tbl_runs := tbl_runs w @ [r]\<rparr>) = Some r"
      using new that(2) by (simp add: exists_run_def get_run_def find_append)
  qed
  show ?thesis
    using inv idle new added
    by (simp add: create_run_def insert_run_def Let_def wp_if exists_run_def split: option.splits if_splits)
qed

lemma stays_new: "stays w w1 \<Longrightarrow> framed rid w1 w' \<Longrightarrow> \<not> exists_run rid w \<Longrightarrow> stays w w'"
  using stays_exists unfolding stays_def framed_def by metis

lemma start_state_cap: "budget_cap_from_state (start_state entry cap) = cap"
proof (cases cap)
  case (Some c)
  have "start_state entry cap = (start_state entry None)\<lparr>st_budget_cap := Some (budget_cap_document c)\<rparr>"
    by (simp add: start_state_def Some)
  then show ?thesis using Some budget_cap_roundtrip by simp
qed (simp add: budget_cap_from_state_def start_state_def)

text \<open>What a started run is, and what it leaves alone, with no hypothesis on the flow or its input.\<close>

definition child_of :: "world \<Rightarrow> string \<Rightarrow> string option \<Rightarrow> pydict \<Rightarrow> pydict \<Rightarrow> flow_budgets option \<Rightarrow> flow_run_record \<Rightarrow> world \<Rightarrow> bool" where
  "child_of w tenant parent trig inp cap r w' \<longleftrightarrow> stays w w' \<and> \<not> exists_run (run_id r) w \<and> get_run (run_id r) None w' = Some r \<and>
     run_tenant_id r = tenant \<and> parent_run_id r = parent \<and> json_doc trig = Some (run_trigger r) \<and> json_doc inp = Some (run_input r) \<and>
     (\<forall>c. run_status r = ''completed'' \<and> cap = Some c \<longrightarrow> within_budgets c (run_state r))"

lemma run_loop_child:
  assumes "handlers_detached (eng_handlers eng)" and "run_state run = start_state entry cap"
    and "stays w w1" and "\<not> exists_run (run_id run) w" and "framed (run_id run) w1 w2"
    and "\<forall>R. get_run (run_id run) None w1 = Some R \<longrightarrow> run_tenant_id R = tenant \<and> parent_run_id R = parent \<and>
      json_doc trig = Some (run_trigger R) \<and> json_doc inp = Some (run_input R)"
  shows "wp (run_loop eng run None) (child_of w tenant parent trig inp cap) (\<lambda>_. stays w) w2"
proof -
  have eq: "eng_handlers eng = detached_part (eng_handlers eng)" by (rule detached_part_id [OF assms(1), symmetric])
  have keeps: "wp (run_loop eng run None) (\<lambda>_. framed (run_id run) w1) (\<lambda>_. framed (run_id run) w1) w2"
    by (rule preserves_wpD [OF frame.run_loop_keeps [OF eq refl] assms(5)])
  show ?thesis
  proof (rule wp_mono [OF wp_conj [OF keeps run_loop_stops]], goal_cases)
    case (1 r w')
    then obtain b where b: "stopped_within b (run_id run) r w'" "\<forall>c. budget_cap_from_state (run_state run) = Some c \<longrightarrow> b \<le> c"
      and f: "framed (run_id run) w1 w'" by blast
    then have get: "get_run (run_id run) None w' = Some r" by (simp add: stopped_within_def)
    then have id: "run_id r = run_id run" using get_run_in by blast
    from f get obtain R where "get_run (run_id run) None w1 = Some R" "same_run R r" unfolding framed_def by force
    then have "run_tenant_id r = tenant \<and> parent_run_id r = parent \<and> json_doc trig = Some (run_trigger r) \<and>
        json_doc inp = Some (run_input r)"
      using assms(6) by (simp add: same_run_def)
    moreover have "within_budgets c (run_state r)" if "run_status r = ''completed''" "cap = Some c" for c
      using b that within_budgets_mono assms(2) by (auto simp: stopped_within_def start_state_cap)
    moreover have "stays w w'" by (rule stays_new [OF assms(3) f assms(4)])
    ultimately show ?case using get id assms(4) by (simp add: child_of_def)
  qed (use stays_new assms(3,4) in blast)
qed

lemma start_run_child:
  assumes "handlers_detached (eng_handlers eng)" and "store_ok w"
  shows "wp (start_run eng fid rng inp trig tenant parent True cap) (child_of w tenant parent (default_trigger trig) inp cap) (\<lambda>_. stays w) w"
proof -
  have create: "wp (bind_a (create_run fid' ver tenant (default_trigger trig) inp (start_state entry cap) parent None) (\<lambda>run.
      then_a (append_event (run_id run) (p run)) (then_a (emit_event name tenant (run_id run) None) (run_loop eng run None))))
    (child_of w tenant parent (default_trigger trig) inp cap) (\<lambda>_. stays w) w" for fid' ver entry p name
  proof (rule wp_bindI [OF create_run_stays [OF assms(2)]], goal_cases)
    case (1 run w1)
    have frame: "framed (run_id run) w1 w1" by (rule framed_refl) (use 1 in \<open>auto simp: stays_def\<close>)
    have out: "stays w w'" if "framed (run_id run) w1 w'" for w' using stays_new [of w w1 "run_id run" w'] 1 that by blast
    have idle: "wp m (\<lambda>_. framed (run_id run) w1) (\<lambda>_. stays w) w2"
      if "preserves (framed (run_id run) w1) m" "framed (run_id run) w1 w2" for m :: "'x flow_action" and w2
      by (rule wp_mono [OF preserves_wpD [OF that]]) (use out in auto)
    have loop: "wp (run_loop eng run None) (child_of w tenant parent (default_trigger trig) inp cap) (\<lambda>_. stays w) w2" if "framed (run_id run) w1 w2" for w2
      by (rule run_loop_child [OF assms(1) _ _ _ that]) (use 1 in auto)
    show ?case
      by (intro wp_thenI [OF idle [OF append_event_framed frame]] wp_thenI [OF idle [OF clocks_framed(1)]] loop)
  qed
  show ?thesis
    using create stays_refl [OF assms(2)]
    by (auto simp: start_run_def entry_action_def wp_if simp del: wp_then split: sum.splits flow_exc.splits option.splits)
qed

end
