(* ===== verification/Flow_History.thy ===== *)
theory Flow_History
  imports Flow_Frame "HOL-Library.Sublist"
begin

text \<open>
  The history of a run only grows while the engine executes it: the steps and the events that were
  recorded before stay recorded, in their order and as they were, whether the execution returns or
  raises. This is one more instance of \<open>engine_invariant\<close>; a decision on a paused run rests on it.
\<close>

subsection \<open>Recorded histories\<close>

definition history :: "string \<Rightarrow> flow_step_record list \<Rightarrow> flow_event_record list \<Rightarrow> world \<Rightarrow> bool" where
  "history rid S0 Es0 w \<longleftrightarrow> (\<exists>R S Es. run_at rid R S Es w \<and> prefix S0 S \<and> prefix Es0 Es)"

lemma historyI: "run_at rid R S Es w \<Longrightarrow> prefix S0 S \<Longrightarrow> prefix Es0 Es \<Longrightarrow> history rid S0 Es0 w"
  unfolding history_def by blast

lemma historyE:
  assumes "history rid S0 Es0 w"
  obtains R S Es where "run_at rid R S Es w" "prefix S0 S" "prefix Es0 Es"
  using assms unfolding history_def by blast

lemma historyD:
  assumes "history rid S0 Es0 w"
  shows "prefix S0 (list_steps rid w)" "prefix Es0 (list_events rid w)"
  using assms run_atD(4,5) by (auto elim!: historyE)

lemma history_tick [simp]: "history rid S0 Es0 (tick w) = history rid S0 Es0 w"
  by (simp add: history_def)

lemma history_idle:
  "history rid S0 Es0 w \<Longrightarrow> tbl_runs w' = tbl_runs w \<Longrightarrow> tbl_steps w' = tbl_steps w \<Longrightarrow> tbl_events w' = tbl_events w \<Longrightarrow>
   uuid_supply w' = uuid_supply w \<Longrightarrow> history rid S0 Es0 w'"
  using run_at_cong [of w' w] by (auto simp: history_def)

lemma history_draw:
  assumes "history rid S0 Es0 w"
  shows "history rid S0 Es0 (draw w)"
proof -
  from assms obtain R S Es where at: "run_at rid R S Es w" "prefix S0 S" "prefix Es0 Es" by (rule historyE)
  have "store_ok w" "exists_run rid w" using run_atD [OF at(1)] by (simp_all add: store_ok_def exists_run_def)
  then have "framed rid w (draw w)" using framed_idle [OF framed_refl, of w rid "draw w"] by simp
  moreover have "view rid (draw w) = view rid w" by (rule view_cong) simp_all
  ultimately have "run_at rid R S Es (draw w)" using at(1) framed_inv [of rid w "draw w"] by (simp add: run_at_def)
  then show ?thesis using at(2,3) by (rule historyI)
qed

subsection \<open>The writes of the engine\<close>

lemma update_run_history: "preserves (history rid S0 Es0) (update_run rid st reason state out)"
proof (rule preservesI)
  fix w
  assume h: "history rid S0 Es0 w"
  then obtain R S Es where at: "run_at rid R S Es w" "prefix S0 S" "prefix Es0 Es" by (rule historyE)
  show "wp (update_run rid st reason state out) (\<lambda>_. history rid S0 Es0) (\<lambda>_. history rid S0 Es0) w"
  proof (cases "(case st of None \<Rightarrow> True | Some x \<Rightarrow> x \<in> set RUN_STATUSES) \<and> json_opt json_state state \<noteq> None \<and> json_opt json_doc out \<noteq> None")
    case True
    then obtain s p where "json_opt json_state state = Some s" "json_opt json_doc out = Some p" by blast
    with True show ?thesis
      by (intro wp_mono [OF run_at_update_run [OF at(1)]]) (auto intro: historyI [OF _ at(2,3)])
  qed (use h in \<open>auto simp: wp_update_run split: option.splits\<close>)
qed

lemma append_event_history: "preserves (history rid S0 Es0) (append_event rid p)"
proof (rule preservesI)
  fix w
  assume "history rid S0 Es0 w"
  then obtain R S Es where at: "run_at rid R S Es w" "prefix S0 S" "prefix Es0 Es" by (rule historyE)
  show "wp (append_event rid p) (\<lambda>_. history rid S0 Es0) (\<lambda>_. history rid S0 Es0) w"
    by (rule wp_mono [OF run_at_append_event [OF at(1)]]) (auto intro: historyI [OF _ at(2) prefix_prefix [OF at(3)]])
qed

lemma create_step_history:
  assumes "history rid S0 Es0 w"
  shows "wp (create_step rid nid nty att inp) (\<lambda>s w'. history rid S0 Es0 w' \<and> step_id s \<notin> step_id ` set S0) (\<lambda>_. history rid S0 Es0) w"
proof (cases "json_doc inp")
  case None
  then show ?thesis using history_draw [OF assms] by (simp add: create_step_def Let_def)
next
  case (Some j)
  from assms obtain R S Es where at: "run_at rid R S Es w" "prefix S0 S" "prefix Es0 Es" by (rule historyE)
  have "step_id ` set S0 \<subseteq> step_id ` set S" using set_mono_prefix [OF at(2)] by blast
  then show ?thesis
    by (intro wp_mono [OF run_at_create_step [OF at(1) Some]]) (auto intro: historyI [OF _ prefix_prefix [OF at(2)] at(3)])
qed

lemma complete_step_history:
  assumes new: "step_id s \<notin> step_id ` set S0"
  shows "preserves (history rid S0 Es0) (complete_step (step_id s) st out err)"
proof (rule preservesI)
  fix w
  assume h: "history rid S0 Es0 w"
  then obtain R S Es where at: "run_at rid R S Es w" "prefix S0 S" "prefix Es0 Es" by (rule historyE)
  have inv: "wp (complete_step (step_id s) st out err) (\<lambda>_. store_inv) (\<lambda>_. store_inv) w"
    by (rule preserves_wpD [OF complete_step_inv run_atD(1) [OF at(1)]])
  have "history rid S0 Es0 (set_step (step_id s) g (tick w))"
    if g: "store_inv (set_step (step_id s) g (tick w))"
      "\<And>x. step_run_id (g x) = step_run_id x" "\<And>x. step_sequence (g x) = step_sequence x" "\<And>x. step_id (g x) = step_id x" for g
  proof -
    let ?f = "\<lambda>x. if step_id x = step_id s then g x else x"
    have "list_steps rid (tick w) = S" using run_atD(4) [of rid R S Es "tick w"] at(1) by simp
    then have steps: "list_steps rid (set_step (step_id s) g (tick w)) = map ?f S"
      using list_steps_set_step [of "tick w" g rid "step_id s"] run_atD(1) [OF at(1)] g by simp
    have "ids_fresh (set_step (step_id s) g (tick w))"
      using run_atD(2) [OF at(1)] g by (simp add: ids_fresh_set_step)
    then have "run_at rid R (map ?f S) Es (set_step (step_id s) g (tick w))"
      using g(1) run_atD(3,5) [OF at(1)] by (simp add: run_at_def view_def steps) (simp add: get_run_def list_events_def set_step_def)
    moreover have "map ?f S0 = S0" using new by (intro map_idI) (auto simp: image_iff)
    then have "prefix S0 (map ?f S)" using map_mono_prefix [OF at(2), of ?f] by simp
    ultimately show ?thesis using at(3) by (rule historyI)
  qed
  with inv h show "wp (complete_step (step_id s) st out err) (\<lambda>_. history rid S0 Es0) (\<lambda>_. history rid S0 Es0) w"
    by (simp add: complete_step_def wp_if split: option.splits if_splits)
qed

lemma idle_history:
  assumes "\<And>w. tbl_runs (f w) = tbl_runs w \<and> tbl_steps (f w) = tbl_steps w \<and> tbl_events (f w) = tbl_events w \<and>
    uuid_supply (f w) = uuid_supply w"
  shows "preserves (history rid S0 Es0) (modify_a f)"
  by (rule preservesI) (auto intro: history_idle simp: assms)

lemma clocks_history:
  "preserves (history rid S0 Es0) (emit_event name tenant r i)" "preserves (history rid S0 Es0) read_clock"
  "preserves (history rid S0 Es0) (sleeper d)"
  unfolding emit_event_def read_clock_def sleeper_def
  by (intro preserves_intros idle_history; simp)+

text \<open>The handlers of a registry that leave the run they serve alone.\<close>

definition isolated_part :: "handler_registry \<Rightarrow> handler_registry" where
  "isolated_part hs ty = (case hs ty of None \<Rightarrow> None | Some h \<Rightarrow> if isolated h then Some h else None)"

lemma isolated_part_id: "handlers_isolated hs \<Longrightarrow> isolated_part hs = hs"
  by (auto simp: fun_eq_iff isolated_part_def handlers_isolated_def split: option.split)

lemma handler_history:
  assumes "isolated_part hs ty = Some h" and "ctx_run_id ctx = rid"
  shows "preserves (history rid S0 Es0) (h ctx)"
proof -
  have "isolated h" using assms(1) by (auto simp: isolated_part_def split: option.splits if_splits)
  then have "preserves (run_at rid R S Es) (h ctx)" for R S Es using assms(2) by (auto simp: isolated_def)
  then show ?thesis unfolding preserves_def history_def by blast
qed

interpretation past: engine_invariant "history rid S0 Es0" rid "\<lambda>s. step_id s \<notin> step_id ` set S0" "isolated_part hs"
  for rid S0 Es0 hs
  by unfold_locales
    (fact update_run_history append_event_history create_step_history complete_step_history clocks_history
      | erule (1) handler_history)+

lemma run_loop_history:
  assumes "handlers_isolated (eng_handlers eng)" and "run_id run = rid" and "run_at rid R S Es w"
  shows "wp (run_loop eng run cap) (\<lambda>_. history rid S Es) (\<lambda>_. history rid S Es) w"
  by (rule preserves_wpD [OF past.run_loop_keeps [OF isolated_part_id [OF assms(1), symmetric] assms(2)]
        historyI [OF assms(3) prefix_order.refl prefix_order.refl]])

end
