(* ===== verification/Flow_Human_Laws.thy ===== *)
theory Flow_Human_Laws
  imports Flow_Human Flow_History
begin

text \<open>
  What a decision and an expired wait do to a paused run: the wait is over, its step is completed with
  the decision or the timeout and an event records it, both stay recorded, the run goes on from the
  node the decision or the timeout leads to, and its trace holds from there. A decision without edits
  keeps the whole trace replayable.
\<close>

subsection \<open>The paused run\<close>

lemma wp_waiting_parts:
  assumes at: "run_at (run_id R) R (S0 @ [s]) Es w" and res: "resolve (eng_lib eng) (run_flow_id R) (run_flow_version R) w = Inr m"
    and p: "st_pause (run_state R) = Some p" "pause_node p = node_id n" "pause_step p = step_id s"
    and n: "find_node m (node_id n) = Some n"
  shows "wp (waiting_parts eng R) Q E w = Q (m, n, s) w"
proof -
  have "manifest_ok m" by (rule resolve_manifest_ok [OF res])
  then have "node_id n \<noteq> []" using find_node_SomeD [OF n] by (auto simp: manifest_ok_def node_ok_def)
  then have "waiting_node_id (run_state R) = node_id n" by (simp add: waiting_node_id_def p)
  then show ?thesis
    using run_atD(4) [OF at] by (simp add: waiting_parts_def resolve_action_def res manifest_node_def n waiting_step_def p)
qed

lemma wp_waiting_context:
  assumes "run_at (run_id R) R (S0 @ [s]) Es w" and "resolve (eng_lib eng) (run_flow_id R) (run_flow_version R) w = Inr m"
    and "st_pause (run_state R) = Some p" "pause_node p = node_id n" "pause_step p = step_id s"
    and "find_node m (node_id n) = Some n" and "run_status R = ''waiting_human''"
  shows "wp (waiting_context eng (run_id R)) Q E w = Q (R, m, n, s) w"
  using run_atD(3) [OF assms(1)] assms(7) wp_waiting_parts [OF assms(1-6)] by (simp add: waiting_context_def)

lemma wp_wait_due:
  assumes "pause_expiry st = PNone \<or> fromisoformat env (py_str env (pause_expiry st)) = Some d"
  shows "wp (wait_due env st moment) Q E w =
    (if pause_expiry st = PNone then Q False w
     else case moment of None \<Rightarrow> Q (d \<le> wall_src w (wall_reads w)) (tick w) | Some t \<Rightarrow> Q (d \<le> t) w)"
  using assms by (auto simp: wait_due_def expired_def split: option.splits)

subsection \<open>Going on after the wait\<close>

lemma wait_over_simps [simp]:
  "cursor_of (wait_over st nid out ns) = cursor_of st"
  "nodes_of (wait_over st nid out ns) = dset (KStr nid) (node_output_entry out) ns"
  "st_budget_cap (wait_over st nid out ns) = st_budget_cap st" "st_cursor (wait_over st nid out ns) = st_cursor st"
  by (simp_all add: wait_over_def cursor_of_def nodes_of_def)

lemma wait_over_ok:
  assumes "is_json (PDict ns)" and "is_json (PDict out)"
  shows "state_ok (wait_over st nid out ns)"
proof -
  have "is_json (PDict (dset (KStr nid) (node_output_entry out) ns))"
    using assms by (intro is_json_dset) (simp_all add: node_output_entry_def)
  then show ?thesis by (simp add: state_ok_def json_state_iff wait_over_def del: is_json.simps)
qed

lemma state_ok_cursor: "state_ok st \<Longrightarrow> state_ok (st\<lparr>st_cursor := c\<rparr>)"
  by (simp add: state_ok_def json_state_iff)

abbreviation budget_of :: "flow_manifest \<Rightarrow> run_state \<Rightarrow> flow_budgets" where
  "budget_of m st \<equiv> effective_budgets (budgets m) st None"

lemma continue_run_wp:
  assumes iso: "handlers_isolated (eng_handlers eng)" and json: "bindings_json m"
    and at: "run_at (run_id R) R S Es w" and nt: "run_status R \<notin> set TERMINAL_RUN_STATUSES"
    and res: "resolve (eng_lib eng) (run_flow_id R) (run_flow_version R) w = Inr m"
    and ok: "state_ok st" and cap: "st_budget_cap st = st_budget_cap (run_state R)" and known: "base_known m base"
    and trace: "in_step (eng_env eng) m base (run_input R) (st\<lparr>st_cursor := Some nxt\<rparr>) S"
  shows "wp (continue_run eng R n s st nxt) (finished (eng_env eng) m base (budget_of m (run_state R)) R)
    (\<lambda>x _. x = NotSerializable) w"
proof -
  let ?st = "st\<lparr>st_cursor := Some nxt\<rparr>"
  let ?bud = "budget_of m (run_state R)"
  have ok': "state_ok ?st" by (rule state_ok_cursor [OF ok])
  obtain e where e: "entry_node m = Some e" using manifest_ok_graph(2) [OF resolve_manifest_ok [OF res]] by blast
  show ?thesis
    unfolding continue_run_def
  proof (rule wp_thenI [OF with_flows [OF checkpoint_wp [OF at] flows_preserved(1) refl]], goal_cases)
    case (2 x w1)
    then obtain R' where at1: "run_at (run_id R) R' S Es w1" and R': "settled R R' (run_status R) (stop_reason R) ?st"
      and F1: "tbl_flows w1 = tbl_flows w" by blast
    then have r': "run_id R' = run_id R" "run_input R' = run_input R" "run_flow_id R' = run_flow_id R"
      "run_flow_version R' = run_flow_version R" "run_state R' = ?st" "run_status R' = run_status R" "same_run R R'"
      by (auto simp: settled_def same_run_def)
    have bud: "budget_of m (run_state R') = ?bud" by (rule effective_budgets_cong) (simp add: r' cap)
    have loop: "wp (run_loop eng R' None) (finished (eng_env eng) m base ?bud R) (\<lambda>x _. x = NotSerializable) w2"
      if a2: "run_at (run_id R) R' S Es2 w2" and F2: "tbl_flows w2 = tbl_flows w" for Es2 w2
    proof (rule wp_mono)
      show "wp (run_loop eng R' None) (finished (eng_env eng) m base (budget_of m (run_state R')) R') (\<lambda>x _. x = NotSerializable) w2"
        by (rule run_loop_wp [OF iso _ json _ refl refl e _ known])
          (use a2 r' res resolve_cong [OF F2] trace initial_state_kept [OF _ ok', of "node_id e"] in \<open>simp_all add: in_step_def\<close>)
    qed (use finished_mono [OF r'(7)] bud in auto)
    show ?case
      by (rule wp_thenI [OF with_flows [OF run_at_append_event [OF at1] flows_preserved(3) F1]])
        (use loop nt r' run_atD(3) in \<open>auto simp: execute_run_def\<close>)
  qed (use ok' in \<open>simp add: state_ok_def\<close>)
qed

lemma end_wait_wp:
  assumes at: "run_at (run_id R) R (S0 @ [s]) Es w" and out: "is_json (PDict out)"
    and k: "\<And>s' e w'. \<lbrakk>run_at (run_id R) R (S0 @ [s']) (Es @ [e]) w'; tbl_flows w' = tbl_flows w; event_payload e = ev;
        step_id s' = step_id s; step_status s' = ''completed''; step_output s' = Some out; step_node_id s' = step_node_id s;
        step_input s' = step_input s\<rbrakk> \<Longrightarrow> wp k Q E w'"
  shows "wp (then_a (complete_step (step_id s) ''completed'' (Some out) []) (then_a (append_event (run_id R) ev) k)) Q E w"
proof (rule wp_thenI [OF with_flows [OF run_at_complete_step [OF at, where p = "Some out"] flows_preserved(2) refl]], goal_cases)
  case (3 x w1)
  then obtain t where at1: "run_at (run_id R) R (S0 @ [s\<lparr>step_status := ''completed'', step_output := Some out, step_error := [],
      step_completed_at := Some t\<rparr>]) Es w1" and F1: "tbl_flows w1 = tbl_flows w" by blast
  show ?case
    by (rule wp_thenI [OF with_flows [OF run_at_append_event [OF at1] flows_preserved(3) F1]])
      (rule k [of "s\<lparr>step_status := ''completed'', step_output := Some out, step_error := [], step_completed_at := Some t\<rparr>"], auto)
qed (use out in \<open>simp_all add: STEP_STATUSES_def json_opt_def json_doc_id del: is_json.simps\<close>)

text \<open>
  The wait at the last of the steps \<open>S\<close> is over: that step is completed with an output, the event of it
  follows the events \<open>Es\<close>, and both are part of the run's history.
\<close>

definition wait_ended :: "string \<Rightarrow> flow_step_record list \<Rightarrow> flow_event_record list \<Rightarrow> pydict \<Rightarrow> flow_event \<Rightarrow> world \<Rightarrow> bool" where
  "wait_ended rid S Es out p w \<longleftrightarrow>
     (\<exists>s e. prefix (butlast S @ [s]) (list_steps rid w) \<and> prefix (Es @ [e]) (list_events rid w) \<and> event_payload e = p \<and>
        step_id s = step_id (last S) \<and> step_node_id s = step_node_id (last S) \<and> step_status s = ''completed'' \<and>
        step_output s = Some out)"

lemma wait_endedI:
  "history rid (S0 @ [s']) (Es @ [e]) w \<Longrightarrow> event_payload e = p \<Longrightarrow> step_id s' = step_id s \<Longrightarrow> step_node_id s' = step_node_id s \<Longrightarrow>
   step_status s' = ''completed'' \<Longrightarrow> step_output s' = Some out \<Longrightarrow> wait_ended rid (S0 @ [s]) Es out p w"
  using historyD unfolding wait_ended_def by fastforce

text \<open>A run that waits again waits at another step.\<close>

definition waits_elsewhere :: "string \<Rightarrow> flow_run_record \<Rightarrow> bool" where
  "waits_elsewhere sid r \<longleftrightarrow> (run_status r = ''waiting_human'' \<longrightarrow> (\<exists>p. st_pause (run_state r) = Some p \<and> pause_step p \<noteq> sid))"

lemma finished_waits_elsewhere:
  assumes "finished env m base bud R r w" and "wait_ended (run_id R) S Es out p w"
  shows "waits_elsewhere (step_id (last S)) r"
proof -
  from assms(1) obtain S1 Es1 where at: "run_at (run_id R) r S1 Es1 w"
    and aw: "run_status r = ''waiting_human'' \<longrightarrow> awaiting env m base r S1" unfolding finished_def by blast
  from assms(2) obtain s where s: "prefix (butlast S @ [s]) S1" "step_id s = step_id (last S)" "step_status s = ''completed''"
    unfolding wait_ended_def run_atD(4) [OF at] by blast
  then have mem: "s \<in> set S1" using set_mono_prefix by fastforce
  have inj: "inj_on step_id (set S1)"
    using list_steps_distinct [OF run_atD(1) [OF at], of "run_id R"] unfolding run_atD(4) [OF at] distinct_map by blast
  have "pause_step q \<noteq> step_id s"
    if q: "awaiting env m base r S1" "st_pause (run_state r) = Some q" for q
  proof -
    from q obtain s1 where s1: "s1 \<in> set S1" "step_status s1 = ''waiting_human''" "pause_step q = step_id s1"
      unfolding awaiting_def by fastforce
    then have "s1 \<noteq> s" using s(3) by auto
    then show ?thesis unfolding s1(3) inj_on_eq_iff [OF inj s1(1) mem] .
  qed
  then show ?thesis using aw s(2) unfolding waits_elsewhere_def awaiting_def by metis
qed

text \<open>What was recorded of the wait stays recorded while the run goes on.\<close>

lemma execute_run_history:
  assumes "handlers_isolated (eng_handlers eng)"
  shows "preserves (history rid S Es) (execute_run eng rid cap)"
proof (rule preservesI)
  fix w
  assume h: "history rid S Es w"
  have "wp (run_loop eng run cap) (\<lambda>_. history rid S Es) (\<lambda>_. history rid S Es) w" if "run_id run = rid" for run
    by (rule preserves_wpD [OF past.run_loop_keeps [OF isolated_part_id [OF assms, symmetric] that] h])
  then show "wp (execute_run eng rid cap) (\<lambda>_. history rid S Es) (\<lambda>_. history rid S Es) w"
    using h get_run_in [of rid w] by (auto simp: execute_run_def split: option.split)
qed

lemma human_resume_history:
  assumes "handlers_isolated (eng_handlers eng)"
  shows "preserves (history (run_id R) S Es) (continue_run eng R n s st nxt)"
    "preserves (history (run_id R) S Es) (human_resume eng R m n s st)"
  unfolding human_resume_def continue_run_def
  by (intro preserves_intros update_run_history append_event_history execute_run_history assms past.route_failure_keeps)+

text \<open>A base at the present: any state is in step with it.\<close>

lemma in_step_present: "in_step env m (length (completed_steps S), cursor_of st, nodes_of st) inp st S"
  by (simp add: in_step_def follow_from_def)

lemma replays_present:
  "cursor_of (run_state r) = cur \<Longrightarrow> replays env m (length (completed_steps S), cur, ns) r S"
  by (simp add: replays_def follow_from_def)

text \<open>A failure of the run after the wait, which keeps the cursor.\<close>

lemma failed_finishes:
  assumes "run_at (run_id R) r S Es w" and "settled R r ''failed'' reason st"
    and "replays env m base r S"
  shows "finished env m base bud R r w"
  using assms unfolding finished_def settled_def by auto

definition resumed :: "py_env \<Rightarrow> flow_manifest \<Rightarrow> flow_budgets \<Rightarrow> flow_run_record \<Rightarrow> flow_node \<Rightarrow> flow_step_record list \<Rightarrow> run_state \<Rightarrow>
    flow_run_record \<Rightarrow> world \<Rightarrow> bool" where
  "resumed env m bud R n S st r w \<longleftrightarrow>
     (case select_next_node m n (build_eval_state (run_input R) (nodes_of st)) of
        Inl err \<Rightarrow> (\<exists>Es. run_at (run_id R) r S Es w \<and> settled R r ''failed'' (stop_reason r) st \<and>
          stop_reason r \<in> {''predicate_error'', ''no_route''})
      | Inr nxt \<Rightarrow> finished env m (length (completed_steps S), nxt, nodes_of st) bud R r w)"

lemma resumed_finished: "resumed env m bud R n S st r w \<Longrightarrow> \<exists>base. finished env m base bud R r w"
  using failed_finishes replays_present [OF refl] by (fastforce simp: resumed_def split: sum.splits)

lemma human_resume_wp:
  assumes iso: "handlers_isolated (eng_handlers eng)" and json: "bindings_json m"
    and at: "run_at (run_id R) R (S0 @ [s']) Es w" and nt: "run_status R \<notin> set TERMINAL_RUN_STATUSES"
    and res: "resolve (eng_lib eng) (run_flow_id R) (run_flow_version R) w = Inr m"
    and js: "is_json (PDict ns)" "is_json (PDict out)" and known: "base_known m base"
    and trace: "in_step (eng_env eng) m base (run_input R) (run_state R) S0"
    and matches: "step_matches (eng_env eng) m (run_input R) (cursor_of (run_state R)) (nodes_of (run_state R)) s' = Some n"
    and s': "step_status s' = ''completed''" "step_output s' = Some out"
  shows "wp (human_resume eng R m n s (wait_over (run_state R) (node_id n) out ns))
    (\<lambda>r w'. (ns = nodes_of (run_state R) \<longrightarrow> finished (eng_env eng) m base (budget_of m (run_state R)) R r w') \<and>
       resumed (eng_env eng) m (budget_of m (run_state R)) R n (S0 @ [s']) (wait_over (run_state R) (node_id n) out ns) r w')
    (\<lambda>x _. x = NotSerializable) w"
proof -
  let ?st = "wait_over (run_state R) (node_id n) out ns"
  let ?S = "S0 @ [s']"
  let ?env = "eng_env eng"
  have ok: "state_ok ?st" by (rule wait_over_ok [OF js])
  have nid: "step_node_id s' = node_id n" "cursor_of (run_state R) = Some (node_id n)" "find_node m (node_id n) = Some n"
    using matches find_node_SomeD by (force simp: step_matches_Some)+
  have cs: "completed_steps ?S = completed_steps S0 @ [s']" using s' by (simp add: completed_steps_def)
  have fold: "fold_output s' (nodes_of (run_state R)) = nodes_of ?st" if "ns = nodes_of (run_state R)"
    using that by (simp add: fold_output_def step_output_doc_def s' nid)
  have tk: "targets_known m" by (rule manifest_ok_graph(1) [OF resolve_manifest_ok [OF res]])
  show ?thesis
  proof (cases "select_next_node m n (build_eval_state (run_input R) (nodes_of ?st))")
    case (Inl err)
    show ?thesis
      unfolding human_resume_def resumed_def Inl sum.case
    proof (rule wp_mono [OF route_failure_wp [OF at]], goal_cases)
      case (2 r w')
      then obtain Es' where r: "run_at (run_id R) r ?S Es' w'" "settled R r ''failed'' (stop_reason r) ?st"
        "stop_reason r \<in> {''predicate_error'', ''no_route''}" by blast
      then have r': "run_input r = run_input R" "run_state r = ?st" by (auto simp: settled_def same_run_def)
      have "replays ?env m base r ?S" if "ns = nodes_of (run_state R)"
        by (rule replays_route_failure [OF _ _ _ r(3) _ cs, where st = "run_state R" and n = n and err = err])
          (use trace matches Inl fold [OF that] nid r' in simp_all)
      then show ?case using failed_finishes [OF r(1,2)] r by blast
    qed (use ok in \<open>simp add: state_ok_def\<close>)
  next
    case (Inr nxt)
    let ?st2 = "?st\<lparr>st_cursor := Some nxt\<rparr>"
    let ?now = "(length (completed_steps ?S), nxt, nodes_of ?st)"
    have c2: "cursor_of ?st2 = nxt" "nodes_of ?st2 = nodes_of ?st" by (simp_all add: cursor_of_def nodes_of_def)
    have "find_node m t \<noteq> None" if "nxt = Some t" for t
      using Inr tk unfolding that targets_known_def by (auto elim!: select_next_node_Some)
    then have "base_known m ?now" by (simp add: base_known_def)
    moreover have "in_step ?env m ?now (run_input R) ?st2 ?S"
      using in_step_present [of ?env m ?S ?st2 "run_input R"] c2 by simp
    ultimately have now: "wp (continue_run eng R n s ?st nxt) (finished ?env m ?now (budget_of m (run_state R)) R) (\<lambda>x _. x = NotSerializable) w"
      by (intro continue_run_wp [OF iso json at nt res ok]) simp_all
    have "wp (continue_run eng R n s ?st nxt) (finished ?env m base (budget_of m (run_state R)) R) (\<lambda>x _. x = NotSerializable) w"
      if "ns = nodes_of (run_state R)"
      by (intro continue_run_wp [OF iso json at nt res ok _ known] in_step_next [OF trace matches _ _ cs])
        (use Inr fold [OF that] c2 in simp_all)
    then show ?thesis
      unfolding human_resume_def resumed_def Inr sum.case
      by (cases "ns = nodes_of (run_state R)") (use now wp_mono [OF wp_conj [OF _ now]] in auto)
  qed
qed

subsection \<open>Timeouts\<close>

lemma timeout_target_known:
  assumes "manifest_ok m" and "find_node m (node_id n) = Some n" and "timeout_target m n = Some t"
  shows "find_node m t \<noteq> None"
proof -
  have n: "n \<in> set (nodes m)" using find_node_SomeD [OF assms(2)] by simp
  have g: "node_guard_errors (edges m) n = []"
    using assms(1) n unfolding manifest_ok_def validate_graph_parts validate_guards_def by auto
  have "\<exists>e\<in>set (edges m). target e = t"
  proof (cases "on_timeout n")
    case None
    then obtain e where "List.find (\<lambda>e. edge_on e = Some ''timeout'') (edges_from m (node_id n)) = Some e" "target e = t"
      using assms(3) by (auto simp: timeout_target_def)
    then show ?thesis using find_SomeD by fastforce
  next
    case (Some t')
    then have "t' = t" using assms(3) by (simp add: timeout_target_def)
    then show ?thesis using g Some by (auto simp: node_guard_errors_def Let_def split: if_splits)
  qed
  then show ?thesis using manifest_ok_graph(1) [OF assms(1)] by (auto simp: targets_known_def)
qed

definition timeout_taken :: "py_env \<Rightarrow> flow_manifest \<Rightarrow> flow_budgets \<Rightarrow> flow_run_record \<Rightarrow> flow_node \<Rightarrow> nat \<Rightarrow> pydict \<Rightarrow>
    flow_run_record \<Rightarrow> world \<Rightarrow> bool" where
  "timeout_taken env m bud R n k ns r w \<longleftrightarrow>
     (case timeout_target m n of
        None \<Rightarrow> get_run (run_id R) None w = Some r \<and> same_run R r \<and> run_status r = ''failed'' \<and> stop_reason r = ''no_route''
      | Some t \<Rightarrow> finished env m (k, Some t, ns) bud R r w)"

abbreviation timeout_output :: pydict where
  "timeout_output \<equiv> [(KStr ''timedOut'', PBool True)]"

lemma route_timeout_wp:
  assumes iso: "handlers_isolated (eng_handlers eng)" and json: "bindings_json m"
    and at: "run_at (run_id R) R (S0 @ [s]) Es w" and nt: "run_status R \<notin> set TERMINAL_RUN_STATUSES"
    and res: "resolve (eng_lib eng) (run_flow_id R) (run_flow_version R) w = Inr m"
    and ok: "state_ok (run_state R)" and n: "find_node m (node_id n) = Some n"
    and p: "p = HumanTimeoutExpired (node_id n) (step_id s) (pause_expiry (run_state R))"
  shows "wp (route_timeout eng R m n s)
    (\<lambda>r w'. timeout_taken (eng_env eng) m (budget_of m (run_state R)) R n (Suc (length (completed_steps S0)))
        (dset (KStr (node_id n)) (node_output_entry timeout_output) (nodes_of (run_state R))) r w' \<and>
      wait_ended (run_id R) (S0 @ [s]) Es timeout_output p w')
    (\<lambda>x w'. x = NotSerializable \<and> wait_ended (run_id R) (S0 @ [s]) Es timeout_output p w') w"
proof -
  let ?st = "wait_over (run_state R) (node_id n) timeout_output (nodes_of (run_state R))"
  have "is_json (PDict (nodes_of (run_state R)))"
    using ok by (auto simp: state_ok_def json_state_iff nodes_of_def simp del: is_json.simps)
  then have ok': "state_ok ?st" by (rule wait_over_ok) simp
  show ?thesis
    unfolding route_timeout_def Let_def
  proof (rule end_wait_wp [OF at], goal_cases)
    case (2 s' e w')
    note at' = 2(1)
    let ?S = "S0 @ [s']"
    let ?h = "history (run_id R) ?S (Es @ [e])"
    have h: "?h w'" using historyI [OF at'] by simp
    have ended: "wait_ended (run_id R) (S0 @ [s]) Es timeout_output p w2" if "?h w2" for w2
      by (rule wait_endedI [OF that]) (use 2 p in simp_all)
    have cs: "length (completed_steps ?S) = Suc (length (completed_steps S0))" using 2 by (simp add: completed_steps_def)
    have res': "resolve (eng_lib eng) (run_flow_id R) (run_flow_version R) w' = Inr m" using res resolve_cong [OF 2(2)] by simp
    show ?case
    proof (cases "timeout_target m n")
      case None
      have "wp (fail_run (run_id R) ?st ''no_route'' (TimeoutDetail (node_id n)))
          (\<lambda>r w2. \<exists>e2. run_at (run_id R) r ?S ((Es @ [e]) @ [e2]) w2 \<and> settled R r ''failed'' ''no_route'' ?st) (\<lambda>_ _. False) w'"
        by (rule wp_mono [OF fail_run_wp [OF at']]) (use ok' in \<open>auto simp: state_ok_def\<close>)
      then show ?thesis
        unfolding None option.case timeout_taken_def
        by (rule wp_mono) (use ended historyI in \<open>fastforce simp: settled_def dest: run_atD(3)\<close>)+
    next
      case (Some t)
      let ?st2 = "?st\<lparr>st_cursor := Some (Some t)\<rparr>"
      have c2: "cursor_of ?st2 = Some t" "nodes_of ?st2 = nodes_of ?st" by (simp_all add: cursor_of_def nodes_of_def)
      have "base_known m (length (completed_steps ?S), cursor_of ?st2, nodes_of ?st2)"
        using timeout_target_known [OF resolve_manifest_ok [OF res] n Some] by (simp add: base_known_def cursor_of_def)
      from wp_conj [OF continue_run_wp [OF iso json at' nt res' ok' _ this in_step_present]
          preserves_wpD [OF human_resume_history(1) [OF iso] h], of n s]
      show ?thesis unfolding Some option.case timeout_taken_def by (rule wp_mono) (use ended c2 cs in simp_all)
    qed
  qed simp
qed

subsection \<open>Edits\<close>

lemma apply_edit_json:
  assumes "apply_edit m human k v ns = Inr ns'" and "is_json v" and "is_json (PDict ns)"
  shows "is_json (PDict ns')"
proof -
  obtain patch where v: "v = PDict patch" using assms(1) by (cases v) (auto simp: apply_edit_def)
  let ?nid = "str_key k"
  let ?old = "case dget ns ?nid of None \<Rightarrow> PDict [] | Some e \<Rightarrow> e"
  have jo: "is_json ?old" using assms(3) is_json_dlookup by (auto split: option.splits)
  obtain entry where entry: "?old = PDict entry"
    using assms(1) v by (cases ?old) (auto simp: apply_edit_def Let_def split: if_splits)
  define out where "out = (case dget entry ''output'' of Some (PDict d) \<Rightarrow> d | _ \<Rightarrow> [])"
  have je: "is_json (PDict entry)" using jo entry by simp
  have "is_json (PDict out)"
    using je is_json_dlookup [of entry "KStr ''output''"] by (auto simp: out_def split: option.splits pyval.splits)
  then have "is_json (PDict (dmerge out patch))" using assms(2) v by (intro dmerge_json) simp_all
  then have "is_json (PDict (dset (KStr ?nid) (PDict (dset (KStr ''output'') (PDict (dmerge out patch)) entry)) ns))"
    by (intro is_json_dset je assms(3))
  moreover have "ns' = dset (KStr ?nid) (PDict (dset (KStr ''output'') (PDict (dmerge out patch)) entry)) ns"
    using assms(1) entry unfolding v out_def by (simp add: apply_edit_def Let_def split: if_splits)
  ultimately show ?thesis by simp
qed

lemma apply_edit_list_json:
  "apply_edit_list m human es ns = Inr ns' \<Longrightarrow> \<forall>(k, v)\<in>set es. is_json v \<Longrightarrow> is_json (PDict ns) \<Longrightarrow> is_json (PDict ns')"
proof (induction es arbitrary: ns)
  case (Cons e es)
  obtain k v where e: "e = (k, v)" by fastforce
  with Cons.prems obtain ns1 where 1: "apply_edit m human k v ns = Inr ns1" "apply_edit_list m human es ns1 = Inr ns'"
    by (auto simp: bind_r_eq_Inr)
  show ?case by (rule Cons.IH [OF 1(2)]) (use Cons.prems e apply_edit_json [OF 1(1)] in auto)
qed simp

lemma apply_edits_json:
  assumes "apply_edits m human ns edits = Inr ns'" and "is_json edits" and "is_json (PDict ns)"
  shows "is_json (PDict ns')"
proof (cases edits)
  case (PDict es)
  then have "\<forall>(k, v)\<in>set es. is_json v" using assms(2) is_json_items_keys by auto
  then show ?thesis using apply_edit_list_json assms(1,3) PDict by (simp add: apply_edits_def del: is_json.simps)
qed (use assms in \<open>auto simp: apply_edits_def\<close>)

text \<open>The recorded output of a node, edited by the patches for it in turn.\<close>

lemma recorded_output_edit:
  assumes "apply_edit m human k (PDict patch) ns = Inr ns'"
  shows "recorded_output ns' nid = (if nid = str_key k
    then Some (dmerge (case recorded_output ns nid of None \<Rightarrow> [] | Some d \<Rightarrow> d) patch) else recorded_output ns nid)"
proof -
  let ?old = "case dget ns (str_key k) of None \<Rightarrow> PDict [] | Some e \<Rightarrow> e"
  obtain entry where entry: "?old = PDict entry"
    using assms by (cases ?old) (auto simp: apply_edit_def Let_def split: if_splits)
  have ns': "ns' = dset (KStr (str_key k)) (PDict (dset (KStr ''output'')
      (PDict (dmerge (case dget entry ''output'' of Some (PDict d) \<Rightarrow> d | _ \<Rightarrow> []) patch)) entry)) ns"
    using assms entry by (simp add: apply_edit_def Let_def split: if_splits)
  have "(case dget entry ''output'' of Some (PDict d) \<Rightarrow> d | _ \<Rightarrow> []) =
      (case recorded_output ns (str_key k) of None \<Rightarrow> [] | Some d \<Rightarrow> d)"
    using entry by (cases "dget ns (str_key k)") (auto simp: recorded_output_def split: option.splits pyval.splits)
  then show ?thesis unfolding ns' by (simp add: recorded_output_def)
qed

end
