(* ===== verification/Flow_Human_Properties.thy ===== *)
theory Flow_Human_Properties
  imports Flow_Human_Laws Flow_Example
begin

text \<open>
  The properties of decisions on paused runs, with witnesses on a flow whose first node asks a human.
\<close>

subsection \<open>Decisions\<close>

lemma tick_flows [simp]: "tbl_flows (tick w) = tbl_flows w"
  by (simp add: tick_def)

lemma awaitingE:
  assumes "awaiting env m base R S" and "manifest_ok m"
  obtains S0 s n p where "S = S0 @ [s]" "st_pause (run_state R) = Some p" "pause_node p = node_id n" "pause_step p = step_id s"
    "find_node m (node_id n) = Some n" "state_ok (run_state R)" "in_step env m base (run_input R) (run_state R) S0"
    "step_matches env m (run_input R) (cursor_of (run_state R)) (nodes_of (run_state R)) s = Some n"
    "find_node m (waiting_node_id (run_state R)) = Some n" "step_status s = ''waiting_human''"
proof -
  from assms(1) obtain S0 s n p where a: "S = S0 @ [s]" "st_pause (run_state R) = Some p" "pause_node p = node_id n"
    "pause_step p = step_id s" "find_node m (node_id n) = Some n" "state_ok (run_state R)"
    "in_step env m base (run_input R) (run_state R) S0"
    "step_matches env m (run_input R) (cursor_of (run_state R)) (nodes_of (run_state R)) s = Some n" "step_status s = ''waiting_human''"
    unfolding awaiting_def by blast
  have "node_id n \<noteq> []" using find_node_SomeD [OF a(5)] assms(2) by (auto simp: manifest_ok_def node_ok_def)
  then have "waiting_node_id (run_state R) = node_id n" by (simp add: waiting_node_id_def a)
  then show ?thesis using that a by simp
qed

definition in_time :: "py_env \<Rightarrow> run_state \<Rightarrow> world \<Rightarrow> bool" where
  "in_time env st w \<longleftrightarrow> pause_expiry st = PNone \<or>
     (\<exists>d. fromisoformat env (py_str env (pause_expiry st)) = Some d \<and> wall_src w (wall_reads w) < d)"

definition overdue :: "py_env \<Rightarrow> run_state \<Rightarrow> world \<Rightarrow> bool" where
  "overdue env st w \<longleftrightarrow> pause_expiry st \<noteq> PNone \<and>
     (\<exists>d. fromisoformat env (py_str env (pause_expiry st)) = Some d \<and> d \<le> wall_src w (wall_reads w))"

lemma wp_wait_due_in_time:
  "in_time env st w \<Longrightarrow> wp (wait_due env st None) Q E w = Q False (if pause_expiry st = PNone then w else tick w)"
  using wp_wait_due [of st env] by (auto simp: in_time_def)

lemma wp_wait_due_overdue: "overdue env st w \<Longrightarrow> wp (wait_due env st None) Q E w = Q True (tick w)"
  using wp_wait_due [of st env] by (auto simp: overdue_def)

lemma wp_decide:
  assumes "run_at rid R S Es w" and "run_status R = ''waiting_human''"
    and "resolve (eng_lib eng) (run_flow_id R) (run_flow_version R) w = Inr m" and "S = S0 @ [s]"
    and "st_pause (run_state R) = Some p" "pause_node p = node_id n" "pause_step p = step_id s" "find_node m (node_id n) = Some n"
  shows "wp (decide eng rid decision actor) Q E w = wp (wait_due (eng_env eng) (run_state R) None) (\<lambda>due w'.
     if due then wp (route_timeout eng R m n s) (\<lambda>_. E (HumanDecisionError (WaitExpired (pause_expiry (run_state R))))) E w'
     else wp (record_decision eng R m n s decision actor) Q E w') E w"
proof -
  have rid: "rid = run_id R" using run_atD(6) [OF assms(1)] by simp
  have at: "run_at (run_id R) R (S0 @ [s]) Es w" using assms(1,4) rid by simp
  show ?thesis
    unfolding rid decide_def wp_bind wp_waiting_context [OF at assms(3,5-8,2)] prod.case
    by (rule arg_cong [where f = "\<lambda>F. wp (wait_due (eng_env eng) (run_state R) None) F E w"]) (auto simp: fun_eq_iff)
qed

lemma decide_wp:
  assumes iso: "handlers_isolated (eng_handlers eng)" and json: "bindings_json m" "is_json (PDict decision)"
    and at: "run_at rid R S Es w" and waits: "run_status R = ''waiting_human''" "awaiting (eng_env eng) m base R S"
    and known: "base_known m base"
    and res: "resolve (eng_lib eng) (run_flow_id R) (run_flow_version R) w = Inr m" and time: "in_time (eng_env eng) (run_state R) w"
    and n: "find_node m (waiting_node_id (run_state R)) = Some n" and valid: "validate_decision (form n) decision = Inr ([], [])"
    and edits: "apply_edits m n (nodes_of (run_state R)) (dget_none decision ''edits'') = Inr ns"
  shows "wp (decide eng rid decision actor)
    (\<lambda>r w'. (ns = nodes_of (run_state R) \<longrightarrow> finished (eng_env eng) m base (budget_of m (run_state R)) R r w') \<and>
       (\<exists>s'. length (completed_steps (butlast S @ [s'])) = Suc (length (completed_steps S)) \<and>
         resumed (eng_env eng) m (budget_of m (run_state R)) R n (butlast S @ [s'])
           (wait_over (run_state R) (node_id n) decision ns) r w') \<and>
       wait_ended rid S Es decision (HumanDecisionRecorded (node_id n) (step_id (last S)) actor decision) w')
    (\<lambda>x w'. x = NotSerializable \<and>
       wait_ended rid S Es decision (HumanDecisionRecorded (node_id n) (step_id (last S)) actor decision) w') w"
proof -
  have mok: "manifest_ok m" by (rule resolve_manifest_ok [OF res])
  from awaitingE [OF waits(2) mok] obtain S0 s p where a: "S = S0 @ [s]" "st_pause (run_state R) = Some p"
    "pause_node p = node_id n" "pause_step p = step_id s" "find_node m (node_id n) = Some n" and ok: "state_ok (run_state R)"
    and trace: "in_step (eng_env eng) m base (run_input R) (run_state R) S0" and open_step: "step_status s = ''waiting_human''"
    and matches: "step_matches (eng_env eng) m (run_input R) (cursor_of (run_state R)) (nodes_of (run_state R)) s = Some n"
    using n by (metis option.inject)
  have nt: "run_status R \<notin> set TERMINAL_RUN_STATUSES" using waits(1) by (simp add: TERMINAL_RUN_STATUSES_def)
  have jn: "is_json (PDict (nodes_of (run_state R)))"
    using ok by (auto simp: state_ok_def json_state_iff nodes_of_def simp del: is_json.simps)
  have "is_json (dget_none decision ''edits'')"
    using json(2) is_json_dlookup by (auto simp: dget_none_def split: option.splits)
  then have js: "is_json (PDict ns)" by (rule apply_edits_json [OF edits _ jn])
  let ?w = "if pause_expiry (run_state R) = PNone then w else tick w"
  have at1: "run_at (run_id R) R (S0 @ [s]) Es ?w" using at a(1) run_atD(6) [OF at] by simp
  have F: "tbl_flows ?w = tbl_flows w" by simp
  have rec: "wp (record_decision eng R m n s decision actor) Q E w1 =
      wp (then_a (complete_step (step_id s) ''completed'' (Some decision) [])
        (then_a (append_event (run_id R) (HumanDecisionRecorded (node_id n) (step_id s) actor decision))
        (human_resume eng R m n s (wait_over (run_state R) (node_id n) decision ns)))) Q E w1" for Q E w1
    by (simp add: record_decision_def valid edits)
  show ?thesis
    unfolding wp_decide [OF at waits(1) res a] wp_wait_due_in_time [OF time] if_False rec
  proof (rule end_wait_wp [OF at1 json(2)], goal_cases)
    case (1 s' e w')
    let ?h = "history (run_id R) (S0 @ [s']) (Es @ [e])"
    have h: "?h w'" using historyI [OF 1(1)] by simp
    have ended: "wait_ended rid S Es decision (HumanDecisionRecorded (node_id n) (step_id (last S)) actor decision) w2" if "?h w2" for w2
      unfolding a(1) using wait_endedI [OF that] 1 run_atD(6) [OF at] by simp
    have cs: "length (completed_steps (butlast S @ [s'])) = Suc (length (completed_steps S))"
      using 1 open_step a(1) by (simp add: completed_steps_def)
    have "step_matches (eng_env eng) m (run_input R) (cursor_of (run_state R)) (nodes_of (run_state R)) s' = Some n"
      using matches 1 by (simp add: step_matches_Some del: py_eq.simps)
    then have "wp (human_resume eng R m n s (wait_over (run_state R) (node_id n) decision ns))
      (\<lambda>r w'. (ns = nodes_of (run_state R) \<longrightarrow> finished (eng_env eng) m base (budget_of m (run_state R)) R r w') \<and>
         resumed (eng_env eng) m (budget_of m (run_state R)) R n (S0 @ [s']) (wait_over (run_state R) (node_id n) decision ns) r w')
      (\<lambda>x _. x = NotSerializable) w'"
      by (intro human_resume_wp [OF iso json(1) 1(1) nt _ js json(2) known trace])
        (use 1 res resolve_cong [of w' w] F in \<open>simp_all split: if_splits\<close>)
    from wp_conj [OF this preserves_wpD [OF human_resume_history(2) [OF iso] h]] show ?case
      by (rule wp_mono) (use ended cs a(1) in \<open>auto intro!: exI [of _ s']\<close>)
  qed
qed

subsection \<open>A flow that waits\<close>

definition review_raw :: pydict where
  "review_raw = [
     (KStr ''schemaVersion'', PStr ''1''), (KStr ''id'', PStr ''demo/review''), (KStr ''version'', PStr ''1.0.0''),
     (KStr ''hostApi'', PStr ''*''),
     (KStr ''nodes'', PList [
        PDict [(KStr ''id'', PStr ''review''), (KStr ''type'', PStr ''human''), (KStr ''prompt'', PStr ''ship?''),
               (KStr ''timeoutSec'', PInt 60), (KStr ''form'', PDict [(KStr ''required'', PList [PStr ''decision''])])],
        PDict [(KStr ''id'', PStr ''ship''), (KStr ''type'', PStr ''tool''), (KStr ''ref'', PStr ''demo/tool'')],
        PDict [(KStr ''id'', PStr ''drop''), (KStr ''type'', PStr ''tool''), (KStr ''ref'', PStr ''demo/tool'')]]),
     (KStr ''edges'', PList [
        PDict [(KStr ''from'', PStr ''review''), (KStr ''to'', PStr ''ship'')],
        PDict [(KStr ''from'', PStr ''review''), (KStr ''to'', PStr ''drop''), (KStr ''on'', PStr ''timeout'')]])]"

definition review_manifest :: flow_manifest where
  "review_manifest = (case validate_flow_manifest example_lib review_raw of Inr (Inr m) \<Rightarrow> m | _ \<Rightarrow> example_manifest)"

definition review_world :: world where
  "review_world = example_world\<lparr>tbl_flows := [(''demo/review'', ''1.0.0'', review_raw)]\<rparr>"

definition review_run :: "(flow_exc, flow_run_record) result \<times> world" where
  "review_run = start_run example_engine ''demo/review'' ''*'' [] None ''t'' None True None review_world"

definition yes :: pydict where
  "yes = [(KStr ''decision'', PStr ''yes'')]"

lemma review_resolve:
  "resolve example_lib ''demo/review'' ''*'' review_world = Inr review_manifest"
  "resolve example_lib ''demo/review'' ''1.0.0'' review_world = Inr review_manifest"
  "flow_id review_manifest = ''demo/review''" "version review_manifest = ''1.0.0''"
  by code_simp+

lemma review_json: "bindings_json review_manifest" "is_json (PDict ([] :: pydict))" "is_json (PDict (default_trigger None))"
  "validate_run_input review_manifest [] = Inr ([], [])"
  by code_simp+

lemma review_entry: "map_option node_id (entry_node review_manifest) = Some ''review''"
  by code_simp

lemma yes_json: "is_json (PDict yes)"
  by code_simp

lemma review_store: "store_inv review_world" "ids_fresh review_world"
  by (simp_all add: review_world_def example_world_def store_inv_def ids_fresh_def ids_of_def contiguous_def)

text \<open>The run pauses at its first node; the clock of the world is replaced to let the wait expire.\<close>

lemma review_waits:
  obtains r S Es w n and e :: flow_node where "review_run = (Inr r, w)" "run_at (run_id r) r S Es w" "run_status r = ''waiting_human''"
    "awaiting (eng_env example_engine) review_manifest (origin (node_id e)) r S" "base_known review_manifest (origin (node_id e))"
    "resolve (eng_lib example_engine) (run_flow_id r) (run_flow_version r) w = Inr review_manifest"
    "in_time (eng_env example_engine) (run_state r) w"
    "overdue (eng_env example_engine) (run_state r) (w\<lparr>wall_src := \<lambda>_. 1000000000\<rparr>)"
    "find_node review_manifest (waiting_node_id (run_state r)) = Some n" "validate_decision (form n) yes = Inr ([], [])"
    "validate_decision (form n) [] \<noteq> Inr ([], [])" "timeout_target review_manifest n = Some ''drop''"
    "entry_node review_manifest = Some e"
proof -
  have "case review_run of
      (Inr r, w) \<Rightarrow> run_status r = ''waiting_human'' \<and> tbl_flows w = tbl_flows review_world \<and> run_flow_id r = ''demo/review'' \<and>
        run_flow_version r = ''1.0.0'' \<and> pause_expiry (run_state r) \<noteq> PNone \<and>
        (case fromisoformat example_env (py_str example_env (pause_expiry (run_state r))) of
           None \<Rightarrow> False | Some d \<Rightarrow> wall_src w (wall_reads w) < d \<and> d \<le> 1000000000) \<and>
        (case find_node review_manifest (waiting_node_id (run_state r)) of
           None \<Rightarrow> False
         | Some n \<Rightarrow> validate_decision (form n) yes = Inr ([], []) \<and> validate_decision (form n) [] \<noteq> Inr ([], []) \<and>
             timeout_target review_manifest n = Some ''drop'')
    | (Inl x, w) \<Rightarrow> False"
    by code_simp
  then obtain r w d n where r: "review_run = (Inr r, w)" "run_status r = ''waiting_human''" "tbl_flows w = tbl_flows review_world"
    "run_flow_id r = ''demo/review''" "run_flow_version r = ''1.0.0''" "pause_expiry (run_state r) \<noteq> PNone"
    "fromisoformat example_env (py_str example_env (pause_expiry (run_state r))) = Some d" "wall_src w (wall_reads w) < d" "d \<le> 1000000000"
    and n: "find_node review_manifest (waiting_node_id (run_state r)) = Some n" "validate_decision (form n) yes = Inr ([], [])"
      "validate_decision (form n) [] \<noteq> Inr ([], [])" "timeout_target review_manifest n = Some ''drop''"
    by (auto split: prod.splits sum.splits option.splits)
  have env: "eng_env example_engine = example_env" "eng_lib example_engine = example_lib" by (simp_all add: example_engine_def)
  have "run_ended example_engine review_manifest None r w"
    using wp_InrD [OF start_run_wp [OF example_isolated review_store _ _ review_json] r(1) [unfolded review_run_def]]
    by (simp add: env review_resolve)
  then obtain e S Es where e: "entry_node review_manifest = Some e" and at: "run_at (run_id r) r S Es w"
    and aw: "awaiting (eng_env example_engine) review_manifest (origin (node_id e)) r S"
    using r(2) by (auto simp: run_ended_def)
  have res: "resolve example_lib (run_flow_id r) (run_flow_version r) w = Inr review_manifest"
    unfolding resolve_cong [OF r(3)] r(4,5) by (rule review_resolve)
  show ?thesis
    by (rule that [OF r(1) at r(2) aw origin_known [OF resolve_manifest_ok [OF res] e] _ _ _ n e])
      (use r res in \<open>auto simp: env in_time_def overdue_def\<close>)
qed

subsection \<open>Properties\<close>

text \<open>
  C31. A decision on a paused run, valid against the form of the human node and made in time, ends the
  wait. The step that waited is completed with the decision as its output and the decision with its
  actor is the next event of the run; both stay recorded, also when an output that is no JSON document
  makes the rest of the execution raise. The run then goes on, from the node that routing selects on
  the edited outputs with the decision among them, until it completes, fails or waits at another step;
  where routing finds no node it fails at once. Without edits of earlier outputs the whole history, the
  decision included, replays.
\<close>

theorem decide_resumes:
  assumes "handlers_isolated (eng_handlers eng)" and "bindings_json m" and "is_json (PDict decision)"
    and "run_at rid R S Es w" and "run_status R = ''waiting_human''" and "awaiting (eng_env eng) m base R S" and "base_known m base"
    and "resolve (eng_lib eng) (run_flow_id R) (run_flow_version R) w = Inr m" and "in_time (eng_env eng) (run_state R) w"
    and "find_node m (waiting_node_id (run_state R)) = Some n" and "validate_decision (form n) decision = Inr ([], [])"
    and "apply_edits m n (nodes_of (run_state R)) (dget_none decision ''edits'') = Inr ns"
  shows "case decide eng rid decision actor w of
      (Inr r, w') \<Rightarrow> get_run rid None w' = Some r \<and> same_run R r \<and> run_status r \<in> {''completed'', ''failed'', ''waiting_human''} \<and>
        wait_ended rid S Es decision (HumanDecisionRecorded (node_id n) (step_id (last S)) actor decision) w' \<and>
        waits_elsewhere (step_id (last S)) r \<and>
        (let outputs = dset (KStr (node_id n)) (node_output_entry decision) ns
         in case select_next_node m n (build_eval_state (run_input R) outputs) of
              Inl err \<Rightarrow> run_status r = ''failed'' \<and> stop_reason r \<in> {''predicate_error'', ''no_route''} \<and>
                length (list_steps rid w') = length S
            | Inr nxt \<Rightarrow> replays (eng_env eng) m (Suc (length (completed_steps S)), nxt, outputs) r (list_steps rid w')) \<and>
        (dget_none decision ''edits'' = PNone \<longrightarrow> replays (eng_env eng) m base r (list_steps rid w'))
    | (Inl x, w') \<Rightarrow> x = NotSerializable \<and>
        wait_ended rid S Es decision (HumanDecisionRecorded (node_id n) (step_id (last S)) actor decision) w'"
proof -
  let ?env = "eng_env eng"
  let ?outs = "dset (KStr (node_id n)) (node_output_entry decision) ns"
  have rid: "run_id R = rid" by (rule run_atD(6) [OF assms(4)])
  have S: "S \<noteq> []" using assms(6) by (auto simp: awaiting_def)
  have edits: "ns = nodes_of (run_state R)" if "dget_none decision ''edits'' = PNone"
    using assms(12) that by (simp add: apply_edits_def)
  have fin: "replays env m b r (list_steps rid w')" "get_run rid None w' = Some r" "same_run R r"
    "run_status r \<in> {''completed'', ''failed'', ''waiting_human''}" if "finished env m b bud R r w'" for env b bud r w'
    using that run_atD(3,4) unfolding finished_def rid by blast+
  have routed: "case select_next_node m n (build_eval_state (run_input R) ?outs) of
      Inl err \<Rightarrow> run_status r = ''failed'' \<and> stop_reason r \<in> {''predicate_error'', ''no_route''} \<and> length (list_steps rid w') = length S
    | Inr nxt \<Rightarrow> replays ?env m (Suc (length (completed_steps S)), nxt, ?outs) r (list_steps rid w')"
    if "resumed ?env m bud R n (butlast S @ [s']) (wait_over (run_state R) (node_id n) decision ns) r w'"
      "length (completed_steps (butlast S @ [s'])) = Suc (length (completed_steps S))" for bud s' r w'
    using that S by (auto simp: resumed_def rid settled_def fin(1) dest!: run_atD(4) split: sum.splits)
  show ?thesis
  proof (cases "decide eng rid decision actor w")
    case (Pair res w')
    show ?thesis
    proof (cases res)
      case (Inl x)
      then show ?thesis using wp_InlD [OF decide_wp [OF assms] Pair [unfolded Inl]] Pair by simp
    next
      case (Inr r)
      from wp_InrD [OF decide_wp [OF assms] Pair [unfolded Inr]] obtain s' where
        same: "ns = nodes_of (run_state R) \<Longrightarrow> finished ?env m base (budget_of m (run_state R)) R r w'" and
        cs: "length (completed_steps (butlast S @ [s'])) = Suc (length (completed_steps S))" and
        go: "resumed ?env m (budget_of m (run_state R)) R n (butlast S @ [s']) (wait_over (run_state R) (node_id n) decision ns) r w'" and
        ended: "wait_ended rid S Es decision (HumanDecisionRecorded (node_id n) (step_id (last S)) actor decision) w'"
        by blast
      obtain b where f: "finished ?env m b (budget_of m (run_state R)) R r w'" using resumed_finished [OF go] by blast
      show ?thesis
        unfolding Pair Inr prod.case sum.case Let_def
        by (intro conjI impI fin(2-4) [OF f] ended finished_waits_elsewhere [OF f] routed [OF go cs] fin(1) [OF same [OF edits]])
          (use ended rid in simp)
    qed
  qed
qed

lemma review_decided:
  "case review_run of (Inl x, w) \<Rightarrow> False | (Inr r, w) \<Rightarrow>
     (case decide example_engine (run_id r) yes ''ana'' w of (Inl x, w') \<Rightarrow> False | (Inr r', w') \<Rightarrow> run_status r' = ''completed'')"
  by code_simp

theorem decide_resumes_witness:
  "\<exists>r w S Es r' w'. review_run = (Inr r, w) \<and> run_at (run_id r) r S Es w \<and>
     decide example_engine (run_id r) yes ''ana'' w = (Inr r', w') \<and> run_status r' = ''completed'' \<and>
     (\<exists>p. wait_ended (run_id r) S Es yes p w') \<and>
     replays (eng_env example_engine) review_manifest (origin ''review'') r' (list_steps (run_id r) w')"
proof -
  obtain r S Es w n and e :: flow_node where r: "review_run = (Inr r, w)" and h: "run_at (run_id r) r S Es w" "run_status r = ''waiting_human''"
    "awaiting (eng_env example_engine) review_manifest (origin (node_id e)) r S" "base_known review_manifest (origin (node_id e))"
    "resolve (eng_lib example_engine) (run_flow_id r) (run_flow_version r) w = Inr review_manifest"
    "in_time (eng_env example_engine) (run_state r) w"
    "find_node review_manifest (waiting_node_id (run_state r)) = Some n" "validate_decision (form n) yes = Inr ([], [])"
    and e: "entry_node review_manifest = Some e"
    by (rule review_waits) blast
  have "node_id e = ''review''" using e review_entry by simp
  moreover obtain r' w' where "decide example_engine (run_id r) yes ''ana'' w = (Inr r', w')" "run_status r' = ''completed''"
    using review_decided by (cases "decide example_engine (run_id r) yes ''ana'' w") (simp add: r split: sum.splits)
  moreover have "apply_edits review_manifest n (nodes_of (run_state r)) (dget_none yes ''edits'') = Inr (nodes_of (run_state r))"
    and "dget_none yes ''edits'' = PNone"
    by (simp_all add: yes_def dget_none_def apply_edits_def)
  ultimately show ?thesis
    using decide_resumes [OF example_isolated review_json(1) yes_json h, of "nodes_of (run_state r)" "''ana''"] r h(1)
    by simp blast
qed

text \<open>
  C32. A decision that arrives after the wait expired is not recorded: it is refused with the expiry,
  after the timeout took its place. The step that waited is completed with the output
  \<open>{"timedOut": true}\<close> and the expiry is the next event of the run; both stay recorded. The run goes on
  at the target of the timeout, the node's own or that of its timeout edge, until it completes, fails
  or waits at another step; without a target it fails as \<open>no_route\<close>.
\<close>

theorem decide_expired_routes_timeout:
  assumes "handlers_isolated (eng_handlers eng)" and "bindings_json m"
    and "run_at rid R S Es w" and "run_status R = ''waiting_human''" and "awaiting (eng_env eng) m base R S"
    and "resolve (eng_lib eng) (run_flow_id R) (run_flow_version R) w = Inr m" and "overdue (eng_env eng) (run_state R) w"
    and "find_node m (waiting_node_id (run_state R)) = Some n"
  shows "case decide eng rid decision actor w of
      (Inr r, w') \<Rightarrow> False
    | (Inl x, w') \<Rightarrow>
        wait_ended rid S Es [(KStr ''timedOut'', PBool True)]
          (HumanTimeoutExpired (node_id n) (step_id (last S)) (pause_expiry (run_state R))) w' \<and>
        (x = NotSerializable \<or> x = HumanDecisionError (WaitExpired (pause_expiry (run_state R))) \<and>
          (\<exists>r. get_run rid None w' = Some r \<and> same_run R r \<and> waits_elsewhere (step_id (last S)) r \<and>
            (case timeout_target m n of
               None \<Rightarrow> run_status r = ''failed'' \<and> stop_reason r = ''no_route''
             | Some t \<Rightarrow> run_status r \<in> {''completed'', ''failed'', ''waiting_human''} \<and>
                 replays (eng_env eng) m (Suc (length (completed_steps S)), Some t,
                   dset (KStr (node_id n)) (node_output_entry [(KStr ''timedOut'', PBool True)]) (nodes_of (run_state R)))
                   r (list_steps rid w'))))"
proof -
  have mok: "manifest_ok m" by (rule resolve_manifest_ok [OF assms(6)])
  have rid: "run_id R = rid" by (rule run_atD(6) [OF assms(3)])
  from awaitingE [OF assms(5) mok] obtain S0 s p where a: "S = S0 @ [s]" "st_pause (run_state R) = Some p"
    "pause_node p = node_id n" "pause_step p = step_id s" "find_node m (node_id n) = Some n" and ok: "state_ok (run_state R)"
    and open_step: "step_status s = ''waiting_human''"
    using assms(8) by (metis option.inject)
  have nt: "run_status R \<notin> set TERMINAL_RUN_STATUSES" using assms(4) by (simp add: TERMINAL_RUN_STATUSES_def)
  have at1: "run_at (run_id R) R (S0 @ [s]) Es (tick w)" using assms(3) a(1) rid by simp
  have res1: "resolve (eng_lib eng) (run_flow_id R) (run_flow_version R) (tick w) = Inr m"
    using assms(6) resolve_cong [of "tick w" w] by simp
  have cs: "length (completed_steps S) = length (completed_steps S0)" using open_step a(1) by (simp add: completed_steps_def)
  let ?ns = "dset (KStr (node_id n)) (node_output_entry timeout_output) (nodes_of (run_state R))"
  let ?ev = "HumanTimeoutExpired (node_id n) (step_id (last S)) (pause_expiry (run_state R))"
  let ?ended = "wait_ended rid S Es timeout_output ?ev"
  have routed: "\<exists>r. get_run rid None w' = Some r \<and> same_run R r \<and> waits_elsewhere (step_id (last S)) r \<and>
      (case timeout_target m n of
         None \<Rightarrow> run_status r = ''failed'' \<and> stop_reason r = ''no_route''
       | Some t \<Rightarrow> run_status r \<in> {''completed'', ''failed'', ''waiting_human''} \<and>
           replays (eng_env eng) m (Suc (length (completed_steps S)), Some t, ?ns) r (list_steps rid w'))"
    if "timeout_taken (eng_env eng) m bud R n (Suc (length (completed_steps S0))) ?ns r w'" and e: "?ended w'" for bud r w'
  proof (cases "timeout_target m n")
    case None
    then show ?thesis using that rid by (auto simp: timeout_taken_def waits_elsewhere_def)
  next
    case (Some t)
    with that(1) have f: "finished (eng_env eng) m (Suc (length (completed_steps S)), Some t, ?ns) bud R r w'"
      by (simp add: timeout_taken_def cs)
    show ?thesis
      using f finished_waits_elsewhere [OF f] e run_atD(3,4) unfolding Some option.case finished_def rid by blast
  qed
  have "wp (decide eng rid decision actor) (\<lambda>_ _. False) (\<lambda>x w'. ?ended w' \<and>
      (x = NotSerializable \<or> x = HumanDecisionError (WaitExpired (pause_expiry (run_state R))) \<and>
        (\<exists>bud r. timeout_taken (eng_env eng) m bud R n (Suc (length (completed_steps S0))) ?ns r w'))) w"
    unfolding wp_decide [OF assms(3,4,6) a] wp_wait_due_overdue [OF assms(7)] if_True
    by (rule wp_mono [OF route_timeout_wp [OF assms(1,2) at1 nt res1 ok a(5) refl]]) (use a(1) rid in auto)
  then show ?thesis using routed unfolding wp_def by (auto split: sum.splits prod.splits)
qed

lemma review_expired:
  "case review_run of (Inl x, w) \<Rightarrow> False | (Inr r, w) \<Rightarrow>
     (case decide example_engine (run_id r) yes ''ana'' (w\<lparr>wall_src := \<lambda>_. 1000000000\<rparr>) of
        (Inl x, w') \<Rightarrow> x \<noteq> NotSerializable | (Inr r', w') \<Rightarrow> False)"
  by code_simp

theorem decide_expired_routes_timeout_witness:
  "\<exists>r w S Es x w' r'. review_run = (Inr r, w) \<and> run_at (run_id r) r S Es w \<and>
     decide example_engine (run_id r) yes ''ana'' (w\<lparr>wall_src := \<lambda>_. 1000000000\<rparr>) = (Inl x, w') \<and>
     x = HumanDecisionError (WaitExpired (pause_expiry (run_state r))) \<and>
     (\<exists>p. wait_ended (run_id r) S Es [(KStr ''timedOut'', PBool True)] p w') \<and> get_run (run_id r) None w' = Some r' \<and>
     (\<exists>ns. replays (eng_env example_engine) review_manifest (Suc (length (completed_steps S)), Some ''drop'', ns) r' (list_steps (run_id r) w'))"
proof -
  obtain r S Es w n and e :: flow_node where r: "review_run = (Inr r, w)" and h: "run_at (run_id r) r S Es w" "run_status r = ''waiting_human''"
    "awaiting (eng_env example_engine) review_manifest (origin (node_id e)) r S"
    "resolve (eng_lib example_engine) (run_flow_id r) (run_flow_version r) w = Inr review_manifest"
    "overdue (eng_env example_engine) (run_state r) (w\<lparr>wall_src := \<lambda>_. 1000000000\<rparr>)"
    and n: "find_node review_manifest (waiting_node_id (run_state r)) = Some n" "timeout_target review_manifest n = Some ''drop''"
    by (rule review_waits) blast
  let ?w = "w\<lparr>wall_src := \<lambda>_. 1000000000\<rparr>"
  have "run_at (run_id r) r S Es ?w" using h(1) run_at_cong [of ?w w] by simp
  moreover have "resolve (eng_lib example_engine) (run_flow_id r) (run_flow_version r) ?w = Inr review_manifest"
    using h(4) resolve_cong [of ?w w] by simp
  moreover obtain x w' where "decide example_engine (run_id r) yes ''ana'' ?w = (Inl x, w')" "x \<noteq> NotSerializable"
    using review_expired by (cases "decide example_engine (run_id r) yes ''ana'' ?w") (simp add: r split: sum.splits)
  ultimately show ?thesis
    using decide_expired_routes_timeout [OF example_isolated review_json(1) _ h(2,3) _ h(5) n(1), of "run_id r" Es yes "''ana''"] r h(1) n(2)
    by simp blast
qed

text \<open>
  A refused decision writes nothing: on an unknown run, on a run that is not waiting, with a payload
  that fails the form, or with edits that are malformed, target the human node itself or name an
  undeclared node, the tables of runs, steps and events are as before.
\<close>

theorem decide_refused_writes_nothing:
  assumes "run_at rid R S Es w" and "run_status R = ''waiting_human''" and "awaiting (eng_env eng) m base R S"
    and "resolve (eng_lib eng) (run_flow_id R) (run_flow_version R) w = Inr m" and "in_time (eng_env eng) (run_state R) w"
    and "find_node m (waiting_node_id (run_state R)) = Some n"
    and "validate_decision (form n) decision \<noteq> Inr ([], []) \<or>
      (\<exists>x. apply_edits m n (nodes_of (run_state R)) (dget_none decision ''edits'') = Inl x)"
  shows "(\<exists>x w'. decide eng rid decision actor w = (Inl x, w') \<and> tbl_runs w' = tbl_runs w \<and> tbl_steps w' = tbl_steps w \<and>
      tbl_events w' = tbl_events w) \<and>
    (case get_run rid' None w of
       None \<Rightarrow> decide eng rid' decision actor w = (Inl (HumanUnknownRun rid'), w)
     | Some r \<Rightarrow> run_status r \<noteq> ''waiting_human'' \<longrightarrow>
         decide eng rid' decision actor w = (Inl (HumanStateError rid' (run_status r)), w))"
proof -
  have mok: "manifest_ok m" by (rule resolve_manifest_ok [OF assms(4)])
  from awaitingE [OF assms(3) mok] obtain S0 s p where a: "S = S0 @ [s]" "st_pause (run_state R) = Some p"
    "pause_node p = node_id n" "pause_step p = step_id s" "find_node m (node_id n) = Some n"
    using assms(6) by (metis option.inject)
  have "wp (decide eng rid decision actor) (\<lambda>_ _. False) (\<lambda>x w'. tbl_runs w' = tbl_runs w \<and> tbl_steps w' = tbl_steps w \<and>
      tbl_events w' = tbl_events w) w"
    unfolding wp_decide [OF assms(1,2,4) a] wp_wait_due_in_time [OF assms(5)] if_False
    using assms(7) by (auto simp: record_decision_def split: sum.splits)
  then have "\<exists>x w'. decide eng rid decision actor w = (Inl x, w') \<and> tbl_runs w' = tbl_runs w \<and> tbl_steps w' = tbl_steps w \<and>
      tbl_events w' = tbl_events w"
    unfolding wp_def by (auto split: prod.splits sum.splits)
  then show ?thesis
    by (simp add: decide_def waiting_context_def bind_a_def gets_a_def raise_a_def split: option.splits)
qed

theorem decide_refused_writes_nothing_witness:
  "\<exists>r w x w'. review_run = (Inr r, w) \<and> decide example_engine (run_id r) [] ''ana'' w = (Inl x, w') \<and> tbl_steps w' = tbl_steps w"
proof -
  obtain r S Es w n and e :: flow_node where r: "review_run = (Inr r, w)" and h: "run_at (run_id r) r S Es w"
    "run_status r = ''waiting_human''" "awaiting (eng_env example_engine) review_manifest (origin (node_id e)) r S"
    "resolve (eng_lib example_engine) (run_flow_id r) (run_flow_version r) w = Inr review_manifest"
    "in_time (eng_env example_engine) (run_state r) w" "find_node review_manifest (waiting_node_id (run_state r)) = Some n"
    and bad: "validate_decision (form n) [] \<noteq> Inr ([], [])"
    by (rule review_waits) blast
  from decide_refused_writes_nothing [OF h disjI1 [OF bad]] r show ?thesis by blast
qed

text \<open>
  Edits change exactly the outputs they name: every edited node is declared and is not the human
  node, each patch is merged over the recorded output in turn, and all other outputs are kept.
\<close>

theorem apply_edits_merges:
  assumes "apply_edits m human ns (PDict es) = Inr ns'"
  shows "(\<forall>(k, v)\<in>set es. str_key k \<noteq> node_id human \<and> find_node m (str_key k) \<noteq> None \<and> (\<exists>patch. v = PDict patch)) \<and>
    recorded_output ns' nid = foldl (\<lambda>old (k, v). if nid = str_key k
      then Some (dmerge (case old of None \<Rightarrow> [] | Some d \<Rightarrow> d) (case v of PDict patch \<Rightarrow> patch | _ \<Rightarrow> [])) else old)
      (recorded_output ns nid) es"
  using assms unfolding apply_edits_def pyval.case
proof (induction es arbitrary: ns)
  case (Cons e es)
  obtain k v where e: "e = (k, v)" by fastforce
  with Cons.prems obtain ns1 where 1: "apply_edit m human k v ns = Inr ns1" "apply_edit_list m human es ns1 = Inr ns'"
    by (auto simp: bind_r_eq_Inr)
  obtain patch where v: "v = PDict patch" using 1(1) by (cases v) (auto simp: apply_edit_def)
  have "str_key k \<noteq> node_id human \<and> find_node m (str_key k) \<noteq> None"
    using 1(1) v by (auto simp: apply_edit_def Let_def split: if_splits)
  then show ?case using Cons.IH [OF 1(2)] e v recorded_output_edit [OF 1(1) [unfolded v], of nid] by simp
qed simp

theorem apply_edits_merges_witness:
  "case apply_edits example_manifest (hd (nodes example_manifest)) [] (PDict [(KStr ''accept'', PDict yes)]) of
     Inl x \<Rightarrow> False | Inr ns \<Rightarrow> recorded_output ns ''accept'' = Some yes \<and> recorded_output ns ''reject'' = None"
proof -
  obtain ns where "apply_edits example_manifest (hd (nodes example_manifest)) [] (PDict [(KStr ''accept'', PDict yes)]) = Inr ns"
  proof -
    have "case apply_edits example_manifest (hd (nodes example_manifest)) [] (PDict [(KStr ''accept'', PDict yes)]) of
      Inl x \<Rightarrow> False | Inr ns \<Rightarrow> True" by code_simp
    then show thesis using that by (auto split: sum.splits)
  qed
  then show ?thesis
    using apply_edits_merges [of example_manifest "hd (nodes example_manifest)" "[]" "[(KStr ''accept'', PDict yes)]" ns "''accept''"]
      apply_edits_merges [of example_manifest "hd (nodes example_manifest)" "[]" "[(KStr ''accept'', PDict yes)]" ns "''reject''"]
    by (simp add: recorded_output_def dmerge_def yes_def)
qed

end
