(* ===== verification/Flow_Expr_Roundtrip.thy ===== *)
theory Flow_Expr_Roundtrip
  imports Flow_Expressions
begin

text \<open>
  A printer for the expression language and the round trip through the tokenizer and the parser of
  \<^verbatim>\<open>backend/flows/expressions.py\<close>: printing any expression of the language and compiling the text
  gives the expression back.
\<close>

subsection \<open>Printing\<close>

definition is_ident :: "string \<Rightarrow> bool" where
  "is_ident s = (case s of [] \<Rightarrow> False | c # r \<Rightarrow> ident_start c \<and> (\<forall>x\<in>set r. ident_char x))"

definition quote_for :: "string \<Rightarrow> char" where
  "quote_for s = (if squote \<in> set s then dquote else squote)"

definition quoted :: "string \<Rightarrow> string" where
  "quoted s = [quote_for s] @ s @ [quote_for s]"

definition quotable :: "string \<Rightarrow> bool" where
  "quotable s = (squote \<notin> set s \<or> dquote \<notin> set s)"

fun seg_tokens :: "seg \<Rightarrow> token list" where
  "seg_tokens (SKey k) =
     (if is_ident k then [(TOp, ''.''), (TIdent, k)] else [(TOp, ''[''), (TString, quoted k), (TOp, '']'')])"
| "seg_tokens (SIdx i) = [(TOp, ''[''), (TNumber, str_int i), (TOp, '']'')]"

fun literal_token :: "pyval \<Rightarrow> token" where
  "literal_token (PBool b) = (TIdent, if b then ''true'' else ''false'')"
| "literal_token (PInt i) = (TNumber, str_int i)"
| "literal_token (PStr s) = (TString, quoted s)"
| "literal_token v = (TIdent, ''null'')"

fun atomic :: "enode \<Rightarrow> bool" where
  "atomic (Literal v) = True"
| "atomic (Path segs) = True"
| "atomic e = False"

fun path_tokens :: "seg list \<Rightarrow> token list" where
  "path_tokens (SKey k # segs) = (TIdent, k) # concat (map seg_tokens segs)"
| "path_tokens _ = []"

fun node_tokens :: "enode \<Rightarrow> token list" where
  "node_tokens (Literal v) = [literal_token v]"
| "node_tokens (Path segs) = path_tokens segs"
| "node_tokens (Compare op l r) =
     (if atomic l then node_tokens l else (TOp, ''('') # node_tokens l @ [(TOp, '')'')]) @ [(TOp, op)] @
     (if atomic r then node_tokens r else (TOp, ''('') # node_tokens r @ [(TOp, '')'')])"
| "node_tokens (BoolOp op l r) =
     (if atomic l then node_tokens l else (TOp, ''('') # node_tokens l @ [(TOp, '')'')]) @ [(TIdent, op)] @
     (if atomic r then node_tokens r else (TOp, ''('') # node_tokens r @ [(TOp, '')'')])"
| "node_tokens (Not e) =
     (TIdent, ''not'') # (if atomic e then node_tokens e else (TOp, ''('') # node_tokens e @ [(TOp, '')'')])"

abbreviation operand_tokens :: "enode \<Rightarrow> token list" where
  "operand_tokens e \<equiv> (if atomic e then node_tokens e else (TOp, ''('') # node_tokens e @ [(TOp, '')'')])"

definition print_expression :: "enode \<Rightarrow> string" where
  "print_expression e = intercalate '' '' (map snd (node_tokens e))"

text \<open>
  The expressions of the language: comparison and boolean operators of the grammar, paths that start
  with an identifier that is no keyword, literals with a spelling (no \<open>float\<close>: its
  spelling is not unique), strings free of one of the two quotes.
\<close>

fun seg_wf :: "seg \<Rightarrow> bool" where
  "seg_wf (SKey k) = quotable k"
| "seg_wf (SIdx i) = True"

fun literal_wf :: "pyval \<Rightarrow> bool" where
  "literal_wf PNone = True"
| "literal_wf (PBool b) = True"
| "literal_wf (PInt i) = True"
| "literal_wf (PStr s) = quotable s"
| "literal_wf _ = False"

fun expr_wf :: "enode \<Rightarrow> bool" where
  "expr_wf (Literal v) = literal_wf v"
| "expr_wf (Path segs) =
     (case segs of
        SKey k # r \<Rightarrow> is_ident k \<and> k \<notin> set expr_keywords \<and> (\<forall>s\<in>set r. seg_wf s)
      | _ \<Rightarrow> False)"
| "expr_wf (Compare op l r) = (op \<in> set comparison_ops \<and> expr_wf l \<and> expr_wf r)"
| "expr_wf (BoolOp op l r) = (op \<in> {''and'', ''or''} \<and> expr_wf l \<and> expr_wf r)"
| "expr_wf (Not e) = expr_wf e"

subsection \<open>Numbers\<close>

lemma str_nat_hd: "hd (str_nat n) \<noteq> CHR ''-''"
  using str_nat_digits [of n] by (cases "str_nat n") auto

lemma number_int_str_int [simp]: "number_int (str_int i) = i"
proof (cases "i < 0")
  case True
  then show ?thesis by (simp add: number_int_def str_int_def unsigned_part_def Let_def)
next
  case False
  obtain c r where r: "str_nat (nat i) = c # r" by (cases "str_nat (nat i)") auto
  have "c \<noteq> CHR ''-''" using str_nat_hd [of "nat i"] r by simp
  then have "number_int (str_int i) = int (nat_of_digits (str_nat (nat i)))"
    using False r by (simp add: number_int_def str_int_def unsigned_part_def Let_def)
  with False show ?thesis by simp
qed

lemma str_int_no_dot: "CHR ''.'' \<notin> set (str_int i)"
  using str_nat_digits by (auto simp: str_int_def)


subsection \<open>Parsing printed tokens\<close>

definition ok_rest :: "token list \<Rightarrow> bool" where
  "ok_rest rest = (case rest of [] \<Rightarrow> True | (k, t) # _ \<Rightarrow> t \<noteq> ''.'' \<and> t \<noteq> ''['')"

definition stop_rest :: "token list \<Rightarrow> bool" where
  "stop_rest rest = (case rest of [] \<Rightarrow> True | x # _ \<Rightarrow> x = (TOp, '')''))"

lemma stop_rest_ok: "stop_rest rest \<Longrightarrow> ok_rest rest"
  by (auto simp: stop_rest_def ok_rest_def split: list.splits)

lemma string_body_quoted [simp]: "string_body (quoted s) = s"
  by (simp add: string_body_def quoted_def)

lemma parse_path_segs:
  "\<forall>s\<in>set segs. seg_wf s \<Longrightarrow> ok_rest rest \<Longrightarrow>
   parse_path_loop acc (concat (map seg_tokens segs) @ rest) = Inr (Path (acc @ segs), rest)"
proof (induction segs arbitrary: acc)
  case Nil
  then show ?case by (cases rest) (auto simp: ok_rest_def)
next
  case (Cons s segs)
  then show ?case by (cases s) (simp_all add: str_int_no_dot)
qed

lemma str_int_chars: "\<forall>c\<in>set (str_int i). is_digit c \<or> c = CHR ''-''"
  using str_nat_digits by (auto simp: str_int_def)

lemma quoted_neq: "quoted s \<noteq> ''(''"
  by (simp add: quoted_def)

lemma str_int_neq: "str_int i \<noteq> ''(''"
proof
  assume "str_int i = ''(''"
  then have "is_digit (CHR ''('') \<or> CHR ''('' = CHR ''-''" using str_int_chars [of i] by simp
  then show False by (simp add: is_digit_def)
qed

lemma is_ident_neq: "is_ident k \<Longrightarrow> k \<noteq> ''(''"
  by (auto simp: is_ident_def ident_start_def is_alpha_def)

lemma parse_operand_atomic:
  assumes "expr_wf e" and "atomic e" and "ok_rest rest"
  shows "parse_operand (Suc n) (node_tokens e @ rest) = Inr (e, rest)"
proof (cases e)
  case (Literal v)
  with assms quoted_neq str_int_neq show ?thesis
    by (cases v) (auto simp: number_literal_def str_int_no_dot)
next
  case (Path segs)
  with assms obtain k r where segs: "segs = SKey k # r" "is_ident k" "k \<notin> set expr_keywords" "\<forall>s\<in>set r. seg_wf s"
    by (auto split: list.splits seg.splits)
  then have "k \<noteq> ''(''" "k \<notin> {''true'', ''false''}" "k \<noteq> ''null''"
    using is_ident_neq by (auto simp: expr_keywords_def)
  with segs Path assms parse_path_segs [of r rest "[SKey k]"] show ?thesis by simp
qed (use assms in auto)

definition or_starts :: "token list \<Rightarrow> bool" where
  "or_starts ts = (peek_keyword ts \<noteq> Some ''not'')"

lemma operand_no_not: "expr_wf e \<Longrightarrow> peek_keyword (operand_tokens e @ rest) = None"
  by (cases e; cases "(\<lambda>(Literal v) \<Rightarrow> v) e")
     (auto simp: peek_keyword_def expr_keywords_def split: list.splits seg.splits)

lemma ok_rest_op: "op \<in> set comparison_ops \<Longrightarrow> ok_rest ((k, op) # ts)"
  "op \<in> {''and'', ''or'', ''not'', '')''} \<Longrightarrow> ok_rest ((k, op) # ts)"
  by (auto simp: ok_rest_def comparison_ops_def)

lemma parse_comparison_operand:
  assumes "parse_operand n ts = Inr (e, rest)"
    and "case rest of [] \<Rightarrow> True | (k, t) # _ \<Rightarrow> t \<notin> set comparison_ops"
  shows "parse_comparison (Suc n) ts = Inr (e, rest)"
  using assms by (auto split: list.splits)

lemma stop_rest_simps:
  "stop_rest rest \<Longrightarrow> peek_keyword rest = None"
  "stop_rest rest \<Longrightarrow> case rest of [] \<Rightarrow> True | (k, t) # _ \<Rightarrow> t \<notin> set comparison_ops"
  by (auto simp: stop_rest_def peek_keyword_def comparison_ops_def split: list.splits)

text \<open>From an operand up to a whole expression.\<close>

lemma parse_or_comparison:
  assumes "parse_comparison n ts = Inr (e, rest)" and "stop_rest rest" and "peek_keyword ts = None"
  shows "parse_or (Suc (Suc (Suc n))) ts = Inr (e, rest)"
  using assms by (simp add: stop_rest_simps)

lemma parse_operand_paren:
  assumes "\<And>n rest. 5 + 5 * length ts \<le> n \<Longrightarrow> stop_rest rest \<Longrightarrow> parse_or n (ts @ rest) = Inr (e, rest)"
    and "11 + 5 * length ts \<le> n"
  shows "parse_operand n ((TOp, ''('') # ts @ [(TOp, '')'')] @ rest) = Inr (e, rest)"
proof -
  obtain m where n: "n = Suc m" "10 + 5 * length ts \<le> m" using assms(2) by (cases n) auto
  then have "parse_or m (ts @ ((TOp, '')'') # rest)) = Inr (e, (TOp, '')'') # rest)"
    by (intro assms(1)) (auto simp: stop_rest_def)
  with n show ?thesis by (simp add: expect_def)
qed

text \<open>What the round trip of an expression gives: as a whole and as an operand.\<close>

definition parses_back :: "enode \<Rightarrow> bool" where
  "parses_back e =
     ((\<forall>n rest. 5 + 5 * length (node_tokens e) \<le> n \<longrightarrow> stop_rest rest \<longrightarrow>
         parse_or n (node_tokens e @ rest) = Inr (e, rest)) \<and>
      (\<forall>n rest. 1 + 5 * length (operand_tokens e) \<le> n \<longrightarrow> ok_rest rest \<longrightarrow>
         parse_operand n (operand_tokens e @ rest) = Inr (e, rest)))"

lemma parses_back_compound:
  assumes "\<And>n rest. 5 + 5 * length (node_tokens e) \<le> n \<Longrightarrow> stop_rest rest \<Longrightarrow>
      parse_or n (node_tokens e @ rest) = Inr (e, rest)" and "\<not> atomic e"
  shows "parses_back e"
  using assms parse_operand_paren [of "node_tokens e" e] by (auto simp: parses_back_def)

lemma parses_back_operand:
  "parses_back e \<Longrightarrow> 1 + 5 * length (operand_tokens e) \<le> n \<Longrightarrow> ok_rest rest \<Longrightarrow>
   parse_operand n (operand_tokens e @ rest) = Inr (e, rest)"
  unfolding parses_back_def by blast

lemma parses_back_atomic:
  assumes "expr_wf e" and "atomic e"
  shows "parses_back e"
proof -
  have "parse_or n (node_tokens e @ rest) = Inr (e, rest)"
    if "5 + 5 * length (node_tokens e) \<le> n" "stop_rest rest" for n rest
  proof -
    define m where "m = n - 5"
    have n: "n = Suc (Suc (Suc (Suc (Suc m))))" using that(1) by (simp add: m_def)
    have "parse_operand (Suc m) (node_tokens e @ rest) = Inr (e, rest)"
      using assms that stop_rest_ok by (intro parse_operand_atomic) auto
    with that have "parse_comparison (Suc (Suc m)) (node_tokens e @ rest) = Inr (e, rest)"
      by (intro parse_comparison_operand stop_rest_simps)
    with that show ?thesis
      using operand_no_not [OF assms(1), of rest] assms(2) unfolding n
      by (intro parse_or_comparison) auto
  qed
  moreover have "parse_operand n (node_tokens e @ rest) = Inr (e, rest)"
    if "1 + 5 * length (node_tokens e) \<le> n" "ok_rest rest" for n rest
    using that assms parse_operand_atomic [of e rest "n - 1"] by (cases n) auto
  ultimately show ?thesis using assms by (simp add: parses_back_def)
qed

lemma parses_back_Compare:
  assumes "parses_back l" "parses_back r" "expr_wf (Compare op l r)"
  shows "parses_back (Compare op l r)"
proof (rule parses_back_compound)
  fix n rest
  assume n: "5 + 5 * length (node_tokens (Compare op l r)) \<le> n" and rest: "stop_rest rest"
  then obtain m where m: "n = Suc (Suc (Suc (Suc m)))"
    "1 + 5 * length (operand_tokens l) \<le> m" "1 + 5 * length (operand_tokens r) \<le> m"
    by (cases n rule: nat.exhaust; cases "n - 1"; cases "n - 2"; cases "n - 3") auto
  have "parse_operand m (operand_tokens l @ (TOp, op) # operand_tokens r @ rest)
      = Inr (l, (TOp, op) # operand_tokens r @ rest)"
    using assms m by (intro parses_back_operand ok_rest_op) auto
  moreover have "parse_operand m (operand_tokens r @ rest) = Inr (r, rest)"
    using assms m rest by (intro parses_back_operand stop_rest_ok)
  ultimately have "parse_comparison (Suc m) (node_tokens (Compare op l r) @ rest) = Inr (Compare op l r, rest)"
    using assms(3) by simp
  moreover have "peek_keyword (node_tokens (Compare op l r) @ rest) = None"
    using operand_no_not [of l "(TOp, op) # operand_tokens r @ rest"] assms(3) by simp
  ultimately show "parse_or n (node_tokens (Compare op l r) @ rest) = Inr (Compare op l r, rest)"
    using rest unfolding m by (intro parse_or_comparison)
qed simp

lemma parse_not_operand:
  assumes "parse_operand n ts = Inr (e, rest)"
    and "case rest of [] \<Rightarrow> True | (k, t) # _ \<Rightarrow> t \<notin> set comparison_ops" and "peek_keyword ts = None"
  shows "parse_not (Suc (Suc n)) ts = Inr (e, rest)"
  using assms parse_comparison_operand [OF assms(1,2)] by simp

lemma parses_back_BoolOp:
  assumes "parses_back l" "parses_back r" "expr_wf (BoolOp op l r)"
  shows "parses_back (BoolOp op l r)"
proof (rule parses_back_compound)
  fix n rest
  assume n: "5 + 5 * length (node_tokens (BoolOp op l r)) \<le> n" and rest: "stop_rest rest"
  define m where "m = n - 5"
  define ts where "ts = (TIdent, op) # operand_tokens r @ rest"
  from n have m: "n = Suc (Suc (Suc (Suc (Suc m))))" by (simp add: m_def)
  have len: "1 + 5 * length (operand_tokens l) \<le> m" "1 + 5 * length (operand_tokens r) \<le> m"
    using n by (auto simp: m_def)
  have op: "op = ''and'' \<or> op = ''or''" using assms(3) by auto
  then have ts: "ok_rest ts" "case ts of [] \<Rightarrow> True | (k, t) # _ \<Rightarrow> t \<notin> set comparison_ops"
    by (auto simp: ts_def ok_rest_def comparison_ops_def)
  have l: "parse_not (Suc (Suc m')) (operand_tokens l @ ts) = Inr (l, ts)" if "m \<le> m'" for m'
    using assms ts len that
    by (intro parse_not_operand operand_no_not parses_back_operand) auto
  have r: "parse_not (Suc (Suc m')) (operand_tokens r @ rest) = Inr (r, rest)" if "m \<le> m'" for m'
    using assms rest len that
    by (intro parse_not_operand operand_no_not parses_back_operand stop_rest_ok stop_rest_simps) auto
  have keep: "peek_keyword rest = None" using rest by (rule stop_rest_simps)
  from op show "parse_or n (node_tokens (BoolOp op l r) @ rest) = Inr (BoolOp op l r, rest)"
  proof
    assume "op = ''and''"
    then show ?thesis
      using l [of "Suc m"] r [of m] keep unfolding m by (simp add: ts_def peek_keyword_def)
  next
    assume "op = ''or''"
    then show ?thesis
      using l [of "Suc m"] r [of m] keep unfolding m by (simp add: ts_def peek_keyword_def)
  qed
qed simp

lemma parses_back_Not:
  assumes "parses_back e" "expr_wf e"
  shows "parses_back (Not e)"
proof (rule parses_back_compound)
  fix n rest
  assume n: "5 + 5 * length (node_tokens (Not e)) \<le> n" and rest: "stop_rest rest"
  define m where "m = n - 5"
  from n have m: "n = Suc (Suc (Suc (Suc (Suc m))))" by (simp add: m_def)
  have len: "1 + 5 * length (operand_tokens e) \<le> m" using n by (auto simp: m_def)
  have e: "parse_not (Suc (Suc m)) (operand_tokens e @ rest) = Inr (e, rest)"
    using assms rest len
    by (intro parse_not_operand operand_no_not parses_back_operand stop_rest_ok stop_rest_simps)
  show "parse_or n (node_tokens (Not e) @ rest) = Inr (Not e, rest)"
    using e stop_rest_simps(1) [OF rest] unfolding m by (simp add: peek_keyword_def)
qed simp

lemma expr_wf_parses_back: "expr_wf e \<Longrightarrow> parses_back e"
  by (induction e) (auto intro: parses_back_atomic parses_back_Compare parses_back_BoolOp parses_back_Not)

lemma parse_tokens_node_tokens: "expr_wf e \<Longrightarrow> parse_tokens src (node_tokens e) = Inr e"
  using expr_wf_parses_back [of e]
  by (auto simp: parses_back_def parse_tokens_def parse_fuel_def stop_rest_def dest!: spec [of _ "[]"])

subsection \<open>Tokenizing printed text\<close>

definition good_token :: "token \<Rightarrow> bool" where
  "good_token kt = (case kt of
     (TOp, t) \<Rightarrow> t \<in> set op_lexemes
   | (TNumber, t) \<Rightarrow> \<exists>i. t = str_int i
   | (TString, t) \<Rightarrow> \<exists>s. t = quoted s \<and> quotable s
   | (TIdent, t) \<Rightarrow> is_ident t)"

text \<open>A printed token is followed by the end of the text or by a space.\<close>

definition sep_rest :: "string \<Rightarrow> bool" where
  "sep_rest rest = (rest = [] \<or> hd rest = CHR '' '')"

lemmas char_classes = is_space_def is_digit_def is_alpha_def ident_start_def ident_char_def squote_def dquote_def Let_def

lemma sep_rest_takeWhile:
  "sep_rest rest \<Longrightarrow> \<not> p (CHR '' '') \<Longrightarrow> \<forall>c\<in>set t. p c \<Longrightarrow>
   takeWhile p (t @ rest) = t \<and> dropWhile p (t @ rest) = rest"
  by (cases rest) (auto simp: sep_rest_def)

lemma op_lexemes_cases:
  "t \<in> set op_lexemes \<Longrightarrow> t \<in> {''=='', ''!='', ''<='', ''>='', ''<'', ''>'', ''('', '')'', ''['', '']'', ''.''}"
  by (simp add: op_lexemes_def)

lemma lex_op_good:
  assumes "t \<in> set op_lexemes" and "sep_rest rest"
  shows "lex_op (t @ rest) = Some (t, rest)"
proof -
  have "lex_op t = Some (t, [])"
    using op_lexemes_cases [OF assms(1)] unfolding lex_op_def op_lexemes_def
    by (elim insertE emptyE; hypsubst; simp)
  moreover have "lex_op (t @ CHR '' '' # r) = Some (t, CHR '' '' # r)" for r
    using op_lexemes_cases [OF assms(1)] unfolding lex_op_def op_lexemes_def
    by (elim insertE emptyE; hypsubst; simp)
  ultimately show ?thesis using assms(2) by (cases rest) (auto simp: sep_rest_def)
qed

lemma find_op_None: "s = c # r \<Longrightarrow> c \<notin> set ''=!<>()[].'' \<Longrightarrow> lex_op s = None"
  by (auto simp: lex_op_def op_lexemes_def)

lemma match_op:
  assumes "t \<in> set op_lexemes" and "sep_rest rest"
  shows "match_token (t @ rest) = Some (Some TOp, t, rest)"
proof -
  have "takeWhile is_space (t @ rest) = []"
    using assms(1) by (auto simp: op_lexemes_def char_classes)
  with lex_op_good [OF assms] show ?thesis by (simp add: match_token_def)
qed

lemma lex_digits_good:
  assumes "\<forall>c\<in>set ds. is_digit c" and "ds \<noteq> []" and "sep_rest rest"
  shows "lex_digits sg (ds @ rest) = Some (sg @ ds, rest)"
proof -
  have "takeWhile is_digit (ds @ rest) = ds \<and> dropWhile is_digit (ds @ rest) = rest"
    using assms by (intro sep_rest_takeWhile) (auto simp: char_classes)
  with assms show ?thesis by (auto simp: lex_digits_def Let_def sep_rest_def split: list.splits)
qed

lemma digit_props: "is_digit c \<Longrightarrow> \<not> is_space c \<and> c \<notin> set ''=!<>()[].'' \<and> c \<noteq> CHR ''-''"
  by (auto simp: char_classes)

lemma match_number:
  assumes "sep_rest rest"
  shows "match_token (str_int i @ rest) = Some (Some TNumber, str_int i, rest)"
proof (cases "i < 0")
  case True
  have "lex_op (CHR ''-'' # str_nat (nat (- i)) @ rest) = None" by (rule find_op_None [OF refl]) simp
  moreover have "lex_digits ''-'' (str_nat (nat (- i)) @ rest) = Some (''-'' @ str_nat (nat (- i)), rest)"
    using str_nat_digits assms by (intro lex_digits_good) auto
  ultimately show ?thesis using True
    by (simp add: str_int_def match_token_def lex_number_def is_space_def)
next
  case False
  obtain c ds where ds: "str_nat (nat i) = c # ds" by (cases "str_nat (nat i)") auto
  then have c: "is_digit c" using str_nat_digits [of "nat i"] by simp
  have "lex_op (c # ds @ rest) = None" using digit_props [OF c] by (intro find_op_None [OF refl]) simp
  moreover have "lex_digits [] (c # ds @ rest) = Some (c # ds, rest)"
    using str_nat_digits [of "nat i"] assms ds lex_digits_good [of "c # ds" rest "[]"] by simp
  ultimately show ?thesis using False ds digit_props [OF c]
    by (simp add: str_int_def match_token_def lex_number_def)
qed

lemma quote_for_props:
  "quotable s \<Longrightarrow> quote_for s \<notin> set s"
  "quote_for s = squote \<or> quote_for s = dquote"
  by (auto simp: quotable_def quote_for_def)

lemma match_string:
  assumes "quotable s"
  shows "match_token (quoted s @ rest) = Some (Some TString, quoted s, rest)"
proof -
  let ?q = "quote_for s"
  have q: "\<not> is_space ?q" "?q \<notin> set ''=!<>()[].''" "?q \<noteq> CHR ''-''" "\<not> is_digit ?q"
    using quote_for_props(2) [of s] by (auto simp: char_classes)
  have "lex_op (?q # s @ ?q # rest) = None" using q by (intro find_op_None [OF refl]) simp
  moreover have "lex_number (?q # s @ ?q # rest) = None"
    using q by (simp add: lex_number_def lex_digits_def)
  moreover have "takeWhile (\<lambda>c. c \<noteq> ?q) (s @ ?q # rest) = s" "dropWhile (\<lambda>c. c \<noteq> ?q) (s @ ?q # rest) = ?q # rest"
    using quote_for_props(1) [OF assms] by (auto simp: takeWhile_append dropWhile_append)
  then have "lex_string (?q # s @ ?q # rest) = Some (?q # s @ [?q], rest)"
    using quote_for_props(2) [of s] by (auto simp: lex_string_def)
  ultimately show ?thesis using q by (simp add: match_token_def quoted_def)
qed

lemma match_ident:
  assumes "is_ident t" and "sep_rest rest"
  shows "match_token (t @ rest) = Some (Some TIdent, t, rest)"
proof -
  obtain c r where t: "t = c # r" "ident_start c" "\<forall>x\<in>set r. ident_char x"
    using assms(1) by (auto simp: is_ident_def split: list.splits)
  have c: "\<not> is_space c" "c \<notin> set ''=!<>()[].''" "c \<noteq> CHR ''-''" "\<not> is_digit c" "c \<noteq> squote" "c \<noteq> dquote"
    using t(2) by (auto simp: char_classes)
  have "lex_op (c # r @ rest) = None" using c by (intro find_op_None [OF refl]) simp
  moreover have "lex_number (c # r @ rest) = None" using c by (simp add: lex_number_def lex_digits_def)
  moreover have "lex_string (c # r @ rest) = None" using c by (simp add: lex_string_def)
  moreover have "takeWhile ident_char (r @ rest) = r \<and> dropWhile ident_char (r @ rest) = rest"
    using assms(2) t(3) by (intro sep_rest_takeWhile) (auto simp: char_classes)
  then have "lex_ident (c # r @ rest) = Some (c # r, rest)" using t by (simp add: lex_ident_def)
  ultimately show ?thesis using c t by (simp add: match_token_def)
qed

lemma match_token_good:
  assumes "good_token (k, t)" and "sep_rest rest"
  shows "match_token (t @ rest) = Some (Some k, t, rest)"
  using assms by (cases k) (auto simp: good_token_def intro: match_op match_number match_string match_ident)

lemma good_token_first: "good_token (k, t) \<Longrightarrow> \<exists>c r. t = c # r \<and> \<not> is_space c"
proof -
  assume "good_token (k, t)"
  then have m: "match_token t = Some (Some k, t, [])" using match_token_good [of k t "[]"] by (simp add: sep_rest_def)
  show ?thesis
  proof (cases t)
    case Nil
    with match_token_shorter [OF m] show ?thesis by simp
  next
    case (Cons c r)
    with m show ?thesis by (auto simp: match_token_def split: if_splits)
  qed
qed

lemma tokenize_text:
  "\<forall>kt\<in>set toks. good_token kt \<Longrightarrow> tokenize src (intercalate '' '' (map snd toks)) = Inr toks"
proof (induction toks)
  case (Cons kt toks)
  note IH = Cons.IH and prems = Cons.prems
  obtain k t where kt: "kt = (k, t)" by fastforce
  have "good_token (k, t)" using prems kt by simp
  then obtain c r where t: "t = c # r" "\<not> is_space c" using good_token_first by blast
  show ?case
  proof (cases toks)
    case Nil
    have "match_token (t @ []) = Some (Some k, t, [])"
      using Cons.prems kt by (intro match_token_good) (auto simp: sep_rest_def)
    with Nil kt t show ?thesis by simp
  next
    case (Cons kt' toks')
    let ?rest = "intercalate '' '' (map snd toks)"
    obtain k' t' where kt': "kt' = (k', t')" by fastforce
    have "good_token (k', t')" using prems Cons kt' by simp
    then obtain c' r' where t': "t' = c' # r'" "\<not> is_space c'" using good_token_first by blast
    obtain r2 where head: "?rest = c' # r2" using Cons kt' t' by (cases toks') auto
    have 1: "match_token (t @ '' '' @ ?rest) = Some (Some k, t, '' '' @ ?rest)"
      using prems kt by (intro match_token_good) (auto simp: sep_rest_def)
    have 2: "match_token (CHR '' '' # ?rest) = Some (None, '' '', ?rest)"
      unfolding head using t'(2) by (simp add: match_token_def is_space_def [of "CHR '' ''"])
    have "intercalate '' '' (map snd (kt # toks)) = t @ '' '' @ ?rest"
      using Cons kt by simp
    moreover have "tokenize src (t @ '' '' @ ?rest) = bind_r (tokenize src (CHR '' '' # ?rest)) (\<lambda>ts. Inr ((k, t) # ts))"
      using 1 t(1) by simp
    moreover have "tokenize src (CHR '' '' # ?rest) = tokenize src ?rest"
      using 2 by simp
    ultimately show ?thesis using IH prems kt by simp
  qed
qed simp

lemma good_token_seg: "seg_wf s \<Longrightarrow> kt \<in> set (seg_tokens s) \<Longrightarrow> good_token kt"
  by (cases s) (auto simp: good_token_def op_lexemes_def split: if_splits)

lemma good_token_literal: "literal_wf v \<Longrightarrow> good_token (literal_token v)"
  by (cases v) (auto simp: good_token_def is_ident_def char_classes)

lemma good_token_op: "op \<in> set comparison_ops \<Longrightarrow> good_token (TOp, op)"
  "good_token (TOp, ''('')" "good_token (TOp, '')'')"
  "op \<in> {''and'', ''or'', ''not''} \<Longrightarrow> good_token (TIdent, op)"
  by (auto simp: good_token_def comparison_ops_def op_lexemes_def is_ident_def char_classes)

lemma good_tokens: "expr_wf e \<Longrightarrow> kt \<in> set (node_tokens e) \<Longrightarrow> good_token kt"
proof (induction e)
  case (Path segs)
  then obtain k r where "segs = SKey k # r" "is_ident k" "\<forall>s\<in>set r. seg_wf s"
    by (auto split: list.splits seg.splits)
  with Path show ?case by (auto simp: good_token_seg good_token_def [of "(TIdent, k)"])
qed (auto simp: good_token_literal good_token_op split: if_splits)

lemma node_tokens_not_Nil: "expr_wf e \<Longrightarrow> node_tokens e \<noteq> []"
  by (cases e) (auto split: list.splits seg.splits)

lemma intercalate_last:
  "ss \<noteq> [] \<Longrightarrow> last ss \<noteq> [] \<Longrightarrow> intercalate sep ss \<noteq> [] \<and> last (intercalate sep ss) = last (last ss)"
  by (induction sep ss rule: intercalate.induct) auto

lemma strip_id: "s \<noteq> [] \<Longrightarrow> \<not> is_space (hd s) \<Longrightarrow> \<not> is_space (last s) \<Longrightarrow> strip s = s"
proof -
  assume a: "s \<noteq> []" "\<not> is_space (hd s)" "\<not> is_space (last s)"
  then have "dropWhile is_space s = s" by (cases s) auto
  moreover have "dropWhile is_space (rev s) = rev s" using a by (cases "rev s") (auto simp: last_conv_nth hd_rev [symmetric])
  ultimately show "strip s = s" by (simp add: strip_def)
qed

lemma ident_char_no_space: "ident_char c \<Longrightarrow> \<not> is_space c" "ident_start c \<Longrightarrow> \<not> is_space c"
  by (auto simp: char_classes)

lemma good_token_last: "good_token (k, t) \<Longrightarrow> \<not> is_space (last t)"
proof (cases k)
  case TOp
  assume "good_token (k, t)"
  with TOp have "t \<in> {''=='', ''!='', ''<='', ''>='', ''<'', ''>'', ''('', '')'', ''['', '']'', ''.''}"
    by (intro op_lexemes_cases) (simp add: good_token_def)
  then show ?thesis by (elim insertE emptyE; hypsubst; simp add: is_space_def)
next
  case TNumber
  assume "good_token (k, t)"
  with TNumber obtain i where t: "t = str_int i" by (auto simp: good_token_def)
  have "str_int i \<noteq> []" by (simp add: str_int_def)
  then have "is_digit (last t) \<or> last t = CHR ''-''" using str_int_chars [of i] t by simp
  then show ?thesis using digit_props by (auto simp: is_space_def)
next
  case TString
  assume "good_token (k, t)"
  with TString obtain s where "t = quoted s" by (auto simp: good_token_def)
  then show ?thesis using quote_for_props(2) [of s] by (auto simp: quoted_def char_classes)
next
  case TIdent
  assume "good_token (k, t)"
  with TIdent obtain c r where "t = c # r" "ident_start c" "\<forall>x\<in>set r. ident_char x"
    by (auto simp: good_token_def is_ident_def split: list.splits)
  then show ?thesis using ident_char_no_space by auto
qed

lemma strip_print:
  assumes "expr_wf e"
  shows "strip (print_expression e) = print_expression e \<and> print_expression e \<noteq> []"
proof -
  let ?ts = "node_tokens e"
  have ne: "?ts \<noteq> []" using assms by (rule node_tokens_not_Nil)
  obtain k t r where ts: "?ts = (k, t) # r" using ne by (cases ?ts) auto
  have g: "good_token (k, t)" using good_tokens [OF assms] ts by simp
  obtain c t' where t: "t = c # t'" "\<not> is_space c" using good_token_first [OF g] by blast
  have hd: "hd (print_expression e) = c" using ts t by (cases r) (auto simp: print_expression_def)
  obtain k2 t2 where l: "last ?ts = (k2, t2)" by fastforce
  then have g2: "good_token (k2, t2)" using good_tokens [OF assms] ne last_in_set by fastforce
  have "t2 \<noteq> []" using good_token_first [OF g2] by blast
  then have "print_expression e \<noteq> [] \<and> last (print_expression e) = last t2"
    using intercalate_last [of "map snd ?ts" "'' ''"] ne l by (simp add: print_expression_def last_map)
  with hd t good_token_last [OF g2] show ?thesis by (auto intro: strip_id)
qed

text \<open>
  C29. Compiling the printed form of an expression gives the expression back: the lexer and the
  recursive-descent parser invert the printer on every well-formed expression tree.
\<close>

theorem compile_print_expression:
  assumes "expr_wf e"
  shows "compile_expression (print_expression e) = Inr e"
proof -
  have "tokenize (print_expression e) (print_expression e) = Inr (node_tokens e)"
    unfolding print_expression_def using good_tokens [OF assms] by (intro tokenize_text) auto
  with assms strip_print [OF assms] parse_tokens_node_tokens show ?thesis
    by (simp add: compile_expression_def Let_def)
qed

theorem compile_print_expression_witness:
  "compile_expression (print_expression (BoolOp ''and'' (Not (Path [SKey ''flow'', SKey ''ok'']))
     (Compare ''<='' (Path [SKey ''nodes'', SKey ''a'', SIdx (- 1)]) (Literal (PInt 3))))) =
   Inr (BoolOp ''and'' (Not (Path [SKey ''flow'', SKey ''ok'']))
     (Compare ''<='' (Path [SKey ''nodes'', SKey ''a'', SIdx (- 1)]) (Literal (PInt 3))))"
  by (rule compile_print_expression) code_simp

end
