(* ===== verification/Flow_Triggers.thy ===== *)
theory Flow_Triggers
  imports Flow_Manifest Flow_Checkpoint
begin

text \<open>
  Triggers (\<^verbatim>\<open>backend/flows/triggers.py\<close>): the authorization of a trigger against the flow's
  declaration and cron schedules. The specification of a cron field is the set of values its parts
  denote.
\<close>

subsection \<open>Normalization\<close>

datatype trigger_error =
    TriggerNotDeclared string string
  | EventNameRequired
  | NotSubscribed string string
  | CronFieldCount string
  | InvalidCronStep string
  | InvalidCronRange string
  | InvalidCronField string

record normalized_trigger =
  norm_type :: string
  norm_source :: "string option"
  norm_payload :: pydict

definition trigger_document :: "normalized_trigger \<Rightarrow> pydict" where
  "trigger_document t =
     [(KStr ''type'', PStr (norm_type t))] @
     (case norm_source t of None \<Rightarrow> [] | Some s \<Rightarrow> [(KStr ''source'', PStr s)]) @
     (if norm_payload t = [] then [] else [(KStr ''payload'', PDict (norm_payload t))])"

definition normalize_trigger :: "flow_manifest \<Rightarrow> string \<Rightarrow> string option \<Rightarrow> pydict option \<Rightarrow>
    (trigger_error, normalized_trigger) result" where
  "normalize_trigger m ty event payload =
     (let body = (case payload of None \<Rightarrow> [] | Some d \<Rightarrow> d);
          declared = filter (\<lambda>t. trigger_type t = ty) (triggers m)
      in if ty = ''api'' then Inr \<lparr>norm_type = ''api'', norm_source = None, norm_payload = body\<rparr>
         else case declared of
           [] \<Rightarrow> Inl (TriggerNotDeclared (flow_id m) ty)
         | first # _ \<Rightarrow>
             if ty = ''event'' then
               (case event of
                  None \<Rightarrow> Inl EventNameRequired
                | Some e \<Rightarrow>
                    if \<forall>t\<in>set declared. trigger_on t \<noteq> Some e then Inl (NotSubscribed (flow_id m) e)
                    else Inr \<lparr>norm_type = ''event'', norm_source = Some e, norm_payload = body\<rparr>)
             else if ty = ''cron'' then
               Inr \<lparr>norm_type = ''cron'', norm_source = trigger_schedule first, norm_payload = body\<rparr>
             else Inr \<lparr>norm_type = ty, norm_source = None, norm_payload = body\<rparr>)"

subsection \<open>Cron schedules\<close>

text \<open>The components of a timestamp; the weekday counts from Monday.\<close>

record moment =
  at_minute :: int
  at_hour :: int
  at_day :: int
  at_month :: int
  at_weekday :: int

definition isdigit :: "string \<Rightarrow> bool" where
  "isdigit s \<longleftrightarrow> s \<noteq> [] \<and> list_all is_digit s"

definition int_of_text :: "string \<Rightarrow> int" where
  "int_of_text s = int (nat_of_digits s)"

definition cron_step :: "string \<Rightarrow> string \<Rightarrow> (trigger_error, int) result" where
  "cron_step part step_text =
     (if step_text = [] then Inr 1
      else if \<not> isdigit step_text \<or> int_of_text step_text < 1 then Inl (InvalidCronStep part)
      else Inr (int_of_text step_text))"

definition cron_bounds :: "string \<Rightarrow> string \<Rightarrow> int \<Rightarrow> int \<Rightarrow> (trigger_error, int \<times> int) result" where
  "cron_bounds part expression low high =
     (if expression = ''*'' then Inr (low, high)
      else if CHR ''-'' \<in> set expression then
        (case partition_at (CHR ''-'') expression of (start_text, end_text) \<Rightarrow>
           if \<not> isdigit start_text \<or> \<not> isdigit end_text then Inl (InvalidCronRange part)
           else Inr (int_of_text start_text, int_of_text end_text))
      else if isdigit expression then Inr (int_of_text expression, int_of_text expression)
      else Inl (InvalidCronField part))"

text \<open>One part of a field, as its bounds and step; a start of 7 in the weekday field is Sunday.\<close>

definition cron_part :: "string \<Rightarrow> int \<Rightarrow> int \<Rightarrow> (trigger_error, int \<times> int \<times> int) result" where
  "cron_part part low high =
     (case partition_at (CHR ''/'') part of (expression, step_text) \<Rightarrow>
        bind_r (cron_step part step_text) (\<lambda>step.
        bind_r (cron_bounds part expression low high) (\<lambda>(a, b).
        Inr (if a = 7 \<and> high = 6 then (0, 0, step) else (a, b, step)))))"

fun parts_match :: "string list \<Rightarrow> int \<Rightarrow> int \<Rightarrow> int \<Rightarrow> (trigger_error, bool) result" where
  "parts_match [] v low high = Inr False"
| "parts_match (part # parts) v low high =
     bind_r (cron_part part low high) (\<lambda>(a, b, step).
       if a \<le> v \<and> v \<le> b \<and> (v - a) mod step = 0 then Inr True else parts_match parts v low high)"

definition field_matches :: "string \<Rightarrow> int \<Rightarrow> int \<Rightarrow> int \<Rightarrow> (trigger_error, bool) result" where
  "field_matches t v low high = parts_match (split_on (CHR '','') t) v low high"

fun fields_match :: "(string \<times> int \<times> int \<times> int) list \<Rightarrow> (trigger_error, bool) result" where
  "fields_match [] = Inr True"
| "fields_match ((t, v, low, high) # fs) =
     bind_r (field_matches t v low high) (\<lambda>b. if \<not> b then Inr False else fields_match fs)"

definition moment_values :: "moment \<Rightarrow> (int \<times> int \<times> int) list" where
  "moment_values c =
     [(at_minute c, 0, 59), (at_hour c, 0, 23), (at_day c, 1, 31), (at_month c, 1, 12),
      ((at_weekday c + 1) mod 7, 0, 6)]"

definition cron_matches :: "string \<Rightarrow> moment \<Rightarrow> (trigger_error, bool) result" where
  "cron_matches schedule c =
     (let fields = words_of schedule in
      if length fields \<noteq> 5 then Inl (CronFieldCount schedule)
      else fields_match (zip fields (moment_values c)))"

fun due_of :: "flow_manifest \<Rightarrow> flow_trigger list \<Rightarrow> moment \<Rightarrow> (trigger_error, (flow_manifest \<times> string) list) result" where
  "due_of m [] c = Inr []"
| "due_of m (t # ts) c =
     (case trigger_schedule t of
        Some s \<Rightarrow>
          if trigger_type t = ''cron'' \<and> s \<noteq> [] then
            bind_r (cron_matches s c) (\<lambda>b. bind_r (due_of m ts c) (\<lambda>rest. Inr (if b then (m, s) # rest else rest)))
          else due_of m ts c
      | None \<Rightarrow> due_of m ts c)"

fun due_cron_triggers :: "flow_manifest list \<Rightarrow> moment \<Rightarrow> (trigger_error, (flow_manifest \<times> string) list) result" where
  "due_cron_triggers [] c = Inr []"
| "due_cron_triggers (m # ms) c =
     bind_r (due_of m (triggers m) c) (\<lambda>d. bind_r (due_cron_triggers ms c) (\<lambda>rest. Inr (d @ rest)))"

subsection \<open>What a field denotes\<close>

definition part_values :: "string \<Rightarrow> int \<Rightarrow> int \<Rightarrow> int set" where
  "part_values part low high =
     (case cron_part part low high of Inl _ \<Rightarrow> {} | Inr (a, b, step) \<Rightarrow> {v. a \<le> v \<and> v \<le> b \<and> step dvd v - a})"

definition field_values :: "string \<Rightarrow> int \<Rightarrow> int \<Rightarrow> int set" where
  "field_values t low high = (\<Union>part\<in>set (split_on (CHR '','') t). part_values part low high)"

definition field_ok :: "string \<Rightarrow> int \<Rightarrow> int \<Rightarrow> bool" where
  "field_ok t low high \<longleftrightarrow> (\<forall>part\<in>set (split_on (CHR '','') t). case cron_part part low high of Inl _ \<Rightarrow> False | Inr _ \<Rightarrow> True)"

definition cron_ok :: "string \<Rightarrow> bool" where
  "cron_ok s \<longleftrightarrow> length (words_of s) = 5 \<and>
     (\<forall>(t, low, high)\<in>set (zip (words_of s) [(0, 59), (0, 23), (1, 31), (1, 12), (0, 6)]). field_ok t low high)"

lemma cron_part_step: "cron_part part low high = Inr (a, b, step) \<Longrightarrow> 1 \<le> step"
  by (auto simp: cron_part_def cron_step_def bind_r_eq_Inr split: prod.splits if_splits)

lemma parts_match_sound:
  "\<forall>part\<in>set parts. case cron_part part low high of Inl _ \<Rightarrow> False | Inr _ \<Rightarrow> True \<Longrightarrow>
   parts_match parts v low high = Inr (v \<in> (\<Union>part\<in>set parts. part_values part low high))"
proof (induction parts)
  case (Cons part parts)
  then obtain a b step where p: "cron_part part low high = Inr (a, b, step)" by (auto split: sum.splits)
  then have "v \<in> part_values part low high \<longleftrightarrow> a \<le> v \<and> v \<le> b \<and> (v - a) mod step = 0"
    by (auto simp: part_values_def mod_eq_0_iff_dvd)
  with Cons p show ?case by auto
qed simp

lemma field_matches_sound: "field_ok t low high \<Longrightarrow> field_matches t v low high = Inr (v \<in> field_values t low high)"
  by (simp add: field_matches_def field_ok_def field_values_def parts_match_sound)

lemma cron_okE:
  assumes "cron_ok s"
  obtains mi h d mo wd where "words_of s = [mi, h, d, mo, wd]" "field_ok mi 0 59" "field_ok h 0 23" "field_ok d 1 31"
    "field_ok mo 1 12" "field_ok wd 0 6"
proof -
  from assms obtain mi h d mo wd where w: "words_of s = [mi, h, d, mo, wd]"
    by (auto simp: cron_ok_def length_Suc_conv numeral_eq_Suc)
  with assms show ?thesis by (intro that [OF w]) (simp_all add: cron_ok_def)
qed

lemma cron_matches_sound:
  assumes "words_of s = [mi, h, d, mo, wd]" "field_ok mi 0 59" "field_ok h 0 23" "field_ok d 1 31"
    "field_ok mo 1 12" "field_ok wd 0 6"
  shows "cron_matches s c = Inr (at_minute c \<in> field_values mi 0 59 \<and> at_hour c \<in> field_values h 0 23 \<and>
    at_day c \<in> field_values d 1 31 \<and> at_month c \<in> field_values mo 1 12 \<and> (at_weekday c + 1) mod 7 \<in> field_values wd 0 6)"
  using assms by (auto simp: cron_matches_def moment_values_def field_matches_sound)

definition due_now :: "moment \<Rightarrow> flow_trigger \<Rightarrow> bool" where
  "due_now c t \<longleftrightarrow> trigger_type t = ''cron'' \<and>
     (case trigger_schedule t of None \<Rightarrow> False | Some s \<Rightarrow> s \<noteq> [] \<and> cron_matches s c = Inr True)"

lemma due_of_sound:
  assumes "\<forall>t\<in>set ts. \<forall>s. trigger_type t = ''cron'' \<and> trigger_schedule t = Some s \<and> s \<noteq> [] \<longrightarrow> cron_ok s"
  shows "due_of m ts c = Inr (map (\<lambda>t. (m, the (trigger_schedule t))) (filter (due_now c) ts))"
  using assms
proof (induction ts)
  case (Cons t ts)
  have ok: "\<exists>b. cron_matches s c = Inr b" if "cron_ok s" for s
    by (rule cron_okE [OF that]) (auto dest: cron_matches_sound)
  have IH: "due_of m ts c = Inr (map (\<lambda>t. (m, the (trigger_schedule t))) (filter (due_now c) ts))"
    using Cons by simp
  show ?case
  proof (cases "\<exists>s. trigger_type t = ''cron'' \<and> trigger_schedule t = Some s \<and> s \<noteq> []")
    case True
    then obtain s where s: "trigger_type t = ''cron''" "trigger_schedule t = Some s" "s \<noteq> []" by blast
    with Cons.prems ok obtain b where "cron_matches s c = Inr b" by fastforce
    moreover from this have "due_now c t \<longleftrightarrow> b" using s by (simp add: due_now_def)
    ultimately show ?thesis using s IH by simp
  next
    case False
    then have "\<not> due_now c t" by (auto simp: due_now_def split: option.splits)
    with False show ?thesis using IH by (auto split: option.splits)
  qed
qed simp

subsection \<open>Properties\<close>

text \<open>
  C33. Triggers fail closed: a trigger is accepted exactly when it is a direct start, or the flow
  declares a trigger of its type and, for an event, one with the event's name.
\<close>

theorem normalize_trigger_authorizes:
  "(\<exists>t. normalize_trigger m ty event payload = Inr t) \<longleftrightarrow>
     ty = ''api'' \<or>
     (\<exists>d\<in>set (triggers m). trigger_type d = ty \<and> (if ty = ''event'' then event \<noteq> None \<and> trigger_on d = event else True))"
proof (cases "ty = ''api''")
  case False
  let ?declared = "filter (\<lambda>t. trigger_type t = ty) (triggers m)"
  show ?thesis
  proof (cases ?declared)
    case Nil
    then have "\<forall>d\<in>set (triggers m). trigger_type d \<noteq> ty" by (simp add: filter_empty_conv)
    then show ?thesis using False Nil by (auto simp: normalize_trigger_def)
  next
    case (Cons first rest)
    then have f: "first \<in> set (triggers m)" "trigger_type first = ty" by (auto simp: filter_eq_Cons_iff)
    have on: "(\<forall>t\<in>set ?declared. trigger_on t \<noteq> Some e) \<longleftrightarrow>
        \<not> (\<exists>d\<in>set (triggers m). trigger_type d = ty \<and> trigger_on d = Some e)" for e by auto
    show ?thesis
    proof (cases "ty = ''event''")
      case True
      show ?thesis
      proof (cases event)
        case None
        then show ?thesis using True Cons by (simp add: normalize_trigger_def)
      next
        case (Some e)
        have "(\<exists>t. normalize_trigger m ty event payload = Inr t) \<longleftrightarrow> \<not> (\<forall>t\<in>set ?declared. trigger_on t \<noteq> Some e)"
          unfolding normalize_trigger_def Let_def Cons using True Some by simp
        then show ?thesis using True Some on [of e] by auto
      qed
    qed (use f False in \<open>auto simp: normalize_trigger_def Let_def Cons\<close>)
  qed
qed (simp add: normalize_trigger_def)

text \<open>
  A well-formed schedule matches a moment exactly when every component is in the set its field
  denotes, and a tick over flows with well-formed schedules returns exactly the due triggers, in the
  order of the flows and of their declarations.
\<close>

theorem due_cron_triggers_exact:
  assumes "\<forall>m\<in>set ms. \<forall>t\<in>set (triggers m). \<forall>s. trigger_type t = ''cron'' \<and> trigger_schedule t = Some s \<and> s \<noteq> [] \<longrightarrow> cron_ok s"
  shows "due_cron_triggers ms c =
      Inr (concat (map (\<lambda>m. map (\<lambda>t. (m, the (trigger_schedule t))) (filter (due_now c) (triggers m))) ms)) \<and>
    (\<forall>m\<in>set ms. \<forall>t\<in>set (triggers m). \<forall>s mi h d mo wd. trigger_type t = ''cron'' \<and> trigger_schedule t = Some s \<and>
       words_of s = [mi, h, d, mo, wd] \<longrightarrow>
       (due_now c t \<longleftrightarrow> at_minute c \<in> field_values mi 0 59 \<and> at_hour c \<in> field_values h 0 23 \<and> at_day c \<in> field_values d 1 31 \<and>
          at_month c \<in> field_values mo 1 12 \<and> (at_weekday c + 1) mod 7 \<in> field_values wd 0 6))"
proof
  show "due_cron_triggers ms c =
      Inr (concat (map (\<lambda>m. map (\<lambda>t. (m, the (trigger_schedule t))) (filter (due_now c) (triggers m))) ms))"
    using assms by (induction ms) (simp_all add: due_of_sound)
  have "due_now c t \<longleftrightarrow> at_minute c \<in> field_values mi 0 59 \<and> at_hour c \<in> field_values h 0 23 \<and> at_day c \<in> field_values d 1 31 \<and>
          at_month c \<in> field_values mo 1 12 \<and> (at_weekday c + 1) mod 7 \<in> field_values wd 0 6"
    if t: "m \<in> set ms" "t \<in> set (triggers m)" "trigger_type t = ''cron''" "trigger_schedule t = Some s"
      and w: "words_of s = [mi, h, d, mo, wd]" for m t s mi h d mo wd
  proof -
    have "s \<noteq> []" using w by (auto simp: words_of.simps [of "[]"])
    then have ok: "cron_ok s" using assms t by blast
    have "cron_matches s c = Inr (at_minute c \<in> field_values mi 0 59 \<and> at_hour c \<in> field_values h 0 23 \<and>
      at_day c \<in> field_values d 1 31 \<and> at_month c \<in> field_values mo 1 12 \<and> (at_weekday c + 1) mod 7 \<in> field_values wd 0 6)"
      by (rule cron_okE [OF ok]) (use w in \<open>simp add: cron_matches_sound\<close>)
    then show ?thesis using t(3,4) \<open>s \<noteq> []\<close> by (simp add: due_now_def)
  qed
  then show "\<forall>m\<in>set ms. \<forall>t\<in>set (triggers m). \<forall>s mi h d mo wd. trigger_type t = ''cron'' \<and> trigger_schedule t = Some s \<and>
       words_of s = [mi, h, d, mo, wd] \<longrightarrow>
       (due_now c t \<longleftrightarrow> at_minute c \<in> field_values mi 0 59 \<and> at_hour c \<in> field_values h 0 23 \<and> at_day c \<in> field_values d 1 31 \<and>
          at_month c \<in> field_values mo 1 12 \<and> (at_weekday c + 1) mod 7 \<in> field_values wd 0 6)"
    by blast
qed

definition office_hours :: flow_manifest where
  "office_hours = (plain_manifest [] [])\<lparr>triggers := [\<lparr>trigger_type = ''cron'', trigger_on = None,
     trigger_schedule = Some ''*/15 9-17 * * 1-5'', trigger_metadata = []\<rparr>]\<rparr>"

theorem due_cron_triggers_exact_witness:
  "due_cron_triggers [office_hours] \<lparr>at_minute = 30, at_hour = 9, at_day = 4, at_month = 3, at_weekday = 2\<rparr> =
     Inr [(office_hours, ''*/15 9-17 * * 1-5'')]"
proof -
  have "cron_ok ''*/15 9-17 * * 1-5''" by code_simp
  moreover have "filter (due_now \<lparr>at_minute = 30, at_hour = 9, at_day = 4, at_month = 3, at_weekday = 2\<rparr>) (triggers office_hours) =
      triggers office_hours" by code_simp
  ultimately show ?thesis
    using due_cron_triggers_exact [of "[office_hours]" "\<lparr>at_minute = 30, at_hour = 9, at_day = 4, at_month = 3, at_weekday = 2\<rparr>"]
    by (simp add: office_hours_def)
qed

text \<open>A weekday range that ends in Sunday written as 7 does not match Sunday.\<close>

lemma range_to_sunday: "field_matches ''5-7'' 0 0 6 = Inr False"
  by code_simp

end
