(* ===== verification/Flow_Composite.thy ===== *)
theory Flow_Composite
  imports Flow_Engine
begin

text \<open>
  Composite nodes (\<^verbatim>\<open>backend/flows/composite.py\<close>): sub-flows and maps run other flows as child runs
  under the parent's remaining budget. The engine that runs the children is an argument; the engines
  nest, and \<open>composite_engine\<close> ties the knot up to a given number of levels.

  The branches of a map run on a thread pool. A branch is one action on the world here, and a schedule
  decides in every round which of the pending branches are done and in which order they are seen; the
  ledger of the map is independent of how the branches interleave.
\<close>

definition MAX_COMPOSITE_DEPTH :: nat where
  "MAX_COMPOSITE_DEPTH = 16"

definition DEFAULT_MAP_PARALLELISM :: int where
  "DEFAULT_MAP_PARALLELISM = 4"

text \<open>\<open>str(exc)\<close> of the exceptions of the engine and of expressions, which only reach messages.\<close>

record exc_texts =
  flow_exc_text :: "flow_exc \<Rightarrow> string"
  expr_exc_text :: "expr_error \<Rightarrow> string"

definition node_label :: "flow_node \<Rightarrow> string" where
  "node_label n = ''node '' @ repr_str (node_id n)"

subsection \<open>Shared steps\<close>

definition composite_service :: "flow_engine option \<Rightarrow> node_context \<Rightarrow> flow_engine node_action" where
  "composite_service service ctx =
     (case service of
        None \<Rightarrow> raise_a (FlowNodeError (node_label (ctx_node ctx) @ '': engine service unavailable for composite execution''))
      | Some eng \<Rightarrow> return_a eng)"

text \<open>The number of ancestors of a run, counted up to \<open>k\<close>.\<close>

primrec parent_depth :: "nat \<Rightarrow> world \<Rightarrow> string \<Rightarrow> nat" where
  "parent_depth 0 w rid = 0"
| "parent_depth (Suc k) w rid =
     (case get_run rid None w of
        None \<Rightarrow> 0
      | Some r \<Rightarrow> (case parent_run_id r of None \<Rightarrow> 0 | Some p \<Rightarrow> Suc (parent_depth k w p)))"

definition ensure_depth :: "node_context \<Rightarrow> unit node_action" where
  "ensure_depth ctx =
     bind_a (gets_a (\<lambda>w. parent_depth (MAX_COMPOSITE_DEPTH + 1) w (ctx_run_id ctx))) (\<lambda>depth.
     if depth + 1 > MAX_COMPOSITE_DEPTH
     then raise_a (FlowNodeError (node_label (ctx_node ctx) @ '': max composite depth '' @ str_nat MAX_COMPOSITE_DEPTH @
            '' exceeded; refusing to start another child flow (possible recursive sub-flow)''))
     else return_a ())"

definition resolve_child_flow :: "exc_texts \<Rightarrow> flow_engine \<Rightarrow> node_context \<Rightarrow> (flow_manifest \<times> flow_node_ref) node_action" where
  "resolve_child_flow tx eng ctx =
     (case node_ref (ctx_node ctx) of
        None \<Rightarrow> raise_a (no_ref_error (ctx_node ctx))
      | Some ref \<Rightarrow>
          bind_a (gets_a (resolve (eng_lib eng) (ref_id ref) (version_range ref))) (\<lambda>found.
          case found of
            Inr m \<Rightarrow> return_a (m, ref)
          | Inl (KeyError f r) \<Rightarrow> raise_a (FlowNodeError (node_label (ctx_node ctx) @ '': ref '' @ repr_str (ref_raw ref) @
              '' does not match a registered flow''))
          | Inl e \<Rightarrow> raise_a (OtherException (flow_exc_text tx e))))"

definition parent_budgets :: "node_context \<Rightarrow> flow_budgets" where
  "parent_budgets ctx = ctx_budgets ctx"

definition clock_now :: "rat node_action" where
  "clock_now = bind_a (gets_a (\<lambda>w. clock_src w (clock_reads w))) (\<lambda>t.
     then_a (modify_a (\<lambda>w. w\<lparr>clock_reads := Suc (clock_reads w)\<rparr>)) (return_a t))"

definition wall_clock_remaining :: "node_context \<Rightarrow> int node_action" where
  "wall_clock_remaining ctx = bind_a clock_now (\<lambda>t. return_a (max 0 (py_int (ctx_deadline ctx - t))))"

definition child_cap :: "node_context \<Rightarrow> flow_budgets \<Rightarrow> rat \<Rightarrow> rat \<Rightarrow> flow_budgets node_action" where
  "child_cap ctx b consumed_tokens consumed_cost =
     bind_a (wall_clock_remaining ctx) (\<lambda>secs.
     return_a (FlowBudgets (max 0 (max_cost_usd b - consumed_cost)) secs (max 0 (py_int (of_int (max_tokens b) - consumed_tokens)))))"

definition child_metrics :: "flow_run_record \<Rightarrow> run_metrics" where
  "child_metrics r = metrics_of (run_state r)"

definition base_eval_state :: "node_context \<Rightarrow> pydict node_action" where
  "base_eval_state ctx =
     bind_a (gets_a (get_run (ctx_run_id ctx) None)) (\<lambda>rec.
     return_a [(KStr ''flow'', PDict [(KStr ''input'', PDict (case rec of Some r \<Rightarrow> run_input r | None \<Rightarrow> []))]),
               (KStr ''nodes'', PDict (nodes_of (ctx_state ctx)))])"

definition is_run_error :: "flow_exc \<Rightarrow> bool" where
  "is_run_error e =
     (case e of UnknownFlow _ _ \<Rightarrow> True | InvalidRunInput _ _ \<Rightarrow> True | NoAttempt _ \<Rightarrow> True | RunVanished _ \<Rightarrow> True
      | UnknownRun _ \<Rightarrow> True | TerminalRun _ _ \<Rightarrow> True | NotTerminalRun _ _ \<Rightarrow> True | _ \<Rightarrow> False)"

definition start_child :: "exc_texts \<Rightarrow> flow_engine \<Rightarrow> node_context \<Rightarrow> string \<Rightarrow> string \<Rightarrow> pydict \<Rightarrow> pydict \<Rightarrow> flow_budgets \<Rightarrow>
    flow_run_record node_action" where
  "start_child tx eng ctx fid rng inp trig cap =
     try_a (start_run eng fid rng inp (Some trig) (ctx_tenant_id ctx) (Some (ctx_run_id ctx)) True (Some cap))
       return_a
       (\<lambda>e. raise_a (if is_run_error e
              then FlowNodeError (node_label (ctx_node ctx) @ '': failed to start child flow '' @ repr_str fid @ '': '' @ flow_exc_text tx e)
              else OtherException (flow_exc_text tx e)))"

definition child_failure :: "node_context \<Rightarrow> flow_run_record \<Rightarrow> nat option \<Rightarrow> node_exc" where
  "child_failure ctx child branch =
     (let place = (case branch of None \<Rightarrow> [] | Some i \<Rightarrow> ''branch '' @ str_nat i @ '' '');
          message = node_label (ctx_node ctx) @ '': '' @ place @ ''child run '' @ run_id child @ '' of flow '' @
            repr_str (run_flow_id child) @ '' failed ('' @ (if stop_reason child = [] then run_status child else stop_reason child) @ '')''
      in if stop_reason child = ''budget_exhausted'' then FlowBudgetExceededError message else FlowNodeError message)"

definition child_output :: "flow_run_record \<Rightarrow> pydict" where
  "child_output r = (case run_output r of None \<Rightarrow> [] | Some d \<Rightarrow> d)"

subsection \<open>Sub-flows\<close>

definition subflow_trigger :: "node_context \<Rightarrow> pydict" where
  "subflow_trigger ctx = [(KStr ''type'', PStr ''subflow''), (KStr ''parentRunId'', PStr (ctx_run_id ctx)),
     (KStr ''nodeId'', PStr (node_id (ctx_node ctx)))]"

definition subflow_handler :: "exc_texts \<Rightarrow> flow_engine option \<Rightarrow> node_handler" where
  "subflow_handler tx service ctx =
     bind_a (composite_service service ctx) (\<lambda>eng.
     then_a (ensure_depth ctx)
     (bind_a (resolve_child_flow tx eng ctx) (\<lambda>(m, ref).
      bind_a (child_cap ctx (parent_budgets ctx) (tokens (metrics_of (ctx_state ctx))) (cost_usd (metrics_of (ctx_state ctx)))) (\<lambda>cap.
      bind_a (start_child tx eng ctx (flow_id m) (version_range ref) (ctx_input ctx) (subflow_trigger ctx) cap) (\<lambda>child.
      if run_status child \<noteq> ''completed'' then raise_a (child_failure ctx child None)
      else return_a (completed_outcome (dset (KStr ''childRunId'') (PStr (run_id child)) (child_output child)) (child_metrics child)))))))"

subsection \<open>Maps\<close>

text \<open>A submitted branch: its index, its input and the cap it was granted.\<close>

record map_task =
  task_index :: nat
  task_input :: pydict
  task_cap :: flow_budgets

record map_ledger =
  led_next :: nat
  led_pending :: "map_task list"
  led_granted :: "nat \<Rightarrow> (rat \<times> rat) option"
  led_reserved_tokens :: rat
  led_reserved_cost :: rat
  led_children_tokens :: rat
  led_children_cost :: rat
  led_outputs :: "pydict option list"
  led_run_ids :: "string option list"

text \<open>What stays fixed while a map runs: the node, the items and the parent's budgets and consumption.\<close>

record map_setup =
  mp_env :: py_env
  mp_texts :: exc_texts
  mp_node :: flow_node
  mp_items :: "pyval list"
  mp_state :: pydict
  mp_budgets :: flow_budgets
  mp_base :: run_metrics
  mp_workers :: nat

definition initial_ledger :: "nat \<Rightarrow> map_ledger" where
  "initial_ledger n = \<lparr>led_next = 0, led_pending = [], led_granted = (\<lambda>_. None), led_reserved_tokens = 0, led_reserved_cost = 0,
     led_children_tokens = 0, led_children_cost = 0, led_outputs = replicate n None, led_run_ids = replicate n None\<rparr>"

definition map_breach :: "map_setup \<Rightarrow> map_ledger \<Rightarrow> string option" where
  "map_breach s led =
     (let t = tokens (mp_base s) + led_children_tokens led; c = cost_usd (mp_base s) + led_children_cost led; b = mp_budgets s
      in if t > of_int (max_tokens b)
         then Some (''aggregate tokens '' @ py_str (mp_env s) (PFloat t) @ '' exceeded budget '' @ str_int (max_tokens b))
         else if c > max_cost_usd b
         then Some (''aggregate cost '' @ py_str (mp_env s) (PFloat c) @ '' exceeded budget '' @
                py_str (mp_env s) (PFloat (max_cost_usd b)) @ '' USD'')
         else None)"

definition breach_error :: "map_setup \<Rightarrow> string \<Rightarrow> node_exc" where
  "breach_error s v = FlowBudgetExceededError (''map '' @ node_label (mp_node s) @ '': '' @ v)"

definition branch_input :: "map_setup \<Rightarrow> pyval \<Rightarrow> (expr_error, pydict) result" where
  "branch_input s item =
     bind_r (render_template (mp_env s) (PDict (input_bindings (mp_node s))) (PDict (dset (KStr ''item'') item (mp_state s)))) (\<lambda>v.
     Inr (case v of PDict d \<Rightarrow> d | _ \<Rightarrow> [(KStr ''value'', v)]))"

definition branch_cap :: "map_setup \<Rightarrow> map_ledger \<Rightarrow> int \<Rightarrow> flow_budgets" where
  "branch_cap s led secs =
     (let b = mp_budgets s;
          remaining_tokens = max 0 (of_int (max_tokens b) - (tokens (mp_base s) + led_children_tokens led + led_reserved_tokens led));
          remaining_cost = max 0 (max_cost_usd b - (cost_usd (mp_base s) + led_children_cost led + led_reserved_cost led));
          divisor = of_nat (max 1 (min (mp_workers s) (length (mp_items s) - led_next led)))
      in FlowBudgets (remaining_cost / divisor) secs (py_int (remaining_tokens / divisor)))"

definition grant :: "map_task \<Rightarrow> map_ledger \<Rightarrow> map_ledger" where
  "grant t led = led\<lparr>
     led_next := Suc (led_next led),
     led_granted := (led_granted led)(task_index t \<mapsto> (of_int (max_tokens (task_cap t)), max_cost_usd (task_cap t))),
     led_reserved_tokens := led_reserved_tokens led + of_int (max_tokens (task_cap t)),
     led_reserved_cost := led_reserved_cost led + max_cost_usd (task_cap t),
     led_pending := led_pending led @ [t]\<rparr>"

text \<open>One launch: the ledger with the branch submitted, or the exception it raises.\<close>

definition launch :: "map_setup \<Rightarrow> node_context \<Rightarrow> map_ledger \<Rightarrow> (node_exc, map_ledger) result node_action" where
  "launch s ctx led =
     (case map_breach s led of
        Some v \<Rightarrow> return_a (Inl (breach_error s v))
      | None \<Rightarrow>
          (case branch_input s (mp_items s ! led_next led) of
             Inl e \<Rightarrow> return_a (Inl (FlowNodeError (''map '' @ node_label (mp_node s) @ '': branch '' @ str_nat (led_next led) @
                        '' bindings failed to render: '' @ expr_exc_text (mp_texts s) e)))
           | Inr inp \<Rightarrow>
               bind_a (wall_clock_remaining ctx) (\<lambda>secs.
               return_a (Inr (grant \<lparr>task_index = led_next led, task_input = inp, task_cap = branch_cap s led secs\<rparr> led)))))"

text \<open>The inner loop launches while a worker is free; \<open>k\<close> bounds the number of launches.\<close>

primrec fill_workers :: "nat \<Rightarrow> map_setup \<Rightarrow> node_context \<Rightarrow> map_ledger \<Rightarrow> (node_exc option \<times> map_ledger) node_action" where
  "fill_workers 0 s ctx led = return_a (None, led)"
| "fill_workers (Suc k) s ctx led =
     (if led_next led < length (mp_items s) \<and> length (led_pending led) < mp_workers s
      then bind_a (launch s ctx led) (\<lambda>r. case r of Inl e \<Rightarrow> return_a (Some e, led) | Inr led' \<Rightarrow> fill_workers k s ctx led')
      else return_a (None, led))"

definition map_trigger :: "node_context \<Rightarrow> nat \<Rightarrow> pydict" where
  "map_trigger ctx i = [(KStr ''type'', PStr ''map''), (KStr ''parentRunId'', PStr (ctx_run_id ctx)),
     (KStr ''nodeId'', PStr (node_id (ctx_node ctx))), (KStr ''index'', PInt (int i))]"

text \<open>The branch on a worker thread; its future keeps the exception.\<close>

definition run_branch :: "exc_texts \<Rightarrow> flow_engine \<Rightarrow> node_context \<Rightarrow> string \<Rightarrow> string \<Rightarrow> map_task \<Rightarrow>
    (map_task \<times> (node_exc, flow_run_record) result) node_action" where
  "run_branch tx eng ctx fid rng t =
     try_a (start_child tx eng ctx fid rng (task_input t) (map_trigger ctx (task_index t)) (task_cap t))
       (\<lambda>r. return_a (t, Inr r)) (\<lambda>e. return_a (t, Inl e))"

primrec run_branches :: "exc_texts \<Rightarrow> flow_engine \<Rightarrow> node_context \<Rightarrow> string \<Rightarrow> string \<Rightarrow> map_task list \<Rightarrow>
    (map_task \<times> (node_exc, flow_run_record) result) list node_action" where
  "run_branches tx eng ctx fid rng [] = return_a []"
| "run_branches tx eng ctx fid rng (t # ts) =
     bind_a (run_branch tx eng ctx fid rng t) (\<lambda>r. bind_a (run_branches tx eng ctx fid rng ts) (\<lambda>rs. return_a (r # rs)))"

text \<open>The branches that are done in a round: at least one.\<close>

type_synonym schedule = "nat \<Rightarrow> nat list \<Rightarrow> nat list"

definition done_tasks :: "schedule \<Rightarrow> nat \<Rightarrow> map_task list \<Rightarrow> map_task list" where
  "done_tasks sched k ts =
     (let idx = remdups (filter (\<lambda>i. i \<in> set (map task_index ts)) (sched k (map task_index ts)));
          found = concat (map (\<lambda>i. filter (\<lambda>t. task_index t = i) ts) idx)
      in if found = [] then take 1 ts else found)"

definition settle :: "nat \<Rightarrow> flow_run_record \<Rightarrow> map_ledger \<Rightarrow> map_ledger" where
  "settle i child led =
     (let g = (case led_granted led i of Some g \<Rightarrow> g | None \<Rightarrow> (0, 0))
      in led\<lparr>
        led_run_ids := (led_run_ids led)[i := Some (run_id child)],
        led_granted := (led_granted led)(i := None),
        led_reserved_tokens := led_reserved_tokens led - fst g,
        led_reserved_cost := led_reserved_cost led - snd g,
        led_children_tokens := led_children_tokens led + tokens (child_metrics child),
        led_children_cost := led_children_cost led + cost_usd (child_metrics child)\<rparr>)"

fun collect :: "node_context \<Rightarrow> (map_task \<times> (node_exc, flow_run_record) result) list \<Rightarrow> map_ledger \<Rightarrow>
    node_exc option \<times> map_ledger" where
  "collect ctx [] led = (None, led)"
| "collect ctx ((t, r) # rs) led =
     (let led1 = led\<lparr>led_pending := filter (\<lambda>x. task_index x \<noteq> task_index t) (led_pending led)\<rparr> in
      case r of
        Inl e \<Rightarrow> (Some e, led1)
      | Inr child \<Rightarrow>
          (let led2 = settle (task_index t) child led1 in
           if run_status child \<noteq> ''completed'' then (Some (child_failure ctx child (Some (task_index t))), led2)
           else collect ctx rs (led2\<lparr>led_outputs := (led_outputs led2)[task_index t := Some (child_output child)]\<rparr>)))"

text \<open>Leaving the pool waits for the branches that still run.\<close>

definition abandon :: "exc_texts \<Rightarrow> flow_engine \<Rightarrow> node_context \<Rightarrow> string \<Rightarrow> string \<Rightarrow> map_task list \<Rightarrow> node_exc \<Rightarrow> 'a node_action" where
  "abandon tx eng ctx fid rng ts e = then_a (run_branches tx eng ctx fid rng ts) (raise_a e)"

text \<open>The outer loop; every round settles at least one branch, so \<open>k\<close> is bounded by the number of items.\<close>

primrec map_rounds :: "nat \<Rightarrow> schedule \<Rightarrow> map_setup \<Rightarrow> flow_engine \<Rightarrow> node_context \<Rightarrow> string \<Rightarrow> string \<Rightarrow> map_ledger \<Rightarrow>
    map_ledger node_action" where
  "map_rounds 0 sched s eng ctx fid rng led = return_a led"
| "map_rounds (Suc k) sched s eng ctx fid rng led =
     (if led_pending led = [] \<and> \<not> led_next led < length (mp_items s) then return_a led
      else bind_a (fill_workers (length (mp_items s)) s ctx led) (\<lambda>(err, led1).
        case err of
          Some e \<Rightarrow> abandon (mp_texts s) eng ctx fid rng (led_pending led1) e
        | None \<Rightarrow>
            if led_pending led1 = [] then return_a led1
            else bind_a (run_branches (mp_texts s) eng ctx fid rng (done_tasks sched k (led_pending led1))) (\<lambda>rs.
              case collect ctx rs led1 of
                (Some e, led2) \<Rightarrow>
                  abandon (mp_texts s) eng ctx fid rng
                    (filter (\<lambda>t. task_index t \<notin> set (map (task_index \<circ> fst) rs)) (led_pending led2)) e
              | (None, led2) \<Rightarrow>
                  (case map_breach s led2 of
                     Some v \<Rightarrow> abandon (mp_texts s) eng ctx fid rng (led_pending led2) (breach_error s v)
                   | None \<Rightarrow> map_rounds k sched s eng ctx fid rng led2))))"

definition map_outcome :: "nat \<Rightarrow> map_ledger \<Rightarrow> node_outcome" where
  "map_outcome n led = completed_outcome
     [(KStr ''items'', PList (map (\<lambda>v. case v of None \<Rightarrow> PNone | Some d \<Rightarrow> PDict d) (led_outputs led))),
      (KStr ''count'', PInt (int n)),
      (KStr ''childRunIds'', PList (map opt_str (led_run_ids led)))]
     \<lparr>tokens = led_children_tokens led, cost_usd = led_children_cost led\<rparr>"

definition map_workers :: "flow_node \<Rightarrow> int" where
  "map_workers n = (case max_parallel n of None \<Rightarrow> DEFAULT_MAP_PARALLELISM | Some k \<Rightarrow> if k = 0 then DEFAULT_MAP_PARALLELISM else k)"

text \<open>\<open>type(v).__name__\<close>; the class of other objects is not modelled.\<close>

fun type_name :: "pyval \<Rightarrow> string" where
  "type_name PNone = ''NoneType''"
| "type_name (PBool _) = ''bool''"
| "type_name (PInt _) = ''int''"
| "type_name (PFloat _) = ''float''"
| "type_name (PStr _) = ''str''"
| "type_name (PList _) = ''list''"
| "type_name (PTuple _) = ''tuple''"
| "type_name (PDict _) = ''dict''"
| "type_name (PObj _) = ''object''"

definition map_collection :: "py_env \<Rightarrow> exc_texts \<Rightarrow> flow_node \<Rightarrow> pydict \<Rightarrow> (node_exc, pyval list) result" where
  "map_collection env tx n st =
     (case over n of
        None \<Rightarrow> Inl (FlowNodeError (''map '' @ node_label n @ '' has no '' @ repr_str ''over'' @ '' expression''))
      | Some ov \<Rightarrow>
          if reduce_mode n \<noteq> ''collect''
          then Inl (FlowNodeError (''map '' @ node_label n @ '': unsupported reduce mode '' @ repr_str (reduce_mode n)))
          else (case render_template env (PStr ov) (PDict st) of
             Inl e \<Rightarrow> Inl (FlowNodeError (''map '' @ node_label n @ '': '' @ repr_str ''over'' @ '' failed to render: '' @ expr_exc_text tx e))
           | Inr (PList items) \<Rightarrow> Inr items
           | Inr v \<Rightarrow> Inl (FlowNodeError (''map '' @ node_label n @ '': '' @ repr_str ''over'' @ '' must yield a list, got '' @ type_name v))))"

definition map_handler :: "py_env \<Rightarrow> exc_texts \<Rightarrow> schedule \<Rightarrow> flow_engine option \<Rightarrow> node_handler" where
  "map_handler env tx sched service ctx =
     (let n = ctx_node ctx in
      bind_a (composite_service service ctx) (\<lambda>eng.
      then_a (ensure_depth ctx)
      (bind_a (resolve_child_flow tx eng ctx) (\<lambda>(m, ref).
       bind_a (base_eval_state ctx) (\<lambda>st.
       bind_a (lift_a (map_collection env tx n st)) (\<lambda>items.
       if map_workers n \<le> 0 then raise_a (OtherException ''max_workers must be greater than 0'')
       else bind_a (map_rounds (length items + 1) sched
              \<lparr>mp_env = env, mp_texts = tx, mp_node = n, mp_items = items, mp_state = st, mp_budgets = parent_budgets ctx,
               mp_base = metrics_of (ctx_state ctx), mp_workers = nat (map_workers n)\<rparr> eng ctx (flow_id m) (version_range ref)
              (initial_ledger (length items))) (\<lambda>led.
            return_a (map_outcome (length items) led))))))))"

subsection \<open>The nested engines\<close>

text \<open>
  The engine whose composite nodes run their children on an engine with one level less. At level 0
  composite nodes are refused; the depth cap is reached first, as is proved of these engines.
\<close>

record composite_config =
  cc_env :: py_env
  cc_lib :: version_lib
  cc_texts :: exc_texts
  cc_schedule :: schedule
  cc_callables :: callable_registry
  cc_agents :: agent_services
  cc_max_steps :: int

definition engine_with :: "composite_config \<Rightarrow> flow_engine option \<Rightarrow> flow_engine" where
  "engine_with c service = \<lparr>eng_env = cc_env c, eng_lib = cc_lib c,
     eng_handlers = build_default_handlers (cc_env c) (cc_callables c) (cc_agents c)
       (subflow_handler (cc_texts c) service) (map_handler (cc_env c) (cc_texts c) (cc_schedule c) service),
     eng_max_steps = cc_max_steps c\<rparr>"

primrec composite_engine :: "composite_config \<Rightarrow> nat \<Rightarrow> flow_engine" where
  "composite_engine c 0 = engine_with c None"
| "composite_engine c (Suc n) = engine_with c (Some (composite_engine c n))"

end
