(* ===== verification/Flow_Map_Laws.thy ===== *)
theory Flow_Map_Laws
  imports Flow_Composite_Laws
begin

text \<open>
  The ledger of a map node. Launching a branch reserves its cap and accepting a completed one returns
  the reservation for what the branch spent; \<open>ledger_step\<close> is any such step, in any order, so its
  invariant does not depend on how the branches interleave. The loop of the handler takes only these
  steps, ends, and collects one child for each item.
\<close>

subsection \<open>Steps of the ledger\<close>

definition accept :: "map_task \<Rightarrow> flow_run_record \<Rightarrow> map_ledger \<Rightarrow> map_ledger" where
  "accept t child led =
     (let led1 = settle (task_index t) child (led\<lparr>led_pending := filter (\<lambda>x. task_index x \<noteq> task_index t) (led_pending led)\<rparr>)
      in led1\<lparr>led_outputs := (led_outputs led1)[task_index t := Some (child_output child)]\<rparr>)"

inductive ledger_step :: "map_setup \<Rightarrow> map_ledger \<Rightarrow> map_ledger \<Rightarrow> bool" for s where
  Launch: "led_next led < length (mp_items s) \<Longrightarrow> map_breach s led = None \<Longrightarrow>
    branch_input s (mp_items s ! led_next led) = Inr inp \<Longrightarrow>
    ledger_step s led (grant \<lparr>task_index = led_next led, task_input = inp, task_cap = branch_cap s led secs\<rparr> led)"
| Accept: "t \<in> set (led_pending led) \<Longrightarrow> run_status child = ''completed'' \<Longrightarrow> within_budgets (task_cap t) (run_state child) \<Longrightarrow>
    ledger_step s led (accept t child led)"

inductive_cases ledger_stepE: "ledger_step s led led'"

text \<open>The sums of the caps of a list of branches.\<close>

definition cap_tokens :: "map_task list \<Rightarrow> rat" where
  "cap_tokens ts = sum_list (map (\<lambda>t. of_int (max_tokens (task_cap t))) ts)"

definition cap_costs :: "map_task list \<Rightarrow> rat" where
  "cap_costs ts = sum_list (map (\<lambda>t. max_cost_usd (task_cap t)) ts)"

definition base_within :: "map_setup \<Rightarrow> bool" where
  "base_within s \<longleftrightarrow> tokens (mp_base s) \<le> of_int (max_tokens (mp_budgets s)) \<and> cost_usd (mp_base s) \<le> max_cost_usd (mp_budgets s)"

definition led_shape :: "map_setup \<Rightarrow> map_ledger \<Rightarrow> bool" where
  "led_shape s led \<longleftrightarrow> led_next led \<le> length (mp_items s) \<and> length (led_outputs led) = length (mp_items s) \<and>
     length (led_run_ids led) = length (mp_items s) \<and> distinct (map task_index (led_pending led)) \<and>
     (\<forall>t\<in>set (led_pending led). task_index t < led_next led \<and>
        branch_input s (mp_items s ! task_index t) = Inr (task_input t) \<and>
        led_granted led (task_index t) = Some (of_int (max_tokens (task_cap t)), max_cost_usd (task_cap t)))"

definition led_sums :: "map_setup \<Rightarrow> map_ledger \<Rightarrow> bool" where
  "led_sums s led \<longleftrightarrow> led_reserved_tokens led = cap_tokens (led_pending led) \<and> led_reserved_cost led = cap_costs (led_pending led) \<and>
     (\<forall>t\<in>set (led_pending led). 0 \<le> max_tokens (task_cap t) \<and> 0 \<le> max_cost_usd (task_cap t)) \<and>
     (base_within s \<longrightarrow>
        tokens (mp_base s) + led_children_tokens led + led_reserved_tokens led \<le> of_int (max_tokens (mp_budgets s)) \<and>
        cost_usd (mp_base s) + led_children_cost led + led_reserved_cost led \<le> max_cost_usd (mp_budgets s))"

lemma cap_sums_append [simp]:
  "cap_tokens (ts @ [t]) = cap_tokens ts + of_int (max_tokens (task_cap t))"
  "cap_costs (ts @ [t]) = cap_costs ts + max_cost_usd (task_cap t)"
  by (simp_all add: cap_tokens_def cap_costs_def)

lemma remove_task:
  "distinct (map task_index ts) \<Longrightarrow> t \<in> set ts \<Longrightarrow>
   \<exists>xs ys. ts = xs @ t # ys \<and> filter (\<lambda>x. task_index x \<noteq> task_index t) ts = xs @ ys"
proof -
  assume d: "distinct (map task_index ts)" and "t \<in> set ts"
  then obtain xs ys where ts: "ts = xs @ t # ys" by (meson split_list)
  with d have "\<forall>x\<in>set (xs @ ys). task_index x \<noteq> task_index t" by (auto simp: image_iff)
  then have "filter (\<lambda>x. task_index x \<noteq> task_index t) ts = xs @ ys" unfolding ts by (auto simp: filter_id_conv)
  with ts show ?thesis by blast
qed

lemma cap_sums_remove:
  assumes "distinct (map task_index ts)" and "t \<in> set ts"
  shows "cap_tokens (filter (\<lambda>x. task_index x \<noteq> task_index t) ts) = cap_tokens ts - of_int (max_tokens (task_cap t))"
    "cap_costs (filter (\<lambda>x. task_index x \<noteq> task_index t) ts) = cap_costs ts - max_cost_usd (task_cap t)"
    "length (filter (\<lambda>x. task_index x \<noteq> task_index t) ts) = length ts - 1"
proof -
  obtain xs ys where ts: "ts = xs @ t # ys" "filter (\<lambda>x. task_index x \<noteq> task_index t) ts = xs @ ys"
    using remove_task [OF assms] by blast
  show "cap_tokens (filter (\<lambda>x. task_index x \<noteq> task_index t) ts) = cap_tokens ts - of_int (max_tokens (task_cap t))"
    "cap_costs (filter (\<lambda>x. task_index x \<noteq> task_index t) ts) = cap_costs ts - max_cost_usd (task_cap t)"
    "length (filter (\<lambda>x. task_index x \<noteq> task_index t) ts) = length ts - 1"
    unfolding ts(2) by (simp_all add: ts(1) cap_tokens_def cap_costs_def)
qed

lemma share_bounds:
  fixes x :: rat and d :: nat
  assumes "0 \<le> x" and "1 \<le> d"
  shows "0 \<le> x / of_nat d" and "x / of_nat d \<le> x"
proof -
  have "x * 1 \<le> x * of_nat d" using assms by (intro mult_left_mono) simp_all
  then show "x / of_nat d \<le> x" using assms by (simp add: divide_le_eq)
  show "0 \<le> x / of_nat d" using assms by simp
qed

lemma branch_cap_bounds:
  "0 \<le> max_tokens (branch_cap s led secs)" "0 \<le> max_cost_usd (branch_cap s led secs)"
  "of_int (max_tokens (branch_cap s led secs)) \<le>
     max 0 (of_int (max_tokens (mp_budgets s)) - (tokens (mp_base s) + led_children_tokens led + led_reserved_tokens led))"
  "max_cost_usd (branch_cap s led secs) \<le>
     max 0 (max_cost_usd (mp_budgets s) - (cost_usd (mp_base s) + led_children_cost led + led_reserved_cost led))"
proof -
  let ?d = "max 1 (min (mp_workers s) (length (mp_items s) - led_next led))"
  let ?t = "max 0 (of_int (max_tokens (mp_budgets s)) - (tokens (mp_base s) + led_children_tokens led + led_reserved_tokens led))"
  let ?c = "max 0 (max_cost_usd (mp_budgets s) - (cost_usd (mp_base s) + led_children_cost led + led_reserved_cost led))"
  have t: "0 \<le> ?t / of_nat ?d" "?t / of_nat ?d \<le> ?t" by (rule share_bounds; simp)+
  have c: "0 \<le> ?c / of_nat ?d" "?c / of_nat ?d \<le> ?c" by (rule share_bounds; simp)+
  have cap: "branch_cap s led secs = FlowBudgets (?c / of_nat ?d) secs (py_int (?t / of_nat ?d))"
    by (simp only: branch_cap_def Let_def)
  have "py_int (?t / of_nat ?d) = \<lfloor>?t / of_nat ?d\<rfloor>" using t(1) by (simp only: py_int_def if_True)
  then have int: "0 \<le> py_int (?t / of_nat ?d)" "of_int (py_int (?t / of_nat ?d)) \<le> ?t / of_nat ?d"
    using t(1) by (simp_all only: zero_le_floor of_int_floor_le)
  show "0 \<le> max_tokens (branch_cap s led secs)" "0 \<le> max_cost_usd (branch_cap s led secs)"
    "of_int (max_tokens (branch_cap s led secs)) \<le> ?t" "max_cost_usd (branch_cap s led secs) \<le> ?c"
    unfolding cap flow_budgets.sel by (rule int(1) c(1) order_trans [OF int(2) t(2)] c(2))+
qed

lemma grant_shape:
  "led_shape s led \<Longrightarrow> led_next led < length (mp_items s) \<Longrightarrow> branch_input s (mp_items s ! led_next led) = Inr (task_input t) \<Longrightarrow>
   task_index t = led_next led \<Longrightarrow> led_shape s (grant t led)"
  by (force simp: led_shape_def grant_def)

lemma accept_shape: "led_shape s led \<Longrightarrow> led_shape s (accept t child led)"
  by (auto simp: led_shape_def accept_def settle_def Let_def distinct_map_filter)

lemma grant_keeps:
  assumes "led_shape s led" and "led_sums s led" and "led_next led < length (mp_items s)"
    and "branch_input s (mp_items s ! led_next led) = Inr inp"
    and t: "t = \<lparr>task_index = led_next led, task_input = inp, task_cap = branch_cap s led secs\<rparr>"
  shows "led_shape s (grant t led)" and "led_sums s (grant t led)"
proof -
  show "led_shape s (grant t led)" using assms by (intro grant_shape) simp_all
  have cap: "task_cap t = branch_cap s led secs" by (simp add: t)
  show "led_sums s (grant t led)"
    using assms(2) branch_cap_bounds [of s led secs] unfolding led_sums_def grant_def
    by (simp add: cap algebra_simps) linarith
qed

lemma accept_keeps:
  assumes shape: "led_shape s led" and sums: "led_sums s led" and t: "t \<in> set (led_pending led)"
    and "within_budgets (task_cap t) (run_state child)"
  shows "led_shape s (accept t child led)" and "led_sums s (accept t child led)"
proof -
  have g: "led_granted led (task_index t) = Some (of_int (max_tokens (task_cap t)), max_cost_usd (task_cap t))"
    and d: "distinct (map task_index (led_pending led))"
    using shape t by (simp_all add: led_shape_def)
  show "led_shape s (accept t child led)" by (rule accept_shape [OF shape])
  show "led_sums s (accept t child led)"
    using sums assms(4) g cap_sums_remove [OF d t] unfolding led_sums_def accept_def settle_def Let_def within_budgets_def
    by (simp add: child_metrics_def algebra_simps) linarith
qed

lemma ledger_start: "led_shape s (initial_ledger (length (mp_items s)))" "led_sums s (initial_ledger (length (mp_items s)))"
  by (simp_all add: led_shape_def led_sums_def initial_ledger_def cap_tokens_def cap_costs_def base_within_def)

lemma ledger_step_keeps:
  assumes "ledger_step s led led'" and "led_shape s led" and "led_sums s led"
  shows "led_shape s led' \<and> led_sums s led'"
  using assms by (cases rule: ledger_step.cases) (use grant_keeps accept_keeps in blast)+

lemma ledger_reach_keeps:
  assumes "(ledger_step s)\<^sup>*\<^sup>* (initial_ledger (length (mp_items s))) led"
  shows "led_shape s led \<and> led_sums s led"
  using assms by (induction rule: rtranclp_induct) (use ledger_start ledger_step_keeps in auto)

lemma cap_sums_nonneg: "led_sums s led \<Longrightarrow> 0 \<le> led_reserved_tokens led \<and> 0 \<le> led_reserved_cost led"
  by (auto simp: led_sums_def cap_tokens_def cap_costs_def intro!: sum_list_nonneg)

lemma led_sums_no_breach: "led_sums s led \<Longrightarrow> base_within s \<Longrightarrow> map_breach s led = None"
  using cap_sums_nonneg [of s led] by (auto simp: led_sums_def map_breach_def Let_def)

subsection \<open>Tokens in floating point\<close>

text \<open>
  The code keeps the ledger in floats. What holds of the costs above holds for exact amounts only, but
  token counts are integers, on which floats are exact up to \<open>2\<^sup>5\<^sup>3\<close>. \<open>float_rounding\<close> is what is needed of
  rounding to the nearest binary64 number, \<open>float_remaining\<close> and \<open>float_share\<close> are the expressions of the
  code with each of its operations rounded, and \<open>token_step\<close> is a step of the ledger with any amount
  for the cost cap.
\<close>

definition float_rounding :: "(rat \<Rightarrow> rat) \<Rightarrow> bool" where
  "float_rounding rnd \<longleftrightarrow> mono rnd \<and> (\<forall>z::int. \<bar>z\<bar> \<le> 2 ^ 53 \<longrightarrow> rnd (of_int z) = of_int z) \<and>
     (\<forall>x. 1 / 2 \<le> x \<and> x \<le> 2 ^ 53 \<longrightarrow> \<bar>rnd x - x\<bar> \<le> x / 2 ^ 53)"

definition float_remaining :: "(rat \<Rightarrow> rat) \<Rightarrow> map_setup \<Rightarrow> map_ledger \<Rightarrow> rat" where
  "float_remaining rnd s led = max 0 (rnd (of_int (max_tokens (mp_budgets s)) -
     rnd (rnd (tokens (mp_base s) + led_children_tokens led) + led_reserved_tokens led)))"

definition float_share :: "(rat \<Rightarrow> rat) \<Rightarrow> map_setup \<Rightarrow> map_ledger \<Rightarrow> int" where
  "float_share rnd s led =
     py_int (rnd (float_remaining rnd s led / of_nat (max 1 (min (mp_workers s) (length (mp_items s) - led_next led)))))"

inductive token_step :: "map_setup \<Rightarrow> map_ledger \<Rightarrow> map_ledger \<Rightarrow> bool" for s where
  Launch: "led_next led < length (mp_items s) \<Longrightarrow> branch_input s (mp_items s ! led_next led) = Inr inp \<Longrightarrow>
    token_step s led (grant \<lparr>task_index = led_next led, task_input = inp,
      task_cap = FlowBudgets cost secs (max_tokens (branch_cap s led secs))\<rparr> led)"
| Accept: "t \<in> set (led_pending led) \<Longrightarrow> tokens (child_metrics child) \<in> \<nat> \<Longrightarrow>
    tokens (child_metrics child) \<le> of_int (max_tokens (task_cap t)) \<Longrightarrow> token_step s led (accept t child led)"

text \<open>Every step of the ledger that collects whole tokens is one of these.\<close>

lemma ledger_step_token_step:
  assumes "ledger_step s led led'"
    and "\<And>t child. t \<in> set (led_pending led) \<Longrightarrow> led' = accept t child led \<Longrightarrow> tokens (child_metrics child) \<in> \<nat>"
  shows "token_step s led led'"
  using assms(1)
proof (cases rule: ledger_step.cases)
  case (Launch inp secs)
  have "branch_cap s led secs = FlowBudgets (max_cost_usd (branch_cap s led secs)) secs (max_tokens (branch_cap s led secs))"
    by (simp add: branch_cap_def Let_def)
  with Launch token_step.Launch [OF Launch(2,4), of "max_cost_usd (branch_cap s led secs)" secs] show ?thesis by simp
next
  case (Accept t child)
  then show ?thesis using assms(2) by (auto intro!: token_step.Accept simp: within_budgets_def child_metrics_def)
qed

lemma rounding_integer: "float_rounding rnd \<Longrightarrow> x = of_int z \<Longrightarrow> \<bar>z\<bar> \<le> 2 ^ 53 \<Longrightarrow> rnd x = x"
  by (simp add: float_rounding_def)

lemma rounding_near: "float_rounding rnd \<Longrightarrow> 1 / 2 \<le> x \<Longrightarrow> x \<le> 2 ^ 53 \<Longrightarrow> \<bar>rnd x - x\<bar> \<le> x / 2 ^ 53"
  unfolding float_rounding_def by blast

lemma rounding_half:
  assumes "float_rounding rnd" and "0 \<le> x" and "x < 1 / 2"
  shows "\<lfloor>rnd x\<rfloor> = 0"
proof -
  have "rnd 0 = 0" using rounding_integer [OF assms(1), of 0 0] by simp
  then have "0 \<le> rnd x" using assms monoD [of rnd 0 x] by (auto simp: float_rounding_def)
  moreover have "rnd x \<le> rnd (1 / 2)" using assms monoD [of rnd x "1 / 2"] by (auto simp: float_rounding_def)
  moreover have "\<bar>rnd (1 / 2) - 1 / 2\<bar> \<le> (1 / 2) / 2 ^ 53" using rounding_near [OF assms(1), of "1 / 2"] by simp
  moreover have "(1 / 2) / 2 ^ 53 \<le> (1 / 4 :: rat)" by simp
  ultimately have "0 \<le> rnd x \<and> rnd x < 1" by linarith
  then show ?thesis by (simp add: floor_eq_iff)
qed

text \<open>Rounding a quotient of integers never carries it over the next integer, so the share is exact.\<close>

lemma rounding_quotient:
  assumes rnd: "float_rounding rnd" and "0 \<le> r" and "r < 2 ^ 53" and "0 < d"
  shows "\<lfloor>rnd (of_int r / of_int d)\<rfloor> = r div d"
proof -
  let ?q = "of_int r / of_int d :: rat"
  have floor: "\<lfloor>?q\<rfloor> = r div d" by (rule floor_divide_of_int_eq)
  have d: "(1 :: rat) \<le> of_int d" "(0 :: rat) < of_int d" using assms(4) by simp_all
  have "of_int r = (of_int (r div d) * of_int d + of_int (r mod d) :: rat)"
    unfolding of_int_mult [symmetric] of_int_add [symmetric] by simp
  then have q: "?q = of_int (r div d) + of_int (r mod d) / of_int d" using d(2) by (simp add: field_simps)
  have bound: "(of_int r :: rat) < 2 ^ 53" using assms(3) by (simp only: of_int_less_numeral_power_cancel_iff)
  have "?q \<le> of_int r" using d assms(2) by (simp add: divide_le_eq mult_le_cancel_left1)
  then have q_max: "?q \<le> 2 ^ 53" using bound by linarith
  consider (whole) "r mod d = 0" | (small) "?q < 1 / 2" | (rest) "r mod d \<noteq> 0" "1 / 2 \<le> ?q" by linarith
  then show ?thesis
  proof cases
    case whole
    then have eq: "?q = of_int (r div d)" using q by simp
    have "0 \<le> r div d" using assms(2,4) by (simp add: pos_imp_zdiv_nonneg_iff)
    moreover have "(of_int (r div d) :: rat) \<le> of_int (2 ^ 53)" using q_max unfolding eq by simp
    then have "r div d \<le> 2 ^ 53" by (simp only: of_int_le_iff)
    ultimately have "rnd ?q = ?q" by (intro rounding_integer [OF rnd eq]) simp
    then show ?thesis using floor by simp
  next
    case small
    have "0 \<le> ?q" using assms(2) d by simp
    moreover from this small have "\<lfloor>?q\<rfloor> = 0" by linarith
    ultimately show ?thesis using rounding_half [OF rnd _ small] floor by simp
  next
    case rest
    then have "1 \<le> r mod d" "r mod d + 1 \<le> d" using pos_mod_bound [OF assms(4), of r] pos_mod_sign [OF assms(4), of r] by linarith+
    then have "(1 :: rat) \<le> of_int (r mod d)" "(of_int (r mod d) + 1 :: rat) \<le> of_int d" by linarith+
    then have gap: "1 / of_int d \<le> (of_int (r mod d) / of_int d :: rat)" "of_int (r mod d) / of_int d + 1 / of_int d \<le> (1 :: rat)"
      using d(2) by (simp_all add: divide_right_mono add_divide_distrib [symmetric] divide_le_eq)
    have "\<bar>rnd ?q - ?q\<bar> \<le> ?q / 2 ^ 53" by (rule rounding_near [OF rnd rest(2) q_max])
    also have "\<dots> < 1 / of_int d" using bound d(2) by (simp add: field_simps)
    finally have "of_int (r div d) < rnd ?q" "rnd ?q < of_int (r div d) + 1" using gap q by linarith+
    then show ?thesis by (simp add: floor_eq_iff)
  qed
qed

definition token_sums :: "map_setup \<Rightarrow> map_ledger \<Rightarrow> bool" where
  "token_sums s led \<longleftrightarrow> led_reserved_tokens led = cap_tokens (led_pending led) \<and>
     (\<forall>t\<in>set (led_pending led). 0 \<le> max_tokens (task_cap t)) \<and> led_children_tokens led \<in> \<nat> \<and>
     tokens (mp_base s) + led_children_tokens led + led_reserved_tokens led \<le> of_int (max_tokens (mp_budgets s))"

lemma token_step_keeps:
  assumes "token_step s led led'" and shape: "led_shape s led" and sums: "token_sums s led"
  shows "led_shape s led' \<and> token_sums s led'"
  using assms(1)
proof (cases rule: token_step.cases)
  case (Launch inp cost secs)
  have "led_shape s led'" unfolding Launch(1) by (rule grant_shape [OF shape Launch(2)]) (use Launch(3) in simp_all)
  moreover have "token_sums s led'"
    using Launch(1) sums branch_cap_bounds(1,3) [of s led secs] by (simp add: token_sums_def grant_def algebra_simps)
  ultimately show ?thesis ..
next
  case (Accept t child)
  have g: "led_granted led (task_index t) = Some (of_int (max_tokens (task_cap t)), max_cost_usd (task_cap t))"
    and d: "distinct (map task_index (led_pending led))"
    using shape Accept(2) by (simp_all add: led_shape_def)
  have "token_sums s (accept t child led)"
    using sums g cap_sums_remove(1) [OF d Accept(2)] Accept(3,4) Nats_add [OF _ Accept(3)]
    unfolding token_sums_def accept_def settle_def Let_def by (simp add: algebra_simps)
  then show ?thesis using accept_shape [OF shape] Accept(1) by simp
qed

lemma token_reach_keeps:
  assumes "(token_step s)\<^sup>*\<^sup>* (initial_ledger (length (mp_items s))) led"
    and "tokens (mp_base s) \<le> of_int (max_tokens (mp_budgets s))"
  shows "led_shape s led \<and> token_sums s led"
  using assms(1)
proof (induction rule: rtranclp_induct)
  case base
  then show ?case using ledger_start(1) [of s] assms(2) by (simp add: token_sums_def initial_ledger_def cap_tokens_def)
qed (use token_step_keeps in blast)

lemma cap_tokens_int: "cap_tokens ts = of_int (sum_list (map (max_tokens \<circ> task_cap) ts))"
  by (induction ts) (simp_all add: cap_tokens_def)

text \<open>On whole tokens the rounded ledger is the exact one.\<close>

lemma tokens_exact:
  assumes rnd: "float_rounding rnd" and sums: "token_sums s led" and base: "tokens (mp_base s) \<in> \<nat>"
    and max: "max_tokens (mp_budgets s) < 2 ^ 53"
  shows "rnd (led_children_tokens led) = led_children_tokens led" "rnd (led_reserved_tokens led) = led_reserved_tokens led"
    "rnd (tokens (mp_base s) + led_children_tokens led) = tokens (mp_base s) + led_children_tokens led"
    "float_share rnd s led = max_tokens (branch_cap s led secs)"
proof -
  obtain b c where b: "tokens (mp_base s) = of_int (int b)" and c: "led_children_tokens led = of_int (int c)"
    using base sums by (force simp: token_sums_def elim!: Nats_cases)
  define v where "v = sum_list (map (max_tokens \<circ> task_cap) (led_pending led))"
  have v: "led_reserved_tokens led = of_int v" "0 \<le> v"
    using sums by (auto simp: token_sums_def cap_tokens_int v_def intro!: sum_list_nonneg)
  let ?m = "max_tokens (mp_budgets s)"
  have "(of_int (int b + int c + v) :: rat) \<le> of_int ?m" using sums by (simp add: token_sums_def b c v)
  then have le: "int b + int c + v \<le> ?m" by (simp only: of_int_le_iff)
  have exact: "rnd (of_int z) = of_int z" if "0 \<le> z" "z \<le> ?m" for z
    by (rule rounding_integer [OF rnd refl]) (use that max in linarith)
  show "rnd (led_children_tokens led) = led_children_tokens led" "rnd (led_reserved_tokens led) = led_reserved_tokens led"
    unfolding c v by (rule exact; use le v(2) in linarith)+
  have bc: "tokens (mp_base s) + led_children_tokens led = of_int (int b + int c)" by (simp add: b c)
  show sum: "rnd (tokens (mp_base s) + led_children_tokens led) = tokens (mp_base s) + led_children_tokens led"
    unfolding bc by (rule exact) (use le v(2) in linarith)+
  define r where "r = ?m - (int b + int c + v)"
  have all: "tokens (mp_base s) + led_children_tokens led + led_reserved_tokens led = of_int (int b + int c + v)" by (simp add: b c v)
  have rem: "of_int ?m - (tokens (mp_base s) + led_children_tokens led + led_reserved_tokens led) = of_int r"
    unfolding all r_def by simp
  have "rnd (tokens (mp_base s) + led_children_tokens led + led_reserved_tokens led) =
      tokens (mp_base s) + led_children_tokens led + led_reserved_tokens led"
    unfolding all by (rule exact) (use le v(2) in linarith)+
  moreover have "rnd (of_int r) = of_int r" by (rule exact) (use le v(2) in \<open>simp_all add: r_def\<close>)
  ultimately have fr: "float_remaining rnd s led = of_int r"
    using le unfolding float_remaining_def sum by (simp only: rem) (simp add: r_def)
  define d where "d = max 1 (min (mp_workers s) (length (mp_items s) - led_next led))"
  have q: "\<lfloor>rnd (of_int r / of_int (int d))\<rfloor> = r div int d"
    by (rule rounding_quotient [OF rnd]) (use le v(2) max in \<open>simp_all add: r_def d_def\<close>)
  have "rnd 0 = 0" using rounding_integer [OF rnd, of 0 0] by simp
  then have "0 \<le> rnd (of_int r / of_int (int d))"
    using rnd monoD [of rnd 0 "of_int r / of_int (int d)"] le by (simp add: float_rounding_def r_def)
  then have "float_share rnd s led = r div int d"
    using q unfolding float_share_def fr d_def [symmetric] py_int_def by simp
  moreover have "max_tokens (branch_cap s led secs) = py_int (max 0 (of_int r) / of_nat d)"
    unfolding branch_cap_def Let_def rem d_def by simp
  then have "max_tokens (branch_cap s led secs) = r div int d"
    using le floor_divide_of_int_eq [of r "int d", where 'a = rat] by (simp add: py_int_def r_def)
  ultimately show "float_share rnd s led = max_tokens (branch_cap s led secs)" by simp
qed

subsection \<open>Branches\<close>

text \<open>A branch's child as it is stored: completed within its cap when it is completed.\<close>

definition branch_child :: "node_context \<Rightarrow> map_task \<Rightarrow> flow_run_record \<Rightarrow> world \<Rightarrow> bool" where
  "branch_child ctx t r w \<longleftrightarrow> get_run (run_id r) None w = Some r \<and> parent_run_id r = Some (ctx_run_id ctx) \<and>
     run_tenant_id r = ctx_tenant_id ctx \<and> run_trigger r = map_trigger ctx (task_index t) \<and> json_doc (task_input t) = Some (run_input r) \<and>
     (run_status r = ''completed'' \<longrightarrow> within_budgets (task_cap t) (run_state r))"

lemma map_trigger_json: "json_doc (default_trigger (Some (map_trigger ctx i))) = Some (map_trigger ctx i)"
  by (simp add: default_trigger_def map_trigger_def json_doc_def)

lemma stays_get_run: "stays w w' \<Longrightarrow> get_run q None w = Some r \<Longrightarrow> get_run q None w' = Some r"
  unfolding stays_def exists_run_def view_row [symmetric] by force

lemma branch_child_stays: "stays w w' \<Longrightarrow> branch_child ctx t r w \<Longrightarrow> branch_child ctx t r w'"
  by (auto simp: branch_child_def stays_get_run)

lemma run_branch_wp:
  assumes "handlers_detached (eng_handlers eng)" and "store_ok w"
  shows "wp (run_branch tx eng ctx fid rng t)
    (\<lambda>p w'. stays w w' \<and> fst p = t \<and> (\<forall>r. snd p = Inr r \<longrightarrow> branch_child ctx t r w')) E w"
  unfolding run_branch_def
proof (rule wp_tryI [OF start_child_wp [OF assms]], goal_cases)
  case (1 r w')
  then show ?case
    using map_trigger_json [of ctx "task_index t"]
    by (auto simp: child_of_def branch_child_def)
qed simp

lemma run_branches_wp:
  assumes "handlers_detached (eng_handlers eng)" and "store_ok w"
  shows "wp (run_branches tx eng ctx fid rng ts)
    (\<lambda>rs w'. stays w w' \<and> map fst rs = ts \<and> (\<forall>t r. (t, Inr r) \<in> set rs \<longrightarrow> branch_child ctx t r w')) E w"
  using assms(2)
proof (induction ts arbitrary: w)
  case (Cons t ts)
  show ?case
    unfolding run_branches.simps
  proof (rule wp_bindI [OF run_branch_wp [OF assms(1) Cons.prems]], goal_cases)
    case (1 p w1)
    then have ok: "store_ok w1" by (simp add: stays_def)
    show ?case
    proof (rule wp_bindI [OF Cons.IH [OF ok]], goal_cases)
      case (1 rs w2)
      then show ?case
        using \<open>stays w w1 \<and> fst p = t \<and> _\<close> branch_child_stays [of w1 w2 ctx] stays_trans [of w w1 w2] by auto
    qed
  qed
qed (simp add: stays_refl)

lemma done_tasks_distinct:
  assumes "distinct idx" and "distinct (map task_index ts)"
  shows "distinct (map task_index (concat (map (\<lambda>i. filter (\<lambda>t. task_index t = i) ts) idx)))"
  using assms(1)
proof (induction idx)
  case (Cons i idx)
  have "distinct (map task_index (filter (\<lambda>t. task_index t = i) ts))" using assms(2) by (simp add: distinct_map_filter)
  then show ?case using Cons by auto
qed simp

lemma done_tasks_props:
  assumes "ts \<noteq> []" and "distinct (map task_index ts)"
  shows "done_tasks sched k ts \<noteq> []" and "set (done_tasks sched k ts) \<subseteq> set ts"
    and "distinct (map task_index (done_tasks sched k ts))"
proof -
  let ?idx = "remdups (filter (\<lambda>i. i \<in> set (map task_index ts)) (sched k (map task_index ts)))"
  let ?found = "concat (map (\<lambda>i. filter (\<lambda>t. task_index t = i) ts) ?idx)"
  have eq: "done_tasks sched k ts = (if ?found = [] then take 1 ts else ?found)" by (simp only: done_tasks_def Let_def)
  show "done_tasks sched k ts \<noteq> []" unfolding eq using assms(1) by (simp split: if_splits)
  show "set (done_tasks sched k ts) \<subseteq> set ts" unfolding eq using set_take_subset [of 1 ts] by auto
  have "distinct (map task_index ?found)" by (rule done_tasks_distinct [OF distinct_remdups assms(2)])
  then show "distinct (map task_index (done_tasks sched k ts))"
    unfolding eq using distinct_take [OF assms(2), of 1] by (simp add: take_map split: if_splits)
qed

subsection \<open>Collected children\<close>

definition settled_items :: "map_ledger \<Rightarrow> nat set" where
  "settled_items led = {..<led_next led} - task_index ` set (led_pending led)"

definition item_child :: "node_context \<Rightarrow> map_setup \<Rightarrow> nat \<Rightarrow> flow_run_record \<Rightarrow> world \<Rightarrow> bool" where
  "item_child ctx s i r w \<longleftrightarrow> get_run (run_id r) None w = Some r \<and> run_status r = ''completed'' \<and>
     parent_run_id r = Some (ctx_run_id ctx) \<and> run_tenant_id r = ctx_tenant_id ctx \<and> run_trigger r = map_trigger ctx i \<and>
     (\<exists>inp. branch_input s (mp_items s ! i) = Inr inp \<and> json_doc inp = Some (run_input r))"

definition map_children :: "node_context \<Rightarrow> map_setup \<Rightarrow> (nat \<Rightarrow> flow_run_record) \<Rightarrow> map_ledger \<Rightarrow> world \<Rightarrow> bool" where
  "map_children ctx s ch led w \<longleftrightarrow>
     (\<forall>i\<in>settled_items led. item_child ctx s i (ch i) w \<and> led_run_ids led ! i = Some (run_id (ch i)) \<and>
        led_outputs led ! i = Some (child_output (ch i))) \<and>
     led_children_tokens led = (\<Sum>i\<in>settled_items led. tokens (child_metrics (ch i))) \<and>
     led_children_cost led = (\<Sum>i\<in>settled_items led. cost_usd (child_metrics (ch i)))"

lemma item_child_stays: "stays w w' \<Longrightarrow> item_child ctx s i r w \<Longrightarrow> item_child ctx s i r w'"
  by (auto simp: item_child_def stays_get_run)

lemma map_children_stays: "stays w w' \<Longrightarrow> map_children ctx s ch led w \<Longrightarrow> map_children ctx s ch led w'"
  by (auto simp: map_children_def item_child_stays)

lemma map_children_start: "map_children ctx s ch (initial_ledger n) w"
  by (simp add: map_children_def settled_items_def initial_ledger_def)

lemma settled_grant: "task_index t = led_next led \<Longrightarrow> settled_items (grant t led) = settled_items led"
  by (auto simp: settled_items_def grant_def less_Suc_eq)

lemma map_children_grant:
  "task_index t = led_next led \<Longrightarrow> map_children ctx s ch led w \<Longrightarrow> map_children ctx s ch (grant t led) w"
  by (simp add: map_children_def settled_grant) (simp add: grant_def)

lemma settled_accept:
  assumes "led_shape s led" and "t \<in> set (led_pending led)"
  shows "settled_items (accept t child led) = insert (task_index t) (settled_items led)" and "task_index t \<notin> settled_items led"
    and "task_index t < length (mp_items s)"
  using assms by (auto simp: settled_items_def accept_def settle_def Let_def led_shape_def)

lemma map_children_accept:
  assumes shape: "led_shape s led" and t: "t \<in> set (led_pending led)" and ch: "map_children ctx s ch led w"
    and child: "branch_child ctx t r w" "run_status r = ''completed''"
  shows "map_children ctx s (ch(task_index t := r)) (accept t r led) w"
proof -
  note new = settled_accept(1) [OF shape t, of r] settled_accept(2,3) [OF shape t]
  let ?led = "accept t r led"
  have len: "length (led_outputs led) = length (mp_items s)" "length (led_run_ids led) = length (mp_items s)"
    and inp: "branch_input s (mp_items s ! task_index t) = Inr (task_input t)"
    using shape t by (simp_all add: led_shape_def)
  have fin: "finite (settled_items led)" by (simp add: settled_items_def)
  have other: "(ch(task_index t := r)) i = ch i" if "i \<in> settled_items led" for i using new(2) that by auto
  have upd: "led_run_ids ?led = (led_run_ids led)[task_index t := Some (run_id r)]"
    "led_outputs ?led = (led_outputs led)[task_index t := Some (child_output r)]"
    "led_children_tokens ?led = led_children_tokens led + tokens (child_metrics r)"
    "led_children_cost ?led = led_children_cost led + cost_usd (child_metrics r)"
    by (simp_all add: accept_def settle_def Let_def)
  have "item_child ctx s (task_index t) r w" using child inp by (auto simp: item_child_def branch_child_def)
  moreover have "task_index t \<noteq> i" if "i \<in> settled_items led" for i using new(2) that by auto
  ultimately have "\<forall>i\<in>settled_items ?led. item_child ctx s i ((ch(task_index t := r)) i) w \<and>
      led_run_ids ?led ! i = Some (run_id ((ch(task_index t := r)) i)) \<and>
      led_outputs ?led ! i = Some (child_output ((ch(task_index t := r)) i))"
    using ch new(3) len unfolding new(1) upd by (auto simp: map_children_def)
  moreover have same: "(\<Sum>i\<in>settled_items led. f ((ch(task_index t := r)) i)) = (\<Sum>i\<in>settled_items led. f (ch i))" for f :: "_ \<Rightarrow> rat"
    using other by (intro sum.cong) auto
  ultimately show ?thesis
    using ch new(2) fin same [of "\<lambda>r. tokens (child_metrics r)"] same [of "\<lambda>r. cost_usd (child_metrics r)"]
    unfolding map_children_def new(1) upd by simp
qed

definition unsettled :: "map_setup \<Rightarrow> map_ledger \<Rightarrow> nat" where
  "unsettled s led = (length (mp_items s) - led_next led) + length (led_pending led)"

lemma collect_accepts:
  assumes "led_shape s led" and "led_sums s led" and "map_children ctx s ch led w" and "collect ctx rs led = (None, led')"
    and "set (map fst rs) \<subseteq> set (led_pending led)" and "distinct (map (task_index \<circ> fst) rs)"
    and "\<forall>t r. (t, Inr r) \<in> set rs \<longrightarrow> branch_child ctx t r w"
  shows "(ledger_step s)\<^sup>*\<^sup>* led led' \<and> (\<exists>ch'. map_children ctx s ch' led' w) \<and> unsettled s led' + length rs = unsettled s led"
  using assms
proof (induction rs arbitrary: led ch)
  case (Cons p rs)
  obtain t r where p: "p = (t, Inr r)" and comp: "run_status r = ''completed''"
    and rest: "collect ctx rs (accept t r led) = (None, led')"
    using Cons.prems(4) by (cases p) (auto simp: accept_def Let_def split: sum.splits if_splits)
  have t: "t \<in> set (led_pending led)" and child: "branch_child ctx t r w" using Cons.prems(5,7) p by auto
  then have within: "within_budgets (task_cap t) (run_state r)" using comp by (simp add: branch_child_def)
  have d: "distinct (map task_index (led_pending led))" using Cons.prems(1) by (simp add: led_shape_def)
  have "led_pending (accept t r led) = filter (\<lambda>x. task_index x \<noteq> task_index t) (led_pending led)"
    "led_next (accept t r led) = led_next led"
    by (simp_all add: accept_def settle_def Let_def)
  note fields = this
  have "set (map fst rs) \<subseteq> set (led_pending (accept t r led))"
    using Cons.prems(5,6) p unfolding fields by (force simp: image_iff)
  then have IH: "(ledger_step s)\<^sup>*\<^sup>* (accept t r led) led' \<and> (\<exists>ch'. map_children ctx s ch' led' w) \<and>
      unsettled s led' + length rs = unsettled s (accept t r led)"
    by (intro Cons.IH [OF accept_keeps [OF Cons.prems(1,2) t within] map_children_accept [OF Cons.prems(1) t Cons.prems(3) child comp] rest])
      (use Cons.prems(6,7) in auto)
  moreover have "ledger_step s led (accept t r led)" by (rule ledger_step.Accept [OF t comp within])
  moreover have "unsettled s led = Suc (unsettled s (accept t r led))"
    using t cap_sums_remove(3) [OF d t] by (cases "led_pending led") (auto simp: unsettled_def fields)
  ultimately show ?case by (simp add: converse_rtranclp_into_rtranclp)
qed auto

subsection \<open>The loop\<close>

lemma clock_now_wp:
  assumes "store_ok w"
  shows "wp clock_now (\<lambda>_. stays w) E w"
proof -
  let ?w = "w\<lparr>clock_reads := Suc (clock_reads w)\<rparr>"
  have "view q ?w = view q w" for q by (rule view_cong) simp_all
  moreover have "store_inv ?w = store_inv w" by (rule store_inv_cong) simp_all
  moreover have "ids_fresh ?w = ids_fresh w" by (simp add: ids_fresh_def ids_of_def)
  ultimately show ?thesis using assms by (simp add: clock_now_def stays_def store_ok_def)
qed

lemma wall_clock_wp: "store_ok w \<Longrightarrow> wp (wall_clock_remaining ctx) (\<lambda>_. stays w) E w"
  unfolding wall_clock_remaining_def by (rule wp_bindI [OF clock_now_wp]) simp_all

lemma launch_wp:
  assumes "store_ok w" and "led_next led < length (mp_items s)"
  shows "wp (launch s ctx led) (\<lambda>r w'. stays w w' \<and> (\<forall>led'. r = Inr led' \<longrightarrow> ledger_step s led led' \<and>
      (\<exists>t. task_index t = led_next led \<and> led' = grant t led))) E w"
proof (cases "map_breach s led")
  case None
  show ?thesis
  proof (cases "branch_input s (mp_items s ! led_next led)")
    case (Inr inp)
    show ?thesis
      unfolding launch_def None option.case Inr sum.case
      by (rule wp_bindI [OF wall_clock_wp [OF assms(1)]]) (use ledger_step.Launch [OF assms(2) None Inr] in force)
  qed (use None assms in \<open>simp add: launch_def stays_refl\<close>)
qed (use assms in \<open>simp add: launch_def stays_refl\<close>)

lemma unsettled_grant: "led_next led < length (mp_items s) \<Longrightarrow> unsettled s (grant t led) = unsettled s led"
  by (simp add: unsettled_def grant_def)

lemma fill_workers_wp:
  assumes "store_ok w" and "map_children ctx s ch led w"
  shows "wp (fill_workers k s ctx led) (\<lambda>(err, led') w'. stays w w' \<and>
      (err = None \<longrightarrow> (ledger_step s)\<^sup>*\<^sup>* led led' \<and> map_children ctx s ch led' w' \<and> unsettled s led' = unsettled s led \<and>
         (length (mp_items s) - led_next led \<le> k \<longrightarrow> mp_workers s \<le> length (led_pending led') \<or> length (mp_items s) \<le> led_next led'))) E w"
  using assms
proof (induction k arbitrary: led w)
  case (Suc k)
  show ?case
  proof (cases "led_next led < length (mp_items s) \<and> length (led_pending led) < mp_workers s")
    case True
    have "wp (case r of Inl e \<Rightarrow> return_a (Some e, led) | Inr led1 \<Rightarrow> fill_workers k s ctx led1) (\<lambda>(err, led') w'. stays w w' \<and>
        (err = None \<longrightarrow> (ledger_step s)\<^sup>*\<^sup>* led led' \<and> map_children ctx s ch led' w' \<and> unsettled s led' = unsettled s led \<and>
         (length (mp_items s) - led_next led \<le> Suc k \<longrightarrow> mp_workers s \<le> length (led_pending led') \<or> length (mp_items s) \<le> led_next led'))) E w1"
      if "stays w w1" and r: "\<forall>led'. r = Inr led' \<longrightarrow> ledger_step s led led' \<and> (\<exists>t. task_index t = led_next led \<and> led' = grant t led)" for r w1
    proof (cases r)
      case (Inr led1)
      then obtain t where led1: "ledger_step s led led1" "task_index t = led_next led" "led1 = grant t led" using r by blast
      have ch: "map_children ctx s ch led1 w1"
        unfolding led1(3) by (rule map_children_grant [OF led1(2) map_children_stays [OF that(1) Suc.prems(2)]])
      have "store_ok w1" using that(1) by (simp add: stays_def)
      moreover have "led_next led1 = Suc (led_next led)" by (simp add: led1(3) grant_def)
      moreover have "unsettled s led1 = unsettled s led" using True by (simp add: led1(3) unsettled_grant)
      ultimately show ?thesis
        unfolding Inr sum.case
        by (intro wp_mono [OF Suc.IH [OF _ ch]]) (use stays_trans [OF that(1)] led1(1) in \<open>auto intro: converse_rtranclp_into_rtranclp\<close>)
    qed (use that in simp)
    then show ?thesis
      using True by (simp del: wp_bind) (rule wp_bindI [OF launch_wp [OF Suc.prems(1)]], auto)
  qed (use Suc.prems in \<open>auto simp: stays_refl\<close>)
qed (auto simp: stays_refl)

lemma abandon_wp:
  assumes "handlers_detached (eng_handlers eng)" and "stays w w1"
  shows "wp (abandon tx eng ctx fid rng ts e) Q (\<lambda>_. stays w) w1"
proof -
  have "store_ok w1" using assms(2) by (simp add: stays_def)
  then show ?thesis
    unfolding abandon_def by (intro wp_thenI [OF run_branches_wp [OF assms(1)]]) (use stays_trans [OF assms(2)] in auto)
qed

definition loop_inv :: "node_context \<Rightarrow> map_setup \<Rightarrow> map_ledger \<Rightarrow> world \<Rightarrow> bool" where
  "loop_inv ctx s led w \<longleftrightarrow> store_ok w \<and> (ledger_step s)\<^sup>*\<^sup>* (initial_ledger (length (mp_items s))) led \<and> (\<exists>ch. map_children ctx s ch led w)"

lemma map_round_wp:
  assumes eng: "handlers_detached (eng_handlers eng)" and inv: "loop_inv ctx s led w" and "led_pending led \<noteq> []"
    and again: "\<And>led' w'. loop_inv ctx s led' w' \<Longrightarrow> stays w w' \<Longrightarrow> unsettled s led' < unsettled s led \<Longrightarrow> wp (again led') Q (\<lambda>_. stays w) w'"
  shows "wp (bind_a (run_branches (mp_texts s) eng ctx fid rng (done_tasks sched k (led_pending led))) (\<lambda>rs.
      case collect ctx rs led of
        (Some e, led2) \<Rightarrow> abandon (mp_texts s) eng ctx fid rng (f rs led2) e
      | (None, led2) \<Rightarrow>
          (case map_breach s led2 of
             Some v \<Rightarrow> abandon (mp_texts s) eng ctx fid rng (led_pending led2) (breach_error s v)
           | None \<Rightarrow> again led2))) Q (\<lambda>_. stays w) w"
proof -
  have ok: "store_ok w" and reach: "(ledger_step s)\<^sup>*\<^sup>* (initial_ledger (length (mp_items s))) led"
    using inv by (simp_all add: loop_inv_def)
  obtain ch where ch: "map_children ctx s ch led w" using inv by (auto simp: loop_inv_def)
  have shape: "led_shape s led" "led_sums s led" using ledger_reach_keeps [OF reach] by auto
  then have d: "distinct (map task_index (led_pending led))" by (simp add: led_shape_def)
  note batch = done_tasks_props [OF assms(3) d, of sched k]
  show ?thesis
  proof (rule wp_bindI [OF run_branches_wp [OF eng ok]], goal_cases)
    case (1 rs w1)
    then have st: "stays w w1" and fst: "map fst rs = done_tasks sched k (led_pending led)"
      and child: "\<forall>t r. (t, Inr r) \<in> set rs \<longrightarrow> branch_child ctx t r w1" by auto
    have "wp (again led2) Q (\<lambda>_. stays w) w1" if c: "collect ctx rs led = (None, led2)" for led2
    proof -
      have "distinct (map (task_index \<circ> fst) rs)" using batch(3) unfolding fst [symmetric] by simp
      from collect_accepts [OF shape map_children_stays [OF st ch] c _ this child] batch(2)
      have *: "(ledger_step s)\<^sup>*\<^sup>* led led2" "\<exists>ch'. map_children ctx s ch' led2 w1" "unsettled s led2 + length rs = unsettled s led"
        unfolding fst [symmetric] by auto
      have "loop_inv ctx s led2 w1" using reach * st by (auto simp: loop_inv_def stays_def)
      moreover have "length rs \<noteq> 0" using batch(1) fst by (cases rs) auto
      then have "unsettled s led2 < unsettled s led" using *(3) by linarith
      ultimately show ?thesis by (intro again [OF _ st])
    qed
    then show ?case using abandon_wp [OF eng st] by (auto split: prod.split option.split)
  qed
qed

lemma map_rounds_wp:
  assumes eng: "handlers_detached (eng_handlers eng)" and "0 < mp_workers s"
    and "loop_inv ctx s led w" and "unsettled s led < k"
  shows "wp (map_rounds k sched s eng ctx fid rng led)
    (\<lambda>led' w'. stays w w' \<and> loop_inv ctx s led' w' \<and> unsettled s led' = 0) (\<lambda>_. stays w) w"
  using assms(3,4)
proof (induction k arbitrary: led w)
  case (Suc k)
  obtain ch where ok: "store_ok w" and reach: "(ledger_step s)\<^sup>*\<^sup>* (initial_ledger (length (mp_items s))) led"
    and ch: "map_children ctx s ch led w" using Suc.prems(1) by (auto simp: loop_inv_def)
  let ?post = "\<lambda>led' w'. stays w w' \<and> loop_inv ctx s led' w' \<and> unsettled s led' = 0"
  have round: "wp (case err of
          Some e \<Rightarrow> abandon (mp_texts s) eng ctx fid rng (led_pending led1) e
        | None \<Rightarrow>
            if led_pending led1 = [] then return_a led1
            else bind_a (run_branches (mp_texts s) eng ctx fid rng (done_tasks sched k (led_pending led1))) (\<lambda>rs.
              case collect ctx rs led1 of
                (Some e, led2) \<Rightarrow>
                  abandon (mp_texts s) eng ctx fid rng
                    (filter (\<lambda>t. task_index t \<notin> set (map (task_index \<circ> fst) rs)) (led_pending led2)) e
              | (None, led2) \<Rightarrow>
                  (case map_breach s led2 of
                     Some v \<Rightarrow> abandon (mp_texts s) eng ctx fid rng (led_pending led2) (breach_error s v)
                   | None \<Rightarrow> map_rounds k sched s eng ctx fid rng led2))) ?post (\<lambda>_. stays w) w1"
    if st: "stays w w1" and fill: "err = None \<longrightarrow> (ledger_step s)\<^sup>*\<^sup>* led led1 \<and> map_children ctx s ch led1 w1 \<and>
      unsettled s led1 = unsettled s led \<and> (mp_workers s \<le> length (led_pending led1) \<or> length (mp_items s) \<le> led_next led1)" for err led1 w1
  proof (cases err)
    case None
    with fill reach st have inv: "loop_inv ctx s led1 w1" by (auto simp: loop_inv_def stays_def)
    show ?thesis
    proof (cases "led_pending led1 = []")
      case True
      then have "unsettled s led1 = 0" using fill None assms(2) by (auto simp: unsettled_def)
      with True None inv st show ?thesis by simp
    next
      case False
      have weaken: "wp m Q (\<lambda>_. stays w) w2" if "wp m Q (\<lambda>_. stays w1) w2" for m :: "'x node_action" and Q w2
        by (rule wp_mono [OF that]) (use stays_trans [OF st] in auto)
      have "wp (map_rounds k sched s eng ctx fid rng led2) ?post (\<lambda>_. stays w1) w2"
        if "loop_inv ctx s led2 w2" "stays w1 w2" "unsettled s led2 < unsettled s led1" for led2 w2
        by (rule wp_mono [OF Suc.IH [OF that(1)]])
          (use that fill None Suc.prems(2) stays_trans [OF stays_trans [OF st that(2)]] stays_trans [OF that(2)] in auto)
      then show ?thesis
        unfolding None option.case using False
        by (simp del: wp_bind) (intro weaken map_round_wp [OF eng inv False])
    qed
  qed (use abandon_wp [OF eng st] in simp)
  show ?case
  proof (cases "led_pending led = [] \<and> \<not> led_next led < length (mp_items s)")
    case True
    then show ?thesis using Suc.prems(1) ok by (simp add: stays_refl unsettled_def)
  next
    case False
    show ?thesis
      unfolding map_rounds.simps if_not_P [OF False]
      by (rule wp_bindI [OF fill_workers_wp [OF ok ch]]) (use round in auto)
  qed
qed simp

end
