(* ===== verification/Flow_Nesting.thy ===== *)
theory Flow_Nesting
  imports Flow_Map_Laws
begin

text \<open>
  The nesting of engines. Two engines agree on a run when their handlers do; since composite nodes are
  refused for runs with too many ancestors, engines with enough levels agree on every run, so the
  number of levels in the model does not matter.
\<close>

subsection \<open>Actions that agree under an invariant\<close>

definition agrees :: "('w \<Rightarrow> bool) \<Rightarrow> ('e, 'a, 'w) action \<Rightarrow> ('e, 'a, 'w) action \<Rightarrow> bool" where
  "agrees P m m' \<longleftrightarrow> (\<forall>w. P w \<longrightarrow> m w = m' w)"

lemma agreesD: "agrees P m m' \<Longrightarrow> P w \<Longrightarrow> m w = m' w"
  by (simp add: agrees_def)

lemma agrees_refl [simp]: "agrees P m m"
  by (simp add: agrees_def)

lemma agrees_bind_wp:
  assumes "agrees P m m'" and "\<And>w. P w \<Longrightarrow> wp m (\<lambda>x w'. P w' \<and> R x) E w" and "\<And>x. R x \<Longrightarrow> agrees P (f x) (g x)"
  shows "agrees P (bind_a m f) (bind_a m' g)"
  unfolding agrees_def
proof (intro allI impI)
  fix w
  assume "P w"
  then show "bind_a m f w = bind_a m' g w"
    using assms(1,3) assms(2) [of w] by (auto simp: agrees_def bind_a_def wp_def split: prod.splits sum.splits)
qed

lemma agrees_bind:
  "agrees P m m' \<Longrightarrow> preserves P m \<Longrightarrow> (\<And>x. agrees P (f x) (g x)) \<Longrightarrow> agrees P (bind_a m f) (bind_a m' g)"
  by (rule agrees_bind_wp [where R = "\<lambda>_. True" and E = "\<lambda>_. P"]) (auto dest: preserves_wpD)

lemma agrees_bind_same: "preserves P m \<Longrightarrow> (\<And>x. agrees P (f x) (g x)) \<Longrightarrow> agrees P (bind_a m f) (bind_a m g)"
  by (rule agrees_bind) simp_all

lemma agrees_then: "agrees P m m' \<Longrightarrow> preserves P m \<Longrightarrow> agrees P k k' \<Longrightarrow> agrees P (then_a m k) (then_a m' k')"
  by (simp add: then_a_def agrees_bind)

lemma agrees_then_same: "preserves P m \<Longrightarrow> agrees P k k' \<Longrightarrow> agrees P (then_a m k) (then_a m k')"
  by (simp add: agrees_then)

lemma agrees_try:
  assumes "agrees P m m'" and "preserves P m" and "\<And>x. agrees P (k x) (k' x)" and "\<And>e. agrees P (h e) (h' e)"
  shows "agrees P (try_a m k h) (try_a m' k' h')"
  unfolding agrees_def
proof (intro allI impI)
  fix w
  assume "P w"
  then show "try_a m k h w = try_a m' k' h' w"
    using assms(1,3,4) preservesD [OF assms(2), of w] by (auto simp: agrees_def try_a_def split: prod.splits sum.splits)
qed

lemma agrees_if: "(b \<Longrightarrow> agrees P m m') \<Longrightarrow> (\<not> b \<Longrightarrow> agrees P n n') \<Longrightarrow> agrees P (if b then m else n) (if b then m' else n')"
  by simp

lemma agrees_option:
  "(x = None \<Longrightarrow> agrees P m m') \<Longrightarrow> (\<And>y. x = Some y \<Longrightarrow> agrees P (f y) (g y)) \<Longrightarrow>
   agrees P (case x of None \<Rightarrow> m | Some y \<Rightarrow> f y) (case x of None \<Rightarrow> m' | Some y \<Rightarrow> g y)"
  by (cases x) auto

lemma agrees_sum:
  "(\<And>e. x = Inl e \<Longrightarrow> agrees P (h e) (h' e)) \<Longrightarrow> (\<And>y. x = Inr y \<Longrightarrow> agrees P (f y) (g y)) \<Longrightarrow>
   agrees P (case x of Inl e \<Rightarrow> h e | Inr y \<Rightarrow> f y) (case x of Inl e \<Rightarrow> h' e | Inr y \<Rightarrow> g y)"
  by (cases x) auto

lemma agrees_prod: "(\<And>a b. x = (a, b) \<Longrightarrow> agrees P (f a b) (g a b)) \<Longrightarrow> agrees P (case x of (a, b) \<Rightarrow> f a b) (case x of (a, b) \<Rightarrow> g a b)"
  by (cases x) auto

lemmas agrees_intros = agrees_if agrees_option agrees_sum agrees_prod

subsection \<open>Engines that agree\<close>

text \<open>Two engines that differ in their handlers only.\<close>

definition same_but_handlers :: "flow_engine \<Rightarrow> flow_engine \<Rightarrow> bool" where
  "same_but_handlers e e' \<longleftrightarrow> eng_env e' = eng_env e \<and> eng_lib e' = eng_lib e \<and> eng_max_steps e' = eng_max_steps e"

context engine_invariant
begin

lemma attempt_failed_agrees:
  assumes "run_id run = rid" and "owned s" and "agrees P again again'"
  shows "agrees P (attempt_failed run n st policy bud deadline a s again exc) (attempt_failed run n st policy bud deadline a s again' exc)"
  unfolding attempt_failed_def Let_def assms(1)
  by (intro agrees_then_same agrees_bind_same agrees_intros keeps assms agrees_refl)

lemma attempt_loop_agrees:
  assumes "eng_handlers eng = handlers" and "run_id run = rid"
    and inv: "\<And>ctx. ctx_run_id ctx = rid \<Longrightarrow> agrees P (invoke_handler eng ctx) (invoke_handler eng' ctx)"
  shows "agrees P (attempt_loop k eng run m n st inp policy bud deadline a) (attempt_loop k eng' run m n st inp policy bud deadline a)"
proof (induction k arbitrary: a)
  case (Suc k)
  have invoke: "agrees P (invoke_handler eng (step_context run m n st inp bud deadline)) (invoke_handler eng' (step_context run m n st inp bud deadline))"
    "preserves P (invoke_handler eng (step_context run m n st inp bud deadline))"
    by (rule inv invoke_keeps; simp add: assms step_context_def)+
  show ?case
    unfolding attempt_loop.simps assms(2)
    by (rule agrees_bind_wp [OF agrees_refl keeps_step])
      (auto intro!: agrees_then_same keeps agrees_try invoke attempt_failed_agrees assms(2) Suc.IH)
qed simp

lemma activate_node_agrees:
  assumes "eng_handlers eng = handlers" and "run_id run = rid" and "same_but_handlers eng eng'"
    and inv: "\<And>ctx. ctx_run_id ctx = rid \<Longrightarrow> agrees P (invoke_handler eng ctx) (invoke_handler eng' ctx)"
  shows "agrees P (activate_node eng run m n st bud deadline) (activate_node eng' run m n st bud deadline)"
proof (cases "render_step_input (eng_env eng) n (build_eval_state (run_input run) (nodes_of st))")
  case (Inr inp)
  have "eng_env eng' = eng_env eng" using assms(3) by (simp add: same_but_handlers_def)
  with Inr show ?thesis
    unfolding activate_node_def Let_def
    by simp (rule agrees_bind_wp [OF attempt_loop_agrees [OF assms(1,2) inv] attempt_loop_keeps [OF assms(1,2)]], auto)
qed (use assms(3) in \<open>simp add: activate_node_def same_but_handlers_def\<close>)

lemma drive_agrees:
  assumes "eng_handlers eng = handlers" and "run_id run = rid" and "same_but_handlers eng eng'"
    and "\<And>ctx. ctx_run_id ctx = rid \<Longrightarrow> agrees P (invoke_handler eng ctx) (invoke_handler eng' ctx)"
  shows "agrees P (drive eng run m bud started activations st) (drive eng' run m bud started activations st)"
  using assms
proof (induction eng run m bud started activations st rule: drive.induct)
  case (1 eng run m bud started activations st)
  have max: "eng_max_steps eng' = eng_max_steps eng" using "1.prems"(3) by (simp add: same_but_handlers_def)
  have step: "agrees P
      (bind_a (activate_node eng run m n st bud d) (\<lambda>p. case fst p of Some r \<Rightarrow> return_a r | None \<Rightarrow> drive eng run m bud started (activations + 1) (snd p)))
      (bind_a (activate_node eng' run m n st bud d) (\<lambda>p. case fst p of Some r \<Rightarrow> return_a r | None \<Rightarrow> drive eng' run m bud started (activations + 1) (snd p)))"
    if "live_cursor st = Some c" "budget_violation bud st (t - started) activations (eng_max_steps eng) = None" "find_node m c = Some n" for c t n d
    by (intro agrees_bind activate_node_agrees activate_node_keeps agrees_option agrees_refl "1.IH" [OF that] "1.prems")
  show ?case
    by (subst (1 2) drive.simps)
      (auto simp: max intro!: agrees_bind_same keeps_clock agrees_refl agrees_option step split: option.split)
qed

lemma run_loop_agrees:
  assumes "eng_handlers eng = handlers" and "run_id run = rid" and "same_but_handlers eng eng'"
    and "\<And>ctx. ctx_run_id ctx = rid \<Longrightarrow> agrees P (invoke_handler eng ctx) (invoke_handler eng' ctx)"
  shows "agrees P (run_loop eng run cap) (run_loop eng' run cap)"
proof -
  have "eng_lib eng' = eng_lib eng" using assms(3) by (simp add: same_but_handlers_def)
  then show ?thesis
    unfolding run_loop_def resolve_action_def entry_action_def Let_def assms(2)
    by (simp) (intro agrees_bind_same agrees_then_same preserves_intros keeps drive_agrees assms)
qed

end

subsection \<open>Runs with ancestors\<close>

definition nested :: "nat \<Rightarrow> string \<Rightarrow> world \<Rightarrow> bool" where
  "nested k rid w \<longleftrightarrow> store_ok w \<and> exists_run rid w \<and> has_ancestors k rid w"

lemma has_ancestors_mono:
  assumes "\<And>a b. parent_link w a b \<Longrightarrow> parent_link w' a b" and "has_ancestors k rid w"
  shows "has_ancestors k rid w'"
  using assms(2) by (induction k arbitrary: rid) (auto simp: has_ancestors_Suc dest: assms(1))

lemma stays_ancestors: "stays w w' \<Longrightarrow> has_ancestors k rid w \<Longrightarrow> has_ancestors k rid w'"
  by (erule has_ancestors_mono [rotated]) (auto simp: parent_link_def stays_get_run)

lemma framed_link:
  assumes "framed rid w w'" and "parent_link w a b"
  shows "parent_link w' a b"
proof -
  obtain r where r: "get_run a None w = Some r" "parent_run_id r = Some b" using assms(2) by (auto simp: parent_link_def)
  show ?thesis
  proof (cases "a = rid")
    case True
    then show ?thesis using assms(1) r by (auto simp: framed_def parent_link_def same_run_def)
  next
    case False
    then have "v_row (view a w') = v_row (view a w)" using assms(1) r(1) by (auto simp: framed_def exists_run_def)
    then show ?thesis using r by (auto simp: view_row parent_link_def)
  qed
qed

lemma framed_ancestors: "framed rid w w' \<Longrightarrow> has_ancestors k q w \<Longrightarrow> has_ancestors k q w'"
  by (erule has_ancestors_mono [rotated]) (erule framed_link)

lemma framed_nested: "framed rid w0 w \<Longrightarrow> has_ancestors k rid w0 \<Longrightarrow> nested k rid w"
  using framed_ancestors [of rid w0 w k rid] by (auto simp: nested_def framed_def exists_run_def)

text \<open>What keeps every run keeps the ancestors of a run.\<close>

lemma keeps_nested:
  assumes "\<And>q R S Es. preserves (run_at q R S Es) m"
  shows "preserves (nested k rid) m"
  unfolding preserves_def
proof (intro allI impI)
  fix w
  assume n: "nested k rid w"
  have "stays w (snd (m w))" by (rule keeps_stays [OF assms, of w rid]) (use n in \<open>auto simp: nested_def\<close>)
  moreover from this have "store_ok (snd (m w))" by (simp add: stays_def)
  ultimately show "nested k rid (snd (m w))"
    using n stays_ancestors [of w "snd (m w)" k rid] stays_exists [of w "snd (m w)" rid] by (simp add: nested_def)
qed

lemma start_child_nested: "handlers_detached (eng_handlers eng) \<Longrightarrow> preserves (nested k rid) (start_child tx eng ctx fid rng inp trig cap)"
  by (rule keeps_nested) (rule start_child_keeps)

subsection \<open>Children agree\<close>

definition child_depth :: "nat \<Rightarrow> string option \<Rightarrow> world \<Rightarrow> bool" where
  "child_depth k parent w \<longleftrightarrow> k = 0 \<or> (\<exists>p j. parent = Some p \<and> k = Suc j \<and> has_ancestors j p w)"

definition handlers_agree :: "nat \<Rightarrow> flow_engine \<Rightarrow> flow_engine \<Rightarrow> bool" where
  "handlers_agree k eng eng' \<longleftrightarrow> same_but_handlers eng eng' \<and> handlers_detached (eng_handlers eng) \<and>
     (\<forall>ctx. agrees (nested k (ctx_run_id ctx)) (invoke_handler eng ctx) (invoke_handler eng' ctx))"

lemma start_run_agrees:
  assumes h: "handlers_agree k eng eng'" and ok: "store_ok w" and d: "child_depth k parent w"
  shows "start_run eng fid rng inp trig tenant parent True cap w = start_run eng' fid rng inp trig tenant parent True cap w"
proof -
  have lib: "eng_lib eng' = eng_lib eng" using h by (simp add: handlers_agree_def same_but_handlers_def)
  have eq: "eng_handlers eng = detached_part (eng_handlers eng)"
    using h detached_part_id unfolding handlers_agree_def by metis
  have tail: "then_a (append_event (run_id run) p) (then_a (emit_event name tenant (run_id run) None) (run_loop eng run None)) w1 =
      then_a (append_event (run_id run) p) (then_a (emit_event name tenant (run_id run) None) (run_loop eng' run None)) w1"
    if anc: "has_ancestors k (run_id run) w1" and f: "framed (run_id run) w1 w1" for run p name w1
  proof -
    have "agrees (framed (run_id run) w1) (invoke_handler eng ctx) (invoke_handler eng' ctx)" if "ctx_run_id ctx = run_id run" for ctx
      using h framed_nested [OF _ anc] that unfolding handlers_agree_def agrees_def by metis
    then have "agrees (framed (run_id run) w1) (run_loop eng run None) (run_loop eng' run None)"
      using h by (intro frame.run_loop_agrees [OF eq refl]) (simp_all add: handlers_agree_def)
    then show ?thesis
      by (intro agreesD [where P = "framed (run_id run) w1" and w = w1, OF _ f] agrees_then_same append_event_framed clocks_framed)
  qed
  have "bind_a (create_run fid' ver tenant trig' inp (start_state entry cap) parent None) (\<lambda>run.
      then_a (append_event (run_id run) (p run)) (then_a (emit_event name tenant (run_id run) None) (run_loop eng run None))) w =
    bind_a (create_run fid' ver tenant trig' inp (start_state entry cap) parent None) (\<lambda>run.
      then_a (append_event (run_id run) (p run)) (then_a (emit_event name tenant (run_id run) None) (run_loop eng' run None))) w"
    for fid' ver trig' entry p name
  proof (cases "create_run fid' ver tenant trig' inp (start_state entry cap) parent None w")
    case (Pair res w1)
    show ?thesis
    proof (cases res)
      case (Inr run)
      have c: "stays w w1 \<and> exists_run (run_id run) w1 \<and> (\<forall>R. get_run (run_id run) None w1 = Some R \<longrightarrow> parent_run_id R = parent)"
        using wp_InrD [OF create_run_stays [OF ok] Pair [unfolded Inr]] by auto
      have "has_ancestors k (run_id run) w1"
        using d c stays_ancestors [of w w1] unfolding child_depth_def by (auto simp: has_ancestors_Suc parent_link_def exists_run_def)
      moreover have "framed (run_id run) w1 w1" by (rule framed_refl) (use c in \<open>auto simp: stays_def\<close>)
      ultimately show ?thesis using tail Pair Inr by (simp add: bind_a_def)
    qed (use Pair in \<open>simp add: bind_a_def\<close>)
  qed
  then show ?thesis
    by (simp add: start_run_def lib bind_a_def [of "gets_a f" for f] bind_a_def [of "lift_a r" for r] gets_a_def lift_a_def
        bind_a_def [of "entry_action m" for m] entry_action_def return_a_def raise_a_def
        split: sum.splits flow_exc.splits option.splits)
qed

lemma start_child_agrees:
  assumes "handlers_agree (Suc k) eng eng'"
  shows "agrees (nested k (ctx_run_id ctx)) (start_child tx eng ctx fid rng inp trig cap) (start_child tx eng' ctx fid rng inp trig cap)"
  unfolding agrees_def start_child_def try_a_def
  using start_run_agrees [OF assms, where parent = "Some (ctx_run_id ctx)"] by (simp add: nested_def child_depth_def)

lemma ensure_depth_agrees:
  assumes "k < MAX_COMPOSITE_DEPTH \<Longrightarrow> agrees (nested k (ctx_run_id ctx)) m m'" and "k \<le> MAX_COMPOSITE_DEPTH"
  shows "agrees (nested k (ctx_run_id ctx)) (then_a (ensure_depth ctx) m) (then_a (ensure_depth ctx) m')"
proof (cases "k = MAX_COMPOSITE_DEPTH")
  case True
  have "then_a (ensure_depth ctx) m w = then_a (ensure_depth ctx) m' w" if "nested k (ctx_run_id ctx) w" for w
  proof -
    have "wp (ensure_depth ctx) (\<lambda>_ _. False) (\<lambda>_ _. True) w" using that by (simp add: ensure_depth_wp nested_def True)
    then show ?thesis by (auto simp: wp_def then_a_def bind_a_def split: prod.splits sum.splits)
  qed
  then show ?thesis by (simp add: agrees_def)
next
  case False
  then show ?thesis
    using assms by (intro agrees_then_same keeps_nested composite_prelude_keeps) simp
qed

lemma resolve_child_agrees: "same_but_handlers eng eng' \<Longrightarrow> resolve_child_flow tx eng' ctx = resolve_child_flow tx eng ctx"
  unfolding resolve_child_flow_def same_but_handlers_def by (simp only:)

lemma subflow_agrees:
  assumes "k \<le> MAX_COMPOSITE_DEPTH" and "k < MAX_COMPOSITE_DEPTH \<Longrightarrow> handlers_agree (Suc k) eng eng'" and "same_but_handlers eng eng'"
  shows "agrees (nested k (ctx_run_id ctx)) (subflow_handler tx (Some eng) ctx) (subflow_handler tx (Some eng') ctx)"
  unfolding subflow_handler_def composite_service_def option.case bind_return resolve_child_agrees [OF assms(3)]
proof (rule ensure_depth_agrees [OF _ assms(1)])
  assume "k < MAX_COMPOSITE_DEPTH"
  then have h: "handlers_agree (Suc k) eng eng'" by (rule assms(2))
  then have d: "handlers_detached (eng_handlers eng)" by (simp add: handlers_agree_def)
  show "agrees (nested k (ctx_run_id ctx))
     (bind_a (resolve_child_flow tx eng ctx) (\<lambda>(m, ref).
      bind_a (child_cap ctx (parent_budgets ctx) (tokens (metrics_of (ctx_state ctx))) (cost_usd (metrics_of (ctx_state ctx)))) (\<lambda>cap.
      bind_a (start_child tx eng ctx (flow_id m) (version_range ref) (ctx_input ctx) (subflow_trigger ctx) cap) (\<lambda>child.
      if run_status child \<noteq> ''completed'' then raise_a (child_failure ctx child None)
      else return_a (completed_outcome (dset (KStr ''childRunId'') (PStr (run_id child)) (child_output child)) (child_metrics child))))))
     (bind_a (resolve_child_flow tx eng ctx) (\<lambda>(m, ref).
      bind_a (child_cap ctx (parent_budgets ctx) (tokens (metrics_of (ctx_state ctx))) (cost_usd (metrics_of (ctx_state ctx)))) (\<lambda>cap.
      bind_a (start_child tx eng' ctx (flow_id m) (version_range ref) (ctx_input ctx) (subflow_trigger ctx) cap) (\<lambda>child.
      if run_status child \<noteq> ''completed'' then raise_a (child_failure ctx child None)
      else return_a (completed_outcome (dset (KStr ''childRunId'') (PStr (run_id child)) (child_output child)) (child_metrics child))))))"
    by (intro agrees_bind_same agrees_prod agrees_bind [OF start_child_agrees [OF h] start_child_nested [OF d]] agrees_refl
        keeps_nested resolve_child_keeps child_cap_keeps)
qed

lemma run_branches_agrees:
  assumes h: "handlers_agree (Suc k) eng eng'"
  shows "agrees (nested k (ctx_run_id ctx)) (run_branches tx eng ctx fid rng ts) (run_branches tx eng' ctx fid rng ts)"
proof (induction ts)
  case (Cons t ts)
  have d: "handlers_detached (eng_handlers eng)" using h by (simp add: handlers_agree_def)
  have "preserves (nested k (ctx_run_id ctx)) (run_branch tx eng ctx fid rng t)"
    unfolding run_branch_def by (intro keeps_nested preserves_intros start_child_keeps d)
  moreover have "agrees (nested k (ctx_run_id ctx)) (run_branch tx eng ctx fid rng t) (run_branch tx eng' ctx fid rng t)"
    unfolding run_branch_def by (intro agrees_try start_child_agrees [OF h] start_child_nested [OF d] agrees_refl)
  ultimately show ?case
    unfolding run_branches.simps
    by (intro agrees_bind [of _ "run_branch tx eng ctx fid rng t"] agrees_bind Cons.IH agrees_refl
        keeps_nested [OF run_branches_keeps [OF d]])
qed simp

lemma abandon_agrees:
  assumes "handlers_agree (Suc k) eng eng'"
  shows "agrees (nested k (ctx_run_id ctx)) (abandon tx eng ctx fid rng ts e) (abandon tx eng' ctx fid rng ts e)"
  unfolding abandon_def
  by (intro agrees_then run_branches_agrees [OF assms] agrees_refl keeps_nested run_branches_keeps)
    (use assms in \<open>simp add: handlers_agree_def\<close>)

lemma map_rounds_agrees:
  assumes h: "handlers_agree (Suc k) eng eng'"
  shows "agrees (nested k (ctx_run_id ctx)) (map_rounds j sched s eng ctx fid rng led) (map_rounds j sched s eng' ctx fid rng led)"
proof (induction j arbitrary: led)
  case (Suc j)
  have d: "handlers_detached (eng_handlers eng)" using h by (simp add: handlers_agree_def)
  have branches: "preserves (nested k (ctx_run_id ctx)) (run_branches (mp_texts s) eng ctx fid rng ts)" for ts
    by (intro keeps_nested run_branches_keeps d)
  show ?case
    unfolding map_rounds.simps
    by (intro agrees_if agrees_refl agrees_bind_same [OF keeps_nested [OF fill_workers_keeps]] agrees_prod agrees_option
        abandon_agrees [OF h] agrees_bind [OF run_branches_agrees [OF h] branches] Suc.IH)
qed simp

lemma map_agrees:
  assumes "k \<le> MAX_COMPOSITE_DEPTH" and "k < MAX_COMPOSITE_DEPTH \<Longrightarrow> handlers_agree (Suc k) eng eng'" and "same_but_handlers eng eng'"
  shows "agrees (nested k (ctx_run_id ctx)) (map_handler env tx sched (Some eng) ctx) (map_handler env tx sched (Some eng') ctx)"
  unfolding map_handler_def Let_def composite_service_def option.case bind_return resolve_child_agrees [OF assms(3)]
proof (rule ensure_depth_agrees [OF _ assms(1)], goal_cases)
  case 1
  then have h: "handlers_agree (Suc k) eng eng'" by (rule assms(2))
  then have d: "handlers_detached (eng_handlers eng)" by (simp add: handlers_agree_def)
  have rounds: "preserves (nested k (ctx_run_id ctx)) (map_rounds j sched s eng ctx fid rng led)" for j s fid rng led
    by (intro keeps_nested map_rounds_keeps d)
  show ?case
    by (intro agrees_bind_same agrees_prod agrees_if agrees_refl agrees_bind [OF map_rounds_agrees [OF h] rounds]
        keeps_nested [OF resolve_child_keeps] keeps_nested [OF composite_prelude_keeps(3)] preserves_lift)
qed

subsection \<open>Enough levels\<close>

lemma same_composite: "same_but_handlers (composite_engine c n) (composite_engine c m)"
  by (cases n; cases m) (simp_all add: same_but_handlers_def engine_with_def)

lemma composite_handlers:
  "eng_handlers (composite_engine c (Suc n)) ty =
     (if ty = ''map'' then Some (map_handler (cc_env c) (cc_texts c) (cc_schedule c) (Some (composite_engine c n)))
      else if ty = ''subflow'' then Some (subflow_handler (cc_texts c) (Some (composite_engine c n)))
      else eng_handlers (composite_engine c 0) ty)"
  by (simp add: engine_with_def build_default_handlers_def handler_register_def Let_def)

lemma composite_agree:
  assumes "detached (callable_handler (cc_callables c))" and "detached (agent_handler (cc_agents c))"
    and "k \<le> MAX_COMPOSITE_DEPTH" and "MAX_COMPOSITE_DEPTH < n + k" and "MAX_COMPOSITE_DEPTH < m + k"
  shows "handlers_agree k (composite_engine c n) (composite_engine c m)"
  using assms(3-5)
proof (induction "MAX_COMPOSITE_DEPTH - k" arbitrary: k n m rule: less_induct)
  case less
  from less.prems obtain n' m' where n: "n = Suc n'" and m: "m = Suc m'" by (cases n; cases m) auto
  have IH: "handlers_agree (Suc k) (composite_engine c n') (composite_engine c m')" if "k < MAX_COMPOSITE_DEPTH"
    by (rule less.hyps) (use that less.prems n m in auto)
  have "agrees (nested k (ctx_run_id ctx)) (invoke_handler (composite_engine c n) ctx) (invoke_handler (composite_engine c m) ctx)" for ctx
    using subflow_agrees [OF less.prems(1) IH same_composite] map_agrees [OF less.prems(1) IH same_composite]
    by (simp add: invoke_handler_def handler_get_def n m composite_handlers del: composite_engine.simps)
  then show ?case
    using composite_engine_detached [OF assms(1,2)] same_composite by (simp add: handlers_agree_def)
qed

end
