(* ===== verification/Flow_Composite_Properties.thy ===== *)
theory Flow_Composite_Properties
  imports Flow_Nesting Flow_Example
begin

text \<open>
  The properties of composite nodes: child runs leave every existing run alone, the depth of nesting
  is bounded, sub-flows and maps stay within the parent's budget, and a map collects its children in
  the order of the items. The witnesses run a sub-flow node and a map node over a flow with a single node.
\<close>

subsection \<open>A run with composite nodes\<close>

definition no_agents :: agent_services where
  "no_agents = \<lparr>agent_resolve = (\<lambda>_ _. None), agent_local_handlers = (\<lambda>_. None), agent_plugin_paths = None,
     agent_load_handler = (\<lambda>_ _. 0), agent_run = (\<lambda>_ _ _ _ _. raise_a (OtherException ''agent''))\<rparr>"

definition parent_config :: composite_config where
  "parent_config = \<lparr>cc_env = example_env, cc_lib = example_lib,
     cc_texts = \<lparr>flow_exc_text = (\<lambda>_. ''error''), expr_exc_text = (\<lambda>_. ''error'')\<rparr>, cc_schedule = (\<lambda>_ ts. rev ts),
     cc_callables = example_callables, cc_agents = no_agents, cc_max_steps = 1000\<rparr>"

lemma parent_config_detached:
  "detached (callable_handler (cc_callables parent_config))" "detached (agent_handler (cc_agents parent_config))"
proof -
  show "detached (callable_handler (cc_callables parent_config))"
    by (simp add: parent_config_def example_callables_def callable.handler_detached)
  show "detached (agent_handler (cc_agents parent_config))"
    by (auto simp: detached_def parent_config_def no_agents_def agent_handler_def intro!: preserves_intros split: option.split)
qed

definition parent_run :: flow_run_record where
  "parent_run = \<lparr>run_id = ''0'', run_flow_id = ''demo/parent'', run_flow_version = ''1.0.0'', run_tenant_id = ''t'',
     run_status = ''running'', stop_reason = [], run_trigger = [],
     run_input = [(KStr ''xs'', PList [PBool True, PBool False])], run_state = start_state ''each'' None, run_output = None, parent_run_id = None, created_at = 0, updated_at = 0\<rparr>"

definition child_raw :: pydict where
  "child_raw = [(KStr ''schemaVersion'', PStr ''1''), (KStr ''id'', PStr ''demo/child''), (KStr ''version'', PStr ''1.0.0''),
     (KStr ''hostApi'', PStr ''*''), (KStr ''edges'', PList []),
     (KStr ''nodes'', PList [PDict [(KStr ''id'', PStr ''only''), (KStr ''type'', PStr ''tool''), (KStr ''ref'', PStr ''demo/tool'')]])]"

definition parent_world :: world where
  "parent_world = example_world\<lparr>tbl_runs := [parent_run], uuid_supply := 1, tbl_flows := [(''demo/child'', ''1.0.0'', child_raw)]\<rparr>"

definition parent_context :: "flow_node \<Rightarrow> node_context" where
  "parent_context n = \<lparr>ctx_manifest = example_manifest, ctx_node = n, ctx_run_id = ''0'', ctx_tenant_id = ''t'',
     ctx_input = example_input, ctx_state = start_state ''each'' None, ctx_budgets = DEFAULT_FLOW_BUDGETS, ctx_deadline = 1000\<rparr>"

definition child_ref :: "flow_node_ref option" where
  "child_ref = Some \<lparr>ref_id = ''demo/child'', version_range = ''*''\<rparr>"

definition subflow_node :: flow_node where
  "subflow_node = example_node ''sub'' ''subflow'' child_ref [] []"

definition map_node :: flow_node where
  "map_node = (example_node ''each'' ''map'' child_ref [(KStr ''ok'', PStr ''{{ item }}'')] [])
     \<lparr>over := Some ''{{ flow.input.xs }}''\<rparr>"

lemma parent_store: "store_ok parent_world" "exists_run ''0'' parent_world" "get_run ''0'' None parent_world = Some parent_run"
proof -
  have id0: "''0'' = str_nat 0" by code_simp
  have "ids_of parent_world = {''0''}" by (auto simp: ids_of_def parent_world_def parent_run_def example_world_def)
  then have "ids_fresh parent_world" unfolding ids_fresh_def id0 by (auto simp: parent_world_def)
  moreover have "store_inv parent_world"
    by (simp add: store_inv_def contiguous_def run_row_ok_def parent_world_def parent_run_def example_world_def RUN_STATUSES_def
        start_state_simps(2) [unfolded state_ok_def])
  ultimately show "store_ok parent_world" by (simp add: store_ok_def)
  show "get_run ''0'' None parent_world = Some parent_run" by (simp add: get_run_def parent_world_def parent_run_def)
  then show "exists_run ''0'' parent_world" by (simp add: exists_run_def)
qed

subsection \<open>Isolation and nesting\<close>

text \<open>
  C34. Starting a run never touches another one: with the default handlers, composite nodes nested to
  any level included, every run that exists keeps its row, its steps and its events whether the start
  succeeds, fails or raises, and the handlers satisfy the contract that the properties of runs assume.
\<close>

theorem start_run_leaves_other_runs:
  assumes "detached (callable_handler (cc_callables c))" and "detached (agent_handler (cc_agents c))"
    and "store_inv w" and "ids_fresh w" and "get_run q None w = Some R"
  shows "view q (snd (start_run (composite_engine c n) fid rng inp trig tenant parent True cap w)) = view q w \<and>
    handlers_isolated (eng_handlers (composite_engine c n))"
proof
  note d = composite_engine_detached [OF assms(1,2), of n]
  show "handlers_isolated (eng_handlers (composite_engine c n))" by (rule detached_isolated [OF d])
  have "wp (start_run (composite_engine c n) fid rng inp trig tenant parent True cap) (\<lambda>_. stays w) (\<lambda>_. stays w) w"
    by (rule wp_mono [OF start_run_child [OF d]]) (use assms in \<open>auto simp: store_ok_def child_of_def\<close>)
  then have "stays w (snd (start_run (composite_engine c n) fid rng inp trig tenant parent True cap w))"
    by (auto simp: wp_def split: prod.splits sum.splits)
  then show "view q (snd (start_run (composite_engine c n) fid rng inp trig tenant parent True cap w)) = view q w"
    using assms(5) by (auto simp: stays_def exists_run_def)
qed

theorem start_run_leaves_other_runs_witness:
  "view ''0'' (snd (start_run (composite_engine parent_config 3) ''demo/child'' ''*'' example_input None ''t'' None True None parent_world)) =
     view ''0'' parent_world"
  using start_run_leaves_other_runs [OF parent_config_detached _ _ parent_store(3)] parent_store(1) by (simp add: store_ok_def)

text \<open>
  C35. Recursive sub-flows end: more levels of nesting than the depth cap allows make no difference to
  any run, so an engine that runs its own children behaves as one with seventeen levels.
\<close>

theorem composite_nesting_bounded:
  assumes "detached (callable_handler (cc_callables c))" and "detached (agent_handler (cc_agents c))"
    and "store_inv w" and "ids_fresh w" and "MAX_COMPOSITE_DEPTH < n"
  shows "start_run (composite_engine c n) fid rng inp trig tenant parent True cap w =
    start_run (composite_engine c (MAX_COMPOSITE_DEPTH + 1)) fid rng inp trig tenant parent True cap w"
  by (rule start_run_agrees [OF composite_agree [OF assms(1,2), of 0]])
    (use assms in \<open>simp_all add: store_ok_def child_depth_def\<close>)

theorem composite_nesting_bounded_witness:
  "start_run (composite_engine parent_config 100) ''demo/child'' ''*'' example_input None ''t'' None True None parent_world =
   start_run (composite_engine parent_config (MAX_COMPOSITE_DEPTH + 1)) ''demo/child'' ''*'' example_input None ''t'' None True None parent_world"
  by (rule composite_nesting_bounded [OF parent_config_detached])
    (use parent_store(1) in \<open>simp_all add: store_ok_def MAX_COMPOSITE_DEPTH_def\<close>)

text \<open>
  A composite node of a run with sixteen or more ancestors is refused before anything is written,
  and the guard lets every other run pass.
\<close>

theorem composite_depth_guard:
  "if \<exists>b. (parent_link w ^^ 16) (ctx_run_id ctx) b
   then (\<exists>msg. subflow_handler tx (Some eng) ctx w = (Inl (FlowNodeError msg), w) \<and>
          map_handler env tx sched (Some eng) ctx w = (Inl (FlowNodeError msg), w))
   else ensure_depth ctx w = (Inr (), w)"
proof -
  let ?e = "FlowNodeError (node_label (ctx_node ctx) @ '': max composite depth '' @ str_nat MAX_COMPOSITE_DEPTH @
      '' exceeded; refusing to start another child flow (possible recursive sub-flow)'')"
  have eq: "ensure_depth ctx w = (if \<exists>b. (parent_link w ^^ 16) (ctx_run_id ctx) b then (Inl ?e, w) else (Inr (), w))"
    using parent_depth_ge [of MAX_COMPOSITE_DEPTH "MAX_COMPOSITE_DEPTH + 1" w "ctx_run_id ctx"]
    by (auto simp: ensure_depth_def bind_a_def gets_a_def raise_a_def return_a_def has_ancestors_def MAX_COMPOSITE_DEPTH_def not_less
        less_Suc_eq_le)
  then show ?thesis
    by (auto simp: subflow_handler_def map_handler_def composite_service_def then_a_def bind_a_def Let_def)
qed

subsection \<open>Budgets\<close>

lemma child_cap_wp:
  assumes "store_ok w"
  shows "wp (child_cap ctx b t c) (\<lambda>cap w'. stays w w' \<and>
    max_cost_usd cap = max 0 (max_cost_usd b - c) \<and> max_tokens cap = max 0 (py_int (of_int (max_tokens b) - t))) E w"
  unfolding child_cap_def by (rule wp_bindI [OF wall_clock_wp [OF assms]]) simp

lemma remaining_bound:
  assumes "t \<le> of_int b" and "m \<le> of_int (max 0 (py_int (of_int b - t)))"
  shows "t + m \<le> (of_int b :: rat)"
proof -
  have "max 0 (py_int (of_int b - t)) = \<lfloor>of_int b - t\<rfloor>" using assms(1) by (simp add: py_int_def)
  then have "m \<le> of_int b - t" using assms(2) of_int_floor_le [of "of_int b - t"] by linarith
  then show ?thesis by linarith
qed

lemma resolve_child_wp: "wp (resolve_child_flow tx eng ctx) (\<lambda>_ w'. w' = w) (\<lambda>_ _. True) w"
  by (auto simp: resolve_child_flow_def split: option.split sum.split flow_exc.split)

lemma subflow_handler_wp:
  assumes eng: "handlers_detached (eng_handlers eng)" and ok: "store_ok w"
    and base: "tokens (metrics_of (ctx_state ctx)) \<le> of_int (max_tokens (ctx_budgets ctx))"
      "cost_usd (metrics_of (ctx_state ctx)) \<le> max_cost_usd (ctx_budgets ctx)"
  shows "wp (subflow_handler tx (Some eng) ctx) (\<lambda>out w'. stays w w' \<and>
      tokens (metrics_of (ctx_state ctx)) + tokens (outcome_metrics out) \<le> of_int (max_tokens (ctx_budgets ctx)) \<and>
      cost_usd (metrics_of (ctx_state ctx)) + cost_usd (outcome_metrics out) \<le> max_cost_usd (ctx_budgets ctx) \<and>
      (\<exists>child. get_run (run_id child) None w' = Some child \<and> \<not> exists_run (run_id child) w \<and> run_status child = ''completed'' \<and>
         parent_run_id child = Some (ctx_run_id ctx) \<and> run_tenant_id child = ctx_tenant_id ctx \<and>
         json_doc (ctx_input ctx) = Some (run_input child) \<and> outcome_metrics out = metrics_of (run_state child) \<and>
         outcome_output out = dset (KStr ''childRunId'') (PStr (run_id child)) (child_output child)))
    (\<lambda>_ _. True) w"
  unfolding subflow_handler_def composite_service_def option.case bind_return
proof (rule wp_thenI [where ?Q0.0 = "\<lambda>_ w'. w' = w"], goal_cases)
  case 1
  show ?case by (simp add: ensure_depth_wp)
next
  case (2 x w')
  show ?case
  proof (rule wp_bindI [OF resolve_child_wp], goal_cases)
    case (1 p w1)
    with 2 have w1: "w1 = w" by simp
    obtain m ref where p: "p = (m, ref)" by fastforce
    show ?case
      unfolding p prod.case w1 parent_budgets_def
    proof (rule wp_bindI [OF child_cap_wp [OF ok]], goal_cases)
      case (1 cap w2)
      then have st: "stays w w2" and cap: "max_cost_usd cap = max 0 (max_cost_usd (ctx_budgets ctx) - cost_usd (metrics_of (ctx_state ctx)))"
        "max_tokens cap = max 0 (py_int (of_int (max_tokens (ctx_budgets ctx)) - tokens (metrics_of (ctx_state ctx))))" by auto
      have "store_ok w2" using st by (simp add: stays_def)
      note start = wp_mono [where Q' = Q and Q = Q and E' = "\<lambda>_ _. True" for Q, OF start_child_wp [OF eng this]]
      show ?case
      proof (rule wp_bindI [OF start], goal_cases)
        case (3 child w3)
        then have c: "child_of w2 (ctx_tenant_id ctx) (Some (ctx_run_id ctx)) (default_trigger (Some (subflow_trigger ctx))) (ctx_input ctx) (Some cap) child w3" .
        then have new: "\<not> exists_run (run_id child) w" using stays_exists [OF st] by (auto simp: child_of_def)
        have within: "within_budgets cap (run_state child)" if "run_status child = ''completed''" using c that by (simp add: child_of_def)
        have "tokens (metrics_of (ctx_state ctx)) + tokens (metrics_of (run_state child)) \<le> of_int (max_tokens (ctx_budgets ctx))"
          "cost_usd (metrics_of (ctx_state ctx)) + cost_usd (metrics_of (run_state child)) \<le> max_cost_usd (ctx_budgets ctx)"
          if "run_status child = ''completed''"
          using within [OF that] base remaining_bound [OF base(1), of "tokens (metrics_of (run_state child))"] by (auto simp: within_budgets_def cap)
        then show ?case
          using c new stays_trans [OF st] by (auto simp: child_of_def completed_outcome_def child_metrics_def)
      qed auto
    qed
  qed
qed

text \<open>
  A sub-flow node that succeeds has run one new child of the run, on the node's input and for the
  run's tenant, that is stored as completed; its output is the child's output with the child's run id,
  and what the child spent keeps the run within its budgets.
\<close>

theorem subflow_within_parent_budget:
  assumes "handlers_detached (eng_handlers eng)" and "store_inv w" and "ids_fresh w"
    and "tokens (metrics_of (ctx_state ctx)) \<le> of_int (max_tokens (ctx_budgets ctx))"
    and "cost_usd (metrics_of (ctx_state ctx)) \<le> max_cost_usd (ctx_budgets ctx)"
    and "subflow_handler tx (Some eng) ctx w = (Inr out, w')"
  shows "tokens (metrics_of (ctx_state ctx)) + tokens (outcome_metrics out) \<le> of_int (max_tokens (ctx_budgets ctx)) \<and>
    cost_usd (metrics_of (ctx_state ctx)) + cost_usd (outcome_metrics out) \<le> max_cost_usd (ctx_budgets ctx) \<and>
    (\<exists>child. get_run (run_id child) None w' = Some child \<and> get_run (run_id child) None w = None \<and> run_status child = ''completed'' \<and>
       parent_run_id child = Some (ctx_run_id ctx) \<and> run_tenant_id child = ctx_tenant_id ctx \<and>
       json_doc (ctx_input ctx) = Some (run_input child) \<and> outcome_metrics out = metrics_of (run_state child) \<and>
       outcome_output out = dset (KStr ''childRunId'') (PStr (run_id child)) (child_output child))"
proof -
  have "store_ok w" using assms(2,3) by (simp add: store_ok_def)
  from wp_InrD [OF subflow_handler_wp [OF assms(1) this assms(4,5)] assms(6)] show ?thesis by (simp add: exists_run_def)
qed

lemma subflow_runs:
  "case subflow_handler (cc_texts parent_config) (Some (composite_engine parent_config 3)) (parent_context subflow_node) parent_world of
     (Inr out, w') \<Rightarrow> True | (Inl e, w') \<Rightarrow> False"
  by code_simp

theorem subflow_within_parent_budget_witness:
  "\<exists>out w' child. subflow_handler (cc_texts parent_config) (Some (composite_engine parent_config 3)) (parent_context subflow_node) parent_world =
      (Inr out, w') \<and> get_run (run_id child) None w' = Some child \<and> parent_run_id child = Some ''0''"
proof -
  obtain out w' where r: "subflow_handler (cc_texts parent_config) (Some (composite_engine parent_config 3)) (parent_context subflow_node)
      parent_world = (Inr out, w')"
    using subflow_runs by (auto split: prod.splits sum.splits)
  have "tokens (metrics_of (ctx_state (parent_context subflow_node))) \<le> of_int (max_tokens (ctx_budgets (parent_context subflow_node)))"
    "cost_usd (metrics_of (ctx_state (parent_context subflow_node))) \<le> max_cost_usd (ctx_budgets (parent_context subflow_node))"
    "ctx_run_id (parent_context subflow_node) = ''0''"
    by (simp_all add: parent_context_def start_state_def metrics_of_def zero_metrics_def DEFAULT_FLOW_BUDGETS_def)
  with subflow_within_parent_budget [OF composite_engine_detached [OF parent_config_detached] _ _ _ _ r] parent_store(1) r
  show ?thesis unfolding store_ok_def by metis
qed

subsection \<open>Maps\<close>

text \<open>
  C36. The token reservations of a map add up, in the floats the code computes with. Take whole token
  counts, budgets below \<open>2\<^sup>5\<^sup>3\<close> and any rounding that is exact on integers of that size; then, whatever
  the order in which branches are launched and completed and whatever their cost caps, what the run and
  its finished branches spent plus what the running branches may still spend is within the run's token
  budget, the reserved amount is the sum of the caps of the running branches, no sum of the ledger is
  rounded, and the rounded share of the next branch is its exact share. Nothing is said of costs, whose
  float sums can exceed the budget by a rounding error.
\<close>

theorem map_ledger_reserves:
  assumes "(token_step s)\<^sup>*\<^sup>* (initial_ledger (length (mp_items s))) led"
    and "tokens (mp_base s) \<in> \<nat>" and "tokens (mp_base s) \<le> of_int (max_tokens (mp_budgets s))"
    and "max_tokens (mp_budgets s) < 2 ^ 53" and "float_rounding rnd"
  shows "tokens (mp_base s) + led_children_tokens led + led_reserved_tokens led \<le> of_int (max_tokens (mp_budgets s)) \<and>
    led_reserved_tokens led = sum_list (map (\<lambda>t. of_int (max_tokens (task_cap t))) (led_pending led)) \<and>
    (\<forall>t\<in>set (led_pending led). 0 \<le> max_tokens (task_cap t)) \<and>
    rnd (led_children_tokens led) = led_children_tokens led \<and> rnd (led_reserved_tokens led) = led_reserved_tokens led \<and>
    rnd (tokens (mp_base s) + led_children_tokens led) = tokens (mp_base s) + led_children_tokens led \<and>
    float_share rnd s led = max_tokens (branch_cap s led secs)"
proof -
  have sums: "token_sums s led" using token_reach_keeps [OF assms(1,3)] by blast
  then show ?thesis
    using tokens_exact [OF assms(5) sums assms(2,4)] by (simp add: token_sums_def cap_tokens_def)
qed

definition sample_setup :: map_setup where
  "sample_setup = \<lparr>mp_env = example_env, mp_texts = cc_texts parent_config, mp_node = map_node, mp_items = [PBool True, PBool False],
     mp_state = [], mp_budgets = DEFAULT_FLOW_BUDGETS, mp_base = zero_metrics, mp_workers = 4\<rparr>"

text \<open>A rounding that is not the identity: down to multiples of \<open>2\<^sup>-\<^sup>6\<^sup>0\<close>.\<close>

definition grid :: "rat \<Rightarrow> rat" where
  "grid x = of_int \<lfloor>x * 2 ^ 60\<rfloor> / 2 ^ 60"

lemma grid_rounding: "float_rounding grid"
  unfolding float_rounding_def
proof (intro conjI allI impI)
  show "mono grid" by (rule monoI) (simp add: grid_def divide_right_mono floor_mono)
next
  fix z :: int
  have "of_int z * 2 ^ 60 = (of_int (z * 2 ^ 60) :: rat)" by simp
  then show "grid (of_int z) = of_int z" unfolding grid_def by (simp only: floor_of_int) simp
next
  fix x :: rat
  assume x: "1 / 2 \<le> x \<and> x \<le> 2 ^ 53"
  have "\<bar>of_int \<lfloor>x * 2 ^ 60\<rfloor> - x * 2 ^ 60\<bar> \<le> 1" by linarith
  then have "\<bar>grid x - x\<bar> \<le> 1 / 2 ^ 60" unfolding grid_def by (simp add: abs_le_iff field_simps)
  also have "\<dots> \<le> x / 2 ^ 53" using x by simp
  finally show "\<bar>grid x - x\<bar> \<le> x / 2 ^ 53" .
qed

theorem map_ledger_reserves_witness:
  "\<exists>led :: map_ledger. (token_step sample_setup)\<^sup>*\<^sup>* (initial_ledger 2) led \<and> led_pending led \<noteq> [] \<and> 0 < led_reserved_tokens led \<and>
     led_reserved_tokens led \<le> of_int (max_tokens DEFAULT_FLOW_BUDGETS) \<and>
     float_share grid sample_setup led = max_tokens (branch_cap sample_setup led 5)"
proof -
  let ?led = "initial_ledger (length (mp_items sample_setup))"
  let ?t = "\<lparr>task_index = led_next ?led, task_input = [(KStr ''ok'', PBool True)],
    task_cap = FlowBudgets 1 5 (max_tokens (branch_cap sample_setup ?led 5))\<rparr>"
  have "branch_input sample_setup (mp_items sample_setup ! led_next ?led) = Inr [(KStr ''ok'', PBool True)]" by code_simp
  then have step: "(token_step sample_setup)\<^sup>*\<^sup>* ?led (grant ?t ?led)"
    by (intro r_into_rtranclp token_step.Launch) (simp_all add: sample_setup_def initial_ledger_def)
  have "led_reserved_tokens (grant ?t ?led) \<le> of_int (max_tokens DEFAULT_FLOW_BUDGETS)"
    "float_share grid sample_setup (grant ?t ?led) = max_tokens (branch_cap sample_setup (grant ?t ?led) 5)"
    using map_ledger_reserves [OF step _ _ _ grid_rounding, of 5]
    by (simp_all add: sample_setup_def zero_metrics_def DEFAULT_FLOW_BUDGETS_def grant_def initial_ledger_def)
  moreover have "led_pending (grant ?t ?led) \<noteq> []" by (simp add: grant_def)
  moreover have "0 < led_reserved_tokens (grant ?t ?led)" by code_simp
  moreover have "initial_ledger 2 = ?led" by (simp add: sample_setup_def numeral_2_eq_2)
  ultimately show ?thesis using step by metis
qed

definition map_state :: "node_context \<Rightarrow> world \<Rightarrow> pydict" where
  "map_state ctx w = [(KStr ''flow'', PDict [(KStr ''input'', PDict (case get_run (ctx_run_id ctx) None w of Some r \<Rightarrow> run_input r | None \<Rightarrow> []))]),
     (KStr ''nodes'', PDict (nodes_of (ctx_state ctx)))]"

definition setup_of :: "py_env \<Rightarrow> exc_texts \<Rightarrow> node_context \<Rightarrow> pyval list \<Rightarrow> pydict \<Rightarrow> map_setup" where
  "setup_of env tx ctx items st = \<lparr>mp_env = env, mp_texts = tx, mp_node = ctx_node ctx, mp_items = items, mp_state = st,
     mp_budgets = parent_budgets ctx, mp_base = metrics_of (ctx_state ctx), mp_workers = nat (map_workers (ctx_node ctx))\<rparr>"

lemma setup_of_simps [simp]:
  "mp_items (setup_of env tx ctx items st) = items" "mp_workers (setup_of env tx ctx items st) = nat (map_workers (ctx_node ctx))"
  "mp_base (setup_of env tx ctx items st) = metrics_of (ctx_state ctx)" "mp_budgets (setup_of env tx ctx items st) = ctx_budgets ctx"
  by (simp_all add: setup_of_def parent_budgets_def)

lemma base_eval_state_wp: "wp (base_eval_state ctx) (\<lambda>st w'. st = map_state ctx w \<and> w' = w) E w"
  by (simp add: base_eval_state_def map_state_def)

lemma map_collection_wp:
  "wp (lift_a (map_collection env tx n st)) (\<lambda>items w'. map_collection env tx n st = Inr items \<and> w' = w) (\<lambda>_ _. True) w"
  by (simp split: sum.split)

lemma map_handler_wp:
  assumes eng: "handlers_detached (eng_handlers eng)" and ok: "store_ok w"
  shows "wp (map_handler env tx sched (Some eng) ctx) (\<lambda>out w'. \<exists>items led.
      map_collection env tx (ctx_node ctx) (map_state ctx w) = Inr items \<and> stays w w' \<and>
      loop_inv ctx (setup_of env tx ctx items (map_state ctx w)) led w' \<and>
      unsettled (setup_of env tx ctx items (map_state ctx w)) led = 0 \<and> out = map_outcome (length items) led) (\<lambda>_ _. True) w"
  unfolding map_handler_def Let_def composite_service_def option.case bind_return
proof (rule wp_thenI [where ?Q0.0 = "\<lambda>_ w'. w' = w"], goal_cases)
  case 1
  show ?case by (simp add: ensure_depth_wp)
next
  case (2 x w')
  show ?case
  proof (rule wp_bindI [OF resolve_child_wp], goal_cases)
    case (1 p w1)
    with 2 have w1: "w1 = w" by simp
    obtain m ref where p: "p = (m, ref)" by fastforce
    have rounds: "wp (map_rounds (length items + 1) sched (setup_of env tx ctx items (map_state ctx w)) eng ctx fid rng
          (initial_ledger (length items)))
        (\<lambda>led w'. stays w w' \<and> loop_inv ctx (setup_of env tx ctx items (map_state ctx w)) led w' \<and>
          unsettled (setup_of env tx ctx items (map_state ctx w)) led = 0) (\<lambda>_. stays w) w"
      if "0 < map_workers (ctx_node ctx)" for items fid rng
      by (rule map_rounds_wp [OF eng])
        (use that ok map_children_start in \<open>auto simp: loop_inv_def unsettled_def initial_ledger_def\<close>)
    have "wp (bind_a (map_rounds (length items + 1) sched (setup_of env tx ctx items (map_state ctx w)) eng ctx fid rng
          (initial_ledger (length items))) (\<lambda>led. return_a (map_outcome (length items) led)))
        (\<lambda>out w'. \<exists>items led.
      map_collection env tx (ctx_node ctx) (map_state ctx w) = Inr items \<and> stays w w' \<and>
      loop_inv ctx (setup_of env tx ctx items (map_state ctx w)) led w' \<and>
      unsettled (setup_of env tx ctx items (map_state ctx w)) led = 0 \<and> out = map_outcome (length items) led) (\<lambda>_ _. True) w"
      if "map_collection env tx (ctx_node ctx) (map_state ctx w) = Inr items" "0 < map_workers (ctx_node ctx)" for items fid rng
      using rounds [OF that(2), of items fid rng] that(1) unfolding wp_bind by (elim wp_mono) auto
    then show ?case
      unfolding p prod.case w1 setup_of_def [symmetric]
      by (intro wp_bindI [OF base_eval_state_wp] wp_bindI [OF map_collection_wp]) (auto simp del: wp_bind)
  qed
qed

lemma complete_ledger:
  assumes "loop_inv ctx s led w" and "unsettled s led = 0"
  obtains rs where "length rs = length (mp_items s)" "\<forall>i<length rs. item_child ctx s i (rs ! i) w"
    "led_outputs led = map (\<lambda>r. Some (child_output r)) rs" "led_run_ids led = map (\<lambda>r. Some (run_id r)) rs"
    "led_children_tokens led = sum_list (map (\<lambda>r. tokens (child_metrics r)) rs)"
    "led_children_cost led = sum_list (map (\<lambda>r. cost_usd (child_metrics r)) rs)"
proof -
  obtain ch where ch: "map_children ctx s ch led w" and shape: "led_shape s led"
    using assms(1) ledger_reach_keeps by (auto simp: loop_inv_def)
  let ?n = "length (mp_items s)"
  have "led_next led = ?n" "length (led_pending led) = 0" using shape assms(2) unfolding led_shape_def unsettled_def by linarith+
  then have all: "settled_items led = {..<?n}" by (simp add: settled_items_def)
  let ?rs = "map ch [0..<?n]"
  have "led_outputs led = map (\<lambda>r. Some (child_output r)) ?rs" "led_run_ids led = map (\<lambda>r. Some (run_id r)) ?rs"
    by (rule nth_equalityI; use shape ch in \<open>simp add: led_shape_def map_children_def all\<close>)+
  moreover have "(\<Sum>i<?n. f (ch i)) = sum_list (map f ?rs)" for f :: "flow_run_record \<Rightarrow> rat"
    by (simp add: sum_list_distinct_conv_sum_set atLeast0LessThan o_def)
  ultimately show ?thesis
    using ch by (intro that [of ?rs]) (simp_all add: map_children_def all)
qed

lemma item_children_distinct:
  assumes "\<forall>i<length rs. item_child ctx s i (rs ! i) w"
  shows "distinct (map run_id rs)"
  unfolding distinct_conv_nth
proof (intro allI impI)
  fix i j
  assume ij: "i < length (map run_id rs)" "j < length (map run_id rs)" "i \<noteq> j"
  then have "item_child ctx s i (rs ! i) w" "item_child ctx s j (rs ! j) w" using assms by auto
  then have "run_id (rs ! i) = run_id (rs ! j) \<Longrightarrow> map_trigger ctx i = map_trigger ctx j"
    by (auto simp: item_child_def)
  then show "map run_id rs ! i \<noteq> map run_id rs ! j" using ij by (auto simp: map_trigger_def)
qed

text \<open>
  A map node that succeeds has evaluated its collection to a list and has run one child for each
  item, in the order of the items whatever the order in which the branches finish: the children are
  distinct stored runs, completed, started by this run for this item on the bindings rendered with it.
  The output lists their outputs and run ids, the metrics are the sums of theirs, and a run that was
  within its budgets stays within them.
\<close>

theorem map_collects_in_order:
  assumes "handlers_detached (eng_handlers eng)" and "store_inv w" and "ids_fresh w"
    and "map_handler env tx sched (Some eng) ctx w = (Inr out, w')"
  shows "\<exists>items rs. map_collection env tx (ctx_node ctx) (map_state ctx w) = Inr items \<and> length rs = length items \<and>
    distinct (map run_id rs) \<and>
    (\<forall>i<length items. get_run (run_id (rs ! i)) None w' = Some (rs ! i) \<and> run_status (rs ! i) = ''completed'' \<and>
       parent_run_id (rs ! i) = Some (ctx_run_id ctx) \<and> run_tenant_id (rs ! i) = ctx_tenant_id ctx \<and>
       run_trigger (rs ! i) = map_trigger ctx i \<and>
       (\<exists>inp. branch_input (setup_of env tx ctx items (map_state ctx w)) (items ! i) = Inr inp \<and> json_doc inp = Some (run_input (rs ! i)))) \<and>
    outcome_output out = [(KStr ''items'', PList (map (\<lambda>r. PDict (child_output r)) rs)), (KStr ''count'', PInt (int (length items))),
      (KStr ''childRunIds'', PList (map (\<lambda>r. PStr (run_id r)) rs))] \<and>
    tokens (outcome_metrics out) = sum_list (map (\<lambda>r. tokens (metrics_of (run_state r))) rs) \<and>
    cost_usd (outcome_metrics out) = sum_list (map (\<lambda>r. cost_usd (metrics_of (run_state r))) rs) \<and>
    (tokens (metrics_of (ctx_state ctx)) \<le> of_int (max_tokens (ctx_budgets ctx)) \<and>
     cost_usd (metrics_of (ctx_state ctx)) \<le> max_cost_usd (ctx_budgets ctx) \<longrightarrow>
       tokens (metrics_of (ctx_state ctx)) + tokens (outcome_metrics out) \<le> of_int (max_tokens (ctx_budgets ctx)) \<and>
       cost_usd (metrics_of (ctx_state ctx)) + cost_usd (outcome_metrics out) \<le> max_cost_usd (ctx_budgets ctx))"
proof -
  have ok: "store_ok w" using assms(2,3) by (simp add: store_ok_def)
  obtain items led where items: "map_collection env tx (ctx_node ctx) (map_state ctx w) = Inr items"
    and inv: "loop_inv ctx (setup_of env tx ctx items (map_state ctx w)) led w'"
    and fin: "unsettled (setup_of env tx ctx items (map_state ctx w)) led = 0" and out: "out = map_outcome (length items) led"
    using wp_InrD [OF map_handler_wp [OF assms(1) ok] assms(4)] by blast
  let ?s = "setup_of env tx ctx items (map_state ctx w)"
  obtain rs where rs: "length rs = length (mp_items ?s)" "\<forall>i<length rs. item_child ctx ?s i (rs ! i) w'"
    "led_outputs led = map (\<lambda>r. Some (child_output r)) rs" "led_run_ids led = map (\<lambda>r. Some (run_id r)) rs"
    "led_children_tokens led = sum_list (map (\<lambda>r. tokens (child_metrics r)) rs)"
    "led_children_cost led = sum_list (map (\<lambda>r. cost_usd (child_metrics r)) rs)"
    by (rule complete_ledger [OF inv fin])
  have sums: "led_sums ?s led" using inv ledger_reach_keeps by (auto simp: loop_inv_def)
  have budget: "tokens (metrics_of (ctx_state ctx)) + led_children_tokens led \<le> of_int (max_tokens (ctx_budgets ctx)) \<and>
      cost_usd (metrics_of (ctx_state ctx)) + led_children_cost led \<le> max_cost_usd (ctx_budgets ctx)" if "base_within ?s"
    using sums cap_sums_nonneg [OF sums] that by (auto simp: led_sums_def)
  have out': "outcome_output out = [(KStr ''items'', PList (map (\<lambda>r. PDict (child_output r)) rs)), (KStr ''count'', PInt (int (length items))),
      (KStr ''childRunIds'', PList (map (\<lambda>r. PStr (run_id r)) rs))]"
    "tokens (outcome_metrics out) = led_children_tokens led" "cost_usd (outcome_metrics out) = led_children_cost led"
    by (simp_all add: out map_outcome_def completed_outcome_def rs(3,4) o_def opt_str_def)
  show ?thesis
    by (rule exI [of _ items], rule exI [of _ rs])
      (use items rs(1,2,5,6) item_children_distinct [OF rs(2)] budget in
        \<open>simp add: out' item_child_def child_metrics_def base_within_def\<close>)
qed

lemma map_runs:
  "case map_handler example_env (cc_texts parent_config) (\<lambda>_ ts. rev ts) (Some (composite_engine parent_config 2)) (parent_context map_node)
       parent_world of
     (Inr out, w') \<Rightarrow> True | (Inl e, w') \<Rightarrow> False"
  by code_simp

theorem map_collects_in_order_witness:
  "\<exists>out w' (rs :: flow_run_record list). map_handler example_env (cc_texts parent_config) (\<lambda>_ ts. rev ts) (Some (composite_engine parent_config 2))
      (parent_context map_node) parent_world = (Inr out, w') \<and> length rs = 2 \<and>
      (\<forall>i<2. parent_run_id (rs ! i) = Some ''0'' \<and> run_trigger (rs ! i) = map_trigger (parent_context map_node) i)"
proof -
  obtain out w' where r: "map_handler example_env (cc_texts parent_config) (\<lambda>_ ts. rev ts) (Some (composite_engine parent_config 2))
      (parent_context map_node) parent_world = (Inr out, w')"
    using map_runs by (auto split: prod.splits sum.splits)
  have "map_collection example_env (cc_texts parent_config) map_node (map_state (parent_context map_node) parent_world) =
      Inr [PBool True, PBool False]" by code_simp
  then have items: "map_collection example_env (cc_texts parent_config) (ctx_node (parent_context map_node))
      (map_state (parent_context map_node) parent_world) = Inr [PBool True, PBool False]" by (simp add: parent_context_def)
  have id: "ctx_run_id (parent_context map_node) = ''0''" by (simp add: parent_context_def)
  have ok: "store_inv parent_world" "ids_fresh parent_world" using parent_store(1) by (simp_all add: store_ok_def)
  obtain items' and rs :: "flow_run_record list" where rs: "map_collection example_env (cc_texts parent_config) (ctx_node (parent_context map_node))
      (map_state (parent_context map_node) parent_world) = Inr items'" "length rs = length items'"
    "\<forall>i<length items'. parent_run_id (rs ! i) = Some (ctx_run_id (parent_context map_node)) \<and>
       run_trigger (rs ! i) = map_trigger (parent_context map_node) i"
    using map_collects_in_order [OF composite_engine_detached [OF parent_config_detached] ok r]
    by (elim exE conjE) (rule that, assumption, assumption, simp)
  then have "length items' = 2" using items by auto
  with r rs id show ?thesis by (intro exI [of _ out] exI [of _ w'] exI [of _ rs]) simp
qed

end
