(* ===== verification/Quota_Contracts.thy ===== *)
theory Quota_Contracts
  imports Py_Value
begin

text \<open>
  Tenant quotas and run budgets (\<^verbatim>\<open>backend/quotas/contracts.py\<close>,
  \<^verbatim>\<open>backend/quotas/reasoning_budget.py\<close>): the typed limits with the checks of their constructors,
  the narrowing of budgets, which is the infimum of an order in which an absent limit is the top,
  the calendar window of monthly limits and the document in which a policy is stored.
\<close>

subsection \<open>Resources, reasons and errors\<close>

datatype quota_resource = CONCURRENT_RUNS | STORAGE_BYTES | MONTHLY_TOKENS | MONTHLY_COST | REQUEST_RATE
  | RUN_TOKENS | RUN_COST | RUN_WALL_CLOCK | RUN_STEPS

datatype quota_denial_reason = LIMIT_EXCEEDED | MISSING_POLICY | UNMETERED_RESULT | UNKNOWN_MODEL_PRICE
  | LEASE_UNAVAILABLE

fun quota_resource_value :: "quota_resource \<Rightarrow> string" where
  "quota_resource_value CONCURRENT_RUNS = ''concurrent_runs''"
| "quota_resource_value STORAGE_BYTES = ''storage_bytes''"
| "quota_resource_value MONTHLY_TOKENS = ''monthly_tokens''"
| "quota_resource_value MONTHLY_COST = ''monthly_cost''"
| "quota_resource_value REQUEST_RATE = ''request_rate''"
| "quota_resource_value RUN_TOKENS = ''run_tokens''"
| "quota_resource_value RUN_COST = ''run_cost''"
| "quota_resource_value RUN_WALL_CLOCK = ''run_wall_clock''"
| "quota_resource_value RUN_STEPS = ''run_steps''"

text \<open>
  What the quota code raises: a limit that is not positive (\<open>ValueError\<close>, with the name of the
  field), an empty tenant, a ratio or version out of range, a missing key of a stored document, a
  year without a successor, a stale version, a missing policy and an exceeded quota.
\<close>

datatype quota_error =
    LimitNotPositive string int
  | EmptyTenant
  | RatioOutOfRange int
  | VersionNotPositive int
  | MissingKey string
  | YearOutOfRange int
  | VersionMismatch string int int
  | QuotaPolicyMissing string
  | QuotaExceeded quota_resource quota_denial_reason int int

subsection \<open>Money\<close>

definition MICROS_PER_USD :: int where "MICROS_PER_USD = 1000000"

text \<open>\<open>ROUND_HALF_UP\<close> rounds half away from zero; the decimals are exact rationals.\<close>

definition round_half_up :: "rat \<Rightarrow> int" where
  "round_half_up q = (if 0 \<le> q then \<lfloor>q + 1 / 2\<rfloor> else - \<lfloor>1 / 2 - q\<rfloor>)"

definition usd_to_micros :: "rat \<Rightarrow> int" where
  "usd_to_micros amount = round_half_up (amount * of_int MICROS_PER_USD)"

subsection \<open>Run budgets\<close>

datatype run_budget_limits = RunBudgetLimits
  (rb_max_tokens: "int option")
  (rb_max_cost_microusd: "int option")
  (rb_max_wall_clock_ms: "int option")
  (rb_max_steps: "int option")

text \<open>The checks of \<open>__post_init__\<close>, in the order of the fields.\<close>

fun check_limits :: "(string \<times> int option) list \<Rightarrow> (quota_error, unit) result" where
  "check_limits [] = Inr ()"
| "check_limits ((name, value) # rest) =
     (case value of
        Some v \<Rightarrow> if v \<le> 0 then Inl (LimitNotPositive name v) else check_limits rest
      | None \<Rightarrow> check_limits rest)"

definition run_budget_post_init :: "run_budget_limits \<Rightarrow> (quota_error, unit) result" where
  "run_budget_post_init b = check_limits
     [(''max_tokens'', rb_max_tokens b), (''max_cost_microusd'', rb_max_cost_microusd b),
      (''max_wall_clock_ms'', rb_max_wall_clock_ms b), (''max_steps'', rb_max_steps b)]"

definition make_run_budget :: "run_budget_limits \<Rightarrow> (quota_error, run_budget_limits) result" where
  "make_run_budget b = bind_r (run_budget_post_init b) (\<lambda>_. Inr b)"

fun min_limit :: "int option \<Rightarrow> int option \<Rightarrow> int option" where
  "min_limit None b = b"
| "min_limit (Some a) None = Some a"
| "min_limit (Some a) (Some b) = Some (min a b)"

definition narrow_budget :: "run_budget_limits \<Rightarrow> run_budget_limits \<Rightarrow> (quota_error, run_budget_limits) result" where
  "narrow_budget parent requested = make_run_budget (RunBudgetLimits
     (min_limit (rb_max_tokens parent) (rb_max_tokens requested))
     (min_limit (rb_max_cost_microusd parent) (rb_max_cost_microusd requested))
     (min_limit (rb_max_wall_clock_ms parent) (rb_max_wall_clock_ms requested))
     (min_limit (rb_max_steps parent) (rb_max_steps requested)))"

record usage_delta =
  ud_tokens :: int
  ud_cost_microusd :: int
  ud_steps :: int
  ud_wall_clock_ms :: int

record budget_snapshot =
  bs_limits :: run_budget_limits
  bs_consumed_tokens :: int
  bs_consumed_cost_microusd :: int
  bs_consumed_steps :: int
  bs_elapsed_wall_clock_ms :: int
  bs_reserved_tokens :: int
  bs_reserved_cost_microusd :: int

fun remaining_limit :: "int option \<Rightarrow> int \<Rightarrow> int \<Rightarrow> int option" where
  "remaining_limit None consumed reserved = None"
| "remaining_limit (Some limit) consumed reserved = Some (max 0 (limit - consumed - reserved))"

definition budget_remaining :: "budget_snapshot \<Rightarrow> (quota_error, run_budget_limits) result" where
  "budget_remaining s = make_run_budget (RunBudgetLimits
     (remaining_limit (rb_max_tokens (bs_limits s)) (bs_consumed_tokens s) (bs_reserved_tokens s))
     (remaining_limit (rb_max_cost_microusd (bs_limits s)) (bs_consumed_cost_microusd s) (bs_reserved_cost_microusd s))
     (remaining_limit (rb_max_wall_clock_ms (bs_limits s)) (bs_elapsed_wall_clock_ms s) 0)
     (remaining_limit (rb_max_steps (bs_limits s)) (bs_consumed_steps s) 0))"

subsection \<open>Narrowing a budget of the reasoning engine\<close>

record reasoning_budget =
  rg_tokens :: int
  rg_cost_usd :: rat
  rg_wall_clock_ms :: int
  rg_max_steps :: int

definition narrow_reasoning_budget :: "run_budget_limits \<Rightarrow> reasoning_budget \<Rightarrow> reasoning_budget" where
  "narrow_reasoning_budget d requested = \<lparr>
     rg_tokens = (case rb_max_tokens d of None \<Rightarrow> rg_tokens requested | Some m \<Rightarrow> min (rg_tokens requested) m),
     rg_cost_usd = (case rb_max_cost_microusd d of None \<Rightarrow> rg_cost_usd requested
        | Some m \<Rightarrow> min (rg_cost_usd requested) (of_int m / of_int MICROS_PER_USD)),
     rg_wall_clock_ms = (case rb_max_wall_clock_ms d of None \<Rightarrow> rg_wall_clock_ms requested
        | Some m \<Rightarrow> min (rg_wall_clock_ms requested) m),
     rg_max_steps = (case rb_max_steps d of None \<Rightarrow> rg_max_steps requested | Some m \<Rightarrow> min (rg_max_steps requested) m)\<rparr>"

subsection \<open>Tenant policies\<close>

definition DEFAULT_WARNING_RATIO_BASIS_POINTS :: int where "DEFAULT_WARNING_RATIO_BASIS_POINTS = 8000"

record tenant_quota_policy =
  tp_tenant_id :: string
  tp_max_concurrent_runs :: int
  tp_max_storage_bytes :: int
  tp_monthly_token_limit :: int
  tp_monthly_cost_microusd :: int
  tp_requests_per_second :: int
  tp_default_run_budget :: run_budget_limits
  tp_warning_ratio_basis_points :: int
  tp_version :: int

definition policy_post_init :: "tenant_quota_policy \<Rightarrow> (quota_error, unit) result" where
  "policy_post_init p =
     (if tp_tenant_id p = [] then Inl EmptyTenant
      else bind_r (check_limits
        [(''max_concurrent_runs'', Some (tp_max_concurrent_runs p)),
         (''max_storage_bytes'', Some (tp_max_storage_bytes p)),
         (''monthly_token_limit'', Some (tp_monthly_token_limit p)),
         (''monthly_cost_microusd'', Some (tp_monthly_cost_microusd p)),
         (''requests_per_second'', Some (tp_requests_per_second p))])
      (\<lambda>_. if \<not> (0 \<le> tp_warning_ratio_basis_points p \<and> tp_warning_ratio_basis_points p \<le> 10000)
        then Inl (RatioOutOfRange (tp_warning_ratio_basis_points p))
        else if tp_version p \<le> 0 then Inl (VersionNotPositive (tp_version p))
        else Inr ()))"

definition make_policy :: "tenant_quota_policy \<Rightarrow> (quota_error, tenant_quota_policy) result" where
  "make_policy p = bind_r (policy_post_init p) (\<lambda>_. Inr p)"

text \<open>
  The JSON object of a stored policy, its numbers as entries that may be missing. For the entries
  of the budget, read with \<open>get\<close>, a missing entry and \<open>null\<close> are the same.
\<close>

record policy_doc =
  pd_max_concurrent_runs :: "int option"
  pd_max_storage_bytes :: "int option"
  pd_monthly_token_limit :: "int option"
  pd_monthly_cost_microusd :: "int option"
  pd_requests_per_second :: "int option"
  pd_warning_ratio_basis_points :: "int option"
  pd_default_run_budget :: "(int option \<times> int option \<times> int option \<times> int option) option"

definition policy_to_json :: "tenant_quota_policy \<Rightarrow> policy_doc" where
  "policy_to_json p = (let b = tp_default_run_budget p in \<lparr>
     pd_max_concurrent_runs = Some (tp_max_concurrent_runs p),
     pd_max_storage_bytes = Some (tp_max_storage_bytes p),
     pd_monthly_token_limit = Some (tp_monthly_token_limit p),
     pd_monthly_cost_microusd = Some (tp_monthly_cost_microusd p),
     pd_requests_per_second = Some (tp_requests_per_second p),
     pd_warning_ratio_basis_points = Some (tp_warning_ratio_basis_points p),
     pd_default_run_budget =
       Some (rb_max_tokens b, rb_max_cost_microusd b, rb_max_wall_clock_ms b, rb_max_steps b)\<rparr>)"

definition doc_key :: "string \<Rightarrow> 'a option \<Rightarrow> (quota_error, 'a) result" where
  "doc_key name entry = (case entry of None \<Rightarrow> Inl (MissingKey name) | Some v \<Rightarrow> Inr v)"

definition policy_from_json :: "string \<Rightarrow> policy_doc \<Rightarrow> int \<Rightarrow> (quota_error, tenant_quota_policy) result" where
  "policy_from_json tenant data version =
     bind_r (doc_key ''default_run_budget'' (pd_default_run_budget data)) (\<lambda>(bt, bc, bw, bs).
     bind_r (doc_key ''max_concurrent_runs'' (pd_max_concurrent_runs data)) (\<lambda>runs.
     bind_r (doc_key ''max_storage_bytes'' (pd_max_storage_bytes data)) (\<lambda>storage.
     bind_r (doc_key ''monthly_token_limit'' (pd_monthly_token_limit data)) (\<lambda>toks.
     bind_r (doc_key ''monthly_cost_microusd'' (pd_monthly_cost_microusd data)) (\<lambda>cost.
     bind_r (doc_key ''requests_per_second'' (pd_requests_per_second data)) (\<lambda>rate.
     bind_r (make_run_budget (RunBudgetLimits bt bc bw bs)) (\<lambda>budget.
     bind_r (doc_key ''warning_ratio_basis_points'' (pd_warning_ratio_basis_points data)) (\<lambda>ratio.
     make_policy \<lparr>tp_tenant_id = tenant, tp_max_concurrent_runs = runs, tp_max_storage_bytes = storage,
       tp_monthly_token_limit = toks, tp_monthly_cost_microusd = cost, tp_requests_per_second = rate,
       tp_default_run_budget = budget, tp_warning_ratio_basis_points = ratio, tp_version = version\<rparr>))))))))"

subsection \<open>Calendar windows\<close>

text \<open>A moment in UTC: year, month, day and the microsecond of the day.\<close>

record utc_moment =
  utc_year :: nat
  utc_month :: nat
  utc_day :: nat
  utc_micro :: nat

definition MAXYEAR :: nat where "MAXYEAR = 9999"

definition utc_month_window :: "utc_moment \<Rightarrow> (quota_error, utc_moment \<times> utc_moment) result" where
  "utc_month_window moment =
     (let start = moment\<lparr>utc_day := 1, utc_micro := 0\<rparr>
      in if utc_month start = 12
         then if utc_year start = MAXYEAR then Inl (YearOutOfRange (int (utc_year start) + 1))
              else Inr (start, start\<lparr>utc_year := utc_year start + 1, utc_month := 1\<rparr>)
         else Inr (start, start\<lparr>utc_month := utc_month start + 1\<rparr>))"

definition moment_key :: "utc_moment \<Rightarrow> nat \<times> nat \<times> nat \<times> nat" where
  "moment_key m = (utc_year m, utc_month m, utc_day m, utc_micro m)"

fun moment_le :: "nat \<times> nat \<times> nat \<times> nat \<Rightarrow> nat \<times> nat \<times> nat \<times> nat \<Rightarrow> bool" where
  "moment_le (a, b, c, d) (a', b', c', d') =
     (a < a' \<or> a = a' \<and> (b < b' \<or> b = b' \<and> (c < c' \<or> c = c' \<and> d \<le> d')))"

definition utc_moment_ok :: "utc_moment \<Rightarrow> bool" where
  "utc_moment_ok m = (1 \<le> utc_year m \<and> utc_year m \<le> MAXYEAR \<and> 1 \<le> utc_month m \<and> utc_month m \<le> 12 \<and>
     1 \<le> utc_day m \<and> utc_day m \<le> 31)"

subsection \<open>Results of the store\<close>

record lease_result =
  ls_granted :: bool
  ls_resumed :: bool
  ls_expires_at :: "int option"

record reservation_result =
  rv_granted :: bool
  rv_reservation_id :: "string option"

record usage_result =
  ur_granted :: bool
  ur_used :: int
  ur_limit :: int
  ur_crossed_warning :: bool

subsection \<open>The order of budgets\<close>

fun limit_le :: "int option \<Rightarrow> int option \<Rightarrow> bool" where
  "limit_le a None = True"
| "limit_le None (Some b) = False"
| "limit_le (Some a) (Some b) = (a \<le> b)"

instantiation run_budget_limits :: semilattice_inf
begin

definition less_eq_run_budget_limits :: "run_budget_limits \<Rightarrow> run_budget_limits \<Rightarrow> bool" where
  "less_eq_run_budget_limits b c = (limit_le (rb_max_tokens b) (rb_max_tokens c) \<and>
     limit_le (rb_max_cost_microusd b) (rb_max_cost_microusd c) \<and>
     limit_le (rb_max_wall_clock_ms b) (rb_max_wall_clock_ms c) \<and>
     limit_le (rb_max_steps b) (rb_max_steps c))"

definition less_run_budget_limits :: "run_budget_limits \<Rightarrow> run_budget_limits \<Rightarrow> bool" where
  "less_run_budget_limits b c = (b \<le> c \<and> \<not> c \<le> b)"

definition inf_run_budget_limits :: "run_budget_limits \<Rightarrow> run_budget_limits \<Rightarrow> run_budget_limits" where
  "inf_run_budget_limits b c = RunBudgetLimits
     (min_limit (rb_max_tokens b) (rb_max_tokens c))
     (min_limit (rb_max_cost_microusd b) (rb_max_cost_microusd c))
     (min_limit (rb_max_wall_clock_ms b) (rb_max_wall_clock_ms c))
     (min_limit (rb_max_steps b) (rb_max_steps c))"

instance
proof -
  have refl: "limit_le a a" for a by (cases a) simp_all
  have trans: "limit_le a b \<Longrightarrow> limit_le b c \<Longrightarrow> limit_le a c" for a b c
    by (cases a; cases b; cases c) simp_all
  have antisym: "limit_le a b \<Longrightarrow> limit_le b a \<Longrightarrow> a = b" for a b
    by (cases a; cases b) simp_all
  have lower: "limit_le (min_limit a b) a" "limit_le (min_limit a b) b" for a b
    by (cases a; cases b; simp)+
  have greatest: "limit_le c a \<Longrightarrow> limit_le c b \<Longrightarrow> limit_le c (min_limit a b)" for a b c
    by (cases a; cases b; cases c) simp_all
  show "OFCLASS(run_budget_limits, semilattice_inf_class)"
    by standard (auto simp: less_eq_run_budget_limits_def less_run_budget_limits_def inf_run_budget_limits_def
        refl lower greatest intro: trans antisym run_budget_limits.expand)
qed

end


subsection \<open>Laws\<close>

definition limit_ok :: "int option \<Rightarrow> bool" where
  "limit_ok l = (\<forall>v. l = Some v \<longrightarrow> 0 < v)"

definition run_budget_ok :: "run_budget_limits \<Rightarrow> bool" where
  "run_budget_ok b = (limit_ok (rb_max_tokens b) \<and> limit_ok (rb_max_cost_microusd b) \<and>
     limit_ok (rb_max_wall_clock_ms b) \<and> limit_ok (rb_max_steps b))"

lemma limit_ok_code [code, simp]:
  "limit_ok None" "limit_ok (Some v) = (0 < v)"
  by (auto simp: limit_ok_def)

lemma check_limits_ok: "check_limits fs = Inr () \<longleftrightarrow> (\<forall>(n, l) \<in> set fs. limit_ok l)"
  by (induction fs rule: check_limits.induct) (auto split: option.splits)

lemma check_limits_error:
  "check_limits fs = Inl e \<Longrightarrow> \<exists>n v. (n, Some v) \<in> set fs \<and> v \<le> 0 \<and> e = LimitNotPositive n v"
  by (induction fs rule: check_limits.induct) (auto split: option.splits if_splits)

lemma run_budget_post_init_ok: "run_budget_post_init b = Inr () \<longleftrightarrow> run_budget_ok b"
  unfolding run_budget_post_init_def check_limits_ok run_budget_ok_def by simp

lemma make_run_budget_ok [simp]: "make_run_budget b = Inr c \<longleftrightarrow> c = b \<and> run_budget_ok b"
  using run_budget_post_init_ok [of b] by (cases "run_budget_post_init b") (auto simp: make_run_budget_def)

lemma make_run_budget_id [simp]: "run_budget_ok b \<Longrightarrow> make_run_budget b = Inr b"
  by simp

lemma limit_ok_min: "limit_ok a \<Longrightarrow> limit_ok b \<Longrightarrow> limit_ok (min_limit a b)"
  by (cases a; cases b) auto

lemma run_budget_ok_inf: "run_budget_ok b \<Longrightarrow> run_budget_ok c \<Longrightarrow> run_budget_ok (inf b c)"
  by (auto simp: run_budget_ok_def inf_run_budget_limits_def limit_ok_min)

lemma narrow_budget_inf: "narrow_budget p r = make_run_budget (inf p r)"
  by (simp add: narrow_budget_def inf_run_budget_limits_def)

definition policy_ok :: "tenant_quota_policy \<Rightarrow> bool" where
  "policy_ok p = (tp_tenant_id p \<noteq> [] \<and> 0 < tp_max_concurrent_runs p \<and> 0 < tp_max_storage_bytes p \<and>
     0 < tp_monthly_token_limit p \<and> 0 < tp_monthly_cost_microusd p \<and> 0 < tp_requests_per_second p \<and>
     run_budget_ok (tp_default_run_budget p) \<and>
     0 \<le> tp_warning_ratio_basis_points p \<and> tp_warning_ratio_basis_points p \<le> 10000 \<and> 0 < tp_version p)"

lemma policy_post_init_ok:
  "run_budget_ok (tp_default_run_budget p) \<Longrightarrow> policy_post_init p = Inr () \<longleftrightarrow> policy_ok p"
  by (auto simp: policy_post_init_def policy_ok_def)

lemma make_policy_ok: "run_budget_ok (tp_default_run_budget p) \<Longrightarrow> make_policy p = Inr q \<longleftrightarrow> q = p \<and> policy_ok p"
  using policy_post_init_ok [of p] by (cases "policy_post_init p") (auto simp: make_policy_def)

text \<open>
  What is stored is read back: the document of a valid policy gives the policy under the version
  that the row carries.
\<close>

lemma policy_json_roundtrip:
  assumes "policy_ok p" and "0 < v"
  shows "policy_from_json (tp_tenant_id p) (policy_to_json p) v = Inr (p\<lparr>tp_version := v\<rparr>)"
proof -
  have b: "run_budget_ok (tp_default_run_budget p)"
    using assms(1) by (simp add: policy_ok_def)
  have "make_policy (p\<lparr>tp_version := v\<rparr>) = Inr (p\<lparr>tp_version := v\<rparr>)"
    using assms by (simp add: make_policy_ok policy_ok_def)
  then show ?thesis by (cases p) (use b in \<open>simp add: policy_from_json_def policy_to_json_def doc_key_def Let_def\<close>)
qed

text \<open>A policy that was read is valid: no stored document gives a limit that is not positive.\<close>

lemma policy_from_json_ok: "policy_from_json t d v = Inr p \<Longrightarrow> policy_ok p \<and> tp_tenant_id p = t \<and> tp_version p = v"
  by (auto simp: policy_from_json_def bind_r_eq_Inr make_policy_ok split: prod.splits)

lemma month_window_contains:
  assumes "utc_moment_ok m" and "utc_month_window m = Inr (s, e)"
  shows "moment_le (moment_key s) (moment_key m) \<and> \<not> moment_le (moment_key e) (moment_key m)"
  using assms by (auto simp: utc_month_window_def moment_key_def utc_moment_ok_def Let_def split: if_splits)

text \<open>
  \<open>narrow_budget\<close> of two budgets that their constructors accept never fails and returns the
  greatest budget below both, where an absent limit is above every number: a request can tighten the
  parent's limits and inherits the ones it does not name, and nothing is tightened beyond need.
\<close>

theorem narrow_budget_greatest:
  assumes "make_run_budget parent = Inr parent" and "make_run_budget requested = Inr requested"
  shows "\<exists>b. narrow_budget parent requested = Inr b \<and> b \<le> parent \<and> b \<le> requested \<and>
     (\<forall>c. c \<le> parent \<longrightarrow> c \<le> requested \<longrightarrow> c \<le> b)"
  using assms by (auto simp: narrow_budget_inf run_budget_ok_inf)

theorem narrow_budget_greatest_witness:
  "\<exists>b. narrow_budget (RunBudgetLimits (Some 100) None (Some 50) None) (RunBudgetLimits (Some 200) (Some 7) (Some 20) None) = Inr b \<and>
     b \<le> RunBudgetLimits (Some 100) None (Some 50) None \<and> b \<le> RunBudgetLimits (Some 200) (Some 7) (Some 20) None \<and>
     (\<forall>c. c \<le> RunBudgetLimits (Some 100) None (Some 50) None \<longrightarrow>
        c \<le> RunBudgetLimits (Some 200) (Some 7) (Some 20) None \<longrightarrow> c \<le> b)"
  by (rule narrow_budget_greatest) (simp_all add: run_budget_ok_def)

lemma remaining_limit_ok: "limit_ok l \<Longrightarrow> limit_ok (remaining_limit l c r) \<longleftrightarrow> (\<forall>v. l = Some v \<longrightarrow> c + r < v)"
  by (cases l) auto

text \<open>
  The remaining allowance of a run is computed without an error exactly while no limited
  dimension is used up: once the consumed and reserved amounts reach a limit, the clamped allowance
  of zero is refused by the constructor that is to carry it and \<open>remaining\<close> raises.
\<close>

theorem budget_remaining_raises_when_exhausted:
  assumes "make_run_budget (bs_limits s) = Inr (bs_limits s)"
  shows "(\<exists>b. budget_remaining s = Inr b) \<longleftrightarrow>
     (\<forall>v. rb_max_tokens (bs_limits s) = Some v \<longrightarrow> bs_consumed_tokens s + bs_reserved_tokens s < v) \<and>
     (\<forall>v. rb_max_cost_microusd (bs_limits s) = Some v \<longrightarrow> bs_consumed_cost_microusd s + bs_reserved_cost_microusd s < v) \<and>
     (\<forall>v. rb_max_wall_clock_ms (bs_limits s) = Some v \<longrightarrow> bs_elapsed_wall_clock_ms s < v) \<and>
     (\<forall>v. rb_max_steps (bs_limits s) = Some v \<longrightarrow> bs_consumed_steps s < v)"
  using assms by (auto simp: budget_remaining_def run_budget_ok_def remaining_limit_ok)

theorem budget_remaining_raises_when_exhausted_witness:
  "\<exists>s. make_run_budget (bs_limits s) = Inr (bs_limits s) \<and>
     budget_remaining s = Inl (LimitNotPositive ''max_tokens'' 0) \<and> \<not> (\<exists>b. budget_remaining s = Inr b)"
proof -
  let ?s = "\<lparr>bs_limits = RunBudgetLimits (Some 100) None None (Some 9), bs_consumed_tokens = 90,
     bs_consumed_cost_microusd = 0, bs_consumed_steps = 2, bs_elapsed_wall_clock_ms = 0,
     bs_reserved_tokens = 10, bs_reserved_cost_microusd = 0\<rparr>"
  have ok: "make_run_budget (bs_limits ?s) = Inr (bs_limits ?s)" by (simp add: run_budget_ok_def)
  have "budget_remaining ?s = Inl (LimitNotPositive ''max_tokens'' 0)" by code_simp
  moreover have "\<not> (\<exists>b. budget_remaining ?s = Inr b)"
    unfolding budget_remaining_raises_when_exhausted [OF ok] by simp
  ultimately show ?thesis using ok by blast
qed

lemma narrow_reasoning_budget_le:
  "rg_tokens (narrow_reasoning_budget d r) \<le> rg_tokens r \<and> rg_cost_usd (narrow_reasoning_budget d r) \<le> rg_cost_usd r \<and>
   rg_wall_clock_ms (narrow_reasoning_budget d r) \<le> rg_wall_clock_ms r \<and>
   rg_max_steps (narrow_reasoning_budget d r) \<le> rg_max_steps r \<and>
   limit_le (Some (rg_tokens (narrow_reasoning_budget d r))) (rb_max_tokens d) \<and>
   limit_le (Some (rg_wall_clock_ms (narrow_reasoning_budget d r))) (rb_max_wall_clock_ms d) \<and>
   limit_le (Some (rg_max_steps (narrow_reasoning_budget d r))) (rb_max_steps d) \<and>
   (\<forall>m. rb_max_cost_microusd d = Some m \<longrightarrow> rg_cost_usd (narrow_reasoning_budget d r) * of_int MICROS_PER_USD \<le> of_int m)"
  by (auto simp: narrow_reasoning_budget_def MICROS_PER_USD_def min_le_iff_disj field_simps split: option.splits)

lemma usd_to_micros_nearest: "\<bar>of_int (usd_to_micros q) - q * of_int MICROS_PER_USD\<bar> \<le> 1 / 2"
proof -
  have "\<bar>of_int (round_half_up x) - x\<bar> \<le> 1 / 2" for x :: rat
    unfolding round_half_up_def abs_le_iff
    using floor_correct [of "x + 1 / 2"] floor_correct [of "1 / 2 - x"] by (auto simp: field_simps)
  then show ?thesis by (simp add: usd_to_micros_def)
qed

end
