(* ===== verification/Sql_Table.thy ===== *)
theory Sql_Table
  imports Flow_Prelude
begin

text \<open>
  The fragment of SQL that the stores of the program use, on a table that is the list of its rows in
  order of insertion: selection by primary key, upsert, \<open>INSERT OR IGNORE\<close>,
  \<open>UPDATE ... WHERE\<close> and the amounts (\<open>COUNT\<close>, \<open>SUM\<close>) that a statement aggregates.
  The laws say what each statement does to the row of a key, to the keys and to an amount.
\<close>

named_theorems table_simps \<open>what a statement does to a table\<close>

definition upsert_row :: "('r \<Rightarrow> 'k) \<Rightarrow> 'r \<Rightarrow> 'r list \<Rightarrow> 'r list" where
  "upsert_row key row rows =
     (if \<exists>r\<in>set rows. key r = key row then map (\<lambda>r. if key r = key row then row else r) rows else rows @ [row])"

definition insert_or_ignore :: "('r \<Rightarrow> 'k) \<Rightarrow> 'r \<Rightarrow> 'r list \<Rightarrow> 'r list" where
  "insert_or_ignore key row rows = (if \<exists>r\<in>set rows. key r = key row then rows else rows @ [row])"

definition update_where :: "('r \<Rightarrow> bool) \<Rightarrow> ('r \<Rightarrow> 'r) \<Rightarrow> 'r list \<Rightarrow> 'r list" where
  "update_where p f rows = map (\<lambda>r. if p r then f r else r) rows"

definition select_one :: "('r \<Rightarrow> 'k) \<Rightarrow> 'k \<Rightarrow> 'r list \<Rightarrow> 'r option" where
  "select_one key k rows = List.find (\<lambda>r. key r = k) rows"

text \<open>The sum of an integer expression over the rows.\<close>

definition amount :: "('r \<Rightarrow> int) \<Rightarrow> 'r list \<Rightarrow> int" where
  "amount g rows = sum_list (map g rows)"

definition keyed :: "('r \<Rightarrow> 'k) \<Rightarrow> 'r list \<Rightarrow> bool" where
  "keyed key rows = distinct (map key rows)"

subsection \<open>The row of a key\<close>

lemma select_one_SomeD: "select_one key k rows = Some r \<Longrightarrow> r \<in> set rows \<and> key r = k"
  unfolding select_one_def by (rule find_SomeD)

lemma select_one_None: "select_one key k rows = None \<longleftrightarrow> (\<forall>r\<in>set rows. key r \<noteq> k)"
  by (simp add: select_one_def find_None_iff_all)

lemma select_one_keyed: "keyed key rows \<Longrightarrow> r \<in> set rows \<Longrightarrow> select_one key (key r) rows = Some r"
  by (induction rows) (auto simp: select_one_def keyed_def image_iff)

lemma select_one_simps [simp]:
  "select_one key k [] = None"
  "select_one key k (r # rows) = (if key r = k then Some r else select_one key k rows)"
  by (simp_all add: select_one_def)

lemma select_one_append:
  "select_one key k (rows @ rows') = (case select_one key k rows of None \<Rightarrow> select_one key k rows' | Some r \<Rightarrow> Some r)"
  by (simp add: select_one_def find_append split: option.splits)

lemma select_one_update_where [table_simps]:
  assumes "\<And>r. p r \<Longrightarrow> key (f r) = key r"
  shows "select_one key k (update_where p f rows) = map_option (\<lambda>r. if p r then f r else r) (select_one key k rows)"
  using assms by (induction rows) (auto simp: update_where_def)

lemma set_update_where [table_simps]: "set (update_where p f rows) = (\<lambda>r. if p r then f r else r) ` set rows"
  by (simp add: update_where_def)

lemma select_one_upsert [table_simps]:
  "select_one key k (upsert_row key row rows) = (if k = key row then Some row else select_one key k rows)"
proof -
  have "select_one key k (map (\<lambda>r. if key r = key row then row else r) rows) =
     (if k = key row then (if \<exists>r\<in>set rows. key r = key row then Some row else None) else select_one key k rows)"
    by (induction rows) auto
  moreover have "\<not> (\<exists>r\<in>set rows. key r = key row) \<longleftrightarrow> select_one key (key row) rows = None"
    by (simp add: select_one_None)
  ultimately show ?thesis
    by (cases "select_one key k rows") (auto simp: upsert_row_def select_one_append split: if_splits)
qed

lemma select_one_ignore [table_simps]:
  "select_one key k (insert_or_ignore key row rows) =
     (if k = key row \<and> select_one key k rows = None then Some row else select_one key k rows)"
proof -
  have "\<not> (\<exists>r\<in>set rows. key r = key row) \<longleftrightarrow> select_one key (key row) rows = None"
    by (simp add: select_one_None)
  then show ?thesis by (cases "select_one key k rows") (auto simp: insert_or_ignore_def select_one_append)
qed

subsection \<open>Primary keys\<close>

lemma keyed_Nil [simp]: "keyed key []"
  by (simp add: keyed_def)

lemma keyed_update_where [table_simps]:
  "(\<And>r. p r \<Longrightarrow> key (f r) = key r) \<Longrightarrow> keyed key (update_where p f rows) = keyed key rows"
  by (auto simp: keyed_def update_where_def comp_def intro!: arg_cong [where f = distinct] map_cong)

lemma keyed_append_row: "keyed key (rows @ [row]) \<longleftrightarrow> keyed key rows \<and> select_one key (key row) rows = None"
  by (auto simp: keyed_def select_one_None image_iff)

lemma keyed_upsert [table_simps]: "keyed key rows \<Longrightarrow> keyed key (upsert_row key row rows)"
proof -
  assume "keyed key rows"
  moreover have "map (key \<circ> (\<lambda>r. if key r = key row then row else r)) rows = map key rows" by simp
  ultimately show ?thesis
    by (auto simp: upsert_row_def keyed_append_row select_one_None keyed_def simp del: map_eq_conv)
qed

lemma keyed_ignore [table_simps]: "keyed key rows \<Longrightarrow> keyed key (insert_or_ignore key row rows)"
  by (auto simp: insert_or_ignore_def keyed_append_row select_one_None)

subsection \<open>Amounts\<close>

lemma amount_simps [simp]:
  "amount g [] = 0" "amount g (r # rows) = g r + amount g rows" "amount g (rows @ rows') = amount g rows + amount g rows'"
  by (simp_all add: amount_def)

lemma amount_filter: "sum_list (map g (filter p rows)) = amount (\<lambda>r. if p r then g r else 0) rows"
  by (simp add: amount_def sum_list_map_filter')

lemma count_amount: "int (length (filter p rows)) = amount (\<lambda>r. if p r then 1 else 0) rows"
  by (induction rows) auto

lemma amount_nonneg: "(\<And>r. r \<in> set rows \<Longrightarrow> 0 \<le> g r) \<Longrightarrow> 0 \<le> amount g rows"
  by (induction rows) auto

lemma amount_cong: "(\<And>r. r \<in> set rows \<Longrightarrow> g r = h r) \<Longrightarrow> amount g rows = amount h rows"
  by (induction rows) auto

lemma amount_mono: "(\<And>r. r \<in> set rows \<Longrightarrow> g r \<le> h r) \<Longrightarrow> amount g rows \<le> amount h rows"
  by (simp add: amount_def sum_list_mono)

lemma amount_update_where: "amount g (update_where p f rows) = amount (\<lambda>r. if p r then g (f r) else g r) rows"
  by (simp add: amount_def update_where_def comp_def if_distrib)

text \<open>An update that touches the row of one key only.\<close>

lemma amount_update_key:
  assumes "keyed key rows" and "r \<in> set rows"
  shows "amount (\<lambda>x. if key x = key r then h x else g x) rows = amount g rows - g r + h r"
  using assms
proof (induction rows)
  case (Cons a rows)
  have rest: "amount (\<lambda>x. if key x = key a then h x else g x) rows = amount g rows"
    using Cons.prems(1) by (intro amount_cong) (metis (no_types, lifting) distinct.simps(2) image_eqI keyed_def list.simps(9) set_map)
  show ?case
  proof (cases "key a = key r")
    case True
    then have "a = r" using Cons.prems by (auto simp: keyed_def image_iff)
    then show ?thesis using rest by simp
  next
    case False
    then show ?thesis using Cons by (auto simp: keyed_def)
  qed
qed simp

lemma amount_upsert:
  assumes "keyed key rows"
  shows "amount g (upsert_row key row rows) = amount (\<lambda>r. if key r = key row then 0 else g r) rows + g row"
proof (cases "\<exists>r\<in>set rows. key r = key row")
  case True
  then obtain r where r: "r \<in> set rows" "key r = key row" by blast
  have "amount g (upsert_row key row rows) = amount (\<lambda>x. if key x = key r then g row else g x) rows"
    using True r by (simp add: upsert_row_def amount_def comp_def if_distrib)
  also have "\<dots> = amount g rows - g r + g row"
    by (rule amount_update_key [OF assms r(1)])
  also have "\<dots> = amount (\<lambda>x. if key x = key r then 0 else g x) rows + g row"
    by (simp add: amount_update_key [OF assms r(1)])
  finally show ?thesis by (simp add: r)
next
  case False
  then show ?thesis by (auto simp: upsert_row_def intro!: amount_cong)
qed

subsection \<open>Sequences of transactions\<close>

fun run_all :: "('q \<Rightarrow> 's \<Rightarrow> 'r \<times> 's) \<Rightarrow> 'q list \<Rightarrow> 's \<Rightarrow> 'r list \<times> 's" where
  "run_all op [] s = ([], s)"
| "run_all op (q # qs) s = (let (r, s') = op q s; (rs, s'') = run_all op qs s' in (r # rs, s''))"

lemma run_all_length: "run_all op qs s = (rs, s') \<Longrightarrow> length rs = length qs"
  by (induction qs arbitrary: s rs) (auto simp: Let_def split: prod.splits)

lemma run_all_inv:
  assumes "\<And>q s r s'. I s \<Longrightarrow> op q s = (r, s') \<Longrightarrow> I s'" and "I s" and "run_all op qs s = (rs, s')"
  shows "I s'"
  using assms(2,3) by (induction qs arbitrary: s rs) (auto simp: Let_def split: prod.splits intro: assms(1))

end
