(* ===== verification/Quota_Store.thy ===== *)
theory Quota_Store
  imports Quota_Contracts Sql_Table
begin

text \<open>
  The durable quota store (\<^verbatim>\<open>backend/quotas/store.py\<close>): policies, run leases, storage reservations,
  request buckets and monthly usage. Every method is one transaction, here one function on the
  tables; the clock readings it makes are arguments, in microseconds. An ISO-8601 text is its
  instant: the texts the store writes have one format and one offset, so the comparisons that SQLite
  makes on them agree with the order of the instants. Integers are within SQLite's 64 bits.
  The ceilings are proved through two interfaces: \<open>capped_steps\<close> for a relation whose steps keep
  a measured amount within a limit and \<open>quota_gate\<close> for a request that is granted or denied.
\<close>

subsection \<open>The tables\<close>

record policy_row =
  pr_tenant_id :: string
  pr_policy_json :: policy_doc
  pr_version :: int
  pr_updated_at :: int

record lease_row =
  lr_run_id :: string
  lr_tenant_id :: string
  lr_acquired_at :: int
  lr_expires_at :: int
  lr_released_at :: "int option"

datatype reservation_status = ResReserved | ResCommitted | ResReleased | ResDenied

record reservation_row =
  rr_reservation_id :: string
  rr_tenant_id :: string
  rr_bytes :: int
  rr_status :: reservation_status
  rr_created_at :: int

record usage_row =
  us_key :: "string \<times> string \<times> string"
  us_used :: int
  us_warned :: int

record bucket_row =
  bk_key :: "string \<times> int"
  bk_count :: int

record quota_db =
  q_policies :: "policy_row list"
  q_leases :: "lease_row list"
  q_reservations :: "reservation_row list"
  q_usage :: "usage_row list"
  q_buckets :: "bucket_row list"

definition MICROS :: int where "MICROS = 1000000"

subsection \<open>Policies\<close>

definition list_tenant_ids :: "quota_db \<Rightarrow> string list" where
  "list_tenant_ids db = map pr_tenant_id (q_policies db)"

definition get_policy :: "string \<Rightarrow> quota_db \<Rightarrow> (quota_error, tenant_quota_policy option) result" where
  "get_policy tenant db =
     (case select_one pr_tenant_id tenant (q_policies db) of
        None \<Rightarrow> Inr None
      | Some row \<Rightarrow> bind_r (policy_from_json tenant (pr_policy_json row) (pr_version row)) (\<lambda>p. Inr (Some p)))"

definition current_version :: "string \<Rightarrow> quota_db \<Rightarrow> int" where
  "current_version tenant db =
     (case select_one pr_tenant_id tenant (q_policies db) of None \<Rightarrow> 0 | Some row \<Rightarrow> pr_version row)"

definition upsert_policy :: "tenant_quota_policy \<Rightarrow> int option \<Rightarrow> int \<Rightarrow> quota_db \<Rightarrow>
    (quota_error, tenant_quota_policy option) result \<times> quota_db" where
  "upsert_policy policy expected now db =
     (let current = current_version (tp_tenant_id policy) db
      in if expected \<noteq> None \<and> expected \<noteq> Some current
         then (Inl (VersionMismatch (tp_tenant_id policy) (the expected) current), db)
         else let db' = db\<lparr>q_policies := upsert_row pr_tenant_id
                  \<lparr>pr_tenant_id = tp_tenant_id policy, pr_policy_json = policy_to_json policy,
                   pr_version = current + 1, pr_updated_at = now\<rparr> (q_policies db)\<rparr>
              in (get_policy (tp_tenant_id policy) db', db'))"

subsection \<open>Run leases\<close>

definition lease_active :: "int \<Rightarrow> lease_row \<Rightarrow> bool" where
  "lease_active now r = (lr_released_at r = None \<and> now < lr_expires_at r)"

text \<open>\<open>now\<close> is the reading for the comparisons, \<open>now'\<close> the one the new expiry counts from.\<close>

definition acquire_run_lease :: "string \<Rightarrow> string \<Rightarrow> int \<Rightarrow> int \<Rightarrow> int \<Rightarrow> int \<Rightarrow> quota_db \<Rightarrow> lease_result \<times> quota_db" where
  "acquire_run_lease tenant run max_concurrent_runs lease_seconds now now' db =
     (let expires = now' + lease_seconds * MICROS;
          active = int (length (filter (\<lambda>r. lr_tenant_id r = tenant \<and> lr_run_id r \<noteq> run \<and> lease_active now r) (q_leases db)));
          admit = (if max_concurrent_runs \<le> active
             then (\<lparr>ls_granted = False, ls_resumed = False, ls_expires_at = None\<rparr>, db)
             else (\<lparr>ls_granted = True, ls_resumed = False, ls_expires_at = Some expires\<rparr>,
                   db\<lparr>q_leases := upsert_row lr_run_id
                     \<lparr>lr_run_id = run, lr_tenant_id = tenant, lr_acquired_at = now, lr_expires_at = expires,
                      lr_released_at = None\<rparr> (q_leases db)\<rparr>))
      in case select_one lr_run_id run (q_leases db) of
           Some r \<Rightarrow> if lease_active now r
             then (\<lparr>ls_granted = True, ls_resumed = True, ls_expires_at = Some (lr_expires_at r)\<rparr>, db)
             else admit
         | None \<Rightarrow> admit)"

definition unreleased_lease :: "string \<Rightarrow> lease_row \<Rightarrow> bool" where
  "unreleased_lease run r = (lr_run_id r = run \<and> lr_released_at r = None)"

definition heartbeat_run_lease :: "string \<Rightarrow> int \<Rightarrow> int \<Rightarrow> quota_db \<Rightarrow> bool \<times> quota_db" where
  "heartbeat_run_lease run lease_seconds now db =
     (filter (unreleased_lease run) (q_leases db) \<noteq> [],
      db\<lparr>q_leases := update_where (unreleased_lease run)
        (\<lambda>r. r\<lparr>lr_expires_at := now + lease_seconds * MICROS\<rparr>) (q_leases db)\<rparr>)"

definition release_run_lease :: "string \<Rightarrow> int \<Rightarrow> quota_db \<Rightarrow> quota_db" where
  "release_run_lease run now db =
     db\<lparr>q_leases := update_where (unreleased_lease run) (\<lambda>r. r\<lparr>lr_released_at := Some now\<rparr>) (q_leases db)\<rparr>"

definition count_active_leases :: "string \<Rightarrow> int \<Rightarrow> quota_db \<Rightarrow> int" where
  "count_active_leases tenant now db =
     int (length (filter (\<lambda>r. lr_tenant_id r = tenant \<and> lease_active now r) (q_leases db)))"

subsection \<open>Storage reservations\<close>

definition held_row :: "string \<Rightarrow> reservation_row \<Rightarrow> bool" where
  "held_row tenant r = (rr_tenant_id r = tenant \<and> (rr_status r = ResReserved \<or> rr_status r = ResCommitted))"

definition storage_used :: "string \<Rightarrow> quota_db \<Rightarrow> int" where
  "storage_used tenant db = sum_list (map rr_bytes (filter (held_row tenant) (q_reservations db)))"

definition reserve_storage :: "string \<Rightarrow> int \<Rightarrow> string \<Rightarrow> int \<Rightarrow> int \<Rightarrow> quota_db \<Rightarrow> reservation_result \<times> quota_db" where
  "reserve_storage tenant bytes_requested idempotency_key max_storage_bytes now db =
     (case select_one rr_reservation_id idempotency_key (q_reservations db) of
        Some r \<Rightarrow>
          (let granted = (rr_status r \<noteq> ResDenied)
           in (\<lparr>rv_granted = granted, rv_reservation_id = (if granted then Some idempotency_key else None)\<rparr>, db))
      | None \<Rightarrow>
          (let held = storage_used tenant db;
               row = (\<lambda>status. \<lparr>rr_reservation_id = idempotency_key, rr_tenant_id = tenant,
                  rr_bytes = bytes_requested, rr_status = status, rr_created_at = now\<rparr>)
           in if max_storage_bytes < held + bytes_requested
              then (\<lparr>rv_granted = False, rv_reservation_id = None\<rparr>,
                    db\<lparr>q_reservations := q_reservations db @ [row ResDenied]\<rparr>)
              else (\<lparr>rv_granted = True, rv_reservation_id = Some idempotency_key\<rparr>,
                    db\<lparr>q_reservations := q_reservations db @ [row ResReserved]\<rparr>)))"

definition reserved_row :: "string \<Rightarrow> reservation_row \<Rightarrow> bool" where
  "reserved_row rid r = (rr_reservation_id r = rid \<and> rr_status r = ResReserved)"

definition commit_storage_reservation :: "string \<Rightarrow> int \<Rightarrow> quota_db \<Rightarrow> quota_db" where
  "commit_storage_reservation rid actual_bytes db = db\<lparr>q_reservations := update_where (reserved_row rid)
     (\<lambda>r. r\<lparr>rr_status := ResCommitted, rr_bytes := actual_bytes\<rparr>) (q_reservations db)\<rparr>"

definition release_storage_reservation :: "string \<Rightarrow> quota_db \<Rightarrow> quota_db" where
  "release_storage_reservation rid db = db\<lparr>q_reservations := update_where (reserved_row rid)
     (\<lambda>r. r\<lparr>rr_status := ResReleased\<rparr>) (q_reservations db)\<rparr>"

subsection \<open>Request slots\<close>

text \<open>The window is \<open>int(time.time())\<close>, the second of the reading.\<close>

definition rate_window :: "int \<Rightarrow> int" where
  "rate_window now = now div MICROS"

definition bucket_open :: "string \<times> int \<Rightarrow> int \<Rightarrow> bucket_row \<Rightarrow> bool" where
  "bucket_open key rps b = (bk_key b = key \<and> bk_count b < rps)"

definition consume_request_slot :: "string \<Rightarrow> int \<Rightarrow> int \<Rightarrow> quota_db \<Rightarrow> bool \<times> quota_db" where
  "consume_request_slot credential requests_per_second now db =
     (let key = (credential, rate_window now);
          rows = insert_or_ignore bk_key \<lparr>bk_key = key, bk_count = 0\<rparr> (q_buckets db)
      in (filter (bucket_open key requests_per_second) rows \<noteq> [],
          db\<lparr>q_buckets := update_where (bucket_open key requests_per_second)
            (\<lambda>b. b\<lparr>bk_count := bk_count b + 1\<rparr>) rows\<rparr>))"

definition request_count :: "string \<Rightarrow> int \<Rightarrow> quota_db \<Rightarrow> int" where
  "request_count credential window db =
     (case select_one bk_key (credential, window) (q_buckets db) of None \<Rightarrow> 0 | Some b \<Rightarrow> bk_count b)"

subsection \<open>Monthly usage\<close>

definition usage_snapshot :: "string \<Rightarrow> string \<Rightarrow> string \<Rightarrow> quota_db \<Rightarrow> int" where
  "usage_snapshot tenant resource window db =
     (case select_one us_key (tenant, resource, window) (q_usage db) of None \<Rightarrow> 0 | Some r \<Rightarrow> us_used r)"

definition usage_warned :: "string \<Rightarrow> string \<Rightarrow> string \<Rightarrow> quota_db \<Rightarrow> int" where
  "usage_warned tenant resource window db =
     (case select_one us_key (tenant, resource, window) (q_usage db) of None \<Rightarrow> 0 | Some r \<Rightarrow> us_warned r)"

text \<open>The inserted empty row is rolled back with a denial.\<close>

definition record_monthly_usage :: "string \<Rightarrow> string \<Rightarrow> int \<Rightarrow> string \<Rightarrow> int \<Rightarrow> int \<Rightarrow> quota_db \<Rightarrow> usage_result \<times> quota_db" where
  "record_monthly_usage tenant resource delta window limit ratio db =
     (let key = (tenant, resource, window);
          rows = insert_or_ignore us_key \<lparr>us_key = key, us_used = 0, us_warned = 0\<rparr> (q_usage db);
          current = usage_snapshot tenant resource window (db\<lparr>q_usage := rows\<rparr>);
          warned = usage_warned tenant resource window (db\<lparr>q_usage := rows\<rparr>)
      in if limit < current + delta
         then (\<lparr>ur_granted = False, ur_used = current, ur_limit = limit, ur_crossed_warning = False\<rparr>, db)
         else let new_used = current + delta;
                  crossed = (warned = 0 \<and> limit * ratio \<le> new_used * 10000)
              in (\<lparr>ur_granted = True, ur_used = new_used, ur_limit = limit, ur_crossed_warning = crossed\<rparr>,
                  db\<lparr>q_usage := update_where (\<lambda>r. us_key r = key)
                    (\<lambda>r. r\<lparr>us_used := new_used, us_warned := (if crossed then 1 else warned)\<rparr>) rows\<rparr>))"

end
