(* ===== verification/Quota_Laws.thy ===== *)
theory Quota_Laws
  imports Quota_Store
begin

text \<open>
  The ceilings of the quota store. \<open>capped_steps\<close> and \<open>quota_gate\<close> are the interfaces: the
  first is interpreted by the steps on run leases and on storage reservations, the second by request
  slots and by monthly usage.
\<close>

subsection \<open>Interfaces\<close>

locale capped_steps =
  fixes inv :: "'s \<Rightarrow> bool" and used :: "'s \<Rightarrow> int" and step :: "'s \<Rightarrow> 's \<Rightarrow> bool" and limit :: int
  assumes step_inv: "inv s \<Longrightarrow> step s s' \<Longrightarrow> inv s'"
    and step_within: "inv s \<Longrightarrow> step s s' \<Longrightarrow> used s \<le> limit \<Longrightarrow> used s' \<le> limit"
begin

lemma reachable_within: "step\<^sup>*\<^sup>* s s' \<Longrightarrow> inv s \<Longrightarrow> used s \<le> limit \<Longrightarrow> inv s' \<and> used s' \<le> limit"
  by (induction rule: rtranclp_induct) (auto intro: step_inv step_within)

end

definition granted_amount :: "('q \<Rightarrow> bool) \<Rightarrow> ('r \<Rightarrow> bool) \<Rightarrow> ('q \<Rightarrow> int) \<Rightarrow> 'q list \<Rightarrow> 'r list \<Rightarrow> int" where
  "granted_amount mine ok amt qs rs = amount (\<lambda>(q, r). if mine q \<and> ok r then amt q else 0) (zip qs rs)"

locale quota_gate =
  fixes inv :: "'s \<Rightarrow> bool" and used :: "'s \<Rightarrow> int" and limit :: int
    and op :: "'q \<Rightarrow> 's \<Rightarrow> 'r \<times> 's" and ok :: "'r \<Rightarrow> bool" and amt :: "'q \<Rightarrow> int" and mine :: "'q \<Rightarrow> bool"
  assumes gate_inv: "inv s \<Longrightarrow> op q s = (r, s') \<Longrightarrow> inv s'"
    and granted: "inv s \<Longrightarrow> mine q \<Longrightarrow> op q s = (r, s') \<Longrightarrow> ok r \<Longrightarrow> used s' = used s + amt q \<and> used s' \<le> limit"
    and denied: "inv s \<Longrightarrow> mine q \<Longrightarrow> op q s = (r, s') \<Longrightarrow> \<not> ok r \<Longrightarrow> used s' = used s \<and> limit < used s + amt q"
    and others: "inv s \<Longrightarrow> \<not> mine q \<Longrightarrow> op q s = (r, s') \<Longrightarrow> used s' = used s"
begin

lemma ledger:
  assumes "inv s" and "run_all op qs s = (rs, s')"
  shows "used s' = used s + granted_amount mine ok amt qs rs \<and> (used s \<le> limit \<longrightarrow> used s' \<le> limit)"
  using assms
proof (induction qs arbitrary: s rs)
  case Nil
  then show ?case by (simp add: granted_amount_def)
next
  case (Cons q qs)
  obtain r s1 rs1 where q: "op q s = (r, s1)" and qs: "run_all op qs s1 = (rs1, s')" and rs: "rs = r # rs1"
    using Cons.prems(2) by (auto simp: Let_def split: prod.splits)
  have "used s' = used s1 + granted_amount mine ok amt qs rs1 \<and> (used s1 \<le> limit \<longrightarrow> used s' \<le> limit)"
    by (rule Cons.IH [OF gate_inv [OF Cons.prems(1) q] qs])
  then show ?case
    using granted [OF Cons.prems(1) _ q] denied [OF Cons.prems(1) _ q] others [OF Cons.prems(1) _ q]
    by (cases "mine q"; cases "ok r") (auto simp: granted_amount_def rs)
qed

text \<open>When every request asks for one unit the gate admits as many as fit and no fewer.\<close>

lemma unit_gate_exact:
  assumes "inv s" and "run_all op qs s = (rs, s')" and "\<And>q. mine q \<Longrightarrow> amt q = 1" and "used s \<le> limit"
  shows "granted_amount mine ok amt qs rs = min (int (length (filter mine qs))) (limit - used s)"
  using assms(1,2,4)
proof (induction qs arbitrary: s rs)
  case Nil
  then show ?case by (simp add: granted_amount_def)
next
  case (Cons q qs)
  obtain r s1 rs1 where q: "op q s = (r, s1)" and qs: "run_all op qs s1 = (rs1, s')" and rs: "rs = r # rs1"
    using Cons.prems(2) by (auto simp: Let_def split: prod.splits)
  have s1: "(mine q \<longrightarrow> ok r \<longrightarrow> used s1 = used s + 1) \<and> (mine q \<longrightarrow> \<not> ok r \<longrightarrow> used s1 = used s \<and> limit < used s + 1) \<and>
     (\<not> mine q \<longrightarrow> used s1 = used s) \<and> used s1 \<le> limit"
    using granted [OF Cons.prems(1) _ q] denied [OF Cons.prems(1) _ q] others [OF Cons.prems(1) _ q] assms(3) Cons.prems(3)
    by (cases "mine q"; cases "ok r") auto
  then have "granted_amount mine ok amt qs rs1 = min (int (length (filter mine qs))) (limit - used s1)"
    using Cons.IH [OF gate_inv [OF Cons.prems(1) q] qs] by blast
  then show ?case using s1 assms(3) Cons.prems(3)
    by (cases "mine q"; cases "ok r") (auto simp: granted_amount_def rs)
qed

end

subsection \<open>Run leases\<close>

lemma count_active_amount:
  "count_active_leases T now db = amount (\<lambda>r. if lr_tenant_id r = T \<and> lease_active now r then 1 else 0) (q_leases db)"
  by (simp add: count_active_leases_def count_amount)

lemma count_active_later: "now \<le> now' \<Longrightarrow> count_active_leases T now' db \<le> count_active_leases T now db"
  by (auto simp: count_active_amount lease_active_def intro!: amount_mono)

text \<open>
  What can happen to the leases while time passes: admissions of any tenant, releases and heartbeats
  of runs whose lease has not expired. The clock never goes back.
\<close>

inductive lease_step :: "(string \<Rightarrow> int) \<Rightarrow> int \<times> quota_db \<Rightarrow> int \<times> quota_db \<Rightarrow> bool" for cap where
  acquire: "t \<le> now \<Longrightarrow> lease_step cap (t, db) (now, snd (acquire_run_lease tenant run (cap tenant) secs now now' db))"
| release: "t \<le> now \<Longrightarrow> lease_step cap (t, db) (now, release_run_lease run now db)"
| heartbeat: "t \<le> now \<Longrightarrow> select_one lr_run_id run (q_leases db) = Some r \<Longrightarrow> lease_active now r \<Longrightarrow>
    lease_step cap (t, db) (now, snd (heartbeat_run_lease run secs now db))"

definition lease_inv :: "int \<times> quota_db \<Rightarrow> bool" where
  "lease_inv s = keyed lr_run_id (q_leases (snd s))"

lemma acquire_cases:
  obtains (kept) "snd (acquire_run_lease tenant run m secs now now' db) = db"
  | (fresh) "amount (\<lambda>r. if lr_tenant_id r = tenant \<and> lr_run_id r \<noteq> run \<and> lease_active now r then 1 else 0) (q_leases db) < m"
    and "snd (acquire_run_lease tenant run m secs now now' db) = db\<lparr>q_leases := upsert_row lr_run_id
       \<lparr>lr_run_id = run, lr_tenant_id = tenant, lr_acquired_at = now, lr_expires_at = now' + secs * MICROS,
        lr_released_at = None\<rparr> (q_leases db)\<rparr>"
proof (cases "snd (acquire_run_lease tenant run m secs now now' db) = db")
  case False
  then show ?thesis
    by (intro fresh) (auto simp: acquire_run_lease_def Let_def count_amount split: option.splits if_splits)
qed (rule kept)

lemma lease_step_inv: "lease_inv s \<Longrightarrow> lease_step cap s s' \<Longrightarrow> lease_inv s'"
proof (erule lease_step.cases, goal_cases)
  case (1 t now db tenant run secs now')
  then show ?case
    by (cases rule: acquire_cases [of tenant run "cap tenant" secs now now' db]) (auto simp: lease_inv_def table_simps)
qed (auto simp: lease_inv_def release_run_lease_def heartbeat_run_lease_def table_simps)

lemma acquire_within:
  assumes "keyed lr_run_id (q_leases db)" and "count_active_leases T now db \<le> cap T"
  shows "count_active_leases T now (snd (acquire_run_lease tenant run (cap tenant) secs now now' db)) \<le> cap T"
proof (cases rule: acquire_cases [of tenant run "cap tenant" secs now now' db])
  case kept
  then show ?thesis using assms(2) by simp
next
  case fresh
  let ?row = "\<lparr>lr_run_id = run, lr_tenant_id = tenant, lr_acquired_at = now, lr_expires_at = now' + secs * MICROS,
     lr_released_at = None\<rparr>"
  have eq: "count_active_leases T now (snd (acquire_run_lease tenant run (cap tenant) secs now now' db)) =
     amount (\<lambda>r. if lr_run_id r = run then 0 else if lr_tenant_id r = T \<and> lease_active now r then 1 else 0) (q_leases db) +
     (if tenant = T \<and> lease_active now ?row then 1 else 0)"
    by (simp add: count_active_amount fresh(2) amount_upsert [OF assms(1)])
  show ?thesis
  proof (cases "tenant = T")
    case True
    have "amount (\<lambda>r. if lr_run_id r = run then 0 else if lr_tenant_id r = T \<and> lease_active now r then 1 else 0) (q_leases db) < cap T"
      by (rule le_less_trans [OF _ fresh(1) [unfolded True]]) (auto intro!: amount_mono)
    then show ?thesis by (simp add: eq)
  next
    case False
    have "amount (\<lambda>r. if lr_run_id r = run then 0 else if lr_tenant_id r = T \<and> lease_active now r then 1 else 0) (q_leases db) \<le>
       count_active_leases T now db"
      by (auto simp: count_active_amount intro!: amount_mono)
    then show ?thesis using assms(2) False by (simp add: eq)
  qed
qed

lemma lease_step_within:
  assumes "lease_inv s" and "lease_step cap s s'" and "count_active_leases T (fst s) (snd s) \<le> cap T"
  shows "count_active_leases T (fst s') (snd s') \<le> cap T"
  using assms(2)
proof cases
  case (acquire t now db tenant run secs now')
  then have "count_active_leases T now db \<le> cap T"
    using assms(3) count_active_later [of t now T db] by simp
  then show ?thesis using acquire assms(1) by (simp add: lease_inv_def acquire_within)
next
  case (release t now db run)
  have "count_active_leases T now (release_run_lease run now db) \<le> count_active_leases T now db"
    by (auto simp: count_active_amount release_run_lease_def amount_update_where lease_active_def intro!: amount_mono)
  then show ?thesis using release assms(3) count_active_later [of t now T db] by simp
next
  case (heartbeat t now run db r secs)
  have live: "lease_active now x" if "x \<in> set (q_leases db)" "unreleased_lease run x" for x
  proof -
    have "select_one lr_run_id (lr_run_id x) (q_leases db) = Some x"
      using assms(1) heartbeat(1) that(1) by (intro select_one_keyed) (simp add: lease_inv_def)
    then show ?thesis using that(2) heartbeat by (simp add: unreleased_lease_def)
  qed
  have "count_active_leases T now (snd (heartbeat_run_lease run secs now db)) \<le> count_active_leases T now db"
    unfolding count_active_amount heartbeat_run_lease_def
    by (auto simp: amount_update_where intro!: amount_mono dest: live)
  then show ?thesis using heartbeat assms(3) count_active_later [of t now T db] by simp
qed

interpretation run_leases: capped_steps lease_inv "\<lambda>s. count_active_leases T (fst s) (snd s)" "lease_step cap" "cap T" for cap T
  by unfold_locales (blast intro: lease_step_inv lease_step_within)+

subsection \<open>Storage reservations\<close>

text \<open>
  Reservations of any tenant, commits of a size that is at most the reserved one, and releases.
\<close>

inductive storage_step :: "(string \<Rightarrow> int) \<Rightarrow> quota_db \<Rightarrow> quota_db \<Rightarrow> bool" for cap where
  reserve: "0 \<le> n \<Longrightarrow> storage_step cap db (snd (reserve_storage tenant n key (cap tenant) now db))"
| commit: "0 \<le> n \<Longrightarrow> (\<And>r. select_one rr_reservation_id rid (q_reservations db) = Some r \<Longrightarrow> n \<le> rr_bytes r) \<Longrightarrow>
    storage_step cap db (commit_storage_reservation rid n db)"
| release: "storage_step cap db (release_storage_reservation rid db)"

definition storage_inv :: "quota_db \<Rightarrow> bool" where
  "storage_inv db = (keyed rr_reservation_id (q_reservations db) \<and> (\<forall>r\<in>set (q_reservations db). 0 \<le> rr_bytes r))"

lemma storage_used_amount:
  "storage_used T db = amount (\<lambda>r. if held_row T r then rr_bytes r else 0) (q_reservations db)"
  by (simp add: storage_used_def amount_filter)

lemma storage_step_inv: "storage_inv db \<Longrightarrow> storage_step cap db db' \<Longrightarrow> storage_inv db'"
proof (erule storage_step.cases, goal_cases)
  case (1 n db tenant key now)
  then show ?case
    by (auto simp: storage_inv_def reserve_storage_def keyed_append_row Let_def split: option.splits)
next
  case (2 n rid db)
  then show ?case by (auto simp: storage_inv_def commit_storage_reservation_def table_simps)
next
  case (3 db rid)
  then show ?case by (auto simp: storage_inv_def release_storage_reservation_def table_simps)
qed

lemma storage_step_within:
  assumes "storage_inv db" and "storage_step cap db db'" and "storage_used T db \<le> cap T"
  shows "storage_used T db' \<le> cap T"
  using assms(2)
proof cases
  case (reserve n tenant key now)
  then show ?thesis using assms(3)
    by (auto simp: reserve_storage_def storage_used_amount held_row_def Let_def split: option.splits)
next
  case (commit n rid)
  have small: "n \<le> rr_bytes x" if "x \<in> set (q_reservations db)" "reserved_row rid x" for x
    using select_one_keyed [of rr_reservation_id _ x] commit(3) that assms(1)
    by (auto simp: reserved_row_def storage_inv_def)
  have "storage_used T db' \<le> storage_used T db"
    unfolding storage_used_amount commit(1) commit_storage_reservation_def
    by (auto simp: amount_update_where held_row_def reserved_row_def intro!: amount_mono small)
  then show ?thesis using assms(3) by simp
next
  case (release rid)
  have "storage_used T db' \<le> storage_used T db"
    unfolding storage_used_amount release(1) release_storage_reservation_def
    using assms(1) by (auto simp: amount_update_where held_row_def reserved_row_def storage_inv_def intro!: amount_mono)
  then show ?thesis using assms(3) by simp
qed

interpretation storage: capped_steps storage_inv "storage_used T" "storage_step cap" "cap T" for cap T
  by unfold_locales (blast intro: storage_step_inv storage_step_within)+

subsection \<open>Request slots\<close>

definition bucket_inv :: "quota_db \<Rightarrow> bool" where
  "bucket_inv db = keyed bk_key (q_buckets db)"

text \<open>A request is a credential and the time at which it arrives.\<close>

definition request_op :: "(string \<Rightarrow> int) \<Rightarrow> string \<times> int \<Rightarrow> quota_db \<Rightarrow> bool \<times> quota_db" where
  "request_op rps q db = consume_request_slot (fst q) (rps (fst q)) (snd q) db"

definition same_window :: "string \<Rightarrow> int \<Rightarrow> string \<times> int \<Rightarrow> bool" where
  "same_window credential window q = (fst q = credential \<and> rate_window (snd q) = window)"

lemma request_op_bucket:
  assumes "bucket_inv db" and "request_op rps q db = (r, db')"
  shows "bucket_inv db' \<and> (same_window c w q \<longrightarrow> r = (request_count c w db < rps c)) \<and>
     request_count c w db' = request_count c w db + (if same_window c w q \<and> r then 1 else 0)"
proof -
  define key where "key = (fst q, rate_window (snd q))"
  define rows where "rows = insert_or_ignore bk_key \<lparr>bk_key = key, bk_count = 0\<rparr> (q_buckets db)"
  have kd: "keyed bk_key rows" using assms(1) by (simp add: rows_def bucket_inv_def table_simps)
  have r: "r = (filter (bucket_open key (rps (fst q))) rows \<noteq> [])"
    and db': "db' = db\<lparr>q_buckets := update_where (bucket_open key (rps (fst q))) (\<lambda>b. b\<lparr>bk_count := bk_count b + 1\<rparr>) rows\<rparr>"
    using assms(2) by (simp_all add: request_op_def consume_request_slot_def rows_def key_def Let_def)
  obtain b where b: "select_one bk_key key rows = Some b" "bk_count b = request_count (fst q) (rate_window (snd q)) db"
    by (cases "select_one bk_key key (q_buckets db)") (auto simp: rows_def table_simps request_count_def key_def)
  have b': "b \<in> set rows" "bk_key b = key" using select_one_SomeD [OF b(1)] by simp_all
  have "bucket_open key (rps (fst q)) x \<Longrightarrow> x \<in> set rows \<Longrightarrow> x = b" for x
    using select_one_keyed [OF kd, of x] b(1) by (auto simp: bucket_open_def)
  then have r': "r \<longleftrightarrow> bk_count b < rps (fst q)"
    unfolding r using b' by (auto simp: filter_empty_conv bucket_open_def)
  have other: "select_one bk_key k rows = select_one bk_key k (q_buckets db)" if "k \<noteq> key" for k
    using that by (simp add: rows_def table_simps)
  have "request_count c w db' = request_count c w db + (if same_window c w q \<and> r then 1 else 0)"
  proof (cases "same_window c w q")
    case True
    then have key: "(c, w) = key" by (simp add: same_window_def key_def)
    have "request_count c w db' = (if bucket_open key (rps (fst q)) b then bk_count b + 1 else bk_count b)"
      by (simp add: request_count_def db' table_simps key b(1))
    then show ?thesis using b(2) b' r' True by (simp add: bucket_open_def same_window_def)
  next
    case False
    then have "(c, w) \<noteq> key" by (auto simp: same_window_def key_def)
    then show ?thesis using False other [of "(c, w)"]
      by (cases "select_one bk_key (c, w) (q_buckets db)")
        (auto simp: request_count_def db' table_simps bucket_open_def dest: select_one_SomeD)
  qed
  moreover have "bucket_inv db'" using kd by (simp add: db' bucket_inv_def table_simps)
  ultimately show ?thesis using r' b(2) by (auto simp: same_window_def)
qed

interpretation request_slots: quota_gate bucket_inv "request_count c w" "rps c" "request_op rps" "\<lambda>r. r" "\<lambda>_. 1"
  "same_window c w" for c w rps
proof (unfold_locales, goal_cases)
  case (1 s q r s')
  then show ?case using request_op_bucket by blast
next
  case (2 s q r s')
  then show ?case using request_op_bucket [OF 2(1,3), of c w] by simp
next
  case (3 s q r s')
  then show ?case using request_op_bucket [OF 3(1,3), of c w] by simp
next
  case (4 s q r s')
  then show ?case using request_op_bucket [OF 4(1,3), of c w] by simp
qed

subsection \<open>Monthly usage\<close>

text \<open>An observation: tenant, resource, window and the amount used.\<close>

type_synonym usage_request = "(string \<times> string \<times> string) \<times> int"

definition usage_op :: "(string \<Rightarrow> string \<Rightarrow> int) \<Rightarrow> (string \<Rightarrow> int) \<Rightarrow> usage_request \<Rightarrow> quota_db \<Rightarrow> usage_result \<times> quota_db" where
  "usage_op cap ratio q db =
     (case q of ((tenant, resource, window), delta) \<Rightarrow>
        record_monthly_usage tenant resource delta window (cap tenant resource) (ratio tenant) db)"

definition usage_rows :: "string \<times> string \<times> string \<Rightarrow> quota_db \<Rightarrow> usage_row list" where
  "usage_rows key db = insert_or_ignore us_key \<lparr>us_key = key, us_used = 0, us_warned = 0\<rparr> (q_usage db)"

definition set_usage :: "string \<times> string \<times> string \<Rightarrow> int \<Rightarrow> int \<Rightarrow> quota_db \<Rightarrow> quota_db" where
  "set_usage key u v db = db\<lparr>q_usage := update_where (\<lambda>r. us_key r = key) (\<lambda>r. r\<lparr>us_used := u, us_warned := v\<rparr>) (usage_rows key db)\<rparr>"

lemma usage_rows_read:
  "usage_snapshot t s w (db\<lparr>q_usage := usage_rows key db\<rparr>) = usage_snapshot t s w db"
  "usage_warned t s w (db\<lparr>q_usage := usage_rows key db\<rparr>) = usage_warned t s w db"
  by (auto simp: usage_snapshot_def usage_warned_def usage_rows_def table_simps split: option.splits)

lemma set_usage_read:
  "usage_snapshot t s w (set_usage key u v db) = (if key = (t, s, w) then u else usage_snapshot t s w db)"
  "usage_warned t s w (set_usage key u v db) = (if key = (t, s, w) then v else usage_warned t s w db)"
proof -
  have "select_one us_key (t, s, w) (q_usage (set_usage key u v db)) =
     (if key = (t, s, w) then map_option (\<lambda>r. r\<lparr>us_used := u, us_warned := v\<rparr>) (select_one us_key key (usage_rows key db))
      else select_one us_key (t, s, w) (q_usage db))"
    by (cases "select_one us_key (t, s, w) (usage_rows key db)")
      (auto simp: set_usage_def select_one_update_where usage_rows_def select_one_ignore dest: select_one_SomeD split: if_splits)
  moreover have "\<exists>r. select_one us_key key (usage_rows key db) = Some r"
    by (cases "select_one us_key key (q_usage db)") (auto simp: usage_rows_def table_simps)
  ultimately show "usage_snapshot t s w (set_usage key u v db) = (if key = (t, s, w) then u else usage_snapshot t s w db)"
    and "usage_warned t s w (set_usage key u v db) = (if key = (t, s, w) then v else usage_warned t s w db)"
    by (auto simp: usage_snapshot_def usage_warned_def)
qed

lemma record_monthly_usage_eq:
  "record_monthly_usage t s d w l b db =
     (if l < usage_snapshot t s w db + d
      then (\<lparr>ur_granted = False, ur_used = usage_snapshot t s w db, ur_limit = l, ur_crossed_warning = False\<rparr>, db)
      else let u = usage_snapshot t s w db + d; crossed = (usage_warned t s w db = 0 \<and> l * b \<le> u * 10000)
           in (\<lparr>ur_granted = True, ur_used = u, ur_limit = l, ur_crossed_warning = crossed\<rparr>,
               set_usage (t, s, w) u (if crossed then 1 else usage_warned t s w db) db))"
  unfolding record_monthly_usage_def Let_def usage_rows_def [symmetric] usage_rows_read set_usage_def by (rule refl)

lemma usage_op_effect:
  assumes "usage_op cap ratio q db = (r, db')"
  shows "(fst q = (T, R, W) \<longrightarrow> ur_granted r = (usage_snapshot T R W db + snd q \<le> cap T R) \<and>
       ur_crossed_warning r = (ur_granted r \<and> usage_warned T R W db = 0 \<and>
         cap T R * ratio T \<le> (usage_snapshot T R W db + snd q) * 10000)) \<and>
     usage_snapshot T R W db' = usage_snapshot T R W db + (if fst q = (T, R, W) \<and> ur_granted r then snd q else 0) \<and>
     usage_warned T R W db' = (if fst q = (T, R, W) \<and> ur_crossed_warning r then 1 else usage_warned T R W db)"
proof -
  obtain t s w d where q: "q = ((t, s, w), d)" by (metis prod.exhaust)
  have op: "(r, db') = record_monthly_usage t s d w (cap t s) (ratio t) db"
    using assms by (simp add: usage_op_def q)
  show ?thesis
  proof (cases "cap t s < usage_snapshot t s w db + d")
    case True
    then show ?thesis using op by (auto simp: record_monthly_usage_eq q)
  next
    case False
    then show ?thesis using op by (simp add: record_monthly_usage_eq q Let_def set_usage_read) auto
  qed
qed

interpretation monthly_usage: quota_gate "\<lambda>_. True" "usage_snapshot T R W" "cap T R" "usage_op cap ratio" ur_granted snd
  "\<lambda>q. fst q = (T, R, W)" for T R W cap ratio
proof (unfold_locales, goal_cases)
  case (2 s q r s')
  then show ?case using usage_op_effect [OF 2(3), of T R W] by simp
next
  case (3 s q r s')
  then show ?case using usage_op_effect [OF 3(3), of T R W] by simp
next
  case (4 s q r s')
  then show ?case using usage_op_effect [OF 4(3), of T R W] by simp
qed simp

lemma usage_warnings:
  assumes "run_all (usage_op cap ratio) qs db = (rs, db')"
    and "\<And>q. q \<in> set qs \<Longrightarrow> fst q = (T, R, W) \<Longrightarrow> 0 \<le> snd q" and "usage_warned T R W db \<in> {0, 1}"
  shows "granted_amount (\<lambda>q. fst q = (T, R, W)) ur_crossed_warning (\<lambda>_. 1) qs rs =
     (if usage_warned T R W db = 0 \<and> (\<exists>(q, r) \<in> set (zip qs rs). fst q = (T, R, W) \<and> ur_granted r) \<and>
         cap T R * ratio T \<le> usage_snapshot T R W db' * 10000 then 1 else 0) \<and>
     usage_snapshot T R W db \<le> usage_snapshot T R W db' \<and>
     ((\<exists>(q, r) \<in> set (zip qs rs). fst q = (T, R, W) \<and> ur_granted r) \<or> usage_snapshot T R W db' = usage_snapshot T R W db)"
  using assms
proof (induction qs arbitrary: db rs)
  case Nil
  then show ?case by (simp add: granted_amount_def)
next
  case (Cons q qs)
  obtain r db1 rs1 where q: "usage_op cap ratio q db = (r, db1)"
    and qs: "run_all (usage_op cap ratio) qs db1 = (rs1, db')" and rs: "rs = r # rs1"
    using Cons.prems(1) by (auto simp: Let_def split: prod.splits)
  note eff = usage_op_effect [OF q, of T R W]
  have IH: "granted_amount (\<lambda>q. fst q = (T, R, W)) ur_crossed_warning (\<lambda>_. 1) qs rs1 =
     (if usage_warned T R W db1 = 0 \<and> (\<exists>(q, r) \<in> set (zip qs rs1). fst q = (T, R, W) \<and> ur_granted r) \<and>
         cap T R * ratio T \<le> usage_snapshot T R W db' * 10000 then 1 else 0) \<and>
     usage_snapshot T R W db1 \<le> usage_snapshot T R W db' \<and>
     ((\<exists>(q, r) \<in> set (zip qs rs1). fst q = (T, R, W) \<and> ur_granted r) \<or> usage_snapshot T R W db' = usage_snapshot T R W db1)"
    by (rule Cons.IH [OF qs]) (use Cons.prems(2,3) eff in auto)
  show ?case
  proof (cases "fst q = (T, R, W) \<and> ur_granted r")
    case True
    have delta: "0 \<le> snd q" using Cons.prems(2) True by simp
    have snap1: "usage_snapshot T R W db1 = usage_snapshot T R W db + snd q"
      and cross: "ur_crossed_warning r = (usage_warned T R W db = 0 \<and> cap T R * ratio T \<le> usage_snapshot T R W db1 * 10000)"
      and warn1: "usage_warned T R W db1 = (if ur_crossed_warning r then 1 else usage_warned T R W db)"
      using eff True by auto
    have sum: "granted_amount (\<lambda>q. fst q = (T, R, W)) ur_crossed_warning (\<lambda>_. 1) (q # qs) rs =
       (if ur_crossed_warning r then 1 else 0) + granted_amount (\<lambda>q. fst q = (T, R, W)) ur_crossed_warning (\<lambda>_. 1) qs rs1"
      using True by (simp add: granted_amount_def rs)
    have some: "\<exists>(q, r) \<in> set (zip (q # qs) rs). fst q = (T, R, W) \<and> ur_granted r" using True by (simp add: rs)
    have "cap T R * ratio T \<le> usage_snapshot T R W db1 * 10000 \<Longrightarrow> cap T R * ratio T \<le> usage_snapshot T R W db' * 10000"
      using IH by linarith
    then show ?thesis using IH sum some snap1 cross warn1 delta Cons.prems(3) by (simp only: if_True) auto
  next
    case False
    then have "granted_amount (\<lambda>q. fst q = (T, R, W)) ur_crossed_warning (\<lambda>_. 1) (q # qs) rs =
       granted_amount (\<lambda>q. fst q = (T, R, W)) ur_crossed_warning (\<lambda>_. 1) qs rs1"
      using eff by (auto simp: granted_amount_def rs)
    moreover have "(\<exists>(q, r) \<in> set (zip (q # qs) rs). fst q = (T, R, W) \<and> ur_granted r) \<longleftrightarrow>
       (\<exists>(q, r) \<in> set (zip qs rs1). fst q = (T, R, W) \<and> ur_granted r)"
      using False by (auto simp: rs)
    moreover have "usage_warned T R W db1 = usage_warned T R W db" "usage_snapshot T R W db1 = usage_snapshot T R W db"
      using eff False by auto
    ultimately show ?thesis using IH by (simp only:)
  qed
qed

subsection \<open>Properties\<close>

definition empty_quota_db :: quota_db where
  "empty_quota_db = \<lparr>q_policies = [], q_leases = [], q_reservations = [], q_usage = [], q_buckets = []\<rparr>"

text \<open>
  C4. Whatever the order of admissions, releases and heartbeats of live runs, of any tenants and at
  any times, the number of active leases of a tenant is never above its limit of concurrent runs.
\<close>

theorem run_leases_within_ceiling:
  assumes "(lease_step cap)\<^sup>*\<^sup>* (t, empty_quota_db) (t', db)" and "0 \<le> cap T"
  shows "count_active_leases T t' db \<le> cap T"
  using run_leases.reachable_within [OF assms(1), of T] assms(2)
  by (simp add: lease_inv_def count_active_leases_def empty_quota_db_def)

theorem run_leases_within_ceiling_witness:
  "\<exists>db. (lease_step (\<lambda>_. 1))\<^sup>*\<^sup>* (0, empty_quota_db) (7, db) \<and> db \<noteq> empty_quota_db \<and> count_active_leases ''a'' 7 db \<le> 1"
proof -
  let ?db = "snd (acquire_run_lease ''a'' ''r1'' 1 60 5 5 empty_quota_db)"
  let ?db' = "snd (acquire_run_lease ''a'' ''r2'' 1 60 7 7 ?db)"
  have "lease_step (\<lambda>_. 1) (0, empty_quota_db) (5, ?db)" "lease_step (\<lambda>_. 1) (5, ?db) (7, ?db')"
    by (rule lease_step.acquire, simp)+
  then have "(lease_step (\<lambda>_. 1))\<^sup>*\<^sup>* (0, empty_quota_db) (7, ?db')"
    by (meson converse_rtranclp_into_rtranclp r_into_rtranclp)
  moreover have "?db' \<noteq> empty_quota_db" by code_simp
  ultimately show ?thesis using run_leases_within_ceiling [of "\<lambda>_. 1" 0 7 ?db' "''a''"] by auto
qed

lemma lease_revived:
  assumes "keyed lr_run_id (q_leases db)" and "r \<in> set (q_leases db)" and "lr_released_at r = None"
    and "lr_expires_at r \<le> now" and "0 < secs"
  shows "count_active_leases (lr_tenant_id r) now (snd (heartbeat_run_lease (lr_run_id r) secs now db)) =
    count_active_leases (lr_tenant_id r) now db + 1"
proof -
  let ?T = "lr_tenant_id r"
  have same: "x = r" if "x \<in> set (q_leases db)" "lr_run_id x = lr_run_id r" for x
    using select_one_keyed [OF assms(1) that(1)] select_one_keyed [OF assms(1,2)] unfolding that(2) by simp
  have "count_active_leases ?T now (snd (heartbeat_run_lease (lr_run_id r) secs now db)) =
     amount (\<lambda>x. if lr_run_id x = lr_run_id r then 1 else if lr_tenant_id x = ?T \<and> lease_active now x then 1 else 0) (q_leases db)"
    unfolding count_active_amount
  proof (simp add: heartbeat_run_lease_def amount_update_where, rule amount_cong, goal_cases)
    case (1 x)
    show ?case
    proof (cases "lr_run_id x = lr_run_id r")
      case True
      with 1 have "x = r" by (rule same)
      then show ?thesis using assms(3,5) by (simp add: unreleased_lease_def lease_active_def MICROS_def)
    qed (simp add: unreleased_lease_def)
  qed
  also have "\<dots> = count_active_leases ?T now db - (if ?T = ?T \<and> lease_active now r then 1 else 0) + 1"
    unfolding count_active_amount by (rule amount_update_key [OF assms(1,2)])
  finally show ?thesis using assms(4) by (simp add: lease_active_def)
qed

text \<open>
  C39. A heartbeat does not look at the expiry: for a lease that expired without being released it
  reports success and makes the lease active again, one more than were active, without asking for the
  limit. Two runs of a tenant that may have one at a time are active together in the witness.
\<close>

theorem heartbeat_revives_expired_lease:
  assumes "keyed lr_run_id (q_leases db)" and "r \<in> set (q_leases db)" and "lr_released_at r = None"
    and "lr_expires_at r \<le> now" and "0 < secs"
  shows "fst (heartbeat_run_lease (lr_run_id r) secs now db) \<and>
    count_active_leases (lr_tenant_id r) now (snd (heartbeat_run_lease (lr_run_id r) secs now db)) =
      count_active_leases (lr_tenant_id r) now db + 1"
proof
  show "fst (heartbeat_run_lease (lr_run_id r) secs now db)"
    using assms(2,3) by (auto simp: heartbeat_run_lease_def unreleased_lease_def filter_empty_conv)
qed (rule lease_revived [OF assms])

theorem heartbeat_revives_expired_lease_witness:
  "\<exists>db db' db''. db = snd (acquire_run_lease ''a'' ''r1'' 1 60 0 0 empty_quota_db) \<and>
     acquire_run_lease ''a'' ''r2'' 1 60 60000000 60000000 db = (\<lparr>ls_granted = True, ls_resumed = False, ls_expires_at = Some 120000000\<rparr>, db') \<and>
     heartbeat_run_lease ''r1'' 60 60000000 db' = (True, db'') \<and> count_active_leases ''a'' 60000000 db'' = 2"
proof -
  let ?db = "snd (acquire_run_lease ''a'' ''r1'' 1 60 0 0 empty_quota_db)"
  let ?db' = "snd (acquire_run_lease ''a'' ''r2'' 1 60 60000000 60000000 ?db)"
  let ?r = "\<lparr>lr_run_id = ''r1'', lr_tenant_id = ''a'', lr_acquired_at = 0, lr_expires_at = 60000000, lr_released_at = None\<rparr> :: lease_row"
  have db': "acquire_run_lease ''a'' ''r2'' 1 60 60000000 60000000 ?db =
     (\<lparr>ls_granted = True, ls_resumed = False, ls_expires_at = Some 120000000\<rparr>, ?db')" by code_simp
  have k: "keyed lr_run_id (q_leases ?db')" unfolding keyed_def by code_simp
  have m: "?r \<in> set (q_leases ?db')" by code_simp
  have one: "count_active_leases ''a'' 60000000 ?db' = 1" by code_simp
  obtain b db'' where beat: "heartbeat_run_lease ''r1'' 60 60000000 ?db' = (b, db'')" by (metis prod.exhaust)
  have "b \<and> count_active_leases ''a'' 60000000 db'' = 2"
    using heartbeat_revives_expired_lease [OF k m, of 60000000 60] one beat by simp
  then show ?thesis using db' beat by (intro exI [of _ ?db] exI [of _ ?db'] exI [of _ db'']) simp
qed

text \<open>
  Whatever the order of reservations, commits of at most the reserved size and releases, the bytes
  a tenant holds, reserved and committed, are never above its storage limit.
\<close>

theorem storage_within_ceiling:
  assumes "(storage_step cap)\<^sup>*\<^sup>* empty_quota_db db" and "0 \<le> cap T"
  shows "storage_used T db \<le> cap T"
  using storage.reachable_within [OF assms(1), of T] assms(2)
  by (simp add: storage_inv_def storage_used_def empty_quota_db_def)

theorem storage_within_ceiling_witness:
  "\<exists>db. (storage_step (\<lambda>_. 10))\<^sup>*\<^sup>* empty_quota_db db \<and> storage_used ''a'' db = 4 \<and> storage_used ''a'' db \<le> 10"
proof -
  let ?db = "snd (reserve_storage ''a'' 6 ''k'' 10 0 empty_quota_db)"
  have "storage_step (\<lambda>_. 10) empty_quota_db ?db" by (rule storage_step.reserve) simp
  moreover have "storage_step (\<lambda>_. 10) ?db (commit_storage_reservation ''k'' 4 ?db)"
    by (rule storage_step.commit) (auto simp: reserve_storage_def storage_used_def empty_quota_db_def)
  ultimately have "(storage_step (\<lambda>_. 10))\<^sup>*\<^sup>* empty_quota_db (commit_storage_reservation ''k'' 4 ?db)"
    by (meson converse_rtranclp_into_rtranclp r_into_rtranclp)
  moreover from this have "storage_used ''a'' (commit_storage_reservation ''k'' 4 ?db) \<le> 10"
    by (rule storage_within_ceiling) simp
  moreover have "storage_used ''a'' (commit_storage_reservation ''k'' 4 ?db) = 4" by code_simp
  ultimately show ?thesis by blast
qed

text \<open>
  Of the requests that a credential makes within one second, among any requests of other
  credentials and at other times, as many are admitted as its rate allows and no fewer: the smaller
  of their number and the rate.
\<close>

theorem request_rate_exact:
  assumes "run_all (request_op rps) qs empty_quota_db = (rs, db)" and "0 \<le> rps c"
  shows "int (length (filter (\<lambda>(q, admitted). same_window c w q \<and> admitted) (zip qs rs))) =
    min (int (length (filter (same_window c w) qs))) (rps c)"
proof -
  have inv: "bucket_inv empty_quota_db" and zero: "request_count c w empty_quota_db = 0"
    by (simp_all add: bucket_inv_def empty_quota_db_def request_count_def)
  have "granted_amount (same_window c w) (\<lambda>r. r) (\<lambda>_. 1) qs rs =
     min (int (length (filter (same_window c w) qs))) (rps c - request_count c w empty_quota_db)"
    using assms(2) zero by (intro request_slots.unit_gate_exact [OF inv assms(1)]) simp_all
  then show ?thesis by (simp add: granted_amount_def count_amount zero case_prod_unfold)
qed

theorem request_rate_exact_witness:
  "\<exists>rs db. run_all (request_op (\<lambda>_. 2)) [(''k'', 1000001), (''k'', 1000002), (''j'', 1000003), (''k'', 1999999), (''k'', 2000000)] empty_quota_db = (rs, db) \<and>
     rs = [True, True, True, False, True] \<and>
     int (length (filter (\<lambda>(q, admitted). same_window ''k'' 1 q \<and> admitted)
       (zip [(''k'', 1000001), (''k'', 1000002), (''j'', 1000003), (''k'', 1999999), (''k'', 2000000)] rs))) = 2"
proof -
  let ?qs = "[(''k'', 1000001), (''k'', 1000002), (''j'', 1000003), (''k'', 1999999), (''k'', 2000000)] :: (string \<times> int) list"
  obtain rs db where run: "run_all (request_op (\<lambda>_. 2)) ?qs empty_quota_db = (rs, db)" by (metis prod.exhaust)
  have "fst (run_all (request_op (\<lambda>_. 2)) ?qs empty_quota_db) = [True, True, True, False, True]" by code_simp
  then have rs: "rs = [True, True, True, False, True]" using run by simp
  have "length (filter (same_window ''k'' 1) ?qs) = 3" by code_simp
  then show ?thesis using request_rate_exact [OF run, of "''k''" 1] run rs by auto
qed

text \<open>
  C16. Over any sequence of usage observations of all tenants, resources and months, the usage of one
  tenant, resource and month is the sum of its granted observations and never above the limit; the
  warning is reported exactly once if something was granted and the usage reached the warning ratio,
  and never otherwise.
\<close>

theorem monthly_usage_ledger:
  assumes "run_all (usage_op cap ratio) qs empty_quota_db = (rs, db)" and "0 \<le> cap T R"
    and "\<forall>q\<in>set qs. fst q = (T, R, W) \<longrightarrow> 0 \<le> snd q"
  shows "usage_snapshot T R W db = granted_amount (\<lambda>q. fst q = (T, R, W)) ur_granted snd qs rs \<and>
    usage_snapshot T R W db \<le> cap T R \<and>
    granted_amount (\<lambda>q. fst q = (T, R, W)) ur_crossed_warning (\<lambda>_. 1) qs rs =
      (if (\<exists>(q, r) \<in> set (zip qs rs). fst q = (T, R, W) \<and> ur_granted r) \<and>
          cap T R * ratio T \<le> usage_snapshot T R W db * 10000 then 1 else 0)"
proof -
  have zero: "usage_snapshot T R W empty_quota_db = 0" "usage_warned T R W empty_quota_db = 0"
    by (simp_all add: usage_snapshot_def usage_warned_def empty_quota_db_def)
  have "usage_snapshot T R W db = granted_amount (\<lambda>q. fst q = (T, R, W)) ur_granted snd qs rs \<and>
     usage_snapshot T R W db \<le> cap T R"
    using monthly_usage.ledger [OF _ assms(1), of T R W] zero assms(2) by auto
  moreover have "granted_amount (\<lambda>q. fst q = (T, R, W)) ur_crossed_warning (\<lambda>_. 1) qs rs =
      (if (\<exists>(q, r) \<in> set (zip qs rs). fst q = (T, R, W) \<and> ur_granted r) \<and>
          cap T R * ratio T \<le> usage_snapshot T R W db * 10000 then 1 else 0)"
    using usage_warnings [OF assms(1), of T R W] assms(3) zero by simp
  ultimately show ?thesis by blast
qed

theorem monthly_usage_ledger_witness:
  "\<exists>rs db. run_all (usage_op (\<lambda>_ _. 100) (\<lambda>_. 8000))
       [((''a'', ''t'', ''m''), 70), ((''b'', ''t'', ''m''), 99), ((''a'', ''t'', ''m''), 40), ((''a'', ''t'', ''m''), 15), ((''a'', ''t'', ''m''), 5)]
       empty_quota_db = (rs, db) \<and> map ur_granted rs = [True, True, False, True, True] \<and>
     usage_snapshot ''a'' ''t'' ''m'' db = 90 \<and>
     granted_amount (\<lambda>q. fst q = (''a'', ''t'', ''m'')) ur_crossed_warning (\<lambda>_. 1)
       [((''a'', ''t'', ''m''), 70), ((''b'', ''t'', ''m''), 99), ((''a'', ''t'', ''m''), 40), ((''a'', ''t'', ''m''), 15), ((''a'', ''t'', ''m''), 5 :: int)] rs = 1"
proof -
  let ?qs = "[((''a'', ''t'', ''m''), 70), ((''b'', ''t'', ''m''), 99), ((''a'', ''t'', ''m''), 40), ((''a'', ''t'', ''m''), 15), ((''a'', ''t'', ''m''), 5)] :: usage_request list"
  obtain rs db where run: "run_all (usage_op (\<lambda>_ _. 100) (\<lambda>_. 8000)) ?qs empty_quota_db = (rs, db)" by (metis prod.exhaust)
  have "map ur_granted (fst (run_all (usage_op (\<lambda>_ _. 100) (\<lambda>_. 8000)) ?qs empty_quota_db)) = [True, True, False, True, True]"
    by code_simp
  then have granted: "map ur_granted rs = [True, True, False, True, True]" using run by simp
  then obtain r1 r2 r3 r4 r5 where rs: "rs = [r1, r2, r3, r4, r5]" "ur_granted r1" "ur_granted r2" "\<not> ur_granted r3" "ur_granted r4" "ur_granted r5"
    by (auto simp: map_eq_Cons_conv)
  have nonneg: "\<forall>q\<in>set ?qs. fst q = (''a'', ''t'', ''m'') \<longrightarrow> 0 \<le> snd q" by simp
  note ledger = monthly_usage_ledger [OF run _ nonneg, simplified]
  have used: "usage_snapshot ''a'' ''t'' ''m'' db = 90"
    using ledger rs by (simp add: granted_amount_def)
  have "granted_amount (\<lambda>q. fst q = (''a'', ''t'', ''m'')) ur_crossed_warning (\<lambda>_. 1) ?qs rs = 1"
    using ledger used rs by simp
  then show ?thesis using run granted used by (intro exI conjI) assumption+
qed

end
