(* ===== verification/Quota_Service.thy ===== *)
theory Quota_Service
  imports Quota_Laws Flow_Monad
begin

text \<open>
  The quota service (\<^verbatim>\<open>backend/quotas/service.py\<close>): which policy governs a tenant, and the
  \<open>quota.warning\<close> and \<open>quota.exceeded\<close> events of the crossings that the store reports. An
  operation is an action on the tables and the list of emitted events; \<open>emit_event\<close> never raises.
  Clock readings are arguments: microseconds for leases and slots, a calendar moment for the month.
\<close>

subsection \<open>Settings and world\<close>

record quota_settings =
  qs_prod :: bool
  qs_production_requires_policy :: bool
  qs_local_max_concurrent_runs :: int
  qs_local_max_storage_bytes :: int
  qs_local_monthly_token_limit :: int
  qs_local_monthly_cost_microusd :: int
  qs_local_requests_per_second :: int
  qs_default_run_max_tokens :: int
  qs_default_run_max_cost_microusd :: int
  qs_default_run_max_wall_clock_ms :: int
  qs_default_run_max_steps :: int
  qs_run_lease_seconds :: int

record quota_event =
  qe_type :: string
  qe_tenant :: string
  qe_resource :: quota_resource
  qe_used :: int
  qe_limit :: int
  qe_window_key :: string

record quota_world =
  qw_db :: quota_db
  qw_events :: "quota_event list"

type_synonym 'a quota_action = "(quota_error, 'a, quota_world) action"

text \<open>One transaction of the store, and the emission of an event.\<close>

definition in_store :: "(quota_db \<Rightarrow> 'a \<times> quota_db) \<Rightarrow> 'a quota_action" where
  "in_store f w = (let (x, db) = f (qw_db w) in (Inr x, w\<lparr>qw_db := db\<rparr>))"

definition emit_quota :: "quota_event \<Rightarrow> unit quota_action" where
  "emit_quota e = modify_a (\<lambda>w. w\<lparr>qw_events := qw_events w @ [e]\<rparr>)"

subsection \<open>Policies\<close>

definition local_default_policy :: "quota_settings \<Rightarrow> string \<Rightarrow> (quota_error, tenant_quota_policy) result" where
  "local_default_policy st tenant =
     bind_r (make_run_budget (RunBudgetLimits (Some (qs_default_run_max_tokens st)) (Some (qs_default_run_max_cost_microusd st))
       (Some (qs_default_run_max_wall_clock_ms st)) (Some (qs_default_run_max_steps st)))) (\<lambda>budget.
     make_policy \<lparr>tp_tenant_id = tenant, tp_max_concurrent_runs = qs_local_max_concurrent_runs st,
       tp_max_storage_bytes = qs_local_max_storage_bytes st, tp_monthly_token_limit = qs_local_monthly_token_limit st,
       tp_monthly_cost_microusd = qs_local_monthly_cost_microusd st, tp_requests_per_second = qs_local_requests_per_second st,
       tp_default_run_budget = budget, tp_warning_ratio_basis_points = DEFAULT_WARNING_RATIO_BASIS_POINTS, tp_version = 1\<rparr>)"

definition resolve_policy :: "quota_settings \<Rightarrow> string \<Rightarrow> quota_db \<Rightarrow> (quota_error, tenant_quota_policy) result" where
  "resolve_policy st tenant db =
     bind_r (get_policy tenant db) (\<lambda>stored.
       case stored of
         Some p \<Rightarrow> Inr p
       | None \<Rightarrow> if qs_prod st \<and> qs_production_requires_policy st then Inl (QuotaPolicyMissing tenant)
                 else local_default_policy st tenant)"

definition resolve_policy_a :: "quota_settings \<Rightarrow> string \<Rightarrow> tenant_quota_policy quota_action" where
  "resolve_policy_a st tenant w = (resolve_policy st tenant (qw_db w), w)"

definition set_policy :: "tenant_quota_policy \<Rightarrow> int option \<Rightarrow> int \<Rightarrow> tenant_quota_policy option quota_action" where
  "set_policy policy expected now w =
     (let (r, db) = upsert_policy policy expected now (qw_db w) in (r, w\<lparr>qw_db := db\<rparr>))"

subsection \<open>Usage\<close>

text \<open>\<open>strftime("%Y-%m")\<close> of the start of the month.\<close>

definition month_window_key :: "utc_moment \<Rightarrow> (quota_error, string) result" where
  "month_window_key moment = bind_r (utc_month_window moment) (\<lambda>(start, _).
     Inr (str_nat (utc_year start) @ ''-'' @
       (if utc_month start < 10 then ''0'' else []) @ str_nat (utc_month start)))"

record tenant_usage_snapshot =
  tu_policy :: tenant_quota_policy
  tu_concurrent_runs :: int
  tu_storage_bytes_used :: int
  tu_monthly_tokens_used :: int
  tu_monthly_cost_microusd_used :: int
  tu_month_window_key :: string

definition get_usage :: "quota_settings \<Rightarrow> string \<Rightarrow> utc_moment \<Rightarrow> int \<Rightarrow> quota_db \<Rightarrow> (quota_error, tenant_usage_snapshot) result" where
  "get_usage st tenant moment now db =
     bind_r (resolve_policy st tenant db) (\<lambda>policy.
     bind_r (month_window_key moment) (\<lambda>window.
       Inr \<lparr>tu_policy = policy, tu_concurrent_runs = count_active_leases tenant now db,
         tu_storage_bytes_used = storage_used tenant db,
         tu_monthly_tokens_used = usage_snapshot tenant (quota_resource_value MONTHLY_TOKENS) window db,
         tu_monthly_cost_microusd_used = usage_snapshot tenant (quota_resource_value MONTHLY_COST) window db,
         tu_month_window_key = window\<rparr>))"

definition check_rate_limit :: "quota_settings \<Rightarrow> string \<Rightarrow> string \<Rightarrow> int \<Rightarrow> unit quota_action" where
  "check_rate_limit st tenant credential now =
     bind_a (resolve_policy_a st tenant) (\<lambda>policy.
     bind_a (in_store (consume_request_slot credential (tp_requests_per_second policy) now)) (\<lambda>admitted.
       if \<not> admitted
       then raise_a (QuotaExceeded REQUEST_RATE LIMIT_EXCEEDED (tp_requests_per_second policy) (tp_requests_per_second policy))
       else return_a ()))"

definition usage_limit :: "quota_resource \<Rightarrow> tenant_quota_policy \<Rightarrow> int" where
  "usage_limit resource policy =
     (if resource = MONTHLY_TOKENS then tp_monthly_token_limit policy else tp_monthly_cost_microusd policy)"

definition service_record_usage :: "quota_settings \<Rightarrow> string \<Rightarrow> quota_resource \<Rightarrow> int \<Rightarrow> utc_moment \<Rightarrow> unit quota_action" where
  "service_record_usage st tenant resource delta moment =
     bind_a (resolve_policy_a st tenant) (\<lambda>policy.
     bind_a (lift_a (month_window_key moment)) (\<lambda>window.
     bind_a (in_store (record_monthly_usage tenant (quota_resource_value resource) delta window
       (usage_limit resource policy) (tp_warning_ratio_basis_points policy))) (\<lambda>r.
     let event = (\<lambda>ty. \<lparr>qe_type = ty, qe_tenant = tenant, qe_resource = resource, qe_used = ur_used r,
           qe_limit = ur_limit r, qe_window_key = window\<rparr>)
     in if \<not> ur_granted r
        then then_a (emit_quota (event ''quota.exceeded''))
          (raise_a (QuotaExceeded resource LIMIT_EXCEEDED (ur_used r) (usage_limit resource policy)))
        else if ur_crossed_warning r then emit_quota (event ''quota.warning'')
        else return_a ())))"

subsection \<open>Leases and storage\<close>

definition service_acquire_lease :: "quota_settings \<Rightarrow> string \<Rightarrow> string \<Rightarrow> int \<Rightarrow> int \<Rightarrow> lease_result quota_action" where
  "service_acquire_lease st tenant run now now' =
     bind_a (resolve_policy_a st tenant) (\<lambda>policy.
     bind_a (in_store (acquire_run_lease tenant run (tp_max_concurrent_runs policy) (qs_run_lease_seconds st) now now')) (\<lambda>lease.
       if \<not> ls_granted lease
       then then_a (emit_quota \<lparr>qe_type = ''quota.exceeded'', qe_tenant = tenant, qe_resource = CONCURRENT_RUNS,
              qe_used = tp_max_concurrent_runs policy, qe_limit = tp_max_concurrent_runs policy, qe_window_key = []\<rparr>)
            (return_a lease)
       else return_a lease))"

definition service_release_lease :: "string \<Rightarrow> int \<Rightarrow> unit quota_action" where
  "service_release_lease run now = modify_a (\<lambda>w. w\<lparr>qw_db := release_run_lease run now (qw_db w)\<rparr>)"

definition service_reserve_storage :: "quota_settings \<Rightarrow> string \<Rightarrow> int \<Rightarrow> string \<Rightarrow> int \<Rightarrow> reservation_result quota_action" where
  "service_reserve_storage st tenant bytes key now =
     bind_a (resolve_policy_a st tenant) (\<lambda>policy.
     bind_a (in_store (reserve_storage tenant bytes key (tp_max_storage_bytes policy) now)) (\<lambda>r.
       if \<not> rv_granted r
       then then_a (emit_quota \<lparr>qe_type = ''quota.exceeded'', qe_tenant = tenant, qe_resource = STORAGE_BYTES,
              qe_used = tp_max_storage_bytes policy, qe_limit = tp_max_storage_bytes policy, qe_window_key = []\<rparr>)
            (return_a r)
       else return_a r))"

definition service_commit_storage :: "string \<Rightarrow> int \<Rightarrow> unit quota_action" where
  "service_commit_storage rid bytes = modify_a (\<lambda>w. w\<lparr>qw_db := commit_storage_reservation rid bytes (qw_db w)\<rparr>)"

definition service_release_storage :: "string \<Rightarrow> unit quota_action" where
  "service_release_storage rid = modify_a (\<lambda>w. w\<lparr>qw_db := release_storage_reservation rid (qw_db w)\<rparr>)"

subsection \<open>Laws\<close>

definition policy_table_ok :: "quota_db \<Rightarrow> bool" where
  "policy_table_ok db = (\<forall>r\<in>set (q_policies db). 0 < pr_version r \<and>
     (\<exists>p. policy_ok p \<and> tp_tenant_id p = pr_tenant_id r \<and> pr_policy_json r = policy_to_json p))"

definition settings_ok :: "quota_settings \<Rightarrow> bool" where
  "settings_ok st = (0 < qs_local_max_concurrent_runs st \<and> 0 < qs_local_max_storage_bytes st \<and>
     0 < qs_local_monthly_token_limit st \<and> 0 < qs_local_monthly_cost_microusd st \<and> 0 < qs_local_requests_per_second st \<and>
     0 < qs_default_run_max_tokens st \<and> 0 < qs_default_run_max_cost_microusd st \<and>
     0 < qs_default_run_max_wall_clock_ms st \<and> 0 < qs_default_run_max_steps st)"

lemma get_policy_stored:
  assumes "policy_table_ok db" and "select_one pr_tenant_id tenant (q_policies db) = Some r"
  obtains p where "get_policy tenant db = Inr (Some p)" and "policy_ok p" and "tp_tenant_id p = tenant" and "tp_version p = pr_version r"
proof -
  obtain p where p: "policy_ok p" "tp_tenant_id p = tenant" "pr_policy_json r = policy_to_json p" "0 < pr_version r"
    using assms select_one_SomeD [OF assms(2)] by (auto simp: policy_table_ok_def)
  have "policy_from_json tenant (pr_policy_json r) (pr_version r) = Inr (p\<lparr>tp_version := pr_version r\<rparr>)"
    using policy_json_roundtrip [OF p(1,4)] p(2,3) by simp
  moreover have "policy_ok (p\<lparr>tp_version := pr_version r\<rparr>)" using p by (simp add: policy_ok_def)
  ultimately show thesis using that [of "p\<lparr>tp_version := pr_version r\<rparr>"] assms(2) p(2) by (simp add: get_policy_def)
qed

lemma current_version_nonneg: "policy_table_ok db \<Longrightarrow> 0 \<le> current_version tenant db"
  by (auto simp: current_version_def policy_table_ok_def less_imp_le split: option.splits dest!: select_one_SomeD)

lemma set_upsert_row: "x \<in> set (upsert_row key row rows) \<Longrightarrow> x = row \<or> x \<in> set rows"
  by (auto simp: upsert_row_def split: if_splits)

lemma upsert_policy_table:
  assumes "policy_table_ok db" and "policy_ok policy"
  shows "policy_table_ok (snd (upsert_policy policy expected now db))"
  using assms current_version_nonneg [OF assms(1), of "tp_tenant_id policy"]
  by (fastforce simp: upsert_policy_def policy_table_ok_def Let_def dest: set_upsert_row)

text \<open>
  Storing a policy is a compare-and-swap: with a version that is not the stored one (zero for a
  tenant without a policy) it raises and changes nothing; otherwise it stores the policy under the
  next version, returns it as stored, keeps the policies of all other tenants and keeps every row of
  the table readable.
\<close>

theorem set_policy_compare_and_swap:
  assumes "policy_table_ok (qw_db w)" and "policy_ok policy"
  shows "let current = current_version (tp_tenant_id policy) (qw_db w); (r, w') = set_policy policy expected now w in
     policy_table_ok (qw_db w') \<and>
     (if expected = None \<or> expected = Some current
      then r = Inr (Some (policy\<lparr>tp_version := current + 1\<rparr>)) \<and>
        get_policy (tp_tenant_id policy) (qw_db w') = r \<and> current_version (tp_tenant_id policy) (qw_db w') = current + 1 \<and>
        (\<forall>t. t \<noteq> tp_tenant_id policy \<longrightarrow> get_policy t (qw_db w') = get_policy t (qw_db w))
      else (\<exists>v. r = Inl (VersionMismatch (tp_tenant_id policy) v current)) \<and> w' = w)"
proof -
  let ?t = "tp_tenant_id policy"
  let ?c = "current_version ?t (qw_db w)"
  have tab: "policy_table_ok (snd (upsert_policy policy expected now (qw_db w)))"
    by (rule upsert_policy_table [OF assms])
  show ?thesis
  proof (cases "expected = None \<or> expected = Some ?c")
    case True
    let ?db = "(qw_db w)\<lparr>q_policies := upsert_row pr_tenant_id \<lparr>pr_tenant_id = ?t, pr_policy_json = policy_to_json policy,
       pr_version = ?c + 1, pr_updated_at = now\<rparr> (q_policies (qw_db w))\<rparr>"
    have get: "get_policy ?t ?db = Inr (Some (policy\<lparr>tp_version := ?c + 1\<rparr>))"
      using policy_json_roundtrip [OF assms(2), of "?c + 1"] current_version_nonneg [OF assms(1), of ?t]
      by (simp add: get_policy_def table_simps)
    moreover have "set_policy policy expected now w = (get_policy ?t ?db, w\<lparr>qw_db := ?db\<rparr>)"
      using True by (auto simp: set_policy_def upsert_policy_def Let_def)
    moreover have "\<forall>t. t \<noteq> ?t \<longrightarrow> get_policy t ?db = get_policy t (qw_db w)"
      by (simp add: get_policy_def table_simps)
    moreover have "current_version ?t ?db = ?c + 1" by (simp add: current_version_def table_simps)
    moreover have "policy_table_ok ?db" using tab True by (auto simp: upsert_policy_def Let_def)
    ultimately show ?thesis using True by (simp add: Let_def)
  next
    case False
    then show ?thesis using assms(1) by (auto simp: set_policy_def upsert_policy_def Let_def)
  qed
qed

definition sample_policy :: tenant_quota_policy where
  "sample_policy = \<lparr>tp_tenant_id = ''acme'', tp_max_concurrent_runs = 2, tp_max_storage_bytes = 100, tp_monthly_token_limit = 1000,
     tp_monthly_cost_microusd = 5000, tp_requests_per_second = 3, tp_default_run_budget = RunBudgetLimits (Some 10) None None (Some 4),
     tp_warning_ratio_basis_points = 8000, tp_version = 1\<rparr>"

theorem set_policy_compare_and_swap_witness:
  "fst (set_policy sample_policy (Some 0) 5 \<lparr>qw_db = empty_quota_db, qw_events = []\<rparr>) = Inr (Some sample_policy)"
proof -
  have "policy_table_ok empty_quota_db" "policy_ok sample_policy" "current_version ''acme'' empty_quota_db = 0"
    by (simp_all add: policy_table_ok_def empty_quota_db_def policy_ok_def sample_policy_def run_budget_ok_def current_version_def)
  then show ?thesis
    using set_policy_compare_and_swap [of "\<lparr>qw_db = empty_quota_db, qw_events = []\<rparr>" sample_policy "Some 0" 5]
    by (simp add: Let_def split_beta) (simp add: sample_policy_def)
qed

lemma local_default_policy_ok:
  assumes "settings_ok st" and "tenant \<noteq> []"
  obtains p where "local_default_policy st tenant = Inr p" and "policy_ok p" and "tp_tenant_id p = tenant"
proof -
  let ?b = "RunBudgetLimits (Some (qs_default_run_max_tokens st)) (Some (qs_default_run_max_cost_microusd st))
    (Some (qs_default_run_max_wall_clock_ms st)) (Some (qs_default_run_max_steps st))"
  let ?p = "\<lparr>tp_tenant_id = tenant, tp_max_concurrent_runs = qs_local_max_concurrent_runs st,
       tp_max_storage_bytes = qs_local_max_storage_bytes st, tp_monthly_token_limit = qs_local_monthly_token_limit st,
       tp_monthly_cost_microusd = qs_local_monthly_cost_microusd st, tp_requests_per_second = qs_local_requests_per_second st,
       tp_default_run_budget = ?b, tp_warning_ratio_basis_points = DEFAULT_WARNING_RATIO_BASIS_POINTS, tp_version = 1\<rparr>"
  have b: "run_budget_ok ?b" using assms(1) by (simp add: run_budget_ok_def settings_ok_def)
  have p: "policy_ok ?p" using assms b by (simp add: policy_ok_def settings_ok_def DEFAULT_WARNING_RATIO_BASIS_POINTS_def)
  then have "make_policy ?p = Inr ?p" using b by (simp add: make_policy_ok)
  then show thesis using that [of ?p] b p by (simp add: local_default_policy_def)
qed

text \<open>
  The policy that governs a tenant is resolved fail-closed: in production, where a policy is
  required, a tenant without a stored one is refused with the missing-policy error and nothing else
  is; every policy that is resolved is the tenant's own, with positive finite limits on every resource.
\<close>

theorem resolve_policy_fails_closed:
  assumes "policy_table_ok db" and "settings_ok st" and "tenant \<noteq> []"
  shows "(resolve_policy st tenant db = Inl (QuotaPolicyMissing tenant) \<and>
       qs_prod st \<and> qs_production_requires_policy st \<and> tenant \<notin> set (list_tenant_ids db)) \<or>
     (\<exists>p. resolve_policy st tenant db = Inr p \<and> policy_ok p \<and> tp_tenant_id p = tenant \<and>
       (get_policy tenant db = Inr (Some p) \<or>
        get_policy tenant db = Inr None \<and> local_default_policy st tenant = Inr p \<and>
        \<not> (qs_prod st \<and> qs_production_requires_policy st)))"
proof (cases "select_one pr_tenant_id tenant (q_policies db)")
  case None
  have "get_policy tenant db = Inr None" by (simp add: get_policy_def None)
  moreover have "tenant \<notin> set (list_tenant_ids db)"
    using None by (auto simp: list_tenant_ids_def select_one_None)
  ultimately show ?thesis using local_default_policy_ok [OF assms(2,3)] by (auto simp: resolve_policy_def)
next
  case (Some r)
  then show ?thesis by (rule get_policy_stored [OF assms(1)]) (auto simp: resolve_policy_def)
qed

definition sample_settings :: "bool \<Rightarrow> quota_settings" where
  "sample_settings b = \<lparr>qs_prod = b, qs_production_requires_policy = True, qs_local_max_concurrent_runs = 4,
     qs_local_max_storage_bytes = 1000, qs_local_monthly_token_limit = 20000000, qs_local_monthly_cost_microusd = 100,
     qs_local_requests_per_second = 20, qs_default_run_max_tokens = 2000000, qs_default_run_max_cost_microusd = 10,
     qs_default_run_max_wall_clock_ms = 60000, qs_default_run_max_steps = 1000, qs_run_lease_seconds = 90\<rparr>"

theorem resolve_policy_fails_closed_witness:
  "resolve_policy (sample_settings True) ''acme'' empty_quota_db = Inl (QuotaPolicyMissing ''acme'') \<and>
   (\<exists>p. resolve_policy (sample_settings False) ''acme'' empty_quota_db = Inr p \<and> policy_ok p)"
proof -
  have "policy_table_ok empty_quota_db" "get_policy ''acme'' empty_quota_db = Inr None"
    by (simp_all add: policy_table_ok_def empty_quota_db_def get_policy_def)
  moreover have "settings_ok (sample_settings b)" for b by (simp add: settings_ok_def sample_settings_def)
  ultimately show ?thesis
    using resolve_policy_fails_closed [of empty_quota_db "sample_settings True" "''acme''"]
      resolve_policy_fails_closed [of empty_quota_db "sample_settings False" "''acme''"]
    by (auto simp: sample_settings_def)
qed

text \<open>
  What the service reports of an observation is what the store decided: a denied one raises, leaves
  the tables as they were and emits one \<open>quota.exceeded\<close> event; a granted one returns, and emits one
  \<open>quota.warning\<close> event if it is the crossing.
\<close>

lemma service_record_usage_reports:
  assumes "resolve_policy st tenant (qw_db w) = Inr policy" and "month_window_key moment = Inr window"
    and "record_monthly_usage tenant (quota_resource_value resource) delta window (usage_limit resource policy)
      (tp_warning_ratio_basis_points policy) (qw_db w) = (u, db')"
    and "service_record_usage st tenant resource delta moment w = (r, w')"
  shows "(ur_granted u \<longrightarrow> r = Inr () \<and> qw_db w' = db' \<and>
       map qe_type (qw_events w') = map qe_type (qw_events w) @ (if ur_crossed_warning u then [''quota.warning''] else [])) \<and>
     (\<not> ur_granted u \<longrightarrow> r = Inl (QuotaExceeded resource LIMIT_EXCEEDED (ur_used u) (usage_limit resource policy)) \<and>
       qw_db w' = qw_db w \<and> map qe_type (qw_events w') = map qe_type (qw_events w) @ [''quota.exceeded''])"
proof -
  have "\<not> ur_granted u \<Longrightarrow> db' = qw_db w"
    using assms(3) by (auto simp: record_monthly_usage_eq Let_def split: if_splits)
  then show ?thesis using assms
    by (auto simp: service_record_usage_def bind_a_def resolve_policy_a_def lift_a_def in_store_def then_a_def
        emit_quota_def modify_a_def raise_a_def return_a_def Let_def split: if_splits)
qed

end
