(* ===== verification/Py_Glob.thy ===== *)
theory Py_Glob
  imports Py_Value
begin

text \<open>
  \<open>fnmatch.fnmatch\<close> of Python's standard library on a POSIX system: \<open>*\<close> matches any text,
  \<open>?\<close> any character, \<open>[seq]\<close> a character of the sequence, \<open>[!seq]\<close> one that is not in
  it; a bracket that is not closed is a literal one. A range whose ends are reversed is empty.
\<close>

datatype glob_item = GStar | GAny | GLit char | GSet bool "(char \<times> char) list"

text \<open>The characters of a sequence, read from the left: \<open>a-b\<close> is a range, all else stands for itself.\<close>

fun glob_ranges :: "string \<Rightarrow> (char \<times> char) list" where
  "glob_ranges (a # d # b # cs) =
     (if d = CHR ''-'' then (a, b) # glob_ranges cs else (a, a) # glob_ranges (d # b # cs))"
| "glob_ranges (a # cs) = (a, a) # glob_ranges cs"
| "glob_ranges [] = []"

text \<open>The body of a bracket: a first \<open>!\<close> negates, a \<open>]\<close> in the first place does not close it.\<close>

definition glob_close :: "string \<Rightarrow> (string \<times> string) option" where
  "glob_close cs =
     (let (first, rest) = (case cs of c # cs' \<Rightarrow> if c = CHR '']'' then ([c], cs') else ([], cs) | [] \<Rightarrow> ([], cs));
          (body, tail) = (takeWhile (\<lambda>c. c \<noteq> CHR '']'') rest, dropWhile (\<lambda>c. c \<noteq> CHR '']'') rest)
      in case tail of [] \<Rightarrow> None | _ # after \<Rightarrow> Some (first @ body, after))"

lemma glob_close_shorter: "glob_close cs = Some (body, after) \<Longrightarrow> length after < length cs"
proof -
  have "length after < length r" if "dropWhile p r = x # after" for p x and r :: string
  proof -
    have "Suc (length after) = length (dropWhile p r)" using that by simp
    also have "\<dots> \<le> length r" by (rule length_dropWhile_le)
    finally show ?thesis by simp
  qed
  note short = this
  assume "glob_close cs = Some (body, after)"
  then show ?thesis
    by (cases cs) (auto simp: glob_close_def Let_def split: list.splits if_splits dest: short intro: less_SucI)
qed

definition glob_bracket :: "string \<Rightarrow> (glob_item \<times> string) option" where
  "glob_bracket cs =
     (case cs of
        c # cs' \<Rightarrow> if c = CHR ''!''
          then map_option (\<lambda>(body, after). (GSet True (glob_ranges body), after)) (glob_close cs')
          else map_option (\<lambda>(body, after). (GSet False (glob_ranges body), after)) (glob_close cs)
      | [] \<Rightarrow> None)"

lemma glob_bracket_shorter: "glob_bracket cs = Some (it, after) \<Longrightarrow> length after < length cs"
  by (auto simp: glob_bracket_def split: list.splits if_splits dest: glob_close_shorter)

function parse_glob :: "string \<Rightarrow> glob_item list" where
  "parse_glob [] = []"
| "parse_glob (c # cs) =
     (if c = CHR ''*'' then GStar # parse_glob cs
      else if c = CHR ''?'' then GAny # parse_glob cs
      else if c = CHR ''['' then
        (case glob_bracket cs of None \<Rightarrow> GLit c # parse_glob cs | Some (it, after) \<Rightarrow> it # parse_glob after)
      else GLit c # parse_glob cs)"
  by pat_completeness auto

termination
  by (relation "measure length") (auto dest: glob_bracket_shorter)

fun in_ranges :: "char \<Rightarrow> (char \<times> char) list \<Rightarrow> bool" where
  "in_ranges c rs = (\<exists>(a, b) \<in> set rs. (of_char a :: nat) \<le> of_char c \<and> (of_char c :: nat) \<le> of_char b)"

fun item_matches :: "glob_item \<Rightarrow> char \<Rightarrow> bool" where
  "item_matches GStar c = True"
| "item_matches GAny c = True"
| "item_matches (GLit d) c = (c = d)"
| "item_matches (GSet neg rs) c = (in_ranges c rs \<noteq> neg)"

fun glob_match :: "glob_item list \<Rightarrow> string \<Rightarrow> bool" where
  "glob_match [] s = (s = [])"
| "glob_match (GStar # gs) [] = glob_match gs []"
| "glob_match (GStar # gs) (c # s) = (glob_match gs (c # s) \<or> glob_match (GStar # gs) s)"
| "glob_match (g # gs) [] = False"
| "glob_match (g # gs) (c # s) = (item_matches g c \<and> glob_match gs s)"

definition fnmatch :: "string \<Rightarrow> string \<Rightarrow> bool" where
  "fnmatch name pat = glob_match (parse_glob pat) name"

subsection \<open>Laws\<close>

text \<open>A star matches any prefix of the rest.\<close>

lemma glob_match_star: "glob_match (GStar # gs) s \<longleftrightarrow> (\<exists>u v. s = u @ v \<and> glob_match gs v)"
proof (induction s)
  case (Cons c s)
  show ?case
  proof
    assume "glob_match (GStar # gs) (c # s)"
    then consider "glob_match gs (c # s)" | "glob_match (GStar # gs) s" by auto
    then show "\<exists>u v. c # s = u @ v \<and> glob_match gs v"
    proof cases
      case 1
      then show ?thesis by (intro exI [of _ "[]"] exI [of _ "c # s"]) simp
    next
      case 2
      then obtain u v where "s = u @ v" "glob_match gs v" using Cons by blast
      then show ?thesis by (intro exI [of _ "c # u"] exI [of _ v]) simp
    qed
  next
    assume "\<exists>u v. c # s = u @ v \<and> glob_match gs v"
    then obtain u v where "c # s = u @ v" "glob_match gs v" by blast
    then show "glob_match (GStar # gs) (c # s)" using Cons by (cases u) auto
  qed
qed auto

lemma fnmatch_star: "fnmatch name ''*''"
  unfolding fnmatch_def using glob_match_star [of "[]" name] by simp

definition glob_plain :: "string \<Rightarrow> bool" where
  "glob_plain pat = (\<forall>c\<in>set pat. c \<noteq> CHR ''*'' \<and> c \<noteq> CHR ''?'' \<and> c \<noteq> CHR ''['')"

lemma fnmatch_plain: "glob_plain pat \<Longrightarrow> fnmatch name pat \<longleftrightarrow> name = pat"
proof -
  assume "glob_plain pat"
  then have "glob_match (parse_glob pat) name \<longleftrightarrow> name = pat"
  proof (induction pat arbitrary: name)
    case (Cons c pat)
    then show ?case by (cases name) (auto simp: glob_plain_def)
  qed simp
  then show ?thesis by (simp add: fnmatch_def)
qed

end
