(* ===== verification/Exec_Policy.thy ===== *)
theory Exec_Policy
  imports Py_Glob Sql_Table Flow_Monad
begin

text \<open>
  The execution policy engine (\<^verbatim>\<open>backend/execution/policy.py\<close>, with the actions of
  \<^verbatim>\<open>backend/execution/contracts.py\<close>): the rules of a tenant, its dynamic permissions, the audit of
  decisions and the decision itself. Fresh identifiers (\<open>uuid4\<close>) and clock readings, in
  microseconds, are arguments. The emitted events are the list of the calls of \<open>emit_event\<close>, which
  never raises.
\<close>

subsection \<open>Actions\<close>

datatype execution_action_type = CREATE_FILE | EDIT_FILE | APPLY_PATCH | RUN_COMMAND | RUN_VALIDATION

fun action_type_value :: "execution_action_type \<Rightarrow> string" where
  "action_type_value CREATE_FILE = ''create_file''"
| "action_type_value EDIT_FILE = ''edit_file''"
| "action_type_value APPLY_PATCH = ''apply_patch''"
| "action_type_value RUN_COMMAND = ''run_command''"
| "action_type_value RUN_VALIDATION = ''run_validation''"

record exec_patch =
  pt_path :: string
  pt_original :: string
  pt_updated :: string
  pt_diff :: string

record execution_action =
  ea_action_id :: string
  ea_type :: execution_action_type
  ea_task_id :: string
  ea_step_key :: string
  ea_path :: "string option"
  ea_content :: "string option"
  ea_patch :: "exec_patch option"
  ea_command :: "string list option"
  ea_cwd :: string
  ea_step_label :: "string option"

subsection \<open>Rules and decisions\<close>

datatype policy_category = CatShell | CatFsWrite | CatPatch | CatNetwork | CatSecretsRead | CatValidation

fun category_value :: "policy_category \<Rightarrow> string" where
  "category_value CatShell = ''shell''"
| "category_value CatFsWrite = ''fs-write''"
| "category_value CatPatch = ''patch''"
| "category_value CatNetwork = ''network''"
| "category_value CatSecretsRead = ''secrets-read''"
| "category_value CatValidation = ''validation''"

definition policy_categories :: "policy_category list" where
  "policy_categories = [CatShell, CatFsWrite, CatPatch, CatNetwork, CatSecretsRead, CatValidation]"

fun action_category :: "execution_action_type \<Rightarrow> policy_category" where
  "action_category CREATE_FILE = CatFsWrite"
| "action_category EDIT_FILE = CatFsWrite"
| "action_category APPLY_PATCH = CatPatch"
| "action_category RUN_COMMAND = CatShell"
| "action_category RUN_VALIDATION = CatValidation"

datatype policy_effect = EffAllow | EffDeny

fun effect_value :: "policy_effect \<Rightarrow> string" where
  "effect_value EffAllow = ''allow''"
| "effect_value EffDeny = ''deny''"

datatype policy_scope_kind = ScopeProject | ScopeRepository | ScopeSession

record policy_rule =
  ru_category :: policy_category
  ru_effect :: policy_effect
  ru_scope_kind :: policy_scope_kind
  ru_scope_id :: string
  ru_pattern :: "string option"

record policy_decision =
  pc_allowed :: bool
  pc_matched :: bool
  pc_reason :: string

datatype decision_status = DecPending | DecApproved | DecDenied | DecTimedOut

fun decision_status_value :: "decision_status \<Rightarrow> string" where
  "decision_status_value DecPending = ''pending''"
| "decision_status_value DecApproved = ''approved''"
| "decision_status_value DecDenied = ''denied''"
| "decision_status_value DecTimedOut = ''timed_out''"

record pending_decision =
  dn_decision_id :: string
  dn_tenant_id :: string
  dn_run_id :: string
  dn_task_id :: string
  dn_action_id :: string
  dn_category :: policy_category
  dn_prompt :: string
  dn_status :: decision_status
  dn_created_at :: int
  dn_expires_at :: int
  dn_decided_by :: "string option"
  dn_decided_at :: "int option"
  dn_pattern :: "string option"

datatype exec_error =
    PolicyMissing string
  | DecisionNotFound string
  | DecisionAlreadyResolved string

subsection \<open>The tables\<close>

record rule_row =
  rw_rule_id :: string
  rw_tenant_id :: string
  rw_rule :: policy_rule
  rw_created_at :: int

record permission_row =
  pw_permission_id :: string
  pw_tenant_id :: string
  pw_category :: policy_category
  pw_scope_kind :: policy_scope_kind
  pw_scope_id :: string
  pw_pattern :: "string option"
  pw_created_at :: int
  pw_created_by :: string

record audit_row =
  ad_decision_id :: string
  ad_tenant_id :: string
  ad_run_id :: string
  ad_action_id :: string
  ad_category :: policy_category
  ad_allowed :: bool
  ad_reason :: string
  ad_actor :: string
  ad_decided_at :: int

record policy_db =
  p_rules :: "rule_row list"
  p_permissions :: "permission_row list"
  p_audit :: "audit_row list"
  p_pending :: "pending_decision list"

definition has_any_rules :: "string \<Rightarrow> policy_db \<Rightarrow> bool" where
  "has_any_rules tenant db = (filter (\<lambda>r. rw_tenant_id r = tenant) (p_rules db) \<noteq> [])"

definition list_rules :: "string \<Rightarrow> policy_db \<Rightarrow> policy_rule list" where
  "list_rules tenant db = map rw_rule (filter (\<lambda>r. rw_tenant_id r = tenant) (p_rules db))"

definition add_rule :: "string \<Rightarrow> string \<Rightarrow> policy_rule \<Rightarrow> int \<Rightarrow> policy_db \<Rightarrow> policy_db" where
  "add_rule rule_id tenant rule now db =
     db\<lparr>p_rules := p_rules db @ [\<lparr>rw_rule_id = rule_id, rw_tenant_id = tenant, rw_rule = rule, rw_created_at = now\<rparr>]\<rparr>"

definition permission_rule :: "permission_row \<Rightarrow> policy_rule" where
  "permission_rule r = \<lparr>ru_category = pw_category r, ru_effect = EffAllow, ru_scope_kind = pw_scope_kind r,
     ru_scope_id = pw_scope_id r, ru_pattern = pw_pattern r\<rparr>"

definition list_dynamic_permissions :: "string \<Rightarrow> policy_db \<Rightarrow> (string \<times> policy_rule) list" where
  "list_dynamic_permissions tenant db =
     map (\<lambda>r. (pw_permission_id r, permission_rule r)) (filter (\<lambda>r. pw_tenant_id r = tenant) (p_permissions db))"

definition add_dynamic_permission :: "string \<Rightarrow> string \<Rightarrow> policy_rule \<Rightarrow> string \<Rightarrow> int \<Rightarrow> policy_db \<Rightarrow> policy_db" where
  "add_dynamic_permission permission_id tenant rule actor now db =
     db\<lparr>p_permissions := p_permissions db @ [\<lparr>pw_permission_id = permission_id, pw_tenant_id = tenant,
       pw_category = ru_category rule, pw_scope_kind = ru_scope_kind rule, pw_scope_id = ru_scope_id rule,
       pw_pattern = ru_pattern rule, pw_created_at = now, pw_created_by = actor\<rparr>]\<rparr>"

definition remove_dynamic_permission :: "string \<Rightarrow> string \<Rightarrow> policy_db \<Rightarrow> bool \<times> policy_db" where
  "remove_dynamic_permission tenant permission_id db =
     (let hit = (\<lambda>r. pw_tenant_id r = tenant \<and> pw_permission_id r = permission_id)
      in (filter hit (p_permissions db) \<noteq> [], db\<lparr>p_permissions := filter (\<lambda>r. \<not> hit r) (p_permissions db)\<rparr>))"

definition record_policy_decision :: "audit_row \<Rightarrow> policy_db \<Rightarrow> policy_db" where
  "record_policy_decision row db = db\<lparr>p_audit := p_audit db @ [row]\<rparr>"

definition create_pending_decision :: "string \<Rightarrow> int \<Rightarrow> string \<Rightarrow> string \<Rightarrow> string \<Rightarrow> string \<Rightarrow> policy_category \<Rightarrow>
    string \<Rightarrow> int \<Rightarrow> string option \<Rightarrow> policy_db \<Rightarrow> pending_decision \<times> policy_db" where
  "create_pending_decision decision_id now tenant run task action_id category prompt expires pattern db =
     (let d = \<lparr>dn_decision_id = decision_id, dn_tenant_id = tenant, dn_run_id = run, dn_task_id = task,
        dn_action_id = action_id, dn_category = category, dn_prompt = prompt, dn_status = DecPending,
        dn_created_at = now, dn_expires_at = expires, dn_decided_by = None, dn_decided_at = None, dn_pattern = pattern\<rparr>
      in (d, db\<lparr>p_pending := p_pending db @ [d]\<rparr>))"

definition get_pending_decision :: "string \<Rightarrow> policy_db \<Rightarrow> pending_decision option" where
  "get_pending_decision decision_id db = select_one dn_decision_id decision_id (p_pending db)"

text \<open>\<open>ORDER BY created_at DESC LIMIT 1\<close>; of several rows of the latest instant the first is taken.\<close>

fun latest_decision :: "pending_decision list \<Rightarrow> pending_decision option" where
  "latest_decision [] = None"
| "latest_decision (d # ds) =
     (case latest_decision ds of None \<Rightarrow> Some d | Some e \<Rightarrow> if dn_created_at d < dn_created_at e then Some e else Some d)"

definition get_decision_for_task :: "string \<Rightarrow> string \<Rightarrow> policy_db \<Rightarrow> pending_decision option" where
  "get_decision_for_task run task db =
     latest_decision (filter (\<lambda>d. dn_run_id d = run \<and> dn_task_id d = task) (p_pending db))"

definition list_pending_decisions :: "string \<Rightarrow> policy_db \<Rightarrow> pending_decision list" where
  "list_pending_decisions tenant db = filter (\<lambda>d. dn_tenant_id d = tenant \<and> dn_status d = DecPending) (p_pending db)"

definition list_due_pending_decisions :: "int \<Rightarrow> policy_db \<Rightarrow> pending_decision list" where
  "list_due_pending_decisions before db = filter (\<lambda>d. dn_status d = DecPending \<and> dn_expires_at d \<le> before) (p_pending db)"

definition awaiting_decision :: "string \<Rightarrow> pending_decision \<Rightarrow> bool" where
  "awaiting_decision decision_id d = (dn_decision_id d = decision_id \<and> dn_status d = DecPending)"

definition resolve_pending_decision :: "string \<Rightarrow> decision_status \<Rightarrow> string \<Rightarrow> int \<Rightarrow> policy_db \<Rightarrow> bool \<times> policy_db" where
  "resolve_pending_decision decision_id status decided_by now db =
     (filter (awaiting_decision decision_id) (p_pending db) \<noteq> [],
      db\<lparr>p_pending := update_where (awaiting_decision decision_id)
        (\<lambda>d. d\<lparr>dn_status := status, dn_decided_by := Some decided_by, dn_decided_at := Some now\<rparr>) (p_pending db)\<rparr>)"

subsection \<open>The service\<close>

definition match_target :: "execution_action \<Rightarrow> string" where
  "match_target action =
     (case ea_command action of
        Some (c # cs) \<Rightarrow> c
      | _ \<Rightarrow> (case ea_path action of None \<Rightarrow> [] | Some p \<Rightarrow> p))"

definition local_default_rules :: "policy_rule list" where
  "local_default_rules = map (\<lambda>c. \<lparr>ru_category = c, ru_effect = EffAllow, ru_scope_kind = ScopeProject,
     ru_scope_id = ''*'', ru_pattern = None\<rparr>) policy_categories"

definition resolve_rules :: "bool \<Rightarrow> string \<Rightarrow> policy_db \<Rightarrow> (exec_error, policy_rule list) result" where
  "resolve_rules production tenant db =
     (if has_any_rules tenant db then Inr (list_rules tenant db)
      else if production then Inl (PolicyMissing tenant)
      else Inr local_default_rules)"

definition rule_matches :: "policy_category \<Rightarrow> string \<Rightarrow> policy_rule \<Rightarrow> bool" where
  "rule_matches category target rule =
     (ru_category rule = category \<and> (case ru_pattern rule of None \<Rightarrow> True | Some p \<Rightarrow> fnmatch target p))"

definition score_rules :: "nat \<Rightarrow> policy_category \<Rightarrow> string \<Rightarrow> policy_rule list \<Rightarrow> (nat \<times> policy_rule) list" where
  "score_rules base category target rules =
     map (\<lambda>r. (base + (if ru_pattern r \<noteq> None then 1 else 0), r)) (filter (rule_matches category target) rules)"

definition matched_rule :: "(nat \<times> policy_rule) list \<Rightarrow> policy_rule option" where
  "matched_rule scored =
     (if scored = [] then None
      else let top_score = Max (set (map fst scored));
               top = map snd (filter (\<lambda>(s, r). s = top_score) scored);
               denies = filter (\<lambda>r. ru_effect r = EffDeny) top
           in Some (if denies \<noteq> [] then hd denies else hd top))"

definition decide_action :: "bool \<Rightarrow> string \<Rightarrow> execution_action \<Rightarrow> policy_db \<Rightarrow> (exec_error, policy_category \<times> policy_decision) result" where
  "decide_action production tenant action db =
     (let category = action_category (ea_type action) in
      bind_r (resolve_rules production tenant db) (\<lambda>rules.
      let dynamic = map snd (list_dynamic_permissions tenant db);
          target = match_target action;
          scored = score_rules 2 category target dynamic @ score_rules 0 category target rules
      in Inr (category,
        case matched_rule scored of
          None \<Rightarrow> \<lparr>pc_allowed = False, pc_matched = False, pc_reason = ''no matching policy rule''\<rparr>
        | Some r \<Rightarrow> \<lparr>pc_allowed = (ru_effect r = EffAllow), pc_matched = True,
            pc_reason = effect_value (ru_effect r) @ '' rule for '' @ category_value category\<rparr>)))"

definition preview :: "bool \<Rightarrow> string \<Rightarrow> execution_action \<Rightarrow> policy_db \<Rightarrow> (exec_error, policy_decision) result" where
  "preview production tenant action db = bind_r (decide_action production tenant action db) (\<lambda>(c, d). Inr d)"

text \<open>The events of the execution components: type, tenant, partition, subject and the text fields of the data.\<close>

record exec_event =
  xe_type :: string
  xe_tenant :: string
  xe_partition :: string
  xe_subject_task :: string
  xe_data :: "(string \<times> pyval) list"

record 'e exec_world =
  xw_db :: policy_db
  xw_events :: "exec_event list"
  xw_env :: 'e

type_synonym ('a, 'e) exec_action = "(exec_error, 'a, 'e exec_world) action"

definition emit_exec :: "exec_event \<Rightarrow> (unit, 'e) exec_action" where
  "emit_exec ev = modify_a (\<lambda>w. w\<lparr>xw_events := xw_events w @ [ev]\<rparr>)"

definition in_policy_store :: "(policy_db \<Rightarrow> 'a \<times> policy_db) \<Rightarrow> ('a, 'e) exec_action" where
  "in_policy_store f w = (let (x, db) = f (xw_db w) in (Inr x, w\<lparr>xw_db := db\<rparr>))"

definition evaluate :: "bool \<Rightarrow> string \<Rightarrow> int \<Rightarrow> string \<Rightarrow> execution_action \<Rightarrow> string \<Rightarrow> string \<Rightarrow> (policy_decision, 'e) exec_action" where
  "evaluate production audit_id now tenant action run actor =
     bind_a (\<lambda>w. (decide_action production tenant action (xw_db w), w)) (\<lambda>(category, decision).
     then_a (in_policy_store (\<lambda>db. ((), record_policy_decision
        \<lparr>ad_decision_id = audit_id, ad_tenant_id = tenant, ad_run_id = run, ad_action_id = ea_action_id action,
         ad_category = category, ad_allowed = pc_allowed decision, ad_reason = pc_reason decision, ad_actor = actor,
         ad_decided_at = now\<rparr> db)))
     (then_a (emit_exec
        \<lparr>xe_type = (if pc_allowed decision then ''execution.policy.allowed'' else ''execution.policy.denied''),
         xe_tenant = tenant, xe_partition = run, xe_subject_task = ea_task_id action,
         xe_data = [(''actionId'', PStr (ea_action_id action)), (''category'', PStr (category_value category)),
           (''reason'', PStr (pc_reason decision))]\<rparr>)
     (return_a decision)))"

text \<open>The administration of rules and permissions passes on to the store.\<close>

definition set_rule :: "string \<Rightarrow> string \<Rightarrow> policy_rule \<Rightarrow> int \<Rightarrow> (string, 'e) exec_action" where
  "set_rule rule_id tenant rule now = in_policy_store (\<lambda>db. (rule_id, add_rule rule_id tenant rule now db))"

definition grant_dynamic_permission :: "string \<Rightarrow> string \<Rightarrow> policy_rule \<Rightarrow> string \<Rightarrow> int \<Rightarrow> (string, 'e) exec_action" where
  "grant_dynamic_permission permission_id tenant rule actor now =
     in_policy_store (\<lambda>db. (permission_id, add_dynamic_permission permission_id tenant rule actor now db))"

definition revoke_dynamic_permission :: "string \<Rightarrow> string \<Rightarrow> (bool, 'e) exec_action" where
  "revoke_dynamic_permission tenant permission_id = in_policy_store (remove_dynamic_permission tenant permission_id)"

subsection \<open>Laws of the decision\<close>

lemma matched_rule_None [simp]: "matched_rule scored = None \<longleftrightarrow> scored = []"
  by (simp add: matched_rule_def Let_def)

lemma matched_rule_Nil [simp]: "matched_rule [] = None"
  by simp

lemma matched_rule_SomeD:
  assumes "matched_rule scored = Some r"
  obtains s where "(s, r) \<in> set scored" and "\<And>s' r'. (s', r') \<in> set scored \<Longrightarrow> s' \<le> s"
    and "ru_effect r = EffAllow \<longleftrightarrow> (\<forall>r'. (s, r') \<in> set scored \<longrightarrow> ru_effect r' = EffAllow)"
proof -
  define m where "m = Max (set (map fst scored))"
  define top where "top = map snd (filter (\<lambda>(s, r). s = m) scored)"
  define denies where "denies = filter (\<lambda>r. ru_effect r = EffDeny) top"
  have ne: "scored \<noteq> []" and r: "r = (if denies \<noteq> [] then hd denies else hd top)"
    using assms by (auto simp: matched_rule_def Let_def m_def top_def denies_def split: if_splits)
  have mem: "x \<in> set top \<longleftrightarrow> (m, x) \<in> set scored" for x by (auto simp: top_def image_iff)
  have "m \<in> set (map fst scored)" unfolding m_def using ne by (intro Max_in) auto
  then have "top \<noteq> []" by (auto simp: top_def filter_empty_conv)
  moreover have "set denies \<subseteq> set top" by (auto simp: denies_def)
  ultimately have top: "r \<in> set top" using r by (auto dest: hd_in_set)
  have "s' \<le> m" if "(s', r') \<in> set scored" for s' r'
    unfolding m_def using that by (intro Max_ge) force+
  moreover have "ru_effect r = EffAllow \<longleftrightarrow> (\<forall>x\<in>set top. ru_effect x = EffAllow)"
  proof (cases "denies = []")
    case True
    then have "\<forall>x\<in>set top. ru_effect x = EffAllow"
      by (auto simp: denies_def filter_empty_conv) (metis policy_effect.exhaust)
    then show ?thesis using top by blast
  next
    case False
    then have "r \<in> set denies" using r by simp
    then show ?thesis using top by (force simp: denies_def)
  qed
  ultimately show thesis using top unfolding Ball_def mem by (intro that [of m])
qed

text \<open>
  The verdict in words: a matching dynamic permission allows; else the matching rules with a pattern
  decide, else the matching rules without one, and a denial among the deciding rules wins.
\<close>

definition reference_verdict :: "policy_rule list \<Rightarrow> policy_rule list \<Rightarrow> bool" where
  "reference_verdict dynamic rules =
     (let specific = filter (\<lambda>r. ru_pattern r \<noteq> None) rules; wide = filter (\<lambda>r. ru_pattern r = None) rules
      in if dynamic \<noteq> [] then True
         else if specific \<noteq> [] then \<forall>r\<in>set specific. ru_effect r = EffAllow
         else wide \<noteq> [] \<and> (\<forall>r\<in>set wide. ru_effect r = EffAllow))"

definition matching_permissions :: "string \<Rightarrow> execution_action \<Rightarrow> policy_db \<Rightarrow> policy_rule list" where
  "matching_permissions tenant action db =
     filter (rule_matches (action_category (ea_type action)) (match_target action)) (map snd (list_dynamic_permissions tenant db))"

definition matching_rules :: "execution_action \<Rightarrow> policy_rule list \<Rightarrow> policy_rule list" where
  "matching_rules action rules = filter (rule_matches (action_category (ea_type action)) (match_target action)) rules"

lemma permissions_allow: "r \<in> set (map snd (list_dynamic_permissions tenant db)) \<Longrightarrow> ru_effect r = EffAllow"
  by (auto simp: list_dynamic_permissions_def permission_rule_def)

lemma score_rules_set:
  "(s, r) \<in> set (score_rules b c t rs) \<longleftrightarrow>
     r \<in> set (filter (rule_matches c t) rs) \<and> s = b + (if ru_pattern r \<noteq> None then 1 else 0)"
  by (auto simp: score_rules_def image_iff)

lemma matched_rule_reference:
  assumes "\<And>r. r \<in> set dyn \<Longrightarrow> ru_effect r = EffAllow"
    and "matched_rule (score_rules 2 c t dyn @ score_rules 0 c t rules) = Some r"
  shows "ru_effect r = EffAllow \<longleftrightarrow> reference_verdict (filter (rule_matches c t) dyn) (filter (rule_matches c t) rules)"
proof -
  let ?D = "filter (rule_matches c t) dyn" and ?R = "filter (rule_matches c t) rules"
  let ?sc = "score_rules 2 c t dyn @ score_rules 0 c t rules"
  obtain s where s: "(s, r) \<in> set ?sc" and top: "\<And>s' r'. (s', r') \<in> set ?sc \<Longrightarrow> s' \<le> s"
    and eff: "ru_effect r = EffAllow \<longleftrightarrow> (\<forall>r'. (s, r') \<in> set ?sc \<longrightarrow> ru_effect r' = EffAllow)"
    using matched_rule_SomeD [OF assms(2)] by metis
  have cases: "(s', r') \<in> set ?sc \<longleftrightarrow> r' \<in> set ?D \<and> s' = 2 + (if ru_pattern r' \<noteq> None then 1 else 0) \<or>
      r' \<in> set ?R \<and> s' = (if ru_pattern r' \<noteq> None then 1 else 0)" for s' r'
    by (auto simp: score_rules_set)
  show ?thesis
  proof (cases "?D = []")
    case False
    then obtain d where "d \<in> set ?D" by (cases ?D) auto
    then have "2 \<le> s" using top [of _ d] unfolding cases by force
    then have "r \<in> set ?D" using s unfolding cases by (auto split: if_splits)
    then have "ru_effect r = EffAllow" using assms(1) by simp
    then show ?thesis using False by (simp add: reference_verdict_def Let_def)
  next
    case True
    have rR: "r \<in> set ?R" "s = (if ru_pattern r \<noteq> None then 1 else 0)" using s True unfolding cases by auto
    show ?thesis
    proof (cases "filter (\<lambda>r. ru_pattern r \<noteq> None) ?R = []")
      case False
      then obtain q where "q \<in> set ?R" "ru_pattern q \<noteq> None" by (auto simp: filter_empty_conv)
      then have "1 \<le> s" using top [of 1 q] unfolding cases by auto
      then have "s = 1" "ru_pattern r \<noteq> None" using rR(2) by (auto split: if_splits)
      then have "ru_effect r = EffAllow \<longleftrightarrow> (\<forall>q\<in>set (filter (\<lambda>r. ru_pattern r \<noteq> None) ?R). ru_effect q = EffAllow)"
        unfolding eff \<open>s = 1\<close> cases True by (auto split: if_splits)
      then show ?thesis using True False by (simp add: reference_verdict_def Let_def)
    next
      case specific: True
      then have none: "ru_pattern q = None" if "q \<in> set ?R" for q using that by (auto simp: filter_empty_conv)
      then have "s = 0" using rR by simp
      have "ru_effect r = EffAllow \<longleftrightarrow> (\<forall>q\<in>set (filter (\<lambda>r. ru_pattern r = None) ?R). ru_effect q = EffAllow)"
        unfolding eff \<open>s = 0\<close> cases True using none by (auto split: if_splits)
      moreover have "filter (\<lambda>r. ru_pattern r = None) ?R \<noteq> []"
        using rR(1) none by (auto simp: filter_empty_conv)
      ultimately show ?thesis using True specific by (simp add: reference_verdict_def Let_def)
    qed
  qed
qed

definition verdict_decision :: "execution_action \<Rightarrow> policy_rule list \<Rightarrow> policy_rule list \<Rightarrow> policy_decision" where
  "verdict_decision action d m =
     \<lparr>pc_allowed = reference_verdict d m, pc_matched = (d \<noteq> [] \<or> m \<noteq> []),
      pc_reason = (if d = [] \<and> m = [] then ''no matching policy rule''
        else effect_value (if reference_verdict d m then EffAllow else EffDeny) @ '' rule for '' @
          category_value (action_category (ea_type action)))\<rparr>"

lemma decide_with_rules:
  assumes "resolve_rules production tenant db = Inr rules"
  shows "decide_action production tenant action db = Inr (action_category (ea_type action),
    verdict_decision action (matching_permissions tenant action db) (matching_rules action rules))"
proof -
  let ?c = "action_category (ea_type action)" and ?t = "match_target action"
  let ?dyn = "map snd (list_dynamic_permissions tenant db)"
  let ?sc = "score_rules 2 ?c ?t ?dyn @ score_rules 0 ?c ?t rules"
  let ?D = "matching_permissions tenant action db" and ?M = "matching_rules action rules"
  have empty: "?sc = [] \<longleftrightarrow> ?D = [] \<and> ?M = []"
    by (simp add: score_rules_def matching_permissions_def matching_rules_def)
  show ?thesis
  proof (cases "matched_rule ?sc")
    case None
    then show ?thesis using empty
      by (simp add: decide_action_def assms Let_def reference_verdict_def verdict_decision_def)
  next
    case (Some r)
    have ne: "\<not> (?D = [] \<and> ?M = [])" using Some empty by (metis matched_rule_None option.distinct(1))
    have eff: "ru_effect r = EffAllow \<longleftrightarrow> reference_verdict ?D ?M"
      unfolding matching_permissions_def matching_rules_def
      by (rule matched_rule_reference [OF permissions_allow Some])
    then have "ru_effect r = (if reference_verdict ?D ?M then EffAllow else EffDeny)"
      by (metis policy_effect.exhaust)
    then show ?thesis using ne Some eff by (auto simp: decide_action_def assms Let_def verdict_decision_def)
  qed
qed

text \<open>
  C12. The decision of the engine is the verdict of the precedence that its scores encode: a matching
  dynamic permission allows, with a pattern or without; else the matching rules with a pattern decide,
  else the matching rules without one, and a denial among the deciding rules wins. With the rules that
  govern the tenant, an action is matched exactly when some dynamic permission or rule matches it, and
  allowed exactly by that verdict; without a rule in production the evaluation raises, and a tenant
  without rules elsewhere is governed by the permissive default. The manuals
  \<^verbatim>\<open>docs/execution/permissions.md\<close> and \<^verbatim>\<open>docs/security.md\<close> rank rules with a pattern above dynamic
  permissions without one; the code does not, so a permission granted for a whole category overrides a
  denial of one command.
\<close>

theorem decide_reference:
  "decide_action production tenant action db =
     (if has_any_rules tenant db
      then Inr (action_category (ea_type action),
        verdict_decision action (matching_permissions tenant action db) (matching_rules action (list_rules tenant db)))
      else if production then Inl (PolicyMissing tenant)
      else Inr (action_category (ea_type action),
        verdict_decision action (matching_permissions tenant action db) (matching_rules action local_default_rules)))"
proof (cases "has_any_rules tenant db \<or> \<not> production")
  case True
  then show ?thesis by (auto intro!: decide_with_rules simp: resolve_rules_def)
next
  case False
  then show ?thesis by (simp add: decide_action_def resolve_rules_def)
qed

text \<open>Evaluating changes neither rules nor permissions, so a decision does not depend on earlier ones.\<close>

lemma decide_cong:
  "p_rules db = p_rules db' \<Longrightarrow> p_permissions db = p_permissions db' \<Longrightarrow> decide_action production tenant action db = decide_action production tenant action db'"
  by (simp add: decide_action_def resolve_rules_def has_any_rules_def list_rules_def list_dynamic_permissions_def)

lemma evaluate_effect:
  assumes "evaluate production audit_id now tenant action run actor w = (r, w')"
  shows "(case decide_action production tenant action (xw_db w) of
      Inl e \<Rightarrow> r = Inl e \<and> w' = w
    | Inr (category, d) \<Rightarrow> r = Inr d \<and> xw_env w' = xw_env w \<and>
        p_rules (xw_db w') = p_rules (xw_db w) \<and> p_permissions (xw_db w') = p_permissions (xw_db w) \<and>
        p_pending (xw_db w') = p_pending (xw_db w) \<and>
        (\<exists>row. p_audit (xw_db w') = p_audit (xw_db w) @ [row] \<and> ad_tenant_id row = tenant \<and> ad_run_id row = run \<and>
          ad_action_id row = ea_action_id action \<and> ad_allowed row = pc_allowed d \<and> ad_actor row = actor) \<and>
        (\<exists>ev. xw_events w' = xw_events w @ [ev] \<and>
          xe_type ev = (if pc_allowed d then ''execution.policy.allowed'' else ''execution.policy.denied'')))"
  using assms
  by (auto simp: evaluate_def bind_a_def then_a_def in_policy_store_def emit_exec_def modify_a_def return_a_def
      record_policy_decision_def Let_def split: sum.splits prod.splits)

subsection \<open>Scopes\<close>

definition rescope :: "(policy_rule \<Rightarrow> policy_scope_kind \<times> string) \<Rightarrow> policy_rule \<Rightarrow> policy_rule" where
  "rescope f r = r\<lparr>ru_scope_kind := fst (f r), ru_scope_id := snd (f r)\<rparr>"

definition rescope_rules :: "(policy_rule \<Rightarrow> policy_scope_kind \<times> string) \<Rightarrow> policy_db \<Rightarrow> policy_db" where
  "rescope_rules f db = db\<lparr>p_rules := map (\<lambda>row. row\<lparr>rw_rule := rescope f (rw_rule row)\<rparr>) (p_rules db)\<rparr>"

lemma rescope_simps [simp]:
  "ru_pattern (rescope f r) = ru_pattern r" "ru_effect (rescope f r) = ru_effect r"
  "rule_matches c t (rescope f r) = rule_matches c t r"
  by (simp_all add: rescope_def rule_matches_def)

lemma reference_verdict_rescope [simp]: "reference_verdict d (map (rescope f) rs) = reference_verdict d rs"
  by (simp add: reference_verdict_def Let_def filter_map comp_def)

lemma matching_rules_rescope: "matching_rules action (map (rescope f) rs) = map (rescope f) (matching_rules action rs)"
  by (simp add: matching_rules_def filter_map comp_def)

text \<open>
  The scope of a rule plays no part in a decision: whatever project, repository or session the
  rules of a tenant are restated for, every action of the tenant is decided as before. A denial
  written for one session holds for all, and so does a permission.
\<close>

theorem decide_ignores_scope:
  "decide_action production tenant action (rescope_rules f db) = decide_action production tenant action db"
proof -
  have "list_rules tenant (rescope_rules f db) = map (rescope f) (list_rules tenant db)"
    by (simp add: list_rules_def rescope_rules_def filter_map comp_def)
  moreover have "has_any_rules tenant (rescope_rules f db) = has_any_rules tenant db"
    by (simp add: has_any_rules_def rescope_rules_def filter_map comp_def)
  moreover have "matching_permissions tenant action (rescope_rules f db) = matching_permissions tenant action db"
    by (simp add: matching_permissions_def list_dynamic_permissions_def rescope_rules_def)
  moreover have "verdict_decision action d (map (rescope f) m) = verdict_decision action d m" for d m
    by (simp add: verdict_decision_def)
  ultimately show ?thesis
    unfolding decide_action_def resolve_rules_def using decide_with_rules [unfolded decide_action_def]
    by (cases "has_any_rules tenant db"; cases production)
      (simp_all add: decide_with_rules [unfolded decide_action_def] resolve_rules_def matching_rules_rescope Let_def)
qed

end
