(* ===== verification/Evolution.thy ===== *)
theory Evolution
  imports Flow_Prelude
begin

text \<open>
  The interface of a component whose state evolves by steps: each step keeps an invariant and relates
  the state before to the state after by a preorder that says what may never be undone.
\<close>

locale evolving =
  fixes inv :: "'s \<Rightarrow> bool" and step :: "'s \<Rightarrow> 's \<Rightarrow> bool" and le :: "'s \<Rightarrow> 's \<Rightarrow> bool"
  assumes inv_step: "inv s \<Longrightarrow> step s s' \<Longrightarrow> inv s'"
    and le_step: "inv s \<Longrightarrow> step s s' \<Longrightarrow> le s s'"
    and le_refl: "le s s"
    and le_trans: "le s s' \<Longrightarrow> le s' s'' \<Longrightarrow> le s s''"
begin

lemma reachable_evolves: "step\<^sup>*\<^sup>* s s' \<Longrightarrow> inv s \<Longrightarrow> inv s' \<and> le s s'"
  by (induction rule: rtranclp_induct) (auto intro: inv_step le_step le_refl le_trans)

end

end
