(* ===== verification/Exec_Decisions.thy ===== *)
theory Exec_Decisions
  imports Exec_Policy Evolution
begin

text \<open>
  Human decisions on execution tasks (\<^verbatim>\<open>backend/execution/decisions.py\<close>): requesting, resolving and
  expiring the pending decisions of the policy store. \<open>now\<close> is the reading of the service's clock
  at the start of an operation, \<open>now'\<close> a second reading and \<open>stamp\<close> the one with which the store stamps a row.
\<close>

definition human_event :: "string \<Rightarrow> string \<Rightarrow> string \<Rightarrow> string \<Rightarrow> (string \<times> pyval) list \<Rightarrow> exec_event" where
  "human_event ty tenant run task data =
     \<lparr>xe_type = ty, xe_tenant = tenant, xe_partition = run, xe_subject_task = task, xe_data = data\<rparr>"

definition resolved_event :: "pending_decision \<Rightarrow> string \<Rightarrow> decision_status \<Rightarrow> exec_event" where
  "resolved_event d tenant status = human_event ''run.human.resolved'' tenant (dn_run_id d) (dn_task_id d)
     [(''stepKey'', PStr (dn_task_id d)), (''decision'', PStr (decision_status_value status))]"

text \<open>The loop of \<open>expire_due_decisions\<close> over the due decisions.\<close>

fun expire_each :: "int \<Rightarrow> pending_decision list \<Rightarrow> (pending_decision list, 'e) exec_action" where
  "expire_each stamp [] = return_a []"
| "expire_each stamp (d # ds) =
     bind_a (in_policy_store (resolve_pending_decision (dn_decision_id d) DecTimedOut ''system:timeout'' stamp)) (\<lambda>ok.
       if \<not> ok then expire_each stamp ds
       else then_a (emit_exec (resolved_event d (dn_tenant_id d) DecTimedOut))
         (bind_a (gets_a (\<lambda>w. get_pending_decision (dn_decision_id d) (xw_db w))) (\<lambda>refreshed.
          bind_a (expire_each stamp ds) (\<lambda>rest.
            return_a (case refreshed of None \<Rightarrow> rest | Some r \<Rightarrow> r # rest)))))"

definition expire_due_decisions :: "int \<Rightarrow> int \<Rightarrow> (pending_decision list, 'e) exec_action" where
  "expire_due_decisions cutoff stamp =
     bind_a (gets_a (\<lambda>w. list_due_pending_decisions cutoff (xw_db w))) (expire_each stamp)"

definition maybe_expire :: "int \<Rightarrow> int \<Rightarrow> int \<Rightarrow> pending_decision \<Rightarrow> (pending_decision, 'e) exec_action" where
  "maybe_expire now now' stamp pending =
     (if dn_status pending \<noteq> DecPending then return_a pending
      else if now < dn_expires_at pending then return_a pending
      else then_a (expire_due_decisions now' stamp)
        (gets_a (\<lambda>w. case get_pending_decision (dn_decision_id pending) (xw_db w) of None \<Rightarrow> pending | Some r \<Rightarrow> r)))"

definition request_decision :: "int \<Rightarrow> string \<Rightarrow> int \<Rightarrow> int \<Rightarrow> int \<Rightarrow> string \<Rightarrow> string \<Rightarrow> string \<Rightarrow> execution_action \<Rightarrow> policy_category \<Rightarrow>
    string \<Rightarrow> string option \<Rightarrow> (pending_decision, 'e) exec_action" where
  "request_decision timeout_seconds decision_id now now' stamp tenant run task action category prompt pattern =
     bind_a (gets_a (\<lambda>w. get_decision_for_task run task (xw_db w))) (\<lambda>existing.
       case existing of
         Some d \<Rightarrow> maybe_expire now now' stamp d
       | None \<Rightarrow>
           bind_a (in_policy_store (create_pending_decision decision_id stamp tenant run task (ea_action_id action) category
             prompt (now + timeout_seconds * 1000000) pattern)) (\<lambda>d.
           then_a (emit_exec (human_event ''run.human.requested'' tenant run task
             [(''stepKey'', PStr task), (''prompt'', PStr prompt)])) (return_a d)))"

definition get_for_task :: "int \<Rightarrow> int \<Rightarrow> int \<Rightarrow> string \<Rightarrow> string \<Rightarrow> (pending_decision option, 'e) exec_action" where
  "get_for_task now now' stamp run task =
     bind_a (gets_a (\<lambda>w. get_decision_for_task run task (xw_db w))) (\<lambda>existing.
       case existing of
         None \<Rightarrow> return_a None
       | Some d \<Rightarrow> bind_a (maybe_expire now now' stamp d) (\<lambda>d'. return_a (Some d')))"

definition resolve_decision :: "int \<Rightarrow> int \<Rightarrow> int \<Rightarrow> string \<Rightarrow> string \<Rightarrow> decision_status \<Rightarrow> string \<Rightarrow> (pending_decision option, 'e) exec_action" where
  "resolve_decision now now' stamp decision_id tenant status actor =
     bind_a (gets_a (\<lambda>w. get_pending_decision decision_id (xw_db w))) (\<lambda>found.
       case found of
         None \<Rightarrow> raise_a (DecisionNotFound decision_id)
       | Some d \<Rightarrow>
           if dn_tenant_id d \<noteq> tenant then raise_a (DecisionNotFound decision_id)
           else bind_a (maybe_expire now now' stamp d) (\<lambda>pending.
             if dn_status pending \<noteq> DecPending then raise_a (DecisionAlreadyResolved decision_id)
             else bind_a (in_policy_store (resolve_pending_decision decision_id status actor stamp)) (\<lambda>ok.
               if \<not> ok then raise_a (DecisionAlreadyResolved decision_id)
               else then_a (emit_exec (resolved_event pending tenant status))
                 (gets_a (\<lambda>w. get_pending_decision decision_id (xw_db w))))))"

definition list_pending :: "int \<Rightarrow> int \<Rightarrow> string \<Rightarrow> (pending_decision list, 'e) exec_action" where
  "list_pending now stamp tenant =
     then_a (expire_due_decisions now stamp) (gets_a (\<lambda>w. list_pending_decisions tenant (xw_db w)))"

subsection \<open>Expiry\<close>

definition timed_out :: "int \<Rightarrow> pending_decision \<Rightarrow> pending_decision" where
  "timed_out stamp d = d\<lparr>dn_status := DecTimedOut, dn_decided_by := Some ''system:timeout'', dn_decided_at := Some stamp\<rparr>"

text \<open>What the operations on decisions leave alone: rules, permissions, audit and environment.\<close>

definition same_policy :: "'e exec_world \<Rightarrow> 'e exec_world \<Rightarrow> bool" where
  "same_policy w w' = (p_rules (xw_db w') = p_rules (xw_db w) \<and> p_permissions (xw_db w') = p_permissions (xw_db w) \<and>
     p_audit (xw_db w') = p_audit (xw_db w) \<and> xw_env w' = xw_env w)"

lemma same_policy_refl [simp]: "same_policy w w"
  by (simp add: same_policy_def)

lemma same_policy_trans: "same_policy w w' \<Longrightarrow> same_policy w' w'' \<Longrightarrow> same_policy w w''"
  by (simp add: same_policy_def)

lemma wp_in_policy_store [simp]:
  "wp (in_policy_store f) Q E w = Q (fst (f (xw_db w))) (w\<lparr>xw_db := snd (f (xw_db w))\<rparr>)"
  by (simp add: wp_def in_policy_store_def split: prod.splits)

lemma wp_emit_exec [simp]: "wp (emit_exec ev) Q E w = Q () (w\<lparr>xw_events := xw_events w @ [ev]\<rparr>)"
  by (simp add: wp_def emit_exec_def modify_a_def)

definition expired_to :: "int \<Rightarrow> string set \<Rightarrow> 'e exec_world \<Rightarrow> 'e exec_world \<Rightarrow> bool" where
  "expired_to stamp ids w w' = (same_policy w w' \<and>
     p_pending (xw_db w') = update_where (\<lambda>d. dn_status d = DecPending \<and> dn_decision_id d \<in> ids) (timed_out stamp) (p_pending (xw_db w)))"

lemma expired_to_insert:
  assumes "expired_to stamp ids w1 w'" and "same_policy w w1"
    and "p_pending (xw_db w1) = p_pending (snd (resolve_pending_decision i DecTimedOut ''system:timeout'' stamp (xw_db w)))"
  shows "expired_to stamp (insert i ids) w w'"
  using assms by (auto simp: expired_to_def resolve_pending_decision_def update_where_def timed_out_def awaiting_decision_def
      intro: same_policy_trans)

lemma expire_each_effect:
  "wp (expire_each stamp ds) (\<lambda>_ w'. expired_to stamp (set (map dn_decision_id ds)) w w') (\<lambda>_ _. False) w"
proof (induction ds arbitrary: w)
  case Nil
  then show ?case by (simp add: expired_to_def update_where_def)
next
  case (Cons d ds)
  let ?r = "resolve_pending_decision (dn_decision_id d) DecTimedOut ''system:timeout'' stamp (xw_db w)"
  have step: "wp (expire_each stamp ds) (\<lambda>_ w'. expired_to stamp (set (map dn_decision_id (d # ds))) w w') (\<lambda>_ _. False) w1"
    if "w1 = w\<lparr>xw_db := snd ?r\<rparr> \<or> w1 = w\<lparr>xw_db := snd ?r, xw_events := evs\<rparr>" for w1 evs
    using that by (intro wp_mono [OF Cons.IH])
      (auto intro!: expired_to_insert simp: same_policy_def resolve_pending_decision_def)
  then show ?case by (auto simp: step intro!: step)
qed

lemma expire_due_effect:
  assumes "keyed dn_decision_id (p_pending (xw_db w))"
  shows "wp (expire_due_decisions cutoff stamp) (\<lambda>_ w'. same_policy w w' \<and>
     p_pending (xw_db w') = update_where (\<lambda>d. dn_status d = DecPending \<and> dn_expires_at d \<le> cutoff) (timed_out stamp) (p_pending (xw_db w)))
     (\<lambda>_ _. False) w"
proof -
  let ?ids = "set (map dn_decision_id (list_due_pending_decisions cutoff (xw_db w)))"
  have "dn_decision_id d \<in> ?ids \<longleftrightarrow> dn_expires_at d \<le> cutoff" if d: "d \<in> set (p_pending (xw_db w))" "dn_status d = DecPending" for d
  proof -
    have "e = d" if "e \<in> set (p_pending (xw_db w))" "dn_decision_id e = dn_decision_id d" for e
      using select_one_keyed [OF assms that(1)] select_one_keyed [OF assms d(1)] unfolding that(2) by simp
    then show ?thesis using d by (auto simp: list_due_pending_decisions_def)
  qed
  then have "update_where (\<lambda>d. dn_status d = DecPending \<and> dn_decision_id d \<in> ?ids) (timed_out stamp) (p_pending (xw_db w)) =
     update_where (\<lambda>d. dn_status d = DecPending \<and> dn_expires_at d \<le> cutoff) (timed_out stamp) (p_pending (xw_db w))"
    by (auto simp: update_where_def)
  then show ?thesis
    by (simp add: expire_due_decisions_def) (rule wp_mono [OF expire_each_effect], auto simp: expired_to_def)
qed

subsection \<open>What the operations do to the decisions\<close>

definition decision_inv :: "policy_db \<Rightarrow> bool" where
  "decision_inv db = (keyed dn_decision_id (p_pending db) \<and> keyed (\<lambda>d. (dn_run_id d, dn_task_id d)) (p_pending db))"

text \<open>A later form of a decision: the same request, and the same decision once there is one.\<close>

definition later_form :: "pending_decision \<Rightarrow> pending_decision \<Rightarrow> bool" where
  "later_form d d' = (d' = d \<or> dn_status d = DecPending \<and>
     (\<exists>st who t. d' = d\<lparr>dn_status := st, dn_decided_by := who, dn_decided_at := t\<rparr>))"

definition decisions_kept :: "policy_db \<Rightarrow> policy_db \<Rightarrow> bool" where
  "decisions_kept db db' = (\<forall>d\<in>set (p_pending db). \<exists>d'\<in>set (p_pending db'). later_form d d')"

lemma later_form_trans: "later_form a b \<Longrightarrow> later_form b c \<Longrightarrow> later_form a c"
  unfolding later_form_def by (elim disjE conjE exE) (simp_all, blast+)

lemma decisions_kept_refl: "decisions_kept db db"
  by (auto simp: decisions_kept_def later_form_def)

lemma decisions_kept_trans: "decisions_kept a b \<Longrightarrow> decisions_kept b c \<Longrightarrow> decisions_kept a c"
  unfolding decisions_kept_def by (meson later_form_trans)

definition decision_world_le :: "'e exec_world \<Rightarrow> 'e exec_world \<Rightarrow> bool" where
  "decision_world_le w w' = (decisions_kept (xw_db w) (xw_db w') \<and> same_policy w w')"

definition decision_world_inv :: "'e exec_world \<Rightarrow> bool" where
  "decision_world_inv w = decision_inv (xw_db w)"

text \<open>The condition under which an update of pending rows is an evolution.\<close>

lemma update_pending_evolves:
  assumes "decision_inv (xw_db w)" and "same_policy w w'"
    and "p_pending (xw_db w') = update_where p (\<lambda>d. d\<lparr>dn_status := st, dn_decided_by := who, dn_decided_at := t\<rparr>) (p_pending (xw_db w))"
    and "\<And>d. p d \<Longrightarrow> dn_status d = DecPending"
  shows "decision_world_inv w' \<and> decision_world_le w w'"
proof
  show "decision_world_inv w'"
    using assms(1) by (simp add: decision_world_inv_def decision_inv_def assms(3) table_simps)
  show "decision_world_le w w'"
    using assms(2,4) by (auto simp: decision_world_le_def decisions_kept_def later_form_def assms(3) table_simps image_iff)
qed

lemma expire_due_evolves:
  assumes "decision_world_inv w"
  shows "wp (expire_due_decisions cutoff stamp) (\<lambda>_ w'. decision_world_inv w' \<and> decision_world_le w w') (\<lambda>_ _. False) w"
proof (rule wp_mono [OF expire_due_effect])
  show "keyed dn_decision_id (p_pending (xw_db w))"
    using assms by (simp add: decision_world_inv_def decision_inv_def)
next
  fix x w'
  assume "same_policy w w' \<and> p_pending (xw_db w') = update_where (\<lambda>d. dn_status d = DecPending \<and> dn_expires_at d \<le> cutoff)
      (timed_out stamp) (p_pending (xw_db w))"
  then show "decision_world_inv w' \<and> decision_world_le w w'"
    using assms by (intro update_pending_evolves [where p = "\<lambda>d. dn_status d = DecPending \<and> dn_expires_at d \<le> cutoff"
          and st = DecTimedOut and who = "Some ''system:timeout''" and t = "Some stamp"])
      (auto simp: decision_world_inv_def timed_out_def [abs_def])
qed

lemma decision_le_refl [simp]: "decision_world_le w w"
  by (simp add: decision_world_le_def decisions_kept_refl)

lemma decision_le_trans: "decision_world_le a b \<Longrightarrow> decision_world_le b c \<Longrightarrow> decision_world_le a c"
  unfolding decision_world_le_def by (blast intro: decisions_kept_trans same_policy_trans)

lemma maybe_expire_evolves:
  assumes "decision_world_inv w"
  shows "wp (maybe_expire now now' stamp d) (\<lambda>_ w'. decision_world_inv w' \<and> decision_world_le w w') (\<lambda>_ _. False) w"
  using assms expire_due_evolves [OF assms, of now' stamp] by (simp add: maybe_expire_def wp_gets_eta)

lemma decision_inv_events [simp]:
  "decision_world_inv (w\<lparr>xw_events := evs\<rparr>) = decision_world_inv w"
  "decision_world_le w (w'\<lparr>xw_events := evs\<rparr>) = decision_world_le w w'"
  by (simp_all add: decision_world_inv_def decision_world_le_def same_policy_def)

lemma latest_decision_None: "latest_decision ds = None \<longleftrightarrow> ds = []"
  by (cases ds) (auto split: option.splits)

lemma get_decision_for_task_None:
  "get_decision_for_task run task db = None \<longleftrightarrow> (\<forall>d\<in>set (p_pending db). \<not> (dn_run_id d = run \<and> dn_task_id d = task))"
  by (simp add: get_decision_for_task_def latest_decision_None filter_empty_conv)

lemma request_decision_evolves:
  assumes "decision_world_inv w" and "get_pending_decision decision_id (xw_db w) = None"
  shows "wp (request_decision timeout decision_id now now' stamp tenant run task action category prompt pattern)
    (\<lambda>_ w'. decision_world_inv w' \<and> decision_world_le w w') (\<lambda>_ _. False) w"
proof (cases "get_decision_for_task run task (xw_db w)")
  case None
  then have "\<forall>d\<in>set (p_pending (xw_db w)). \<not> (dn_run_id d = run \<and> dn_task_id d = task)"
    by (simp add: get_decision_for_task_None)
  then show ?thesis
    using assms None by (auto simp: request_decision_def create_pending_decision_def Let_def decision_world_inv_def decision_inv_def
      keyed_append_row select_one_None get_pending_decision_def decision_world_le_def decisions_kept_def later_form_def same_policy_def)
next
  case (Some d)
  then show ?thesis using maybe_expire_evolves [OF assms(1)] by (simp add: request_decision_def)
qed

lemma get_for_task_evolves:
  assumes "decision_world_inv w"
  shows "wp (get_for_task now now' stamp run task) (\<lambda>_ w'. decision_world_inv w' \<and> decision_world_le w w') (\<lambda>_ _. False) w"
  using assms maybe_expire_evolves [OF assms]
  by (cases "get_decision_for_task run task (xw_db w)") (simp_all add: get_for_task_def)

lemma resolve_decision_evolves:
  assumes "decision_world_inv w"
  shows "wp (resolve_decision now now' stamp decision_id tenant status actor)
    (\<lambda>_ w'. decision_world_inv w' \<and> decision_world_le w w') (\<lambda>_ w'. decision_world_inv w' \<and> decision_world_le w w') w"
proof -
  have res: "decision_world_inv (w1\<lparr>xw_db := snd (resolve_pending_decision decision_id status actor stamp (xw_db w1))\<rparr>) \<and>
      decision_world_le w (w1\<lparr>xw_db := snd (resolve_pending_decision decision_id status actor stamp (xw_db w1))\<rparr>)"
    if "decision_world_inv w1 \<and> decision_world_le w w1" for w1
  proof -
    let ?w2 = "w1\<lparr>xw_db := snd (resolve_pending_decision decision_id status actor stamp (xw_db w1))\<rparr>"
    have "decision_world_inv ?w2 \<and> decision_world_le w1 ?w2"
      using that by (intro update_pending_evolves [where p = "awaiting_decision decision_id"])
        (auto simp: decision_world_inv_def resolve_pending_decision_def same_policy_def awaiting_decision_def)
    then show ?thesis using that decision_le_trans by blast
  qed
  show ?thesis
  proof (cases "get_pending_decision decision_id (xw_db w)")
    case None
    then show ?thesis using assms by (simp add: resolve_decision_def)
  next
    case (Some d)
    have "wp (bind_a (maybe_expire now now' stamp d) (\<lambda>pending.
             if dn_status pending \<noteq> DecPending then raise_a (DecisionAlreadyResolved decision_id)
             else bind_a (in_policy_store (resolve_pending_decision decision_id status actor stamp)) (\<lambda>ok.
               if \<not> ok then raise_a (DecisionAlreadyResolved decision_id)
               else then_a (emit_exec (resolved_event pending tenant status))
                 (gets_a (\<lambda>w. get_pending_decision decision_id (xw_db w))))))
       (\<lambda>_ w'. decision_world_inv w' \<and> decision_world_le w w') (\<lambda>_ w'. decision_world_inv w' \<and> decision_world_le w w') w"
      by (rule wp_bindI [OF wp_mono [OF maybe_expire_evolves [OF assms]]]) (auto simp: res)
    then show ?thesis using Some assms by (simp add: resolve_decision_def)
  qed
qed

subsection \<open>Histories\<close>

text \<open>One operation of the service; a request brings a fresh identifier.\<close>

inductive decision_step :: "'e exec_world \<Rightarrow> 'e exec_world \<Rightarrow> bool" where
  request: "get_pending_decision decision_id (xw_db w) = None \<Longrightarrow>
    decision_step w (snd (request_decision timeout decision_id now now' stamp tenant run task action category prompt pattern w))"
| get: "decision_step w (snd (get_for_task now now' stamp run task w))"
| resolve: "decision_step w (snd (resolve_decision now now' stamp decision_id tenant status actor w))"
| expire: "decision_step w (snd (expire_due_decisions cutoff stamp w))"
| list: "decision_step w (snd (list_pending now stamp tenant w))"

lemma wp_snd: "wp m (\<lambda>_ w'. P w') E w \<Longrightarrow> (\<And>e w'. E e w' \<Longrightarrow> P w') \<Longrightarrow> P (snd (m w))"
  by (auto simp: wp_def split: prod.splits sum.splits)

lemma decision_step_evolves: "decision_step w w' \<Longrightarrow> decision_world_inv w \<Longrightarrow> decision_world_inv w' \<and> decision_world_le w w'"
proof (induction rule: decision_step.induct)
  case (request decision_id w timeout now now' stamp tenant run task action category prompt pattern)
  then show ?case by (intro wp_snd [OF request_decision_evolves]) auto
next
  case (get w now now' stamp run task)
  then show ?case by (intro wp_snd [OF get_for_task_evolves]) auto
next
  case (resolve w now now' stamp decision_id tenant status actor)
  then show ?case by (intro wp_snd [OF resolve_decision_evolves]) auto
next
  case (expire w cutoff stamp)
  then show ?case by (intro wp_snd [OF expire_due_evolves]) auto
next
  case (list w now stamp tenant)
  have "snd (list_pending now stamp tenant w) = snd (expire_due_decisions now stamp w)"
    using wp_Inr [OF expire_due_evolves [OF list, of now stamp]] by (auto simp: list_pending_def then_a_def bind_a_def gets_a_def)
  then show ?case using list wp_snd [OF expire_due_evolves [OF list], of now stamp] by auto
qed

interpretation decisions: evolving decision_world_inv decision_step decision_world_le
  by unfold_locales (auto dest: decision_step_evolves intro: decision_le_trans)

text \<open>
  C13. A human decision is final: through any sequence of requests, resolutions, reads and expiry
  sweeps, of all tenants and at any times, every decision that was once requested stays in the store
  with its request unchanged, one that was approved, denied or timed out never changes again, a task
  of a run has at most one decision, and no rule or permission is touched.
\<close>

theorem decisions_are_final:
  assumes "decision_step\<^sup>*\<^sup>* w w'" and "decision_inv (xw_db w)"
  shows "decision_inv (xw_db w') \<and> decisions_kept (xw_db w) (xw_db w') \<and>
    p_rules (xw_db w') = p_rules (xw_db w) \<and> p_permissions (xw_db w') = p_permissions (xw_db w)"
  using decisions.reachable_evolves [OF assms(1)] assms(2)
  by (simp add: decision_world_inv_def decision_world_le_def same_policy_def)

definition empty_policy_db :: policy_db where
  "empty_policy_db = \<lparr>p_rules = [], p_permissions = [], p_audit = [], p_pending = []\<rparr>"

definition sample_action :: execution_action where
  "sample_action = \<lparr>ea_action_id = ''a1'', ea_type = RUN_COMMAND, ea_task_id = ''t1'', ea_step_key = ''t1'', ea_path = None,
     ea_content = None, ea_patch = None, ea_command = Some [''make'', ''all''], ea_cwd = ''.'', ea_step_label = None\<rparr>"

definition sample_world :: "unit exec_world" where
  "sample_world = \<lparr>xw_db = empty_policy_db, xw_events = [], xw_env = ()\<rparr>"

theorem decisions_are_final_witness:
  "\<exists>w'. decision_step\<^sup>*\<^sup>* sample_world w' \<and>
     map dn_status (p_pending (xw_db w')) = [DecApproved] \<and> decision_inv (xw_db w')"
proof -
  let ?w1 = "snd (request_decision 60 ''d1'' 0 0 0 ''acme'' ''r'' ''t1'' sample_action CatShell ''ok?'' None sample_world)"
  let ?w2 = "snd (resolve_decision 5 5 6 ''d1'' ''acme'' DecApproved ''ann'' ?w1)"
  have "get_pending_decision ''d1'' (xw_db sample_world) = None" by code_simp
  then have "decision_step sample_world ?w1" by (rule decision_step.request)
  moreover have "decision_step ?w1 ?w2" by (rule decision_step.resolve)
  ultimately have reach: "decision_step\<^sup>*\<^sup>* sample_world ?w2"
    by (meson converse_rtranclp_into_rtranclp r_into_rtranclp)
  have "decision_inv (xw_db sample_world)" by (simp add: decision_inv_def sample_world_def empty_policy_db_def)
  then have "decision_inv (xw_db ?w2)" using decisions_are_final [OF reach] by blast
  moreover have "map dn_status (p_pending (xw_db ?w2)) = [DecApproved]" by code_simp
  ultimately show ?thesis using reach by (intro exI [of _ ?w2] conjI)
qed

subsection \<open>Resolution\<close>

lemma select_update_pending:
  assumes "\<And>d. p d \<Longrightarrow> dn_decision_id (f d) = dn_decision_id d"
  shows "get_pending_decision i (db\<lparr>p_pending := update_where p f rows\<rparr>) =
    map_option (\<lambda>d. if p d then f d else d) (select_one dn_decision_id i rows)"
  unfolding get_pending_decision_def by (simp add: select_one_update_where [where key = dn_decision_id] assms)

text \<open>
  Resolving is exact: an identifier that does not exist or belongs to another tenant is not found
  and nothing changes; a pending decision whose deadline has not passed becomes the given status, with
  actor and time, in its row alone; every other decision, also one whose deadline has passed without
  a sweep having seen it, is reported as already resolved and is not pending afterwards.
\<close>

theorem resolve_decision_exact:
  assumes "decision_inv (xw_db w)" and "now \<le> now'" and "resolve_decision now now' stamp i tenant status actor w = (r, w')"
  shows "case get_pending_decision i (xw_db w) of
      None \<Rightarrow> r = Inl (DecisionNotFound i) \<and> w' = w
    | Some d \<Rightarrow>
        if dn_tenant_id d \<noteq> tenant then r = Inl (DecisionNotFound i) \<and> w' = w
        else if dn_status d = DecPending \<and> now < dn_expires_at d then
          r = Inr (Some (d\<lparr>dn_status := status, dn_decided_by := Some actor, dn_decided_at := Some stamp\<rparr>)) \<and>
          p_pending (xw_db w') = update_where (\<lambda>e. e = d)
            (\<lambda>e. e\<lparr>dn_status := status, dn_decided_by := Some actor, dn_decided_at := Some stamp\<rparr>) (p_pending (xw_db w))
        else r = Inl (DecisionAlreadyResolved i) \<and>
          (\<exists>d'. get_pending_decision i (xw_db w') = Some d' \<and> dn_status d' \<noteq> DecPending \<and> later_form d d')"
proof (cases "get_pending_decision i (xw_db w)")
  case None
  then show ?thesis using assms(3) by (simp add: resolve_decision_def bind_a_def gets_a_def raise_a_def)
next
  case (Some d)
  have id: "dn_decision_id d = i" and row: "d \<in> set (p_pending (xw_db w))"
    using select_one_SomeD [OF Some [unfolded get_pending_decision_def]] by auto
  have kd: "keyed dn_decision_id (p_pending (xw_db w))" using assms(1) by (simp add: decision_inv_def)
  have only: "awaiting_decision i e \<longleftrightarrow> e = d" if "e \<in> set (p_pending (xw_db w))" "dn_status d = DecPending" for e
  proof
    assume "awaiting_decision i e"
    then have "select_one dn_decision_id i (p_pending (xw_db w)) = Some e"
      using select_one_keyed [OF kd that(1)] by (simp add: awaiting_decision_def)
    then show "e = d" using Some by (simp add: get_pending_decision_def)
  qed (use id that(2) in \<open>simp add: awaiting_decision_def\<close>)
  consider (other) "dn_tenant_id d \<noteq> tenant" | (live) "dn_tenant_id d = tenant" "dn_status d = DecPending" "now < dn_expires_at d"
    | (closed) "dn_tenant_id d = tenant" "dn_status d \<noteq> DecPending"
    | (late) "dn_tenant_id d = tenant" "dn_status d = DecPending" "dn_expires_at d \<le> now" by linarith
  then show ?thesis
  proof cases
    case other
    then show ?thesis using assms(3) Some by (simp add: resolve_decision_def bind_a_def gets_a_def raise_a_def)
  next
    case live
    let ?f = "\<lambda>e. e\<lparr>dn_status := status, dn_decided_by := Some actor, dn_decided_at := Some stamp\<rparr>"
    have rows: "update_where (awaiting_decision i) ?f (p_pending (xw_db w)) = update_where (\<lambda>e. e = d) ?f (p_pending (xw_db w))"
      using only live(2) by (auto simp: update_where_def)
    have "filter (awaiting_decision i) (p_pending (xw_db w)) \<noteq> []"
      using row live(2) id by (auto simp: filter_empty_conv awaiting_decision_def)
    moreover have "get_pending_decision i ((xw_db w)\<lparr>p_pending := update_where (awaiting_decision i) ?f (p_pending (xw_db w))\<rparr>) = Some (?f d)"
      using Some live(2) id by (simp add: select_update_pending get_pending_decision_def [symmetric] awaiting_decision_def)
    ultimately show ?thesis using assms(3) Some live
      by (auto simp: resolve_decision_def maybe_expire_def resolve_pending_decision_def bind_a_def gets_a_def return_a_def then_a_def
          in_policy_store_def emit_exec_def modify_a_def Let_def rows)
  next
    case closed
    then show ?thesis using assms(3) Some
      by (auto simp: resolve_decision_def maybe_expire_def bind_a_def gets_a_def return_a_def raise_a_def later_form_def)
  next
    case late
    obtain x w1 where exp: "expire_due_decisions now' stamp w = (Inr x, w1)"
      and rows: "p_pending (xw_db w1) = update_where (\<lambda>d. dn_status d = DecPending \<and> dn_expires_at d \<le> now') (timed_out stamp) (p_pending (xw_db w))"
      using wp_Inr [OF expire_due_effect [OF kd]] by metis
    have "get_pending_decision i (xw_db w1) = Some (timed_out stamp d)"
      using Some late assms(2) unfolding get_pending_decision_def rows
      by (simp add: select_one_update_where timed_out_def)
    then show ?thesis using assms(3) Some late id exp
      by (auto simp: resolve_decision_def maybe_expire_def bind_a_def gets_a_def return_a_def raise_a_def then_a_def timed_out_def later_form_def)
  qed
qed

theorem resolve_decision_exact_witness:
  "\<exists>w w'. decision_inv (xw_db w) \<and> resolve_decision 60000000 60000001 7 ''d1'' ''acme'' DecApproved ''ann'' w = (Inl (DecisionAlreadyResolved ''d1''), w') \<and>
     (\<exists>d'. get_pending_decision ''d1'' (xw_db (w' :: unit exec_world)) = Some d' \<and> dn_status d' \<noteq> DecPending)"
proof -
  let ?w = "snd (request_decision 60 ''d1'' 0 0 0 ''acme'' ''r'' ''t1'' sample_action CatShell ''ok?'' None sample_world)"
  obtain r w' where res: "resolve_decision 60000000 60000001 7 ''d1'' ''acme'' DecApproved ''ann'' ?w = (r, w')" by (metis prod.exhaust)
  let ?d = "\<lparr>dn_decision_id = ''d1'', dn_tenant_id = ''acme'', dn_run_id = ''r'', dn_task_id = ''t1'', dn_action_id = ''a1'',
     dn_category = CatShell, dn_prompt = ''ok?'', dn_status = DecPending, dn_created_at = 0, dn_expires_at = 60000000,
     dn_decided_by = None, dn_decided_at = None, dn_pattern = None\<rparr>"
  have get: "get_pending_decision ''d1'' (xw_db ?w) = Some ?d" by code_simp
  have inv: "decision_inv (xw_db ?w)" unfolding decision_inv_def keyed_def by code_simp
  have "r = Inl (DecisionAlreadyResolved ''d1'') \<and> (\<exists>d'. get_pending_decision ''d1'' (xw_db w') = Some d' \<and> dn_status d' \<noteq> DecPending)"
    using resolve_decision_exact [OF inv _ res] get by auto
  then show ?thesis using inv res by blast
qed

end
