(* ===== verification/Exec_Executor.thy ===== *)
theory Exec_Executor
  imports Exec_Decisions
begin

text \<open>
  From plan tasks to executed actions: \<open>TaskExecutor\<close> of \<^verbatim>\<open>backend/execution/executor.py\<close> and the
  gate \<open>_resolve_task_actions\<close> of \<^verbatim>\<open>backend/orchestrator/service/task_dispatch.py\<close>, which composes
  the policy, the human decisions and the executor. The runner is the injected interface
  \<open>ActionRunner\<close>: a function of the action and of the environment, which stands for everything that
  running an action can read or change. Fresh identifiers and clock readings come from a supply.
\<close>

subsection \<open>Results\<close>

datatype execution_failure_kind = CodeFailure | CommandNotAllowed | PolicyDenied | EnvironmentUnavailable
  | DependencyMissing | TimeoutFailure | InternalError

fun failure_kind_value :: "execution_failure_kind \<Rightarrow> string" where
  "failure_kind_value CodeFailure = ''code_failure''"
| "failure_kind_value CommandNotAllowed = ''command_not_allowed''"
| "failure_kind_value PolicyDenied = ''policy_denied''"
| "failure_kind_value EnvironmentUnavailable = ''environment_unavailable''"
| "failure_kind_value DependencyMissing = ''dependency_missing''"
| "failure_kind_value TimeoutFailure = ''timeout''"
| "failure_kind_value InternalError = ''internal_error''"

record execution_result =
  er_action_id :: string
  er_task_id :: string
  er_step_key :: string
  er_status :: string
  er_started_at :: int
  er_completed_at :: int
  er_stdout :: string
  er_stderr :: string
  er_exit_code :: "int option"
  er_diff :: string
  er_artifacts :: "string list"
  er_error :: "string option"
  er_environment :: pydict
  er_command :: "string list option"
  er_path :: "string option"
  er_failure_kind :: "execution_failure_kind option"

definition repairable_by_code_change :: "execution_result \<Rightarrow> bool" where
  "repairable_by_code_change r = (er_failure_kind r = Some CodeFailure)"

definition failed_result :: "execution_action \<Rightarrow> int \<Rightarrow> string \<Rightarrow> execution_failure_kind \<Rightarrow> execution_result" where
  "failed_result a now message kind = \<lparr>er_action_id = ea_action_id a, er_task_id = ea_task_id a, er_step_key = ea_step_key a,
     er_status = ''failed'', er_started_at = now, er_completed_at = now, er_stdout = [], er_stderr = [], er_exit_code = None,
     er_diff = [], er_artifacts = [], er_error = Some message, er_environment = [], er_command = None, er_path = None,
     er_failure_kind = Some kind\<rparr>"

record task_execution_outcome =
  to_status :: string
  to_results :: "execution_result list"

record exec_supply =
  sp_uuid :: "nat \<Rightarrow> string"
  sp_clock :: "nat \<Rightarrow> int"

type_synonym 'e runner = "execution_action \<Rightarrow> 'e \<Rightarrow> execution_result \<times> 'e"

subsection \<open>Event payloads\<close>

definition ACTION_OUTPUT_CHAR_CAP :: nat where "ACTION_OUTPUT_CHAR_CAP = 4000"

definition capped_tail :: "string \<Rightarrow> string" where
  "capped_tail text = (if ACTION_OUTPUT_CHAR_CAP < length text then drop (length text - ACTION_OUTPUT_CHAR_CAP) text else text)"

definition opt_text :: "string option \<Rightarrow> pyval" where
  "opt_text s = (case s of None \<Rightarrow> PNone | Some t \<Rightarrow> PStr t)"

definition opt_command :: "string list option \<Rightarrow> pyval" where
  "opt_command c = (case c of Some (x # xs) \<Rightarrow> PList (map PStr (x # xs)) | _ \<Rightarrow> PNone)"

definition action_path :: "execution_action \<Rightarrow> string option" where
  "action_path a = (case ea_path a of Some p \<Rightarrow> Some p | None \<Rightarrow> map_option pt_path (ea_patch a))"

definition file_name :: "string \<Rightarrow> string" where
  "file_name path = (let last = rev (takeWhile (\<lambda>c. c \<noteq> CHR ''/'') (rev path)) in if last = [] then path else last)"

definition action_event :: "string \<Rightarrow> string \<Rightarrow> string \<Rightarrow> execution_action \<Rightarrow> (string \<times> pyval) list \<Rightarrow> exec_event" where
  "action_event ty tenant run a data = \<lparr>xe_type = ty, xe_tenant = tenant, xe_partition = run, xe_subject_task = ea_task_id a,
     xe_data = (''actionId'', PStr (ea_action_id a)) # (''taskId'', PStr (ea_task_id a)) # data\<rparr>"

definition refused_event :: "string \<Rightarrow> string \<Rightarrow> execution_action \<Rightarrow> string \<Rightarrow> execution_failure_kind \<Rightarrow> exec_event" where
  "refused_event tenant run a message kind = action_event ''execution.action.failed'' tenant run a
     [(''error'', PStr message), (''command'', opt_command (ea_command a)), (''path'', opt_text (action_path a)),
      (''stepLabel'', opt_text (ea_step_label a)), (''failureKind'', PStr (failure_kind_value kind))]"

definition started_event :: "string \<Rightarrow> string \<Rightarrow> execution_action \<Rightarrow> exec_event" where
  "started_event tenant run a = action_event ''execution.action.started'' tenant run a
     [(''type'', PStr (action_type_value (ea_type a))), (''command'', opt_command (ea_command a)),
      (''path'', opt_text (action_path a)), (''stepLabel'', opt_text (ea_step_label a))]"

definition finished_event :: "string \<Rightarrow> string \<Rightarrow> execution_action \<Rightarrow> execution_result \<Rightarrow> exec_event" where
  "finished_event tenant run a r =
     (if er_status r = ''failed''
      then action_event ''execution.action.failed'' tenant run a
        [(''error'', PStr (case er_error r of None \<Rightarrow> [] | Some e \<Rightarrow> e)), (''command'', opt_command (er_command r)),
         (''path'', opt_text (er_path r)), (''stdout'', PStr (capped_tail (er_stdout r))), (''stderr'', PStr (capped_tail (er_stderr r))),
         (''stepLabel'', opt_text (ea_step_label a)), (''failureKind'', opt_text (map_option failure_kind_value (er_failure_kind r)))]
      else action_event ''execution.action.completed'' tenant run a
        [(''status'', PStr (er_status r)), (''exitCode'', PInt (case er_exit_code r of None \<Rightarrow> -1 | Some c \<Rightarrow> c)),
         (''command'', opt_command (er_command r)), (''path'', opt_text (er_path r)), (''stdout'', PStr (capped_tail (er_stdout r))),
         (''stderr'', PStr (capped_tail (er_stderr r))), (''stepLabel'', opt_text (ea_step_label a))])"

subsection \<open>Dispatch\<close>

definition run_action :: "'e runner \<Rightarrow> execution_action \<Rightarrow> (execution_result, 'e) exec_action" where
  "run_action runner a w = (let (r, e) = runner a (xw_env w) in (Inr r, w\<lparr>xw_env := e\<rparr>))"

text \<open>
  One turn of the loop of \<open>dispatch\<close>: whether the action failed, and its result. \<open>gated\<close> says
  that the executor was given a policy.
\<close>

definition dispatch_one :: "bool \<Rightarrow> bool \<Rightarrow> 'e runner \<Rightarrow> exec_supply \<Rightarrow> string \<Rightarrow> string \<Rightarrow> string \<Rightarrow> string list \<Rightarrow> nat \<Rightarrow>
    execution_action \<Rightarrow> (bool \<times> execution_result, 'e) exec_action" where
  "dispatch_one gated production runner sp run tenant actor pre k a =
     (let go = then_a (emit_exec (started_event tenant run a))
            (bind_a (run_action runner a) (\<lambda>r.
             then_a (emit_exec (finished_event tenant run a r)) (return_a (er_status r = ''failed'', r))))
      in if gated \<and> ea_action_id a \<notin> set pre
         then bind_a (evaluate production (sp_uuid sp k) (sp_clock sp (2 * k)) tenant a run actor) (\<lambda>d.
           if \<not> pc_allowed d
           then let message = ''policy denied: '' @ pc_reason d in
             then_a (emit_exec (refused_event tenant run a message PolicyDenied))
               (return_a (True, failed_result a (sp_clock sp (2 * k + 1)) message PolicyDenied))
           else go)
         else go)"

fun dispatch_each :: "bool \<Rightarrow> bool \<Rightarrow> 'e runner \<Rightarrow> exec_supply \<Rightarrow> string \<Rightarrow> string \<Rightarrow> string \<Rightarrow> string list \<Rightarrow> nat \<Rightarrow>
    execution_action list \<Rightarrow> (bool \<times> execution_result list, 'e) exec_action" where
  "dispatch_each gated production runner sp run tenant actor pre k [] = return_a (False, [])"
| "dispatch_each gated production runner sp run tenant actor pre k (a # as) =
     bind_a (dispatch_one gated production runner sp run tenant actor pre k a) (\<lambda>(f, r).
     bind_a (dispatch_each gated production runner sp run tenant actor pre (Suc k) as) (\<lambda>(fs, rs).
       return_a (f \<or> fs, r # rs)))"

definition dispatch :: "bool \<Rightarrow> bool \<Rightarrow> 'e runner \<Rightarrow> exec_supply \<Rightarrow> string \<Rightarrow> string \<Rightarrow> string \<Rightarrow> string list \<Rightarrow>
    execution_action list \<Rightarrow> (task_execution_outcome, 'e) exec_action" where
  "dispatch gated production runner sp run tenant actor pre actions =
     bind_a (dispatch_each gated production runner sp run tenant actor pre 0 actions) (\<lambda>(failed, results).
       return_a \<lparr>to_status = (if failed then ''failed'' else ''completed''), to_results = results\<rparr>)"

fun deny_each :: "exec_supply \<Rightarrow> string \<Rightarrow> string \<Rightarrow> string \<Rightarrow> execution_failure_kind \<Rightarrow> nat \<Rightarrow> execution_action list \<Rightarrow>
    (execution_result list, 'e) exec_action" where
  "deny_each sp run tenant reason kind k [] = return_a []"
| "deny_each sp run tenant reason kind k (a # as) =
     then_a (emit_exec (refused_event tenant run a reason kind))
       (bind_a (deny_each sp run tenant reason kind (Suc k) as) (\<lambda>rs.
         return_a (failed_result a (sp_clock sp k) reason kind # rs)))"

definition deny_all :: "exec_supply \<Rightarrow> string \<Rightarrow> string \<Rightarrow> string \<Rightarrow> execution_failure_kind \<Rightarrow> execution_action list \<Rightarrow>
    (task_execution_outcome, 'e) exec_action" where
  "deny_all sp run tenant reason kind actions =
     bind_a (deny_each sp run tenant reason kind 0 actions) (\<lambda>rs. return_a \<lparr>to_status = ''failed'', to_results = rs\<rparr>)"

subsection \<open>Deriving actions from a task\<close>

record execution_task =
  et_task_id :: string
  et_title :: string
  et_description :: string
  et_source_agent :: string
  et_category :: string
  et_status :: string
  et_files :: "(string \<times> string) list"
  et_commands :: "string list"

definition VALIDATION_COMMANDS :: "string list" where
  "VALIDATION_COMMANDS = [''pytest'', ''ruff'', ''npm'', ''python3'', ''python'']"

text \<open>\<open>str.lower\<close> on the code points 0 to 255, the tokens of \<^verbatim>\<open>[A-Za-z0-9_./-]+\<close> and \<open>str.split()\<close>.\<close>

definition lower_char :: "char \<Rightarrow> char" where
  "lower_char c = (let n = of_char c :: nat in
     if (65 \<le> n \<and> n \<le> 90) \<or> (192 \<le> n \<and> n \<le> 222 \<and> n \<noteq> 215) then char_of (n + 32) else c)"

definition token_char :: "char \<Rightarrow> bool" where
  "token_char c = (is_alpha c \<or> is_digit c \<or> c \<in> set ''_./-'')"

lemma runs_of_shorter:
  assumes "dropWhile (\<lambda>c. \<not> p c) s = c # s'"
  shows "length (dropWhile p (c # s')) < length s"
proof -
  have "p c" using assms by (metis dropWhile_eq_Cons_conv)
  then have "length (dropWhile p (c # s')) \<le> length s'" by (simp add: length_dropWhile_le)
  also have "length s' < length (dropWhile (\<lambda>c. \<not> p c) s)" by (simp add: assms)
  also have "\<dots> \<le> length s" by (rule length_dropWhile_le)
  finally show ?thesis .
qed

function runs_of :: "(char \<Rightarrow> bool) \<Rightarrow> string \<Rightarrow> string list" where
  "runs_of p s =
     (case dropWhile (\<lambda>c. \<not> p c) s of
        [] \<Rightarrow> []
      | c # s' \<Rightarrow> takeWhile p (c # s') # runs_of p (dropWhile p (c # s')))"
  by pat_completeness auto
termination
  by (relation "measure (\<lambda>(p, s). length s)") (auto dest: runs_of_shorter simp del: dropWhile.simps)

declare runs_of.simps [simp del]

definition extract_validation_command :: "string \<Rightarrow> string list option" where
  "extract_validation_command description =
     map_option (\<lambda>t. [t]) (List.find (\<lambda>t. t \<in> set VALIDATION_COMMANDS) (runs_of token_char (map lower_char description)))"

definition py_split :: "string \<Rightarrow> string list" where
  "py_split s = runs_of (\<lambda>c. \<not> is_space c) s"

definition task_action :: "execution_task \<Rightarrow> string \<Rightarrow> execution_action_type \<Rightarrow> execution_action" where
  "task_action task suffix ty = \<lparr>ea_action_id = et_task_id task @ suffix, ea_type = ty, ea_task_id = et_task_id task,
     ea_step_key = et_task_id task, ea_path = None, ea_content = None, ea_patch = None, ea_command = None, ea_cwd = ''.'',
     ea_step_label = (if et_title task = [] then None else Some (et_title task))\<rparr>"

definition numbered :: "'a list \<Rightarrow> (nat \<times> 'a) list" where
  "numbered xs = zip [1..<Suc (length xs)] xs"

definition derive_actions :: "execution_task \<Rightarrow> execution_action list" where
  "derive_actions task =
     (if et_category task = ''validation'' then
        if et_commands task \<noteq> [] then
          map (\<lambda>(i, c). (task_action task (''-validate-'' @ str_nat i) RUN_VALIDATION)\<lparr>ea_command := Some (py_split c)\<rparr>)
            (numbered (et_commands task))
        else (case extract_validation_command (et_description task) of
            None \<Rightarrow> []
          | Some c \<Rightarrow> [(task_action task ''-validate'' RUN_VALIDATION)\<lparr>ea_command := Some c\<rparr>])
      else if et_category task = ''operations'' then
        if et_commands task \<noteq> [] then
          map (\<lambda>(i, c). (task_action task (''-run-'' @ str_nat i) RUN_COMMAND)\<lparr>ea_command := Some (py_split c)\<rparr>)
            (numbered (et_commands task))
        else []
      else if et_category task = ''implementation'' then
        if et_files task \<noteq> [] then
          map (\<lambda>(i, path, content). (task_action task (''-write-'' @ str_nat i) CREATE_FILE)
              \<lparr>ea_path := Some path, ea_content := Some content, ea_step_label := Some (''Creating '' @ file_name path)\<rparr>)
            (numbered (et_files task))
        else [(task_action task ''-note'' CREATE_FILE)
          \<lparr>ea_path := Some (''.autodev/execution-notes/'' @ et_task_id task @ ''.md''),
           ea_content := Some (''# '' @ et_title task @ [CHR 10, CHR 10] @ et_description task @ [CHR 10])\<rparr>]
      else [])"

definition execute_task :: "bool \<Rightarrow> bool \<Rightarrow> 'e runner \<Rightarrow> exec_supply \<Rightarrow> string \<Rightarrow> string \<Rightarrow> string \<Rightarrow> execution_task \<Rightarrow>
    (task_execution_outcome, 'e) exec_action" where
  "execute_task gated production runner sp run tenant actor task =
     dispatch gated production runner sp run tenant actor [] (derive_actions task)"

subsection \<open>The gate of a plan run\<close>

datatype execution_mode = ModeAuto | ModeApproval | ModeHybrid

datatype hybrid_decision = RunOnce | AlwaysRun | DenyRun

fun uncovered :: "bool \<Rightarrow> string \<Rightarrow> execution_action list \<Rightarrow> policy_db \<Rightarrow> (exec_error, bool) result" where
  "uncovered production tenant [] db = Inr False"
| "uncovered production tenant (a # as) db =
     bind_r (preview production tenant a db) (\<lambda>d. if \<not> pc_matched d then Inr True else uncovered production tenant as db)"

definition needs_decision :: "bool \<Rightarrow> execution_mode \<Rightarrow> string \<Rightarrow> execution_action list \<Rightarrow> policy_db \<Rightarrow> (exec_error, bool) result" where
  "needs_decision production mode tenant actions db =
     (if mode = ModeApproval then Inr True
      else if mode = ModeHybrid then uncovered production tenant actions db
      else Inr False)"

record decision_env =
  de_timeout :: int
  de_id :: string
  de_now :: int
  de_now' :: int
  de_stamp :: int

definition resolve_task_actions :: "bool \<Rightarrow> 'e runner \<Rightarrow> exec_supply \<Rightarrow> decision_env \<Rightarrow> execution_task \<Rightarrow> execution_action list \<Rightarrow>
    string \<Rightarrow> string \<Rightarrow> execution_mode \<Rightarrow> string option \<Rightarrow> (task_execution_outcome option \<times> pending_decision option, 'e) exec_action" where
  "resolve_task_actions production runner sp de task actions run tenant mode denied =
     (let outcome = (\<lambda>m. bind_a m (\<lambda>t. return_a (Some t, None)));
          go = (\<lambda>pre. outcome (dispatch True production runner sp run tenant ''system'' pre actions))
      in case (denied, actions) of
           (Some reason, a # as) \<Rightarrow> outcome (deny_all sp run tenant reason EnvironmentUnavailable actions)
         | (_, []) \<Rightarrow> go []
         | (None, primary # as) \<Rightarrow>
             if mode = ModeAuto then go []
             else bind_a (\<lambda>w. (needs_decision production mode tenant actions (xw_db w), w)) (\<lambda>needed.
               if \<not> needed then go []
               else bind_a (request_decision (de_timeout de) (de_id de) (de_now de) (de_now' de) (de_stamp de) tenant run (et_task_id task)
                   primary (action_category (ea_type primary))
                   (''Approve '' @ action_type_value (ea_type primary) @ '' for task '' @ repr_str (et_title task) @ ''?'')
                   (Some (match_target primary))) (\<lambda>pending.
                 case dn_status pending of
                   DecPending \<Rightarrow> return_a (None, Some pending)
                 | DecApproved \<Rightarrow> go (map ea_action_id actions)
                 | DecDenied \<Rightarrow> outcome (deny_all sp run tenant ''human denied this action'' PolicyDenied actions)
                 | DecTimedOut \<Rightarrow> outcome (deny_all sp run tenant ''decision timed out (deny-and-stop fallback)'' PolicyDenied actions))))"

subsection \<open>Laws of dispatch\<close>

definition admitted :: "bool \<Rightarrow> bool \<Rightarrow> string \<Rightarrow> string list \<Rightarrow> policy_db \<Rightarrow> execution_action \<Rightarrow> bool" where
  "admitted gated production tenant pre db a =
     (\<not> gated \<or> ea_action_id a \<in> set pre \<or>
      (case decide_action production tenant a db of Inl e \<Rightarrow> False | Inr (c, d) \<Rightarrow> pc_allowed d))"

definition keeps_rules :: "'e exec_world \<Rightarrow> 'e exec_world \<Rightarrow> bool" where
  "keeps_rules w w' = (p_rules (xw_db w') = p_rules (xw_db w) \<and> p_permissions (xw_db w') = p_permissions (xw_db w) \<and>
     p_pending (xw_db w') = p_pending (xw_db w))"

lemma admitted_cong: "keeps_rules w w' \<Longrightarrow> admitted gated production tenant pre (xw_db w') = admitted gated production tenant pre (xw_db w)"
  unfolding admitted_def keeps_rules_def using decide_cong [of "xw_db w'" "xw_db w"] by auto

text \<open>No evaluation raises: the tenant has rules or need not have any, or no action needs an evaluation.\<close>

definition governed :: "bool \<Rightarrow> bool \<Rightarrow> string \<Rightarrow> string list \<Rightarrow> execution_action list \<Rightarrow> policy_db \<Rightarrow> bool" where
  "governed gated production tenant pre as db =
     (gated \<and> production \<and> \<not> has_any_rules tenant db \<longrightarrow> (\<forall>a\<in>set as. ea_action_id a \<in> set pre))"

lemma governed_cong: "keeps_rules w w' \<Longrightarrow> governed gated production tenant pre as (xw_db w') = governed gated production tenant pre as (xw_db w)"
  by (simp add: governed_def keeps_rules_def has_any_rules_def)

lemma governed_Cons: "governed gated production tenant pre (a # as) db \<longleftrightarrow>
    governed gated production tenant pre [a] db \<and> governed gated production tenant pre as db"
  by (auto simp: governed_def)

lemma governed_decides:
  "has_any_rules tenant db \<or> \<not> production \<Longrightarrow> \<exists>d. decide_action production tenant a db = Inr (action_category (ea_type a), d)"
  by (cases "has_any_rules tenant db") (auto simp: decide_with_rules resolve_rules_def)

definition dispatched :: "bool \<Rightarrow> bool \<Rightarrow> 'e runner \<Rightarrow> string \<Rightarrow> string list \<Rightarrow> execution_action list \<Rightarrow>
    execution_result list \<Rightarrow> 'e exec_world \<Rightarrow> 'e exec_world \<Rightarrow> bool" where
  "dispatched gated production runner tenant pre as rs w w' =
     (let adm = admitted gated production tenant pre (xw_db w) in
      length rs = length as \<and> keeps_rules w w' \<and>
      run_all runner (filter adm as) (xw_env w) = (map snd (filter (\<lambda>(a, r). adm a) (zip as rs)), xw_env w') \<and>
      (\<forall>(a, r) \<in> set (zip as rs). \<not> adm a \<longrightarrow> er_status r = ''failed'' \<and> er_failure_kind r = Some PolicyDenied))"

lemma wp_run_action [simp]:
  "wp (run_action runner a) Q E w = Q (fst (runner a (xw_env w))) (w\<lparr>xw_env := snd (runner a (xw_env w))\<rparr>)"
  by (simp add: wp_def run_action_def split: prod.splits)

lemma dispatch_one_effect:
  assumes "governed gated production tenant pre [a] (xw_db w)"
  shows "wp (dispatch_one gated production runner sp run tenant actor pre k a)
    (\<lambda>(f, r) w'. f = (er_status r = ''failed'') \<and> dispatched gated production runner tenant pre [a] [r] w w') (\<lambda>_ _. False) w"
proof -
  let ?go = "then_a (emit_exec (started_event tenant run a)) (bind_a (run_action runner a) (\<lambda>r.
     then_a (emit_exec (finished_event tenant run a r)) (return_a (er_status r = ''failed'', r))))"
  let ?Q = "\<lambda>(f, r) w'. f = (er_status r = ''failed'') \<and> dispatched gated production runner tenant pre [a] [r] w w'"
  have go: "wp ?go ?Q (\<lambda>_ _. False) w1"
    if "admitted gated production tenant pre (xw_db w) a" "keeps_rules w w1" "xw_env w1 = xw_env w" for w1
    using that by (simp add: dispatched_def keeps_rules_def Let_def split_beta)
  show ?thesis
  proof (cases "gated \<and> ea_action_id a \<notin> set pre")
    case True
    obtain d where d: "decide_action production tenant a (xw_db w) = Inr (action_category (ea_type a), d)"
      using governed_decides [of tenant "xw_db w" production a] assms True by (auto simp: governed_def)
    have adm: "admitted gated production tenant pre (xw_db w) a = pc_allowed d" using True d by (simp add: admitted_def)
    have ev: "wp (evaluate production i t tenant a run actor) (\<lambda>x w1. x = d \<and> keeps_rules w w1 \<and> xw_env w1 = xw_env w) (\<lambda>_ _. False) w" for i t
    proof -
      obtain x w1 where e: "evaluate production i t tenant a run actor w = (x, w1)" by (metis prod.exhaust)
      show ?thesis using evaluate_effect [OF e] unfolding d by (simp add: wp_def e keeps_rules_def)
    qed
    have "wp (bind_a (evaluate production (sp_uuid sp k) (sp_clock sp (2 * k)) tenant a run actor) (\<lambda>d.
           if \<not> pc_allowed d
           then let message = ''policy denied: '' @ pc_reason d in
             then_a (emit_exec (refused_event tenant run a message PolicyDenied))
               (return_a (True, failed_result a (sp_clock sp (2 * k + 1)) message PolicyDenied))
           else ?go)) ?Q (\<lambda>_ _. False) w"
    proof (rule wp_bindI [OF ev], goal_cases)
      case (1 x w1)
      then show ?case
        using adm go [of w1] by (cases "pc_allowed d") (auto simp: dispatched_def Let_def failed_result_def keeps_rules_def)
    qed
    then show ?thesis using True by (simp add: dispatch_one_def Let_def)
  next
    case False
    then show ?thesis using go [of w] by (auto simp: dispatch_one_def Let_def admitted_def keeps_rules_def)
  qed
qed

lemma dispatched_Cons:
  assumes "dispatched gated production runner tenant pre [a] [r] w w1" and "dispatched gated production runner tenant pre as rs w1 w2"
  shows "dispatched gated production runner tenant pre (a # as) (r # rs) w w2"
proof -
  have k: "keeps_rules w w1" using assms(1) by (simp add: dispatched_def Let_def)
  have k2: "keeps_rules w w2" using k assms(2) by (simp add: dispatched_def Let_def keeps_rules_def)
  show ?thesis
    using assms k2 unfolding dispatched_def Let_def admitted_cong [OF k]
    by (auto simp: split_beta split: if_splits)
qed

lemma dispatch_each_effect:
  assumes "governed gated production tenant pre as (xw_db w)"
  shows "wp (dispatch_each gated production runner sp run tenant actor pre k as)
    (\<lambda>(f, rs) w'. f = (\<exists>r\<in>set rs. er_status r = ''failed'') \<and> dispatched gated production runner tenant pre as rs w w') (\<lambda>_ _. False) w"
  using assms
proof (induction as arbitrary: k w)
  case Nil
  then show ?case by (simp add: dispatched_def keeps_rules_def)
next
  case (Cons a as)
  have gov0: "governed gated production tenant pre [a] (xw_db w)" 
    using Cons.prems governed_Cons [of gated production tenant pre a as "xw_db w"] by blast
  show ?case unfolding dispatch_each.simps
  proof (rule wp_bindI [OF dispatch_one_effect [OF gov0]], goal_cases)
    case (1 fr w1)
    obtain f r where fr: "fr = (f, r)" by fastforce
    have one: "f = (er_status r = ''failed'')" "dispatched gated production runner tenant pre [a] [r] w w1" using 1 fr by auto
    have gov: "governed gated production tenant pre as (xw_db w1)"
      using Cons.prems governed_cong [of w w1] one(2) governed_Cons [of gated production tenant pre a as "xw_db w"]
      unfolding dispatched_def Let_def by blast
    show ?case unfolding fr prod.case
      by (rule wp_bindI [OF Cons.IH [OF gov]]) (auto simp: one(1) intro: dispatched_Cons [OF one(2)])
  qed
qed

lemma dispatched_result:
  assumes "governed gated production tenant pre actions (xw_db w)"
  shows "\<exists>rs w'. dispatch gated production runner sp run tenant actor pre actions w =
      (Inr \<lparr>to_status = (if \<exists>r\<in>set rs. er_status r = ''failed'' then ''failed'' else ''completed''), to_results = rs\<rparr>, w') \<and>
    dispatched gated production runner tenant pre actions rs w w'"
proof -
  have "wp (dispatch gated production runner sp run tenant actor pre actions)
     (\<lambda>t w'. \<exists>rs. t = \<lparr>to_status = (if \<exists>r\<in>set rs. er_status r = ''failed'' then ''failed'' else ''completed''), to_results = rs\<rparr> \<and>
        dispatched gated production runner tenant pre actions rs w w') (\<lambda>_ _. False) w"
    unfolding dispatch_def
  proof (rule wp_bindI [OF dispatch_each_effect [OF assms]], goal_cases)
    case (1 x w')
    then show ?case by (cases x) (auto intro!: exI [of _ "snd x"])
  qed
  from wp_Inr [OF this] show ?thesis by blast
qed

text \<open>
  Dispatch runs exactly the actions that are admitted, in order: those that the policy allows or
  a human approved beforehand, or all of them without a policy. Every other action gets a failed
  result with the reason of the policy and never reaches the runner; the task fails exactly when a
  result failed; and neither rules, permissions nor decisions change. The runner is arbitrary.
\<close>

theorem dispatch_runs_admitted:
  assumes "governed gated production tenant pre actions (xw_db w)"
  shows "\<exists>rs w'. dispatch gated production runner sp run tenant actor pre actions w =
      (Inr \<lparr>to_status = (if \<exists>r\<in>set rs. er_status r = ''failed'' then ''failed'' else ''completed''), to_results = rs\<rparr>, w') \<and>
    dispatched gated production runner tenant pre actions rs w w'"
  by (rule dispatched_result [OF assms])

definition sample_run :: "execution_action list runner" where
  "sample_run a e = ((failed_result a 0 [] CodeFailure)\<lparr>er_status := ''succeeded'', er_failure_kind := None\<rparr>, e @ [a])"

definition deny_make :: rule_row where
  "deny_make = \<lparr>rw_rule_id = ''r1'', rw_tenant_id = ''acme'', rw_rule = \<lparr>ru_category = CatShell, ru_effect = EffDeny,
     ru_scope_kind = ScopeProject, ru_scope_id = ''*'', ru_pattern = Some ''ma*''\<rparr>, rw_created_at = 0\<rparr>"

definition allow_shell :: rule_row where
  "allow_shell = \<lparr>rw_rule_id = ''r2'', rw_tenant_id = ''acme'', rw_rule = \<lparr>ru_category = CatShell, ru_effect = EffAllow,
     ru_scope_kind = ScopeProject, ru_scope_id = ''*'', ru_pattern = None\<rparr>, rw_created_at = 0\<rparr>"

definition ruled_world :: "execution_action list exec_world" where
  "ruled_world = \<lparr>xw_db = empty_policy_db\<lparr>p_rules := [deny_make, allow_shell]\<rparr>, xw_events = [], xw_env = []\<rparr>"

definition ls_action :: execution_action where
  "ls_action = sample_action\<lparr>ea_action_id := ''a2'', ea_command := Some [''ls'']\<rparr>"

definition sample_supply :: exec_supply where
  "sample_supply = \<lparr>sp_uuid = (\<lambda>k. ''u'' @ str_nat k), sp_clock = int\<rparr>"

theorem dispatch_runs_admitted_witness:
  "\<exists>rs w'. dispatch True True sample_run sample_supply ''r'' ''acme'' ''system'' [] [sample_action, ls_action] ruled_world =
      (Inr \<lparr>to_status = (if \<exists>r\<in>set rs. er_status r = ''failed'' then ''failed'' else ''completed''), to_results = rs\<rparr>, w') \<and>
    dispatched True True sample_run ''acme'' [] [sample_action, ls_action] rs ruled_world w' \<and> xw_env w' = [ls_action]"
proof -
  have "governed True True ''acme'' [] [sample_action, ls_action] (xw_db ruled_world)"
    unfolding governed_def by code_simp
  then obtain rs w' where run: "dispatch True True sample_run sample_supply ''r'' ''acme'' ''system'' [] [sample_action, ls_action] ruled_world =
      (Inr \<lparr>to_status = (if \<exists>r\<in>set rs. er_status r = ''failed'' then ''failed'' else ''completed''), to_results = rs\<rparr>, w')"
    and d: "dispatched True True sample_run ''acme'' [] [sample_action, ls_action] rs ruled_world w'"
    using dispatch_runs_admitted by blast
  have "filter (admitted True True ''acme'' [] (xw_db ruled_world)) [sample_action, ls_action] = [ls_action]" by code_simp
  then have "xw_env w' = [ls_action]" using d by (simp add: dispatched_def Let_def sample_run_def ruled_world_def)
  then show ?thesis using run d by blast
qed

subsection \<open>The gate\<close>

lemma latest_decision_mem: "latest_decision ds = Some d \<Longrightarrow> d \<in> set ds"
  by (induction ds arbitrary: d) (auto split: option.splits if_splits)

lemma get_decision_for_task_mem: "get_decision_for_task run task db = Some d \<Longrightarrow> d \<in> set (p_pending db)"
  by (auto simp: get_decision_for_task_def dest: latest_decision_mem)

text \<open>A read of a decision returns it as it is, or timed out; it never turns into an approval.\<close>

lemma maybe_expire_status:
  assumes "decision_inv (xw_db w)" and "d \<in> set (p_pending (xw_db w))"
  shows "wp (maybe_expire now now' stamp d) (\<lambda>d' w'. same_policy w w' \<and> (d' = d \<or> d' = timed_out stamp d)) (\<lambda>_ _. False) w"
proof (cases "dn_status d = DecPending \<and> \<not> now < dn_expires_at d")
  case True
  have kd: "keyed dn_decision_id (p_pending (xw_db w))" using assms(1) by (simp add: decision_inv_def)
  have "wp (then_a (expire_due_decisions now' stamp)
        (gets_a (\<lambda>w. case get_pending_decision (dn_decision_id d) (xw_db w) of None \<Rightarrow> d | Some r \<Rightarrow> r)))
      (\<lambda>d' w'. same_policy w w' \<and> (d' = d \<or> d' = timed_out stamp d)) (\<lambda>_ _. False) w"
  proof (rule wp_thenI [OF expire_due_effect [OF kd]], goal_cases)
    case (1 x w')
    have "get_pending_decision (dn_decision_id d) (xw_db w') =
        Some (if dn_status d = DecPending \<and> dn_expires_at d \<le> now' then timed_out stamp d else d)"
      using 1 select_one_keyed [OF kd assms(2)]
      by (simp add: get_pending_decision_def select_one_update_where timed_out_def)
    then show ?case using 1 by auto
  qed
  then show ?thesis using True by (simp add: maybe_expire_def)
qed (auto simp: maybe_expire_def)

lemma request_decision_status:
  assumes "decision_inv (xw_db w)"
  shows "wp (request_decision timeout i now now' stamp tenant run task action category prompt pattern)
    (\<lambda>d w'. same_policy w w' \<and> (dn_status d = DecApproved \<longrightarrow> get_decision_for_task run task (xw_db w) = Some d)) (\<lambda>_ _. False) w"
proof (cases "get_decision_for_task run task (xw_db w)")
  case None
  then show ?thesis by (simp add: request_decision_def create_pending_decision_def Let_def same_policy_def)
next
  case (Some d)
  have "wp (maybe_expire now now' stamp d)
      (\<lambda>d w'. same_policy w w' \<and> (dn_status d = DecApproved \<longrightarrow> get_decision_for_task run task (xw_db w) = Some d)) (\<lambda>_ _. False) w"
    by (rule wp_mono [OF maybe_expire_status [OF assms get_decision_for_task_mem [OF Some]]]) (auto simp: Some timed_out_def)
  then show ?thesis using Some by (simp add: request_decision_def)
qed

text \<open>The actions that were run, and by what authority.\<close>

definition ran_with :: "'e runner \<Rightarrow> (execution_action \<Rightarrow> bool) \<Rightarrow> execution_action list \<Rightarrow> 'e \<Rightarrow> 'e \<Rightarrow> bool" where
  "ran_with runner authority actions e e' =
     (\<exists>ran. set ran \<subseteq> set actions \<and> (\<forall>a\<in>set ran. authority a) \<and> snd (run_all runner ran e) = e')"

lemma ran_nothing: "ran_with runner P as e e"
  by (auto simp: ran_with_def intro!: exI [of _ "[]"])

lemma ran_with_mono: "ran_with runner P as e e' \<Longrightarrow> (\<And>a. a \<in> set as \<Longrightarrow> P a \<Longrightarrow> Q a) \<Longrightarrow> ran_with runner Q as e e'"
  unfolding ran_with_def by blast

definition policy_allows :: "bool \<Rightarrow> string \<Rightarrow> policy_db \<Rightarrow> execution_action \<Rightarrow> bool" where
  "policy_allows production tenant db a = (case decide_action production tenant a db of Inl e \<Rightarrow> False | Inr (c, d) \<Rightarrow> pc_allowed d)"

lemma policy_allows_cong: "same_policy w w' \<Longrightarrow> policy_allows production tenant (xw_db w') = policy_allows production tenant (xw_db w)"
  unfolding policy_allows_def same_policy_def using decide_cong [of "xw_db w'" "xw_db w"] by auto

lemma dispatch_ungoverned:
  assumes "\<not> governed True production tenant [] as (xw_db w)"
  shows "dispatch True production runner sp run tenant actor [] as w = (Inl (PolicyMissing tenant), w)"
proof -
  obtain a as' where as: "as = a # as'" using assms by (cases as) (auto simp: governed_def)
  have "decide_action production tenant a (xw_db w) = Inl (PolicyMissing tenant)"
    using assms by (auto simp: governed_def decide_action_def resolve_rules_def)
  then show ?thesis
    by (simp add: as dispatch_def dispatch_one_def evaluate_def bind_a_def Let_def)
qed

lemma dispatch_wp:
  assumes "governed True production tenant pre as (xw_db w) \<or> pre = []"
  shows "wp (dispatch True production runner sp run tenant actor pre as)
    (\<lambda>t w'. ran_with runner (admitted True production tenant pre (xw_db w)) as (xw_env w) (xw_env w'))
    (\<lambda>e w'. e = PolicyMissing tenant \<and> xw_env w' = xw_env w) w"
proof (cases "governed True production tenant pre as (xw_db w)")
  case True
  obtain rs w' where run: "dispatch True production runner sp run tenant actor pre as w =
      (Inr \<lparr>to_status = (if \<exists>r\<in>set rs. er_status r = ''failed'' then ''failed'' else ''completed''), to_results = rs\<rparr>, w')"
    and d: "dispatched True production runner tenant pre as rs w w'"
    using dispatched_result [OF True] by blast
  have "ran_with runner (admitted True production tenant pre (xw_db w)) as (xw_env w) (xw_env w')"
    using d unfolding dispatched_def Let_def ran_with_def
    by (intro exI [of _ "filter (admitted True production tenant pre (xw_db w)) as"]) auto
  then show ?thesis by (simp add: wp_def run)
next
  case False
  then show ?thesis using assms dispatch_ungoverned [of production tenant as w] by (simp add: wp_def)
qed

lemma deny_each_wp: "wp (deny_each sp run tenant reason kind k as) (\<lambda>_ w'. xw_env w' = xw_env w) (\<lambda>_ _. False) w"
proof (induction as arbitrary: k w)
  case (Cons a as)
  show ?case by (simp, rule wp_mono [OF Cons.IH]) auto
qed simp

lemma deny_all_wp: "wp (deny_all sp run tenant reason kind as) (\<lambda>t w'. to_status t = ''failed'' \<and> xw_env w' = xw_env w) (\<lambda>_ _. False) w"
  unfolding deny_all_def by (rule wp_bindI [OF deny_each_wp]) auto

definition human_approved :: "string \<Rightarrow> string \<Rightarrow> policy_db \<Rightarrow> bool" where
  "human_approved run task db =
     (case get_decision_for_task run task db of None \<Rightarrow> False | Some d \<Rightarrow> dn_status d = DecApproved)"

definition authority :: "bool \<Rightarrow> string \<Rightarrow> string \<Rightarrow> string \<Rightarrow> execution_mode \<Rightarrow> string option \<Rightarrow> policy_db \<Rightarrow> execution_action \<Rightarrow> bool" where
  "authority production tenant run task mode denied db a = (denied = None \<and>
     (case mode of
        ModeAuto \<Rightarrow> policy_allows production tenant db a
      | ModeApproval \<Rightarrow> human_approved run task db
      | ModeHybrid \<Rightarrow> policy_allows production tenant db a \<or> human_approved run task db))"

lemma admitted_by_policy: "admitted True production tenant [] db = policy_allows production tenant db"
  by (auto simp: admitted_def policy_allows_def fun_eq_iff)

definition gate_post :: "'e runner \<Rightarrow> (execution_action \<Rightarrow> bool) \<Rightarrow> execution_action list \<Rightarrow> 'e exec_world \<Rightarrow>
    task_execution_outcome option \<times> pending_decision option \<Rightarrow> 'e exec_world \<Rightarrow> bool" where
  "gate_post runner auth actions w x w' =
     (case x of
        (Some t, None) \<Rightarrow> ran_with runner auth actions (xw_env w) (xw_env w')
      | (None, Some d) \<Rightarrow> dn_status d = DecPending \<and> xw_env w' = xw_env w
      | _ \<Rightarrow> False)"

lemma gate_dispatch:
  assumes "same_policy w w1" and "\<And>a. a \<in> set as \<Longrightarrow> admitted True production tenant pre (xw_db w1) a \<Longrightarrow> auth a"
    and "governed True production tenant pre as (xw_db w1) \<or> pre = []"
  shows "wp (bind_a (dispatch True production runner sp run tenant actor pre as) (\<lambda>t. return_a (Some t, None)))
    (gate_post runner auth as w) (\<lambda>e w'. e = PolicyMissing tenant \<and> xw_env w' = xw_env w) w1"
  using assms(1)
  by (intro wp_bindI [OF wp_mono [OF dispatch_wp [OF assms(3)]]])
    (auto simp: gate_post_def same_policy_def intro: ran_with_mono assms(2))

lemma gate_deny:
  assumes "same_policy w w1"
  shows "wp (bind_a (deny_all sp run tenant reason kind as) (\<lambda>t. return_a (Some t, None)))
    (gate_post runner auth as w) (\<lambda>e w'. e = PolicyMissing tenant \<and> xw_env w' = xw_env w) w1"
  using assms
  by (intro wp_bindI [OF wp_mono [OF deny_all_wp]]) (auto simp: gate_post_def same_policy_def ran_nothing)

lemma uncovered_raises: "uncovered production tenant as db = Inl e \<Longrightarrow> e = PolicyMissing tenant"
  by (induction as) (auto simp: bind_r_eq_Inl preview_def decide_action_def resolve_rules_def Let_def split: if_splits)

lemma wp_read_bindI:
  "(\<And>e. f w = Inl e \<Longrightarrow> E e w) \<Longrightarrow> (\<And>x. f w = Inr x \<Longrightarrow> wp (k x) Q E w) \<Longrightarrow> wp (bind_a (\<lambda>w. (f w, w)) k) Q E w"
  by (cases "f w") (simp_all add: wp_def bind_a_def)

lemma resolve_task_actions_wp:
  assumes "decision_inv (xw_db w)"
  shows "wp (resolve_task_actions production runner sp de task actions run tenant mode denied)
    (gate_post runner (authority production tenant run (et_task_id task) mode denied (xw_db w)) actions w)
    (\<lambda>e w'. e = PolicyMissing tenant \<and> xw_env w' = xw_env w) w"
proof -
  let ?auth = "authority production tenant run (et_task_id task) mode denied (xw_db w)"
  let ?Q = "gate_post runner ?auth actions w" and ?E = "\<lambda>e w'. e = PolicyMissing tenant \<and> xw_env w' = xw_env w"
  show ?thesis
  proof (cases actions)
    case Nil
    have "wp (bind_a (dispatch True production runner sp run tenant ''system'' [] []) (\<lambda>t. return_a (Some t, None))) ?Q ?E w"
      unfolding Nil by (rule gate_dispatch) (auto simp: governed_def)
    then show ?thesis by (cases denied) (simp_all only: resolve_task_actions_def Nil Let_def prod.case option.case list.case)
  next
    case (Cons a as)
    show ?thesis
    proof (cases denied)
      case (Some reason)
      have "wp (bind_a (deny_all sp run tenant reason EnvironmentUnavailable actions) (\<lambda>t. return_a (Some t, None))) ?Q ?E w"
        by (rule gate_deny) simp
      then show ?thesis unfolding resolve_task_actions_def Some Cons Let_def prod.case option.case list.case .
    next
      case None
      have free: "wp (bind_a (dispatch True production runner sp run tenant ''system'' [] actions) (\<lambda>t. return_a (Some t, None))) ?Q ?E w"
        if "mode \<noteq> ModeApproval"
        using that by (intro gate_dispatch) (auto simp: admitted_by_policy authority_def None split: execution_mode.splits)
      have ask: "wp (bind_a (request_decision (de_timeout de) (de_id de) (de_now de) (de_now' de) (de_stamp de) tenant run (et_task_id task)
                   a (action_category (ea_type a)) prompt (Some (match_target a))) (\<lambda>pending.
                 case dn_status pending of
                   DecPending \<Rightarrow> return_a (None, Some pending)
                 | DecApproved \<Rightarrow> bind_a (dispatch True production runner sp run tenant ''system'' (map ea_action_id actions) actions) (\<lambda>t. return_a (Some t, None))
                 | DecDenied \<Rightarrow> bind_a (deny_all sp run tenant ''human denied this action'' PolicyDenied actions) (\<lambda>t. return_a (Some t, None))
                 | DecTimedOut \<Rightarrow> bind_a (deny_all sp run tenant ''decision timed out (deny-and-stop fallback)'' PolicyDenied actions) (\<lambda>t. return_a (Some t, None))))
          ?Q ?E w" if "mode \<noteq> ModeAuto" for prompt
      proof (rule wp_bindI [OF wp_mono [OF request_decision_status [OF assms]]], assumption, simp, goal_cases)
        case (1 d w1)
        show ?case
        proof (cases "dn_status d")
          case DecPending
          then show ?thesis using 1 by (simp add: gate_post_def same_policy_def)
        next
          case DecApproved
          then have "?auth x" for x using 1 that None by (auto simp: authority_def human_approved_def split: execution_mode.splits)
          then have "wp (bind_a (dispatch True production runner sp run tenant ''system'' (map ea_action_id actions) actions) (\<lambda>t. return_a (Some t, None))) ?Q ?E w1"
            using 1 by (intro gate_dispatch) (auto simp: governed_def)
          then show ?thesis using DecApproved by simp
        next
          case DecDenied
          then show ?thesis using 1 gate_deny [of w w1] by simp
        next
          case DecTimedOut
          then show ?thesis using 1 gate_deny [of w w1] by simp
        qed
      qed
      show ?thesis
      proof (cases "mode = ModeAuto")
        case True
        then show ?thesis using free unfolding resolve_task_actions_def None Cons Let_def prod.case option.case list.case by simp
      next
        case False
        show ?thesis
          unfolding resolve_task_actions_def None Cons Let_def prod.case option.case list.case if_not_P [OF False]
        proof (rule wp_read_bindI, goal_cases)
          case (1 e)
          then show ?case by (auto simp: needs_decision_def simp del: uncovered.simps dest: uncovered_raises split: if_splits)
        next
          case (2 needed)
          then have "\<not> needed \<Longrightarrow> mode \<noteq> ModeApproval" by (auto simp: needs_decision_def)
          then show ?case using ask [OF False] free unfolding Cons None by (cases needed) simp_all
        qed
      qed
    qed
  qed
qed

text \<open>
  C3. No action runs without authority. Whatever the mode, the runner and the actions of a task, the
  actions that reach the runner are allowed by the policy in automatic mode, approved by a human
  decision on this task of this run in approval mode, one of the two in hybrid mode, and none when
  the environment is not available; while a decision is pending nothing runs, and the only error is
  a missing policy, before anything ran.
\<close>

theorem no_action_without_authority:
  assumes "decision_inv (xw_db w)"
    and "resolve_task_actions production runner sp de task actions run tenant mode denied w = (r, w')"
  shows "(\<exists>t. r = Inr (Some t, None) \<and>
       ran_with runner (authority production tenant run (et_task_id task) mode denied (xw_db w)) actions (xw_env w) (xw_env w')) \<or>
     (\<exists>d. r = Inr (None, Some d) \<and> dn_status d = DecPending \<and> xw_env w' = xw_env w) \<or>
     r = Inl (PolicyMissing tenant) \<and> xw_env w' = xw_env w"
  using resolve_task_actions_wp [OF assms(1), of production runner sp de task actions run tenant mode denied] assms(2)
  by (auto simp: wp_def gate_post_def split: sum.splits prod.splits option.splits)

definition sample_task :: execution_task where
  "sample_task = \<lparr>et_task_id = ''t1'', et_title = ''Build'', et_description = [], et_source_agent = ''devops'',
     et_category = ''operations'', et_status = ''pending'', et_files = [], et_commands = [''make all'', ''ls'']\<rparr>"

definition sample_de :: decision_env where
  "sample_de = \<lparr>de_timeout = 60, de_id = ''d1'', de_now = 0, de_now' = 0, de_stamp = 0\<rparr>"

theorem no_action_without_authority_witness:
  "\<exists>d w'. resolve_task_actions True sample_run sample_supply sample_de sample_task (derive_actions sample_task) ''r'' ''acme'' ModeApproval None ruled_world =
      (Inr (None, Some d), w') \<and> dn_status d = DecPending \<and> xw_env w' = []"
proof -
  obtain r w' where run: "resolve_task_actions True sample_run sample_supply sample_de sample_task (derive_actions sample_task) ''r'' ''acme'' ModeApproval None ruled_world = (r, w')"
    by (metis prod.exhaust)
  have "decision_inv (xw_db ruled_world)" by (simp add: decision_inv_def ruled_world_def empty_policy_db_def)
  note gate = no_action_without_authority [OF this run]
  have "map_sum (\<lambda>_. ()) (\<lambda>x. fst x = None) (fst (resolve_task_actions True sample_run sample_supply sample_de sample_task
     (derive_actions sample_task) ''r'' ''acme'' ModeApproval None ruled_world)) = Inr True" by code_simp
  then have "map_sum (\<lambda>_. ()) (\<lambda>x. fst x = None) r = Inr True" using run by simp
  then have "\<exists>x. r = Inr x \<and> fst x = None" by (cases r) auto
  then have "\<exists>d. r = Inr (None, Some d) \<and> dn_status d = DecPending \<and> xw_env w' = xw_env ruled_world" using gate by auto
  then show ?thesis using run by (auto simp: ruled_world_def)
qed

subsection \<open>What an approval covers\<close>

text \<open>A decision that a human approved, on the task of the sample.\<close>

definition approved_world :: "execution_action list exec_world" where
  "approved_world = snd (resolve_decision 5 5 6 ''d1'' ''acme'' DecApproved ''ann''
     (snd (request_decision 60 ''d1'' 0 0 0 ''acme'' ''r'' ''t1'' (hd (derive_actions sample_task)) CatShell ''ok?'' None ruled_world)))"

lemma approval_covers_all:
  assumes "get_decision_for_task run (et_task_id task) (xw_db w) = Some d" and "dn_status d = DecApproved"
    and "mode = ModeApproval" and "actions \<noteq> []"
  shows "resolve_task_actions production runner sp de task actions run tenant mode None w =
    bind_a (dispatch True production runner sp run tenant ''system'' (map ea_action_id actions) actions) (\<lambda>t. return_a (Some t, None)) w"
proof -
  obtain a as where "actions = a # as" using assms(4) by (cases actions) auto
  then show ?thesis using assms
    by (simp add: resolve_task_actions_def needs_decision_def request_decision_def maybe_expire_def bind_a_def gets_a_def return_a_def Let_def)
qed

text \<open>
  One approval covers every action of the task: with an approved decision on the task, all its
  actions run, in order and without a policy evaluation, also those that the policy denies and
  although the prompt of the decision named the first action only.
\<close>

theorem approval_overrides_denials:
  assumes "get_decision_for_task run (et_task_id task) (xw_db w) = Some d" and "dn_status d = DecApproved" and "actions \<noteq> []"
  shows "xw_env (snd (resolve_task_actions production runner sp de task actions run tenant ModeApproval None w)) =
     snd (run_all runner actions (xw_env w))"
proof -
  let ?pre = "map ea_action_id actions"
  have gov: "governed True production tenant ?pre actions (xw_db w)" by (auto simp: governed_def)
  obtain rs w' where run: "dispatch True production runner sp run tenant ''system'' ?pre actions w =
      (Inr \<lparr>to_status = (if \<exists>r\<in>set rs. er_status r = ''failed'' then ''failed'' else ''completed''), to_results = rs\<rparr>, w')"
    and d: "dispatched True production runner tenant ?pre actions rs w w'"
    using dispatched_result [OF gov] by blast
  have "filter (admitted True production tenant ?pre (xw_db w)) actions = actions"
    by (simp add: filter_id_conv admitted_def)
  then have "xw_env w' = snd (run_all runner actions (xw_env w))" using d by (simp add: dispatched_def Let_def)
  moreover have "resolve_task_actions production runner sp de task actions run tenant ModeApproval None w = 
     (Inr (Some \<lparr>to_status = (if \<exists>r\<in>set rs. er_status r = ''failed'' then ''failed'' else ''completed''), to_results = rs\<rparr>, None), w')"
    unfolding approval_covers_all [OF assms(1,2) refl assms(3)] by (simp add: bind_a_def run return_a_def)
  ultimately show ?thesis by simp
qed

theorem approval_overrides_denials_witness:
  "map (policy_allows True ''acme'' (xw_db approved_world)) (derive_actions sample_task) = [False, True] \<and>
   xw_env (snd (resolve_task_actions True sample_run sample_supply sample_de sample_task (derive_actions sample_task) ''r'' ''acme'' ModeApproval None approved_world)) =
     derive_actions sample_task"
proof -
  have two: "map (policy_allows True ''acme'' (xw_db approved_world)) (derive_actions sample_task) = [False, True]" by code_simp
  have "map_option dn_status (get_decision_for_task ''r'' ''t1'' (xw_db approved_world)) = Some DecApproved" by code_simp
  then obtain d where d: "get_decision_for_task ''r'' (et_task_id sample_task) (xw_db approved_world) = Some d" "dn_status d = DecApproved"
    by (auto simp: sample_task_def)
  have ne: "derive_actions sample_task \<noteq> []" using two by auto
  have env: "xw_env approved_world = []" by code_simp
  have "snd (run_all sample_run as e) = e @ as" for as e
    by (induction as arbitrary: e) (auto simp: sample_run_def Let_def split_beta)
  then show ?thesis using two approval_overrides_denials [OF d ne, of True sample_run sample_supply sample_de "''acme''"] env by simp
qed

end
