(* ===== verification/Plan_Steps.thy ===== *)
theory Plan_Steps
  imports Sql_Table Evolution "HOL-Library.Multiset"
begin

text \<open>
  The approval state of plan steps (\<^verbatim>\<open>backend/plans/step_state.py\<close>): the state machine of a step and
  the table \<open>plan_step_state\<close> with its operations. Each operation is one transaction on the table
  under a lock; one that raises rolls back. Indices are natural numbers, a negative one matches no
  row; instants are microseconds. The table implements, for every session, a list of steps: the
  refinement at the end says which operation on that list each operation of the store is.
\<close>

subsection \<open>The state machine\<close>

datatype step_state = StDraft | StUnderReview | StApproved | StRejected | StExecuting | StCompleted

fun step_state_value :: "step_state \<Rightarrow> string" where
  "step_state_value StDraft = ''draft''"
| "step_state_value StUnderReview = ''under_review''"
| "step_state_value StApproved = ''approved''"
| "step_state_value StRejected = ''rejected''"
| "step_state_value StExecuting = ''executing''"
| "step_state_value StCompleted = ''completed''"

definition EDITABLE_STATES :: "step_state list" where
  "EDITABLE_STATES = [StDraft, StUnderReview]"

definition REMOVABLE_STATES :: "step_state list" where
  "REMOVABLE_STATES = [StDraft, StUnderReview, StRejected]"

fun legal_transition :: "step_state \<Rightarrow> string \<Rightarrow> step_state option" where
  "legal_transition StDraft action = (if action = ''review'' then Some StUnderReview else None)"
| "legal_transition StUnderReview action =
     (if action = ''approve'' then Some StApproved else if action = ''reject'' then Some StRejected else None)"
| "legal_transition StApproved action = (if action = ''execute'' then Some StExecuting else None)"
| "legal_transition StRejected action = None"
| "legal_transition StExecuting action = (if action = ''complete'' then Some StCompleted else None)"
| "legal_transition StCompleted action = None"

definition rollup_plan_state :: "step_state list \<Rightarrow> step_state" where
  "rollup_plan_state states =
     (if states = [] then StDraft
      else if StExecuting \<in> set states then StExecuting
      else if set states = {StCompleted} then StCompleted
      else if StRejected \<in> set states then StRejected
      else if set states \<subseteq> {StApproved, StCompleted} then StApproved
      else if StUnderReview \<in> set states then StUnderReview
      else StDraft)"

subsection \<open>The table\<close>

record plan_step_record =
  ps_session_id :: string
  ps_step_index :: nat
  ps_content :: string
  ps_state :: step_state
  ps_updated_at :: int

datatype step_error =
    StepNotFound string nat
  | StepNotEditable nat step_state
  | StepNotRemovable nat step_state
  | IllegalTransition string nat step_state
  | UniqueViolation string nat

type_synonym step_table = "plan_step_record list"

abbreviation step_key :: "plan_step_record \<Rightarrow> string \<times> nat" where
  "step_key r \<equiv> (ps_session_id r, ps_step_index r)"

definition list_plan_steps :: "string \<Rightarrow> step_table \<Rightarrow> plan_step_record list" where
  "list_plan_steps session rows = sort_key ps_step_index (filter (\<lambda>r. ps_session_id r = session) rows)"

definition get_step :: "string \<Rightarrow> nat \<Rightarrow> step_table \<Rightarrow> plan_step_record option" where
  "get_step session i rows = select_one step_key (session, i) rows"

fun seed_steps :: "string \<Rightarrow> int \<Rightarrow> nat \<Rightarrow> string list \<Rightarrow> step_table \<Rightarrow> step_table" where
  "seed_steps session now i [] rows = rows"
| "seed_steps session now i (c # cs) rows =
     seed_steps session now (Suc i) cs (insert_or_ignore step_key
       \<lparr>ps_session_id = session, ps_step_index = i, ps_content = c, ps_state = StDraft, ps_updated_at = now\<rparr> rows)"

definition ensure_steps :: "string \<Rightarrow> string list \<Rightarrow> int \<Rightarrow> step_table \<Rightarrow> plan_step_record list \<times> step_table" where
  "ensure_steps session contents now rows =
     (let rows' = seed_steps session now 0 contents rows in (list_plan_steps session rows', rows'))"

definition update_content :: "string \<Rightarrow> nat \<Rightarrow> string \<Rightarrow> int \<Rightarrow> step_table \<Rightarrow> (step_error, plan_step_record) result \<times> step_table" where
  "update_content session i content now rows =
     (case get_step session i rows of
        None \<Rightarrow> (Inl (StepNotFound session i), rows)
      | Some r \<Rightarrow>
          if ps_state r \<notin> set EDITABLE_STATES then (Inl (StepNotEditable i (ps_state r)), rows)
          else (Inr \<lparr>ps_session_id = session, ps_step_index = i, ps_content = content, ps_state = ps_state r, ps_updated_at = now\<rparr>,
                update_where (\<lambda>x. step_key x = (session, i)) (\<lambda>x. x\<lparr>ps_content := content, ps_updated_at := now\<rparr>) rows))"

text \<open>\<open>COALESCE(MAX(step_index), -1) + 1\<close>.\<close>

definition next_index :: "string \<Rightarrow> step_table \<Rightarrow> nat" where
  "next_index session rows = fold max (map (\<lambda>r. Suc (ps_step_index r)) (filter (\<lambda>r. ps_session_id r = session) rows)) 0"

definition append_step :: "string \<Rightarrow> string \<Rightarrow> int \<Rightarrow> step_table \<Rightarrow> plan_step_record \<times> step_table" where
  "append_step session content now rows =
     (let r = \<lparr>ps_session_id = session, ps_step_index = next_index session rows, ps_content = content, ps_state = StDraft, ps_updated_at = now\<rparr>
      in (r, rows @ [r]))"

text \<open>
  The reindexing loop: every remaining row, in order, moves to the next index when it is not there
  already. An \<open>UPDATE\<close> to an index that is taken violates the primary key.
\<close>

fun reindex :: "string \<Rightarrow> int \<Rightarrow> nat \<Rightarrow> plan_step_record list \<Rightarrow> step_table \<Rightarrow> (step_error, plan_step_record list \<times> step_table) result" where
  "reindex session now k [] rows = Inr ([], rows)"
| "reindex session now k (r # rs) rows =
     (if ps_step_index r \<noteq> k then
        if \<exists>x\<in>set rows. step_key x = (session, k) then Inl (UniqueViolation session k)
        else bind_r (reindex session now (Suc k) rs (update_where (\<lambda>x. step_key x = (session, ps_step_index r))
               (\<lambda>x. x\<lparr>ps_step_index := k, ps_updated_at := now\<rparr>) rows))
             (\<lambda>(out, rows'). Inr (\<lparr>ps_session_id = session, ps_step_index = k, ps_content = ps_content r, ps_state = ps_state r,
               ps_updated_at = now\<rparr> # out, rows'))
      else bind_r (reindex session now (Suc k) rs rows) (\<lambda>(out, rows'). Inr (r # out, rows')))"

definition delete_step :: "string \<Rightarrow> nat \<Rightarrow> int \<Rightarrow> step_table \<Rightarrow> (step_error, plan_step_record list) result \<times> step_table" where
  "delete_step session i now rows =
     (case get_step session i rows of
        None \<Rightarrow> (Inl (StepNotFound session i), rows)
      | Some r \<Rightarrow>
          if ps_state r \<notin> set REMOVABLE_STATES then (Inl (StepNotRemovable i (ps_state r)), rows)
          else let rows1 = filter (\<lambda>x. step_key x \<noteq> (session, i)) rows in
            case reindex session now 0 (list_plan_steps session rows1) rows1 of
              Inl e \<Rightarrow> (Inl e, rows)
            | Inr (out, rows2) \<Rightarrow> (Inr out, rows2))"

definition transition :: "string \<Rightarrow> nat \<Rightarrow> string \<Rightarrow> int \<Rightarrow> step_table \<Rightarrow> (step_error, step_state \<times> plan_step_record) result \<times> step_table" where
  "transition session i action now rows =
     (case get_step session i rows of
        None \<Rightarrow> (Inl (StepNotFound session i), rows)
      | Some r \<Rightarrow>
          (case legal_transition (ps_state r) action of
             None \<Rightarrow> (Inl (IllegalTransition action i (ps_state r)), rows)
           | Some st \<Rightarrow>
               (Inr (ps_state r, \<lparr>ps_session_id = session, ps_step_index = i, ps_content = ps_content r, ps_state = st, ps_updated_at = now\<rparr>),
                update_where (\<lambda>x. step_key x = (session, i)) (\<lambda>x. x\<lparr>ps_state := st, ps_updated_at := now\<rparr>) rows)))"

subsection \<open>The list behind the table\<close>

text \<open>Every session's steps have the indices from zero on, each once.\<close>

definition steps_ok :: "step_table \<Rightarrow> bool" where
  "steps_ok rows = (keyed step_key rows \<and> (\<forall>s. map ps_step_index (list_plan_steps s rows) = [0..<length (list_plan_steps s rows)]))"

definition plan_of :: "string \<Rightarrow> step_table \<Rightarrow> (string \<times> step_state) list" where
  "plan_of session rows = map (\<lambda>r. (ps_content r, ps_state r)) (list_plan_steps session rows)"

lemma session_indices_distinct:
  "keyed step_key rows \<Longrightarrow> distinct (map ps_step_index (filter (\<lambda>r. ps_session_id r = s) rows))"
proof (induction rows)
  case (Cons a rows)
  then show ?case by (auto simp: keyed_def image_iff)
qed simp

lemma set_list_plan_steps [simp]: "set (list_plan_steps s rows) = {r \<in> set rows. ps_session_id r = s}"
  by (simp add: list_plan_steps_def)

text \<open>The listing of a session is determined by its set of rows.\<close>

lemma list_plan_steps_eqI:
  assumes "keyed step_key rows" and "set ys = {r \<in> set rows. ps_session_id r = s}" and "map ps_step_index ys = [0..<length ys]"
  shows "list_plan_steps s rows = ys"
proof (rule map_sorted_distinct_set_unique [where f = ps_step_index])
  have d: "distinct (map ps_step_index (list_plan_steps s rows))"
    using session_indices_distinct [OF assms(1)] by (simp add: list_plan_steps_def distinct_map)
  show "sorted (map ps_step_index (list_plan_steps s rows))" by (simp add: list_plan_steps_def)
  show "distinct (map ps_step_index (list_plan_steps s rows))" by (rule d)
  show "sorted (map ps_step_index ys)" "distinct (map ps_step_index ys)" by (simp_all add: assms(3))
  show "set (list_plan_steps s rows) = set ys" by (simp add: assms(2))
  show "inj_on ps_step_index (set (list_plan_steps s rows) \<union> set ys)" using d by (simp add: assms(2) distinct_map)
qed

lemma steps_okI:
  assumes "keyed step_key rows" and "\<And>s. map ps_step_index (ys s) = [0..<length (ys s)]"
    and "\<And>s. set (ys s) = {r \<in> set rows. ps_session_id r = s}"
  shows "steps_ok rows" and "list_plan_steps s rows = ys s"
proof -
  have "list_plan_steps s rows = ys s" for s by (rule list_plan_steps_eqI [OF assms(1) assms(3) assms(2)])
  then show "steps_ok rows" and "list_plan_steps s rows = ys s" using assms(1,2) by (simp_all add: steps_ok_def)
qed

lemma step_at:
  assumes "steps_ok rows" and "i < length (list_plan_steps s rows)"
  shows "ps_step_index (list_plan_steps s rows ! i) = i"
proof -
  have "map ps_step_index (list_plan_steps s rows) ! i = [0..<length (list_plan_steps s rows)] ! i"
    using assms(1) by (simp only: steps_ok_def)
  then show ?thesis using assms(2) by simp
qed

lemma get_step_nth:
  assumes "steps_ok rows"
  shows "get_step s i rows = (if i < length (list_plan_steps s rows) then Some (list_plan_steps s rows ! i) else None)"
proof (cases "i < length (list_plan_steps s rows)")
  case True
  let ?r = "list_plan_steps s rows ! i"
  have "?r \<in> set rows" "ps_session_id ?r = s" using nth_mem [OF True] by auto
  then show ?thesis
    using select_one_keyed [of step_key rows ?r] assms True step_at [OF assms True] by (simp add: get_step_def steps_ok_def)
next
  case False
  have "ps_step_index r \<noteq> i" if "r \<in> set rows" "ps_session_id r = s" for r
  proof -
    have idx: "map ps_step_index (list_plan_steps s rows) = [0..<length (list_plan_steps s rows)]" using assms by (simp only: steps_ok_def)
    have "ps_step_index r \<in> set (map ps_step_index (list_plan_steps s rows))" using that by simp
    then show ?thesis using False unfolding idx by simp
  qed
  then show ?thesis using False by (auto simp: get_step_def select_one_None)
qed

lemma next_index_length:
  assumes "steps_ok rows"
  shows "next_index s rows = length (list_plan_steps s rows)"
proof -
  have idx: "map ps_step_index (list_plan_steps s rows) = [0..<length (list_plan_steps s rows)]" using assms by (simp only: steps_ok_def)
  have "fold max ns (m :: nat) = Max (insert m (set ns))" for ns m
    using Max.set_eq_fold [of m ns] by simp
  moreover have "set (map (\<lambda>r. Suc (ps_step_index r)) (filter (\<lambda>r. ps_session_id r = s) rows)) = Suc ` set (map ps_step_index (list_plan_steps s rows))"
    by (auto simp: image_iff)
  ultimately have "next_index s rows = Max (insert 0 (Suc ` {0..<length (list_plan_steps s rows)}))"
    unfolding next_index_def idx by simp
  also have "\<dots> = length (list_plan_steps s rows)"
    by (cases "length (list_plan_steps s rows)") (auto intro!: Max_eqI)
  finally show ?thesis .
qed

subsection \<open>What the operations do to the list\<close>

lemma sort_key_map_same: "(\<And>x. k (g x) = k x) \<Longrightarrow> sort_key k (map g xs) = map g (sort_key k xs)"
proof (induction xs)
  case (Cons x xs)
  have "insort_key k (g x) (map g ys) = map g (insort_key k x ys)" for ys
    by (induction ys) (auto simp: Cons.prems)
  then show ?case using Cons by simp
qed simp

lemma list_steps_update:
  assumes "\<And>x. step_key (f x) = step_key x"
  shows "list_plan_steps t (update_where p f rows) = update_where p f (list_plan_steps t rows)"
proof -
  let ?g = "\<lambda>x. if p x then f x else x"
  have g: "ps_session_id (?g x) = ps_session_id x" "ps_step_index (?g x) = ps_step_index x" for x using assms [of x] by auto
  have "filter (\<lambda>r. ps_session_id r = t) (map ?g rows) = map ?g (filter (\<lambda>r. ps_session_id r = t) rows)"
    by (simp add: filter_map comp_def g(1))
  then show ?thesis using sort_key_map_same [of ps_step_index ?g] g(2) by (simp add: list_plan_steps_def update_where_def)
qed

lemma update_at:
  assumes "steps_ok rows" and "\<And>x. step_key (f x) = step_key x"
  shows "steps_ok (update_where (\<lambda>x. step_key x = (s, i)) f rows)"
    and "list_plan_steps t (update_where (\<lambda>x. step_key x = (s, i)) f rows) =
      (if t = s \<and> i < length (list_plan_steps s rows) then (list_plan_steps s rows)[i := f (list_plan_steps s rows ! i)] else list_plan_steps t rows)"
proof -
  let ?p = "\<lambda>x. step_key x = (s, i)"
  have idx: "ps_step_index (f x) = ps_step_index x" for x using assms(2) [of x] by simp
  have "map ps_step_index (list_plan_steps t (update_where ?p f rows)) = map ps_step_index (list_plan_steps t rows)"
    "length (list_plan_steps t (update_where ?p f rows)) = length (list_plan_steps t rows)" for t
    unfolding list_steps_update [OF assms(2)] by (simp_all add: update_where_def idx)
  moreover have "keyed step_key (update_where ?p f rows)" using assms by (simp add: steps_ok_def table_simps)
  ultimately show "steps_ok (update_where ?p f rows)" using assms(1) by (simp add: steps_ok_def)
  have at: "?p (list_plan_steps t rows ! j) \<longleftrightarrow> t = s \<and> j = i" if "j < length (list_plan_steps t rows)" for j
    using step_at [OF assms(1) that] nth_mem [OF that] by auto
  show "list_plan_steps t (update_where ?p f rows) =
      (if t = s \<and> i < length (list_plan_steps s rows) then (list_plan_steps s rows)[i := f (list_plan_steps s rows ! i)] else list_plan_steps t rows)"
  proof (cases "t = s \<and> i < length (list_plan_steps s rows)")
    case True
    then have "update_where ?p f (list_plan_steps t rows) = (list_plan_steps s rows)[i := f (list_plan_steps s rows ! i)]"
      using at unfolding update_where_def by (intro nth_equalityI) (simp_all add: nth_list_update del: prod.inject)
    then show ?thesis using True by (simp add: list_steps_update [OF assms(2)])
  next
    case False
    have "update_where ?p f (list_plan_steps t rows) = list_plan_steps t rows"
      using at False unfolding update_where_def by (intro nth_equalityI) (auto simp del: prod.inject)
    then show ?thesis using False by (auto simp: list_steps_update [OF assms(2)])
  qed
qed

lemma append_row_ok:
  assumes "steps_ok rows" and "ps_session_id r = s" and "ps_step_index r = length (list_plan_steps s rows)"
  shows "steps_ok (rows @ [r])" and "list_plan_steps t (rows @ [r]) = (if t = s then list_plan_steps s rows @ [r] else list_plan_steps t rows)"
proof -
  have "get_step s (length (list_plan_steps s rows)) rows = None" by (simp add: get_step_nth [OF assms(1)])
  then have kd: "keyed step_key (rows @ [r])" using assms by (simp add: keyed_append_row get_step_def steps_ok_def)
  let ?ys = "\<lambda>t. if t = s then list_plan_steps s rows @ [r] else list_plan_steps t rows"
  have idx: "map ps_step_index (?ys t) = [0..<length (?ys t)]" for t using assms by (auto simp: steps_ok_def)
  have sets: "set (?ys t) = {x \<in> set (rows @ [r]). ps_session_id x = t}" for t using assms(2) by auto
  show "steps_ok (rows @ [r])" by (rule steps_okI(1) [OF kd idx sets])
  show "list_plan_steps t (rows @ [r]) = ?ys t" by (rule steps_okI(2) [OF kd idx sets])
qed

lemma seed_steps_refines:
  assumes "steps_ok rows" and "i \<le> length (list_plan_steps s rows)"
  shows "steps_ok (seed_steps s now i cs rows) \<and>
    list_plan_steps t (seed_steps s now i cs rows) = (if t = s then list_plan_steps s rows @
      map (\<lambda>j. \<lparr>ps_session_id = s, ps_step_index = j, ps_content = cs ! (j - i), ps_state = StDraft, ps_updated_at = now\<rparr>)
        [length (list_plan_steps s rows)..<i + length cs] else list_plan_steps t rows)"
  using assms
proof (induction cs arbitrary: i rows)
  case (Cons c cs)
  let ?n = "length (list_plan_steps s rows)"
  let ?r = "\<lparr>ps_session_id = s, ps_step_index = i, ps_content = c, ps_state = StDraft, ps_updated_at = now\<rparr>"
  show ?case
  proof (cases "i < ?n")
    case True
    have "get_step s i rows \<noteq> None" using True by (simp add: get_step_nth [OF Cons.prems(1)])
    then have same: "insert_or_ignore step_key ?r rows = rows"
      by (auto simp: insert_or_ignore_def get_step_def select_one_None)
    have m: "map (\<lambda>j. \<lparr>ps_session_id = s, ps_step_index = j, ps_content = (c # cs) ! (j - i), ps_state = StDraft, ps_updated_at = now\<rparr>) [?n..<i + length (c # cs)] =
        map (\<lambda>j. \<lparr>ps_session_id = s, ps_step_index = j, ps_content = cs ! (j - Suc i), ps_state = StDraft, ps_updated_at = now\<rparr>) [?n..<Suc i + length cs]"
      using True by (auto simp: nth_Cons')
    show ?thesis unfolding seed_steps.simps same m by (rule Cons.IH) (use True Cons.prems in auto)
  next
    case False
    then have i: "i = ?n" using Cons.prems(2) by simp
    have "get_step s i rows = None" using False by (simp add: get_step_nth [OF Cons.prems(1)])
    then have add: "insert_or_ignore step_key ?r rows = rows @ [?r]"
      by (auto simp: insert_or_ignore_def get_step_def select_one_None)
    note ok = append_row_ok [OF Cons.prems(1), of ?r s] i
    have IH: "steps_ok (seed_steps s now (Suc i) cs (rows @ [?r])) \<and>
      list_plan_steps t (seed_steps s now (Suc i) cs (rows @ [?r])) = (if t = s then list_plan_steps s (rows @ [?r]) @
        map (\<lambda>j. \<lparr>ps_session_id = s, ps_step_index = j, ps_content = cs ! (j - Suc i), ps_state = StDraft, ps_updated_at = now\<rparr>)
          [length (list_plan_steps s (rows @ [?r]))..<Suc i + length cs] else list_plan_steps t (rows @ [?r]))"
      by (rule Cons.IH) (use ok in auto)
    have m: "map (\<lambda>j. \<lparr>ps_session_id = s, ps_step_index = j, ps_content = (c # cs) ! (j - i), ps_state = StDraft, ps_updated_at = now\<rparr>) [?n..<i + length (c # cs)] =
        ?r # map (\<lambda>j. \<lparr>ps_session_id = s, ps_step_index = j, ps_content = cs ! (j - Suc i), ps_state = StDraft, ps_updated_at = now\<rparr>) [Suc ?n..<Suc i + length cs]"
      using i by (subst upt_conv_Cons) (auto simp: nth_Cons')
    show ?thesis unfolding seed_steps.simps add m using IH ok by simp
  qed
qed (auto simp: steps_ok_def)

subsection \<open>Reindexing\<close>

lemma same_key_same_row: "keyed key rows \<Longrightarrow> x \<in> set rows \<Longrightarrow> y \<in> set rows \<Longrightarrow> key x = key y \<Longrightarrow> x = y"
  by (metis option.inject select_one_keyed)

text \<open>Moving one row to a free key.\<close>

lemma move_row:
  assumes "keyed key rows" and "y \<in> set rows" and "key (f y) = k" and "\<forall>x\<in>set rows. key x \<noteq> k"
  shows "keyed key (update_where (\<lambda>x. key x = key y) f rows)"
    and "set (update_where (\<lambda>x. key x = key y) f rows) = insert (f y) (set rows - {y})"
proof -
  have eq: "update_where (\<lambda>x. key x = key y) f rows = update_where (\<lambda>x. x = y) f rows"
    using same_key_same_row [OF assms(1)] assms(2) by (auto simp: update_where_def)
  have d: "distinct rows" using assms(1) by (simp add: keyed_def distinct_map)
  show "set (update_where (\<lambda>x. key x = key y) f rows) = insert (f y) (set rows - {y})"
    unfolding eq using assms(2) by (auto simp: table_simps)
  have "inj_on (\<lambda>x. key (if x = y then f y else x)) (set rows)"
    using same_key_same_row [OF assms(1)] assms(3,4) by (auto simp: inj_on_def)
  moreover have "map key (update_where (\<lambda>x. x = y) f rows) = map (\<lambda>x. key (if x = y then f y else x)) rows"
    by (auto simp: update_where_def)
  ultimately show "keyed key (update_where (\<lambda>x. key x = key y) f rows)"
    unfolding eq keyed_def using d by (simp only: distinct_map simp_thms)
qed

definition renumbered :: "plan_step_record list \<Rightarrow> plan_step_record list \<Rightarrow> bool" where
  "renumbered ys out = (map (\<lambda>r. (ps_content r, ps_state r)) out = map (\<lambda>r. (ps_content r, ps_state r)) ys)"

text \<open>What the loop has done from index \<open>k\<close> on, the rows of \<open>pre\<close> being in place.\<close>

definition reindexed :: "string \<Rightarrow> plan_step_record set \<Rightarrow> nat \<Rightarrow> plan_step_record list \<Rightarrow> step_table \<Rightarrow>
    plan_step_record list \<Rightarrow> step_table \<Rightarrow> bool" where
  "reindexed s pre k ys rows out rows' = (keyed step_key rows' \<and> pre \<union> set out = {r \<in> set rows'. ps_session_id r = s} \<and>
     map ps_step_index out = [k..<k + length ys] \<and> renumbered ys out \<and>
     (\<forall>t. t \<noteq> s \<longrightarrow> {r \<in> set rows'. ps_session_id r = t} = {r \<in> set rows. ps_session_id r = t}))"

lemma reindexed_Cons:
  assumes "reindexed s (insert y' pre) (Suc k) ys rows1 out rows'" and "ps_step_index y' = k" and "ps_content y' = ps_content y"
    and "ps_state y' = ps_state y" and "\<forall>t. t \<noteq> s \<longrightarrow> {r \<in> set rows1. ps_session_id r = t} = {r \<in> set rows. ps_session_id r = t}"
  shows "reindexed s pre k (y # ys) rows (y' # out) rows'"
proof -
  have "[k..<k + length (y # ys)] = k # [Suc k..<Suc k + length ys]" by (simp add: upt_conv_Cons del: upt_Suc)
  then show ?thesis using assms by (simp add: reindexed_def renumbered_def del: upt_Suc)
qed

lemma reindex_refines:
  assumes "keyed step_key rows" and "pre \<union> set ys = {r \<in> set rows. ps_session_id r = s}"
    and "\<forall>r\<in>pre. ps_step_index r < k" and "sorted_wrt (<) (map ps_step_index ys)" and "\<forall>y\<in>set ys. k \<le> ps_step_index y"
  shows "\<exists>out rows'. reindex s now k ys rows = Inr (out, rows') \<and> reindexed s pre k ys rows out rows'"
  using assms
proof (induction ys arbitrary: k pre rows)
  case Nil
  then show ?case by (simp add: renumbered_def reindexed_def)
next
  case (Cons y ys)
  have y: "y \<in> set rows" "ps_session_id y = s" using Cons.prems(2) by auto
  have later: "\<forall>x\<in>set ys. Suc k \<le> ps_step_index x" using Cons.prems(4,5) by fastforce
  have inc: "sorted_wrt (<) (map ps_step_index ys)" using Cons.prems(4) by simp
  show ?case
  proof (cases "ps_step_index y = k")
    case True
    have "\<exists>out rows'. reindex s now (Suc k) ys rows = Inr (out, rows') \<and> reindexed s (insert y pre) (Suc k) ys rows out rows'"
      by (rule Cons.IH) (use Cons.prems True later inc in auto)
    then obtain out rows' where out: "reindex s now (Suc k) ys rows = Inr (out, rows')" "reindexed s (insert y pre) (Suc k) ys rows out rows'" by blast
    have "reindexed s pre k (y # ys) rows (y # out) rows'" by (rule reindexed_Cons [OF out(2) True]) simp_all
    then show ?thesis using True out(1) by simp
  next
    case False
    let ?y = "\<lparr>ps_session_id = s, ps_step_index = k, ps_content = ps_content y, ps_state = ps_state y, ps_updated_at = now\<rparr>"
    let ?f = "\<lambda>x. x\<lparr>ps_step_index := k, ps_updated_at := now\<rparr>"
    let ?rows = "update_where (\<lambda>x. step_key x = (s, ps_step_index y)) ?f rows"
    have fy: "?f y = ?y" using y(2) by (cases y) simp
    have lt: "k < ps_step_index y" using False Cons.prems(5) by simp
    have free: "\<forall>x\<in>set rows. step_key x \<noteq> (s, k)"
    proof (intro ballI notI)
      fix x assume x: "x \<in> set rows" "step_key x = (s, k)"
      then have "x \<in> pre \<union> set (y # ys)" unfolding Cons.prems(2) by simp
      then show False using x(2) Cons.prems(3) later lt by auto
    qed
    have keyed1: "keyed step_key ?rows" and set1: "set ?rows = insert ?y (set rows - {y})"
      using move_row [OF Cons.prems(1) y(1), of ?f "(s, k)"] free fy y(2) by simp_all
    have ny: "y \<notin> set ys" "y \<notin> pre" using Cons.prems(3,4) lt by auto
    have "\<exists>out rows'. reindex s now (Suc k) ys ?rows = Inr (out, rows') \<and> reindexed s (insert ?y pre) (Suc k) ys ?rows out rows'"
    proof (rule Cons.IH [OF keyed1])
      have "{r \<in> set ?rows. ps_session_id r = s} = insert ?y ({r \<in> set rows. ps_session_id r = s} - {y})"
        unfolding set1 by auto
      also have "\<dots> = insert ?y pre \<union> set ys" unfolding Cons.prems(2) [symmetric] using ny by auto
      finally show "insert ?y pre \<union> set ys = {r \<in> set ?rows. ps_session_id r = s}" by simp
    qed (use Cons.prems(3) later inc in \<open>auto simp: less_Suc_eq\<close>)
    then obtain out rows' where out: "reindex s now (Suc k) ys ?rows = Inr (out, rows')" "reindexed s (insert ?y pre) (Suc k) ys ?rows out rows'" by blast
    have others: "\<forall>t. t \<noteq> s \<longrightarrow> {r \<in> set ?rows. ps_session_id r = t} = {r \<in> set rows. ps_session_id r = t}"
      unfolding set1 using y(2) by auto
    have "reindexed s pre k (y # ys) rows (?y # out) rows'"
      by (rule reindexed_Cons [OF out(2) _ _ _ others]) simp_all
    then show ?thesis using False free out(1) by auto
  qed
qed

lemma delete_row:
  assumes "steps_ok rows" and "i < length (list_plan_steps s rows)"
  shows "list_plan_steps s (filter (\<lambda>x. step_key x \<noteq> (s, i)) rows) = take i (list_plan_steps s rows) @ drop (Suc i) (list_plan_steps s rows)"
proof -
  let ?xs = "list_plan_steps s rows" and ?rows = "filter (\<lambda>x. step_key x \<noteq> (s, i)) rows"
  let ?ys = "take i ?xs @ drop (Suc i) ?xs"
  have idx: "map ps_step_index ?xs = [0..<length ?xs]" using assms(1) by (simp only: steps_ok_def)
  have kd: "keyed step_key rows" using assms(1) by (simp add: steps_ok_def)
  then have kd1: "keyed step_key ?rows" by (simp add: keyed_def distinct_map_filter)
  have split: "?xs = take i ?xs @ ?xs ! i # drop (Suc i) ?xs" by (rule id_take_nth_drop [OF assms(2)])
  have "distinct ?xs" using idx by (metis distinct_map distinct_upt)
  then have "set ?ys = set ?xs - {?xs ! i}" by (subst (3) split, subst (asm) split) auto
  also have "\<dots> = set (list_plan_steps s ?rows)"
    using step_at [OF assms] same_key_same_row [OF kd] nth_mem [OF assms(2)] by auto
  finally have sets: "set (list_plan_steps s ?rows) = set ?ys" by simp
  have mapys: "map ps_step_index ?ys = take i [0..<length ?xs] @ drop (Suc i) [0..<length ?xs]"
    by (simp only: map_append take_map [symmetric] drop_map [symmetric] idx)
  have d: "distinct (map ps_step_index (list_plan_steps s ?rows))"
    using session_indices_distinct [OF kd1] by (simp add: list_plan_steps_def distinct_map)
  show ?thesis
  proof (rule map_sorted_distinct_set_unique [where f = ps_step_index])
    show "inj_on ps_step_index (set (list_plan_steps s ?rows) \<union> set ?ys)" 
      using d unfolding distinct_map by (simp only: sets Un_absorb)
    show "sorted (map ps_step_index ?ys)" "distinct (map ps_step_index ?ys)" unfolding mapys using assms(2)
      by (auto simp: take_upt sorted_append)
  qed (use d sets in \<open>simp_all add: list_plan_steps_def\<close>)
qed

lemma delete_step_refines:
  assumes "steps_ok rows" and "i < length (list_plan_steps s rows)" and "ps_state (list_plan_steps s rows ! i) \<in> set REMOVABLE_STATES"
  shows "\<exists>out rows'. delete_step s i now rows = (Inr out, rows') \<and> steps_ok rows' \<and> list_plan_steps s rows' = out \<and>
    plan_of s rows' = take i (plan_of s rows) @ drop (Suc i) (plan_of s rows) \<and> (\<forall>t. t \<noteq> s \<longrightarrow> list_plan_steps t rows' = list_plan_steps t rows)"
proof -
  let ?xs = "list_plan_steps s rows" and ?rows = "filter (\<lambda>x. step_key x \<noteq> (s, i)) rows"
  let ?ys = "take i ?xs @ drop (Suc i) ?xs"
  have kd1: "keyed step_key ?rows" using assms(1) by (simp add: steps_ok_def keyed_def distinct_map_filter)
  have ys: "list_plan_steps s ?rows = ?ys" by (rule delete_row [OF assms(1,2)])
  have "sorted_wrt (<) (map ps_step_index (list_plan_steps s ?rows))"
    using session_indices_distinct [OF kd1] by (simp add: list_plan_steps_def strict_sorted_iff distinct_map)
  moreover have "{} \<union> set ?ys = {r \<in> set ?rows. ps_session_id r = s}" unfolding ys [symmetric] set_list_plan_steps by simp
  ultimately obtain out rows' where out: "reindex s now 0 ?ys ?rows = Inr (out, rows')" and re: "reindexed s {} 0 ?ys ?rows out rows'"
    using reindex_refines [OF kd1, of "{}" ?ys s 0 now] unfolding ys by auto
  have keyed': "keyed step_key rows'" and sets: "set out = {r \<in> set rows'. ps_session_id r = s}"
    and idx: "map ps_step_index out = [0..<length ?ys]" and ren: "renumbered ?ys out"
    and oth: "\<And>t. t \<noteq> s \<Longrightarrow> {r \<in> set rows'. ps_session_id r = t} = {r \<in> set ?rows. ps_session_id r = t}"
    using re by (simp_all add: reindexed_def)
  have len: "length out = length ?ys" using idx by (metis length_map length_upt diff_zero)
  let ?zs = "\<lambda>t. if t = s then out else list_plan_steps t rows"
  have zidx: "map ps_step_index (?zs t) = [0..<length (?zs t)]" for t
    using idx len assms(1) by (simp add: steps_ok_def)
  have zset: "set (?zs t) = {r \<in> set rows'. ps_session_id r = t}" for t
    using sets oth [of t] by auto
  note fin = steps_okI [OF keyed' zidx zset]
  have "plan_of s rows' = take i (plan_of s rows) @ drop (Suc i) (plan_of s rows)"
    using ren fin(2) [of s] by (simp add: plan_of_def renumbered_def take_map drop_map)
  moreover have "delete_step s i now rows = (Inr out, rows')"
  proof -
    have "get_step s i rows = Some (?xs ! i)" using get_step_nth [OF assms(1), of s i] assms(2) by simp
    then show ?thesis unfolding delete_step_def Let_def by (simp only: option.case ys out sum.case prod.case assms(3) simp_thms if_False)
  qed
  ultimately show ?thesis using fin by simp
qed

subsection \<open>Refinement\<close>

type_synonym abstract_plan = "(string \<times> step_state) list"

definition spec_ensure :: "string list \<Rightarrow> abstract_plan \<Rightarrow> abstract_plan" where
  "spec_ensure contents plan = plan @ map (\<lambda>c. (c, StDraft)) (drop (length plan) contents)"

definition spec_append :: "string \<Rightarrow> abstract_plan \<Rightarrow> abstract_plan" where
  "spec_append content plan = plan @ [(content, StDraft)]"

definition spec_update :: "nat \<Rightarrow> string \<Rightarrow> abstract_plan \<Rightarrow> abstract_plan option" where
  "spec_update i content plan =
     (if i < length plan \<and> snd (plan ! i) \<in> set EDITABLE_STATES then Some (plan[i := (content, snd (plan ! i))]) else None)"

definition spec_delete :: "nat \<Rightarrow> abstract_plan \<Rightarrow> abstract_plan option" where
  "spec_delete i plan =
     (if i < length plan \<and> snd (plan ! i) \<in> set REMOVABLE_STATES then Some (take i plan @ drop (Suc i) plan) else None)"

definition spec_transition :: "nat \<Rightarrow> string \<Rightarrow> abstract_plan \<Rightarrow> abstract_plan option" where
  "spec_transition i action plan =
     (if i < length plan then map_option (\<lambda>st. plan[i := (fst (plan ! i), st)]) (legal_transition (snd (plan ! i)) action) else None)"

definition plans :: "step_table \<Rightarrow> string \<Rightarrow> abstract_plan" where
  "plans rows s = plan_of s rows"

text \<open>An operation that may fail: it is applied to the plan of its session or raises and changes nothing.\<close>

definition refines :: "string \<Rightarrow> (abstract_plan \<Rightarrow> abstract_plan option) \<Rightarrow> step_table \<Rightarrow> (step_error, 'a) result \<times> step_table \<Rightarrow> bool" where
  "refines s spec rows outcome =
     (steps_ok (snd outcome) \<and>
      (case spec (plans rows s) of
         None \<Rightarrow> (\<exists>e. fst outcome = Inl e) \<and> snd outcome = rows
       | Some plan \<Rightarrow> (\<exists>x. fst outcome = Inr x) \<and> plans (snd outcome) = (plans rows)(s := plan)))"

lemma ensure_refines:
  assumes "steps_ok rows"
  shows "steps_ok (snd (ensure_steps s contents now rows)) \<and>
    plans (snd (ensure_steps s contents now rows)) = (plans rows)(s := spec_ensure contents (plans rows s))"
proof -
  have "map (\<lambda>j. contents ! j) [n..<length contents] = drop n contents" for n
    by (rule nth_equalityI) auto
  then have m: "map (\<lambda>j. (contents ! j, StDraft)) [n..<length contents] = map (\<lambda>c. (c, StDraft)) (drop n contents)" for n
    by (metis (no_types, lifting) map_map comp_apply map_eq_conv)
  show ?thesis
    using seed_steps_refines [OF assms, of 0 s now contents]
    by (auto simp: ensure_steps_def Let_def plans_def fun_eq_iff plan_of_def spec_ensure_def m comp_def)
qed

lemma append_refines:
  assumes "steps_ok rows"
  shows "steps_ok (snd (append_step s content now rows)) \<and>
    plans (snd (append_step s content now rows)) = (plans rows)(s := spec_append content (plans rows s))"
proof -
  let ?r = "\<lparr>ps_session_id = s, ps_step_index = length (list_plan_steps s rows), ps_content = content, ps_state = StDraft, ps_updated_at = now\<rparr>"
  have "steps_ok (rows @ [?r])" by (rule append_row_ok(1) [OF assms]) simp_all
  moreover have "list_plan_steps t (rows @ [?r]) = (if t = s then list_plan_steps s rows @ [?r] else list_plan_steps t rows)" for t
    by (rule append_row_ok(2) [OF assms]) simp_all
  ultimately show ?thesis
    by (simp add: append_step_def Let_def next_index_length [OF assms] plans_def fun_eq_iff plan_of_def spec_append_def)
qed

lemma row_update_plans:
  assumes "steps_ok rows" and "\<And>x. step_key (f x) = step_key x" and "i < length (list_plan_steps s rows)"
  shows "plans (update_where (\<lambda>x. step_key x = (s, i)) f rows) =
    (plans rows)(s := (plan_of s rows)[i := (ps_content (f (list_plan_steps s rows ! i)), ps_state (f (list_plan_steps s rows ! i)))])"
  unfolding plans_def fun_eq_iff plan_of_def update_at(2) [OF assms(1,2)] using assms(3)
  by (simp add: map_update)

lemma update_refines:
  assumes "steps_ok rows"
  shows "refines s (spec_update i content) rows (update_content s i content now rows)"
proof (cases "i < length (list_plan_steps s rows) \<and> ps_state (list_plan_steps s rows ! i) \<in> set EDITABLE_STATES")
  case True
  let ?f = "\<lambda>x. x\<lparr>ps_content := content, ps_updated_at := now\<rparr>"
  have k: "step_key (?f x) = step_key x" for x by simp
  show ?thesis using True row_update_plans [OF assms k, of i s] update_at(1) [OF assms k, of s i]
    by (simp add: refines_def update_content_def get_step_nth [OF assms] spec_update_def plans_def plan_of_def del: prod.inject)
next
  case False
  then show ?thesis using assms
    by (auto simp: refines_def update_content_def get_step_nth [OF assms] spec_update_def plans_def plan_of_def)
qed

lemma delete_refines:
  assumes "steps_ok rows"
  shows "refines s (spec_delete i) rows (delete_step s i now rows)"
proof (cases "i < length (list_plan_steps s rows) \<and> ps_state (list_plan_steps s rows ! i) \<in> set REMOVABLE_STATES")
  case True
  then obtain out rows' where "delete_step s i now rows = (Inr out, rows')" "steps_ok rows'"
    "plan_of s rows' = take i (plan_of s rows) @ drop (Suc i) (plan_of s rows)" "\<forall>t. t \<noteq> s \<longrightarrow> list_plan_steps t rows' = list_plan_steps t rows"
    using delete_step_refines [OF assms] by blast
  then show ?thesis using True by (auto simp: refines_def spec_delete_def plans_def plan_of_def fun_eq_iff)
next
  case False
  then show ?thesis using assms
    by (auto simp: refines_def delete_step_def get_step_nth [OF assms] spec_delete_def plans_def plan_of_def)
qed

lemma transition_refines:
  assumes "steps_ok rows"
  shows "refines s (spec_transition i action) rows (transition s i action now rows)"
proof (cases "i < length (list_plan_steps s rows)")
  case True
  let ?x = "list_plan_steps s rows ! i"
  show ?thesis
  proof (cases "legal_transition (ps_state ?x) action")
    case None
    then show ?thesis using assms True
      by (simp add: refines_def transition_def get_step_nth [OF assms] spec_transition_def plans_def plan_of_def)
  next
    case (Some st)
    let ?f = "\<lambda>x. x\<lparr>ps_state := st, ps_updated_at := now\<rparr>"
    have k: "step_key (?f x) = step_key x" for x by simp
    show ?thesis using True Some row_update_plans [OF assms k, of i s] update_at(1) [OF assms k, of s i]
      by (simp add: refines_def transition_def get_step_nth [OF assms] spec_transition_def plans_def plan_of_def del: prod.inject)
  qed
next
  case False
  then show ?thesis using assms
    by (simp add: refines_def transition_def get_step_nth [OF assms] spec_transition_def plans_def plan_of_def)
qed

text \<open>
  C5. The table of step states implements, for every session, a list of steps: seeding adds drafts for
  the positions not yet tracked, appending adds one at the end, and an edit, a removal with its
  reindexing or a transition is the operation on the element at its position, or raises and changes
  nothing when position or state do not permit it. No other session's list changes, the indices stay
  contiguous, and the reindexing never runs into a taken index.
\<close>

theorem step_store_refines:
  assumes "steps_ok rows"
  shows "steps_ok (snd (ensure_steps s contents now rows)) \<and>
      plans (snd (ensure_steps s contents now rows)) = (plans rows)(s := spec_ensure contents (plans rows s)) \<and>
    steps_ok (snd (append_step s content now rows)) \<and>
      plans (snd (append_step s content now rows)) = (plans rows)(s := spec_append content (plans rows s)) \<and>
    refines s (spec_update i content) rows (update_content s i content now rows) \<and>
    refines s (spec_delete i) rows (delete_step s i now rows) \<and>
    refines s (spec_transition i action) rows (transition s i action now rows)"
  using assms by (simp add: ensure_refines append_refines update_refines delete_refines transition_refines)

definition sample_steps :: step_table where
  "sample_steps = snd (transition ''s'' 1 ''review'' 2 (snd (ensure_steps ''s'' [''a'', ''b'', ''c''] 1
     (snd (append_step ''t'' ''x'' 0 [])))))"

theorem step_store_refines_witness:
  "steps_ok sample_steps \<and> plans (snd (delete_step ''s'' 1 9 sample_steps)) = (plans sample_steps)(''s'' := [(''a'', StDraft), (''c'', StDraft)])"
proof -
  have nil: "steps_ok []" by (simp add: steps_ok_def list_plan_steps_def)
  have one: "steps_ok (snd (append_step ''t'' ''x'' 0 []))" using step_store_refines [OF nil] by blast
  have two: "steps_ok (snd (ensure_steps ''s'' [''a'', ''b'', ''c''] 1 (snd (append_step ''t'' ''x'' 0 []))))"
    using step_store_refines [OF one] by blast
  have ok: "steps_ok sample_steps" unfolding sample_steps_def using step_store_refines [OF two] unfolding refines_def by blast
  have "plans sample_steps ''s'' = [(''a'', StDraft), (''b'', StUnderReview), (''c'', StDraft)]" by code_simp
  moreover have "refines ''s'' (spec_delete 1) sample_steps (delete_step ''s'' 1 9 sample_steps)" using step_store_refines [OF ok] by blast
  ultimately show ?thesis using ok by (simp add: refines_def spec_delete_def REMOVABLE_STATES_def)
qed

subsection \<open>The execution record\<close>

text \<open>Any operation on any session.\<close>

inductive step_op :: "step_table \<Rightarrow> step_table \<Rightarrow> bool" where
  ensure: "step_op rows (snd (ensure_steps s contents now rows))"
| append: "step_op rows (snd (append_step s content now rows))"
| update: "step_op rows (snd (update_content s i content now rows))"
| delete: "step_op rows (snd (delete_step s i now rows))"
| transition: "step_op rows (snd (transition s i action now rows))"

definition in_record :: "step_state \<Rightarrow> bool" where
  "in_record st = (st = StApproved \<or> st = StExecuting \<or> st = StCompleted)"

definition execution_record :: "string \<Rightarrow> step_table \<Rightarrow> string multiset" where
  "execution_record s rows = mset (map fst (filter (\<lambda>x. in_record (snd x)) (plans rows s)))"

definition record_le :: "step_table \<Rightarrow> step_table \<Rightarrow> bool" where
  "record_le rows rows' = (\<forall>s. execution_record s rows \<subseteq># execution_record s rows')"

definition plan_record :: "abstract_plan \<Rightarrow> string multiset" where
  "plan_record plan = mset (map fst (filter (\<lambda>x. in_record (snd x)) plan))"

lemma plan_record_split:
  assumes "i < length plan"
  shows "plan_record plan = plan_record (take i plan @ drop (Suc i) plan) +
    (if in_record (snd (plan ! i)) then {#fst (plan ! i)#} else {#})"
proof -
  have "plan = take i plan @ plan ! i # drop (Suc i) plan" by (rule id_take_nth_drop [OF assms])
  then have "plan_record plan = plan_record (take i plan @ plan ! i # drop (Suc i) plan)" by simp
  then show ?thesis by (simp add: plan_record_def)
qed

lemma plan_record_update:
  assumes "i < length plan"
  shows "plan_record (plan[i := x]) = plan_record (take i plan @ drop (Suc i) plan) + (if in_record (snd x) then {#fst x#} else {#})"
  using assms by (simp add: plan_record_def upd_conv_take_nth_drop)

lemma spec_ensure_record: "plan_record plan \<subseteq># plan_record (spec_ensure contents plan)"
  by (simp add: plan_record_def spec_ensure_def)

lemma spec_append_record: "plan_record plan \<subseteq># plan_record (spec_append content plan)"
  by (simp add: plan_record_def spec_append_def)

lemma plan_record_update_mono:
  assumes "i < length plan" and "in_record (snd (plan ! i)) \<Longrightarrow> in_record (snd x) \<and> fst x = fst (plan ! i)"
  shows "plan_record plan \<subseteq># plan_record (plan[i := x])"
  unfolding plan_record_update [OF assms(1)] using assms(2) plan_record_split [OF assms(1)] by auto

lemma spec_update_record: "spec_update i content plan = Some plan' \<Longrightarrow> plan_record plan \<subseteq># plan_record plan'"
  by (auto simp: spec_update_def EDITABLE_STATES_def in_record_def intro!: plan_record_update_mono split: if_splits)

lemma spec_delete_record: "spec_delete i plan = Some plan' \<Longrightarrow> plan_record plan \<subseteq># plan_record plan'"
  using plan_record_split [of i plan] by (auto simp: spec_delete_def REMOVABLE_STATES_def in_record_def split: if_splits)

lemma legal_transition_record: "legal_transition st action = Some st' \<Longrightarrow> in_record st \<Longrightarrow> in_record st'"
  by (cases st) (auto simp: in_record_def split: if_splits)

lemma spec_transition_record: "spec_transition i action plan = Some plan' \<Longrightarrow> plan_record plan \<subseteq># plan_record plan'"
  by (auto simp: spec_transition_def intro!: plan_record_update_mono dest: legal_transition_record split: if_splits)

lemma record_leI: "plans rows' = (plans rows)(s := plan) \<Longrightarrow> plan_record (plans rows s) \<subseteq># plan_record plan \<Longrightarrow> record_le rows rows'"
  by (simp add: record_le_def execution_record_def plan_record_def)

lemma refines_record:
  assumes "refines s spec rows outcome" and "\<And>plan. spec (plans rows s) = Some plan \<Longrightarrow> plan_record (plans rows s) \<subseteq># plan_record plan"
  shows "record_le rows (snd outcome)"
proof (cases "spec (plans rows s)")
  case None
  then show ?thesis using assms(1) by (simp add: refines_def record_le_def)
next
  case (Some plan)
  then show ?thesis using assms(1) by (intro record_leI [OF _ assms(2)]) (auto simp: refines_def)
qed

lemma step_op_evolves: "steps_ok rows \<Longrightarrow> step_op rows rows' \<Longrightarrow> steps_ok rows' \<and> record_le rows rows'"
proof (erule step_op.cases, goal_cases)
  case (1 _ s contents now)
  then show ?case using ensure_refines [of rows s contents now] record_leI [OF _ spec_ensure_record] by auto
next
  case (2 _ s content now)
  then show ?case using append_refines [of rows s content now] record_leI [OF _ spec_append_record] by auto
next
  case (3 _ s i content now)
  note ref = update_refines [OF 3(1), of s i content now]
  show ?case using refines_record [OF ref spec_update_record] ref 3 by (simp add: refines_def)
next
  case (4 _ s i now)
  note ref = delete_refines [OF 4(1), of s i now]
  show ?case using refines_record [OF ref spec_delete_record] ref 4 by (simp add: refines_def)
next
  case (5 _ s i action now)
  note ref = transition_refines [OF 5(1), of s i action now]
  show ?case using refines_record [OF ref spec_transition_record] ref 5 by (simp add: refines_def)
qed

interpretation step_histories: evolving steps_ok step_op record_le
  by unfold_locales (auto dest: step_op_evolves simp: record_le_def intro: subset_mset.order_trans)

text \<open>
  C14. Approved steps form a record that only grows: whatever operations follow, in any order and on
  any sessions, the contents of the steps that were approved, executing or completed are still among
  those of the session's approved, executing and completed steps, unchanged, and indices stay
  contiguous. Nothing edits, removes or rejects a step once it is approved.
\<close>

theorem execution_record_grows:
  assumes "step_op\<^sup>*\<^sup>* rows rows'" and "steps_ok rows"
  shows "steps_ok rows' \<and> execution_record s rows \<subseteq># execution_record s rows'"
  using step_histories.reachable_evolves [OF assms] by (simp add: record_le_def)

theorem execution_record_grows_witness:
  "\<exists>rows. step_op\<^sup>*\<^sup>* [] rows \<and> steps_ok rows \<and> execution_record ''s'' rows = {#''a''#}"
proof -
  let ?r1 = "snd (ensure_steps ''s'' [''a'', ''b''] 1 [])"
  let ?r2 = "snd (transition ''s'' 0 ''review'' 2 ?r1)"
  let ?r3 = "snd (transition ''s'' 0 ''approve'' 3 ?r2)"
  have "step_op [] ?r1" "step_op ?r1 ?r2" "step_op ?r2 ?r3" by (rule step_op.ensure step_op.transition)+
  then have reach: "step_op\<^sup>*\<^sup>* [] ?r3" by (meson converse_rtranclp_into_rtranclp r_into_rtranclp)
  have "steps_ok []" by (simp add: steps_ok_def list_plan_steps_def)
  then have "steps_ok ?r3" using execution_record_grows [OF reach] by blast
  moreover have "plans ?r3 ''s'' = [(''a'', StApproved), (''b'', StDraft)]" by code_simp
  ultimately show ?thesis using reach by (intro exI [of _ ?r3]) (simp add: execution_record_def in_record_def)
qed

text \<open>
  The rolled-up state of a plan hides progress: with at least one step in draft and no step under
  review, rejected or executing, the plan is reported as a draft, although steps may be approved or
  completed, where the documented rule is that a plan with a step that left draft is under review.
\<close>

theorem rollup_draft_hides_progress:
  assumes "StDraft \<in> set states" and "StUnderReview \<notin> set states" and "StRejected \<notin> set states" and "StExecuting \<notin> set states"
  shows "rollup_plan_state states = StDraft"
  using assms by (auto simp: rollup_plan_state_def)

theorem rollup_draft_hides_progress_witness:
  "rollup_plan_state [StCompleted, StApproved, StDraft] = StDraft"
  by (rule rollup_draft_hides_progress) simp_all

end
