(* ===== verification/Plan_Approval.thy ===== *)
theory Plan_Approval
  imports Plan_Steps Flow_Monad
begin

text \<open>
  The plan approval surface: the plan documents of \<^verbatim>\<open>backend/persistence/sqlite_adapter/plan_store.py\<close>
  and the handlers of \<^verbatim>\<open>backend/api/routers/plan_approval_v2.py\<close> over them and the step states. A
  handler is an action on documents, steps and emitted events; \<open>v2_error\<close> raises with an HTTP status.
  The caller's principal is its tenant and subject, resolved by the framework before the handler runs.
  The instants that a handler stamps are one reading: nothing compares them.
\<close>

subsection \<open>Plan documents\<close>

record plan_document =
  pn_session_id :: string
  pn_steps :: "string list"
  pn_status :: string
  pn_updated_at :: int
  pn_tenant_id :: string

record approval_record =
  ar_session_id :: string
  ar_decision :: string
  ar_actor :: string
  ar_note :: string
  ar_created_at :: int
  ar_tenant_id :: string

record plan_event =
  pe_type :: string
  pe_session :: string
  pe_index :: nat
  pe_from :: "step_state option"
  pe_to :: "step_state option"
  pe_actor :: string

record plan_world =
  pa_docs :: "plan_document list"
  pa_approvals :: "approval_record list"
  pa_steps :: step_table
  pa_events :: "plan_event list"

datatype plan_error = HttpNotFound | HttpBadRequest | EmptyTenantId | IntegrityError

type_synonym 'a plan_action = "(plan_error, 'a, plan_world) action"

definition upsert_plan :: "string \<Rightarrow> string list \<Rightarrow> string \<Rightarrow> int \<Rightarrow> unit plan_action" where
  "upsert_plan session steps tenant now = modify_a (\<lambda>w. w\<lparr>pa_docs := upsert_row pn_session_id
     \<lparr>pn_session_id = session, pn_steps = steps, pn_status = ''draft'', pn_updated_at = now, pn_tenant_id = tenant\<rparr> (pa_docs w)\<rparr>)"

text \<open>\<open>sqlite_tenant_clause\<close> refuses an empty tenant.\<close>

definition tenant_clause :: "string \<Rightarrow> unit plan_action" where
  "tenant_clause tenant = (if tenant = [] then raise_a EmptyTenantId else return_a ())"

definition get_plan :: "string \<Rightarrow> string \<Rightarrow> plan_document option plan_action" where
  "get_plan session tenant = then_a (tenant_clause tenant)
     (gets_a (\<lambda>w. List.find (\<lambda>d. pn_session_id d = session \<and> pn_tenant_id d = tenant) (pa_docs w)))"

definition set_status :: "string \<Rightarrow> string \<Rightarrow> string \<Rightarrow> int \<Rightarrow> unit plan_action" where
  "set_status session status tenant now = then_a (tenant_clause tenant)
     (modify_a (\<lambda>w. w\<lparr>pa_docs := update_where (\<lambda>d. pn_session_id d = session \<and> pn_tenant_id d = tenant)
       (\<lambda>d. d\<lparr>pn_status := status, pn_updated_at := now\<rparr>) (pa_docs w)\<rparr>))"

definition append_approval :: "string \<Rightarrow> string \<Rightarrow> string \<Rightarrow> string \<Rightarrow> string \<Rightarrow> int \<Rightarrow> unit plan_action" where
  "append_approval session decision actor note tenant now = modify_a (\<lambda>w. w\<lparr>pa_approvals := pa_approvals w @
     [\<lparr>ar_session_id = session, ar_decision = decision, ar_actor = actor, ar_note = note, ar_created_at = now, ar_tenant_id = tenant\<rparr>]\<rparr>)"

definition approve_plan :: "string \<Rightarrow> string \<Rightarrow> string \<Rightarrow> string \<Rightarrow> int \<Rightarrow> unit plan_action" where
  "approve_plan session actor note tenant now =
     then_a (set_status session ''approved'' tenant now) (append_approval session ''approved'' actor note tenant now)"

definition reject_plan :: "string \<Rightarrow> string \<Rightarrow> string \<Rightarrow> string \<Rightarrow> int \<Rightarrow> unit plan_action" where
  "reject_plan session actor note tenant now =
     then_a (set_status session ''rejected'' tenant now) (append_approval session ''rejected'' actor note tenant now)"

definition list_plans :: "string \<Rightarrow> plan_document list plan_action" where
  "list_plans tenant = then_a (tenant_clause tenant)
     (gets_a (\<lambda>w. rev (sort_key pn_updated_at (filter (\<lambda>d. pn_tenant_id d = tenant) (pa_docs w)))))"

definition list_approvals :: "string \<Rightarrow> string \<Rightarrow> approval_record list plan_action" where
  "list_approvals session tenant = then_a (tenant_clause tenant)
     (gets_a (\<lambda>w. sort_key ar_created_at (filter (\<lambda>a. ar_session_id a = session \<and> ar_tenant_id a = tenant) (pa_approvals w))))"

subsection \<open>Events and responses\<close>

fun transition_event :: "step_state \<Rightarrow> string" where
  "transition_event StUnderReview = ''plan.step.reviewing''"
| "transition_event StApproved = ''plan.step.approved''"
| "transition_event StRejected = ''plan.step.rejected''"
| "transition_event StExecuting = ''plan.step.executing''"
| "transition_event StCompleted = ''plan.step.completed''"
| "transition_event StDraft = []"

definition emit_plan :: "plan_event \<Rightarrow> unit plan_action" where
  "emit_plan e = modify_a (\<lambda>w. w\<lparr>pa_events := pa_events w @ [e]\<rparr>)"

definition emit_transition :: "string \<Rightarrow> step_state \<Rightarrow> plan_step_record \<Rightarrow> string \<Rightarrow> unit plan_action" where
  "emit_transition session prev r actor = emit_plan \<lparr>pe_type = transition_event (ps_state r), pe_session = session,
     pe_index = ps_step_index r, pe_from = Some prev, pe_to = Some (ps_state r), pe_actor = actor\<rparr>"

definition emit_mutation :: "string \<Rightarrow> nat \<Rightarrow> string \<Rightarrow> string \<Rightarrow> unit plan_action" where
  "emit_mutation session i kind actor = emit_plan \<lparr>pe_type = ''plan.step.'' @ kind, pe_session = session,
     pe_index = i, pe_from = None, pe_to = None, pe_actor = actor\<rparr>"

record plan_v2 =
  v2_session_id :: string
  v2_status :: step_state
  v2_steps :: "plan_step_record list"

definition to_plan_v2 :: "string \<Rightarrow> plan_step_record list \<Rightarrow> plan_v2" where
  "to_plan_v2 session records = \<lparr>v2_session_id = session, v2_status = rollup_plan_state (map ps_state records), v2_steps = records\<rparr>"

text \<open>A call of the step store; its errors are mapped to HTTP statuses as the handlers do.\<close>

fun http_status :: "step_error \<Rightarrow> plan_error" where
  "http_status (StepNotFound s i) = HttpNotFound"
| "http_status (StepNotEditable i st) = HttpBadRequest"
| "http_status (StepNotRemovable i st) = HttpBadRequest"
| "http_status (IllegalTransition a i st) = HttpBadRequest"
| "http_status (UniqueViolation s i) = IntegrityError"

definition step_call :: "(step_table \<Rightarrow> (step_error, 'a) result \<times> step_table) \<Rightarrow> 'a plan_action" where
  "step_call f w = (let (r, rows) = f (pa_steps w) in
     (case r of Inl e \<Rightarrow> Inl (http_status e) | Inr x \<Rightarrow> Inr x, w\<lparr>pa_steps := rows\<rparr>))"

definition step_total :: "(step_table \<Rightarrow> 'a \<times> step_table) \<Rightarrow> 'a plan_action" where
  "step_total f w = (let (x, rows) = f (pa_steps w) in (Inr x, w\<lparr>pa_steps := rows\<rparr>))"

subsection \<open>The handlers\<close>

definition seeded_records :: "string \<Rightarrow> string \<Rightarrow> int \<Rightarrow> plan_step_record list plan_action" where
  "seeded_records session tenant now =
     bind_a (get_plan session tenant) (\<lambda>plan.
       case plan of
         None \<Rightarrow> raise_a HttpNotFound
       | Some d \<Rightarrow> step_total (ensure_steps session (pn_steps d) now))"

definition sync_legacy_plan :: "string \<Rightarrow> string \<Rightarrow> int \<Rightarrow> plan_step_record list plan_action" where
  "sync_legacy_plan session tenant now =
     bind_a (gets_a (\<lambda>w. list_plan_steps session (pa_steps w))) (\<lambda>records.
     then_a (upsert_plan session (map ps_content records) tenant now) (return_a records))"

definition transition_h :: "string \<Rightarrow> nat \<Rightarrow> string \<Rightarrow> string \<Rightarrow> int \<Rightarrow> plan_step_record plan_action" where
  "transition_h session i action actor now =
     bind_a (step_call (transition session i action now)) (\<lambda>(prev, r).
     then_a (emit_transition session prev r actor) (return_a r))"

definition ensure_under_review :: "string \<Rightarrow> int \<Rightarrow> plan_step_record \<Rightarrow> plan_step_record plan_action" where
  "ensure_under_review session now r =
     (if ps_state r = StDraft then transition_h session (ps_step_index r) ''review'' ''system'' now else return_a r)"

fun review_each :: "string \<Rightarrow> int \<Rightarrow> plan_step_record list \<Rightarrow> plan_step_record list plan_action" where
  "review_each session now [] = return_a []"
| "review_each session now (r # rs) =
     bind_a (ensure_under_review session now r) (\<lambda>r'. bind_a (review_each session now rs) (\<lambda>rs'. return_a (r' # rs')))"

definition get_plan_v2 :: "string \<Rightarrow> string \<Rightarrow> int \<Rightarrow> plan_v2 plan_action" where
  "get_plan_v2 session tenant now =
     bind_a (seeded_records session tenant now) (\<lambda>records.
     bind_a (review_each session now records) (\<lambda>records'. return_a (to_plan_v2 session records')))"

definition read_step :: "string \<Rightarrow> string \<Rightarrow> nat \<Rightarrow> int \<Rightarrow> plan_step_record plan_action" where
  "read_step session tenant i now =
     then_a (seeded_records session tenant now)
       (bind_a (gets_a (\<lambda>w. get_step session i (pa_steps w))) (\<lambda>found.
         case found of None \<Rightarrow> raise_a HttpNotFound | Some r \<Rightarrow> ensure_under_review session now r))"

definition get_plan_step_v2 :: "string \<Rightarrow> string \<Rightarrow> nat \<Rightarrow> int \<Rightarrow> plan_step_record plan_action" where
  "get_plan_step_v2 session tenant i now = read_step session tenant i now"

definition update_plan_step_v2 :: "string \<Rightarrow> string \<Rightarrow> nat \<Rightarrow> string \<Rightarrow> int \<Rightarrow> plan_step_record plan_action" where
  "update_plan_step_v2 session tenant i content now =
     then_a (read_step session tenant i now) (step_call (update_content session i content now))"

definition approve_plan_step_v2 :: "string \<Rightarrow> string \<Rightarrow> string \<Rightarrow> nat \<Rightarrow> int \<Rightarrow> plan_step_record plan_action" where
  "approve_plan_step_v2 session tenant subject i now =
     then_a (read_step session tenant i now) (transition_h session i ''approve'' subject now)"

definition reject_plan_step_v2 :: "string \<Rightarrow> string \<Rightarrow> string \<Rightarrow> nat \<Rightarrow> int \<Rightarrow> plan_step_record plan_action" where
  "reject_plan_step_v2 session tenant subject i now =
     then_a (read_step session tenant i now) (transition_h session i ''reject'' subject now)"

text \<open>The checks of the named indices, in their order.\<close>

fun check_targets :: "plan_step_record list \<Rightarrow> nat list \<Rightarrow> (plan_error, unit) result" where
  "check_targets records [] = Inr ()"
| "check_targets records (i # is) =
     (case List.find (\<lambda>r. ps_step_index r = i) records of
        None \<Rightarrow> Inl HttpNotFound
      | Some r \<Rightarrow> if ps_state r \<noteq> StApproved then Inl HttpBadRequest else check_targets records is)"

definition target_indices :: "nat list option \<Rightarrow> plan_step_record list \<Rightarrow> (plan_error, nat list) result" where
  "target_indices named records =
     (case named of
        Some is \<Rightarrow> bind_r (check_targets records is) (\<lambda>_. Inr is)
      | None \<Rightarrow> (let is = map ps_step_index (filter (\<lambda>r. ps_state r = StApproved) records)
                 in if is = [] then Inl HttpBadRequest else Inr is))"

definition execute_one :: "string \<Rightarrow> string \<Rightarrow> int \<Rightarrow> nat \<Rightarrow> unit plan_action" where
  "execute_one session subject now i =
     then_a (transition_h session i ''execute'' subject now)
       (then_a (transition_h session i ''complete'' subject now) (return_a ()))"

definition execute_approved_steps_v2 :: "string \<Rightarrow> string \<Rightarrow> string \<Rightarrow> nat list option \<Rightarrow> int \<Rightarrow> plan_v2 plan_action" where
  "execute_approved_steps_v2 session tenant subject named now =
     bind_a (seeded_records session tenant now) (\<lambda>records.
     bind_a (lift_a (target_indices named records)) (\<lambda>is.
     then_a (each_a (execute_one session subject now) is)
       (gets_a (\<lambda>w. to_plan_v2 session (list_plan_steps session (pa_steps w))))))"

definition add_plan_step_v2 :: "string \<Rightarrow> string \<Rightarrow> string \<Rightarrow> string \<Rightarrow> int \<Rightarrow> plan_v2 plan_action" where
  "add_plan_step_v2 session tenant subject content now =
     then_a (seeded_records session tenant now)
       (bind_a (step_total (append_step session content now)) (\<lambda>r.
        then_a (sync_legacy_plan session tenant now)
          (then_a (emit_mutation session (ps_step_index r) ''added'' subject)
            (gets_a (\<lambda>w. to_plan_v2 session (list_plan_steps session (pa_steps w)))))))"

definition remove_plan_step_v2 :: "string \<Rightarrow> string \<Rightarrow> string \<Rightarrow> nat \<Rightarrow> int \<Rightarrow> plan_v2 plan_action" where
  "remove_plan_step_v2 session tenant subject i now =
     then_a (seeded_records session tenant now)
       (then_a (step_call (delete_step session i now))
         (then_a (sync_legacy_plan session tenant now)
           (then_a (emit_mutation session i ''removed'' subject)
             (gets_a (\<lambda>w. to_plan_v2 session (list_plan_steps session (pa_steps w)))))))"

subsection \<open>Laws\<close>

lemma wp_step_total [simp]: "wp (step_total f) Q E w = Q (fst (f (pa_steps w))) (w\<lparr>pa_steps := snd (f (pa_steps w))\<rparr>)"
  by (simp add: wp_def step_total_def split: prod.splits)

lemma wp_emit_plan [simp]: "wp (emit_plan e) Q E w = Q () (w\<lparr>pa_events := pa_events w @ [e]\<rparr>)"
  by (simp add: emit_plan_def)

definition found_plan :: "string \<Rightarrow> string \<Rightarrow> plan_world \<Rightarrow> plan_document option" where
  "found_plan session tenant w = List.find (\<lambda>d. pn_session_id d = session \<and> pn_tenant_id d = tenant) (pa_docs w)"

lemma seeded_records_wp:
  assumes "steps_ok (pa_steps w)" and "tenant \<noteq> []" and "found_plan session tenant w = Some d"
  shows "wp (seeded_records session tenant now) (\<lambda>records w'. steps_ok (pa_steps w') \<and> records = list_plan_steps session (pa_steps w') \<and>
      plans (pa_steps w') = (plans (pa_steps w))(session := spec_ensure (pn_steps d) (plans (pa_steps w) session)) \<and>
      pa_docs w' = pa_docs w \<and> pa_steps w' = snd (ensure_steps session (pn_steps d) now (pa_steps w))) (\<lambda>_ _. False) w"
  using assms ensure_refines [OF assms(1), of session "pn_steps d" now]
  by (simp add: seeded_records_def get_plan_def tenant_clause_def found_plan_def wp_gets_eta ensure_steps_def Let_def)

text \<open>A step of the handlers that transitions one row.\<close>

lemma transition_h_wp:
  assumes "steps_ok (pa_steps w)"
  shows "wp (transition_h session i action actor now)
    (\<lambda>r w'. steps_ok (pa_steps w') \<and> pa_docs w' = pa_docs w \<and>
      (\<exists>plan. spec_transition i action (plans (pa_steps w) session) = Some plan \<and> plans (pa_steps w') = (plans (pa_steps w))(session := plan)))
    (\<lambda>e w'. e \<in> {HttpNotFound, HttpBadRequest} \<and> w' = w \<and> spec_transition i action (plans (pa_steps w) session) = None) w"
proof -
  note ref = transition_refines [OF assms, of session i action now]
  obtain r rows where t: "transition session i action now (pa_steps w) = (r, rows)" by (metis prod.exhaust)
  show ?thesis
  proof (cases r)
    case (Inl e)
    then have "e = StepNotFound session i \<or> (\<exists>st. e = IllegalTransition action i st)"
      using t by (auto simp: transition_def split: option.splits)
    then have "http_status e \<in> {HttpNotFound, HttpBadRequest}" by auto
    moreover have "rows = pa_steps w" "spec_transition i action (plans (pa_steps w) session) = None"
      using ref unfolding refines_def t by (auto simp: Inl split: option.splits)
    ultimately show ?thesis by (simp add: transition_h_def wp_def bind_a_def step_call_def t Inl)
  next
    case (Inr x)
    obtain prev rec where x: "x = (prev, rec)" by fastforce
    have "steps_ok rows \<and> (\<exists>plan. spec_transition i action (plans (pa_steps w) session) = Some plan \<and> plans rows = (plans (pa_steps w))(session := plan))"
      using ref unfolding refines_def t by (auto simp: Inr split: option.splits)
    then show ?thesis
      by (simp add: transition_h_def wp_def bind_a_def step_call_def t Inr x emit_transition_def emit_plan_def then_a_def modify_a_def return_a_def)
  qed
qed

definition approved_at :: "abstract_plan \<Rightarrow> nat \<Rightarrow> bool" where
  "approved_at plan i = (i < length plan \<and> snd (plan ! i) = StApproved)"

definition complete_all :: "nat list \<Rightarrow> abstract_plan \<Rightarrow> abstract_plan" where
  "complete_all is plan = map (\<lambda>i. (fst (plan ! i), if i \<in> set is then StCompleted else snd (plan ! i))) [0..<length plan]"

lemma execute_one_wp:
  assumes "steps_ok (pa_steps w)" and "approved_at (plans (pa_steps w) session) i"
  shows "wp (execute_one session subject now i)
    (\<lambda>_ w'. steps_ok (pa_steps w') \<and> pa_docs w' = pa_docs w \<and>
      plans (pa_steps w') = (plans (pa_steps w))(session := (plans (pa_steps w) session)[i := (fst (plans (pa_steps w) session ! i), StCompleted)]))
    (\<lambda>_ _. False) w"
proof -
  let ?p = "plans (pa_steps w) session"
  have ex: "spec_transition i ''execute'' ?p = Some (?p[i := (fst (?p ! i), StExecuting)])"
    using assms(2) by (simp add: approved_at_def spec_transition_def)
  show ?thesis unfolding execute_one_def
  proof (rule wp_thenI [OF wp_mono [OF transition_h_wp [OF assms(1)]]], assumption, use ex in simp, goal_cases)
    case (1 r w1)
    then have w1: "steps_ok (pa_steps w1)" "pa_docs w1 = pa_docs w" "plans (pa_steps w1) = (plans (pa_steps w))(session := ?p[i := (fst (?p ! i), StExecuting)])"
      using ex by auto
    have co: "spec_transition i ''complete'' (plans (pa_steps w1) session) = Some (?p[i := (fst (?p ! i), StCompleted)])"
      using assms(2) by (simp add: w1(3) approved_at_def spec_transition_def)
    show ?case
    proof (rule wp_thenI [OF wp_mono [OF transition_h_wp [OF w1(1)]]], assumption, use co in simp, goal_cases)
      case (1 r' w2)
      then show ?case using co w1 by auto
    qed
  qed
qed

lemma complete_all_Nil: "complete_all [] plan = plan"
  by (auto simp: complete_all_def intro: nth_equalityI)

lemma complete_all_Cons:
  "i < length plan \<Longrightarrow> i \<notin> set is \<Longrightarrow> complete_all is (plan[i := (fst (plan ! i), StCompleted)]) = complete_all (i # is) plan"
  by (auto simp: complete_all_def nth_list_update intro!: nth_equalityI)

lemma execute_each_wp:
  assumes "steps_ok (pa_steps w)" and "distinct is" and "\<forall>i\<in>set is. approved_at (plans (pa_steps w) session) i"
  shows "wp (each_a (execute_one session subject now) is)
    (\<lambda>_ w'. steps_ok (pa_steps w') \<and> plans (pa_steps w') = (plans (pa_steps w))(session := complete_all is (plans (pa_steps w) session)))
    (\<lambda>_ _. False) w"
  using assms
proof (induction "is" arbitrary: w)
  case Nil
  then show ?case by (simp add: complete_all_Nil)
next
  case (Cons i "is")
  let ?p = "plans (pa_steps w) session"
  have i: "approved_at ?p i" "i \<notin> set is" using Cons.prems by auto
  show ?case unfolding each_a.simps
  proof (rule wp_thenI [OF execute_one_wp [OF Cons.prems(1) i(1)]], goal_cases)
    case (1 x w1)
    then have w1: "plans (pa_steps w1) = (plans (pa_steps w))(session := ?p[i := (fst (?p ! i), StCompleted)])" by simp
    have "\<forall>j\<in>set is. approved_at (plans (pa_steps w1) session) j"
      using Cons.prems(2,3) w1 by (auto simp: approved_at_def nth_list_update)
    then have "wp (each_a (execute_one session subject now) is)
      (\<lambda>_ w'. steps_ok (pa_steps w') \<and> plans (pa_steps w') = (plans (pa_steps w1))(session := complete_all is (plans (pa_steps w1) session)))
      (\<lambda>_ _. False) w1"
      using 1 Cons.prems(2) by (intro Cons.IH) auto
    then show ?case
      by (rule wp_mono) (use i w1 complete_all_Cons in \<open>auto simp: approved_at_def\<close>)
  qed
qed

lemma find_step:
  assumes "steps_ok rows"
  shows "List.find (\<lambda>r. ps_step_index r = i) (list_plan_steps s rows) = (if i < length (plans rows s) then Some (list_plan_steps s rows ! i) else None)"
proof (cases "i < length (list_plan_steps s rows)")
  case True
  have "ps_step_index (list_plan_steps s rows ! j) = i \<longleftrightarrow> j = i" if "j < length (list_plan_steps s rows)" for j
    using step_at [OF assms that] by simp
  then have "List.find (\<lambda>r. ps_step_index r = i) (list_plan_steps s rows) = Some (list_plan_steps s rows ! i)"
    unfolding find_Some_iff using True by (intro exI [of _ i]) simp
  then show ?thesis using True by (simp add: plans_def plan_of_def)
next
  case False
  have "ps_step_index r \<noteq> i" if "r \<in> set (list_plan_steps s rows)" for r
    using that step_at [OF assms] False by (metis in_set_conv_nth)
  then show ?thesis using False unfolding plans_def plan_of_def by (auto simp: find_None_iff)
qed

lemma approved_at_row:
  "approved_at (plans rows s) i \<longleftrightarrow> i < length (plans rows s) \<and> ps_state (list_plan_steps s rows ! i) = StApproved"
  by (auto simp: approved_at_def plans_def plan_of_def)

lemma check_targets_ok:
  assumes "steps_ok rows"
  shows "(\<forall>i\<in>set is. approved_at (plans rows s) i) \<Longrightarrow> check_targets (list_plan_steps s rows) is = Inr ()"
    and "\<not> (\<forall>i\<in>set is. approved_at (plans rows s) i) \<Longrightarrow> \<exists>e. check_targets (list_plan_steps s rows) is = Inl e"
  by (induction "is") (auto simp: find_step [OF assms] approved_at_row)

definition targets_of :: "nat list option \<Rightarrow> abstract_plan \<Rightarrow> nat list" where
  "targets_of named plan = (case named of Some is \<Rightarrow> is | None \<Rightarrow> filter (\<lambda>i. snd (plan ! i) = StApproved) [0..<length plan])"

definition executable :: "nat list option \<Rightarrow> abstract_plan \<Rightarrow> bool" where
  "executable named plan = (case named of
      Some is \<Rightarrow> \<forall>i\<in>set is. approved_at plan i
    | None \<Rightarrow> \<exists>i<length plan. snd (plan ! i) = StApproved)"

lemma default_targets:
  assumes "steps_ok rows"
  shows "map ps_step_index (filter (\<lambda>r. ps_state r = StApproved) (list_plan_steps s rows)) = targets_of None (plans rows s)"
proof -
  let ?xs = "list_plan_steps s rows"
  have "map ps_step_index (filter (\<lambda>r. ps_state r = StApproved) (map ((!) ?xs) [0..<length ?xs])) =
     filter (\<lambda>i. ps_state (?xs ! i) = StApproved) [0..<length ?xs]"
    using step_at [OF assms, of _ s] by (auto simp: filter_map comp_def intro!: map_idI)
  also have "\<dots> = targets_of None (plans rows s)" by (auto simp: targets_of_def plans_def plan_of_def intro: filter_cong)
  finally show ?thesis by (simp add: map_nth)
qed

lemma target_indices_spec:
  assumes "steps_ok rows"
  shows "if executable named (plans rows s) then target_indices named (list_plan_steps s rows) = Inr (targets_of named (plans rows s))
    else \<exists>e. target_indices named (list_plan_steps s rows) = Inl e"
proof (cases named)
  case None
  have "targets_of None (plans rows s) = [] \<longleftrightarrow> \<not> executable None (plans rows s)"
    by (auto simp: targets_of_def executable_def filter_empty_conv)
  then show ?thesis using None by (simp add: target_indices_def default_targets [OF assms] Let_def)
next
  case (Some "is")
  then show ?thesis using check_targets_ok [OF assms, of "is" s]
    by (cases "\<forall>i\<in>set is. approved_at (plans rows s) i") (auto simp: target_indices_def executable_def targets_of_def)
qed

lemma executable_targets: "executable named plan \<Longrightarrow> i \<in> set (targets_of named plan) \<Longrightarrow> approved_at plan i"
  by (auto simp: executable_def targets_of_def approved_at_def split: option.splits)

lemma execute_approved_wp:
  assumes "steps_ok (pa_steps w)" and "tenant \<noteq> []" and "found_plan session tenant w = Some d"
    and "case named of Some is \<Rightarrow> distinct is | None \<Rightarrow> True"
  defines "plan \<equiv> spec_ensure (pn_steps d) (plans (pa_steps w) session)"
  shows "wp (execute_approved_steps_v2 session tenant subject named now)
    (\<lambda>v w'. executable named plan \<and> plans (pa_steps w') = (plans (pa_steps w))(session := complete_all (targets_of named plan) plan))
    (\<lambda>e w'. \<not> executable named plan \<and> plans (pa_steps w') = (plans (pa_steps w))(session := plan)) w"
  unfolding execute_approved_steps_v2_def
proof (rule wp_bindI [OF wp_mono [OF seeded_records_wp [OF assms(1-3)]]], assumption, simp, goal_cases)
  case (1 records w1)
  then have w1: "steps_ok (pa_steps w1)" "records = list_plan_steps session (pa_steps w1)" "plans (pa_steps w1) = (plans (pa_steps w))(session := plan)"
    by (auto simp: plan_def)
  have at: "plans (pa_steps w1) session = plan" by (simp add: w1(3))
  show ?case
  proof (cases "executable named plan")
    case False
    then obtain e where "target_indices named records = Inl e"
      using target_indices_spec [OF w1(1), of named session] at w1(2) by auto
    then show ?thesis using False w1(3) by simp
  next
    case True
    have t: "target_indices named records = Inr (targets_of named plan)"
      using target_indices_spec [OF w1(1), of named session] at w1(2) True by auto
    have d: "distinct (targets_of named plan)" using assms(4) by (auto simp: targets_of_def split: option.splits)
    have ok: "\<forall>i\<in>set (targets_of named plan). approved_at (plans (pa_steps w1) session) i"
      using executable_targets [OF True] at by simp
    have "wp (each_a (execute_one session subject now) (targets_of named plan))
      (\<lambda>_ w'. plans (pa_steps w') = (plans (pa_steps w))(session := complete_all (targets_of named plan) plan)) (\<lambda>_ _. False) w1"
      by (rule wp_mono [OF execute_each_wp [OF w1(1) d ok]]) (auto simp: at w1(3))
    then have "wp (each_a (execute_one session subject now) (targets_of named plan))
      (\<lambda>_ w'. executable named plan \<and> plans (pa_steps w') = (plans (pa_steps w))(session := complete_all (targets_of named plan) plan))
      (\<lambda>e w'. \<not> executable named plan \<and> plans (pa_steps w') = (plans (pa_steps w))(session := plan)) w1"
      by (rule wp_mono) (use True in auto)
    then show ?thesis by (simp add: t wp_gets_eta)
  qed
qed

text \<open>
  C15. Executing the approved steps of a plan is all or nothing, when no index is named twice: if every
  named step exists and is approved, or some step is approved when none is named, exactly those steps
  are completed and no other step of any plan changes; otherwise the call is refused and no state
  changes beyond the seeding of steps that were not yet tracked.
\<close>

theorem execute_approved_all_or_nothing:
  assumes "steps_ok (pa_steps w)" and "tenant \<noteq> []" and "found_plan session tenant w = Some d"
    and "case named of Some is \<Rightarrow> distinct is | None \<Rightarrow> True"
    and "execute_approved_steps_v2 session tenant subject named now w = (r, w')"
  shows "let plan = spec_ensure (pn_steps d) (plans (pa_steps w) session) in
    if executable named plan
    then (\<exists>v. r = Inr v) \<and> plans (pa_steps w') = (plans (pa_steps w))(session := complete_all (targets_of named plan) plan)
    else (\<exists>e. r = Inl e) \<and> plans (pa_steps w') = (plans (pa_steps w))(session := plan)"
  using execute_approved_wp [OF assms(1-4), of subject now] assms(5)
  by (auto simp: wp_def Let_def split: sum.splits)

definition sample_plan_world :: plan_world where
  "sample_plan_world = \<lparr>pa_docs = [\<lparr>pn_session_id = ''s'', pn_steps = [''a'', ''b''], pn_status = ''draft'', pn_updated_at = 0, pn_tenant_id = ''acme''\<rparr>],
     pa_approvals = [], pa_steps = [], pa_events = []\<rparr>"

definition sample_approved :: plan_world where
  "sample_approved = snd (approve_plan_step_v2 ''s'' ''acme'' ''ann'' 0 1 sample_plan_world)"

lemma sample_approved_ok: "steps_ok (pa_steps sample_approved)"
proof -
  have nil: "steps_ok []" by (simp add: steps_ok_def list_plan_steps_def)
  let ?r1 = "snd (ensure_steps ''s'' [''a'', ''b''] 1 [])"
  let ?r2 = "snd (transition ''s'' 0 ''review'' 1 ?r1)"
  have "steps_ok ?r1" using ensure_refines [OF nil] by blast
  then have "steps_ok ?r2" using transition_refines unfolding refines_def by blast
  then have "steps_ok (snd (transition ''s'' 0 ''approve'' 1 ?r2))" using transition_refines unfolding refines_def by blast
  moreover have "pa_steps sample_approved = snd (transition ''s'' 0 ''approve'' 1 ?r2)" by code_simp
  ultimately show ?thesis by simp
qed

theorem execute_approved_all_or_nothing_witness:
  "\<exists>r w'. execute_approved_steps_v2 ''s'' ''acme'' ''ann'' (Some [0]) 2 sample_approved = (r, w') \<and>
     plans (pa_steps w') ''s'' = [(''a'', StCompleted), (''b'', StDraft)]"
proof -
  obtain r w' where run: "execute_approved_steps_v2 ''s'' ''acme'' ''ann'' (Some [0]) 2 sample_approved = (r, w')" by (metis prod.exhaust)
  let ?d = "\<lparr>pn_session_id = ''s'', pn_steps = [''a'', ''b''], pn_status = ''draft'', pn_updated_at = 0, pn_tenant_id = ''acme''\<rparr> :: plan_document"
  have doc: "found_plan ''s'' ''acme'' sample_approved = Some ?d" by code_simp
  have plan: "spec_ensure (pn_steps ?d) (plans (pa_steps sample_approved) ''s'') = [(''a'', StApproved), (''b'', StDraft)]" by code_simp
  have "plans (pa_steps w') = (plans (pa_steps sample_approved))(''s'' := complete_all [0] [(''a'', StApproved), (''b'', StDraft)])"
    using execute_approved_all_or_nothing [OF sample_approved_ok _ doc _ run] plan
    by (simp add: Let_def executable_def targets_of_def approved_at_def)
  moreover have "complete_all [0] [(''a'', StApproved), (''b'', StDraft)] = [(''a'', StCompleted), (''b'', StDraft)]" by code_simp
  ultimately show ?thesis using run by auto
qed

text \<open>
  An approved step that is named twice is executed and the call is then refused: the checks look
  at every name before anything runs and accept both, the second execution meets a completed step,
  and the response is an error although the step is completed.
\<close>

theorem duplicate_index_executes_then_fails:
  assumes "steps_ok (pa_steps w)" and "tenant \<noteq> []" and "found_plan session tenant w = Some d"
    and "approved_at (spec_ensure (pn_steps d) (plans (pa_steps w) session)) i"
    and "execute_approved_steps_v2 session tenant subject (Some [i, i]) now w = (r, w')"
  shows "\<exists>e. r = Inl e \<and> snd (plans (pa_steps w') session ! i) = StCompleted"
proof -
  let ?plan = "spec_ensure (pn_steps d) (plans (pa_steps w) session)"
  have "wp (execute_approved_steps_v2 session tenant subject (Some [i, i]) now) (\<lambda>_ _. False)
      (\<lambda>e w'. snd (plans (pa_steps w') session ! i) = StCompleted) w"
    unfolding execute_approved_steps_v2_def
  proof (rule wp_bindI [OF wp_mono [OF seeded_records_wp [OF assms(1-3)]]], assumption, simp, goal_cases)
    case (1 records w1)
    then have w1: "steps_ok (pa_steps w1)" "records = list_plan_steps session (pa_steps w1)" "plans (pa_steps w1) session = ?plan" by auto
    have t: "target_indices (Some [i, i]) records = Inr [i, i]"
      using check_targets_ok(1) [OF w1(1), of "[i, i]" session] assms(4) w1 by (simp add: target_indices_def)
    have ap: "approved_at (plans (pa_steps w1) session) i" using assms(4) w1(3) by simp
    have "wp (each_a (execute_one session subject now) [i, i]) (\<lambda>_ _. False) (\<lambda>e w'. snd (plans (pa_steps w') session ! i) = StCompleted) w1"
      unfolding each_a.simps
    proof (rule wp_thenI [OF wp_mono [OF execute_one_wp [OF w1(1) ap]]], assumption, simp, goal_cases)
      case (1 x w2)
      then have w2: "steps_ok (pa_steps w2)" "snd (plans (pa_steps w2) session ! i) = StCompleted" "i < length (plans (pa_steps w2) session)"
        using ap by (auto simp: approved_at_def)
      then have no: "spec_transition i ''execute'' (plans (pa_steps w2) session) = None" by (simp add: spec_transition_def)
      have "wp (execute_one session subject now i) (\<lambda>_ _. False) (\<lambda>e w'. snd (plans (pa_steps w') session ! i) = StCompleted) w2"
        unfolding execute_one_def
        by (rule wp_thenI [OF wp_mono [OF transition_h_wp [OF w2(1)]]], assumption) (use no w2 in auto)
      then show ?case by (simp add: wp_mono)
    qed
    then show ?case by (simp add: t wp_gets_eta)
  qed
  then show ?thesis using assms(5) by (auto simp: wp_def split: sum.splits)
qed

theorem duplicate_index_executes_then_fails_witness:
  "\<exists>e w'. execute_approved_steps_v2 ''s'' ''acme'' ''ann'' (Some [0, 0]) 2 sample_approved = (Inl e, w') \<and>
     snd (plans (pa_steps w') ''s'' ! 0) = StCompleted"
proof -
  obtain r w' where run: "execute_approved_steps_v2 ''s'' ''acme'' ''ann'' (Some [0, 0]) 2 sample_approved = (r, w')" by (metis prod.exhaust)
  let ?d = "\<lparr>pn_session_id = ''s'', pn_steps = [''a'', ''b''], pn_status = ''draft'', pn_updated_at = 0, pn_tenant_id = ''acme''\<rparr> :: plan_document"
  have doc: "found_plan ''s'' ''acme'' sample_approved = Some ?d" by code_simp
  have ap: "approved_at (spec_ensure (pn_steps ?d) (plans (pa_steps sample_approved) ''s'')) 0" by code_simp
  have "\<exists>e. r = Inl e \<and> snd (plans (pa_steps w') ''s'' ! 0) = StCompleted"
    using duplicate_index_executes_then_fails [OF sample_approved_ok _ doc ap run] by simp
  then show ?thesis using run by auto
qed

end
