(* ===== verification/Event_Catalog.thy ===== *)
theory Event_Catalog
  imports Flow_Model
begin

text \<open>
  The event catalog and the canonical envelope (\<^verbatim>\<open>backend/events/catalog.py\<close>). A payload model is the
  list of its fields in order of declaration, a field without default being required. Validation of
  a payload belongs to pydantic and is the parameter \<open>model_validate\<close>, which returns the dump of the validated
  model or nothing when it raises; what the code relies on is \<open>validates_conforming\<close>.
\<close>

datatype field_type = TStr | TInt | TFloat | TAny | TList field_type | TDict field_type | TOptional field_type

datatype model_field = Field (fd_name: string) (fd_type: field_type) (fd_default: "pyval option")

type_synonym data_model = "model_field list"

type_synonym payload = "(string \<times> pyval) list"

abbreviation required :: "string \<Rightarrow> field_type \<Rightarrow> model_field" where
  "required name ty \<equiv> Field name ty None"

definition SCHEMA_VERSION_EVENTS :: string where "SCHEMA_VERSION_EVENTS = ''2.0.0''"

subsection \<open>The payload models\<close>

definition SessionCreatedData :: data_model where
  "SessionCreatedData = [required ''sessionId'' TStr, required ''goal'' TStr]"

definition FlowRunStartedData :: data_model where
  "FlowRunStartedData = [required ''flowId'' TStr, required ''flowVersion'' TStr]"

definition RunStepStartedData :: data_model where
  "RunStepStartedData = [required ''stepKey'' TStr, required ''agent'' TStr]"

definition RunStepCompletedData :: data_model where
  "RunStepCompletedData = [required ''stepKey'' TStr, required ''status'' TStr, required ''attempt'' TInt]"

definition RunStepFailedData :: data_model where
  "RunStepFailedData = [required ''stepKey'' TStr, required ''error'' TStr, required ''attempt'' TInt]"

definition AgentTokenDeltaData :: data_model where
  "AgentTokenDeltaData = [required ''stepKey'' TStr, required ''delta'' TStr]"

definition RunHumanRequestedData :: data_model where
  "RunHumanRequestedData = [required ''stepKey'' TStr, required ''prompt'' TStr]"

definition RunHumanResolvedData :: data_model where
  "RunHumanResolvedData = [required ''stepKey'' TStr, required ''decision'' TStr]"

definition FlowRunCompletedData :: data_model where
  "FlowRunCompletedData = [required ''status'' TStr, required ''costUsd'' TFloat, required ''tokens'' TInt]"

definition FlowRunFailedData :: data_model where
  "FlowRunFailedData = [required ''error'' TStr, required ''failedStep'' TStr]"

definition RunBudgetExceededData :: data_model where
  "RunBudgetExceededData = [required ''dimension'' TStr, required ''limit'' TFloat, required ''used'' TFloat]"

definition GuardrailViolationBlockedData :: data_model where
  "GuardrailViolationBlockedData = [required ''guardrailId'' TStr, required ''reason'' TStr]"

definition PatchAppliedData :: data_model where
  "PatchAppliedData = [required ''files'' (TList TStr), required ''additions'' TInt, required ''deletions'' TInt]"

definition PatchChangedFilesListedData :: data_model where
  "PatchChangedFilesListedData = [required ''sessionId'' TStr, required ''fileCount'' TInt]"

definition PatchDiscardedData :: data_model where
  "PatchDiscardedData = [required ''sessionId'' TStr, required ''patchId'' TStr, required ''path'' TStr]"

definition ValidationGateData :: data_model where
  "ValidationGateData = [required ''gate'' TStr, required ''report'' (TDict TAny)]"

definition EvalRunCompletedData :: data_model where
  "EvalRunCompletedData = [required ''evalId'' TStr, required ''score'' TFloat, required ''metrics'' (TDict TFloat)]"

definition PluginLifecycleData :: data_model where
  "PluginLifecycleData = [required ''pluginId'' TStr, required ''version'' TStr]"

definition RegistryEntryData :: data_model where
  "RegistryEntryData = [required ''id'' TStr, required ''version'' TStr]"

definition RunTimelineStepData :: data_model where
  "RunTimelineStepData =
     [required ''stepKey'' TStr, required ''actorRole'' TStr, required ''status'' TStr, required ''output'' TStr]"

definition PlanStepTransitionData :: data_model where
  "PlanStepTransitionData =
     [required ''sessionId'' TStr, required ''stepIndex'' TInt, required ''fromState'' TStr, required ''toState'' TStr,
      required ''actor'' TStr]"

definition PlanStepMutationData :: data_model where
  "PlanStepMutationData = [required ''sessionId'' TStr, required ''stepIndex'' TInt, required ''actor'' TStr]"

definition AccessRequestData :: data_model where
  "AccessRequestData =
     [required ''subjectId'' TStr, required ''authMethod'' TStr, Field ''credentialId'' (TOptional TStr) (Some PNone),
      required ''roles'' (TList TStr), required ''requiredScope'' TStr, required ''resourceType'' TStr,
      Field ''resourceId'' (TOptional TStr) (Some PNone), required ''method'' TStr, required ''routeTemplate'' TStr,
      required ''decision'' TStr, required ''reason'' TStr, required ''requestId'' TStr]"

definition QuotaWarningData :: data_model where
  "QuotaWarningData =
     [required ''resource'' TStr, required ''used'' TInt, required ''limit'' TInt, required ''windowKey'' TStr]"

definition QuotaExceededData :: data_model where
  "QuotaExceededData =
     [required ''resource'' TStr, required ''used'' TInt, required ''limit'' TInt, required ''windowKey'' TStr]"

definition ExecutionActionStartedData :: data_model where
  "ExecutionActionStartedData =
     [required ''actionId'' TStr, required ''taskId'' TStr, required ''type'' TStr,
      Field ''command'' (TOptional (TList TStr)) (Some PNone), Field ''path'' (TOptional TStr) (Some PNone),
      Field ''stepLabel'' (TOptional TStr) (Some PNone)]"

definition ExecutionActionCompletedData :: data_model where
  "ExecutionActionCompletedData =
     [required ''actionId'' TStr, required ''taskId'' TStr, required ''status'' TStr, required ''exitCode'' TInt,
      Field ''command'' (TOptional (TList TStr)) (Some PNone), Field ''path'' (TOptional TStr) (Some PNone),
      Field ''stdout'' TStr (Some (PStr [])), Field ''stderr'' TStr (Some (PStr [])),
      Field ''stepLabel'' (TOptional TStr) (Some PNone)]"

definition ExecutionActionFailedData :: data_model where
  "ExecutionActionFailedData =
     [required ''actionId'' TStr, required ''taskId'' TStr, required ''error'' TStr,
      Field ''command'' (TOptional (TList TStr)) (Some PNone), Field ''path'' (TOptional TStr) (Some PNone),
      Field ''stdout'' TStr (Some (PStr [])), Field ''stderr'' TStr (Some (PStr [])),
      Field ''stepLabel'' (TOptional TStr) (Some PNone), Field ''failureKind'' (TOptional TStr) (Some PNone)]"

definition ExecutionPolicyDecisionData :: data_model where
  "ExecutionPolicyDecisionData = [required ''actionId'' TStr, required ''category'' TStr, required ''reason'' TStr]"

definition ExecutionSelfVerificationOutcomeData :: data_model where
  "ExecutionSelfVerificationOutcomeData = [required ''taskId'' TStr, required ''outcome'' TStr]"

definition ExecutionRepairSkippedData :: data_model where
  "ExecutionRepairSkippedData = [required ''taskId'' TStr, required ''failureKind'' TStr, required ''reason'' TStr]"

definition EnvironmentInstanceProvisionedData :: data_model where
  "EnvironmentInstanceProvisionedData =
     [required ''environmentId'' TStr, required ''backendKind'' TStr, required ''profileId'' TStr,
      required ''profileHash'' TStr]"

definition EnvironmentAccessDecisionData :: data_model where
  "EnvironmentAccessDecisionData =
     [required ''environmentId'' TStr, required ''category'' TStr, required ''target'' TStr, required ''reason'' TStr]"

definition EnvironmentInstanceRetiredData :: data_model where
  "EnvironmentInstanceRetiredData = [required ''environmentId'' TStr, required ''reason'' TStr]"

definition SecretLifecycleData :: data_model where
  "SecretLifecycleData =
     [required ''tenantId'' TStr, required ''project'' TStr, required ''name'' TStr, required ''version'' TInt,
      required ''actorId'' TStr]"

definition SecretLeakSuspectedData :: data_model where
  "SecretLeakSuspectedData =
     [required ''tenantId'' TStr, required ''project'' TStr, required ''name'' TStr, required ''runId'' TStr,
      required ''location'' TStr]"

subsection \<open>The catalog\<close>

datatype partition_field = ByRun | ByTenant

datatype event_definition = EventDefinition
  (ed_name: string) (ed_emitted_by: string) (ed_partition: partition_field) (ed_data_model: data_model) (ed_schema_version: string)

definition DEFINITIONS :: "event_definition list" where
  "DEFINITIONS = [
     EventDefinition ''session.created'' ''Control Plane API'' ByTenant SessionCreatedData SCHEMA_VERSION_EVENTS,
     EventDefinition ''flow.run.started'' ''Orchestration Engine'' ByRun FlowRunStartedData SCHEMA_VERSION_EVENTS,
     EventDefinition ''run.step.started'' ''Orchestration Engine'' ByRun RunStepStartedData SCHEMA_VERSION_EVENTS,
     EventDefinition ''run.step.completed'' ''Orchestration Engine'' ByRun RunStepCompletedData SCHEMA_VERSION_EVENTS,
     EventDefinition ''run.step.failed'' ''Orchestration Engine'' ByRun RunStepFailedData SCHEMA_VERSION_EVENTS,
     EventDefinition ''agent.token.delta'' ''Agent Runtime'' ByRun AgentTokenDeltaData SCHEMA_VERSION_EVENTS,
     EventDefinition ''run.human.requested'' ''Orchestration Engine'' ByRun RunHumanRequestedData SCHEMA_VERSION_EVENTS,
     EventDefinition ''run.human.resolved'' ''Control Plane API'' ByRun RunHumanResolvedData SCHEMA_VERSION_EVENTS,
     EventDefinition ''flow.run.completed'' ''Orchestration Engine'' ByRun FlowRunCompletedData SCHEMA_VERSION_EVENTS,
     EventDefinition ''flow.run.failed'' ''Orchestration Engine'' ByRun FlowRunFailedData SCHEMA_VERSION_EVENTS,
     EventDefinition ''run.budget.exceeded'' ''Agent Runtime'' ByRun RunBudgetExceededData SCHEMA_VERSION_EVENTS,
     EventDefinition ''guardrail.violation.blocked'' ''Agent Runtime'' ByRun GuardrailViolationBlockedData SCHEMA_VERSION_EVENTS,
     EventDefinition ''patch.applied'' ''Execution Sandbox'' ByRun PatchAppliedData SCHEMA_VERSION_EVENTS,
     EventDefinition ''validation.gate.passed'' ''Execution Sandbox'' ByRun ValidationGateData SCHEMA_VERSION_EVENTS,
     EventDefinition ''validation.gate.failed'' ''Execution Sandbox'' ByRun ValidationGateData SCHEMA_VERSION_EVENTS,
     EventDefinition ''eval.run.completed'' ''Evaluation Service'' ByTenant EvalRunCompletedData SCHEMA_VERSION_EVENTS,
     EventDefinition ''plugin.installed'' ''Plugin Host'' ByTenant PluginLifecycleData SCHEMA_VERSION_EVENTS,
     EventDefinition ''plugin.removed'' ''Plugin Host'' ByTenant PluginLifecycleData SCHEMA_VERSION_EVENTS,
     EventDefinition ''agent.registered'' ''Registries'' ByTenant RegistryEntryData SCHEMA_VERSION_EVENTS,
     EventDefinition ''skill.registered'' ''Registries'' ByTenant RegistryEntryData SCHEMA_VERSION_EVENTS,
     EventDefinition ''run.timeline.planning'' ''Orchestration Engine'' ByRun RunTimelineStepData SCHEMA_VERSION_EVENTS,
     EventDefinition ''run.timeline.analysis'' ''Orchestration Engine'' ByRun RunTimelineStepData SCHEMA_VERSION_EVENTS,
     EventDefinition ''run.timeline.patch'' ''Orchestration Engine'' ByRun RunTimelineStepData SCHEMA_VERSION_EVENTS,
     EventDefinition ''run.timeline.validation'' ''Orchestration Engine'' ByRun RunTimelineStepData SCHEMA_VERSION_EVENTS,
     EventDefinition ''plan.step.reviewing'' ''Control Plane API'' ByTenant PlanStepTransitionData SCHEMA_VERSION_EVENTS,
     EventDefinition ''plan.step.approved'' ''Control Plane API'' ByTenant PlanStepTransitionData SCHEMA_VERSION_EVENTS,
     EventDefinition ''plan.step.rejected'' ''Control Plane API'' ByTenant PlanStepTransitionData SCHEMA_VERSION_EVENTS,
     EventDefinition ''plan.step.executing'' ''Control Plane API'' ByTenant PlanStepTransitionData SCHEMA_VERSION_EVENTS,
     EventDefinition ''plan.step.completed'' ''Control Plane API'' ByTenant PlanStepTransitionData SCHEMA_VERSION_EVENTS,
     EventDefinition ''plan.step.added'' ''Control Plane API'' ByTenant PlanStepMutationData SCHEMA_VERSION_EVENTS,
     EventDefinition ''plan.step.removed'' ''Control Plane API'' ByTenant PlanStepMutationData SCHEMA_VERSION_EVENTS,
     EventDefinition ''patch.changedfiles.listed'' ''Control Plane API'' ByRun PatchChangedFilesListedData SCHEMA_VERSION_EVENTS,
     EventDefinition ''patch.discarded'' ''Control Plane API'' ByRun PatchDiscardedData SCHEMA_VERSION_EVENTS,
     EventDefinition ''access.request.allowed'' ''Control Plane API'' ByTenant AccessRequestData SCHEMA_VERSION_EVENTS,
     EventDefinition ''access.request.denied'' ''Control Plane API'' ByTenant AccessRequestData SCHEMA_VERSION_EVENTS,
     EventDefinition ''quota.warning'' ''Control Plane API'' ByTenant QuotaWarningData SCHEMA_VERSION_EVENTS,
     EventDefinition ''quota.exceeded'' ''Control Plane API'' ByTenant QuotaExceededData SCHEMA_VERSION_EVENTS,
     EventDefinition ''execution.action.started'' ''Task Executor'' ByRun ExecutionActionStartedData SCHEMA_VERSION_EVENTS,
     EventDefinition ''execution.action.completed'' ''Task Executor'' ByRun ExecutionActionCompletedData SCHEMA_VERSION_EVENTS,
     EventDefinition ''execution.action.failed'' ''Task Executor'' ByRun ExecutionActionFailedData SCHEMA_VERSION_EVENTS,
     EventDefinition ''execution.policy.allowed'' ''Policy Engine'' ByRun ExecutionPolicyDecisionData SCHEMA_VERSION_EVENTS,
     EventDefinition ''execution.policy.denied'' ''Policy Engine'' ByRun ExecutionPolicyDecisionData SCHEMA_VERSION_EVENTS,
     EventDefinition ''execution.verification.outcome'' ''Task Executor'' ByRun ExecutionSelfVerificationOutcomeData SCHEMA_VERSION_EVENTS,
     EventDefinition ''execution.repair.skipped'' ''Task Executor'' ByRun ExecutionRepairSkippedData SCHEMA_VERSION_EVENTS,
     EventDefinition ''environment.instance.provisioned'' ''Environment Manager'' ByRun EnvironmentInstanceProvisionedData SCHEMA_VERSION_EVENTS,
     EventDefinition ''environment.access.allowed'' ''Environment Manager'' ByRun EnvironmentAccessDecisionData SCHEMA_VERSION_EVENTS,
     EventDefinition ''environment.access.denied'' ''Environment Manager'' ByRun EnvironmentAccessDecisionData SCHEMA_VERSION_EVENTS,
     EventDefinition ''environment.instance.retired'' ''Environment Manager'' ByRun EnvironmentInstanceRetiredData SCHEMA_VERSION_EVENTS,
     EventDefinition ''secret.created'' ''Secret Service'' ByTenant SecretLifecycleData SCHEMA_VERSION_EVENTS,
     EventDefinition ''secret.rotated'' ''Secret Service'' ByTenant SecretLifecycleData SCHEMA_VERSION_EVENTS,
     EventDefinition ''secret.revoked'' ''Secret Service'' ByTenant SecretLifecycleData SCHEMA_VERSION_EVENTS,
     EventDefinition ''secret.resolved'' ''Secret Service'' ByTenant SecretLifecycleData SCHEMA_VERSION_EVENTS,
     EventDefinition ''secret.leak.suspected'' ''Environment Manager'' ByRun SecretLeakSuspectedData SCHEMA_VERSION_EVENTS]"

text \<open>\<open>EVENT_NAME_RE.fullmatch\<close>: two or three segments of lower-case letters.\<close>

definition event_name_ok :: "string \<Rightarrow> bool" where
  "event_name_ok name =
     (let segments = split_on (CHR ''.'') name
      in length segments \<in> {2, 3} \<and> (\<forall>s\<in>set segments. s \<noteq> [] \<and> (\<forall>c\<in>set s. is_lower c)))"

datatype event_error =
    InvalidEventName string
  | DuplicateEventName string
  | UnknownEvent string
  | PayloadInvalid string
  | DuplicateEventId string
  | SubscriberFailed

definition catalog_get :: "string \<Rightarrow> event_definition list \<Rightarrow> event_definition option" where
  "catalog_get name = List.find (\<lambda>d. ed_name d = name)"

fun build_catalog_from :: "event_definition list \<Rightarrow> event_definition list \<Rightarrow> (event_error, event_definition list) result" where
  "build_catalog_from catalog [] = Inr catalog"
| "build_catalog_from catalog (d # ds) =
     (if \<not> event_name_ok (ed_name d) then Inl (InvalidEventName (ed_name d))
      else if catalog_get (ed_name d) catalog \<noteq> None then Inl (DuplicateEventName (ed_name d))
      else build_catalog_from (catalog @ [d]) ds)"

definition build_catalog :: "event_definition list \<Rightarrow> (event_error, event_definition list) result" where
  "build_catalog = build_catalog_from []"

definition EVENT_CATALOG :: "event_definition list" where
  "EVENT_CATALOG = (case build_catalog DEFINITIONS of Inl e \<Rightarrow> [] | Inr c \<Rightarrow> c)"

subsection \<open>Envelopes\<close>

record event_envelope =
  ev_schema_version :: string
  ev_event_id :: string
  ev_type :: string
  ev_occurred_at :: int
  ev_tenant_id :: string
  ev_partition_key :: string
  ev_trace_id :: string
  ev_subject :: "(string \<times> string) list"
  ev_data :: payload

type_synonym validator = "data_model \<Rightarrow> payload \<Rightarrow> payload option"

text \<open>\<open>hex\<close> is what \<open>uuid4().hex\<close> returns and \<open>now\<close> the reading of the clock.\<close>

definition make_envelope :: "validator \<Rightarrow> string \<Rightarrow> int \<Rightarrow> string \<Rightarrow> string \<Rightarrow> string \<Rightarrow> payload \<Rightarrow>
    (string \<times> string) list option \<Rightarrow> string \<Rightarrow> (event_error, event_envelope) result" where
  "make_envelope model_validate hex now ty tenant part_key data subject trace =
     (case catalog_get ty EVENT_CATALOG of
        None \<Rightarrow> Inl (UnknownEvent ty)
      | Some d \<Rightarrow>
         (case model_validate (ed_data_model d) data of
            None \<Rightarrow> Inl (PayloadInvalid ty)
          | Some dump \<Rightarrow> Inr
             \<lparr>ev_schema_version = ed_schema_version d, ev_event_id = ''evt_'' @ hex, ev_type = ty, ev_occurred_at = now,
              ev_tenant_id = tenant, ev_partition_key = part_key, ev_trace_id = trace,
              ev_subject = (case subject of None \<Rightarrow> [] | Some s \<Rightarrow> s), ev_data = dump\<rparr>))"

text \<open>\<open>model_fields\<close> maps the names of the fields to their declarations.\<close>

definition model_field_of :: "data_model \<Rightarrow> string \<Rightarrow> model_field option" where
  "model_field_of model name = List.find (\<lambda>f. fd_name f = name) model"

definition is_required :: "model_field \<Rightarrow> bool" where
  "is_required f = (fd_default f = None)"

definition is_compatible_evolution :: "data_model \<Rightarrow> data_model \<Rightarrow> bool" where
  "is_compatible_evolution old new =
     ((\<forall>f\<in>set old. case model_field_of new (fd_name f) of
          None \<Rightarrow> False
        | Some g \<Rightarrow> is_required g = is_required f) \<and>
      (\<forall>g\<in>set new. fd_name g \<notin> fd_name ` set old \<longrightarrow> \<not> is_required g))"

subsection \<open>Payloads that conform to a model\<close>

fun has_type :: "field_type \<Rightarrow> pyval \<Rightarrow> bool" where
  "has_type TAny v = True"
| "has_type (TOptional t) v = (v = PNone \<or> has_type t v)"
| "has_type TStr (PStr s) = True"
| "has_type TInt (PInt i) = True"
| "has_type TFloat (PFloat q) = True"
| "has_type (TList t) (PList vs) = (\<forall>v\<in>set vs. has_type t v)"
| "has_type (TDict t) (PDict kvs) = (\<forall>(k, v)\<in>set kvs. (case k of KStr s \<Rightarrow> True | _ \<Rightarrow> False) \<and> has_type t v)"
| "has_type _ _ = False"

definition conforms :: "data_model \<Rightarrow> payload \<Rightarrow> bool" where
  "conforms model data = (\<forall>f\<in>set model. case map_of data (fd_name f) of
      None \<Rightarrow> \<not> is_required f
    | Some v \<Rightarrow> has_type (fd_type f) v)"

definition model_dump :: "data_model \<Rightarrow> payload \<Rightarrow> payload" where
  "model_dump model data = map (\<lambda>f. (fd_name f, case map_of data (fd_name f) of
      Some v \<Rightarrow> v
    | None \<Rightarrow> (case fd_default f of Some v \<Rightarrow> v | None \<Rightarrow> PNone))) model"

text \<open>
  The documented behaviour of pydantic that the producers rely on: a payload that has every required
  field, each with a value of the annotated type, validates, and the dump has the declared fields
  with their values or defaults.
\<close>

definition validates_conforming :: "validator \<Rightarrow> bool" where
  "validates_conforming model_validate \<longleftrightarrow>
     (\<forall>model data. conforms model data \<longrightarrow> model_validate model data = Some (model_dump model data))"

definition strict_validate :: validator where
  "strict_validate model data = (if conforms model data then Some (model_dump model data) else None)"

lemma strict_validate_conforming [simp]: "validates_conforming strict_validate"
  by (simp add: validates_conforming_def strict_validate_def)

lemma validates_conformingD:
  "validates_conforming v \<Longrightarrow> conforms model data \<Longrightarrow> v model data = Some (model_dump model data)"
  by (simp add: validates_conforming_def)

text \<open>Every name of the definitions passes the checks, so that the catalog is the table of definitions.\<close>

lemma build_catalog_from_ok:
  "\<forall>d\<in>set ds. event_name_ok (ed_name d) \<Longrightarrow> distinct (map ed_name (catalog @ ds)) \<Longrightarrow>
   build_catalog_from catalog ds = Inr (catalog @ ds)"
  by (induction ds arbitrary: catalog) (auto simp: catalog_get_def find_None_iff image_iff)

lemma event_names_ok: "list_all event_name_ok (map ed_name DEFINITIONS)"
  by code_simp

lemma event_names_distinct: "distinct (map ed_name DEFINITIONS)"
  by code_simp

lemma build_catalog_DEFINITIONS: "build_catalog DEFINITIONS = Inr DEFINITIONS"
  using build_catalog_from_ok [of DEFINITIONS "[]"] event_names_ok event_names_distinct
  by (simp add: build_catalog_def list_all_iff)

lemma EVENT_CATALOG_definitions [simp]: "EVENT_CATALOG = DEFINITIONS"
  by (simp add: EVENT_CATALOG_def build_catalog_DEFINITIONS)

subsection \<open>Evolution of payload models\<close>

definition required_names :: "data_model \<Rightarrow> string set" where
  "required_names model = {fd_name f |f. f \<in> set model \<and> is_required f}"

text \<open>The payloads a model admits as far as the presence of its fields goes.\<close>

definition admits :: "data_model \<Rightarrow> payload \<Rightarrow> bool" where
  "admits model data = (\<forall>f\<in>set model. is_required f \<longrightarrow> map_of data (fd_name f) \<noteq> None)"

lemma in_required_names: "n \<in> required_names model \<longleftrightarrow> (\<exists>f\<in>set model. fd_name f = n \<and> is_required f)"
  by (auto simp: required_names_def)

lemma admits_names: "admits model data \<longleftrightarrow> required_names model \<subseteq> dom (map_of data)"
  by (auto simp: admits_def required_names_def dom_def)

lemma finite_required_names [simp]: "finite (required_names model)"
  by (simp add: required_names_def setcompr_eq_image)

lemma admits_iff: "(\<forall>data. admits m data = admits m' data) \<longleftrightarrow> required_names m = required_names m'"
proof (intro iffI equalityI)
  assume eq: "\<forall>data. admits m data = admits m' data"
  have dom: "\<exists>data :: payload. dom (map_of data) = A" if "finite A" for A
  proof -
    obtain xs where "set xs = A" using finite_list [OF \<open>finite A\<close>] by blast
    then have "dom (map_of (map (\<lambda>x. (x, PNone)) xs)) = A" by (simp add: dom_map_of_conv_image_fst image_image)
    then show ?thesis by blast
  qed
  show "required_names m \<subseteq> required_names m'" using eq dom [OF finite_required_names, of m'] unfolding admits_names by (metis order_refl)
  show "required_names m' \<subseteq> required_names m" using eq dom [OF finite_required_names, of m] unfolding admits_names by (metis order_refl)
qed (simp add: admits_names)

lemma model_field_of_distinct:
  "distinct (map fd_name model) \<Longrightarrow> model_field_of model name = Some f \<longleftrightarrow> f \<in> set model \<and> fd_name f = name"
  by (induction model) (auto simp: model_field_of_def image_iff)

text \<open>
  The rule for the evolution of payload schemas. For models with distinct fields, a new model is
  a compatible evolution of an old one exactly when it keeps all its fields and both admit the same
  payloads, so the rule is reflexive and transitive and accepts neither a removal nor a new
  required field nor a change of requiredness.
\<close>

theorem compatible_evolution_exact:
  assumes "distinct (map fd_name old)" and "distinct (map fd_name new)"
  shows "is_compatible_evolution old new \<longleftrightarrow>
    fd_name ` set old \<subseteq> fd_name ` set new \<and> (\<forall>data. admits old data = admits new data)"
proof -
  have some: "model_field_of new (fd_name f) = Some g \<longleftrightarrow> g \<in> set new \<and> fd_name g = fd_name f" for f g
    using model_field_of_distinct [OF assms(2)] by simp
  have old: "f = f'" if "f \<in> set old" "f' \<in> set old" "fd_name f = fd_name f'" for f f'
    using that assms(1) by (metis distinct_map inj_onD)
  have new: "g = g'" if "g \<in> set new" "g' \<in> set new" "fd_name g = fd_name g'" for g g'
    using that assms(2) by (metis distinct_map inj_onD)
  have "is_compatible_evolution old new \<longleftrightarrow>
    (\<forall>f\<in>set old. \<exists>g\<in>set new. fd_name g = fd_name f \<and> is_required g = is_required f) \<and>
    (\<forall>g\<in>set new. fd_name g \<notin> fd_name ` set old \<longrightarrow> \<not> is_required g)"
  proof -
    have "(case model_field_of new (fd_name f) of None \<Rightarrow> False | Some g \<Rightarrow> is_required g = is_required f) \<longleftrightarrow>
      (\<exists>g\<in>set new. fd_name g = fd_name f \<and> is_required g = is_required f)" for f
    proof (cases "model_field_of new (fd_name f)")
      case (Some a)
      then have "g = a" if "g \<in> set new" "fd_name g = fd_name f" for g using some [of f g] Some that by simp
      then show ?thesis using Some some [of f a] by auto
    qed (use some [of f] in auto)
    then show ?thesis by (simp add: is_compatible_evolution_def)
  qed
  also have "\<dots> \<longleftrightarrow> fd_name ` set old \<subseteq> fd_name ` set new \<and> required_names old = required_names new"
  proof (intro iffI conjI)
    assume l: "(\<forall>f\<in>set old. \<exists>g\<in>set new. fd_name g = fd_name f \<and> is_required g = is_required f) \<and>
      (\<forall>g\<in>set new. fd_name g \<notin> fd_name ` set old \<longrightarrow> \<not> is_required g)"
    show "fd_name ` set old \<subseteq> fd_name ` set new" using l by (metis image_eqI image_subsetI)
    show "required_names old = required_names new"
    proof (intro equalityI subsetI)
      fix n assume "n \<in> required_names old"
      then obtain f where "f \<in> set old" "is_required f" "n = fd_name f" by (auto simp: required_names_def)
      then show "n \<in> required_names new" using l unfolding in_required_names by metis
    next
      fix n assume "n \<in> required_names new"
      then obtain g where g: "g \<in> set new" "is_required g" "n = fd_name g" by (auto simp: required_names_def)
      then obtain f where f: "f \<in> set old" "fd_name f = fd_name g" using l by (metis imageE)
      then obtain g' where "g' \<in> set new" "fd_name g' = fd_name f" "is_required g' = is_required f" using l by blast
      then have "is_required f" using new g f by metis
      then show "n \<in> required_names old" using f g unfolding in_required_names by metis
    qed
  next
    assume r: "fd_name ` set old \<subseteq> fd_name ` set new \<and> required_names old = required_names new"
    have req: "is_required f \<longleftrightarrow> fd_name f \<in> required_names old" if "f \<in> set old" for f
      using that old unfolding in_required_names by metis
    have req': "is_required g \<longleftrightarrow> fd_name g \<in> required_names new" if "g \<in> set new" for g
      using that new unfolding in_required_names by metis
    show "\<forall>f\<in>set old. \<exists>g\<in>set new. fd_name g = fd_name f \<and> is_required g = is_required f"
    proof
      fix f assume f: "f \<in> set old"
      then obtain g where "g \<in> set new" "fd_name g = fd_name f" using r by (metis imageE image_eqI subsetD)
      then show "\<exists>g\<in>set new. fd_name g = fd_name f \<and> is_required g = is_required f"
        using f r req req' by metis
    qed
    show "\<forall>g\<in>set new. fd_name g \<notin> fd_name ` set old \<longrightarrow> \<not> is_required g"
    proof (intro ballI impI notI)
      fix g assume "g \<in> set new" and out: "fd_name g \<notin> fd_name ` set old" and "is_required g"
      then have "fd_name g \<in> required_names old" using r req' by simp
      then show False using out unfolding in_required_names by (metis image_eqI)
    qed
  qed
  finally show ?thesis by (simp add: admits_iff)
qed

theorem compatible_evolution_exact_witness:
  "is_compatible_evolution [Field ''stepKey'' TStr None] [Field ''stepKey'' TStr None, Field ''note'' TStr (Some (PStr []))] \<longleftrightarrow>
   fd_name ` set [Field ''stepKey'' TStr None] \<subseteq>
     fd_name ` set [Field ''stepKey'' TStr None, Field ''note'' TStr (Some (PStr []))] \<and>
   (\<forall>data. admits [Field ''stepKey'' TStr None] data =
     admits [Field ''stepKey'' TStr None, Field ''note'' TStr (Some (PStr []))] data)"
  by (rule compatible_evolution_exact) simp_all

end
