(* ===== verification/Event_Store.thy ===== *)
theory Event_Store
  imports Event_Catalog Sequenced_Log Sql_Table Flow_Budgets "HOL-Library.AList"
begin

text \<open>
  The durable event store (\<^verbatim>\<open>backend/events/store.py\<close>, \<^verbatim>\<open>backend/events/records.py\<close>): the append-only log
  of envelopes, numbered per partition, the projections materialized with every append, the
  reconstruction of a run from its log and the purge of expired events. Instants are microseconds;
  ISO texts of UTC instants compare as the instants do. \<open>now\<close> is the reading of the clock in an operation. A JSON
  column holds what \<open>json.loads\<close> returns for the text \<open>json.dumps\<close> wrote.
\<close>

definition TERMINAL_STATUSES :: "string list" where
  "TERMINAL_STATUSES = [''completed'', ''failed'']"

definition STATUS_BY_EVENT :: "(string \<times> string) list" where
  "STATUS_BY_EVENT =
     [(''flow.run.started'', ''running''), (''run.step.started'', ''running''), (''run.step.completed'', ''running''),
      (''run.step.failed'', ''running''), (''run.human.requested'', ''waiting_human''),
      (''run.human.resolved'', ''running''), (''flow.run.completed'', ''completed''), (''flow.run.failed'', ''failed'')]"

record stored_event =
  se_sequence :: nat
  se_envelope :: event_envelope
  se_stored_at :: int

record event_projection =
  pj_partition_key :: string
  pj_tenant_id :: string
  pj_status :: string
  pj_last_sequence :: nat
  pj_last_event_type :: string
  pj_last_event_at :: int
  pj_counts :: "(string \<times> nat) list"
  pj_updated_at :: int

record event_db =
  db_events :: "stored_event list"
  db_projections :: "event_projection list"

datatype store_error = NotSerializable | IntegrityError string | ConversionError | DateOverflow

abbreviation partition_of :: "stored_event \<Rightarrow> string" where
  "partition_of e \<equiv> ev_partition_key (se_envelope e)"

text \<open>\<open>json.loads(json.dumps(data))\<close> for a payload, whose keys are texts.\<close>

fun json_payload :: "payload \<Rightarrow> payload option" where
  "json_payload [] = Some []"
| "json_payload ((k, v) # data) =
     (case json_val v of None \<Rightarrow> None | Some w \<Rightarrow> map_option (Cons (k, w)) (json_payload data))"

subsection \<open>Append\<close>

definition status_after :: "string \<Rightarrow> string \<Rightarrow> string" where
  "status_after ty status = (case map_of STATUS_BY_EVENT ty of None \<Rightarrow> status | Some s \<Rightarrow> s)"

definition count_event :: "string \<Rightarrow> (string \<times> nat) list \<Rightarrow> (string \<times> nat) list" where
  "count_event ty counts =
     AList.update ty ((case map_of counts ty of None \<Rightarrow> 0 | Some n \<Rightarrow> n) + 1) counts"

definition upsert_projection :: "event_envelope \<Rightarrow> nat \<Rightarrow> int \<Rightarrow> event_projection list \<Rightarrow> event_projection list" where
  "upsert_projection env seq now projections =
     (let row = select_one pj_partition_key (ev_partition_key env) projections;
          (status, counts) = (case row of None \<Rightarrow> ([], []) | Some r \<Rightarrow> (pj_status r, pj_counts r));
          new = \<lparr>pj_partition_key = ev_partition_key env, pj_tenant_id = ev_tenant_id env,
                 pj_status = status_after (ev_type env) status, pj_last_sequence = seq,
                 pj_last_event_type = ev_type env, pj_last_event_at = ev_occurred_at env,
                 pj_counts = count_event (ev_type env) counts, pj_updated_at = now\<rparr>
      in case row of
           None \<Rightarrow> projections @ [new]
         | Some r \<Rightarrow> update_where (\<lambda>p. pj_partition_key p = ev_partition_key env) (\<lambda>_. new) projections)"

text \<open>
  The transaction of \<open>append\<close>. The insertion fails on a known event id (the primary key) or
  a taken sequence number (the unique constraint), and a failure rolls everything back.
\<close>

definition append_envelope :: "int \<Rightarrow> event_envelope \<Rightarrow> (store_error, stored_event, event_db) action" where
  "append_envelope now env db =
     (let seq = next_sequence partition_of se_sequence (ev_partition_key env) (db_events db)
      in case json_payload (ev_data env) of
           None \<Rightarrow> (Inl NotSerializable, db)
         | Some data \<Rightarrow>
             if \<exists>e\<in>set (db_events db). ev_event_id (se_envelope e) = ev_event_id env
             then (Inl (IntegrityError ''event_id''), db)
             else if \<exists>e\<in>set (db_events db). partition_of e = ev_partition_key env \<and> se_sequence e = seq
             then (Inl (IntegrityError ''sequence''), db)
             else (Inr \<lparr>se_sequence = seq, se_envelope = env, se_stored_at = now\<rparr>,
                   \<lparr>db_events = db_events db @ [\<lparr>se_sequence = seq, se_envelope = env\<lparr>ev_data := data\<rparr>, se_stored_at = now\<rparr>],
                    db_projections = upsert_projection env seq now (db_projections db)\<rparr>))"

subsection \<open>Reads\<close>

definition list_stored_events :: "string \<Rightarrow> nat option \<Rightarrow> string option \<Rightarrow> event_db \<Rightarrow> stored_event list" where
  "list_stored_events part after tenant db =
     filter (\<lambda>e. (case after of None \<Rightarrow> 0 | Some n \<Rightarrow> n) < se_sequence e \<and>
                (case tenant of None \<Rightarrow> True | Some t \<Rightarrow> ev_tenant_id (se_envelope e) = t))
       (in_order partition_of se_sequence part (db_events db))"

definition get_projection :: "string \<Rightarrow> event_db \<Rightarrow> event_projection option" where
  "get_projection part db = select_one pj_partition_key part (db_projections db)"

definition list_projections :: "string option \<Rightarrow> string option \<Rightarrow> event_db \<Rightarrow> event_projection list" where
  "list_projections tenant status db =
     sort_key (\<lambda>p. - pj_updated_at p) (sort_key pj_partition_key
       (filter (\<lambda>p. (case tenant of None \<Rightarrow> True | Some t \<Rightarrow> pj_tenant_id p = t) \<and>
                   (case status of None \<Rightarrow> True | Some s \<Rightarrow> pj_status p = s)) (db_projections db)))"

subsection \<open>Reconstruction\<close>

record step_view =
  sv_step_key :: string
  sv_agent :: string
  sv_status :: string
  sv_attempt :: int
  sv_sequence :: nat
  sv_error :: "string option"

record run_document =
  rv_status :: string
  rv_started_at :: "int option"
  rv_ended_at :: "int option"
  rv_error :: string
  rv_cost_usd :: rat
  rv_tokens :: int
  rv_steps :: "step_view list"
  rv_open_steps :: "(string \<times> nat) list"

text \<open>\<open>int(text)\<close>: blanks around, a sign, digits with single underscores between them.\<close>

fun int_digits :: "string \<Rightarrow> string option" where
  "int_digits [] = None"
| "int_digits [c] = (if is_digit c then Some [c] else None)"
| "int_digits (c # d # s) =
     (if \<not> is_digit c then None
      else if d = CHR ''_'' then map_option (Cons c) (int_digits s)
      else map_option (Cons c) (int_digits (d # s)))"

definition parse_int :: "string \<Rightarrow> int option" where
  "parse_int s =
     (case strip s of
        [] \<Rightarrow> None
      | c # r \<Rightarrow>
          if c = CHR ''-'' then map_option (\<lambda>ds. - int (nat_of_digits ds)) (int_digits r)
          else if c = CHR ''+'' then map_option (\<lambda>ds. int (nat_of_digits ds)) (int_digits r)
          else map_option (\<lambda>ds. int (nat_of_digits ds)) (int_digits (c # r)))"

definition value_int :: "pyval \<Rightarrow> (store_error, int) result" where
  "value_int v =
     (case v of
        PInt i \<Rightarrow> Inr i
      | PBool b \<Rightarrow> Inr (of_bool b)
      | PFloat q \<Rightarrow> Inr (py_int q)
      | PStr s \<Rightarrow> (case parse_int s of None \<Rightarrow> Inl ConversionError | Some i \<Rightarrow> Inr i)
      | _ \<Rightarrow> Inl ConversionError)"

text \<open>\<open>float(text)\<close> is the parameter \<open>float_of_text\<close>, as the texts of floats are.\<close>

definition value_float :: "(string \<Rightarrow> rat option) \<Rightarrow> pyval \<Rightarrow> (store_error, rat) result" where
  "value_float float_of_text v =
     (case v of
        PFloat q \<Rightarrow> Inr q
      | PInt i \<Rightarrow> Inr (of_int i)
      | PBool b \<Rightarrow> Inr (of_bool b)
      | PStr s \<Rightarrow> (case float_of_text s of None \<Rightarrow> Inl ConversionError | Some q \<Rightarrow> Inr q)
      | _ \<Rightarrow> Inl ConversionError)"

definition data_get :: "payload \<Rightarrow> string \<Rightarrow> pyval \<Rightarrow> pyval" where
  "data_get data key dflt = (case map_of data key of None \<Rightarrow> dflt | Some v \<Rightarrow> v)"

text \<open>
  One turn of the loop of \<open>reconstruct_run\<close>. The dictionary \<open>open_steps\<close> refers to the dictionaries
  in \<open>steps\<close>: here it holds their positions.
\<close>

definition finish_step_view :: "py_env \<Rightarrow> stored_event \<Rightarrow> run_document \<Rightarrow> (store_error, run_document) result" where
  "finish_step_view pe e v =
     (let data = ev_data (se_envelope e); ty = ev_type (se_envelope e);
          key = py_str pe (data_get data ''stepKey'' (PStr []));
          (i, steps) = (case map_of (rv_open_steps v) key of
             Some i \<Rightarrow> (i, rv_steps v)
           | None \<Rightarrow> (length (rv_steps v), rv_steps v @
               [\<lparr>sv_step_key = key, sv_agent = [], sv_status = [], sv_attempt = 0, sv_sequence = se_sequence e, sv_error = None\<rparr>]));
          terminal = (if ty = ''run.step.completed'' then py_str pe (data_get data ''status'' (PStr ''completed'')) else ''failed'')
      in bind_r (value_int (data_get data ''attempt'' (PInt 1))) (\<lambda>attempt.
         Inr (v\<lparr>rv_steps := steps[i := (steps ! i)\<lparr>sv_status := terminal, sv_attempt := attempt,
              sv_error := (if ty = ''run.step.failed'' then Some (py_str pe (data_get data ''error'' (PStr []))) else sv_error (steps ! i))\<rparr>]\<rparr>)))"

definition reconstruct_event :: "py_env \<Rightarrow> (string \<Rightarrow> rat option) \<Rightarrow> stored_event \<Rightarrow> run_document \<Rightarrow> (store_error, run_document) result" where
  "reconstruct_event pe float_of_text e v0 =
     (let env = se_envelope e; data = ev_data env; ty = ev_type env; v = v0\<lparr>rv_status := status_after ty (rv_status v0)\<rparr>
      in if ty = ''flow.run.started'' then Inr (v\<lparr>rv_started_at := Some (ev_occurred_at env)\<rparr>)
         else if ty = ''run.step.started'' then
           let key = py_str pe (data_get data ''stepKey'' (PStr []));
               step = \<lparr>sv_step_key = key, sv_agent = py_str pe (data_get data ''agent'' (PStr [])), sv_status = ''running'',
                       sv_attempt = 1, sv_sequence = se_sequence e, sv_error = None\<rparr>
           in Inr (v\<lparr>rv_steps := rv_steps v @ [step], rv_open_steps := AList.update key (length (rv_steps v)) (rv_open_steps v)\<rparr>)
         else if ty = ''run.step.completed'' \<or> ty = ''run.step.failed'' then finish_step_view pe e v
         else if ty = ''flow.run.completed'' then
           bind_r (value_float float_of_text (data_get data ''costUsd'' (PFloat 0))) (\<lambda>cost.
           bind_r (value_int (data_get data ''tokens'' (PInt 0))) (\<lambda>tokens.
             Inr (v\<lparr>rv_ended_at := Some (ev_occurred_at env), rv_status := py_str pe (data_get data ''status'' (PStr ''completed'')),
                    rv_cost_usd := cost, rv_tokens := tokens\<rparr>)))
         else if ty = ''flow.run.failed'' then
           Inr (v\<lparr>rv_ended_at := Some (ev_occurred_at env), rv_error := py_str pe (data_get data ''error'' (PStr []))\<rparr>)
         else Inr v)"

fun reconstruct_events :: "py_env \<Rightarrow> (string \<Rightarrow> rat option) \<Rightarrow> stored_event list \<Rightarrow> run_document \<Rightarrow> (store_error, run_document) result" where
  "reconstruct_events pe fl [] v = Inr v"
| "reconstruct_events pe fl (e # es) v = bind_r (reconstruct_event pe fl e v) (reconstruct_events pe fl es)"

definition empty_view :: run_document where
  "empty_view = \<lparr>rv_status = [], rv_started_at = None, rv_ended_at = None, rv_error = [], rv_cost_usd = 0, rv_tokens = 0,
     rv_steps = [], rv_open_steps = []\<rparr>"

text \<open>The document: the view and the number of events.\<close>

definition reconstruct_run :: "py_env \<Rightarrow> (string \<Rightarrow> rat option) \<Rightarrow> string \<Rightarrow> event_db \<Rightarrow> (store_error, run_document \<times> nat) result" where
  "reconstruct_run pe fl part db =
     (let events = list_stored_events part None None db
      in bind_r (reconstruct_events pe fl events empty_view) (\<lambda>v. Inr (v, length events)))"

subsection \<open>Retention\<close>

definition MICROS_PER_DAY :: int where "MICROS_PER_DAY = 86400000000"

text \<open>The instant of \<open>datetime.min\<close>, below which the subtraction overflows.\<close>

definition MIN_INSTANT :: int where "MIN_INSTANT = - 62135596800000000"

definition expired_event :: "int \<Rightarrow> event_db \<Rightarrow> stored_event \<Rightarrow> bool" where
  "expired_event cutoff db e = (se_stored_at e < cutoff \<and>
     (\<exists>p\<in>set (db_projections db). pj_partition_key p = partition_of e \<and> pj_status p \<in> set TERMINAL_STATUSES))"

definition purge_expired :: "int \<Rightarrow> int \<Rightarrow> (store_error, nat, event_db) action" where
  "purge_expired retention_days now db =
     (if retention_days < 0 then (Inr 0, db)
      else let cutoff = now - retention_days * MICROS_PER_DAY
           in if cutoff < MIN_INSTANT then (Inl DateOverflow, db)
              else (Inr (length (filter (expired_event cutoff db) (db_events db))),
                    db\<lparr>db_events := filter (\<lambda>e. \<not> expired_event cutoff db e) (db_events db)\<rparr>))"

end
