(* ===== verification/Event_Laws.thy ===== *)
theory Event_Laws
  imports Event_Store
begin

text \<open>
  The laws of the durable event store: the log is a sequenced log, the projection of a partition
  summarizes every event ever appended to it whatever was purged, the reconstruction agrees with the
  projection, and what a purge removes, with its consequence for the sequence numbers.
\<close>

subsection \<open>One append\<close>

definition next_projection :: "event_envelope \<Rightarrow> nat \<Rightarrow> int \<Rightarrow> event_projection option \<Rightarrow> event_projection" where
  "next_projection env seq now row =
     \<lparr>pj_partition_key = ev_partition_key env, pj_tenant_id = ev_tenant_id env,
      pj_status = status_after (ev_type env) (case row of None \<Rightarrow> [] | Some r \<Rightarrow> pj_status r), pj_last_sequence = seq,
      pj_last_event_type = ev_type env, pj_last_event_at = ev_occurred_at env,
      pj_counts = count_event (ev_type env) (case row of None \<Rightarrow> [] | Some r \<Rightarrow> pj_counts r), pj_updated_at = now\<rparr>"

lemma upsert_projection_row:
  "upsert_projection env seq now ps =
     upsert_row pj_partition_key (next_projection env seq now (select_one pj_partition_key (ev_partition_key env) ps)) ps"
proof (cases "select_one pj_partition_key (ev_partition_key env) ps")
  case None
  then have "\<not> (\<exists>r\<in>set ps. pj_partition_key r = ev_partition_key env)" by (simp add: select_one_None)
  with None show ?thesis by (simp add: upsert_projection_def next_projection_def upsert_row_def Let_def)
next
  case (Some r)
  then have "\<exists>r\<in>set ps. pj_partition_key r = ev_partition_key env" using select_one_SomeD by metis
  with Some show ?thesis by (simp add: upsert_projection_def next_projection_def upsert_row_def update_where_def Let_def)
qed

lemma next_sequence_above: "r \<in> set rows \<Longrightarrow> owner r = o' \<Longrightarrow> pos r < next_sequence owner pos o' rows"
proof -
  have "x \<in> set xs \<Longrightarrow> x \<le> foldr max xs 0" for x and xs :: "nat list"
    by (induction xs) auto
  then show "r \<in> set rows \<Longrightarrow> owner r = o' \<Longrightarrow> pos r < next_sequence owner pos o' rows"
    by (auto simp: next_sequence_def less_Suc_eq_le)
qed

text \<open>An append succeeds exactly on serializable data and a new event id: the unique constraint on sequence numbers never fires.\<close>

definition accepts :: "event_db \<Rightarrow> event_envelope \<Rightarrow> bool" where
  "accepts db env \<longleftrightarrow> json_payload (ev_data env) \<noteq> None \<and>
     (\<forall>e\<in>set (db_events db). ev_event_id (se_envelope e) \<noteq> ev_event_id env)"

definition stored_form :: "event_envelope \<Rightarrow> event_envelope" where
  "stored_form env = env\<lparr>ev_data := (case json_payload (ev_data env) of None \<Rightarrow> [] | Some d \<Rightarrow> d)\<rparr>"

lemma stored_form_simps [simp]:
  "ev_partition_key (stored_form env) = ev_partition_key env" "ev_event_id (stored_form env) = ev_event_id env"
  "ev_type (stored_form env) = ev_type env" "ev_tenant_id (stored_form env) = ev_tenant_id env"
  by (simp_all add: stored_form_def)

definition stored_in :: "int \<Rightarrow> event_envelope \<Rightarrow> event_db \<Rightarrow> stored_event" where
  "stored_in now env db =
     \<lparr>se_sequence = next_sequence partition_of se_sequence (ev_partition_key env) (db_events db),
      se_envelope = stored_form env, se_stored_at = now\<rparr>"

definition appended :: "int \<Rightarrow> event_envelope \<Rightarrow> event_db \<Rightarrow> event_db" where
  "appended now env db =
     \<lparr>db_events = db_events db @ [stored_in now env db],
      db_projections = upsert_row pj_partition_key
        (next_projection env (se_sequence (stored_in now env db)) now (get_projection (ev_partition_key env) db)) (db_projections db)\<rparr>"

lemma append_envelope_effect:
  "append_envelope now env db =
     (if accepts db env
      then (Inr \<lparr>se_sequence = se_sequence (stored_in now env db), se_envelope = env, se_stored_at = now\<rparr>, appended now env db)
      else (Inl (if json_payload (ev_data env) = None then NotSerializable else IntegrityError ''event_id''), db))"
proof -
  have "\<not> (\<exists>e\<in>set (db_events db). partition_of e = p \<and>
     se_sequence e = next_sequence partition_of se_sequence p (db_events db))" for p
    using next_sequence_above [of _ "db_events db" partition_of p se_sequence] by fastforce
  then show ?thesis
    by (auto simp: append_envelope_def accepts_def appended_def stored_in_def stored_form_def Let_def
          upsert_projection_row get_projection_def split: option.splits)
qed

interpretation store_log: sequenced_log db_events partition_of se_sequence
  "\<lambda>part db. in_order partition_of se_sequence part (db_events db)"
  "\<lambda>part (now, env). append_envelope now (env\<lparr>ev_partition_key := part\<rparr>)"
  by unfold_locales (auto simp: wp_def append_envelope_effect appended_def stored_in_def split: if_splits prod.splits)

lemma get_projection_appended:
  "get_projection part (appended now env db) =
     (if part = ev_partition_key env
      then Some (next_projection env (se_sequence (stored_in now env db)) now (get_projection part db))
      else get_projection part db)"
  by (simp add: get_projection_def appended_def table_simps next_projection_def)

subsection \<open>Histories\<close>

datatype event_op = AppendOp int event_envelope | PurgeOp int int

text \<open>The store after one operation, and after several, with the envelopes appended so far.\<close>

fun do_event :: "event_op \<Rightarrow> event_envelope list \<times> event_db \<Rightarrow> event_envelope list \<times> event_db" where
  "do_event (AppendOp now env) (h, db) =
     (case append_envelope now env db of (Inl _, db') \<Rightarrow> (h, db') | (Inr _, db') \<Rightarrow> (h @ [env], db'))"
| "do_event (PurgeOp days now) (h, db) = (h, snd (purge_expired days now db))"

definition run_events :: "event_op list \<Rightarrow> event_envelope list \<times> event_db \<Rightarrow> event_envelope list \<times> event_db" where
  "run_events ops s = foldl (\<lambda>s p. do_event p s) s ops"

lemma run_events_simps [simp]:
  "run_events [] s = s" "run_events (op # ops) s = run_events ops (do_event op s)"
  "run_events (ops @ [op]) s = do_event op (run_events ops s)"
  by (simp_all add: run_events_def)

definition empty_event_db :: event_db where
  "empty_event_db = \<lparr>db_events = [], db_projections = []\<rparr>"

definition own :: "string \<Rightarrow> event_envelope list \<Rightarrow> event_envelope list" where
  "own part h = filter (\<lambda>env. ev_partition_key env = part) h"

lemma own_simps [simp]:
  "own part [] = []" "own part (h @ [env]) = own part h @ (if ev_partition_key env = part then [env] else [])"
  by (simp_all add: own_def)

text \<open>The status that the last event with one implies.\<close>

fun implied_status :: "string list \<Rightarrow> string" where
  "implied_status types =
     (case List.find (\<lambda>s. s \<noteq> None) (rev (map (map_of STATUS_BY_EVENT) types)) of Some (Some s) \<Rightarrow> s | _ \<Rightarrow> [])"

declare implied_status.simps [simp del]

lemma implied_status_snoc: "implied_status (types @ [ty]) = status_after ty (implied_status types)"
  by (simp add: implied_status.simps status_after_def split: option.splits)

lemma implied_status_Nil [simp]: "implied_status [] = []" "implied_status [ty] = status_after ty []"
  using implied_status_snoc [of "[]" ty] by (simp_all add: implied_status.simps)

definition count_of :: "(string \<times> nat) list \<Rightarrow> string \<Rightarrow> nat" where
  "count_of counts ty = (case map_of counts ty of None \<Rightarrow> 0 | Some n \<Rightarrow> n)"

lemma count_of_event [simp]: "count_of (count_event ty counts) t = (if t = ty then 1 else 0) + count_of counts t"
  by (simp add: count_of_def count_event_def update_conv split: option.splits)

lemma count_of_Nil [simp]: "count_of [] t = 0"
  by (simp add: count_of_def)

definition summarizes :: "event_projection \<Rightarrow> event_envelope list \<Rightarrow> bool" where
  "summarizes j h \<longleftrightarrow> h \<noteq> [] \<and> pj_partition_key j = ev_partition_key (last h) \<and> pj_tenant_id j = ev_tenant_id (last h) \<and>
     pj_status j = implied_status (map ev_type h) \<and> pj_last_event_type j = ev_type (last h) \<and>
     pj_last_event_at j = ev_occurred_at (last h) \<and> (\<forall>ty. count_of (pj_counts j) ty = count_list (map ev_type h) ty)"

definition projected :: "event_envelope list \<Rightarrow> event_db \<Rightarrow> bool" where
  "projected h db \<longleftrightarrow> (\<forall>part. case get_projection part db of
      None \<Rightarrow> own part h = []
    | Some j \<Rightarrow> summarizes j (own part h))"

lemma count_list_snoc [simp]: "count_list (xs @ [x]) y = count_list xs y + (if y = x then 1 else 0)"
  by (induction xs) auto

lemma next_projection_summarizes:
  assumes "case row of None \<Rightarrow> h = [] | Some j \<Rightarrow> summarizes j h"
  shows "summarizes (next_projection env seq now row) (h @ [env])"
  using assms by (cases row) (auto simp: summarizes_def next_projection_def implied_status_snoc)

lemma projected_appended: "projected h db \<Longrightarrow> projected (h @ [env]) (appended now env db)"
  unfolding projected_def
proof (intro allI, goal_cases)
  case (1 part)
  then have "case get_projection part db of None \<Rightarrow> own part h = [] | Some j \<Rightarrow> summarizes j (own part h)" by blast
  then show ?case using next_projection_summarizes [of "own part h" "get_projection part db"]
    by (cases "part = ev_partition_key env") (simp_all add: get_projection_appended split: option.splits)
qed

lemma projected_purge: "projected h db \<Longrightarrow> projected h (snd (purge_expired days now db))"
  by (simp add: projected_def purge_expired_def get_projection_def Let_def)

lemma projected_run: "projected h db \<Longrightarrow> run_events ops (h, db) = (h', db') \<Longrightarrow> projected h' db'"
proof (induction ops arbitrary: h db)
  case (Cons op ops)
  obtain h1 db1 where s1: "do_event op (h, db) = (h1, db1)" by fastforce
  then have "projected h1 db1" using Cons.prems(1)
    by (cases op) (auto simp: append_envelope_effect projected_appended projected_purge split: if_splits)
  then show ?case using Cons s1 by simp
qed simp

lemma projected_empty [simp]: "projected [] empty_event_db"
  by (simp add: projected_def get_projection_def empty_event_db_def)

text \<open>
  C8. The projection of a partition is a summary of its whole history. After any sequence of appends
  and purges of an empty store, a partition has a projection exactly when something was appended to it, and
  the projection has the tenant, the type and the instant of the last event, the status implied by
  the last event that implies one, and for every type the number of events ever appended, purged or not.
\<close>

theorem projection_summarizes_history:
  "case run_events ops ([], empty_event_db) of (h, db) \<Rightarrow>
     (case get_projection part db of None \<Rightarrow> own part h = [] | Some j \<Rightarrow> summarizes j (own part h))"
proof (cases "run_events ops ([], empty_event_db)")
  case (Pair h db)
  then show ?thesis using projected_run [OF projected_empty Pair] by (simp add: projected_def)
qed

subsection \<open>The log\<close>

text \<open>While nothing is purged, the listing of a partition is its history, numbered from 1.\<close>

definition append_only :: "event_op list \<Rightarrow> bool" where
  "append_only ops = (\<forall>op\<in>set ops. case op of AppendOp _ _ \<Rightarrow> True | PurgeOp _ _ \<Rightarrow> False)"

definition logged :: "event_envelope list \<Rightarrow> event_db \<Rightarrow> bool" where
  "logged h db \<longleftrightarrow> contiguous partition_of se_sequence (db_events db) \<and> map se_envelope (db_events db) = map stored_form h"

lemma logged_appended: "logged h db \<Longrightarrow> logged (h @ [env]) (appended now env db)"
  using contiguous_snoc [of partition_of se_sequence "db_events db" "stored_in now env db" "ev_partition_key env"]
  by (simp add: logged_def appended_def stored_in_def)

lemma logged_run: "append_only ops \<Longrightarrow> logged h db \<Longrightarrow> run_events ops (h, db) = (h', db') \<Longrightarrow> logged h' db'"
proof (induction ops arbitrary: h db)
  case (Cons op ops)
  obtain now env where op: "op = AppendOp now env" using Cons.prems(1) by (cases op) (auto simp: append_only_def)
  obtain h1 db1 where s1: "do_event op (h, db) = (h1, db1)" by fastforce
  then have "logged h1 db1" using Cons.prems(2)
    by (auto simp: op append_envelope_effect logged_appended split: if_splits)
  then show ?case using Cons s1 by (simp add: append_only_def)
qed simp

lemma logged_empty [simp]: "logged [] empty_event_db"
  by (simp add: logged_def contiguous_def empty_event_db_def)

lemma filter_numbered:
  assumes "map f xs = [1..<Suc (length xs)]"
  shows "filter (\<lambda>x. k < f x) xs = drop k xs"
proof -
  have "filter (\<lambda>x. k < f x) xs = map (\<lambda>i. xs ! i) (filter (\<lambda>i. k < f (xs ! i)) [0..<length xs])"
    by (subst map_nth [symmetric]) (simp only: filter_map comp_def)
  also have "\<dots> = map (\<lambda>i. xs ! i) (filter (\<lambda>i. k \<le> i) [0..<length xs])"
  proof -
    have "f (xs ! i) = Suc i" if "i < length xs" for i
      using arg_cong [OF assms, of "\<lambda>l. l ! i"] that by (simp del: upt_Suc)
    then show ?thesis by (intro arg_cong [where f = "map _"] filter_cong) auto
  qed
  also have "filter (\<lambda>i. k \<le> i) [0..<n] = [k..<n]" for n
    by (induction n) auto
  finally show ?thesis using arg_cong [OF map_nth [of xs], of "drop k"] by (simp add: drop_map)
qed

lemma list_events_from_start: "list_stored_events part None t db = list_stored_events part (Some 0) t db"
  by (simp add: list_stored_events_def)

lemma event_log_listing:
  assumes "append_only ops" and "run_events ops ([], empty_event_db) = (h, db)"
  shows "map se_envelope (list_stored_events part (Some k) None db) = drop k (map stored_form (own part h)) \<and>
    map se_sequence (list_stored_events part (Some k) None db) = [Suc k..<Suc (length (own part h))]"
proof -
  let ?xs = "in_order partition_of se_sequence part (db_events db)"
  have l: "logged h db" by (rule logged_run [OF assms(1) logged_empty assms(2)])
  then have xs: "?xs = filter (\<lambda>e. partition_of e = part) (db_events db)"
    by (simp add: logged_def in_order_contiguous)
  have seqs: "map se_sequence ?xs = [1..<Suc (length ?xs)]"
    using l by (simp only: logged_def store_log.listing_positions)
  have "map se_envelope ?xs = filter (\<lambda>env. ev_partition_key env = part) (map se_envelope (db_events db))"
    by (simp add: xs filter_map comp_def)
  also have "\<dots> = map stored_form (own part h)" using l by (simp add: logged_def own_def filter_map comp_def)
  finally have envs: "map se_envelope ?xs = map stored_form (own part h)" .
  then have len: "length ?xs = length (own part h)" by (metis length_map)
  have "list_stored_events part (Some k) None db = drop k ?xs"
    using filter_numbered [OF seqs, of k] by (simp add: list_stored_events_def)
  then show ?thesis using envs seqs len by (simp flip: drop_map del: upt_Suc)
qed

text \<open>
  C18. The log is complete and resumable. While nothing is purged, reading a partition after a
  sequence number returns exactly the envelopes appended to it after that many, in the order of the appends, as they
  read back from their JSON columns, with the sequence numbers that follow the given one.
\<close>

theorem event_log_resumes:
  assumes "append_only ops" and "run_events ops ([], empty_event_db) = (h, db)"
  shows "map se_envelope (list_stored_events part (Some k) None db) = drop k (map stored_form (own part h)) \<and>
    map se_sequence (list_stored_events part (Some k) None db) = [Suc k..<Suc (length (own part h))]"
  using assms by (rule event_log_listing)

subsection \<open>Samples\<close>

definition sample_event :: "string \<Rightarrow> string \<Rightarrow> payload \<Rightarrow> event_envelope" where
  "sample_event event_id ty data =
     \<lparr>ev_schema_version = SCHEMA_VERSION_EVENTS, ev_event_id = event_id, ev_type = ty, ev_occurred_at = 0,
      ev_tenant_id = ''t'', ev_partition_key = ''r'', ev_trace_id = [], ev_subject = [], ev_data = data\<rparr>"

definition sample_history :: "event_envelope list" where
  "sample_history = [sample_event ''e1'' ''flow.run.started'' [(''flowId'', PStr ''f''), (''flowVersion'', PStr ''1'')],
     sample_event ''e2'' ''flow.run.completed'' [(''status'', PStr ''completed''), (''costUsd'', PFloat 0), (''tokens'', PInt 7)]]"

definition sample_event_ops :: "event_op list" where
  "sample_event_ops = map (AppendOp 0) sample_history"

definition sample_event_db :: event_db where
  "sample_event_db = snd (run_events sample_event_ops ([], empty_event_db))"

lemma sample_event_run: "run_events sample_event_ops ([], empty_event_db) = (sample_history, sample_event_db)"
proof -
  have "fst (run_events sample_event_ops ([], empty_event_db)) = sample_history" by code_simp
  then show ?thesis by (simp add: sample_event_db_def prod_eq_iff)
qed

lemma sample_event_ops_append_only [simp]: "append_only sample_event_ops"
  by code_simp

theorem event_log_resumes_witness:
  "append_only sample_event_ops \<and>
   map se_envelope (list_stored_events ''r'' (Some 1) None sample_event_db) = drop 1 (map stored_form (own ''r'' sample_history)) \<and>
   own ''r'' sample_history \<noteq> []"
proof -
  have "own ''r'' sample_history \<noteq> []" by code_simp
  then show ?thesis
    using event_log_resumes [OF sample_event_ops_append_only sample_event_run, of "''r''" 1] sample_event_ops_append_only by blast
qed

subsection \<open>Reconstruction\<close>

definition cataloged :: "event_envelope \<Rightarrow> bool" where
  "cataloged env = (case catalog_get (ev_type env) EVENT_CATALOG of
      None \<Rightarrow> False
    | Some d \<Rightarrow> conforms (ed_data_model d) (ev_data env))"

lemma lifecycle_models:
  "catalog_get ''flow.run.started'' DEFINITIONS = Some (EventDefinition ''flow.run.started'' ''Orchestration Engine'' ByRun FlowRunStartedData SCHEMA_VERSION_EVENTS)"
  "catalog_get ''run.step.completed'' DEFINITIONS = Some (EventDefinition ''run.step.completed'' ''Orchestration Engine'' ByRun RunStepCompletedData SCHEMA_VERSION_EVENTS)"
  "catalog_get ''run.step.failed'' DEFINITIONS = Some (EventDefinition ''run.step.failed'' ''Orchestration Engine'' ByRun RunStepFailedData SCHEMA_VERSION_EVENTS)"
  "catalog_get ''flow.run.completed'' DEFINITIONS = Some (EventDefinition ''flow.run.completed'' ''Orchestration Engine'' ByRun FlowRunCompletedData SCHEMA_VERSION_EVENTS)"
  by code_simp+

lemma has_type_scalar:
  "has_type TStr v \<longleftrightarrow> (\<exists>s. v = PStr s)" "has_type TInt v \<longleftrightarrow> (\<exists>i. v = PInt i)" "has_type TFloat v \<longleftrightarrow> (\<exists>q. v = PFloat q)"
  by (cases v; simp)+

lemma json_payload_get: "json_payload data = Some data' \<Longrightarrow> map_of data' k = Option.bind (map_of data k) json_val"
  by (induction data arbitrary: data') (auto split: option.splits)

lemma stored_data_get:
  "json_payload (ev_data env) \<noteq> None \<Longrightarrow> map_of (ev_data (stored_form env)) k = Option.bind (map_of (ev_data env) k) json_val"
  using json_payload_get by (auto simp: stored_form_def)

text \<open>A completed run reports the status \<open>completed\<close>, as all its producers do.\<close>

definition reports_completed :: "event_envelope \<Rightarrow> bool" where
  "reports_completed env \<longleftrightarrow> (ev_type env = ''flow.run.completed'' \<longrightarrow> map_of (ev_data env) ''status'' = Some (PStr ''completed''))"

lemma lifecycle_payloads:
  "conforms RunStepCompletedData data \<Longrightarrow> \<exists>i. map_of data ''attempt'' = Some (PInt i)"
  "conforms RunStepFailedData data \<Longrightarrow> \<exists>i. map_of data ''attempt'' = Some (PInt i)"
  "conforms FlowRunCompletedData data \<Longrightarrow> \<exists>q. map_of data ''costUsd'' = Some (PFloat q)"
  "conforms FlowRunCompletedData data \<Longrightarrow> \<exists>i. map_of data ''tokens'' = Some (PInt i)"
  by (auto simp: conforms_def is_required_def has_type_scalar RunStepCompletedData_def RunStepFailedData_def
        FlowRunCompletedData_def split: option.splits)

lemma reconstruct_event_returns:
  assumes "cataloged env" "reports_completed env" "json_payload (ev_data env) \<noteq> None" and e: "se_envelope e = stored_form env"
  shows "\<exists>v'. reconstruct_event pe fl e v = Inr v' \<and> rv_status v' = status_after (ev_type env) (rv_status v)"
proof -
  note get = stored_data_get [OF assms(3)]
  consider (step) "ev_type env = ''run.step.completed'' \<or> ev_type env = ''run.step.failed''" | (finished) "ev_type env = ''flow.run.completed''"
    | (other) "ev_type env \<notin> {''run.step.completed'', ''run.step.failed'', ''flow.run.completed''}" by blast
  then show ?thesis
  proof cases
    case step
    then have "\<exists>i. map_of (ev_data env) ''attempt'' = Some (PInt i)"
      using assms(1) lifecycle_payloads(1,2) by (auto simp: cataloged_def lifecycle_models)
    then show ?thesis using step get [of "''attempt''"]
      by (auto simp: reconstruct_event_def e finish_step_view_def Let_def data_get_def value_int_def bind_r_def split: option.splits)
  next
    case finished
    have "\<exists>q. map_of (ev_data env) ''costUsd'' = Some (PFloat q)" "\<exists>i. map_of (ev_data env) ''tokens'' = Some (PInt i)"
      using assms(1) finished lifecycle_payloads(3,4) by (auto simp: cataloged_def lifecycle_models)
    moreover have "map_of (ev_data env) ''status'' = Some (PStr ''completed'')"
      using assms(2) finished by (simp add: reports_completed_def)
    moreover have "status_after ''flow.run.completed'' s = ''completed''" for s by (simp add: status_after_def STATUS_BY_EVENT_def)
    ultimately show ?thesis using finished get [of "''costUsd''"] get [of "''tokens''"] get [of "''status''"]
      by (auto simp: reconstruct_event_def e Let_def data_get_def value_int_def value_float_def bind_r_def py_str_def)
  next
    case other
    then show ?thesis by (auto simp: reconstruct_event_def e Let_def)
  qed
qed

lemma reconstruct_events_return:
  assumes "\<forall>env\<in>set h. cataloged env \<and> reports_completed env \<and> json_payload (ev_data env) \<noteq> None"
    and "map se_envelope es = map stored_form h"
  shows "\<exists>v'. reconstruct_events pe fl es v = Inr v' \<and> rv_status v' = foldl (\<lambda>s ty. status_after ty s) (rv_status v) (map ev_type h)"
  using assms
proof (induction es arbitrary: h v)
  case (Cons e es)
  then obtain env h' where h: "h = env # h'" "se_envelope e = stored_form env" "map se_envelope es = map stored_form h'" by (cases h) auto
  obtain v1 where v1: "reconstruct_event pe fl e v = Inr v1" "rv_status v1 = status_after (ev_type env) (rv_status v)"
    using reconstruct_event_returns [of env e pe fl v] Cons.prems h by auto
  show ?case using Cons.IH [of h' v1] Cons.prems h v1 by (simp add: bind_r_def)
qed simp

lemma implied_status_fold: "foldl (\<lambda>s ty. status_after ty s) [] types = implied_status types"
  by (induction types rule: rev_induct) (simp_all add: implied_status_snoc)

lemma history_serializable:
  "run_events ops (h, db) = (h', db') \<Longrightarrow> env \<in> set h' \<Longrightarrow> env \<in> set h \<or> json_payload (ev_data env) \<noteq> None"
proof (induction ops arbitrary: h db)
  case (Cons op ops)
  obtain h1 db1 where s1: "do_event op (h, db) = (h1, db1)" by fastforce
  then have "set h1 \<subseteq> set h \<union> {env. json_payload (ev_data env) \<noteq> None}"
    by (cases op) (auto simp: append_envelope_effect accepts_def split: if_splits)
  then show ?case using Cons.IH [of h1 db1] Cons.prems s1 by auto
qed simp

text \<open>
  C17. The reconstruction of a run agrees with its projection. When the appended events have
  payloads of their cataloged types and completed runs report completion, rebuilding a run from an unpurged log
  succeeds, counts every event of the partition, and arrives at the status of the projection.
\<close>

theorem reconstruction_agrees_with_projection:
  assumes "append_only ops" and "run_events ops ([], empty_event_db) = (h, db)"
    and "\<forall>env\<in>set h. cataloged env \<and> reports_completed env" and "get_projection part db = Some j"
  shows "\<exists>v. reconstruct_run pe fl part db = Inr (v, length (own part h)) \<and> rv_status v = pj_status j"
proof -
  let ?es = "list_stored_events part None None db"
  have es: "map se_envelope ?es = map stored_form (own part h)"
    using event_log_listing [OF assms(1,2), of part 0] by (simp add: list_events_from_start)
  then have len: "length ?es = length (own part h)" by (metis length_map)
  have "\<forall>env\<in>set (own part h). cataloged env \<and> reports_completed env \<and> json_payload (ev_data env) \<noteq> None"
    using assms(3) history_serializable [OF assms(2)] by (auto simp: own_def)
  then obtain v where v: "reconstruct_events pe fl ?es empty_view = Inr v" "rv_status v = implied_status (map ev_type (own part h))"
    using reconstruct_events_return [OF _ es, of pe fl empty_view] by (auto simp: empty_view_def implied_status_fold)
  have "pj_status j = implied_status (map ev_type (own part h))"
    using projected_run [OF projected_empty assms(2)] assms(4) by (auto simp: projected_def summarizes_def dest: spec [of _ part])
  then show ?thesis using v len by (simp add: reconstruct_run_def bind_r_def)
qed

theorem reconstruction_agrees_with_projection_witness:
  "\<exists>j v. get_projection ''r'' sample_event_db = Some j \<and> pj_status j = ''completed'' \<and>
     reconstruct_run \<lparr>float_repr = (\<lambda>_. []), obj_repr = (\<lambda>_. []), isoformat = (\<lambda>_. []), fromisoformat = (\<lambda>_. None)\<rparr>
       (\<lambda>_. None) ''r'' sample_event_db = Inr (v, 2) \<and> rv_status v = pj_status j"
proof -
  have c: "\<forall>env\<in>set sample_history. cataloged env \<and> reports_completed env"
    by (simp add: sample_history_def sample_event_def cataloged_def reports_completed_def lifecycle_models conforms_def
          FlowRunStartedData_def FlowRunCompletedData_def)
  have "map_option pj_status (get_projection ''r'' sample_event_db) = Some ''completed''" by code_simp
  then obtain j where j: "get_projection ''r'' sample_event_db = Some j" "pj_status j = ''completed''" by auto
  have "length (own ''r'' sample_history) = 2" by code_simp
  with reconstruction_agrees_with_projection [OF sample_event_ops_append_only sample_event_run c j(1)] j
  show ?thesis by metis
qed

subsection \<open>Retention\<close>

lemma purge_expired_effect:
  "0 \<le> days \<Longrightarrow> MIN_INSTANT \<le> now - days * MICROS_PER_DAY \<Longrightarrow>
   snd (purge_expired days now db) =
     db\<lparr>db_events := filter (\<lambda>e. \<not> expired_event (now - days * MICROS_PER_DAY) db e) (db_events db)\<rparr>"
  by (simp add: purge_expired_def Let_def)

text \<open>
  Sequence numbers restart after a purge. When every event of a finished partition has expired
  and is purged, the next event appended to the partition gets the number 1 again and the projection goes back to it,
  and a reader who resumes after any number it has seen never sees that event.
\<close>

theorem purge_restarts_sequence:
  assumes "0 \<le> days" and "MIN_INSTANT \<le> now - days * MICROS_PER_DAY"
    and "get_projection (ev_partition_key env) db = Some j" and "pj_status j \<in> set TERMINAL_STATUSES"
    and "\<forall>e\<in>set (db_events db). partition_of e = ev_partition_key env \<longrightarrow> se_stored_at e < now - days * MICROS_PER_DAY"
    and "accepts (snd (purge_expired days now db)) env"
  shows "case append_envelope now' env (snd (purge_expired days now db)) of
      (Inl e, _) \<Rightarrow> False
    | (Inr e, db') \<Rightarrow> se_sequence e = 1 \<and> map_option pj_last_sequence (get_projection (ev_partition_key env) db') = Some 1 \<and>
        (\<forall>k\<ge>1. list_stored_events (ev_partition_key env) (Some k) tenant db' = [])"
proof -
  let ?db1 = "snd (purge_expired days now db)" and ?part = "ev_partition_key env"
  have "j \<in> set (db_projections db)" "pj_partition_key j = ?part"
    using assms(3) select_one_SomeD unfolding get_projection_def by metis+
  then have none: "filter (\<lambda>e. partition_of e = ?part) (db_events ?db1) = []"
    using assms(4,5) by (auto simp: purge_expired_effect [OF assms(1,2)] filter_empty_conv expired_event_def)
  then have seq: "se_sequence (stored_in now' env ?db1) = 1" by (simp add: stored_in_def next_sequence_def)
  have "filter (\<lambda>e. partition_of e = ?part) (db_events (appended now' env ?db1)) = [stored_in now' env ?db1]"
    using none by (simp add: appended_def) (simp add: stored_in_def)
  then have "list_stored_events ?part (Some k) tenant (appended now' env ?db1) = []" if "1 \<le> k" for k
    using that seq by (simp add: list_stored_events_def in_order_def)
  then show ?thesis
    using assms(6) seq by (simp add: append_envelope_effect get_projection_appended next_projection_def)
qed

theorem purge_restarts_sequence_witness:
  "case append_envelope 200000000000 (sample_event ''e3'' ''run.human.resolved'' []) (snd (purge_expired 1 100000000000 sample_event_db)) of
      (Inl e, _) \<Rightarrow> False
    | (Inr e, db') \<Rightarrow> se_sequence e = 1 \<and> map_option pj_last_sequence (get_projection ''r'' db') = Some 1 \<and>
        (\<forall>k\<ge>1. list_stored_events ''r'' (Some k) None db' = [])"
proof -
  let ?env = "sample_event ''e3'' ''run.human.resolved'' []"
  have part: "ev_partition_key ?env = ''r''" by (simp add: sample_event_def)
  have "map_option pj_status (get_projection ''r'' sample_event_db) = Some ''completed''" by code_simp
  then obtain j where j: "get_projection (ev_partition_key ?env) sample_event_db = Some j" "pj_status j \<in> set TERMINAL_STATUSES"
    by (auto simp: part TERMINAL_STATUSES_def)
  have old: "list_all (\<lambda>e. partition_of e = ev_partition_key ?env \<longrightarrow> se_stored_at e < 100000000000 - 1 * MICROS_PER_DAY) (db_events sample_event_db)"
    by code_simp
  have acc: "accepts (snd (purge_expired 1 100000000000 sample_event_db)) ?env" by code_simp
  show ?thesis
    using purge_restarts_sequence [OF _ _ j old [unfolded list_all_iff] acc, of None 200000000000, unfolded part]
    by (simp add: MIN_INSTANT_def MICROS_PER_DAY_def)
qed

end
