(* ===== verification/Secret_Redaction.thy ===== *)
theory Secret_Redaction
  imports Py_Value "HOL-Library.Sublist"
begin

text \<open>
  Redaction of live secret values (\<^verbatim>\<open>backend/secret_store/redaction.py\<close>). The process-wide registry is a
  set; the order in which \<open>tuple\<close> enumerates it is arbitrary, so the operations take the
  values as a list in any order.
\<close>

definition REDACTED_MARKER :: string where "REDACTED_MARKER = ''***REDACTED_SECRET***''"

definition register_live_secret_value :: "string \<Rightarrow> string list \<Rightarrow> string list" where
  "register_live_secret_value v values = (if v = [] then values else List.insert v values)"

text \<open>\<open>str.replace\<close>: left to right, without overlaps; the empty text is found between all characters.\<close>

function replace_from :: "string \<Rightarrow> string \<Rightarrow> string \<Rightarrow> string" where
  "replace_from old new [] = []"
| "replace_from old new (c # s) =
     (if prefix old (c # s) then new @ replace_from old new (drop (length old - 1) s) else c # replace_from old new s)"
  by pat_completeness auto
termination by (relation "measure (\<lambda>(old, new, s). length s)") auto

definition str_replace :: "string \<Rightarrow> string \<Rightarrow> string \<Rightarrow> string" where
  "str_replace old new s = (if old = [] then new @ concat (map (\<lambda>c. c # new) s) else replace_from old new s)"

fun scrub :: "string \<Rightarrow> string list \<Rightarrow> string" where
  "scrub text [] = text"
| "scrub text (v # vs) = scrub (if sublist v text then str_replace v REDACTED_MARKER text else text) vs"

fun redact_structure :: "string list \<Rightarrow> pyval \<Rightarrow> pyval"
  and redact_list :: "string list \<Rightarrow> pyval list \<Rightarrow> pyval list"
  and redact_items :: "string list \<Rightarrow> pydict \<Rightarrow> pydict" where
  "redact_structure values (PStr s) = PStr (scrub s values)"
| "redact_structure values (PDict d) = PDict (redact_items values d)"
| "redact_structure values (PList vs) = PList (redact_list values vs)"
| "redact_structure values v = v"
| "redact_list values [] = []"
| "redact_list values (v # vs) = redact_structure values v # redact_list values vs"
| "redact_items values [] = []"
| "redact_items values ((k, v) # d) = (k, redact_structure values v) # redact_items values d"

definition redact_event_data :: "string list \<Rightarrow> (string \<times> pyval) list \<Rightarrow> (string \<times> pyval) list" where
  "redact_event_data values data = (if values = [] then data else map (\<lambda>(k, v). (k, redact_structure values v)) data)"

text \<open>The redactor of one environment: its values with the references they were resolved from.\<close>

type_synonym 'r redactor = "(string \<times> 'r) list"

definition redactor_scrub :: "'r redactor \<Rightarrow> string \<Rightarrow> string" where
  "redactor_scrub live text = scrub text (map fst live)"

definition find_leaks :: "'r redactor \<Rightarrow> string \<Rightarrow> string \<Rightarrow> ('r \<times> string) list" where
  "find_leaks live text location = map (\<lambda>(v, r). (r, location)) (filter (\<lambda>(v, r). v \<noteq> [] \<and> sublist v text) live)"

subsection \<open>What a replacement leaves\<close>

text \<open>A value that the replacement neither contains nor can be part of an occurrence of.\<close>

definition fenced :: "string \<Rightarrow> string \<Rightarrow> bool" where
  "fenced new v \<longleftrightarrow> v \<noteq> [] \<and> new \<noteq> [] \<and> hd new \<notin> set v \<and> last new \<notin> set v \<and> \<not> sublist v new"

text \<open>With the marker: a value that has no asterisk and is not a part of the marker's own text.\<close>

definition removable :: "string \<Rightarrow> bool" where
  "removable v \<longleftrightarrow> v \<noteq> [] \<and> CHR ''*'' \<notin> set v \<and> \<not> sublist v REDACTED_MARKER"

lemma removable_fenced: "removable v = fenced REDACTED_MARKER v"
  by (simp add: removable_def fenced_def REDACTED_MARKER_def)

lemma fenced_append:
  assumes "fenced new v" and "sublist v (new @ r)"
  shows "sublist v r"
proof -
  have parts: "sublist v new \<or> sublist v r \<or> (\<exists>a b. v = a @ b \<and> suffix a new \<and> prefix b r)"
    using assms(2) by (simp add: sublist_append)
  have empty: "a = []" if "v = a @ b" "suffix a new" for a b
  proof (rule ccontr)
    assume "a \<noteq> []"
    then have "last new \<in> set a" using that(2) by (auto simp: suffix_def)
    then show False using assms(1) that(1) by (simp add: fenced_def)
  qed
  have "\<not> sublist v new" using assms(1) by (simp add: fenced_def)
  with parts consider "sublist v r" | a b where "v = a @ b" "suffix a new" "prefix b r" by blast
  then show ?thesis
  proof cases
    case 2
    then show ?thesis using empty [OF 2(1,2)] prefix_imp_sublist by simp
  qed simp
qed

lemma replace_prefix:
  "new \<noteq> [] \<Longrightarrow> hd new \<notin> set p \<Longrightarrow> prefix p (replace_from old new s) \<Longrightarrow> prefix p s"
proof (induction old new s arbitrary: p rule: replace_from.induct)
  case (2 old new c s)
  show ?case
  proof (cases "prefix old (c # s)")
    case True
    then have "prefix p (new @ replace_from old new (drop (length old - 1) s))" using "2.prems"(3) by simp
    then have "p = []" using "2.prems"(1,2) by (cases p; cases new) auto
    then show ?thesis by simp
  next
    case False
    then show ?thesis using 2 by (cases p) auto
  qed
qed simp

lemma sublist_drop_Cons: "sublist v (drop n s) \<Longrightarrow> sublist v (c # s)"
  by (meson sublist_Cons_right sublist_drop sublist_order.order_trans)

text \<open>A replacement, of whatever value, creates no occurrence of a fenced value.\<close>

lemma replace_creates_nothing:
  "fenced new v \<Longrightarrow> sublist v (replace_from old new s) \<Longrightarrow> sublist v s"
proof (induction old new s rule: replace_from.induct)
  case (2 old new c s)
  show ?case
  proof (cases "prefix old (c # s)")
    case True
    then have "sublist v (replace_from old new (drop (length old - 1) s))" using "2.prems" fenced_append by simp
    then have "sublist v (drop (length old - 1) s)" by (rule "2.IH"(1) [OF True "2.prems"(1)])
    then show ?thesis by (rule sublist_drop_Cons)
  next
    case False
    then have "prefix v (c # replace_from old new s) \<or> sublist v (replace_from old new s)"
      using "2.prems"(2) by (simp add: sublist_Cons_right)
    then show ?thesis
    proof
      assume "prefix v (c # replace_from old new s)"
      then have "prefix v (c # s)" using "2.prems"(1) replace_prefix [of new "tl v" old s] by (cases v) (auto simp: fenced_def)
      then show ?thesis by (rule prefix_imp_sublist)
    next
      assume "sublist v (replace_from old new s)"
      then have "sublist v s" by (rule "2.IH"(2) [OF False "2.prems"(1)])
      then show ?thesis by (simp add: sublist_Cons_right)
    qed
  qed
qed simp

lemma spread_creates_nothing: "fenced new v \<Longrightarrow> sublist v (concat (map (\<lambda>c. c # new) s)) \<Longrightarrow> sublist v s"
proof (induction s)
  case (Cons c s)
  have "prefix v (c # new @ concat (map (\<lambda>c. c # new) s)) \<Longrightarrow> prefix v [c]"
    using Cons.prems(1) by (cases v; cases "tl v"; cases new) (auto simp: fenced_def)
  then have "prefix v (c # new @ concat (map (\<lambda>c. c # new) s)) \<Longrightarrow> prefix v (c # s)" by (metis prefix_order.order_trans append_Cons append_Nil prefixI)
  then show ?case using Cons fenced_append [OF Cons.prems(1), of "concat (map (\<lambda>c. c # new) s)"]
    by (auto simp: sublist_Cons_right)
qed simp

lemma str_replace_creates_nothing: "fenced new v \<Longrightarrow> sublist v (str_replace old new s) \<Longrightarrow> sublist v s"
  using replace_creates_nothing [of new v old s] spread_creates_nothing [of new v s] fenced_append [of new v "concat (map (\<lambda>c. c # new) s)"]
  by (auto simp: str_replace_def split: if_splits)

text \<open>A replacement leaves no occurrence of the value it replaces.\<close>

lemma replace_removes: "fenced new old \<Longrightarrow> \<not> sublist old (replace_from old new s)"
proof (induction old new s rule: replace_from.induct)
  case (2 old new c s)
  show ?case
  proof (cases "prefix old (c # s)")
    case True
    then show ?thesis using "2.IH"(1) [OF True "2.prems"] fenced_append [OF "2.prems"] by auto
  next
    case False
    have "\<not> prefix old (c # replace_from old new s)"
    proof
      assume "prefix old (c # replace_from old new s)"
      then have "prefix old (c # s)" using "2.prems" replace_prefix [of new "tl old" old s] by (cases old) (auto simp: fenced_def)
      with False show False by simp
    qed
    then show ?thesis using "2.IH"(2) [OF False "2.prems"] False by (simp add: sublist_Cons_right)
  qed
qed (auto simp: fenced_def)

lemma scrub_creates_nothing: "removable v \<Longrightarrow> sublist v (scrub body vs) \<Longrightarrow> sublist v body"
proof (induction vs arbitrary: body)
  case (Cons x vs)
  let ?t = "if sublist x body then str_replace x REDACTED_MARKER body else body"
  have "sublist v ?t" using Cons.IH [OF Cons.prems(1), of ?t] Cons.prems(2) by simp
  then show ?case
    using str_replace_creates_nothing [OF Cons.prems(1) [unfolded removable_fenced], of x body] by (cases "sublist x body") simp_all
qed simp

text \<open>The other values may be whatever they are, and be replaced before or after.\<close>

lemma scrub_removes: "removable v \<Longrightarrow> v \<in> set vs \<Longrightarrow> \<not> sublist v (scrub body vs)"
proof (induction vs arbitrary: body)
  case (Cons x vs)
  let ?t = "if sublist x body then str_replace x REDACTED_MARKER body else body"
  show ?case
  proof (cases "v \<in> set vs")
    case True
    then show ?thesis using Cons.IH [OF Cons.prems(1), of ?t] by simp
  next
    case False
    then have "v = x" using Cons.prems(2) by simp
    have "v \<noteq> []" using Cons.prems(1) by (simp add: removable_def)
    then have "\<not> sublist v ?t"
      using replace_removes [OF Cons.prems(1) [unfolded removable_fenced], of body] unfolding \<open>v = x\<close> by (simp add: str_replace_def)
    then show ?thesis using scrub_creates_nothing [OF Cons.prems(1), of ?t vs] by auto
  qed
qed simp

lemma scrubbed_without_leaks:
  "\<forall>(v, r)\<in>set live. removable v \<Longrightarrow> find_leaks live (redactor_scrub live body) location = []"
proof -
  assume live: "\<forall>(v, r)\<in>set live. removable v"
  have "\<not> sublist v (scrub body (map fst live))" if "(v, r) \<in> set live" for v r
  proof (rule scrub_removes)
    show "removable v" using live that by blast
    show "v \<in> set (map fst live)" using that by force
  qed
  then show ?thesis by (auto simp: find_leaks_def redactor_scrub_def filter_empty_conv)
qed

subsection \<open>Payloads\<close>

text \<open>The texts that redaction reaches: items of lists and values of dictionaries.\<close>

fun texts_of :: "pyval \<Rightarrow> string list"
  and texts_of_list :: "pyval list \<Rightarrow> string list"
  and texts_of_items :: "pydict \<Rightarrow> string list" where
  "texts_of (PStr s) = [s]"
| "texts_of (PList vs) = texts_of_list vs"
| "texts_of (PDict d) = texts_of_items d"
| "texts_of v = []"
| "texts_of_list [] = []"
| "texts_of_list (v # vs) = texts_of v @ texts_of_list vs"
| "texts_of_items [] = []"
| "texts_of_items ((k, v) # d) = texts_of v @ texts_of_items d"

lemma texts_redacted:
  "texts_of (redact_structure values v) = map (\<lambda>s. scrub s values) (texts_of v)"
  "texts_of_list (redact_list values vs) = map (\<lambda>s. scrub s values) (texts_of_list vs)"
  "texts_of_items (redact_items values d) = map (\<lambda>s. scrub s values) (texts_of_items d)"
  by (induction v and vs and d rule: texts_of_texts_of_list_texts_of_items.induct) auto

definition payload_texts :: "(string \<times> pyval) list \<Rightarrow> string list" where
  "payload_texts data = concat (map (\<lambda>(k, v). texts_of v) data)"

lemma payload_texts_redacted: "payload_texts (redact_event_data values data) = map (\<lambda>s. scrub s values) (payload_texts data)"
proof -
  have "payload_texts (map (\<lambda>(k, v). (k, redact_structure values v)) data) = map (\<lambda>s. scrub s values) (payload_texts data)"
    by (induction data) (auto simp: payload_texts_def texts_redacted)
  then show ?thesis by (cases "values = []") (simp_all add: redact_event_data_def)
qed

text \<open>All texts of a value, and those at which redaction does not look: keys of dictionaries and what is in tuples.\<close>

fun key_texts :: "pykey \<Rightarrow> string list" where
  "key_texts (KStr s) = [s]"
| "key_texts k = []"

fun all_texts :: "pyval \<Rightarrow> string list"
  and all_texts_list :: "pyval list \<Rightarrow> string list"
  and all_texts_items :: "pydict \<Rightarrow> string list" where
  "all_texts (PStr s) = [s]"
| "all_texts (PList vs) = all_texts_list vs"
| "all_texts (PTuple vs) = all_texts_list vs"
| "all_texts (PDict d) = all_texts_items d"
| "all_texts v = []"
| "all_texts_list [] = []"
| "all_texts_list (v # vs) = all_texts v @ all_texts_list vs"
| "all_texts_items [] = []"
| "all_texts_items ((k, v) # d) = key_texts k @ all_texts v @ all_texts_items d"

fun kept_texts :: "pyval \<Rightarrow> string list"
  and kept_texts_list :: "pyval list \<Rightarrow> string list"
  and kept_texts_items :: "pydict \<Rightarrow> string list" where
  "kept_texts (PList vs) = kept_texts_list vs"
| "kept_texts (PTuple vs) = all_texts_list vs"
| "kept_texts (PDict d) = kept_texts_items d"
| "kept_texts v = []"
| "kept_texts_list [] = []"
| "kept_texts_list (v # vs) = kept_texts v @ kept_texts_list vs"
| "kept_texts_items [] = []"
| "kept_texts_items ((k, v) # d) = key_texts k @ kept_texts v @ kept_texts_items d"

lemma all_texts_redacted:
  "set (all_texts (redact_structure values v)) = (\<lambda>s. scrub s values) ` set (texts_of v) \<union> set (kept_texts v)"
  "set (all_texts_list (redact_list values vs)) = (\<lambda>s. scrub s values) ` set (texts_of_list vs) \<union> set (kept_texts_list vs)"
  "set (all_texts_items (redact_items values d)) = (\<lambda>s. scrub s values) ` set (texts_of_items d) \<union> set (kept_texts_items d)"
  by (induction v and vs and d rule: texts_of_texts_of_list_texts_of_items.induct) (auto simp: image_Un)

text \<open>
  C37. Redaction. Let a live secret be non-empty, without an asterisk and not a part of the marker's own
  text. Whatever the other live secrets are and in whatever order all of them are replaced, every text
  of the redacted payload in which the secret still occurs is one that redaction passes through: a key
  of a dictionary or a text in a tuple of the original payload.
\<close>

theorem redaction_removes_secrets:
  assumes "removable v" and "v \<in> set values" and "s \<in> set (all_texts_items (map (\<lambda>(k, x). (KStr k, x)) (redact_event_data values data)))"
    and "sublist v s"
  shows "s \<in> set (kept_texts_items (map (\<lambda>(k, x). (KStr k, x)) data))"
proof -
  have "map (\<lambda>(k, x). (KStr k, x)) (redact_event_data values data) = redact_items values (map (\<lambda>(k, x). (KStr k, x)) data)"
    using assms(2) by (induction data) (auto simp: redact_event_data_def split: if_splits)
  then show ?thesis using assms(3,4) scrub_removes [OF assms(1,2)] all_texts_redacted(3) by fastforce
qed

theorem redaction_removes_secrets_witness:
  "scrub ''hunter2*SECRET'' [''*'', ''SECRET_7'', ''hunter2''] = REDACTED_MARKER @ REDACTED_MARKER @ ''SECRET'' \<and>
   \<not> sublist ''hunter2'' (REDACTED_MARKER @ REDACTED_MARKER @ ''SECRET'')"
proof -
  let ?vs = "[''*'', ''SECRET_7'', ''hunter2'']" and ?d = "[(''stdout'', PList [PStr ''hunter2*SECRET''])]"
  let ?out = "REDACTED_MARKER @ REDACTED_MARKER @ ''SECRET''"
  have r: "removable ''hunter2''" by code_simp
  have t: "all_texts_items (map (\<lambda>(k, x). (KStr k, x)) (redact_event_data ?vs ?d)) = [''stdout'', ?out]" by code_simp
  have k: "kept_texts_items (map (\<lambda>(k, x). (KStr k, x)) ?d) = [''stdout'']" by code_simp
  have "?out \<noteq> ''stdout''" by code_simp
  then have "\<not> sublist ''hunter2'' ?out"
    using redaction_removes_secrets [OF r, of ?vs ?out ?d] unfolding t k by auto
  moreover have "scrub ''hunter2*SECRET'' ?vs = ?out" by code_simp
  ultimately show ?thesis by blast
qed

text \<open>
  The order of the replacements matters. When one secret is a prefix of another and is replaced
  first, the rest of the longer one stays in the text in clear.
\<close>

theorem shorter_secret_exposes_longer:
  assumes "a \<noteq> []" and "removable (a @ b)" and "\<not> sublist a b"
  shows "scrub (a @ b) [a, a @ b] = REDACTED_MARKER @ b"
proof -
  have keep: "\<not> sublist a s \<Longrightarrow> replace_from a new s = s" for new s
    by (induction a new s rule: replace_from.induct) (auto simp: sublist_Cons_right)
  have "replace_from a REDACTED_MARKER (a @ b) = REDACTED_MARKER @ b"
    using assms(1) keep [OF assms(3)] by (cases a) auto
  moreover have "\<not> sublist (a @ b) (REDACTED_MARKER @ b)"
    using fenced_append [OF assms(2) [unfolded removable_fenced]] sublist_length_le [of "a @ b" b] assms(1) by auto
  ultimately show ?thesis using assms(1) by (simp add: str_replace_def)
qed

theorem shorter_secret_exposes_longer_witness:
  "scrub ''pw-1234567890'' [''pw-12345'', ''pw-1234567890''] = REDACTED_MARKER @ ''67890''"
proof -
  have "removable (''pw-12345'' @ ''67890'')" "\<not> sublist ''pw-12345'' ''67890''" by code_simp+
  then show ?thesis using shorter_secret_exposes_longer [of "''pw-12345''" "''67890''"] by simp
qed

end
