(* ===== verification/Event_Bus.thy ===== *)
theory Event_Bus
  imports Event_Laws Secret_Redaction
begin

text \<open>
  The in-memory event bus (\<^verbatim>\<open>backend/events/bus.py\<close>) and the emission of events
  (\<^verbatim>\<open>backend/events/runtime.py\<close>). A subscriber is a value of a type \<open>'s\<close>, compared as Python compares
  callables; what it does to the rest of the world \<open>'w\<close> is the parameter \<open>invoke\<close>, an action that may raise.
  Subscribers do not call back into the bus. Dictionaries with a default are functions.
\<close>

definition WILDCARD :: string where "WILDCARD = ''*''"

record 's memory_bus =
  mb_subscribers :: "string \<Rightarrow> 's list"
  mb_partitions :: "string \<Rightarrow> (nat \<times> event_envelope) list"
  mb_next_seq :: "string \<Rightarrow> nat"
  mb_max_partition_size :: "int option"

record ('s, 'w) bus_world =
  bw_bus :: "'s memory_bus"
  bw_rest :: 'w

type_synonym ('a, 's, 'w) bus_action = "(event_error, 'a, ('s, 'w) bus_world) action"

type_synonym ('s, 'w) subscriber = "'s \<Rightarrow> event_envelope \<Rightarrow> (event_error, unit, 'w) action"

definition new_bus :: "int option \<Rightarrow> 's memory_bus" where
  "new_bus cap = \<lparr>mb_subscribers = (\<lambda>_. []), mb_partitions = (\<lambda>_. []), mb_next_seq = (\<lambda>_. 0), mb_max_partition_size = cap\<rparr>"

subsection \<open>Subscriptions\<close>

definition subscribe :: "string \<Rightarrow> 's \<Rightarrow> 's memory_bus \<Rightarrow> 's memory_bus" where
  "subscribe ty s bus = bus\<lparr>mb_subscribers := (mb_subscribers bus)(ty := mb_subscribers bus ty @ [s])\<rparr>"

text \<open>The cancellation token removes the first equal subscription, and does nothing when there is none.\<close>

definition unsubscribe :: "string \<Rightarrow> 's \<Rightarrow> 's memory_bus \<Rightarrow> 's memory_bus" where
  "unsubscribe ty s bus = bus\<lparr>mb_subscribers := (mb_subscribers bus)(ty := remove1 s (mb_subscribers bus ty))\<rparr>"

definition on_rest :: "('e, 'a, 'w) action \<Rightarrow> ('e, 'a, ('s, 'w) bus_world) action" where
  "on_rest m w = (let (r, w') = m (bw_rest w) in (r, w\<lparr>bw_rest := w'\<rparr>))"

text \<open>Each subscriber is called in turn; what it raises is logged and dropped.\<close>

definition deliver :: "('s, 'w) subscriber \<Rightarrow> event_envelope \<Rightarrow> 's \<Rightarrow> (unit, 's, 'w) bus_action" where
  "deliver invoke env s = try_a (on_rest (invoke s env)) return_a (\<lambda>e. return_a ())"

definition dispatch_event :: "('s, 'w) subscriber \<Rightarrow> event_envelope \<Rightarrow> (unit, 's, 'w) bus_action" where
  "dispatch_event invoke env =
     bind_a (gets_a (\<lambda>w. mb_subscribers (bw_bus w) (ev_type env) @ mb_subscribers (bw_bus w) WILDCARD))
       (each_a (deliver invoke env))"

subsection \<open>Publishing and replay\<close>

definition trim_partition :: "int option \<Rightarrow> 'a list \<Rightarrow> 'a list" where
  "trim_partition cap xs =
     (case cap of
        None \<Rightarrow> xs
      | Some m \<Rightarrow> if m < int (length xs) then drop (nat (int (length xs) - m)) xs else xs)"

definition store_in_partition :: "event_envelope \<Rightarrow> 's memory_bus \<Rightarrow> 's memory_bus" where
  "store_in_partition env bus =
     (let key = ev_partition_key env; seq = mb_next_seq bus key
      in bus\<lparr>mb_next_seq := (mb_next_seq bus)(key := seq + 1),
             mb_partitions := (mb_partitions bus)(key :=
               trim_partition (mb_max_partition_size bus) (mb_partitions bus key @ [(seq, env)]))\<rparr>)"

definition publish :: "('s, 'w) subscriber \<Rightarrow> event_envelope \<Rightarrow> (string, 's, 'w) bus_action" where
  "publish invoke env =
     then_a (modify_a (\<lambda>w. w\<lparr>bw_bus := store_in_partition env (bw_bus w)\<rparr>))
     (then_a (dispatch_event invoke env) (return_a (ev_event_id env)))"

definition replay :: "string \<Rightarrow> 's memory_bus \<Rightarrow> event_envelope list" where
  "replay part bus = map snd (mb_partitions bus part)"

text \<open>A cursor is the text of a sequence number; a text that is no number raises.\<close>

definition replay_from :: "string \<Rightarrow> string option \<Rightarrow> 's memory_bus \<Rightarrow> (store_error, (string \<times> event_envelope) list) result" where
  "replay_from part cursor bus =
     bind_r (case cursor of
               None \<Rightarrow> Inr 0
             | Some c \<Rightarrow> (case parse_int c of None \<Rightarrow> Inl ConversionError | Some i \<Rightarrow> Inr (i + 1)))
       (\<lambda>start. Inr (map (\<lambda>(seq, env). (str_nat seq, env)) (filter (\<lambda>(seq, env). start \<le> int seq) (mb_partitions bus part))))"

subsection \<open>Emission\<close>

text \<open>
  \<open>emit_bus_event\<close> with the secrets live in the process, the validator of payloads, and the identifier and
  instant of the envelope; whatever fails inside is logged and dropped.
\<close>

definition emit_bus_event :: "('s, 'w) subscriber \<Rightarrow> validator \<Rightarrow> string list \<Rightarrow> string \<Rightarrow> int \<Rightarrow> string \<Rightarrow> string \<Rightarrow> string \<Rightarrow> payload \<Rightarrow>
    (string \<times> string) list option \<Rightarrow> string \<Rightarrow> (unit, 's, 'w) bus_action" where
  "emit_bus_event invoke model_validate secrets hex now ty tenant part_key data subject trace =
     try_a (bind_a (lift_a (make_envelope model_validate hex now ty tenant part_key (redact_event_data secrets data) subject trace))
         (publish invoke))
       (\<lambda>_. return_a ()) (\<lambda>e. return_a ())"

text \<open>The subscriber that persists every envelope, and the bus of a process whose event store is enabled.\<close>

datatype local_subscriber = PersistEnvelope

definition persist_envelope :: "int \<Rightarrow> (local_subscriber, event_db) subscriber" where
  "persist_envelope stored_at s env db =
     (case append_envelope stored_at env db of (Inl e, db') \<Rightarrow> (Inl SubscriberFailed, db') | (Inr _, db') \<Rightarrow> (Inr (), db'))"

definition get_event_bus :: "int \<Rightarrow> bool \<Rightarrow> local_subscriber memory_bus" where
  "get_event_bus stream_maxlen store_enabled =
     (let bus = new_bus (if 0 \<le> stream_maxlen then Some stream_maxlen else None)
      in if store_enabled then subscribe WILDCARD PersistEnvelope bus else bus)"

subsection \<open>Cursors\<close>

lemma int_digits_all: "ds \<noteq> [] \<Longrightarrow> \<forall>c\<in>set ds. is_digit c \<Longrightarrow> int_digits ds = Some ds"
proof (induction ds rule: int_digits.induct)
  case (3 c d s)
  then have "d \<noteq> CHR ''_''" by (auto simp: is_digit_def)
  then show ?case using 3 by simp
qed simp_all

lemma digit_not_space: "is_digit c \<Longrightarrow> \<not> is_space c"
  by (auto simp: is_digit_def is_space_def Let_def)

lemma strip_solid: "s \<noteq> [] \<Longrightarrow> \<forall>c\<in>set s. \<not> is_space c \<Longrightarrow> strip s = s"
proof -
  have "dropWhile is_space s = s" if "\<forall>c\<in>set s. \<not> is_space c" for s
    using that by (cases s) auto
  from this [of s] this [of "rev s"] show "s \<noteq> [] \<Longrightarrow> \<forall>c\<in>set s. \<not> is_space c \<Longrightarrow> strip s = s"
    by (simp add: strip_def lstrip_def)
qed

lemma parse_str_nat [simp]: "parse_int (str_nat n) = Some (int n)"
proof -
  have d: "\<forall>c\<in>set (str_nat n). is_digit c" using str_nat_digits by blast
  obtain c r where cr: "str_nat n = c # r" by (cases "str_nat n") auto
  then have "c \<noteq> CHR ''-''" "c \<noteq> CHR ''+''" using d by (auto simp: is_digit_def)
  moreover have "strip (str_nat n) = str_nat n" using d digit_not_space by (intro strip_solid) auto
  moreover have "int_digits (str_nat n) = Some (str_nat n)" using d by (intro int_digits_all) auto
  ultimately show ?thesis using cr nat_of_digits_str_nat [of n] by (simp add: parse_int_def)
qed

subsection \<open>The retained window\<close>

lemma trim_partition_nat: "trim_partition (Some (int m)) xs = drop (length xs - m) xs"
  by (auto simp: trim_partition_def nat_diff_distrib)

lemma trim_partition_neg: "a < 0 \<Longrightarrow> trim_partition (Some a) xs = []"
  by (simp add: trim_partition_def nat_le_iff le_nat_iff)

lemma trim_trim: "trim_partition cap (trim_partition cap xs @ [x]) = trim_partition cap (xs @ [x])"
proof (cases cap)
  case (Some a)
  show ?thesis
  proof (cases "a < 0")
    case False
    then obtain m where "a = int m" using nonneg_int_cases [of a] by auto
    then show ?thesis by (cases "m \<le> length xs") (auto simp: Some trim_partition_nat Suc_diff_le)
  qed (simp add: Some trim_partition_neg)
qed (simp add: trim_partition_def)

text \<open>What a bus holds of the envelopes published so far.\<close>

definition holds :: "'s memory_bus \<Rightarrow> event_envelope list \<Rightarrow> bool" where
  "holds bus h \<longleftrightarrow> (\<forall>part. mb_next_seq bus part = length (own part h) \<and>
     mb_partitions bus part = trim_partition (mb_max_partition_size bus) (enumerate 0 (own part h)))"

lemma enumerate_snoc: "enumerate n (xs @ [x]) = enumerate n xs @ [(n + length xs, x)]"
  by (simp add: enumerate_append_eq)

lemma holds_store: "holds bus h \<Longrightarrow> holds (store_in_partition env bus) (h @ [env])"
  by (simp add: holds_def store_in_partition_def Let_def enumerate_snoc trim_trim)

lemma holds_new: "holds (new_bus cap) []"
  by (simp add: holds_def new_bus_def trim_partition_def split: option.splits)

lemma holds_subscribe [simp]: "holds (subscribe ty s bus) h = holds bus h" "holds (unsubscribe ty s bus) h = holds bus h"
  by (simp_all add: holds_def subscribe_def unsubscribe_def)

fun publish_all :: "('s, 'w) subscriber \<Rightarrow> event_envelope list \<Rightarrow> (unit, 's, 'w) bus_action" where
  "publish_all invoke [] = return_a ()"
| "publish_all invoke (env # envs) = then_a (publish invoke env) (publish_all invoke envs)"

lemma on_rest_wp: "wp (on_rest m) Q E w = (case m (bw_rest w) of (Inl e, r) \<Rightarrow> E e (w\<lparr>bw_rest := r\<rparr>) | (Inr x, r) \<Rightarrow> Q x (w\<lparr>bw_rest := r\<rparr>))"
  by (simp add: wp_def on_rest_def Let_def split: prod.splits sum.splits)

definition called :: "('s, 'w) subscriber \<Rightarrow> event_envelope \<Rightarrow> 's list \<Rightarrow> 'w \<Rightarrow> 'w" where
  "called invoke env subs r = foldl (\<lambda>r s. snd (invoke s env r)) r subs"

lemma deliver_effect: "deliver invoke env s w = (Inr (), w\<lparr>bw_rest := snd (invoke s env (bw_rest w))\<rparr>)"
  by (simp add: deliver_def try_a_def on_rest_def return_a_def Let_def split: prod.splits sum.splits)

lemma each_deliver_effect: "each_a (deliver invoke env) subs w = (Inr (), w\<lparr>bw_rest := called invoke env subs (bw_rest w)\<rparr>)"
  by (induction subs arbitrary: w) (simp_all add: called_def return_a_def then_a_def bind_a_def deliver_effect)

definition subscribed :: "'s memory_bus \<Rightarrow> string \<Rightarrow> 's list" where
  "subscribed bus ty = mb_subscribers bus ty @ mb_subscribers bus WILDCARD"

lemma publish_effect:
  "publish invoke env w = (Inr (ev_event_id env),
     w\<lparr>bw_bus := store_in_partition env (bw_bus w), bw_rest := called invoke env (subscribed (bw_bus w) (ev_type env)) (bw_rest w)\<rparr>)"
  by (simp add: publish_def dispatch_event_def then_a_def bind_a_def modify_a_def gets_a_def return_a_def each_deliver_effect
      subscribed_def store_in_partition_def Let_def)

lemma publish_all_holds:
  "holds (bw_bus w) h \<Longrightarrow> publish_all invoke envs w = (r, w') \<Longrightarrow>
   r = Inr () \<and> holds (bw_bus w') (h @ envs) \<and> mb_max_partition_size (bw_bus w') = mb_max_partition_size (bw_bus w)"
proof (induction envs arbitrary: w h)
  case (Cons env envs)
  let ?w1 = "snd (publish invoke env w)"
  have "publish_all invoke envs ?w1 = (r, w')" using Cons.prems(2) by (simp add: then_a_def bind_a_def publish_effect)
  moreover have "holds (bw_bus ?w1) (h @ [env])" using holds_store [OF Cons.prems(1)] by (simp add: publish_effect)
  ultimately show ?case using Cons.IH [of ?w1 "h @ [env]"]
    by (simp add: publish_effect store_in_partition_def Let_def)
qed (simp add: return_a_def)

lemma filter_enumerate: "filter (\<lambda>(i, x). int k + 1 \<le> int i) (enumerate n xs) = drop (Suc k - n) (enumerate n xs)"
  by (induction xs arbitrary: n) (auto simp: drop_Cons' Suc_diff_le)

text \<open>
  Resumable replay. A reader that holds the cursor of an envelope of a partition of the in-memory
  bus, and is not behind by more than the partition retains, gets from \<open>replay_from\<close> exactly the
  envelopes published after it, in the order of publication, each with its own cursor.
\<close>

theorem replay_from_resumes:
  assumes "publish_all invoke envs \<lparr>bw_bus = new_bus cap, bw_rest = rest\<rparr> = (r, w)"
    and "case cap of None \<Rightarrow> True | Some m \<Rightarrow> int (length (own part envs)) - m \<le> int (Suc k) \<and> 0 \<le> m"
  shows "replay_from part (Some (str_nat k)) (bw_bus w) =
    Inr (map (\<lambda>(i, env). (str_nat i, env)) (drop (Suc k) (enumerate 0 (own part envs))))"
proof -
  let ?w0 = "\<lparr>bw_bus = new_bus cap, bw_rest = rest\<rparr>"
  have "holds (bw_bus ?w0) []" by (simp add: holds_new)
  from publish_all_holds [OF this assms(1)]
  have "holds (bw_bus w) envs \<and> mb_max_partition_size (bw_bus w) = cap" by (simp add: new_bus_def)
  then have p: "mb_partitions (bw_bus w) part = trim_partition cap (enumerate 0 (own part envs))" by (simp add: holds_def)
  have f: "filter (\<lambda>(i, env). int k + 1 \<le> int i) (enumerate 0 (own part envs)) = drop (Suc k) (enumerate 0 (own part envs))"
    using filter_enumerate [of k 0] by simp
  have "filter (\<lambda>(i, env). int k + 1 \<le> int i) (trim_partition cap (enumerate 0 (own part envs))) =
    drop (Suc k) (enumerate 0 (own part envs))"
  proof (cases cap)
    case None
    then show ?thesis using f by (simp add: trim_partition_def)
  next
    case (Some m)
    let ?xs = "enumerate 0 (own part envs)" and ?d = "nat (int (length (own part envs)) - m)"
    have "?d \<le> Suc k" using assms(2) Some by auto
    then have "filter (\<lambda>(i, env). int k + 1 \<le> int i) (take ?d ?xs) = []"
      by (auto simp: filter_empty_conv in_set_conv_nth nth_enumerate_eq)
    then have "filter (\<lambda>(i, env). int k + 1 \<le> int i) (drop ?d ?xs) = filter (\<lambda>(i, env). int k + 1 \<le> int i) ?xs"
      by (metis append_take_drop_id append_Nil filter_append)
    then show ?thesis using Some f by (simp add: trim_partition_def)
  qed
  then show ?thesis by (simp add: replay_from_def bind_r_def p algebra_simps)
qed

definition sample_bus_world :: "(unit, nat) bus_world" where
  "sample_bus_world = snd (publish_all (\<lambda>_ _ n. (Inl SubscriberFailed, Suc n)) sample_history
     \<lparr>bw_bus = new_bus (Some 1), bw_rest = 0\<rparr>)"

theorem replay_from_resumes_witness:
  "replay_from ''r'' (Some (str_nat 0)) (bw_bus sample_bus_world) =
     Inr (map (\<lambda>(i, env). (str_nat i, env)) (drop (Suc 0) (enumerate 0 (own ''r'' sample_history)))) \<and>
   drop (Suc 0) (enumerate 0 (own ''r'' sample_history)) \<noteq> []"
proof -
  have "drop (Suc 0) (enumerate 0 (own ''r'' sample_history)) \<noteq> []" by code_simp
  moreover have "length (own ''r'' sample_history) = 2" by code_simp
  moreover obtain r where "publish_all (\<lambda>_ _ n. (Inl SubscriberFailed, Suc n)) sample_history
     \<lparr>bw_bus = new_bus (Some 1), bw_rest = 0\<rparr> = (r, sample_bus_world)"
    unfolding sample_bus_world_def by (metis prod.exhaust snd_conv)
  ultimately show ?thesis
    using replay_from_resumes [of "\<lambda>_ _ n. (Inl SubscriberFailed, Suc n)" sample_history "Some 1" 0 r sample_bus_world "''r''" 0] by simp
qed

subsection \<open>Emission\<close>

lemma emit_bus_event_effect:
  "emit_bus_event invoke model_validate secrets hex now ty tenant part data subject trace w =
     (Inr (), case make_envelope model_validate hex now ty tenant part (redact_event_data secrets data) subject trace of
        Inl e \<Rightarrow> w
      | Inr env \<Rightarrow> w\<lparr>bw_bus := store_in_partition env (bw_bus w),
          bw_rest := foldl (\<lambda>r s. snd (invoke s env r)) (bw_rest w)
            (mb_subscribers (bw_bus w) ty @ mb_subscribers (bw_bus w) WILDCARD)\<rparr>)"
proof (cases "make_envelope model_validate hex now ty tenant part (redact_event_data secrets data) subject trace")
  case (Inr env)
  then have "ev_type env = ty" by (auto simp: make_envelope_def split: option.splits)
  then show ?thesis
    by (simp add: Inr emit_bus_event_def try_a_def bind_a_def lift_a_def publish_effect return_a_def called_def subscribed_def)
qed (simp add: emit_bus_event_def try_a_def bind_a_def lift_a_def return_a_def)

text \<open>
  Emission never disrupts its caller, and delivery is resilient. For every validator and all
  subscribers \<open>emit_bus_event\<close> returns; when the envelope cannot be built nothing changes, and otherwise the redacted
  envelope is stored in its partition and every subscriber of its type, then every wildcard
  subscriber, is called once in the order of subscription, whatever the earlier ones raised.
\<close>

theorem emit_event_delivers:
  "emit_bus_event invoke model_validate secrets hex now ty tenant part data subject trace w =
     (Inr (), case make_envelope model_validate hex now ty tenant part (redact_event_data secrets data) subject trace of
        Inl e \<Rightarrow> w
      | Inr env \<Rightarrow> w\<lparr>bw_bus := store_in_partition env (bw_bus w),
          bw_rest := foldl (\<lambda>r s. snd (invoke s env r)) (bw_rest w)
            (mb_subscribers (bw_bus w) ty @ mb_subscribers (bw_bus w) WILDCARD)\<rparr>)"
  by (rule emit_bus_event_effect)

text \<open>Redaction keeps the types of the values.\<close>

lemma redact_list_map: "redact_list values vs = map (redact_structure values) vs"
  by (induction vs) auto

lemma redact_items_map: "redact_items values d = map (\<lambda>(k, v). (k, redact_structure values v)) d"
  by (induction d) auto

lemma redact_nothing: "redact_structure [] v = v" "redact_list [] vs = vs" "redact_items [] d = d"
  by (induction v and vs and d rule: texts_of_texts_of_list_texts_of_items.induct) auto

lemma redact_has_type: "has_type t v \<Longrightarrow> has_type t (redact_structure values v)"
proof (induction t v rule: has_type.induct)
  case (2 t v)
  then show ?case by (cases v) auto
qed (auto simp: redact_list_map redact_items_map)

lemma redact_get: "map_of (redact_event_data values data) k = map_option (redact_structure values) (map_of data k)"
  by (cases "values = []") (simp_all add: redact_event_data_def map_of_map redact_nothing option.map_ident cong: map_option_cong)

lemma redact_conforms: "conforms model data \<Longrightarrow> conforms model (redact_event_data values data)"
  unfolding conforms_def by (auto simp: redact_get redact_has_type split: option.splits)

fun plain_default :: "pyval option \<Rightarrow> bool" where
  "plain_default None = True"
| "plain_default (Some PNone) = True"
| "plain_default (Some (PStr s)) = (s = [])"
| "plain_default _ = False"

lemmas model_defs =
  SessionCreatedData_def FlowRunStartedData_def RunStepStartedData_def RunStepCompletedData_def
  RunStepFailedData_def AgentTokenDeltaData_def RunHumanRequestedData_def RunHumanResolvedData_def
  FlowRunCompletedData_def FlowRunFailedData_def RunBudgetExceededData_def GuardrailViolationBlockedData_def
  PatchAppliedData_def PatchChangedFilesListedData_def PatchDiscardedData_def ValidationGateData_def
  EvalRunCompletedData_def PluginLifecycleData_def RegistryEntryData_def RunTimelineStepData_def
  PlanStepTransitionData_def PlanStepMutationData_def AccessRequestData_def QuotaWarningData_def
  QuotaExceededData_def ExecutionActionStartedData_def ExecutionActionCompletedData_def
  ExecutionActionFailedData_def ExecutionPolicyDecisionData_def ExecutionSelfVerificationOutcomeData_def
  ExecutionRepairSkippedData_def EnvironmentInstanceProvisionedData_def EnvironmentAccessDecisionData_def
  EnvironmentInstanceRetiredData_def SecretLifecycleData_def SecretLeakSuspectedData_def

lemma catalog_defaults: "list_all (\<lambda>d. list_all (\<lambda>f. plain_default (fd_default f)) (ed_data_model d)) DEFINITIONS"
  by (simp add: DEFINITIONS_def model_defs)

lemma model_dump_texts:
  assumes "\<forall>f\<in>set model. plain_default (fd_default f)" and "s \<in> set (payload_texts (model_dump model data))"
  shows "s = [] \<or> s \<in> set (payload_texts data)"
proof -
  obtain f where f: "f \<in> set model" "s \<in> set (texts_of (case map_of data (fd_name f) of Some v \<Rightarrow> v
      | None \<Rightarrow> (case fd_default f of Some v \<Rightarrow> v | None \<Rightarrow> PNone)))"
    using assms(2) by (auto simp: payload_texts_def model_dump_def)
  show ?thesis
  proof (cases "map_of data (fd_name f)")
    case None
    then show ?thesis using f bspec [OF assms(1) f(1)] by (cases "fd_default f" rule: plain_default.cases) auto
  next
    case (Some v)
    then show ?thesis using f map_of_SomeD [OF Some] by (auto simp: payload_texts_def)
  qed
qed

text \<open>
  C9. What a producer emits is stored, validated and redacted. On the bus of a process with the event
  store enabled, emitting a cataloged event with a conforming payload appends to the durable log, under
  a new event id, the dump of the redacted payload, and no text at an item of a list or a value of a
  dictionary in it contains a live secret, provided that the secret is not empty, has no asterisk and is
  not a part of the marker's own text.
\<close>

theorem emitted_event_stored_redacted:
  assumes "validates_conforming model_validate" and "catalog_get ty EVENT_CATALOG = Some d"
    and "conforms (ed_data_model d) data"
    and "mb_subscribers (bw_bus w) = mb_subscribers (get_event_bus stream_maxlen True)" and "ty \<noteq> WILDCARD"
    and "\<forall>e\<in>set (db_events (bw_rest w)). ev_event_id (se_envelope e) \<noteq> ''evt_'' @ hex"
    and "json_payload (model_dump (ed_data_model d) (redact_event_data secrets data)) = Some stored"
  shows "\<exists>env w'. emit_bus_event (persist_envelope stored_at) model_validate secrets hex now ty tenant part data subject trace w = (Inr (), w') \<and>
    bw_rest w' = appended stored_at env (bw_rest w) \<and> accepts (bw_rest w) env \<and> ev_type env = ty \<and> ev_partition_key env = part \<and>
    ev_data env = model_dump (ed_data_model d) (redact_event_data secrets data) \<and>
    (\<forall>v\<in>set secrets. removable v \<longrightarrow> (\<forall>s\<in>set (payload_texts (ev_data env)). \<not> sublist v s))"
proof -
  let ?data = "redact_event_data secrets data"
  obtain env where env: "make_envelope model_validate hex now ty tenant part ?data subject trace = Inr env"
    and e: "ev_event_id env = ''evt_'' @ hex" "ev_type env = ty" "ev_partition_key env = part" "ev_data env = model_dump (ed_data_model d) ?data"
    using validates_conformingD [OF assms(1) redact_conforms [OF assms(3)], of secrets] assms(2)
    by (auto simp: make_envelope_def)
  have acc: "accepts (bw_rest w) env" using assms(6,7) e by (simp add: accepts_def)
  have subs: "mb_subscribers (bw_bus w) ty @ mb_subscribers (bw_bus w) WILDCARD = [PersistEnvelope]"
    using assms(4,5) by (simp add: get_event_bus_def subscribe_def new_bus_def Let_def)
  have "d \<in> set DEFINITIONS" using assms(2) by (auto simp: catalog_get_def find_Some_iff in_set_conv_nth)
  then have defaults: "\<forall>f\<in>set (ed_data_model d). plain_default (fd_default f)"
    using catalog_defaults by (auto simp: list_all_iff)
  have clean: "\<not> sublist v s" if "v \<in> set secrets" "removable v" "s \<in> set (payload_texts (ev_data env))" for v s
    using model_dump_texts [OF defaults, of s ?data] that(3) scrub_removes [OF that(2,1)] that(2) e(4)
    by (auto simp: payload_texts_redacted removable_def)
  have "emit_bus_event (persist_envelope stored_at) model_validate secrets hex now ty tenant part data subject trace w =
    (Inr (), w\<lparr>bw_bus := store_in_partition env (bw_bus w), bw_rest := appended stored_at env (bw_rest w)\<rparr>)"
    using acc by (simp add: emit_bus_event_effect env subs persist_envelope_def append_envelope_effect)
  then show ?thesis using acc e clean by (intro exI [of _ env] exI conjI ballI impI) (assumption | simp)+
qed

definition store_world :: "(local_subscriber, event_db) bus_world" where
  "store_world = \<lparr>bw_bus = get_event_bus 10 True, bw_rest = sample_event_db\<rparr>"

theorem emitted_event_stored_redacted_witness:
  "\<exists>env w'. emit_bus_event (persist_envelope 5) strict_validate [''hunter2''] ''0'' 5 ''run.human.resolved'' ''t'' ''r''
      [(''stepKey'', PStr ''s''), (''decision'', PStr ''use hunter2'')] None [] store_world = (Inr (), w') \<and>
    bw_rest w' = appended 5 env sample_event_db \<and> (\<forall>s\<in>set (payload_texts (ev_data env)). \<not> sublist ''hunter2'' s)"
proof -
  let ?data = "[(''stepKey'', PStr ''s''), (''decision'', PStr ''use hunter2'')] :: payload"
  have d: "catalog_get ''run.human.resolved'' EVENT_CATALOG =
      Some (EventDefinition ''run.human.resolved'' ''Control Plane API'' ByRun RunHumanResolvedData SCHEMA_VERSION_EVENTS)"
    unfolding EVENT_CATALOG_definitions by code_simp
  have c: "conforms (ed_data_model (EventDefinition ''run.human.resolved'' ''Control Plane API'' ByRun RunHumanResolvedData SCHEMA_VERSION_EVENTS)) ?data"
    by (simp add: conforms_def RunHumanResolvedData_def)
  have f: "removable ''hunter2''" by code_simp
  have fresh: "\<forall>e\<in>set (db_events (bw_rest store_world)). ev_event_id (se_envelope e) \<noteq> ''evt_'' @ ''0''"
    by (simp add: store_world_def) code_simp
  have "json_payload (model_dump (ed_data_model (EventDefinition ''run.human.resolved'' ''Control Plane API'' ByRun RunHumanResolvedData SCHEMA_VERSION_EVENTS))
      (redact_event_data [''hunter2''] ?data)) \<noteq> None"
    by (simp add: model_dump_def RunHumanResolvedData_def redact_event_data_def)
  then obtain stored where j: "json_payload (model_dump (ed_data_model (EventDefinition ''run.human.resolved'' ''Control Plane API'' ByRun
      RunHumanResolvedData SCHEMA_VERSION_EVENTS)) (redact_event_data [''hunter2''] ?data)) = Some stored" by blast
  have "mb_subscribers (bw_bus store_world) = mb_subscribers (get_event_bus 10 True)" "''run.human.resolved'' \<noteq> WILDCARD"
    by (simp_all add: store_world_def WILDCARD_def)
  from emitted_event_stored_redacted [OF strict_validate_conforming d c this fresh j, of 5 5 "''t''" "''r''" None "[]"]
  obtain env w' where "emit_bus_event (persist_envelope 5) strict_validate [''hunter2''] ''0'' 5 ''run.human.resolved'' ''t'' ''r''
      ?data None [] store_world = (Inr (), w')" "bw_rest w' = appended 5 env (bw_rest store_world)"
    "\<forall>v\<in>set [''hunter2'']. removable v \<longrightarrow> (\<forall>s\<in>set (payload_texts (ev_data env)). \<not> sublist v s)" by blast
  then show ?thesis using f by (intro exI [of _ env] exI [of _ w']) (simp add: store_world_def)
qed

end
