(* ===== verification/Coordination.thy ===== *)
theory Coordination
  imports Sql_Table Evolution
begin

text \<open>
  The in-process lock manager and cache (\<^verbatim>\<open>backend/coordination/redis.py\<close>). The table of locks and the
  values of the cache are maps, every operation is one critical section, and \<open>now\<close> is its reading of the
  monotonic clock, in microseconds like the durations. A lease is the immutable part of \<open>LocalLockLease\<close>; all leases
  of a manager share its table.
\<close>

type_synonym lock_table = "string \<rightharpoonup> string \<times> int"

record lock_lease =
  ll_name :: string
  ll_ttl :: int
  ll_token :: string

definition lock_key :: "string \<Rightarrow> string" where
  "lock_key name = ''autodev:locks:'' @ name"

definition cache_key :: "string \<Rightarrow> string \<Rightarrow> string" where
  "cache_key namespace key = ''autodev:cache:'' @ namespace @ '':'' @ key"

definition lock_lease_of :: "string \<Rightarrow> int \<Rightarrow> string \<Rightarrow> lock_lease" where
  "lock_lease_of name ttl token = \<lparr>ll_name = lock_key name, ll_ttl = ttl, ll_token = token\<rparr>"

definition acquire_lock :: "lock_lease \<Rightarrow> int \<Rightarrow> lock_table \<Rightarrow> bool \<times> lock_table" where
  "acquire_lock l now s =
     (case s (ll_name l) of
        Some (token, expires) \<Rightarrow>
          if now < expires then (False, s) else (True, s(ll_name l \<mapsto> (ll_token l, now + ll_ttl l)))
      | None \<Rightarrow> (True, s(ll_name l \<mapsto> (ll_token l, now + ll_ttl l))))"

text \<open>\<open>ttl_seconds or self.ttl_seconds\<close>: a duration of zero is replaced as well.\<close>

definition renew_ttl :: "lock_lease \<Rightarrow> int option \<Rightarrow> int" where
  "renew_ttl l ttl = (case ttl of None \<Rightarrow> ll_ttl l | Some t \<Rightarrow> if t = 0 then ll_ttl l else t)"

definition renew_lock :: "lock_lease \<Rightarrow> int option \<Rightarrow> int \<Rightarrow> lock_table \<Rightarrow> bool \<times> lock_table" where
  "renew_lock l ttl now s =
     (case s (ll_name l) of
        None \<Rightarrow> (False, s)
      | Some (token, expires) \<Rightarrow>
          if token \<noteq> ll_token l then (False, s) else (True, s(ll_name l \<mapsto> (ll_token l, now + renew_ttl l ttl))))"

definition release_lock :: "lock_lease \<Rightarrow> lock_table \<Rightarrow> bool \<times> lock_table" where
  "release_lock l s =
     (case s (ll_name l) of
        None \<Rightarrow> (False, s)
      | Some (token, expires) \<Rightarrow> if token \<noteq> ll_token l then (False, s) else (True, s(ll_name l := None)))"

type_synonym 'v cache_table = "string \<rightharpoonup> 'v \<times> int option"

definition cache_set :: "string \<Rightarrow> string \<Rightarrow> 'v \<Rightarrow> int option \<Rightarrow> int \<Rightarrow> 'v cache_table \<Rightarrow> 'v cache_table" where
  "cache_set namespace key v ttl now c = c(cache_key namespace key \<mapsto> (v, map_option (\<lambda>t. now + t) ttl))"

definition cache_get :: "string \<Rightarrow> string \<Rightarrow> int \<Rightarrow> 'v cache_table \<Rightarrow> 'v option \<times> 'v cache_table" where
  "cache_get namespace key now c =
     (case c (cache_key namespace key) of
        None \<Rightarrow> (None, c)
      | Some (v, None) \<Rightarrow> (Some v, c)
      | Some (v, Some expires) \<Rightarrow> if expires \<le> now then (None, c(cache_key namespace key := None)) else (Some v, c))"

definition cache_delete :: "string \<Rightarrow> string \<Rightarrow> 'v cache_table \<Rightarrow> 'v cache_table" where
  "cache_delete namespace key c = c(cache_key namespace key := None)"

subsection \<open>The cache\<close>

text \<open>
  Reading back a value. The namespaces and keys are joined by a colon, so that two pairs may share a
  key; the law is stated for the joined key.
\<close>

lemma cache_get_set:
  "fst (cache_get ns' k' now' (cache_set ns k v ttl now c)) =
     (if cache_key ns' k' = cache_key ns k
      then (case ttl of None \<Rightarrow> Some v | Some t \<Rightarrow> if now + t \<le> now' then None else Some v)
      else fst (cache_get ns' k' now' c))"
  by (auto simp: cache_get_def cache_set_def split: option.splits prod.splits)

lemma cache_namespaces_collide: "cache_key ''a'' ''b:c'' = cache_key ''a:b'' ''c''"
  by (simp add: cache_key_def)

subsection \<open>Mutual exclusion\<close>

definition holder :: "string \<Rightarrow> int \<Rightarrow> lock_table \<Rightarrow> string option" where
  "holder name now s = (case s name of Some (token, expires) \<Rightarrow> if now < expires then Some token else None | None \<Rightarrow> None)"

datatype lock_op = Acquire lock_lease | Renew lock_lease "int option" | Release lock_lease

text \<open>An operation at an instant that is not before the previous one, with its answer.\<close>

fun lock_do :: "lock_op \<Rightarrow> int \<Rightarrow> lock_table \<Rightarrow> bool \<times> lock_table" where
  "lock_do (Acquire l) now s = acquire_lock l now s"
| "lock_do (Renew l ttl) now s = renew_lock l ttl now s"
| "lock_do (Release l) now s = release_lock l s"

fun op_lease :: "lock_op \<Rightarrow> lock_lease" where
  "op_lease (Acquire l) = l"
| "op_lease (Renew l ttl) = l"
| "op_lease (Release l) = l"

fun run_locks :: "(lock_op \<times> int) list \<Rightarrow> lock_table \<Rightarrow> bool list \<times> lock_table" where
  "run_locks [] s = ([], s)"
| "run_locks ((op, now) # ops) s =
     (let (b, s') = lock_do op now s; (bs, s'') = run_locks ops s' in (b # bs, s''))"

lemma lock_do_foreign:
  assumes "s name = Some (token, expires)" and "now < expires" and "ll_name (op_lease op) = name" and "ll_token (op_lease op) \<noteq> token"
  shows "lock_do op now s = (False, s)"
  using assms by (cases op) (auto simp: acquire_lock_def renew_lock_def release_lock_def)

lemma lock_do_other: "ll_name (op_lease op) \<noteq> name \<Longrightarrow> snd (lock_do op now s) name = s name"
  by (cases op) (auto simp: acquire_lock_def renew_lock_def release_lock_def split: option.splits prod.splits)

lemma run_locks_excludes:
  assumes "s name = Some (token, expires)"
    and "\<forall>(op, t)\<in>set ops. t < expires \<and> (ll_name (op_lease op) = name \<longrightarrow> ll_token (op_lease op) \<noteq> token)"
    and "run_locks ops s = (bs, s')"
  shows "s' name = Some (token, expires) \<and>
    (\<forall>i<length ops. ll_name (op_lease (fst (ops ! i))) = name \<longrightarrow> \<not> bs ! i)"
  using assms
proof (induction ops arbitrary: s bs)
  case (Cons p ops)
  obtain op now where p: "p = (op, now)" by (cases p)
  obtain b s1 where s1: "lock_do op now s = (b, s1)" by (cases "lock_do op now s")
  obtain bs' s2 where s2: "run_locks ops s1 = (bs', s2)" by (cases "run_locks ops s1")
  have bs: "bs = b # bs'" "s' = s2" using Cons.prems(3) p s1 s2 by auto
  have "s1 name = Some (token, expires) \<and> (ll_name (op_lease op) = name \<longrightarrow> \<not> b)"
  proof (cases "ll_name (op_lease op) = name")
    case True
    then show ?thesis using lock_do_foreign [of s name token expires now op] Cons.prems(1,2) p s1 by auto
  next
    case False
    then show ?thesis using lock_do_other [OF False, of now s] Cons.prems(1) s1 by simp
  qed
  moreover from this have "s' name = Some (token, expires) \<and>
      (\<forall>i<length ops. ll_name (op_lease (fst (ops ! i))) = name \<longrightarrow> \<not> bs' ! i)"
    using Cons.IH [of s1 bs'] Cons.prems(2) s2 bs by simp
  ultimately show ?case using bs p by (auto simp: nth_Cons split: nat.splits)
qed simp

text \<open>
  Mutual exclusion of the local locks. Once a lease has acquired a lock, and until its time has
  passed, every operation of other leases on the lock, in any number and order and among operations on
  any other locks, is refused and the lock stays with the lease, which can then still renew or release it.
\<close>

theorem lock_excludes_others:
  assumes "acquire_lock l now s = (True, s1)"
    and "\<forall>(op, t)\<in>set ops. t < now + ll_ttl l \<and> (ll_name (op_lease op) = ll_name l \<longrightarrow> ll_token (op_lease op) \<noteq> ll_token l)"
    and "run_locks ops s1 = (bs, s2)"
  shows "(\<forall>i<length ops. ll_name (op_lease (fst (ops ! i))) = ll_name l \<longrightarrow> \<not> bs ! i) \<and>
    s2 (ll_name l) = Some (ll_token l, now + ll_ttl l) \<and> fst (renew_lock l ttl t s2) \<and> fst (release_lock l s2)"
proof -
  have "s1 (ll_name l) = Some (ll_token l, now + ll_ttl l)"
    using assms(1) by (auto simp: acquire_lock_def split: option.splits prod.splits if_splits)
  from run_locks_excludes [OF this assms(2,3)] show ?thesis by (auto simp: renew_lock_def release_lock_def)
qed

theorem lock_excludes_others_witness:
  "fst (run_locks [(Acquire (lock_lease_of ''m'' 10 ''b''), 5), (Acquire (lock_lease_of ''n'' 10 ''b''), 6), (Release (lock_lease_of ''m'' 10 ''b''), 7)]
      (snd (acquire_lock (lock_lease_of ''m'' 10 ''a'') 0 Map.empty))) = [False, True, False] \<and>
   fst (release_lock (lock_lease_of ''m'' 10 ''a'') (snd (run_locks [(Acquire (lock_lease_of ''m'' 10 ''b''), 5),
      (Acquire (lock_lease_of ''n'' 10 ''b''), 6), (Release (lock_lease_of ''m'' 10 ''b''), 7)]
      (snd (acquire_lock (lock_lease_of ''m'' 10 ''a'') 0 Map.empty)))))"
proof -
  let ?l = "lock_lease_of ''m'' 10 ''a''" and ?s1 = "snd (acquire_lock (lock_lease_of ''m'' 10 ''a'') 0 Map.empty)"
    and ?ops = "[(Acquire (lock_lease_of ''m'' 10 ''b''), 5), (Acquire (lock_lease_of ''n'' 10 ''b''), 6), (Release (lock_lease_of ''m'' 10 ''b''), 7 :: int)]"
  have a: "acquire_lock ?l 0 Map.empty = (True, ?s1)" by (simp add: acquire_lock_def)
  obtain bs s2 where r: "run_locks ?ops ?s1 = (bs, s2)" by (metis prod.exhaust)
  have ok: "\<forall>(op, t)\<in>set ?ops. t < 0 + ll_ttl ?l \<and> (ll_name (op_lease op) = ll_name ?l \<longrightarrow> ll_token (op_lease op) \<noteq> ll_token ?l)"
    by (simp add: lock_lease_of_def lock_key_def)
  have "fst (run_locks ?ops ?s1) = [False, True, False]"
    by (simp add: acquire_lock_def release_lock_def lock_lease_of_def lock_key_def Let_def)
  then show ?thesis using lock_excludes_others [OF a ok r, of None 8] r by simp
qed

end
