(* ===== verification/Job_Queue.thy ===== *)
theory Job_Queue
  imports Py_Value Sql_Table Evolution "HOL-Library.AList"
begin

text \<open>
  The in-process job queue (\<^verbatim>\<open>backend/jobs/queue.py\<close>). Its state is shared by the callers and the threads
  of the pool; every critical section of the code is one operation here, and the sections of different
  jobs interleave freely. A handler runs outside the lock: its outcome is an argument of the section that
  records it, a result or an \<open>Exception\<close>; a handler that raises any other \<open>BaseException\<close> is not
  modelled. \<open>now\<close> is a reading of the monotonic clock, in microseconds. The tracing carrier of a job is of any type.
\<close>

datatype job_status = JobPending | JobRunning | JobDone | JobError

fun job_status_value :: "job_status \<Rightarrow> string" where
  "job_status_value JobPending = ''pending''"
| "job_status_value JobRunning = ''running''"
| "job_status_value JobDone = ''done''"
| "job_status_value JobError = ''error''"

record 'r job_record =
  jb_job_id :: string
  jb_job_type :: string
  jb_status :: job_status
  jb_result :: "'r option"
  jb_error :: "string option"

record ('r, 'c) job_queue =
  jq_max_workers :: nat
  jq_retention_seconds :: int
  jq_store :: "'r job_record list"
  jq_contexts :: "(string \<times> 'c) list"
  jq_pending_count :: int
  jq_running_count :: int
  jq_completed_order :: "(int \<times> string) list"

definition new_queue :: "nat \<Rightarrow> int \<Rightarrow> ('r, 'c) job_queue" where
  "new_queue workers retention =
     \<lparr>jq_max_workers = workers, jq_retention_seconds = retention, jq_store = [], jq_contexts = [], jq_pending_count = 0,
      jq_running_count = 0, jq_completed_order = []\<rparr>"

subsection \<open>The critical sections\<close>

text \<open>\<open>self._store.pop(job_id, None)\<close>\<close>

definition drop_job :: "string \<Rightarrow> 'r job_record list \<Rightarrow> 'r job_record list" where
  "drop_job job_id store = filter (\<lambda>r. jb_job_id r \<noteq> job_id) store"

fun sweep_loop :: "int \<Rightarrow> (int \<times> string) list \<Rightarrow> 'r job_record list \<Rightarrow> (int \<times> string) list \<times> 'r job_record list" where
  "sweep_loop cutoff [] store = ([], store)"
| "sweep_loop cutoff ((completed_at, job_id) # order) store =
     (if completed_at < cutoff then sweep_loop cutoff order (drop_job job_id store)
      else ((completed_at, job_id) # order, store))"

definition sweep_expired :: "int \<Rightarrow> ('r, 'c) job_queue \<Rightarrow> ('r, 'c) job_queue" where
  "sweep_expired now q =
     (if jq_retention_seconds q < 0 then q
      else let (order, store) = sweep_loop (now - jq_retention_seconds q * 1000000) (jq_completed_order q) (jq_store q)
           in q\<lparr>jq_completed_order := order, jq_store := store\<rparr>)"

text \<open>The two sections of \<open>enqueue\<close>: adding the record, and undoing it when the pool refuses the job.\<close>

definition add_job :: "string \<Rightarrow> string \<Rightarrow> 'c \<Rightarrow> int \<Rightarrow> ('r, 'c) job_queue \<Rightarrow> ('r, 'c) job_queue" where
  "add_job job_id job_type carrier now q =
     (let q1 = sweep_expired now q
      in q1\<lparr>jq_store := upsert_row jb_job_id
             \<lparr>jb_job_id = job_id, jb_job_type = job_type, jb_status = JobPending, jb_result = None, jb_error = None\<rparr> (jq_store q1),
           jq_contexts := AList.update job_id carrier (jq_contexts q1),
           jq_pending_count := jq_pending_count q1 + 1\<rparr>)"

definition undo_job :: "string \<Rightarrow> ('r, 'c) job_queue \<Rightarrow> ('r, 'c) job_queue" where
  "undo_job job_id q =
     q\<lparr>jq_store := drop_job job_id (jq_store q), jq_contexts := AList.delete job_id (jq_contexts q),
       jq_pending_count := jq_pending_count q - 1\<rparr>"

text \<open>The first section of \<open>_run\<close>; \<open>None\<close> is a \<open>KeyError\<close>.\<close>

definition start_job :: "string \<Rightarrow> ('r, 'c) job_queue \<Rightarrow> ('c \<times> ('r, 'c) job_queue) option" where
  "start_job job_id q =
     (case select_one jb_job_id job_id (jq_store q) of
        None \<Rightarrow> None
      | Some r \<Rightarrow>
          (case map_of (jq_contexts q) job_id of
             None \<Rightarrow> None
           | Some carrier \<Rightarrow> Some (carrier,
               q\<lparr>jq_store := update_where (\<lambda>r. jb_job_id r = job_id) (\<lambda>r. r\<lparr>jb_status := JobRunning\<rparr>) (jq_store q),
                 jq_pending_count := jq_pending_count q - 1, jq_running_count := jq_running_count q + 1\<rparr>)))"

definition finish_locked :: "string \<Rightarrow> int \<Rightarrow> ('r, 'c) job_queue \<Rightarrow> ('r, 'c) job_queue" where
  "finish_locked job_id now q =
     q\<lparr>jq_running_count := jq_running_count q - 1, jq_completed_order := jq_completed_order q @ [(now, job_id)]\<rparr>"

text \<open>What the job ended with: no handler, a result, or the text of an exception.\<close>

datatype 'r job_outcome = NoHandler string | Returned 'r | Raised string

fun outcome_record :: "'r job_outcome \<Rightarrow> 'r job_record \<Rightarrow> 'r job_record" where
  "outcome_record (NoHandler message) r = r\<lparr>jb_status := JobError, jb_error := Some message\<rparr>"
| "outcome_record (Returned x) r = r\<lparr>jb_status := JobDone, jb_result := Some x\<rparr>"
| "outcome_record (Raised message) r = r\<lparr>jb_status := JobError, jb_error := Some message\<rparr>"

definition finish_job :: "string \<Rightarrow> 'r job_outcome \<Rightarrow> int \<Rightarrow> ('r, 'c) job_queue \<Rightarrow> ('r, 'c) job_queue option" where
  "finish_job job_id outcome now q =
     (case select_one jb_job_id job_id (jq_store q) of
        None \<Rightarrow> None
      | Some r \<Rightarrow> Some (finish_locked job_id now
          (q\<lparr>jq_store := update_where (\<lambda>r. jb_job_id r = job_id) (outcome_record outcome) (jq_store q)\<rparr>)))"

definition forget_context :: "string \<Rightarrow> ('r, 'c) job_queue \<Rightarrow> ('r, 'c) job_queue" where
  "forget_context job_id q = q\<lparr>jq_contexts := AList.delete job_id (jq_contexts q)\<rparr>"

definition get_job :: "string \<Rightarrow> ('r, 'c) job_queue \<Rightarrow> 'r job_record" where
  "get_job job_id q =
     (case select_one jb_job_id job_id (jq_store q) of
        Some r \<Rightarrow> r
      | None \<Rightarrow> \<lparr>jb_job_id = job_id, jb_job_type = ''unknown'', jb_status = JobError, jb_result = None,
                 jb_error = Some (''Unknown job_id: '' @ repr_str job_id)\<rparr>)"

record queue_snapshot =
  sn_pending :: int
  sn_running :: int
  sn_workers :: nat
  sn_busy :: int

definition queue_stats :: "('r, 'c) job_queue \<Rightarrow> queue_snapshot" where
  "queue_stats q = \<lparr>sn_pending = jq_pending_count q, sn_running = jq_running_count q, sn_workers = jq_max_workers q,
     sn_busy = jq_running_count q\<rparr>"

subsection \<open>The pool and its interleavings\<close>

text \<open>
  The queue together with the pool: the jobs whose record is added and that are being handed over, those
  waiting in the first-in first-out queue of the pool, those running on a thread, those recorded but still on
  their thread, and all identifiers ever drawn. The pool runs at most as many threads as it has workers, and
  \<open>uuid4\<close> never repeats an identifier.
\<close>

record ('r, 'c) job_system =
  js_queue :: "('r, 'c) job_queue"
  js_offered :: "string list"
  js_waiting :: "string list"
  js_active :: "string list"
  js_cleaning :: "string list"
  js_used :: "string set"

inductive job_step :: "('r, 'c) job_system \<Rightarrow> ('r, 'c) job_system \<Rightarrow> bool" where
  offer: "job_id \<notin> js_used s \<Longrightarrow> job_step s (s\<lparr>js_queue := add_job job_id ty carrier now (js_queue s),
      js_offered := js_offered s @ [job_id], js_used := insert job_id (js_used s)\<rparr>)"
| submit: "job_id \<in> set (js_offered s) \<Longrightarrow>
    job_step s (s\<lparr>js_offered := remove1 job_id (js_offered s), js_waiting := js_waiting s @ [job_id]\<rparr>)"
| refuse: "job_id \<in> set (js_offered s) \<Longrightarrow>
    job_step s (s\<lparr>js_queue := undo_job job_id (js_queue s), js_offered := remove1 job_id (js_offered s)\<rparr>)"
| start: "js_waiting s = job_id # rest \<Longrightarrow> length (js_active s) + length (js_cleaning s) < jq_max_workers (js_queue s) \<Longrightarrow>
    start_job job_id (js_queue s) = Some (carrier, q) \<Longrightarrow>
    job_step s (s\<lparr>js_queue := q, js_waiting := rest, js_active := js_active s @ [job_id]\<rparr>)"
| finish: "job_id \<in> set (js_active s) \<Longrightarrow> finish_job job_id outcome now (js_queue s) = Some q \<Longrightarrow>
    job_step s (s\<lparr>js_queue := q, js_active := remove1 job_id (js_active s), js_cleaning := js_cleaning s @ [job_id]\<rparr>)"
| clean: "job_id \<in> set (js_cleaning s) \<Longrightarrow>
    job_step s (s\<lparr>js_queue := forget_context job_id (js_queue s), js_cleaning := remove1 job_id (js_cleaning s)\<rparr>)"

definition status_of :: "string \<Rightarrow> ('r, 'c) job_system \<Rightarrow> job_status option" where
  "status_of job_id s = map_option jb_status (select_one jb_job_id job_id (jq_store (js_queue s)))"

abbreviation ended_ids :: "('r, 'c) job_system \<Rightarrow> string list" where
  "ended_ids s \<equiv> map snd (jq_completed_order (js_queue s))"

text \<open>A record says where its job is.\<close>

definition located :: "('r, 'c) job_system \<Rightarrow> string \<Rightarrow> bool" where
  "located s job_id \<longleftrightarrow>
     (status_of job_id s = Some JobPending \<longleftrightarrow> job_id \<in> set (js_offered s) \<union> set (js_waiting s)) \<and>
     (status_of job_id s = Some JobRunning \<longleftrightarrow> job_id \<in> set (js_active s)) \<and>
     (status_of job_id s \<in> {Some JobDone, Some JobError} \<longleftrightarrow> job_id \<in> set (ended_ids s))"

definition live_ids :: "('r, 'c) job_system \<Rightarrow> string list" where
  "live_ids s = js_offered s @ js_waiting s @ js_active s @ js_cleaning s"

definition job_inv :: "('r, 'c) job_system \<Rightarrow> bool" where
  "job_inv s \<longleftrightarrow> keyed jb_job_id (jq_store (js_queue s)) \<and> (\<forall>job_id. located s job_id) \<and>
     distinct (live_ids s) \<and> distinct (ended_ids s) \<and>
     set (live_ids s) \<union> set (ended_ids s) \<subseteq> js_used s \<and>
     dom (map_of (jq_contexts (js_queue s))) = set (live_ids s) \<and>
     jq_pending_count (js_queue s) = int (length (js_offered s @ js_waiting s)) \<and>
     jq_running_count (js_queue s) = int (length (js_active s)) \<and>
     length (js_active s) + length (js_cleaning s) \<le> jq_max_workers (js_queue s)"

subsection \<open>The sections keep the invariant\<close>

lemma select_one_filter:
  "(\<And>r. jb_job_id r = k \<Longrightarrow> p r = b) \<Longrightarrow> select_one jb_job_id k (filter p store) = (if b then select_one jb_job_id k store else None)"
  by (induction store) auto

lemma keyed_filter: "keyed key rows \<Longrightarrow> keyed key (filter p rows)"
  by (induction rows) (auto simp: keyed_def)

lemma sweep_loop_effect:
  "\<exists>n. sweep_loop cutoff order store =
     (drop n order, filter (\<lambda>r. jb_job_id r \<notin> set (map snd (take n order))) store) \<and>
     (\<forall>(t, j)\<in>set (take n order). t < cutoff)"
proof (induction cutoff order store rule: sweep_loop.induct)
  case (2 cutoff completed_at job_id order store)
  show ?case
  proof (cases "completed_at < cutoff")
    case True
    then obtain n where n: "sweep_loop cutoff order (drop_job job_id store) =
       (drop n order, filter (\<lambda>r. jb_job_id r \<notin> set (map snd (take n order))) (drop_job job_id store))"
       "\<forall>(t, j)\<in>set (take n order). t < cutoff" using 2 by blast
    then show ?thesis using True by (intro exI [of _ "Suc n"]) (auto simp: drop_job_def intro: filter_cong)
  next
    case False
    then show ?thesis by (intro exI [of _ 0]) simp
  qed
qed (auto intro: exI [of _ 0])

lemma sweep_expired_effect:
  "\<exists>n. sweep_expired now q = q\<lparr>jq_completed_order := drop n (jq_completed_order q),
     jq_store := filter (\<lambda>r. jb_job_id r \<notin> set (map snd (take n (jq_completed_order q)))) (jq_store q)\<rparr>"
proof (cases "jq_retention_seconds q < 0")
  case True
  then show ?thesis by (intro exI [of _ 0]) (simp add: sweep_expired_def)
next
  case False
  then show ?thesis using sweep_loop_effect [of "now - jq_retention_seconds q * 1000000" "jq_completed_order q" "jq_store q"]
    by (auto simp: sweep_expired_def)
qed

lemma job_inv_sweep:
  assumes "job_inv s"
  shows "job_inv (s\<lparr>js_queue := sweep_expired now (js_queue s)\<rparr>)"
proof -
  let ?q = "js_queue s"
  obtain n where n: "sweep_expired now ?q = ?q\<lparr>jq_completed_order := drop n (jq_completed_order ?q),
     jq_store := filter (\<lambda>r. jb_job_id r \<notin> set (map snd (take n (jq_completed_order ?q)))) (jq_store ?q)\<rparr>"
    using sweep_expired_effect by blast
  let ?gone = "set (map snd (take n (jq_completed_order ?q)))"
  have ended: "ended_ids s = map snd (take n (jq_completed_order ?q)) @ map snd (drop n (jq_completed_order ?q))"
    by (simp flip: map_append)
  then have split: "set (ended_ids s) = ?gone \<union> set (map snd (drop n (jq_completed_order ?q)))"
    and disj: "?gone \<inter> set (map snd (drop n (jq_completed_order ?q))) = {}"
    and dist: "distinct (map snd (drop n (jq_completed_order ?q)))"
    using assms by (auto simp: job_inv_def simp del: map_append)
  have "located (s\<lparr>js_queue := sweep_expired now ?q\<rparr>) j" for j
  proof -
    have l: "located s j" using assms by (simp add: job_inv_def)
    have "status_of j (s\<lparr>js_queue := sweep_expired now ?q\<rparr>) = (if j \<in> ?gone then None else status_of j s)"
      by (simp add: n status_of_def select_one_filter [where b = "j \<notin> ?gone"])
    then show ?thesis using l split disj by (auto simp: located_def n)
  qed
  then show ?thesis using assms split dist by (auto simp: job_inv_def n keyed_filter live_ids_def)
qed

lemma job_inv_start_ok:
  assumes "job_inv s" and "job_id \<in> set (js_offered s) \<union> set (js_waiting s)"
  shows "\<exists>r carrier. select_one jb_job_id job_id (jq_store (js_queue s)) = Some r \<and> jb_status r = JobPending \<and>
    map_of (jq_contexts (js_queue s)) job_id = Some carrier"
proof -
  have "located s job_id" "job_id \<in> dom (map_of (jq_contexts (js_queue s)))"
    using assms by (auto simp: job_inv_def live_ids_def)
  then show ?thesis using assms(2) by (auto simp: located_def status_of_def)
qed

lemma job_inv_finish_ok:
  assumes "job_inv s" and "job_id \<in> set (js_active s)"
  shows "\<exists>r. select_one jb_job_id job_id (jq_store (js_queue s)) = Some r \<and> jb_status r = JobRunning"
proof -
  have "located s job_id" using assms by (simp add: job_inv_def)
  then show ?thesis using assms(2) by (auto simp: located_def status_of_def)
qed

lemma status_fresh: "job_inv s \<Longrightarrow> job_id \<notin> js_used s \<Longrightarrow> status_of job_id s = None"
proof -
  assume inv: "job_inv s" and "job_id \<notin> js_used s"
  then have "job_id \<notin> set (live_ids s) \<union> set (ended_ids s)" "located s job_id" by (auto simp: job_inv_def)
  then show ?thesis by (cases "status_of job_id s"; cases "the (status_of job_id s)") (auto simp: located_def live_ids_def)
qed

lemma job_inv_offer:
  assumes "job_inv s" and "job_id \<notin> js_used s"
  shows "job_inv (s\<lparr>js_queue := add_job job_id ty carrier now (js_queue s), js_offered := js_offered s @ [job_id],
    js_used := insert job_id (js_used s)\<rparr>)" (is "job_inv ?s'")
proof -
  let ?s1 = "s\<lparr>js_queue := sweep_expired now (js_queue s)\<rparr>"
  have inv: "job_inv ?s1" by (rule job_inv_sweep [OF assms(1)])
  have fresh: "job_id \<notin> set (live_ids ?s1) \<union> set (ended_ids ?s1)"
    using inv assms(2) by (auto simp: job_inv_def)
  have "status_of j ?s' = (if j = job_id then Some JobPending else status_of j ?s1)" for j
    by (simp add: status_of_def add_job_def Let_def table_simps)
  then have "located ?s' j" for j
    using inv fresh by (auto simp: job_inv_def located_def add_job_def Let_def live_ids_def)
  moreover have "keyed jb_job_id (jq_store (js_queue ?s'))"
    using inv by (simp add: job_inv_def add_job_def Let_def table_simps)
  ultimately show ?thesis using inv fresh by (auto simp: job_inv_def add_job_def Let_def live_ids_def update_conv')
qed

lemma length_remove1_in: "x \<in> set xs \<Longrightarrow> length xs = Suc (length (remove1 x xs))"
  using length_pos_if_in_set [of x xs] by (simp add: length_remove1)

lemma job_inv_submit:
  assumes "job_inv s" and "job_id \<in> set (js_offered s)"
  shows "job_inv (s\<lparr>js_offered := remove1 job_id (js_offered s), js_waiting := js_waiting s @ [job_id]\<rparr>)" (is "job_inv ?s'")
proof -
  have d: "distinct (js_offered s)" using assms(1) by (simp add: job_inv_def live_ids_def)
  have "located ?s' j" for j
    using assms d by (auto simp: job_inv_def located_def status_of_def)
  then show ?thesis using assms d length_remove1_in [OF assms(2)] by (auto simp: job_inv_def live_ids_def)
qed

lemma job_inv_refuse:
  assumes "job_inv s" and "job_id \<in> set (js_offered s)"
  shows "job_inv (s\<lparr>js_queue := undo_job job_id (js_queue s), js_offered := remove1 job_id (js_offered s)\<rparr>)" (is "job_inv ?s'")
proof -
  have d: "distinct (live_ids s)" "distinct (js_offered s)" using assms(1) by (auto simp: job_inv_def live_ids_def)
  have "located s job_id" using assms(1) by (simp add: job_inv_def)
  then have out: "job_id \<notin> set (ended_ids s)" "status_of job_id s = Some JobPending" using assms(2) by (auto simp: located_def)
  have "status_of j ?s' = (if j = job_id then None else status_of j s)" for j
    by (simp add: status_of_def undo_job_def drop_job_def select_one_filter [where b = "j \<noteq> job_id"])
  then have "located ?s' j" for j
    using assms d out by (auto simp: job_inv_def located_def live_ids_def undo_job_def)
  then show ?thesis using assms d length_remove1_in [OF assms(2)]
    by (auto simp: job_inv_def live_ids_def undo_job_def drop_job_def keyed_filter delete_conv' dom_def)
qed

lemma job_inv_start:
  assumes "job_inv s" and "js_waiting s = job_id # rest"
    and "length (js_active s) + length (js_cleaning s) < jq_max_workers (js_queue s)"
    and "start_job job_id (js_queue s) = Some (carrier, q)"
  shows "job_inv (s\<lparr>js_queue := q, js_waiting := rest, js_active := js_active s @ [job_id]\<rparr>)" (is "job_inv ?s'")
proof -
  have q: "q = (js_queue s)\<lparr>jq_store := update_where (\<lambda>r. jb_job_id r = job_id) (\<lambda>r. r\<lparr>jb_status := JobRunning\<rparr>) (jq_store (js_queue s)),
      jq_pending_count := jq_pending_count (js_queue s) - 1, jq_running_count := jq_running_count (js_queue s) + 1\<rparr>"
    using assms(4) by (auto simp: start_job_def split: option.splits)
  obtain r where r: "select_one jb_job_id job_id (jq_store (js_queue s)) = Some r" "jb_status r = JobPending"
    using job_inv_start_ok [OF assms(1), of job_id] assms(2) by auto
  have d: "distinct (live_ids s)" "located s job_id" using assms(1) by (auto simp: job_inv_def)
  then have out: "job_id \<notin> set (ended_ids s)" using assms(2) by (auto simp: located_def)
  have "status_of j ?s' = (if j = job_id then Some JobRunning else status_of j s)" for j
    using r select_one_SomeD [of jb_job_id j "jq_store (js_queue s)"]
    by (cases "select_one jb_job_id j (jq_store (js_queue s))") (auto simp: status_of_def q table_simps)
  then have "located ?s' j" for j
    using assms(1,2) d out by (auto simp: job_inv_def located_def live_ids_def q)
  then show ?thesis using assms d by (auto simp: job_inv_def live_ids_def q table_simps)
qed

lemma outcome_record_simps [simp]:
  "jb_job_id (outcome_record outcome r) = jb_job_id r" "jb_status (outcome_record outcome r) \<in> {JobDone, JobError}"
  by (cases outcome; simp)+

lemma job_inv_finish:
  assumes "job_inv s" and "job_id \<in> set (js_active s)" and "finish_job job_id outcome now (js_queue s) = Some q"
  shows "job_inv (s\<lparr>js_queue := q, js_active := remove1 job_id (js_active s), js_cleaning := js_cleaning s @ [job_id]\<rparr>)"
    (is "job_inv ?s'")
proof -
  have q: "q = finish_locked job_id now ((js_queue s)\<lparr>jq_store := update_where (\<lambda>r. jb_job_id r = job_id) (outcome_record outcome) (jq_store (js_queue s))\<rparr>)"
    using assms(3) by (auto simp: finish_job_def split: option.splits)
  obtain r where r: "select_one jb_job_id job_id (jq_store (js_queue s)) = Some r" "jb_status r = JobRunning"
    using job_inv_finish_ok [OF assms(1,2)] by blast
  have d: "distinct (live_ids s)" "located s job_id" using assms(1) by (auto simp: job_inv_def)
  then have out: "job_id \<notin> set (ended_ids s)" "job_id \<notin> set (js_offered s) \<union> set (js_waiting s)"
    using assms(2) by (auto simp: located_def)
  define st where "st = jb_status (outcome_record outcome r)"
  have st: "st = JobDone \<or> st = JobError" using outcome_record_simps(2) [of outcome r] by (simp add: st_def)
  have "status_of j ?s' = (if j = job_id then Some st else status_of j s)" for j
    using r select_one_SomeD [of jb_job_id j "jq_store (js_queue s)"]
    by (cases "select_one jb_job_id j (jq_store (js_queue s))") (auto simp: status_of_def q finish_locked_def table_simps st_def)
  then have "located ?s' j" for j
    using assms(1,2) d out st by (auto simp: job_inv_def located_def live_ids_def q finish_locked_def)
  then show ?thesis using assms(1,2) d out length_remove1_in [OF assms(2)]
    by (auto simp: job_inv_def live_ids_def q finish_locked_def table_simps)
qed

lemma job_inv_clean:
  assumes "job_inv s" and "job_id \<in> set (js_cleaning s)"
  shows "job_inv (s\<lparr>js_queue := forget_context job_id (js_queue s), js_cleaning := remove1 job_id (js_cleaning s)\<rparr>)" (is "job_inv ?s'")
proof -
  have d: "distinct (live_ids s)" using assms(1) by (simp add: job_inv_def)
  have "located ?s' j" for j
    using assms(1) by (simp add: job_inv_def located_def status_of_def forget_context_def)
  then show ?thesis using assms d length_remove1_in [OF assms(2)]
    by (auto simp: job_inv_def live_ids_def forget_context_def delete_conv' dom_def)
qed

lemma job_inv_step: "job_inv s \<Longrightarrow> job_step s s' \<Longrightarrow> job_inv s'"
  by (erule job_step.cases)
    (auto intro: job_inv_offer job_inv_submit job_inv_refuse job_inv_start job_inv_finish job_inv_clean)

subsection \<open>The life of a job\<close>

fun job_rank :: "job_status option \<Rightarrow> nat" where
  "job_rank (Some JobPending) = 0"
| "job_rank (Some JobRunning) = 1"
| "job_rank (Some JobDone) = 2"
| "job_rank (Some JobError) = 2"
| "job_rank None = 3"

definition record_of :: "string \<Rightarrow> ('r, 'c) job_system \<Rightarrow> 'r job_record option" where
  "record_of job_id s = select_one jb_job_id job_id (jq_store (js_queue s))"

lemma status_of_record: "status_of job_id s = map_option jb_status (record_of job_id s)"
  by (simp add: status_of_def record_of_def)

definition job_le :: "('r, 'c) job_system \<Rightarrow> ('r, 'c) job_system \<Rightarrow> bool" where
  "job_le s s' \<longleftrightarrow> js_used s \<subseteq> js_used s' \<and>
     (\<forall>j\<in>js_used s. job_rank (status_of j s) \<le> job_rank (status_of j s') \<and>
        (job_rank (status_of j s) = job_rank (status_of j s') \<longrightarrow> record_of j s' = record_of j s))"

lemma job_leI:
  assumes "js_used s \<subseteq> js_used s'"
    and "\<And>j. j \<in> js_used s \<Longrightarrow> record_of j s' = record_of j s \<or> job_rank (status_of j s) < job_rank (status_of j s')"
  shows "job_le s s'"
  using assms unfolding job_le_def status_of_record by (metis less_imp_le less_irrefl order_refl)

lemma job_le_offer:
  assumes "job_inv s" and "job_id \<notin> js_used s"
  shows "job_le s (s\<lparr>js_queue := add_job job_id ty carrier now (js_queue s), js_offered := js_offered s @ [job_id],
    js_used := insert job_id (js_used s)\<rparr>)" (is "job_le s ?s'")
proof (rule job_leI)
  fix j assume j: "j \<in> js_used s"
  let ?q = "js_queue s"
  obtain n where n: "sweep_expired now ?q = ?q\<lparr>jq_completed_order := drop n (jq_completed_order ?q),
     jq_store := filter (\<lambda>r. jb_job_id r \<notin> set (map snd (take n (jq_completed_order ?q)))) (jq_store ?q)\<rparr>"
    using sweep_expired_effect by blast
  let ?gone = "set (map snd (take n (jq_completed_order ?q)))"
  have rec: "record_of j ?s' = (if j \<in> ?gone then None else record_of j s)"
    using j assms(2) by (auto simp: record_of_def add_job_def n Let_def table_simps select_one_filter [where b = "j \<notin> ?gone"])
  have "job_rank (status_of j s) < 3" if "j \<in> ?gone"
  proof -
    have "j \<in> set (ended_ids s)" using that by (auto dest: in_set_takeD)
    moreover have "located s j" using assms(1) by (simp add: job_inv_def)
    ultimately show ?thesis by (auto simp: located_def)
  qed
  then show "record_of j ?s' = record_of j s \<or> job_rank (status_of j s) < job_rank (status_of j ?s')"
    using rec by (auto simp: status_of_record)
qed auto

lemma record_update_where:
  assumes "\<And>r. jb_job_id (f r) = jb_job_id r"
  shows "select_one jb_job_id j (update_where (\<lambda>r. jb_job_id r = job_id) f store) =
    (if j = job_id then map_option f (select_one jb_job_id j store) else select_one jb_job_id j store)"
  using assms select_one_SomeD [of jb_job_id j store]
  by (cases "select_one jb_job_id j store") (auto simp: table_simps)

lemma job_le_step: "job_inv s \<Longrightarrow> job_step s s' \<Longrightarrow> job_le s s'"
proof (erule job_step.cases, goal_cases)
  case (1 job_id s1 ty carrier now)
  then show ?case by (auto intro: job_le_offer)
next
  case (2 job_id s1)
  then show ?case by (auto intro!: job_leI simp: record_of_def)
next
  case (3 job_id s1)
  have "located s job_id" using 3 by (simp add: job_inv_def)
  then have "status_of job_id s = Some JobPending" using 3 by (auto simp: located_def)
  then show ?case using 3
    by (intro job_leI) (auto simp: record_of_def undo_job_def drop_job_def status_of_def select_one_filter [where b = "_ \<noteq> job_id"])
next
  case (4 s1 job_id rest carrier q)
  obtain r where "select_one jb_job_id job_id (jq_store (js_queue s)) = Some r" "jb_status r = JobPending"
    using job_inv_start_ok [of s job_id] 4 by auto
  then show ?case using 4
    by (intro job_leI) (auto simp: record_of_def start_job_def status_of_def record_update_where split: option.splits)
next
  case (5 job_id s1 outcome now q)
  obtain r where "select_one jb_job_id job_id (jq_store (js_queue s)) = Some r" "jb_status r = JobRunning"
    using job_inv_finish_ok [of s job_id] 5 by auto
  moreover have "job_rank (Some (jb_status (outcome_record outcome r))) = 2" by (cases outcome) auto
  ultimately show ?case using 5
    by (intro job_leI) (auto simp: record_of_def finish_job_def finish_locked_def status_of_def record_update_where split: option.splits)
next
  case (6 job_id s1)
  then show ?case by (auto intro!: job_leI simp: record_of_def forget_context_def)
qed

interpretation job_lives: evolving job_inv job_step job_le
proof
  show "job_le s s'" if "job_inv s" "job_step s s'" for s s' :: "('a, 'b) job_system"
    using that by (rule job_le_step)
  show "job_le s s''" if "job_le s s'" "job_le s' s''" for s s' s'' :: "('a, 'b) job_system"
    using that unfolding job_le_def by (metis (no_types, lifting) le_antisym order_trans subsetD)
qed (auto intro: job_inv_step simp: job_le_def)

definition idle_system :: "nat \<Rightarrow> int \<Rightarrow> ('r, 'c) job_system" where
  "idle_system workers retention =
     \<lparr>js_queue = new_queue workers retention, js_offered = [], js_waiting = [], js_active = [], js_cleaning = [], js_used = {}\<rparr>"

lemma job_inv_idle [simp]: "job_inv (idle_system workers retention)"
  by (simp add: job_inv_def idle_system_def new_queue_def located_def status_of_def live_ids_def)

lemma status_count:
  assumes "keyed jb_job_id store" and "distinct ids"
    and "\<And>j. map_option jb_status (select_one jb_job_id j store) = Some st \<longleftrightarrow> j \<in> set ids"
  shows "length (filter (\<lambda>r. jb_status r = st) store) = length ids"
proof -
  let ?rows = "filter (\<lambda>r. jb_status r = st) store"
  have "j \<in> set (map jb_job_id ?rows) \<longleftrightarrow> j \<in> set ids" for j
    using assms(3) [of j] select_one_keyed [OF assms(1)] select_one_SomeD [of jb_job_id j store] by fastforce
  moreover have "distinct (map jb_job_id ?rows)" using keyed_filter [OF assms(1)] by (simp add: keyed_def)
  ultimately have "length (map jb_job_id ?rows) = length ids"
    using assms(2) by (metis distinct_card set_eqI subset_antisym)
  then show ?thesis by simp
qed

text \<open>
  C38. The counters of the queue are exact and no worker fails on the queue's own state. In every
  interleaving of submissions, refusals, workers and sweeps, the reported pending and running numbers are those of
  the records with that status, no more jobs run than there are workers, and the record and the
  context of every waiting or running job are still there when its worker looks them up: a sweep never
  takes an unfinished job.
\<close>

theorem queue_counters_exact:
  assumes "job_step\<^sup>*\<^sup>* (idle_system workers retention) s"
  shows "sn_pending (queue_stats (js_queue s)) = int (length (filter (\<lambda>r. jb_status r = JobPending) (jq_store (js_queue s)))) \<and>
    sn_running (queue_stats (js_queue s)) = int (length (filter (\<lambda>r. jb_status r = JobRunning) (jq_store (js_queue s)))) \<and>
    sn_running (queue_stats (js_queue s)) \<le> int (sn_workers (queue_stats (js_queue s))) \<and>
    (\<forall>j\<in>set (js_waiting s). start_job j (js_queue s) \<noteq> None) \<and>
    (\<forall>j\<in>set (js_active s). finish_job j outcome now (js_queue s) \<noteq> None)"
proof -
  have inv: "job_inv s" using job_lives.reachable_evolves [OF assms] by simp
  then have k: "keyed jb_job_id (jq_store (js_queue s))" and d: "distinct (js_offered s @ js_waiting s)" "distinct (js_active s)"
    and l: "\<And>j. located s j" by (auto simp: job_inv_def live_ids_def)
  have "length (filter (\<lambda>r. jb_status r = JobPending) (jq_store (js_queue s))) = length (js_offered s @ js_waiting s)"
    using l by (intro status_count [OF k d(1)]) (auto simp: located_def status_of_def)
  moreover have "length (filter (\<lambda>r. jb_status r = JobRunning) (jq_store (js_queue s))) = length (js_active s)"
    using l by (intro status_count [OF k d(2)]) (auto simp: located_def status_of_def)
  moreover have "\<forall>j\<in>set (js_waiting s). start_job j (js_queue s) \<noteq> None"
    using job_inv_start_ok [OF inv] by (fastforce simp: start_job_def)
  moreover have "\<forall>j\<in>set (js_active s). finish_job j outcome now (js_queue s) \<noteq> None"
    using job_inv_finish_ok [OF inv] by (fastforce simp: finish_job_def)
  ultimately show ?thesis using inv by (auto simp: job_inv_def queue_stats_def)
qed

text \<open>
  Jobs only go forward. Whatever happens after a state of the queue, a job known there is never back
  in an earlier phase (pending, running, finished, forgotten), and a finished job that is still
  recorded has the very same record, result and error included.
\<close>

theorem jobs_go_forward:
  assumes "job_step\<^sup>*\<^sup>* (idle_system workers retention) s" and "job_step\<^sup>*\<^sup>* s s'" and "j \<in> js_used s"
  shows "job_rank (status_of j s) \<le> job_rank (status_of j s') \<and>
    (status_of j s \<in> {Some JobDone, Some JobError} \<longrightarrow> status_of j s' \<noteq> None \<longrightarrow> record_of j s' = record_of j s)"
proof -
  have "job_inv s" using job_lives.reachable_evolves [OF assms(1)] by simp
  then have le: "job_le s s'" using job_lives.reachable_evolves [OF assms(2)] by simp
  have "job_rank st = 2 \<or> st = None" if "2 \<le> job_rank st" for st using that by (cases st rule: job_rank.cases) auto
  with le assms(3) show ?thesis unfolding job_le_def by fastforce
qed

subsection \<open>Samples\<close>

definition sample_offered :: "(nat, unit) job_system" where
  "sample_offered = (let s = idle_system 1 60 in s\<lparr>js_queue := add_job ''a'' ''echo'' () 0 (js_queue s),
     js_offered := js_offered s @ [''a''], js_used := insert ''a'' (js_used s)\<rparr>)"

definition sample_waiting :: "(nat, unit) job_system" where
  "sample_waiting = sample_offered\<lparr>js_offered := remove1 ''a'' (js_offered sample_offered), js_waiting := js_waiting sample_offered @ [''a'']\<rparr>"

definition sample_running :: "(nat, unit) job_system" where
  "sample_running = sample_waiting\<lparr>js_queue := snd (the (start_job ''a'' (js_queue sample_waiting))), js_waiting := [],
     js_active := js_active sample_waiting @ [''a'']\<rparr>"

lemma sample_steps_jobs: "job_step (idle_system 1 60) sample_offered" "job_step sample_offered sample_waiting" "job_step sample_waiting sample_running"
proof -
  show "job_step (idle_system 1 60) sample_offered"
    unfolding sample_offered_def Let_def by (rule job_step.offer) (simp add: idle_system_def)
  show "job_step sample_offered sample_waiting"
    unfolding sample_waiting_def by (rule job_step.submit) (simp add: sample_offered_def Let_def)
  have "js_waiting sample_waiting = [''a'']" "length (js_active sample_waiting) + length (js_cleaning sample_waiting) < jq_max_workers (js_queue sample_waiting)"
    "start_job ''a'' (js_queue sample_waiting) \<noteq> None"
    by (simp_all add: sample_waiting_def sample_offered_def idle_system_def new_queue_def add_job_def sweep_expired_def upsert_row_def start_job_def Let_def)
  then show "job_step sample_waiting sample_running"
    unfolding sample_running_def by (intro job_step.start [where carrier = "()"]) (auto simp: prod_eq_iff)
qed

lemma sample_running_reachable:
  "job_step\<^sup>*\<^sup>* (idle_system 1 60) sample_waiting" "job_step\<^sup>*\<^sup>* (idle_system 1 60) sample_running"
  using sample_steps_jobs by (meson r_into_rtranclp rtranclp_trans)+

theorem queue_counters_exact_witness:
  "sn_running (queue_stats (js_queue sample_running)) =
     int (length (filter (\<lambda>r. jb_status r = JobRunning) (jq_store (js_queue sample_running)))) \<and>
   sn_running (queue_stats (js_queue sample_running)) = 1"
  using queue_counters_exact [OF sample_running_reachable(2), of "Returned 0" 0]
  by (simp add: sample_running_def sample_waiting_def sample_offered_def idle_system_def new_queue_def add_job_def sweep_expired_def
      upsert_row_def start_job_def queue_stats_def Let_def)

theorem jobs_go_forward_witness:
  "job_rank (status_of ''a'' sample_waiting) \<le> job_rank (status_of ''a'' sample_running) \<and> status_of ''a'' sample_running = Some JobRunning"
proof -
  have "''a'' \<in> js_used sample_waiting" by (simp add: sample_waiting_def sample_offered_def Let_def)
  moreover have "status_of ''a'' sample_running = Some JobRunning"
    by (simp add: status_of_def sample_running_def sample_waiting_def sample_offered_def idle_system_def new_queue_def add_job_def
        sweep_expired_def upsert_row_def start_job_def update_where_def Let_def)
  moreover have "job_step\<^sup>*\<^sup>* sample_waiting sample_running" using sample_steps_jobs(3) by blast
  ultimately show ?thesis using jobs_go_forward [OF sample_running_reachable(1)] by blast
qed

end
