(* ===== verification/Secret_Store.thy ===== *)
theory Secret_Store
  imports Secret_Redaction Sql_Table Flow_Monad
begin

text \<open>
  The secret store (\<^verbatim>\<open>backend/secret_store\<close>: \<^verbatim>\<open>contracts.py\<close>, \<^verbatim>\<open>store.py\<close>,
  \<^verbatim>\<open>crypto.py\<close> and \<^verbatim>\<open>service.py\<close>). A transaction of the store is a function on the list of its rows;
  instants are arguments, in microseconds. Encryption is the \<^verbatim>\<open>cryptography\<close> package: \<open>encrypt\<close>, which takes
  the random part of a token as its first argument, and \<open>decrypt\<close>, which is \<open>None\<close> for an invalid
  token, are parameters with the documented law that decryption under the same key inverts encryption.
\<close>

subsection \<open>References, versions and errors\<close>

record secret_reference =
  sr_tenant_id :: string
  sr_project :: string
  sr_name :: string

datatype secret_status = SecActive | SecSuperseded | SecRevoked

datatype secret_backend_kind = ENCRYPTED_DATABASE

record secret_row =
  se_reference :: secret_reference
  se_version :: nat
  se_ciphertext :: string
  se_status :: secret_status
  se_backend_kind :: secret_backend_kind
  se_created_at :: int
  se_rotated_at :: "int option"
  se_revoked_at :: "int option"

record secret_metadata =
  sm_reference :: secret_reference
  sm_version :: nat
  sm_status :: secret_status
  sm_backend_kind :: secret_backend_kind
  sm_created_at :: int
  sm_rotated_at :: "int option"
  sm_revoked_at :: "int option"

datatype secret_error =
    EmptyReferencePart string
  | SecretExists secret_reference
  | SecretNotFound secret_reference
  | SecretRevoked secret_reference "int option"
  | InvalidToken
  | MetadataVanished

definition make_reference :: "string \<Rightarrow> string \<Rightarrow> string \<Rightarrow> (secret_error, secret_reference) result" where
  "make_reference tenant project name =
     (if tenant = [] then Inl (EmptyReferencePart ''tenant_id'')
      else if project = [] then Inl (EmptyReferencePart ''project'')
      else if name = [] then Inl (EmptyReferencePart ''name'')
      else Inr \<lparr>sr_tenant_id = tenant, sr_project = project, sr_name = name\<rparr>)"

definition as_key :: "secret_reference \<Rightarrow> string" where
  "as_key r = sr_tenant_id r @ ''/'' @ sr_project r @ ''/'' @ sr_name r"

subsection \<open>The store\<close>

definition row_to_metadata :: "secret_row \<Rightarrow> secret_metadata" where
  "row_to_metadata r = \<lparr>sm_reference = se_reference r, sm_version = se_version r, sm_status = se_status r,
     sm_backend_kind = se_backend_kind r, sm_created_at = se_created_at r, sm_rotated_at = se_rotated_at r,
     sm_revoked_at = se_revoked_at r\<rparr>"

text \<open>\<open>ORDER BY version DESC LIMIT 1\<close>.\<close>

fun latest_row :: "secret_reference \<Rightarrow> secret_row list \<Rightarrow> secret_row option" where
  "latest_row ref [] = None"
| "latest_row ref (r # rows) =
     (if se_reference r \<noteq> ref then latest_row ref rows
      else case latest_row ref rows of
        None \<Rightarrow> Some r
      | Some b \<Rightarrow> if se_version r < se_version b then Some b else Some r)"

definition store_get_metadata :: "secret_reference \<Rightarrow> secret_row list \<Rightarrow> secret_metadata option" where
  "store_get_metadata ref rows = map_option row_to_metadata (latest_row ref rows)"

definition written_metadata :: "secret_reference \<Rightarrow> secret_row list \<Rightarrow> (secret_error, secret_metadata) result" where
  "written_metadata ref rows = (case store_get_metadata ref rows of None \<Rightarrow> Inl MetadataVanished | Some m \<Rightarrow> Inr m)"

definition new_version :: "secret_reference \<Rightarrow> nat \<Rightarrow> string \<Rightarrow> int \<Rightarrow> secret_row" where
  "new_version ref version ciphertext now =
     \<lparr>se_reference = ref, se_version = version, se_ciphertext = ciphertext, se_status = SecActive,
      se_backend_kind = ENCRYPTED_DATABASE, se_created_at = now, se_rotated_at = None, se_revoked_at = None\<rparr>"

definition store_create :: "secret_reference \<Rightarrow> string \<Rightarrow> int \<Rightarrow> (secret_error, secret_metadata, secret_row list) action" where
  "store_create ref ciphertext now rows =
     (if latest_row ref rows \<noteq> None then (Inl (SecretExists ref), rows)
      else let rows' = rows @ [new_version ref 1 ciphertext now] in (written_metadata ref rows', rows'))"

definition is_version :: "secret_reference \<Rightarrow> nat \<Rightarrow> secret_row \<Rightarrow> bool" where
  "is_version ref version r = (se_reference r = ref \<and> se_version r = version)"

definition store_rotate :: "secret_reference \<Rightarrow> string \<Rightarrow> int \<Rightarrow> (secret_error, secret_metadata, secret_row list) action" where
  "store_rotate ref ciphertext now rows =
     (case latest_row ref rows of
        None \<Rightarrow> (Inl (SecretNotFound ref), rows)
      | Some current \<Rightarrow>
          let rows' = update_where (is_version ref (se_version current))
                (\<lambda>r. r\<lparr>se_status := SecSuperseded, se_rotated_at := Some now\<rparr>) rows @
              [new_version ref (se_version current + 1) ciphertext now]
          in (written_metadata ref rows', rows'))"

definition store_revoke :: "secret_reference \<Rightarrow> int \<Rightarrow> (secret_error, secret_metadata, secret_row list) action" where
  "store_revoke ref now rows =
     (case latest_row ref rows of
        None \<Rightarrow> (Inl (SecretNotFound ref), rows)
      | Some current \<Rightarrow>
          let rows' = update_where (is_version ref (se_version current))
                (\<lambda>r. r\<lparr>se_status := SecRevoked, se_revoked_at := Some now\<rparr>) rows
          in (written_metadata ref rows', rows'))"

definition resolve_latest_active :: "secret_reference \<Rightarrow> secret_row list \<Rightarrow> (secret_error, string \<times> secret_metadata) result" where
  "resolve_latest_active ref rows =
     (case latest_row ref rows of
        None \<Rightarrow> Inl (SecretNotFound ref)
      | Some row \<Rightarrow>
          if se_status row = SecRevoked then Inl (SecretRevoked ref (se_revoked_at row))
          else Inr (se_ciphertext row, row_to_metadata row))"

text \<open>The latest version of every reference of a tenant, in no particular order.\<close>

definition store_list_metadata :: "string \<Rightarrow> string option \<Rightarrow> secret_row list \<Rightarrow> secret_metadata list" where
  "store_list_metadata tenant project rows =
     map row_to_metadata (filter (\<lambda>r. sr_tenant_id (se_reference r) = tenant \<and>
       (case project of None \<Rightarrow> True | Some p \<Rightarrow> sr_project (se_reference r) = p) \<and>
       (\<forall>b\<in>set rows. se_reference b = se_reference r \<longrightarrow> se_version b \<le> se_version r)) rows)"

subsection \<open>The service\<close>

record secret_event =
  sv_type :: string
  sv_reference :: secret_reference
  sv_version :: nat
  sv_actor_id :: string
  sv_secret_ref :: string

record secret_world =
  sw_rows :: "secret_row list"
  sw_live :: "string list"
  sw_events :: "secret_event list"

type_synonym 'a secret_action = "(secret_error, 'a, secret_world) action"

type_synonym encryption = "string \<Rightarrow> string \<Rightarrow> string"
type_synonym decryption = "string \<Rightarrow> string option"

record secret_handle =
  sh_reference :: secret_reference
  sh_value :: string
  sh_metadata :: secret_metadata

definition in_secrets :: "(secret_error, 'a, secret_row list) action \<Rightarrow> 'a secret_action" where
  "in_secrets m w = (let (r, rows) = m (sw_rows w) in (r, w\<lparr>sw_rows := rows\<rparr>))"

definition audit_secret :: "string \<Rightarrow> secret_metadata \<Rightarrow> string \<Rightarrow> unit secret_action" where
  "audit_secret ty metadata actor = modify_a (\<lambda>w. w\<lparr>sw_events := sw_events w @
     [\<lparr>sv_type = ty, sv_reference = sm_reference metadata, sv_version = sm_version metadata, sv_actor_id = actor,
       sv_secret_ref = as_key (sm_reference metadata)\<rparr>]\<rparr>)"

definition audited :: "string \<Rightarrow> string \<Rightarrow> (secret_error, secret_metadata, secret_row list) action \<Rightarrow> secret_metadata secret_action" where
  "audited ty actor m = bind_a (in_secrets m) (\<lambda>metadata. then_a (audit_secret ty metadata actor) (return_a metadata))"

definition service_create :: "encryption \<Rightarrow> secret_reference \<Rightarrow> string \<Rightarrow> string \<Rightarrow> string \<Rightarrow> int \<Rightarrow> secret_metadata secret_action" where
  "service_create encrypt ref value actor nonce now = audited ''secret.created'' actor (store_create ref (encrypt nonce value) now)"

definition service_rotate :: "encryption \<Rightarrow> secret_reference \<Rightarrow> string \<Rightarrow> string \<Rightarrow> string \<Rightarrow> int \<Rightarrow> secret_metadata secret_action" where
  "service_rotate encrypt ref value actor nonce now = audited ''secret.rotated'' actor (store_rotate ref (encrypt nonce value) now)"

definition service_revoke :: "secret_reference \<Rightarrow> string \<Rightarrow> int \<Rightarrow> secret_metadata secret_action" where
  "service_revoke ref actor now = audited ''secret.revoked'' actor (store_revoke ref now)"

definition decrypt_secret_value :: "decryption \<Rightarrow> string \<Rightarrow> (secret_error, string) result" where
  "decrypt_secret_value decrypt ciphertext = (case decrypt ciphertext of None \<Rightarrow> Inl InvalidToken | Some v \<Rightarrow> Inr v)"

definition resolve_for_injection :: "decryption \<Rightarrow> secret_reference \<Rightarrow> string \<Rightarrow> secret_handle secret_action" where
  "resolve_for_injection decrypt ref actor =
     bind_a (gets_a (\<lambda>w. resolve_latest_active ref (sw_rows w))) (\<lambda>found.
     bind_a (lift_a found) (\<lambda>(ciphertext, metadata).
     bind_a (lift_a (decrypt_secret_value decrypt ciphertext)) (\<lambda>value.
     then_a (modify_a (\<lambda>w. w\<lparr>sw_live := register_live_secret_value value (sw_live w)\<rparr>))
     (then_a (audit_secret ''secret.resolved'' metadata actor)
       (return_a \<lparr>sh_reference = ref, sh_value = value, sh_metadata = metadata\<rparr>)))))"

text \<open>What the encryption promises: a token decrypts, under the key it was made with, to its value.\<close>

definition fernet_ok :: "encryption \<Rightarrow> decryption \<Rightarrow> bool" where
  "fernet_ok encrypt decrypt \<longleftrightarrow> (\<forall>nonce value. decrypt (encrypt nonce value) = Some value)"

subsection \<open>The versions of a reference\<close>

definition versions_of :: "secret_reference \<Rightarrow> secret_row list \<Rightarrow> secret_row list" where
  "versions_of ref rows = filter (\<lambda>r. se_reference r = ref) rows"

definition version_numbered :: "secret_row list \<Rightarrow> bool" where
  "version_numbered vs \<longleftrightarrow> map se_version vs = [1..<Suc (length vs)]"

lemma versions_of_append [simp]:
  "versions_of ref (rows @ [r]) = versions_of ref rows @ (if se_reference r = ref then [r] else [])"
  by (simp add: versions_of_def)

lemma versions_of_update:
  assumes "\<And>r. se_reference (f r) = se_reference r"
  shows "versions_of ref (update_where p f rows) = update_where p f (versions_of ref rows)"
  by (induction rows) (auto simp: versions_of_def update_where_def assms)

lemma latest_row_versions: "latest_row ref rows = latest_row ref (versions_of ref rows)"
  by (induction rows) (auto simp: versions_of_def)

lemma latest_row_increasing:
  "\<forall>r\<in>set vs. se_reference r = ref \<Longrightarrow> sorted_wrt (<) (map se_version vs) \<Longrightarrow>
   latest_row ref vs = (if vs = [] then None else Some (last vs))"
  by (induction vs) auto

lemma latest_row_last:
  assumes "version_numbered (versions_of ref rows)"
  shows "latest_row ref rows = (if versions_of ref rows = [] then None else Some (last (versions_of ref rows)))"
proof -
  have "sorted_wrt (<) (map se_version (versions_of ref rows))"
    using assms by (simp add: version_numbered_def del: upt_Suc)
  moreover have "\<forall>r\<in>set (versions_of ref rows). se_reference r = ref" by (simp add: versions_of_def)
  ultimately show ?thesis using latest_row_increasing latest_row_versions by metis
qed

lemma version_numbered_snoc: "version_numbered (vs @ [r]) \<longleftrightarrow> version_numbered vs \<and> se_version r = Suc (length vs)"
  by (simp add: version_numbered_def)

text \<open>An update of the latest version changes the last row only.\<close>

lemma update_latest:
  assumes "version_numbered vs" and "vs \<noteq> []" and "\<forall>r\<in>set vs. se_reference r = ref"
  shows "update_where (is_version ref (se_version (last vs))) f vs = butlast vs @ [f (last vs)]"
proof -
  obtain us r where vs: "vs = us @ [r]" using assms(2) by (metis append_butlast_last_id)
  have "se_version x \<noteq> se_version r" if "x \<in> set us" for x
  proof -
    have us: "map se_version us = [1..<Suc (length us)]" and r: "se_version r = Suc (length us)"
      using assms(1) unfolding vs version_numbered_snoc unfolding version_numbered_def by blast+
    have "se_version x \<in> set (map se_version us)" using that by simp
    then show ?thesis unfolding us r by auto
  qed
  then show ?thesis using assms(3) by (auto simp: vs update_where_def is_version_def intro!: map_idI)
qed

lemma update_other: "ref' \<noteq> ref \<Longrightarrow> update_where (is_version ref v) f (versions_of ref' rows) = versions_of ref' rows"
  by (auto simp: update_where_def is_version_def versions_of_def intro!: map_idI)

subsection \<open>The specification\<close>

text \<open>
  A secret as its users see it: the values it has had, and the instant at which the current one was
  revoked. The operations carry what the service takes from its surroundings.
\<close>

type_synonym secret_spec = "secret_reference \<Rightarrow> string list \<times> int option"

datatype secret_op =
    CreateSecret secret_reference string string string int
  | RotateSecret secret_reference string string string int
  | RevokeSecret secret_reference string int
  | ResolveSecret secret_reference string

datatype secret_answer = Written nat secret_status | Resolved string

fun spec_secret :: "secret_op \<Rightarrow> secret_spec \<Rightarrow> (secret_error, secret_answer) result \<times> secret_spec" where
  "spec_secret (CreateSecret ref v actor nonce now) s =
     (if fst (s ref) \<noteq> [] then (Inl (SecretExists ref), s) else (Inr (Written 1 SecActive), s(ref := ([v], None))))"
| "spec_secret (RotateSecret ref v actor nonce now) s =
     (if fst (s ref) = [] then (Inl (SecretNotFound ref), s)
      else (Inr (Written (Suc (length (fst (s ref)))) SecActive), s(ref := (fst (s ref) @ [v], None))))"
| "spec_secret (RevokeSecret ref actor now) s =
     (if fst (s ref) = [] then (Inl (SecretNotFound ref), s)
      else (Inr (Written (length (fst (s ref))) SecRevoked), s(ref := (fst (s ref), Some now))))"
| "spec_secret (ResolveSecret ref actor) s =
     (if fst (s ref) = [] then Inl (SecretNotFound ref)
      else case snd (s ref) of Some t \<Rightarrow> Inl (SecretRevoked ref (Some t)) | None \<Rightarrow> Inr (Resolved (last (fst (s ref)))), s)"

definition answer :: "('a \<Rightarrow> 'b) \<Rightarrow> ('e, 'a) result \<times> 'w \<Rightarrow> ('e, 'b) result \<times> 'w" where
  "answer f p = (map_sum id f (fst p), snd p)"

definition written :: "secret_metadata \<Rightarrow> secret_answer" where
  "written m = Written (sm_version m) (sm_status m)"

fun do_secret :: "encryption \<Rightarrow> decryption \<Rightarrow> secret_op \<Rightarrow> secret_world \<Rightarrow> (secret_error, secret_answer) result \<times> secret_world" where
  "do_secret enc dec (CreateSecret ref v actor nonce now) w = answer written (service_create enc ref v actor nonce now w)"
| "do_secret enc dec (RotateSecret ref v actor nonce now) w = answer written (service_rotate enc ref v actor nonce now w)"
| "do_secret enc dec (RevokeSecret ref actor now) w = answer written (service_revoke ref actor now w)"
| "do_secret enc dec (ResolveSecret ref actor) w = answer (\<lambda>h. Resolved (sh_value h)) (resolve_for_injection dec ref actor w)"

text \<open>The rows of one reference against its specification: numbered from one, all but the last superseded.\<close>

definition represents :: "decryption \<Rightarrow> secret_row list \<Rightarrow> string list \<times> int option \<Rightarrow> bool" where
  "represents dec vs a \<longleftrightarrow> version_numbered vs \<and> map (\<lambda>r. dec (se_ciphertext r)) vs = map Some (fst a) \<and>
     (\<forall>r\<in>set (butlast vs). se_status r = SecSuperseded) \<and>
     (vs \<noteq> [] \<longrightarrow> (case snd a of
        None \<Rightarrow> se_status (last vs) = SecActive
      | Some t \<Rightarrow> se_status (last vs) = SecRevoked \<and> se_revoked_at (last vs) = Some t))"

definition secrets_rel :: "decryption \<Rightarrow> secret_world \<Rightarrow> secret_spec \<Rightarrow> bool" where
  "secrets_rel dec w s \<longleftrightarrow> (\<forall>ref. represents dec (versions_of ref (sw_rows w)) (s ref))"

lemma represents_length: "represents dec vs a \<Longrightarrow> length (fst a) = length vs"
  unfolding represents_def by (metis length_map)

lemma represents_empty: "represents dec vs a \<Longrightarrow> fst a = [] \<longleftrightarrow> vs = []"
  using represents_length by fastforce

subsection \<open>Refinement\<close>

text \<open>An implementation whose every operation answers as its specification and keeps a relation to it.\<close>

locale answers_alike =
  fixes impl :: "'q \<Rightarrow> 's \<Rightarrow> 'r \<times> 's" and spec :: "'q \<Rightarrow> 'a \<Rightarrow> 'r \<times> 'a" and rel :: "'s \<Rightarrow> 'a \<Rightarrow> bool"
  assumes simulates: "rel s a \<Longrightarrow> fst (impl q s) = fst (spec q a) \<and> rel (snd (impl q s)) (snd (spec q a))"
begin

lemma all_answers_alike:
  "rel s a \<Longrightarrow> fst (run_all impl qs s) = fst (run_all spec qs a) \<and> rel (snd (run_all impl qs s)) (snd (run_all spec qs a))"
proof (induction qs arbitrary: s a)
  case (Cons q qs)
  from simulates [OF Cons.prems, of q] Cons.IH [of "snd (impl q s)" "snd (spec q a)"] show ?case
    by (simp add: Let_def split_beta)
qed simp

end

lemma represents_latest:
  assumes "represents dec (versions_of ref rows) a"
  shows "latest_row ref rows = (if fst a = [] then None else Some (last (versions_of ref rows)))"
  using assms latest_row_last represents_empty by (metis represents_def)

lemma represents_update:
  assumes "represents dec (versions_of ref rows) a" and "fst a \<noteq> []" and "\<And>r. se_reference (f r) = se_reference r"
  shows "versions_of ref (update_where (is_version ref (se_version (last (versions_of ref rows)))) f rows) =
    butlast (versions_of ref rows) @ [f (last (versions_of ref rows))]"
proof -
  have "versions_of ref rows \<noteq> []" using assms represents_empty by blast
  then show ?thesis
    using assms update_latest [of "versions_of ref rows" ref f]
    by (auto simp: versions_of_update represents_def) (simp add: versions_of_def)
qed

lemma versions_of_update_other:
  "ref' \<noteq> ref \<Longrightarrow> (\<And>r. se_reference (f r) = se_reference r) \<Longrightarrow>
   versions_of ref' (update_where (is_version ref v) f rows) = versions_of ref' rows"
  by (simp add: versions_of_update update_other)

lemma audited_effect:
  "audited ty actor m w = (case m (sw_rows w) of
     (Inl e, rows) \<Rightarrow> (Inl e, w\<lparr>sw_rows := rows\<rparr>)
   | (Inr metadata, rows) \<Rightarrow> (Inr metadata, snd (audit_secret ty metadata actor (w\<lparr>sw_rows := rows\<rparr>))))"
  by (simp add: audited_def bind_a_def then_a_def in_secrets_def audit_secret_def modify_a_def return_a_def Let_def
      split: prod.splits sum.splits)

lemma audit_secret_rows [simp]: "sw_rows (snd (audit_secret ty metadata actor w)) = sw_rows w"
  by (simp add: audit_secret_def modify_a_def)

lemma answered_rows:
  "fst (answer written (audited ty actor m w)) = map_sum id written (fst (m (sw_rows w)))"
  "sw_rows (snd (answer written (audited ty actor m w))) = snd (m (sw_rows w))"
  by (auto simp: answer_def audited_effect split: prod.splits sum.splits)

lemma rel_update:
  assumes "secrets_rel dec w s" and "represents dec (versions_of ref rows') a"
    and "\<And>ref'. ref' \<noteq> ref \<Longrightarrow> versions_of ref' rows' = versions_of ref' (sw_rows w)" and "sw_rows w' = rows'"
  shows "secrets_rel dec w' (s(ref := a))"
  using assms by (simp add: secrets_rel_def)

lemma written_latest:
  assumes "represents dec (versions_of ref rows) a" and "fst a \<noteq> []"
  shows "written_metadata ref rows = Inr (row_to_metadata (last (versions_of ref rows)))"
  using assms by (simp add: written_metadata_def store_get_metadata_def represents_latest)

lemma written_row [simp]: "written (row_to_metadata r) = Written (se_version r) (se_status r)"
  by (simp add: written_def row_to_metadata_def)

lemma new_version_simps [simp]:
  "se_reference (new_version ref n c now) = ref" "se_version (new_version ref n c now) = n"
  "se_ciphertext (new_version ref n c now) = c" "se_status (new_version ref n c now) = SecActive"
  by (simp_all add: new_version_def)

lemma create_simulates:
  assumes "fernet_ok enc dec" and "secrets_rel dec w s"
  shows "fst (do_secret enc dec (CreateSecret ref v actor nonce now) w) = fst (spec_secret (CreateSecret ref v actor nonce now) s) \<and>
    secrets_rel dec (snd (do_secret enc dec (CreateSecret ref v actor nonce now) w)) (snd (spec_secret (CreateSecret ref v actor nonce now) s))"
proof -
  have rep: "represents dec (versions_of ref (sw_rows w)) (s ref)" using assms(2) by (simp add: secrets_rel_def)
  show ?thesis
  proof (cases "fst (s ref) = []")
    case True
    let ?rows = "sw_rows w @ [new_version ref 1 (enc nonce v) now]"
    have "versions_of ref (sw_rows w) = []" using rep True represents_empty by blast
    then have new: "versions_of ref ?rows = [new_version ref 1 (enc nonce v) now]" by simp
    then have rep': "represents dec (versions_of ref ?rows) ([v], None)"
      using assms(1) by (simp add: represents_def version_numbered_def fernet_ok_def)
    have c: "store_create ref (enc nonce v) now (sw_rows w) = (Inr (row_to_metadata (new_version ref 1 (enc nonce v) now)), ?rows)"
      using True rep new written_latest [OF rep'] by (simp add: store_create_def represents_latest [OF rep])
    show ?thesis using True c
      by (auto simp: service_create_def answered_rows intro!: rel_update [OF assms(2) rep'])
  next
    case False
    then have c: "store_create ref (enc nonce v) now (sw_rows w) = (Inl (SecretExists ref), sw_rows w)"
      using rep by (simp add: store_create_def represents_latest [OF rep])
    then show ?thesis using False assms(2) by (simp add: service_create_def answered_rows secrets_rel_def)
  qed
qed

lemma rotate_simulates:
  assumes "fernet_ok enc dec" and "secrets_rel dec w s"
  shows "fst (do_secret enc dec (RotateSecret ref v actor nonce now) w) = fst (spec_secret (RotateSecret ref v actor nonce now) s) \<and>
    secrets_rel dec (snd (do_secret enc dec (RotateSecret ref v actor nonce now) w)) (snd (spec_secret (RotateSecret ref v actor nonce now) s))"
proof -
  let ?vs = "versions_of ref (sw_rows w)"
  have rep: "represents dec ?vs (s ref)" using assms(2) by (simp add: secrets_rel_def)
  show ?thesis
  proof (cases "fst (s ref) = []")
    case True
    then show ?thesis using rep assms(2)
      by (simp add: service_rotate_def answered_rows store_rotate_def represents_latest [OF rep] secrets_rel_def)
  next
    case False
    let ?f = "\<lambda>r. r\<lparr>se_status := SecSuperseded, se_rotated_at := Some now\<rparr>"
    let ?new = "new_version ref (se_version (last ?vs) + 1) (enc nonce v) now"
    let ?rows = "update_where (is_version ref (se_version (last ?vs))) ?f (sw_rows w) @ [?new]"
    obtain us r where vs: "?vs = us @ [r]" using rep False represents_empty by (metis append_butlast_last_id)
    have n: "version_numbered us" "se_version r = Suc (length us)" using rep unfolding represents_def vs version_numbered_snoc by blast+
    have new: "versions_of ref ?rows = us @ [?f r, ?new]" using represents_update [OF rep False, of ?f] vs by simp
    have rep': "represents dec (versions_of ref ?rows) (fst (s ref) @ [v], None)"
      using rep n assms(1) version_numbered_snoc [of us "?f r"] version_numbered_snoc [of "us @ [?f r]" ?new] unfolding new
      by (simp add: represents_def vs fernet_ok_def butlast_append)
    have c: "store_rotate ref (enc nonce v) now (sw_rows w) = (Inr (row_to_metadata ?new), ?rows)"
      using False rep new written_latest [OF rep'] by (simp add: store_rotate_def represents_latest [OF rep] Let_def)
    have "length us = length (fst (s ref)) - 1" using represents_length [OF rep] by (simp add: vs)
    then have "fst (do_secret enc dec (RotateSecret ref v actor nonce now) w) = fst (spec_secret (RotateSecret ref v actor nonce now) s)"
      using False c n(2) vs by (cases "fst (s ref)") (auto simp: service_rotate_def answered_rows)
    moreover have "secrets_rel dec (snd (do_secret enc dec (RotateSecret ref v actor nonce now) w)) (s(ref := (fst (s ref) @ [v], None)))"
      using c by (intro rel_update [OF assms(2) rep']) (auto simp: service_rotate_def answered_rows versions_of_update_other)
    ultimately show ?thesis using False by simp
  qed
qed

lemma revoke_simulates:
  assumes "secrets_rel dec w s"
  shows "fst (do_secret enc dec (RevokeSecret ref actor now) w) = fst (spec_secret (RevokeSecret ref actor now) s) \<and>
    secrets_rel dec (snd (do_secret enc dec (RevokeSecret ref actor now) w)) (snd (spec_secret (RevokeSecret ref actor now) s))"
proof -
  let ?vs = "versions_of ref (sw_rows w)"
  have rep: "represents dec ?vs (s ref)" using assms by (simp add: secrets_rel_def)
  show ?thesis
  proof (cases "fst (s ref) = []")
    case True
    then show ?thesis using rep assms
      by (simp add: service_revoke_def answered_rows store_revoke_def represents_latest [OF rep] secrets_rel_def)
  next
    case False
    let ?f = "\<lambda>r. r\<lparr>se_status := SecRevoked, se_revoked_at := Some now\<rparr>"
    let ?rows = "update_where (is_version ref (se_version (last ?vs))) ?f (sw_rows w)"
    obtain us r where vs: "?vs = us @ [r]" using rep False represents_empty by (metis append_butlast_last_id)
    have n: "version_numbered us" "se_version r = Suc (length us)" using rep unfolding represents_def vs version_numbered_snoc by blast+
    have new: "versions_of ref ?rows = us @ [?f r]" using represents_update [OF rep False, of ?f] vs by simp
    have rep': "represents dec (versions_of ref ?rows) (fst (s ref), Some now)"
      using rep n version_numbered_snoc [of us "?f r"] unfolding new by (simp add: represents_def vs)
    have c: "store_revoke ref now (sw_rows w) = (Inr (row_to_metadata (?f r)), ?rows)"
      using False rep new written_latest [OF rep'] by (simp add: store_revoke_def represents_latest [OF rep] Let_def)
    have "fst (do_secret enc dec (RevokeSecret ref actor now) w) = fst (spec_secret (RevokeSecret ref actor now) s)"
      using False c n(2) represents_length [OF rep] vs by (auto simp: service_revoke_def answered_rows)
    moreover have "secrets_rel dec (snd (do_secret enc dec (RevokeSecret ref actor now) w)) (s(ref := (fst (s ref), Some now)))"
      using c by (intro rel_update [OF assms rep']) (auto simp: service_revoke_def answered_rows versions_of_update_other)
    ultimately show ?thesis using False by simp
  qed
qed

lemma represents_resolve:
  assumes "represents dec (versions_of ref rows) a"
  shows "(case resolve_latest_active ref rows of Inl e \<Rightarrow> Inl e | Inr (c, m) \<Rightarrow> decrypt_secret_value dec c) =
    (if fst a = [] then Inl (SecretNotFound ref)
     else case snd a of Some t \<Rightarrow> Inl (SecretRevoked ref (Some t)) | None \<Rightarrow> Inr (last (fst a)))"
proof (cases "fst a = []")
  case False
  then have "versions_of ref rows \<noteq> []" using assms represents_empty by blast
  moreover from this have "dec (se_ciphertext (last (versions_of ref rows))) = Some (last (fst a))"
    using assms False unfolding represents_def by (metis last_map)
  ultimately show ?thesis using assms False
    by (auto simp: resolve_latest_active_def represents_latest [OF assms] represents_def decrypt_secret_value_def split: option.splits)
qed (use assms in \<open>simp add: resolve_latest_active_def represents_latest [OF assms]\<close>)

lemma resolve_effect:
  "map_sum id sh_value (fst (resolve_for_injection dec ref actor w)) =
     (case resolve_latest_active ref (sw_rows w) of Inl e \<Rightarrow> Inl e | Inr (c, m) \<Rightarrow> decrypt_secret_value dec c)"
  "sw_rows (snd (resolve_for_injection dec ref actor w)) = sw_rows w"
  by (auto simp: resolve_for_injection_def bind_a_def then_a_def gets_a_def lift_a_def modify_a_def audit_secret_def
      return_a_def split: sum.splits prod.splits)

lemma resolve_simulates:
  assumes "secrets_rel dec w s"
  shows "fst (do_secret enc dec (ResolveSecret ref actor) w) = fst (spec_secret (ResolveSecret ref actor) s) \<and>
    secrets_rel dec (snd (do_secret enc dec (ResolveSecret ref actor) w)) (snd (spec_secret (ResolveSecret ref actor) s))"
proof -
  have rep: "represents dec (versions_of ref (sw_rows w)) (s ref)" using assms by (simp add: secrets_rel_def)
  have "fst (do_secret enc dec (ResolveSecret ref actor) w) =
      map_sum id Resolved (map_sum id sh_value (fst (resolve_for_injection dec ref actor w)))"
    by (cases "fst (resolve_for_injection dec ref actor w)") (simp_all add: answer_def)
  then show ?thesis using assms unfolding resolve_effect represents_resolve [OF rep]
    by (auto simp: answer_def secrets_rel_def resolve_effect split: option.splits)
qed

interpretation secrets: answers_alike "do_secret enc dec" spec_secret "\<lambda>w s. fernet_ok enc dec \<and> secrets_rel dec w s" for enc dec
proof
  fix w s and q :: secret_op
  assume ok: "fernet_ok enc dec \<and> secrets_rel dec w s"
  note simulations = create_simulates [of enc dec w s] rotate_simulates [of enc dec w s]
    revoke_simulates [of dec w s] resolve_simulates [of dec w s]
  have "fst (do_secret enc dec q w) = fst (spec_secret q s) \<and> secrets_rel dec (snd (do_secret enc dec q w)) (snd (spec_secret q s))"
    by (cases q; hypsubst) (use ok simulations in blast)+
  with ok show "fst (do_secret enc dec q w) = fst (spec_secret q s) \<and>
      fernet_ok enc dec \<and> secrets_rel dec (snd (do_secret enc dec q w)) (snd (spec_secret q s))" by blast
qed

definition no_secrets :: "string list \<Rightarrow> secret_event list \<Rightarrow> secret_world" where
  "no_secrets live evs = \<lparr>sw_rows = [], sw_live = live, sw_events = evs\<rparr>"

lemma no_secrets_rel: "secrets_rel dec (no_secrets live evs) (\<lambda>_. ([], None))"
  by (simp add: secrets_rel_def no_secrets_def represents_def versions_of_def version_numbered_def)

text \<open>
  C10. The secret service implements, for every reference, the list of the values it has had: any
  sequence of operations is answered as the specification answers it, so a resolution gives the value
  written last and never an older one, a revoked reference resolves to nothing until it is rotated,
  and versions count the writes. The rows stay numbered from one, all but the last superseded.
\<close>

theorem secret_service_refines:
  assumes "fernet_ok enc dec"
  shows "fst (run_all (do_secret enc dec) ops (no_secrets live evs)) = fst (run_all spec_secret ops (\<lambda>_. ([], None))) \<and>
    secrets_rel dec (snd (run_all (do_secret enc dec) ops (no_secrets live evs))) (snd (run_all spec_secret ops (\<lambda>_. ([], None))))"
  using secrets.all_answers_alike [of enc dec "no_secrets live evs" "\<lambda>_. ([], None)" ops] assms no_secrets_rel by blast

definition sample_reference :: secret_reference where
  "sample_reference = \<lparr>sr_tenant_id = ''acme'', sr_project = ''default'', sr_name = ''TOKEN''\<rparr>"

text \<open>A cipher with the law: the token is the length of the random part, in unary, and the reversed value.\<close>

definition toy_encrypt :: encryption where "toy_encrypt nonce v = replicate (length nonce) CHR ''.'' @ ''|'' @ rev v"

definition toy_decrypt :: decryption where
  "toy_decrypt c = (case dropWhile (\<lambda>x. x = CHR ''.'') c of [] \<Rightarrow> None | b # v \<Rightarrow> Some (rev v))"

lemma toy_fernet_ok: "fernet_ok toy_encrypt toy_decrypt"
proof -
  have "dropWhile (\<lambda>x. x = CHR ''.'') (replicate n CHR ''.'' @ CHR ''|'' # v) = CHR ''|'' # v" for n v
    by (induction n) auto
  then show ?thesis by (simp add: fernet_ok_def toy_encrypt_def toy_decrypt_def)
qed

theorem secret_service_refines_witness:
  "fernet_ok toy_encrypt toy_decrypt \<and>
   fst (run_all (do_secret toy_encrypt toy_decrypt)
     [CreateSecret sample_reference ''v1'' ''u'' ''xx'' 1, RotateSecret sample_reference ''v2'' ''u'' ''y'' 2, ResolveSecret sample_reference ''env'',
      RevokeSecret sample_reference ''u'' 3, ResolveSecret sample_reference ''env''] (no_secrets [] [])) =
   [Inr (Written 1 SecActive), Inr (Written 2 SecActive), Inr (Resolved ''v2''), Inr (Written 2 SecRevoked),
    Inl (SecretRevoked sample_reference (Some 3))]"
proof -
  let ?ops = "[CreateSecret sample_reference ''v1'' ''u'' ''xx'' 1, RotateSecret sample_reference ''v2'' ''u'' ''y'' 2, ResolveSecret sample_reference ''env'',
      RevokeSecret sample_reference ''u'' 3, ResolveSecret sample_reference ''env'']"
  show ?thesis using toy_fernet_ok secret_service_refines [OF toy_fernet_ok, of ?ops "[]" "[]"] by simp
qed

text \<open>Every value that a resolution has handed out is registered for redaction.\<close>

lemma resolve_registers:
  "fst (resolve_for_injection dec ref actor w) = Inr h \<Longrightarrow>
   sw_live (snd (resolve_for_injection dec ref actor w)) = register_live_secret_value (sh_value h) (sw_live w)"
  by (auto simp: resolve_for_injection_def bind_a_def then_a_def gets_a_def lift_a_def modify_a_def audit_secret_def
      return_a_def split: sum.splits prod.splits)

end
