(* ===== verification/Artifacts.thy ===== *)
theory Artifacts
  imports Quota_Service Event_Store "HOL-Library.Sublist"
begin

text \<open>
  Artifacts (\<^verbatim>\<open>backend/artifacts\<close>: \<^verbatim>\<open>store.py\<close>, \<^verbatim>\<open>pointers.py\<close> and \<^verbatim>\<open>cleanup.py\<close>): the
  objects of the local file store, the table of pointers to them, the write that charges the tenant's storage quota,
  and the garbage collection. Bytes are characters. The root directory of the store is a tree without symbolic links,
  given by its files and directories as paths below the root; what the operating system does with one write (refuses
  it, breaks it off after some bytes, or completes it), the name of the temporary file, fresh identifiers and clock readings are
  arguments. A bucket is the name of a directory, as those of the kinds are. SHA-256 is the parameter \<open>digest\<close>. The
  MinIO client is not modelled beyond the guard of its signed links.
\<close>

subsection \<open>Kinds, keys and errors\<close>

datatype artifact_kind = KindPatch | KindValidation | KindRunExport | KindLog

fun artifact_kind_value :: "artifact_kind \<Rightarrow> string" where
  "artifact_kind_value KindPatch = ''patch''"
| "artifact_kind_value KindValidation = ''validation''"
| "artifact_kind_value KindRunExport = ''run-export''"
| "artifact_kind_value KindLog = ''log''"

fun bucket_for :: "artifact_kind \<Rightarrow> string" where
  "bucket_for KindPatch = ''patch-artifacts''"
| "bucket_for KindValidation = ''validation-artifacts''"
| "bucket_for KindRunExport = ''run-exports''"
| "bucket_for KindLog = ''logs''"

definition all_bucket_names :: "string list" where
  "all_bucket_names = map bucket_for [KindPatch, KindValidation, KindRunExport, KindLog]"

datatype artifact_error =
    InvalidObjectKey
  | EscapesBucket
  | OsError
  | QuotaFailed quota_error
  | PointerError store_error
  | PointerVanished
  | TenantBlank
  | NotTenantScoped
  | BadExpiry
  | RetentionOverflow

fun join_with :: "char \<Rightarrow> string list \<Rightarrow> string" where
  "join_with c [] = []"
| "join_with c [p] = p"
| "join_with c (p # q # ps) = p @ c # join_with c (q # ps)"

text \<open>\<open>PurePosixPath(key).parts\<close>: empty parts and single dots are dropped.\<close>

definition path_part :: "string \<Rightarrow> bool" where
  "path_part p \<longleftrightarrow> p \<noteq> [] \<and> p \<noteq> ''.''"

definition posix_parts :: "string \<Rightarrow> string list" where
  "posix_parts key =
     (let slashes = length (takeWhile (\<lambda>c. c = CHR ''/'') key)
      in (if slashes = 0 then [] else if slashes = 2 then [''//''] else [''/'']) @
         filter path_part (split_on (CHR ''/'') key))"

definition validate_object_key :: "string \<Rightarrow> (artifact_error, string) result" where
  "validate_object_key object_key =
     (let key = strip object_key
      in if key = [] \<or> prefix ''/'' key \<or> (\<exists>part\<in>set (posix_parts key). part \<in> {[], ''.'', ''..''}) \<or> CHR 0x5C \<in> set key
         then Inl InvalidObjectKey else Inr key)"

definition validate_tenant_scope :: "string \<Rightarrow> string \<Rightarrow> (artifact_error, unit) result" where
  "validate_tenant_scope key tenant_id =
     (let tenant = strip tenant_id
      in if tenant = [] then Inl TenantBlank
         else if \<not> prefix (tenant @ ''/'') key then Inl NotTenantScoped else Inr ())"

text \<open>The signed link of the MinIO store; the client signs.\<close>

definition get_presigned_url :: "(string \<Rightarrow> string \<Rightarrow> int \<Rightarrow> string) \<Rightarrow> string \<Rightarrow> string \<Rightarrow> string \<Rightarrow> int \<Rightarrow> (artifact_error, string) result" where
  "get_presigned_url sign bucket object_key tenant_id expires_in =
     bind_r (validate_object_key object_key) (\<lambda>key.
     bind_r (validate_tenant_scope key tenant_id) (\<lambda>_.
       if expires_in \<le> 0 then Inl BadExpiry else Inr (sign bucket key expires_in)))"

subsection \<open>The local store\<close>

record stored_file =
  fl_path :: "string list"
  fl_payload :: string
  fl_mtime :: int

record local_store =
  fs_files :: "stored_file list"
  fs_dirs :: "string list list"

datatype write_outcome = WriteOk | WriteRefused | WriteTorn nat

record write_io =
  wi_outcome :: write_outcome
  wi_temp_name :: string
  wi_now :: int
  wi_record_id :: string

record artifact_pointer =
  ap_bucket :: string
  ap_object_key :: string
  ap_sha256 :: string
  ap_size_bytes :: nat
  ap_content_type :: string

definition file_at :: "string list \<Rightarrow> local_store \<Rightarrow> stored_file option" where
  "file_at p s = select_one fl_path p (fs_files s)"

definition write_file :: "string list \<Rightarrow> string \<Rightarrow> int \<Rightarrow> local_store \<Rightarrow> local_store" where
  "write_file p payload now s =
     s\<lparr>fs_files := upsert_row fl_path \<lparr>fl_path = p, fl_payload = payload, fl_mtime = now\<rparr> (fs_files s)\<rparr>"

definition lineage :: "string list \<Rightarrow> string list list" where
  "lineage p = filter (\<lambda>q. q \<noteq> []) (prefixes p)"

text \<open>
  The payload goes to a temporary file beside the target, which then replaces the target. A failed
  write, or a target that is a directory, leaves the temporary file behind.
\<close>

definition put_artifact :: "(string \<Rightarrow> string) \<Rightarrow> write_io \<Rightarrow> artifact_kind \<Rightarrow> string \<Rightarrow> string \<Rightarrow> string \<Rightarrow>
    (artifact_error, artifact_pointer, local_store) action" where
  "put_artifact digest io kind object_key payload content_type s =
     (let bucket = bucket_for kind
      in case validate_object_key object_key of
           Inl e \<Rightarrow> (Inl e, s)
         | Inr key \<Rightarrow>
             (let target = bucket # posix_parts key; parent = butlast target; temp = parent @ [wi_temp_name io];
                  made = s\<lparr>fs_dirs := fs_dirs s @ filter (\<lambda>d. d \<notin> set (fs_dirs s)) (lineage parent)\<rparr>
              in if \<not> prefix [bucket] target then (Inl EscapesBucket, s)
                 else if \<exists>d\<in>set (lineage parent). file_at d s \<noteq> None then (Inl OsError, s)
                 else case wi_outcome io of
                        WriteRefused \<Rightarrow> (Inl OsError, made)
                      | WriteTorn n \<Rightarrow> (Inl OsError, write_file temp (take n payload) (wi_now io) made)
                      | WriteOk \<Rightarrow>
                          if target \<in> set (fs_dirs made) then (Inl OsError, write_file temp payload (wi_now io) made)
                          else (Inr \<lparr>ap_bucket = bucket, ap_object_key = key, ap_sha256 = digest payload,
                                    ap_size_bytes = length payload, ap_content_type = content_type\<rparr>,
                                write_file target payload (wi_now io) made)))"

definition get_artifact :: "string \<Rightarrow> string \<Rightarrow> local_store \<Rightarrow> (artifact_error, string) result" where
  "get_artifact bucket object_key s =
     bind_r (validate_object_key object_key) (\<lambda>key.
       let target = bucket # posix_parts key
       in if \<not> prefix [bucket] target then Inl EscapesBucket
          else case file_at target s of None \<Rightarrow> Inl OsError | Some f \<Rightarrow> Inr (fl_payload f))"

subsection \<open>The table of pointers\<close>

record stored_artifact =
  ar_id :: string
  ar_tenant_id :: string
  ar_kind :: string
  ar_bucket :: string
  ar_object_key :: string
  ar_sha256 :: string
  ar_size_bytes :: nat
  ar_content_type :: string
  ar_created_at :: int
  ar_context :: payload

definition object_of :: "stored_artifact \<Rightarrow> string \<times> string" where
  "object_of r = (ar_bucket r, ar_object_key r)"

definition find_by_key :: "string \<Rightarrow> string \<Rightarrow> string \<Rightarrow> stored_artifact list \<Rightarrow> stored_artifact option" where
  "find_by_key bucket key tenant rows = List.find (\<lambda>r. object_of r = (bucket, key) \<and> ar_tenant_id r = tenant) rows"

definition get_pointer :: "string \<Rightarrow> string \<Rightarrow> stored_artifact list \<Rightarrow> stored_artifact option" where
  "get_pointer ident tenant rows = List.find (\<lambda>r. ar_id r = ident \<and> ar_tenant_id r = tenant) rows"

text \<open>The upsert keeps the identifier of a known object.\<close>

definition record_pointer :: "string \<Rightarrow> int \<Rightarrow> artifact_pointer \<Rightarrow> artifact_kind \<Rightarrow> string \<Rightarrow> payload \<Rightarrow>
    (artifact_error, stored_artifact, stored_artifact list) action" where
  "record_pointer ident now p kind tenant context rows =
     (case json_payload context of
        None \<Rightarrow> (Inl (PointerError NotSerializable), rows)
      | Some ctx \<Rightarrow>
          (let row = (\<lambda>i. \<lparr>ar_id = i, ar_tenant_id = tenant, ar_kind = artifact_kind_value kind, ar_bucket = ap_bucket p,
                 ar_object_key = ap_object_key p, ar_sha256 = ap_sha256 p, ar_size_bytes = ap_size_bytes p,
                 ar_content_type = ap_content_type p, ar_created_at = now, ar_context = ctx\<rparr>);
               stored = (\<lambda>rows'. case find_by_key (ap_bucket p) (ap_object_key p) tenant rows' of
                 None \<Rightarrow> (Inl PointerVanished, rows') | Some r \<Rightarrow> (Inr r, rows'))
           in if \<exists>r\<in>set rows. object_of r = (ap_bucket p, ap_object_key p)
              then stored (update_where (\<lambda>r. object_of r = (ap_bucket p, ap_object_key p)) (\<lambda>r. row (ar_id r)) rows)
              else if \<exists>r\<in>set rows. ar_id r = ident then (Inl (PointerError (IntegrityError ''id'')), rows)
              else stored (rows @ [row ident])))"

definition list_pointers :: "string \<Rightarrow> artifact_kind option \<Rightarrow> int \<Rightarrow> stored_artifact list \<Rightarrow> stored_artifact list" where
  "list_pointers tenant kind limit rows =
     (let found = sort_key (\<lambda>r. - ar_created_at r) (filter (\<lambda>r. ar_tenant_id r = tenant \<and>
            (case kind of None \<Rightarrow> True | Some k \<Rightarrow> ar_kind r = artifact_kind_value k)) rows)
      in if limit < 0 then found else take (nat limit) found)"

definition delete_pointer :: "string \<Rightarrow> string \<Rightarrow> stored_artifact list \<Rightarrow> bool \<times> stored_artifact list" where
  "delete_pointer ident tenant rows =
     (let hit = (\<lambda>r. ar_id r = ident \<and> ar_tenant_id r = tenant)
      in (filter hit rows \<noteq> [], filter (\<lambda>r. \<not> hit r) rows))"

definition referenced_object_keys :: "string option \<Rightarrow> stored_artifact list \<Rightarrow> string list" where
  "referenced_object_keys bucket rows =
     map ar_object_key (filter (\<lambda>r. case bucket of None \<Rightarrow> True | Some b \<Rightarrow> ar_bucket r = b) rows)"

subsection \<open>Writes against the quota\<close>

record artifact_world =
  aw_quota :: quota_world
  aw_store :: local_store
  aw_pointers :: "stored_artifact list"

type_synonym 'a artifact_action = "(artifact_error, 'a, artifact_world) action"

definition on_quota :: "'a quota_action \<Rightarrow> 'a artifact_action" where
  "on_quota m w = (let (r, q) = m (aw_quota w) in (map_sum QuotaFailed id r, w\<lparr>aw_quota := q\<rparr>))"

definition on_store :: "(artifact_error, 'a, local_store) action \<Rightarrow> 'a artifact_action" where
  "on_store m w = (let (r, s) = m (aw_store w) in (r, w\<lparr>aw_store := s\<rparr>))"

definition on_pointers :: "(artifact_error, 'a, stored_artifact list) action \<Rightarrow> 'a artifact_action" where
  "on_pointers m w = (let (r, rows) = m (aw_pointers w) in (r, w\<lparr>aw_pointers := rows\<rparr>))"

definition persist_artifact :: "quota_settings \<Rightarrow> (string \<Rightarrow> string) \<Rightarrow> write_io \<Rightarrow> artifact_kind \<Rightarrow> string \<Rightarrow> string \<Rightarrow> string \<Rightarrow>
    string \<Rightarrow> payload \<Rightarrow> stored_artifact artifact_action" where
  "persist_artifact st digest io kind object_key payload content_type tenant context =
     bind_a (on_quota (service_reserve_storage st tenant (int (length payload)) object_key (wi_now io))) (\<lambda>reservation.
       case (rv_granted reservation, rv_reservation_id reservation) of
         (True, Some rid) \<Rightarrow>
           try_a
             (bind_a (on_store (put_artifact digest io kind object_key payload content_type)) (\<lambda>pointer.
              bind_a (on_pointers (record_pointer (wi_record_id io) (wi_now io) pointer kind tenant context)) (\<lambda>stored.
                return_a (pointer, stored))))
             (\<lambda>(pointer, stored). then_a (on_quota (service_commit_storage rid (int (ap_size_bytes pointer)))) (return_a stored))
             (\<lambda>e. then_a (on_quota (service_release_storage rid)) (raise_a e))
       | _ \<Rightarrow>
           bind_a (on_quota (resolve_policy_a st tenant)) (\<lambda>policy.
             raise_a (QuotaFailed (QuotaExceeded STORAGE_BYTES LIMIT_EXCEEDED (int (length payload)) (tp_max_storage_bytes policy)))))"

subsection \<open>Garbage collection\<close>

record object_info =
  oi_bucket :: string
  oi_object_key :: string
  oi_size_bytes :: nat
  oi_last_modified :: int

record cleanup_result =
  cr_removed :: "object_info list"
  cr_scanned_count :: nat
  cr_dry_run :: bool

definition below :: "string \<Rightarrow> stored_file \<Rightarrow> bool" where
  "below bucket f \<longleftrightarrow> strict_prefix [bucket] (fl_path f)"

definition iter_local_objects :: "string \<Rightarrow> local_store \<Rightarrow> object_info list" where
  "iter_local_objects bucket s =
     (if [bucket] \<notin> set (fs_dirs s) then []
      else map (\<lambda>f. \<lparr>oi_bucket = bucket, oi_object_key = join_with (CHR ''/'') (tl (fl_path f)),
             oi_size_bytes = length (fl_payload f), oi_last_modified = fl_mtime f\<rparr>) (filter (below bucket) (fs_files s)))"

definition iter_all_objects :: "local_store \<Rightarrow> object_info list" where
  "iter_all_objects s = concat (map (\<lambda>bucket. iter_local_objects bucket s) all_bucket_names)"

definition delete_object :: "string \<Rightarrow> string \<Rightarrow> local_store \<Rightarrow> local_store" where
  "delete_object bucket object_key s = s\<lparr>fs_files := filter (\<lambda>f. fl_path f \<noteq> bucket # posix_parts object_key) (fs_files s)\<rparr>"

fun cleanup_loop :: "int \<Rightarrow> string list \<Rightarrow> bool \<Rightarrow> int \<Rightarrow> object_info list \<Rightarrow> local_store \<Rightarrow> object_info list \<times> local_store" where
  "cleanup_loop older_than referenced dry_run reference [] s = ([], s)"
| "cleanup_loop older_than referenced dry_run reference (info # infos) s =
     (if oi_object_key info \<in> set referenced then cleanup_loop older_than referenced dry_run reference infos s
      else if reference - oi_last_modified info < older_than then cleanup_loop older_than referenced dry_run reference infos s
      else let (removed, s') = cleanup_loop older_than referenced dry_run reference infos
                 (if dry_run then s else delete_object (oi_bucket info) (oi_object_key info) s)
           in (info # removed, s'))"

definition cleanup_orphaned_artifacts :: "int \<Rightarrow> string list \<Rightarrow> bool \<Rightarrow> int \<Rightarrow> local_store \<Rightarrow> cleanup_result \<times> local_store" where
  "cleanup_orphaned_artifacts older_than referenced dry_run reference s =
     (let (removed, s') = cleanup_loop older_than referenced dry_run reference (iter_all_objects s) s
      in (\<lparr>cr_removed = removed, cr_scanned_count = length (iter_all_objects s), cr_dry_run = dry_run\<rparr>, s'))"

text \<open>\<open>timedelta(days=days)\<close> raises beyond 999999999 days.\<close>

definition cleanup_unreferenced_artifacts :: "int \<Rightarrow> bool \<Rightarrow> int \<Rightarrow> stored_artifact list \<Rightarrow> (artifact_error, cleanup_result, local_store) action" where
  "cleanup_unreferenced_artifacts days dry_run reference rows s =
     (if days < 0 then (Inr \<lparr>cr_removed = [], cr_scanned_count = 0, cr_dry_run = dry_run\<rparr>, s)
      else if 999999999 < days then (Inl RetentionOverflow, s)
      else let (res, s') = cleanup_orphaned_artifacts (days * MICROS_PER_DAY) (referenced_object_keys None rows) dry_run reference s
           in (Inr res, s'))"

subsection \<open>Paths\<close>

definition legal_part :: "string \<Rightarrow> bool" where
  "legal_part p \<longleftrightarrow> p \<notin> {[], ''.'', ''..''} \<and> CHR ''/'' \<notin> set p"

lemma split_on_nonempty [simp]: "split_on c s \<noteq> []"
  by (cases s) (auto split: list.splits)

lemma split_on_parts: "p \<in> set (split_on c s) \<Longrightarrow> c \<notin> set p"
proof (induction s arbitrary: p)
  case (Cons x s)
  then show ?case by (cases "split_on c s") (auto split: if_splits)
qed simp

lemma split_on_plain: "c \<notin> set p \<Longrightarrow> split_on c p = [p]"
  by (induction p) auto

lemma split_on_join: "c \<notin> set p \<Longrightarrow> split_on c (p @ c # s) = p # split_on c s"
  by (induction p) auto

lemma split_join: "ps \<noteq> [] \<Longrightarrow> \<forall>p\<in>set ps. c \<notin> set p \<Longrightarrow> split_on c (join_with c ps) = ps"
  by (induction c ps rule: join_with.induct) (auto simp: split_on_plain split_on_join)

lemma join_split: "join_with c (split_on c s) = s"
proof (induction s)
  case (Cons x s)
  obtain p ps where "split_on c s = p # ps" by (cases "split_on c s") auto
  then show ?case using Cons by (cases ps) auto
qed simp

lemma posix_parts_relative: "\<not> prefix ''/'' key \<Longrightarrow> posix_parts key = filter path_part (split_on (CHR ''/'') key)"
  by (cases key) (auto simp: posix_parts_def)

lemma join_relative: "\<forall>p\<in>set ps. legal_part p \<Longrightarrow> \<not> prefix ''/'' (join_with (CHR ''/'') ps)"
proof (induction "CHR ''/''" ps rule: join_with.induct)
  case (2 p)
  then show ?case by (cases p) (auto simp: legal_part_def)
next
  case (3 p q ps)
  then show ?case by (cases p) (auto simp: legal_part_def)
qed simp

lemma posix_parts_join: "\<forall>p\<in>set ps. legal_part p \<Longrightarrow> posix_parts (join_with (CHR ''/'') ps) = ps"
proof -
  assume legal: "\<forall>p\<in>set ps. legal_part p"
  then have "filter path_part ps = ps" by (auto simp: filter_id_conv legal_part_def path_part_def)
  moreover have "ps \<noteq> [] \<Longrightarrow> split_on (CHR ''/'') (join_with (CHR ''/'') ps) = ps"
    using legal by (intro split_join) (auto simp: legal_part_def)
  moreover have "posix_parts [] = []" by (simp add: posix_parts_def path_part_def)
  ultimately show ?thesis using posix_parts_relative [OF join_relative [OF legal]] by (cases "ps = []") auto
qed

lemma validated_key:
  assumes "validate_object_key k = Inr key"
  shows "key = strip k" and "\<not> prefix ''/'' key" and "\<forall>p\<in>set (posix_parts key). legal_part p"
proof -
  have v: "key = strip k" "\<not> prefix ''/'' key" "\<forall>p\<in>set (posix_parts key). p \<notin> {[], ''.'', ''..''}"
    using assms by (auto simp: validate_object_key_def Let_def split: if_splits)
  then show "key = strip k" "\<not> prefix ''/'' key" by auto
  show "\<forall>p\<in>set (posix_parts key). legal_part p"
    using v split_on_parts [of _ "CHR ''/''" key] by (auto simp: legal_part_def posix_parts_relative)
qed

lemma strip_idem: "strip (strip s) = strip s"
proof -
  let ?d = "dropWhile is_space s"
  let ?e = "rev (dropWhile is_space (rev ?d))"
  have "?d = ?e @ rev (takeWhile is_space (rev ?d))" by (metis rev_append rev_rev_ident takeWhile_dropWhile_id)
  then have "?e \<noteq> [] \<Longrightarrow> hd ?e = hd ?d \<and> ?d \<noteq> []" by (metis append_is_Nil_conv hd_append2)
  then have "?e \<noteq> [] \<Longrightarrow> \<not> is_space (hd ?e)" by (metis hd_dropWhile)
  moreover have "(e \<noteq> [] \<Longrightarrow> \<not> is_space (hd e)) \<Longrightarrow> dropWhile is_space e = e" for e by (cases e) auto
  ultimately have "dropWhile is_space ?e = ?e" by blast
  then show ?thesis by (simp add: strip_def)
qed

subsection \<open>The tree of files\<close>

definition fs_ok :: "local_store \<Rightarrow> bool" where
  "fs_ok s \<longleftrightarrow> keyed fl_path (fs_files s) \<and> (\<forall>f\<in>set (fs_files s). \<forall>p\<in>set (fl_path f). legal_part p)"

lemma bucket_legal [simp]: "legal_part (bucket_for kind)"
  by (cases kind) (simp_all add: legal_part_def)

lemma write_file_ok: "fs_ok s \<Longrightarrow> \<forall>p\<in>set path. legal_part p \<Longrightarrow> fs_ok (write_file path payload now s)"
  by (auto simp: fs_ok_def write_file_def keyed_upsert dest!: set_upsert_row)

lemma fs_ok_dirs [simp]: "fs_ok (s\<lparr>fs_dirs := ds\<rparr>) = fs_ok s"
  by (simp add: fs_ok_def)

lemma file_at_write [simp]:
  "file_at p (write_file q payload now s) = (if p = q then Some \<lparr>fl_path = q, fl_payload = payload, fl_mtime = now\<rparr> else file_at p s)"
  by (simp add: file_at_def write_file_def table_simps)

lemma file_at_dirs [simp]: "file_at p (s\<lparr>fs_dirs := ds\<rparr>) = file_at p s"
  by (simp add: file_at_def)

lemma put_artifact_ok:
  assumes "fs_ok s" and "legal_part (wi_temp_name io)"
  shows "fs_ok (snd (put_artifact digest io kind key payload ct s))"
proof (cases "validate_object_key key")
  case (Inr k)
  have "\<forall>p\<in>set (butlast (bucket_for kind # posix_parts k)). legal_part p"
    using validated_key(3) [OF Inr] by (auto dest: in_set_butlastD)
  then show ?thesis using assms validated_key(3) [OF Inr]
    by (auto simp: put_artifact_def Inr Let_def split: write_outcome.splits intro!: write_file_ok)
qed (use assms in \<open>simp add: put_artifact_def\<close>)

text \<open>What was put is what is read back.\<close>

lemma get_put:
  assumes "put_artifact digest io kind key payload ct s = (Inr p, s')"
  shows "get_artifact (ap_bucket p) (ap_object_key p) s' = Inr payload" and "ap_bucket p = bucket_for kind"
    and "ap_object_key p = strip key" and "ap_sha256 p = digest payload" and "ap_size_bytes p = length payload"
proof -
  obtain k where k: "validate_object_key key = Inr k" using assms by (cases "validate_object_key key") (auto simp: put_artifact_def)
  have "strip (strip k') = strip k'" for k' by (rule strip_idem)
  then have "validate_object_key k = Inr k" using k by (auto simp: validate_object_key_def Let_def split: if_splits)
  then show "get_artifact (ap_bucket p) (ap_object_key p) s' = Inr payload"
    using assms k by (auto simp: put_artifact_def get_artifact_def bind_r_def Let_def split: if_splits write_outcome.splits)
  show "ap_bucket p = bucket_for kind" "ap_object_key p = strip key" "ap_sha256 p = digest payload" "ap_size_bytes p = length payload"
    using assms k validated_key(1) [OF k] by (auto simp: put_artifact_def Let_def split: if_splits write_outcome.splits)
qed

subsection \<open>What a sweep removes\<close>

definition garbage :: "int \<Rightarrow> string list \<Rightarrow> int \<Rightarrow> local_store \<Rightarrow> stored_file \<Rightarrow> bool" where
  "garbage older_than referenced reference s f \<longleftrightarrow>
     (\<exists>b\<in>set all_bucket_names. [b] \<in> set (fs_dirs s) \<and> below b f) \<and>
     join_with (CHR ''/'') (tl (fl_path f)) \<notin> set referenced \<and> older_than \<le> reference - fl_mtime f"

definition info_garbage :: "int \<Rightarrow> string list \<Rightarrow> int \<Rightarrow> object_info \<Rightarrow> bool" where
  "info_garbage older_than referenced reference i \<longleftrightarrow>
     oi_object_key i \<notin> set referenced \<and> older_than \<le> reference - oi_last_modified i"

definition info_path :: "object_info \<Rightarrow> string list" where
  "info_path i = oi_bucket i # posix_parts (oi_object_key i)"

definition info_of :: "string \<Rightarrow> stored_file \<Rightarrow> object_info" where
  "info_of bucket f = \<lparr>oi_bucket = bucket, oi_object_key = join_with (CHR ''/'') (tl (fl_path f)),
     oi_size_bytes = length (fl_payload f), oi_last_modified = fl_mtime f\<rparr>"

lemma cleanup_loop_removes:
  "cleanup_loop older_than referenced dry_run reference infos s =
     (filter (info_garbage older_than referenced reference) infos,
      if dry_run then s
      else s\<lparr>fs_files := filter (\<lambda>f. \<forall>i\<in>set infos. info_garbage older_than referenced reference i \<longrightarrow> fl_path f \<noteq> info_path i) (fs_files s)\<rparr>)"
  by (induction infos arbitrary: s)
    (auto simp: info_garbage_def info_path_def delete_object_def Let_def not_le intro!: filter_cong)

lemma in_iter_all:
  "i \<in> set (iter_all_objects s) \<longleftrightarrow>
   (\<exists>b\<in>set all_bucket_names. [b] \<in> set (fs_dirs s) \<and> (\<exists>f\<in>set (fs_files s). below b f \<and> i = info_of b f))"
  by (auto simp: iter_all_objects_def iter_local_objects_def info_of_def)

lemma info_path_of: "fs_ok s \<Longrightarrow> f \<in> set (fs_files s) \<Longrightarrow> below b f \<Longrightarrow> info_path (info_of b f) = fl_path f"
  by (cases "fl_path f") (auto simp: below_def info_path_def info_of_def fs_ok_def posix_parts_join strict_prefix_def)

lemma swept_iff_garbage:
  assumes "fs_ok s" and "f \<in> set (fs_files s)"
  shows "(\<exists>i\<in>set (iter_all_objects s). info_garbage older_than referenced reference i \<and> fl_path f = info_path i) \<longleftrightarrow>
    garbage older_than referenced reference s f"
proof
  assume "\<exists>i\<in>set (iter_all_objects s). info_garbage older_than referenced reference i \<and> fl_path f = info_path i"
  then obtain b g where g: "b \<in> set all_bucket_names" "[b] \<in> set (fs_dirs s)" "g \<in> set (fs_files s)" "below b g"
      "info_garbage older_than referenced reference (info_of b g)" "fl_path f = fl_path g"
    using info_path_of [OF assms(1)] by (auto simp: in_iter_all)
  have "f = g" using assms g(3,6) by (auto simp: fs_ok_def keyed_def dest: distinct_map [THEN iffD1] inj_onD)
  then show "garbage older_than referenced reference s f" using g by (auto simp: garbage_def info_garbage_def info_of_def)
next
  assume g: "garbage older_than referenced reference s f"
  then obtain b where b: "b \<in> set all_bucket_names" "[b] \<in> set (fs_dirs s)" "below b f" by (auto simp: garbage_def)
  have "info_of b f \<in> set (iter_all_objects s)" using b assms(2) by (auto simp: in_iter_all)
  moreover have "info_garbage older_than referenced reference (info_of b f)" using g by (simp add: garbage_def info_garbage_def info_of_def)
  ultimately show "\<exists>i\<in>set (iter_all_objects s). info_garbage older_than referenced reference i \<and> fl_path f = info_path i"
    using info_path_of [OF assms b(3)] by metis
qed

lemma cleanup_exact:
  assumes "fs_ok s"
  shows "cleanup_loop older_than referenced dry_run reference (iter_all_objects s) s =
     (filter (info_garbage older_than referenced reference) (iter_all_objects s),
      if dry_run then s else s\<lparr>fs_files := filter (\<lambda>f. \<not> garbage older_than referenced reference s f) (fs_files s)\<rparr>)"
proof -
  have "filter (\<lambda>f. \<forall>i\<in>set (iter_all_objects s). info_garbage older_than referenced reference i \<longrightarrow> fl_path f \<noteq> info_path i) (fs_files s) =
      filter (\<lambda>f. \<not> garbage older_than referenced reference s f) (fs_files s)"
    using swept_iff_garbage [OF assms] by (intro filter_cong) blast+
  then show ?thesis by (simp add: cleanup_loop_removes)
qed

text \<open>A key in the form in which the sweep sees it.\<close>

definition canonical_key :: "string \<Rightarrow> bool" where
  "canonical_key key \<longleftrightarrow> join_with (CHR ''/'') (posix_parts key) = key"

lemma file_at_filter:
  "(\<And>f. f \<in> set (fs_files s) \<Longrightarrow> fl_path f = p \<Longrightarrow> P f) \<Longrightarrow> file_at p (s\<lparr>fs_files := filter P (fs_files s)\<rparr>) = file_at p s"
proof -
  have "(\<And>f. f \<in> set fs \<Longrightarrow> fl_path f = p \<Longrightarrow> P f) \<Longrightarrow> select_one fl_path p (filter P fs) = select_one fl_path p fs" for fs
    by (induction fs) auto
  then show "(\<And>f. f \<in> set (fs_files s) \<Longrightarrow> fl_path f = p \<Longrightarrow> P f) \<Longrightarrow> ?thesis" by (simp add: file_at_def)
qed

lemma get_artifact_file:
  "file_at (bucket # posix_parts (strip key)) s = file_at (bucket # posix_parts (strip key)) s' \<Longrightarrow>
   get_artifact bucket key s = get_artifact bucket key s'"
  by (auto simp: get_artifact_def bind_r_def validate_object_key_def Let_def split: sum.splits)

text \<open>
  C22. Garbage collection is exact and safe. A sweep removes, from the buckets, exactly the files that
  are at least as old as the retention and whose path is the key of no pointer, none in a dry run or
  with a negative retention; so every object to which a pointer with a canonical key refers can still
  be read, whatever its age, tenant and bucket.
\<close>

theorem cleanup_removes_only_garbage:
  assumes "fs_ok s" and "cleanup_unreferenced_artifacts days dry_run reference rows s = (Inr res, s')"
  shows "fs_files s' = (if dry_run \<or> days < 0 then fs_files s
       else filter (\<lambda>f. \<not> garbage (days * MICROS_PER_DAY) (map ar_object_key rows) reference s f) (fs_files s)) \<and>
    (\<forall>r\<in>set rows. canonical_key (ar_object_key r) \<and> strip (ar_object_key r) = ar_object_key r \<longrightarrow>
       get_artifact (ar_bucket r) (ar_object_key r) s' = get_artifact (ar_bucket r) (ar_object_key r) s)"
proof -
  let ?g = "garbage (days * MICROS_PER_DAY) (map ar_object_key rows) reference s"
  have s': "s' = (if dry_run \<or> days < 0 then s else s\<lparr>fs_files := filter (\<lambda>f. \<not> ?g f) (fs_files s)\<rparr>)"
    using assms(2) cleanup_exact [OF assms(1)]
    by (auto simp: cleanup_unreferenced_artifacts_def cleanup_orphaned_artifacts_def referenced_object_keys_def Let_def split: if_splits)
  have "get_artifact (ar_bucket r) (ar_object_key r) s' = get_artifact (ar_bucket r) (ar_object_key r) s"
    if r: "r \<in> set rows" "canonical_key (ar_object_key r)" "strip (ar_object_key r) = ar_object_key r" for r
  proof -
    have "\<not> ?g f" if "fl_path f = ar_bucket r # posix_parts (ar_object_key r)" for f
      using r(1,2) that by (auto simp: garbage_def canonical_key_def)
    then have "file_at (ar_bucket r # posix_parts (ar_object_key r)) s' = file_at (ar_bucket r # posix_parts (ar_object_key r)) s"
      unfolding s' by (auto intro: file_at_filter)
    then show ?thesis by (intro get_artifact_file) (simp add: r(3))
  qed
  then show ?thesis using s' by auto
qed

definition empty_store :: local_store where "empty_store = \<lparr>fs_files = [], fs_dirs = []\<rparr>"

definition sample_io :: "int \<Rightarrow> write_io" where
  "sample_io now = \<lparr>wi_outcome = WriteOk, wi_temp_name = ''tmp1'', wi_now = now, wi_record_id = ''id1''\<rparr>"

definition sample_store :: local_store where
  "sample_store = snd (put_artifact rev (sample_io 0) KindLog ''acme/b'' ''old'' ''text/plain''
     (snd (put_artifact rev (sample_io 0) KindLog ''acme/a.log'' ''kept'' ''text/plain'' empty_store)))"

definition sample_pointer :: stored_artifact where
  "sample_pointer = \<lparr>ar_id = ''1'', ar_tenant_id = ''acme'', ar_kind = ''log'', ar_bucket = ''logs'', ar_object_key = ''acme/a.log'',
     ar_sha256 = ''tpek'', ar_size_bytes = 4, ar_content_type = ''text/plain'', ar_created_at = 0, ar_context = []\<rparr>"

lemma sample_io_legal [simp]: "legal_part (wi_temp_name (sample_io now))"
  by (simp add: sample_io_def legal_part_def)

lemma sample_store_ok: "fs_ok sample_store"
  unfolding sample_store_def by (intro put_artifact_ok) (simp_all add: fs_ok_def empty_store_def)

theorem cleanup_removes_only_garbage_witness:
  "fs_ok sample_store \<and> map fl_path (fs_files sample_store) = [[''logs'', ''acme'', ''a.log''], [''logs'', ''acme'', ''b'']] \<and>
   (case cleanup_unreferenced_artifacts 7 False (10 * MICROS_PER_DAY) [sample_pointer] sample_store of
      (Inr res, s') \<Rightarrow> get_artifact ''logs'' ''acme/a.log'' s' = Inr ''kept'' \<and> map oi_object_key (cr_removed res) = [''acme/b'']
    | _ \<Rightarrow> False)"
proof -
  obtain res s' where c: "cleanup_unreferenced_artifacts 7 False (10 * MICROS_PER_DAY) [sample_pointer] sample_store = (Inr res, s')"
    by (cases "cleanup_unreferenced_artifacts 7 False (10 * MICROS_PER_DAY) [sample_pointer] sample_store";
        cases "fst (cleanup_unreferenced_artifacts 7 False (10 * MICROS_PER_DAY) [sample_pointer] sample_store)")
      (auto simp: cleanup_unreferenced_artifacts_def Let_def split: prod.splits)
  have f: "map fl_path (fs_files sample_store) = [[''logs'', ''acme'', ''a.log''], [''logs'', ''acme'', ''b'']]" by code_simp
  have "canonical_key ''acme/a.log'' \<and> strip ''acme/a.log'' = ''acme/a.log''" by code_simp
  then have "get_artifact ''logs'' ''acme/a.log'' s' = get_artifact ''logs'' ''acme/a.log'' sample_store"
    using cleanup_removes_only_garbage [OF sample_store_ok c] by (simp add: sample_pointer_def)
  moreover have "get_artifact ''logs'' ''acme/a.log'' sample_store = Inr ''kept''" by code_simp
  moreover have "map_sum id (\<lambda>res. map oi_object_key (cr_removed res)) (fst (cleanup_unreferenced_artifacts 7 False (10 * MICROS_PER_DAY) [sample_pointer] sample_store)) =
      Inr [''acme/b'']" by code_simp
  ultimately show ?thesis using sample_store_ok f c by simp
qed

text \<open>
  The validation of object keys lets keys pass that are not in the form the sweep sees: the parts
  that it tests for being empty or a dot are the ones that the path has already dropped. An object
  stored under such a key is swept once it is old enough, although a pointer refers to it.
\<close>

theorem noncanonical_key_swept:
  assumes "fs_ok s" and "legal_part (wi_temp_name io)"
    and "put_artifact digest io kind key payload ct s = (Inr p, s1)" and "posix_parts (ap_object_key p) \<noteq> []"
    and "r \<in> set rows" and "ar_object_key r = ap_object_key p" and "\<not> canonical_key (ap_object_key p)"
    and "join_with (CHR ''/'') (posix_parts (ap_object_key p)) \<notin> set (map ar_object_key rows)"
    and "0 \<le> days" and "days \<le> 999999999" and "wi_now io + days * MICROS_PER_DAY \<le> reference"
  shows "get_artifact (ap_bucket p) (ap_object_key p) s1 = Inr payload \<and>
    get_artifact (ap_bucket p) (ap_object_key p) (snd (cleanup_unreferenced_artifacts days False reference rows s1)) = Inl OsError"
proof -
  let ?path = "bucket_for kind # posix_parts (ap_object_key p)" and ?key = "ap_object_key p"
  let ?g = "garbage (days * MICROS_PER_DAY) (map ar_object_key rows) reference s1"
  obtain k where k: "validate_object_key key = Inr k" using assms(3) by (cases "validate_object_key key") (auto simp: put_artifact_def)
  have p: "ap_bucket p = bucket_for kind" "?key = k" "k = strip key" "validate_object_key k = Inr k"
    using get_put [OF assms(3)] validated_key(1) [OF k] k strip_idem [of key]
    by (auto simp: validate_object_key_def Let_def split: if_splits)
  have ok: "fs_ok s1" using put_artifact_ok [OF assms(1,2), of digest kind key payload ct] assms(3) by simp
  have stored: "file_at ?path s1 = Some \<lparr>fl_path = ?path, fl_payload = payload, fl_mtime = wi_now io\<rparr>"
    and dir: "[bucket_for kind] \<in> set (fs_dirs s1)"
    using assms(3,4) p(2) k by (auto simp: put_artifact_def Let_def lineage_def write_file_def file_at_def table_simps
        split: if_splits write_outcome.splits)
  have "?g f" if "fl_path f = ?path" "f \<in> set (fs_files s1)" for f
  proof -
    have "f = \<lparr>fl_path = ?path, fl_payload = payload, fl_mtime = wi_now io\<rparr>"
      using stored that ok select_one_keyed [of fl_path "fs_files s1" f] by (simp add: file_at_def fs_ok_def)
    then show ?thesis using assms(4,8,11) dir by (cases kind) (auto simp: garbage_def below_def all_bucket_names_def strict_prefix_def)
  qed
  then have gone: "file_at ?path (s1\<lparr>fs_files := filter (\<lambda>f. \<not> ?g f) (fs_files s1)\<rparr>) = None"
    by (auto simp: file_at_def select_one_None)
  have "snd (cleanup_unreferenced_artifacts days False reference rows s1) = s1\<lparr>fs_files := filter (\<lambda>f. \<not> ?g f) (fs_files s1)\<rparr>"
    using assms(9,10) cleanup_exact [OF ok, of "days * MICROS_PER_DAY" "map ar_object_key rows" False reference]
    by (simp add: cleanup_unreferenced_artifacts_def cleanup_orphaned_artifacts_def referenced_object_keys_def Let_def)
  then show ?thesis using gone get_put(1) [OF assms(3)] p by (simp add: get_artifact_def bind_r_def Let_def)
qed

definition twisted_pointer :: stored_artifact where
  "twisted_pointer = sample_pointer\<lparr>ar_object_key := ''acme//a.log''\<rparr>"

theorem noncanonical_key_swept_witness:
  "get_artifact ''logs'' ''acme//a.log'' (snd (cleanup_unreferenced_artifacts 7 False (10 * MICROS_PER_DAY) [twisted_pointer]
     (snd (put_artifact rev (sample_io 0) KindLog ''acme//a.log'' ''kept'' ''text/plain'' empty_store)))) = Inl OsError"
proof -
  let ?put = "put_artifact rev (sample_io 0) KindLog ''acme//a.log'' ''kept'' ''text/plain'' empty_store"
  let ?p = "\<lparr>ap_bucket = ''logs'', ap_object_key = ''acme//a.log'', ap_sha256 = ''tpek'', ap_size_bytes = 4, ap_content_type = ''text/plain''\<rparr>"
  have "fst ?put = Inr ?p" by code_simp
  then have put: "?put = (Inr ?p, snd ?put)" by (cases ?put) simp
  have parts: "posix_parts ''acme//a.log'' = [''acme'', ''a.log'']" by code_simp
  then have "\<not> canonical_key ''acme//a.log''" by (simp add: canonical_key_def)
  then show ?thesis
    using noncanonical_key_swept [OF _ _ put, of twisted_pointer "[twisted_pointer]" 7 "10 * MICROS_PER_DAY"] parts
    by (simp add: fs_ok_def empty_store_def twisted_pointer_def sample_pointer_def MICROS_PER_DAY_def) (simp add: sample_io_def)
qed

subsection \<open>Accounting of writes\<close>

lemma storage_used_snoc:
  "storage_used T (db\<lparr>q_reservations := rows @ [r]\<rparr>) = storage_used T (db\<lparr>q_reservations := rows\<rparr>) + (if held_row T r then rr_bytes r else 0)"
  by (simp add: storage_used_def)

lemma update_fresh:
  "select_one rr_reservation_id rid rows = None \<Longrightarrow> rr_reservation_id r = rid \<Longrightarrow> rr_status r = ResReserved \<Longrightarrow>
   update_where (reserved_row rid) f (rows @ [r]) = rows @ [f r]"
  by (auto simp: update_where_def reserved_row_def select_one_None intro!: map_idI)

lemma resolve_policy_reservations [simp]: "resolve_policy st tenant (db\<lparr>q_reservations := rows\<rparr>) = resolve_policy st tenant db"
  by (simp add: resolve_policy_def get_policy_def)

lemma record_pointer_effect:
  assumes "record_pointer ident now p kind tenant ctx rows = (r, rows')"
  shows "case r of
      Inl e \<Rightarrow> rows' = rows
    | Inr a \<Rightarrow> find_by_key (ap_bucket p) (ap_object_key p) tenant rows' = Some a \<and> object_of a = (ap_bucket p, ap_object_key p) \<and>
        ar_tenant_id a = tenant \<and> ar_sha256 a = ap_sha256 p \<and> ar_size_bytes a = ap_size_bytes p \<and> ar_kind a = artifact_kind_value kind"
proof (cases "json_payload ctx")
  case (Some c)
  let ?k = "(ap_bucket p, ap_object_key p)"
  let ?row = "\<lambda>i. \<lparr>ar_id = i, ar_tenant_id = tenant, ar_kind = artifact_kind_value kind, ar_bucket = ap_bucket p,
     ar_object_key = ap_object_key p, ar_sha256 = ap_sha256 p, ar_size_bytes = ap_size_bytes p,
     ar_content_type = ap_content_type p, ar_created_at = now, ar_context = c\<rparr>"
  have hit: "object_of (?row i) = ?k" for i by (simp add: object_of_def)
  show ?thesis
  proof (cases "\<exists>r\<in>set rows. object_of r = ?k")
    case True
    let ?rows = "update_where (\<lambda>r. object_of r = ?k) (\<lambda>r. ?row (ar_id r)) rows"
    from True obtain x where x: "x \<in> set rows" "object_of x = ?k" by blast
    then have "?row (ar_id x) \<in> set ?rows" unfolding set_update_where by (auto intro: rev_image_eqI)
    then have "\<exists>a\<in>set ?rows. object_of a = ?k \<and> ar_tenant_id a = tenant" using hit by fastforce
    then obtain a where a: "find_by_key (ap_bucket p) (ap_object_key p) tenant ?rows = Some a"
      by (cases "find_by_key (ap_bucket p) (ap_object_key p) tenant ?rows") (auto simp: find_by_key_def find_None_iff)
    then have "a \<in> set ?rows \<and> object_of a = ?k" unfolding find_by_key_def by (auto dest: find_SomeD)
    then obtain i where i: "a = ?row i" by (auto simp: set_update_where split: if_splits)
    have "r = Inr a \<and> rows' = ?rows" using True a assms by (simp add: record_pointer_def Some Let_def)
    then show ?thesis using a i hit by simp
  next
    case False
    then have "find_by_key (ap_bucket p) (ap_object_key p) tenant (rows @ [?row ident]) = Some (?row ident)"
      using hit by (auto simp: find_by_key_def find_append split: option.splits dest!: find_SomeD)
    then show ?thesis using False assms hit by (auto simp: record_pointer_def Some Let_def split: if_splits)
  qed
qed (use assms in \<open>auto simp: record_pointer_def\<close>)

definition quota_rows :: "artifact_world \<Rightarrow> quota_db" where
  "quota_rows w = qw_db (aw_quota w)"

definition reserve_row :: "string \<Rightarrow> string \<Rightarrow> string \<Rightarrow> int \<Rightarrow> reservation_status \<Rightarrow> reservation_row" where
  "reserve_row tenant key payload now status = \<lparr>rr_reservation_id = key, rr_tenant_id = tenant, rr_bytes = int (length payload),
     rr_status = status, rr_created_at = now\<rparr>"

definition with_row :: "reservation_row \<Rightarrow> artifact_world \<Rightarrow> artifact_world" where
  "with_row row w = w\<lparr>aw_quota := (aw_quota w)\<lparr>qw_db := (qw_db (aw_quota w))\<lparr>q_reservations := q_reservations (qw_db (aw_quota w)) @ [row]\<rparr>\<rparr>\<rparr>"

lemma with_row_simps [simp]: "aw_store (with_row row w) = aw_store w" "aw_pointers (with_row row w) = aw_pointers w"
  by (simp_all add: with_row_def)

lemma with_row_used:
  "storage_used T (quota_rows (with_row row w)) = storage_used T (quota_rows w) + (if held_row T row then rr_bytes row else 0)"
  by (simp add: with_row_def quota_rows_def storage_used_def)

text \<open>The write itself, between reservation and settlement.\<close>

definition write_artifact :: "(string \<Rightarrow> string) \<Rightarrow> write_io \<Rightarrow> artifact_kind \<Rightarrow> string \<Rightarrow> string \<Rightarrow> string \<Rightarrow> string \<Rightarrow> payload \<Rightarrow>
    (artifact_pointer \<times> stored_artifact) artifact_action" where
  "write_artifact digest io kind object_key payload content_type tenant context =
     bind_a (on_store (put_artifact digest io kind object_key payload content_type)) (\<lambda>pointer.
     bind_a (on_pointers (record_pointer (wi_record_id io) (wi_now io) pointer kind tenant context)) (\<lambda>stored.
       return_a (pointer, stored)))"

lemma write_artifact_effect:
  assumes "write_artifact digest io kind key payload ct tenant ctx w = (r, w')"
  shows "aw_quota w' = aw_quota w \<and>
    (case r of
       Inl e \<Rightarrow> aw_pointers w' = aw_pointers w
     | Inr (p, a) \<Rightarrow> ap_size_bytes p = length payload \<and> get_artifact (ar_bucket a) (ar_object_key a) (aw_store w') = Inr payload \<and>
         find_by_key (ar_bucket a) (ar_object_key a) tenant (aw_pointers w') = Some a \<and>
         ar_bucket a = bucket_for kind \<and> ar_object_key a = strip key \<and> ar_sha256 a = digest payload \<and> ar_size_bytes a = length payload)"
proof -
  obtain q s1 where put: "put_artifact digest io kind key payload ct (aw_store w) = (q, s1)" by (metis prod.exhaust)
  show ?thesis
  proof (cases q)
    case (Inl e)
    then show ?thesis using assms put by (auto simp: write_artifact_def bind_a_def on_store_def)
  next
    case (Inr p)
    obtain t rows where rec: "record_pointer (wi_record_id io) (wi_now io) p kind tenant ctx (aw_pointers w) = (t, rows)" by (metis prod.exhaust)
    note g = get_put [OF put [unfolded Inr]]
    show ?thesis using assms put rec Inr record_pointer_effect [OF rec] g
      by (cases t) (auto simp: write_artifact_def bind_a_def on_store_def on_pointers_def return_a_def object_of_def)
  qed
qed

lemma persist_artifact_fresh:
  assumes "select_one rr_reservation_id key (q_reservations (quota_rows w)) = None"
    and "resolve_policy st tenant (quota_rows w) = Inr policy"
  shows "if tp_max_storage_bytes policy < storage_used tenant (quota_rows w) + int (length payload)
    then \<exists>e evs. persist_artifact st digest io kind key payload ct tenant ctx w =
      (Inl e, (with_row (reserve_row tenant key payload (wi_now io) ResDenied) w)
        \<lparr>aw_quota := (aw_quota (with_row (reserve_row tenant key payload (wi_now io) ResDenied) w))\<lparr>qw_events := evs\<rparr>\<rparr>)
    else persist_artifact st digest io kind key payload ct tenant ctx w =
      (case write_artifact digest io kind key payload ct tenant ctx (with_row (reserve_row tenant key payload (wi_now io) ResReserved) w) of
         (Inl e, w') \<Rightarrow> (Inl e, w'\<lparr>aw_quota := (aw_quota w')\<lparr>qw_db := release_storage_reservation key (qw_db (aw_quota w'))\<rparr>\<rparr>)
       | (Inr (p, a), w') \<Rightarrow> (Inr a, w'\<lparr>aw_quota := (aw_quota w')\<lparr>qw_db := commit_storage_reservation key (int (ap_size_bytes p)) (qw_db (aw_quota w'))\<rparr>\<rparr>))"
  using assms
  by (auto simp: persist_artifact_def write_artifact_def [symmetric] bind_a_def then_a_def try_a_def on_quota_def service_reserve_storage_def
      resolve_policy_a_def in_store_def reserve_storage_def emit_quota_def modify_a_def return_a_def raise_a_def with_row_def reserve_row_def
      quota_rows_def service_commit_storage_def service_release_storage_def Let_def split: sum.splits prod.splits)

text \<open>
  C21. A write of an artifact under a new key settles its quota: when it returns, the tenant's stored
  bytes have grown by exactly the size of the payload and are within its limit, the payload can be
  read back and the pointer is recorded with its digest; when it raises, for whatever reason, no
  bytes stay charged and no pointer is recorded, and a denial writes no file. No other tenant's usage
  changes.
\<close>

theorem persist_artifact_accounts:
  assumes "select_one rr_reservation_id key (q_reservations (quota_rows w)) = None"
    and "resolve_policy st tenant (quota_rows w) = Inr policy"
    and "persist_artifact st digest io kind key payload ct tenant ctx w = (r, w')"
  shows "case r of
      Inr a \<Rightarrow> storage_used T (quota_rows w') = storage_used T (quota_rows w) + (if T = tenant then int (length payload) else 0) \<and>
        storage_used tenant (quota_rows w') \<le> tp_max_storage_bytes policy \<and>
        get_artifact (ar_bucket a) (ar_object_key a) (aw_store w') = Inr payload \<and>
        find_by_key (ar_bucket a) (ar_object_key a) tenant (aw_pointers w') = Some a \<and>
        ar_object_key a = strip key \<and> ar_sha256 a = digest payload
    | Inl e \<Rightarrow> storage_used T (quota_rows w') = storage_used T (quota_rows w) \<and> aw_pointers w' = aw_pointers w \<and>
        (tp_max_storage_bytes policy < storage_used tenant (quota_rows w) + int (length payload) \<longrightarrow> aw_store w' = aw_store w)"
proof -
  let ?row = "reserve_row tenant key payload (wi_now io)"
  note fresh = persist_artifact_fresh [OF assms(1,2), where payload = payload and digest = digest and io = io and kind = kind
    and ct = ct and ctx = ctx]
  show ?thesis
  proof (cases "tp_max_storage_bytes policy < storage_used tenant (quota_rows w) + int (length payload)")
    case True
    have "\<not> held_row T (?row ResDenied)" by (simp add: held_row_def reserve_row_def)
    then have "storage_used T (quota_rows (with_row (?row ResDenied) w)) = storage_used T (quota_rows w)"
      by (simp add: with_row_used)
    then show ?thesis using True fresh assms(3) by (auto simp: quota_rows_def)
  next
    case False
    obtain q w1 where wr: "write_artifact digest io kind key payload ct tenant ctx (with_row (?row ResReserved) w) = (q, w1)"
      by (metis prod.exhaust)
    have q1: "qw_db (aw_quota w1) = (quota_rows w)\<lparr>q_reservations := q_reservations (quota_rows w) @ [?row ResReserved]\<rparr>"
      using write_artifact_effect [OF wr] by (simp add: with_row_def quota_rows_def)
    have upd: "update_where (reserved_row key) f (q_reservations (quota_rows w) @ [?row ResReserved]) =
        q_reservations (quota_rows w) @ [f (?row ResReserved)]" for f
      by (rule update_fresh [OF assms(1)]) (simp_all add: reserve_row_def)
    show ?thesis
    proof (cases q)
      case (Inl e)
      then show ?thesis using False fresh assms(3) wr q1 upd write_artifact_effect [OF wr]
        by (auto simp: quota_rows_def release_storage_reservation_def storage_used_snoc held_row_def)
    next
      case (Inr pa)
      then show ?thesis using False fresh assms(3) wr q1 upd write_artifact_effect [OF wr]
        by (cases pa) (auto simp: quota_rows_def commit_storage_reservation_def storage_used_snoc held_row_def reserve_row_def)
    qed
  qed
qed

definition tight_settings :: quota_settings where
  "tight_settings = (sample_settings False)\<lparr>qs_local_max_storage_bytes := 3\<rparr>"

definition empty_artifacts :: artifact_world where
  "empty_artifacts = \<lparr>aw_quota = \<lparr>qw_db = empty_quota_db, qw_events = []\<rparr>, aw_store = empty_store, aw_pointers = []\<rparr>"

definition sample_persist :: "string \<Rightarrow> int \<Rightarrow> stored_artifact artifact_action" where
  "sample_persist payload now = persist_artifact tight_settings rev (sample_io now) KindLog ''acme/a.log'' payload ''text/plain'' ''acme'' []"

lemma tight_policy: "\<exists>policy. resolve_policy tight_settings ''acme'' empty_quota_db = Inr policy \<and> tp_max_storage_bytes policy = 3"
proof -
  have "map_sum id tp_max_storage_bytes (resolve_policy tight_settings ''acme'' empty_quota_db) = Inr 3" by code_simp
  then show ?thesis by (cases "resolve_policy tight_settings ''acme'' empty_quota_db") auto
qed

theorem persist_artifact_accounts_witness:
  "(case sample_persist ''ab'' 5 empty_artifacts of
      (Inr a, w') \<Rightarrow> storage_used ''acme'' (quota_rows w') = 2 \<and> get_artifact ''logs'' ''acme/a.log'' (aw_store w') = Inr ''ab''
    | _ \<Rightarrow> False) \<and>
   (case sample_persist ''abcd'' 5 empty_artifacts of
      (Inl e, w') \<Rightarrow> storage_used ''acme'' (quota_rows w') = 0 \<and> aw_store w' = empty_store
    | _ \<Rightarrow> False)"
proof -
  let ?w = empty_artifacts
  have fresh: "select_one rr_reservation_id ''acme/a.log'' (q_reservations (quota_rows ?w)) = None"
    and zero: "storage_used ''acme'' (quota_rows ?w) = 0"
    by (simp_all add: quota_rows_def empty_artifacts_def empty_quota_db_def storage_used_def)
  obtain policy where p: "resolve_policy tight_settings ''acme'' (quota_rows ?w) = Inr policy" "tp_max_storage_bytes policy = 3"
    using tight_policy by (auto simp: quota_rows_def empty_artifacts_def)
  obtain r w1 where one: "sample_persist ''ab'' 5 ?w = (r, w1)" by (metis prod.exhaust)
  obtain q w2 where two: "sample_persist ''abcd'' 5 ?w = (q, w2)" by (metis prod.exhaust)
  have "map_sum id ar_bucket (fst (sample_persist ''ab'' 5 ?w)) = Inr ''logs'' \<and> isl (fst (sample_persist ''abcd'' 5 ?w))" by code_simp
  moreover have "strip ''acme/a.log'' = ''acme/a.log''" by code_simp
  ultimately show ?thesis using zero p one two
      persist_artifact_accounts [OF fresh p(1) one [unfolded sample_persist_def], of "''acme''"]
      persist_artifact_accounts [OF fresh p(1) two [unfolded sample_persist_def], of "''acme''"]
    by (cases r; cases q) (auto simp: empty_artifacts_def)
qed

text \<open>
  The reservation of a write is identified by the key of the object alone. A second write under a
  key whose first write was settled is granted whatever its size, stores its payload and charges
  nothing.
\<close>

theorem rewrite_escapes_quota:
  assumes "select_one rr_reservation_id key (q_reservations (quota_rows w)) = Some row" and "rr_status row = ResCommitted"
    and "keyed rr_reservation_id (q_reservations (quota_rows w))"
    and "resolve_policy st tenant (quota_rows w) = Inr policy"
    and "fst (write_artifact digest io kind key payload ct tenant ctx w) = Inr pa"
  shows "\<exists>a w'. persist_artifact st digest io kind key payload ct tenant ctx w = (Inr a, w') \<and>
    get_artifact (ar_bucket a) (ar_object_key a) (aw_store w') = Inr payload \<and> aw_quota w' = aw_quota w"
proof -
  obtain w1 where wr: "write_artifact digest io kind key payload ct tenant ctx w = (Inr pa, w1)" using assms(5) by (metis prod.collapse)
  note eff = write_artifact_effect [OF wr]
  have "\<forall>r\<in>set (q_reservations (quota_rows w)). rr_reservation_id r = key \<longrightarrow> r = row"
    using assms(1,3) select_one_keyed by (metis option.inject)
  then have "update_where (reserved_row key) f (q_reservations (quota_rows w)) = q_reservations (quota_rows w)" for f
    using assms(2) by (auto simp: update_where_def reserved_row_def intro!: map_idI)
  then have same: "commit_storage_reservation key n (qw_db (aw_quota w1)) = qw_db (aw_quota w1)" for n
    using eff by (simp add: commit_storage_reservation_def quota_rows_def)
  have "persist_artifact st digest io kind key payload ct tenant ctx w =
      (case write_artifact digest io kind key payload ct tenant ctx w of
         (Inl e, w') \<Rightarrow> (Inl e, w'\<lparr>aw_quota := (aw_quota w')\<lparr>qw_db := release_storage_reservation key (qw_db (aw_quota w'))\<rparr>\<rparr>)
       | (Inr (p, a), w') \<Rightarrow> (Inr a, w'\<lparr>aw_quota := (aw_quota w')\<lparr>qw_db := commit_storage_reservation key (int (ap_size_bytes p)) (qw_db (aw_quota w'))\<rparr>\<rparr>))"
    using assms(1,2,4)
    by (auto simp: persist_artifact_def write_artifact_def [symmetric] bind_a_def then_a_def try_a_def on_quota_def service_reserve_storage_def
      resolve_policy_a_def in_store_def reserve_storage_def modify_a_def return_a_def raise_a_def
      quota_rows_def service_commit_storage_def service_release_storage_def Let_def split: sum.splits prod.splits)
  then show ?thesis using wr same eff by (cases pa) auto
qed

theorem rewrite_escapes_quota_witness:
  "\<exists>a w'. sample_persist ''0123456789'' 6 (snd (sample_persist ''ab'' 5 empty_artifacts)) = (Inr a, w') \<and>
     get_artifact (ar_bucket a) (ar_object_key a) (aw_store w') = Inr ''0123456789'' \<and> storage_used ''acme'' (quota_rows w') = 2"
proof -
  let ?w = "snd (sample_persist ''ab'' 5 empty_artifacts)"
  let ?wr = "write_artifact rev (sample_io 6) KindLog ''acme/a.log'' ''0123456789'' ''text/plain'' ''acme'' []"
  have row: "map_option rr_status (select_one rr_reservation_id ''acme/a.log'' (q_reservations (quota_rows ?w))) = Some ResCommitted"
    by code_simp
  then obtain row where r: "select_one rr_reservation_id ''acme/a.log'' (q_reservations (quota_rows ?w)) = Some row" "rr_status row = ResCommitted" by auto
  have k: "keyed rr_reservation_id (q_reservations (quota_rows ?w))" by code_simp
  have "isl (resolve_policy tight_settings ''acme'' (quota_rows ?w)) = False" by code_simp
  then obtain policy where p: "resolve_policy tight_settings ''acme'' (quota_rows ?w) = Inr policy"
    by (cases "resolve_policy tight_settings ''acme'' (quota_rows ?w)") auto
  have "isl (fst (?wr ?w)) = False" by code_simp
  then obtain pa where "fst (?wr ?w) = Inr pa" by (cases "fst (?wr ?w)") auto
  moreover have "storage_used ''acme'' (quota_rows ?w) = 2" by code_simp
  ultimately show ?thesis using rewrite_escapes_quota [OF r k p, of rev "sample_io 6" KindLog "''0123456789''" "''text/plain''" "[]" pa]
    by (auto simp: sample_persist_def [of "''0123456789''"] quota_rows_def)
qed

end
