(* ===== verification/Environments.thy ===== *)
theory Environments
  imports Secret_Store Artifacts Exec_Executor "HOL-Library.AList"
begin

text \<open>
  Execution environments (\<^verbatim>\<open>backend/environments\<close>: \<^verbatim>\<open>contracts.py\<close>, \<^verbatim>\<open>policy.py\<close>,
  \<^verbatim>\<open>registry.py\<close>, \<^verbatim>\<open>backends.py\<close>, \<^verbatim>\<open>store.py\<close> and \<^verbatim>\<open>manager.py\<close>, with the scope of a batch
  in \<^verbatim>\<open>backend/orchestrator/service/environment_scope.py\<close>): provisioning within the ceiling of a tenant, the
  secrets of an environment, the egress of artifacts, teardown and the reaping of orphans. Fresh identifiers and clock
  readings, in microseconds, are arguments. A path is the list of its parts; \<open>Path.resolve\<close>, which depends on the
  host's files, is the parameter \<open>resolve\<close>, and the digest of a profile is the parameter \<open>content_hash\<close>. The emitted
  events are the list of the calls of \<open>emit_event\<close>, which never raises.
\<close>

subsection \<open>Profiles, handles and errors\<close>

datatype environment_backend_kind = HARDENED_CONTAINER | UNAVAILABLE

fun backend_kind_value :: "environment_backend_kind \<Rightarrow> string" where
  "backend_kind_value HARDENED_CONTAINER = ''hardened_container''"
| "backend_kind_value UNAVAILABLE = ''unavailable''"

record network_policy =
  np_deny_all :: bool
  np_allowlist :: "string list"

record filesystem_policy =
  fp_workspace_only :: bool
  fp_read_only_base :: bool

record environment_profile =
  ep_profile_id :: string
  ep_base_image :: string
  ep_cpu_limit :: rat
  ep_memory_limit_mb :: int
  ep_pids_limit :: int
  ep_network_policy :: network_policy
  ep_filesystem_policy :: filesystem_policy
  ep_env_allowlist :: "string list"

definition default_profile :: environment_profile where
  "default_profile = \<lparr>ep_profile_id = ''default'', ep_base_image = ''python:3.11-slim'', ep_cpu_limit = 1, ep_memory_limit_mb = 512,
     ep_pids_limit = 256, ep_network_policy = \<lparr>np_deny_all = True, np_allowlist = []\<rparr>,
     ep_filesystem_policy = \<lparr>fp_workspace_only = True, fp_read_only_base = True\<rparr>, ep_env_allowlist = []\<rparr>"

record environment_denial =
  ed_category :: string
  ed_target :: string
  ed_reason :: string

record environment_handle =
  eh_environment_id :: string
  eh_run_id :: string
  eh_tenant_id :: string
  eh_profile :: environment_profile
  eh_backend_kind :: environment_backend_kind
  eh_workspace_path :: "string list"

datatype env_error =
    CapacityExceeded string int
  | EnvironmentBackendError string
  | EnvironmentIntegrity
  | SecretFailed secret_error
  | ArtifactFailed artifact_error

subsection \<open>Policy\<close>

definition UNENFORCEABLE :: string where
  "UNENFORCEABLE = ''profile declares a network egress allowlist, but the resolved backend cannot enforce a fine-grained allowlist (Beta scope); provisioning denied rather than granting broader or narrower access than declared''"

definition evaluate_network_provisioning :: "environment_profile \<Rightarrow> environment_denial option" where
  "evaluate_network_provisioning profile =
     (if np_deny_all (ep_network_policy profile) then None
      else if np_allowlist (ep_network_policy profile) = [] then None
      else Some \<lparr>ed_category = ''network'', ed_target = join_with (CHR '','') (np_allowlist (ep_network_policy profile)), ed_reason = UNENFORCEABLE\<rparr>)"

definition path_text :: "string list \<Rightarrow> string" where
  "path_text parts =
     (case parts of [] \<Rightarrow> ''.'' | a # rest \<Rightarrow> if a \<in> {''/'', ''//''} then a @ join_with (CHR ''/'') rest else join_with (CHR ''/'') parts)"

definition evaluate_filesystem_access :: "(string list \<Rightarrow> string list) \<Rightarrow> environment_profile \<Rightarrow> string \<Rightarrow> string list \<Rightarrow> environment_denial option" where
  "evaluate_filesystem_access resolve profile path workspace_root =
     (if \<not> fp_workspace_only (ep_filesystem_policy profile) then None
      else let resolved_root = resolve workspace_root;
               candidate = (if prefix ''/'' path then posix_parts path else resolved_root @ posix_parts path);
               resolved = resolve candidate
           in if prefix resolved_root resolved then None
              else Some \<lparr>ed_category = ''filesystem'', ed_target = path,
                ed_reason = ''path '' @ repr_str path @ '' resolves outside the workspace mount '' @ path_text resolved_root\<rparr>)"

subsection \<open>Backends\<close>

definition resolve_backend :: "string \<Rightarrow> environment_backend_kind" where
  "resolve_backend configured =
     (let raw = map lower_char (strip configured)
      in if raw = [] then HARDENED_CONTAINER
         else if raw = backend_kind_value HARDENED_CONTAINER then HARDENED_CONTAINER else UNAVAILABLE)"

definition UNAVAILABLE_REASON :: string where
  "UNAVAILABLE_REASON = ''execution environment backend is unavailable (unrecognized or unresolved configuration) -- fails closed rather than silently selecting a different backend''"

fun backend_provision :: "environment_backend_kind \<Rightarrow> string \<Rightarrow> string \<Rightarrow> string \<Rightarrow> environment_profile \<Rightarrow> string list \<Rightarrow>
    (env_error, environment_handle) result" where
  "backend_provision HARDENED_CONTAINER hex run tenant profile workspace =
     (case evaluate_network_provisioning profile of
        Some denial \<Rightarrow> Inl (EnvironmentBackendError (ed_reason denial))
      | None \<Rightarrow> Inr \<lparr>eh_environment_id = ''env_'' @ hex, eh_run_id = run, eh_tenant_id = tenant, eh_profile = profile,
          eh_backend_kind = HARDENED_CONTAINER, eh_workspace_path = workspace\<rparr>)"
| "backend_provision UNAVAILABLE hex run tenant profile workspace = Inl (EnvironmentBackendError UNAVAILABLE_REASON)"

fun backend_teardown :: "environment_backend_kind \<Rightarrow> environment_handle \<Rightarrow> (env_error, unit) result" where
  "backend_teardown HARDENED_CONTAINER handle = Inr ()"
| "backend_teardown UNAVAILABLE handle = Inr ()"

subsection \<open>The store\<close>

datatype env_status = EnvActive | EnvCollecting | EnvTornDown | EnvOrphaned

record environment_record =
  en_environment_id :: string
  en_run_id :: string
  en_tenant_id :: string
  en_backend_kind :: environment_backend_kind
  en_profile_id :: string
  en_profile_hash :: string
  en_workspace_path :: "string list"
  en_status :: env_status
  en_created_at :: int
  en_expires_at :: int
  en_torn_down_at :: "int option"

record environment_decision =
  dc_decision_id :: string
  dc_environment_id :: string
  dc_run_id :: string
  dc_tenant_id :: string
  dc_category :: string
  dc_target :: string
  dc_allowed :: bool
  dc_reason :: string
  dc_decided_at :: int

definition create_environment :: "environment_record \<Rightarrow> (env_error, unit, environment_record list) action" where
  "create_environment row rows =
     (if select_one en_environment_id (en_environment_id row) rows \<noteq> None then (Inl EnvironmentIntegrity, rows)
      else (Inr (), rows @ [row\<lparr>en_torn_down_at := None\<rparr>]))"

definition env_live :: "string \<Rightarrow> int \<Rightarrow> environment_record \<Rightarrow> bool" where
  "env_live tenant now r \<longleftrightarrow> en_tenant_id r = tenant \<and> en_status r = EnvActive \<and> now < en_expires_at r"

definition count_active :: "string \<Rightarrow> int \<Rightarrow> environment_record list \<Rightarrow> int" where
  "count_active tenant now rows = int (length (filter (env_live tenant now) rows))"

definition mark_status :: "string \<Rightarrow> env_status \<Rightarrow> int option \<Rightarrow> environment_record list \<Rightarrow> bool \<times> environment_record list" where
  "mark_status ident status torn rows =
     (filter (\<lambda>r. en_environment_id r = ident) rows \<noteq> [],
      update_where (\<lambda>r. en_environment_id r = ident) (\<lambda>r. r\<lparr>en_status := status, en_torn_down_at := torn\<rparr>) rows)"

definition get_environment :: "string \<Rightarrow> environment_record list \<Rightarrow> environment_record option" where
  "get_environment ident rows = select_one en_environment_id ident rows"

definition environments_for_run :: "string \<Rightarrow> environment_record list \<Rightarrow> environment_record list" where
  "environments_for_run run rows = sort_key en_created_at (filter (\<lambda>r. en_run_id r = run) rows)"

definition list_expired_active :: "int \<Rightarrow> environment_record list \<Rightarrow> environment_record list" where
  "list_expired_active before rows = filter (\<lambda>r. en_status r = EnvActive \<and> en_expires_at r \<le> before) rows"

definition decisions_for_run :: "string \<Rightarrow> environment_decision list \<Rightarrow> environment_decision list" where
  "decisions_for_run run rows = sort_key dc_decided_at (filter (\<lambda>d. dc_run_id d = run) rows)"

subsection \<open>The manager\<close>

record env_event =
  ee_type :: string
  ee_tenant_id :: string
  ee_partition_key :: string
  ee_data :: "(string \<times> string) list"

record env_world =
  ew_environments :: "environment_record list"
  ew_decisions :: "environment_decision list"
  ew_resolved :: "string \<rightharpoonup> secret_reference redactor"
  ew_secrets :: secret_world
  ew_artifacts :: artifact_world
  ew_events :: "env_event list"

type_synonym 'a env_action = "(env_error, 'a, env_world) action"

record env_settings =
  es_backend :: string
  es_max_concurrent :: int
  es_ttl_seconds :: int

definition in_environments :: "(env_error, 'a, environment_record list) action \<Rightarrow> 'a env_action" where
  "in_environments m w = (let (r, rows) = m (ew_environments w) in (r, w\<lparr>ew_environments := rows\<rparr>))"

definition emit_env :: "string \<Rightarrow> string \<Rightarrow> string \<Rightarrow> (string \<times> string) list \<Rightarrow> unit env_action" where
  "emit_env ty tenant part data = modify_a (\<lambda>w. w\<lparr>ew_events := ew_events w @
     [\<lparr>ee_type = ty, ee_tenant_id = tenant, ee_partition_key = part, ee_data = data\<rparr>]\<rparr>)"

definition mark_environment :: "string \<Rightarrow> env_status \<Rightarrow> int \<Rightarrow> unit env_action" where
  "mark_environment ident status now =
     modify_a (\<lambda>w. w\<lparr>ew_environments := snd (mark_status ident status (Some now) (ew_environments w))\<rparr>)"

definition teardown :: "environment_backend_kind \<Rightarrow> environment_handle \<Rightarrow> string \<Rightarrow> int \<Rightarrow> unit env_action" where
  "teardown backend handle reason now =
     then_a (modify_a (\<lambda>w. w\<lparr>ew_resolved := (ew_resolved w)(eh_environment_id handle := None)\<rparr>))
     (then_a (lift_a (backend_teardown backend handle))
     (then_a (mark_environment (eh_environment_id handle) (if reason \<noteq> ''orphan_reaped'' then EnvTornDown else EnvOrphaned) now)
       (emit_env ''environment.instance.retired'' (eh_tenant_id handle) (eh_run_id handle)
          [(''environmentId'', eh_environment_id handle), (''reason'', reason)])))"

definition orphan_handle :: "environment_record \<Rightarrow> environment_handle" where
  "orphan_handle r = \<lparr>eh_environment_id = en_environment_id r, eh_run_id = en_run_id r, eh_tenant_id = en_tenant_id r,
     eh_profile = default_profile\<lparr>ep_profile_id := en_profile_id r\<rparr>, eh_backend_kind = en_backend_kind r,
     eh_workspace_path = en_workspace_path r\<rparr>"

definition reap_one :: "environment_backend_kind \<Rightarrow> int \<Rightarrow> environment_record \<Rightarrow> unit env_action" where
  "reap_one backend now r =
     try_a (teardown backend (orphan_handle r) ''orphan_reaped'' now) return_a
       (\<lambda>e. case e of EnvironmentBackendError _ \<Rightarrow> mark_environment (en_environment_id r) EnvOrphaned now | _ \<Rightarrow> raise_a e)"

definition reap_orphans :: "environment_backend_kind \<Rightarrow> int \<Rightarrow> int \<Rightarrow> nat env_action" where
  "reap_orphans backend cutoff torn =
     bind_a (gets_a (\<lambda>w. list_expired_active cutoff (ew_environments w))) (\<lambda>expired.
     then_a (each_a (reap_one backend torn) expired) (return_a (length expired)))"

text \<open>
  Provisioning: the sweep and the admission, and then, without a lock around both, the creation.
\<close>

definition admit :: "env_settings \<Rightarrow> string \<Rightarrow> int \<Rightarrow> int \<Rightarrow> int \<Rightarrow> unit env_action" where
  "admit st tenant cutoff torn now =
     then_a (reap_orphans (resolve_backend (es_backend st)) cutoff torn)
     (bind_a (gets_a (\<lambda>w. count_active tenant now (ew_environments w))) (\<lambda>n.
       if es_max_concurrent st \<le> n then raise_a (CapacityExceeded tenant (es_max_concurrent st)) else return_a ()))"

definition establish :: "(environment_profile \<Rightarrow> string) \<Rightarrow> env_settings \<Rightarrow> string \<Rightarrow> string \<Rightarrow> string \<Rightarrow> environment_profile \<Rightarrow>
    string list \<Rightarrow> int \<Rightarrow> int \<Rightarrow> environment_handle env_action" where
  "establish content_hash st hex run tenant profile workspace created now =
     bind_a (lift_a (backend_provision (resolve_backend (es_backend st)) hex run tenant profile workspace)) (\<lambda>handle.
     then_a (in_environments (create_environment \<lparr>en_environment_id = eh_environment_id handle, en_run_id = run, en_tenant_id = tenant,
         en_backend_kind = eh_backend_kind handle, en_profile_id = ep_profile_id profile, en_profile_hash = content_hash profile,
         en_workspace_path = eh_workspace_path handle, en_status = EnvActive, en_created_at = created,
         en_expires_at = now + es_ttl_seconds st * MICROS, en_torn_down_at = None\<rparr>))
     (then_a (emit_env ''environment.instance.provisioned'' tenant run
         [(''environmentId'', eh_environment_id handle), (''backendKind'', backend_kind_value (eh_backend_kind handle)),
          (''profileId'', ep_profile_id profile), (''profileHash'', content_hash profile)])
       (return_a handle)))"

definition provision :: "(environment_profile \<Rightarrow> string) \<Rightarrow> env_settings \<Rightarrow> string \<Rightarrow> string \<Rightarrow> string \<Rightarrow> environment_profile option \<Rightarrow>
    string list \<Rightarrow> int \<Rightarrow> int \<Rightarrow> int \<Rightarrow> int \<Rightarrow> int \<Rightarrow> environment_handle env_action" where
  "provision content_hash st hex run tenant profile workspace cutoff torn now created now' =
     then_a (admit st tenant cutoff torn now)
       (establish content_hash st hex run tenant (case profile of None \<Rightarrow> default_profile | Some p \<Rightarrow> p) workspace created now')"

definition evaluate_filesystem :: "(string list \<Rightarrow> string list) \<Rightarrow> environment_handle \<Rightarrow> string \<Rightarrow> string \<Rightarrow> int \<Rightarrow>
    environment_denial option env_action" where
  "evaluate_filesystem resolve handle path hex now =
     (let denial = evaluate_filesystem_access resolve (eh_profile handle) path (eh_workspace_path handle);
          allowed = (denial = None);
          reason = (case denial of None \<Rightarrow> ''workspace-scoped path'' | Some d \<Rightarrow> ed_reason d)
      in then_a (modify_a (\<lambda>w. w\<lparr>ew_decisions := ew_decisions w @
             [\<lparr>dc_decision_id = ''envdec_'' @ hex, dc_environment_id = eh_environment_id handle, dc_run_id = eh_run_id handle,
               dc_tenant_id = eh_tenant_id handle, dc_category = ''filesystem'', dc_target = path, dc_allowed = allowed,
               dc_reason = reason, dc_decided_at = now\<rparr>]\<rparr>))
         (then_a (emit_env (if allowed then ''environment.access.allowed'' else ''environment.access.denied'') (eh_tenant_id handle) (eh_run_id handle)
             [(''environmentId'', eh_environment_id handle), (''category'', ''filesystem''), (''target'', path), (''reason'', reason)])
           (return_a denial)))"

subsection \<open>Secrets of an environment\<close>

definition on_secrets :: "'a secret_action \<Rightarrow> 'a env_action" where
  "on_secrets m w = (let (r, s) = m (ew_secrets w) in (map_sum SecretFailed id r, w\<lparr>ew_secrets := s\<rparr>))"

fun resolve_names :: "decryption \<Rightarrow> environment_handle \<Rightarrow> string list \<Rightarrow> (string \<times> string) list \<Rightarrow> secret_reference redactor \<Rightarrow>
    ((string \<times> string) list \<times> secret_reference redactor) env_action" where
  "resolve_names decrypt handle [] extra_env live = return_a (extra_env, live)"
| "resolve_names decrypt handle (name # names) extra_env live =
     bind_a (lift_a (map_sum SecretFailed id (make_reference (eh_tenant_id handle) (ep_profile_id (eh_profile handle)) name))) (\<lambda>ref.
     try_a (on_secrets (resolve_for_injection decrypt ref (eh_environment_id handle)))
       (\<lambda>h. resolve_names decrypt handle names (AList.update name (sh_value h) extra_env) (AList.update (sh_value h) ref live))
       (\<lambda>e. case e of
          SecretFailed (SecretNotFound _) \<Rightarrow> resolve_names decrypt handle names extra_env live
        | SecretFailed (SecretRevoked _ _) \<Rightarrow> resolve_names decrypt handle names extra_env live
        | _ \<Rightarrow> raise_a e))"

definition resolve_secrets_for_profile :: "decryption \<Rightarrow> environment_handle \<Rightarrow> (string \<times> string) list env_action" where
  "resolve_secrets_for_profile decrypt handle =
     bind_a (resolve_names decrypt handle (ep_env_allowlist (eh_profile handle)) [] []) (\<lambda>(extra_env, live).
     then_a (modify_a (\<lambda>w. w\<lparr>ew_resolved := (ew_resolved w)(eh_environment_id handle \<mapsto> live)\<rparr>)) (return_a extra_env))"

subsection \<open>Egress of artifacts\<close>

text \<open>\<open>str.encode("utf-8")\<close> on the code points 0 to 255.\<close>

definition utf8_char :: "char \<Rightarrow> string" where
  "utf8_char c = (let n = of_char c :: nat in if n < 128 then [c] else [char_of (192 + n div 64), char_of (128 + n mod 64)])"

definition encode_utf8 :: "string \<Rightarrow> string" where
  "encode_utf8 s = concat (map utf8_char s)"

definition on_artifacts :: "'a artifact_action \<Rightarrow> 'a env_action" where
  "on_artifacts m w = (let (r, a) = m (ew_artifacts w) in (map_sum ArtifactFailed id r, w\<lparr>ew_artifacts := a\<rparr>))"

definition audit_leaks :: "secret_reference redactor \<Rightarrow> string \<Rightarrow> environment_handle \<Rightarrow> string \<Rightarrow> unit env_action" where
  "audit_leaks live body handle location =
     each_a (\<lambda>(ref, loc). emit_env ''secret.leak.suspected'' (sr_tenant_id ref) (eh_run_id handle)
        [(''tenantId'', sr_tenant_id ref), (''project'', sr_project ref), (''name'', sr_name ref), (''runId'', eh_run_id handle), (''location'', loc)])
       (find_leaks live body location)"

text \<open>The settings of the quota, the digest and what the system does with the write of each key.\<close>

record egress_env =
  eg_quota :: quota_settings
  eg_digest :: "string \<Rightarrow> string"
  eg_io :: "string \<Rightarrow> write_io"

definition try_persist :: "egress_env \<Rightarrow> artifact_kind \<Rightarrow> string \<Rightarrow> string \<Rightarrow> string \<Rightarrow> environment_handle \<Rightarrow> bool env_action" where
  "try_persist eg kind key payload content_type handle =
     try_a (on_artifacts (persist_artifact (eg_quota eg) (eg_digest eg) (eg_io eg key) kind key payload content_type (eh_tenant_id handle)
         [(''environmentId'', PStr (eh_environment_id handle)), (''runId'', PStr (eh_run_id handle))]))
       (\<lambda>_. return_a True)
       (\<lambda>e. case e of
          ArtifactFailed OsError \<Rightarrow> return_a False
        | ArtifactFailed (QuotaFailed (QuotaExceeded _ _ _ _)) \<Rightarrow> return_a False
        | _ \<Rightarrow> raise_a e)"

definition egress :: "egress_env \<Rightarrow> secret_reference redactor \<Rightarrow> environment_handle \<Rightarrow> artifact_kind \<Rightarrow> string \<Rightarrow> string \<Rightarrow> string \<Rightarrow> string list env_action" where
  "egress eg live handle kind key body content_type =
     then_a (audit_leaks live body handle key)
     (bind_a (try_persist eg kind key (encode_utf8 (redactor_scrub live body)) content_type handle) (\<lambda>ok.
       return_a (if ok then [key] else [])))"

definition transcript :: "execution_result \<Rightarrow> string" where
  "transcript r = ''$ (exit '' @ (case er_exit_code r of None \<Rightarrow> ''None'' | Some i \<Rightarrow> str_int i) @ '')'' @ [CHR 0x0A] @ er_stdout r @
     [CHR 0x0A] @ ''--- stderr ---'' @ [CHR 0x0A] @ er_stderr r"

definition artifact_key :: "environment_handle \<Rightarrow> execution_result \<Rightarrow> string \<Rightarrow> string" where
  "artifact_key handle r ext = eh_tenant_id handle @ ''/environments/'' @ eh_environment_id handle @ ''/'' @ er_action_id r @ ext"

fun collect_each :: "egress_env \<Rightarrow> secret_reference redactor \<Rightarrow> environment_handle \<Rightarrow> execution_result list \<Rightarrow> string list env_action" where
  "collect_each eg live handle [] = return_a []"
| "collect_each eg live handle (r # rs) =
     bind_a (if er_stdout r \<noteq> [] \<or> er_stderr r \<noteq> []
             then egress eg live handle KindLog (artifact_key handle r ''.log'') (transcript r) ''text/plain'' else return_a []) (\<lambda>logs.
     bind_a (if er_diff r \<noteq> []
             then egress eg live handle KindRunExport (artifact_key handle r ''.diff'') (er_diff r) ''text/x-diff'' else return_a []) (\<lambda>diffs.
     bind_a (collect_each eg live handle rs) (\<lambda>rest. return_a (logs @ diffs @ rest))))"

text \<open>\<open>available\<close>: the artifact store and the table of pointers could be opened.\<close>

definition collect_artifacts :: "bool \<Rightarrow> egress_env \<Rightarrow> environment_handle \<Rightarrow> execution_result list \<Rightarrow> string list env_action" where
  "collect_artifacts available eg handle results =
     (if results = [] \<or> \<not> available then return_a []
      else bind_a (gets_a (\<lambda>w. case ew_resolved w (eh_environment_id handle) of None \<Rightarrow> [] | Some live \<Rightarrow> live)) (\<lambda>live.
        collect_each eg live handle results))"

subsection \<open>The scope of a batch\<close>

record env_scope =
  sc_handle :: "environment_handle option"
  sc_denied_reason :: "string option"
  sc_extra_env :: "(string \<times> string) list"

fun denial_text :: "env_error \<Rightarrow> string option" where
  "denial_text (CapacityExceeded tenant limit) =
     Some (''tenant '' @ repr_str tenant @ '' already has '' @ str_int limit @ '' active execution environments'')"
| "denial_text (EnvironmentBackendError reason) = Some reason"
| "denial_text e = None"

definition scope_provision :: "(environment_profile \<Rightarrow> string) \<Rightarrow> decryption \<Rightarrow> env_settings \<Rightarrow> string \<Rightarrow> string \<Rightarrow> string \<Rightarrow> string list \<Rightarrow>
    int \<Rightarrow> int \<Rightarrow> int \<Rightarrow> int \<Rightarrow> int \<Rightarrow> env_scope env_action" where
  "scope_provision content_hash decrypt st hex run tenant workspace cutoff torn now created now' =
     try_a (bind_a (provision content_hash st hex run tenant None workspace cutoff torn now created now') (\<lambda>handle.
            bind_a (resolve_secrets_for_profile decrypt handle) (\<lambda>extra.
              return_a \<lparr>sc_handle = Some handle, sc_denied_reason = None, sc_extra_env = extra\<rparr>)))
       return_a
       (\<lambda>e. case denial_text e of
          None \<Rightarrow> raise_a e
        | Some reason \<Rightarrow> return_a \<lparr>sc_handle = None, sc_denied_reason = Some (''execution environment unavailable: '' @ reason), sc_extra_env = []\<rparr>)"

definition scope_teardown :: "environment_backend_kind \<Rightarrow> bool \<Rightarrow> egress_env \<Rightarrow> env_scope \<Rightarrow> execution_result list \<Rightarrow> int \<Rightarrow> unit env_action" where
  "scope_teardown backend available eg scope results now =
     (case sc_handle scope of
        None \<Rightarrow> return_a ()
      | Some handle \<Rightarrow> then_a (collect_artifacts available eg handle results) (teardown backend handle ''completed'' now))"

subsection \<open>Reaping\<close>

definition env_ids :: "environment_record list \<Rightarrow> string set" where
  "env_ids rs = en_environment_id ` set rs"

definition orphaned :: "int \<Rightarrow> environment_record \<Rightarrow> environment_record" where
  "orphaned torn r = r\<lparr>en_status := EnvOrphaned, en_torn_down_at := Some torn\<rparr>"

lemma backend_teardown_ok [simp]: "backend_teardown backend handle = Inr ()"
  by (cases backend) simp_all

lemma teardown_effect:
  "\<exists>evs. teardown backend handle reason now w = (Inr (),
     w\<lparr>ew_environments := update_where (\<lambda>r. en_environment_id r = eh_environment_id handle)
         (\<lambda>r. r\<lparr>en_status := (if reason \<noteq> ''orphan_reaped'' then EnvTornDown else EnvOrphaned), en_torn_down_at := Some now\<rparr>) (ew_environments w),
       ew_resolved := (ew_resolved w)(eh_environment_id handle := None), ew_events := evs\<rparr>)"
  by (cases w) (simp add: teardown_def then_a_def bind_a_def modify_a_def lift_a_def mark_environment_def mark_status_def emit_env_def)

lemma reap_one_effect:
  "\<exists>evs. reap_one backend torn r w = (Inr (),
     w\<lparr>ew_environments := update_where (\<lambda>x. en_environment_id x = en_environment_id r) (orphaned torn) (ew_environments w),
       ew_resolved := (ew_resolved w)(en_environment_id r := None), ew_events := evs\<rparr>)"
  using teardown_effect [of backend "orphan_handle r" "''orphan_reaped''" torn w]
  by (auto simp: reap_one_def try_a_def return_a_def orphan_handle_def orphaned_def [abs_def])

lemma update_where_twice:
  "(\<And>r. q (f r) = q r) \<Longrightarrow> (\<And>r. f (f r) = f r) \<Longrightarrow> update_where q f (update_where p f rows) = update_where (\<lambda>r. p r \<or> q r) f rows"
  by (simp add: update_where_def)

lemma each_reap_effect:
  "\<exists>evs. each_a (reap_one backend torn) xs w = (Inr (),
     w\<lparr>ew_environments := update_where (\<lambda>r. en_environment_id r \<in> env_ids xs) (orphaned torn) (ew_environments w),
       ew_resolved := (\<lambda>i. if i \<in> env_ids xs then None else ew_resolved w i), ew_events := evs\<rparr>)"
proof (induction xs arbitrary: w)
  case Nil
  have "w = w\<lparr>ew_environments := ew_environments w, ew_resolved := ew_resolved w, ew_events := ew_events w\<rparr>" by simp
  then show ?case by (auto simp: return_a_def env_ids_def update_where_def intro!: exI [of _ "ew_events w"])
next
  case (Cons x xs)
  let ?one = "\<lambda>r. en_environment_id r = en_environment_id x"
  obtain e1 where one: "reap_one backend torn x w = (Inr (), w\<lparr>ew_environments := update_where ?one (orphaned torn) (ew_environments w),
       ew_resolved := (ew_resolved w)(en_environment_id x := None), ew_events := e1\<rparr>)"
    using reap_one_effect by blast
  let ?w1 = "w\<lparr>ew_environments := update_where ?one (orphaned torn) (ew_environments w),
       ew_resolved := (ew_resolved w)(en_environment_id x := None), ew_events := e1\<rparr>"
  obtain e2 where rest: "each_a (reap_one backend torn) xs ?w1 = (Inr (),
     ?w1\<lparr>ew_environments := update_where (\<lambda>r. en_environment_id r \<in> env_ids xs) (orphaned torn) (ew_environments ?w1),
       ew_resolved := (\<lambda>i. if i \<in> env_ids xs then None else ew_resolved ?w1 i), ew_events := e2\<rparr>)"
    using Cons.IH by blast
  have upd: "update_where (\<lambda>r. en_environment_id r \<in> env_ids xs) (orphaned torn) (ew_environments ?w1) =
      update_where (\<lambda>r. en_environment_id r \<in> env_ids (x # xs)) (orphaned torn) (ew_environments w)"
    by (simp, subst update_where_twice) (auto simp: orphaned_def env_ids_def)
  have res: "(\<lambda>i. if i \<in> env_ids xs then None else ew_resolved ?w1 i) = (\<lambda>i. if i \<in> env_ids (x # xs) then None else ew_resolved w i)"
    by (auto simp: env_ids_def)
  have "each_a (reap_one backend torn) (x # xs) w = each_a (reap_one backend torn) xs ?w1" by (simp add: then_a_def bind_a_def one)
  then show ?case unfolding rest unfolding upd res by (auto intro!: exI [of _ e2])
qed

definition expired_active :: "int \<Rightarrow> environment_record \<Rightarrow> bool" where
  "expired_active cutoff r \<longleftrightarrow> en_status r = EnvActive \<and> en_expires_at r \<le> cutoff"

lemma reap_orphans_effect:
  assumes "keyed en_environment_id (ew_environments w)"
  shows "\<exists>evs. reap_orphans backend cutoff torn w = (Inr (length (filter (expired_active cutoff) (ew_environments w))),
     w\<lparr>ew_environments := update_where (expired_active cutoff) (orphaned torn) (ew_environments w),
       ew_resolved := (\<lambda>i. if \<exists>r\<in>set (ew_environments w). expired_active cutoff r \<and> en_environment_id r = i then None else ew_resolved w i),
       ew_events := evs\<rparr>)"
proof -
  let ?rows = "ew_environments w"
  let ?xs = "list_expired_active cutoff ?rows"
  have xs: "?xs = filter (expired_active cutoff) ?rows" by (simp add: list_expired_active_def expired_active_def [abs_def])
  have ids: "en_environment_id r \<in> env_ids ?xs \<longleftrightarrow> expired_active cutoff r" if "r \<in> set ?rows" for r
    using assms that by (auto simp: xs env_ids_def keyed_def dest: distinct_map [THEN iffD1] inj_onD)
  then have "update_where (\<lambda>r. en_environment_id r \<in> env_ids ?xs) (orphaned torn) ?rows = update_where (expired_active cutoff) (orphaned torn) ?rows"
    by (simp add: update_where_def)
  moreover have "i \<in> env_ids ?xs \<longleftrightarrow> (\<exists>r\<in>set ?rows. expired_active cutoff r \<and> en_environment_id r = i)" for i
    by (auto simp: xs env_ids_def)
  ultimately show ?thesis using each_reap_effect [of backend torn ?xs w]
    by (auto simp: reap_orphans_def bind_a_def then_a_def gets_a_def return_a_def xs)
qed

subsection \<open>The ceiling\<close>

lemma env_count_amount: "count_active T t rows = amount (\<lambda>r. if env_live T t r then 1 else 0) rows"
  by (simp add: count_active_def count_amount)

lemma env_count_later: "t \<le> t' \<Longrightarrow> count_active T t' rows \<le> count_active T t rows"
  by (auto simp: env_count_amount env_live_def intro!: amount_mono)

lemma count_active_retire:
  "(\<And>r. en_status (f r) \<noteq> EnvActive) \<Longrightarrow> count_active T t (update_where p f rows) \<le> count_active T t rows"
  by (auto simp: env_count_amount amount_update_where env_live_def intro!: amount_mono)

lemma count_active_orphaned: "count_active T t (update_where p (orphaned torn) rows) \<le> count_active T t rows"
  by (rule count_active_retire) (simp add: orphaned_def)

lemma reap_orphans_fewer: "count_active T t (ew_environments (snd (reap_orphans backend cutoff torn w))) \<le> count_active T t (ew_environments w)"
  using each_reap_effect [of backend torn "list_expired_active cutoff (ew_environments w)" w]
  by (auto simp: reap_orphans_def bind_a_def then_a_def gets_a_def return_a_def count_active_orphaned)

lemma reap_orphans_returns: "\<exists>n. fst (reap_orphans backend cutoff torn w) = Inr n"
  using each_reap_effect [of backend torn "list_expired_active cutoff (ew_environments w)" w]
  by (auto simp: reap_orphans_def bind_a_def then_a_def gets_a_def return_a_def)

lemma admit_effect:
  "admit st tenant cutoff torn now w =
     (let w' = snd (reap_orphans (resolve_backend (es_backend st)) cutoff torn w)
      in (if es_max_concurrent st \<le> count_active tenant now (ew_environments w')
          then Inl (CapacityExceeded tenant (es_max_concurrent st)) else Inr (), w'))"
  using reap_orphans_returns [of "resolve_backend (es_backend st)" cutoff torn w]
  by (cases "reap_orphans (resolve_backend (es_backend st)) cutoff torn w")
    (auto simp: admit_def then_a_def bind_a_def gets_a_def raise_a_def return_a_def Let_def)

definition fresh_environment :: "(environment_profile \<Rightarrow> string) \<Rightarrow> env_settings \<Rightarrow> string \<Rightarrow> string \<Rightarrow> string \<Rightarrow> environment_profile \<Rightarrow>
    string list \<Rightarrow> int \<Rightarrow> int \<Rightarrow> environment_record" where
  "fresh_environment content_hash st hex run tenant profile workspace created now =
     \<lparr>en_environment_id = ''env_'' @ hex, en_run_id = run, en_tenant_id = tenant, en_backend_kind = HARDENED_CONTAINER,
      en_profile_id = ep_profile_id profile, en_profile_hash = content_hash profile, en_workspace_path = workspace,
      en_status = EnvActive, en_created_at = created, en_expires_at = now + es_ttl_seconds st * MICROS, en_torn_down_at = None\<rparr>"

definition isolates :: "env_settings \<Rightarrow> environment_profile \<Rightarrow> bool" where
  "isolates st profile \<longleftrightarrow> resolve_backend (es_backend st) = HARDENED_CONTAINER \<and>
     (np_deny_all (ep_network_policy profile) \<or> np_allowlist (ep_network_policy profile) = [])"

lemma establish_outcome:
  assumes "establish content_hash st hex run tenant profile workspace created now w = (r, w')"
  shows "if \<not> isolates st profile then (\<exists>reason. r = Inl (EnvironmentBackendError reason)) \<and> w' = w
    else if select_one en_environment_id (''env_'' @ hex) (ew_environments w) \<noteq> None then r = Inl EnvironmentIntegrity \<and> w' = w
    else (\<exists>handle. r = Inr handle \<and> eh_environment_id handle = ''env_'' @ hex \<and> eh_tenant_id handle = tenant \<and> eh_profile handle = profile) \<and>
      ew_environments w' = ew_environments w @ [fresh_environment content_hash st hex run tenant profile workspace created now] \<and>
      ew_secrets w' = ew_secrets w \<and> ew_artifacts w' = ew_artifacts w \<and> ew_resolved w' = ew_resolved w"
  using assms
  by (cases "resolve_backend (es_backend st)")
    (auto simp: establish_def isolates_def evaluate_network_provisioning_def bind_a_def then_a_def lift_a_def in_environments_def
      create_environment_def emit_env_def modify_a_def return_a_def fresh_environment_def Let_def split: if_splits)

lemma provision_outcome:
  assumes "provision content_hash st hex run tenant profile workspace cutoff torn now created now' w = (r, w')"
  defines "swept \<equiv> snd (reap_orphans (resolve_backend (es_backend st)) cutoff torn w)"
    and "p \<equiv> (case profile of None \<Rightarrow> default_profile | Some p \<Rightarrow> p)"
  shows "if es_max_concurrent st \<le> count_active tenant now (ew_environments swept)
    then r = Inl (CapacityExceeded tenant (es_max_concurrent st)) \<and> w' = swept
    else establish content_hash st hex run tenant p workspace created now' swept = (r, w')"
  using assms by (auto simp: provision_def then_a_def bind_a_def admit_effect Let_def split: if_splits)

text \<open>
  Any operation, at an instant that is not before the last one. Everything but provisioning, teardown
  and reaping leaves the table of environments as it is.
\<close>

inductive env_step :: "(environment_profile \<Rightarrow> string) \<Rightarrow> env_settings \<Rightarrow> int \<times> env_world \<Rightarrow> int \<times> env_world \<Rightarrow> bool" for content_hash st where
  provision: "t \<le> now \<Longrightarrow> env_step content_hash st (t, w)
    (now, snd (provision content_hash st hex run tenant profile workspace cutoff torn now created now' w))"
| teardown: "t \<le> now \<Longrightarrow> env_step content_hash st (t, w) (now, snd (teardown backend handle reason now w))"
| reap: "t \<le> now \<Longrightarrow> env_step content_hash st (t, w) (now, snd (reap_orphans backend cutoff now w))"
| other: "t \<le> now \<Longrightarrow> ew_environments w' = ew_environments w \<Longrightarrow> env_step content_hash st (t, w) (now, w')"

lemma provision_within:
  assumes "count_active T now (ew_environments w) \<le> es_max_concurrent st"
  shows "count_active T now (ew_environments (snd (provision content_hash st hex run tenant profile workspace cutoff torn now created now' w))) \<le>
    es_max_concurrent st"
proof -
  let ?p = "case profile of None \<Rightarrow> default_profile | Some p \<Rightarrow> p"
  let ?s = "snd (reap_orphans (resolve_backend (es_backend st)) cutoff torn w)"
  obtain r w' where pr: "provision content_hash st hex run tenant profile workspace cutoff torn now created now' w = (r, w')" by (metis prod.exhaust)
  have fewer: "count_active T now (ew_environments ?s) \<le> es_max_concurrent st"
    using assms reap_orphans_fewer [of T now "resolve_backend (es_backend st)" cutoff torn w] by simp
  show ?thesis
  proof (cases "es_max_concurrent st \<le> count_active tenant now (ew_environments ?s)")
    case True
    then show ?thesis using provision_outcome [OF pr] fewer pr by simp
  next
    case False
    then have est: "establish content_hash st hex run tenant ?p workspace created now' ?s = (r, w')" using provision_outcome [OF pr] by simp
    from establish_outcome [OF est] False fewer show ?thesis
      by (auto simp: pr env_count_amount env_live_def fresh_environment_def split: if_splits)
  qed
qed

lemma env_step_within:
  assumes "env_step content_hash st s s'" and "count_active T (fst s) (ew_environments (snd s)) \<le> es_max_concurrent st"
  shows "count_active T (fst s') (ew_environments (snd s')) \<le> es_max_concurrent st"
proof -
  obtain t w now w' where s: "s = (t, w)" "s' = (now, w')" by (metis prod.exhaust)
  have "t \<le> now" using assms(1) s by (auto elim: env_step.cases)
  then have now: "count_active T now (ew_environments w) \<le> es_max_concurrent st"
    using assms(2) s env_count_later [of t now T "ew_environments w"] by simp
  from assms(1) show ?thesis
  proof cases
    case (provision t now w hex run tenant profile workspace cutoff torn created now')
    then show ?thesis using now s provision_within by simp
  next
    case (teardown t now w backend handle reason)
    then show ?thesis using now s teardown_effect [of backend handle reason now w]
        count_active_retire [of "\<lambda>r. r\<lparr>en_status := (if reason \<noteq> ''orphan_reaped'' then EnvTornDown else EnvOrphaned), en_torn_down_at := Some now\<rparr>"
          T now "\<lambda>r. en_environment_id r = eh_environment_id handle" "ew_environments w"]
      by auto
  next
    case (reap t now w backend cutoff)
    then show ?thesis using now s reap_orphans_fewer [of T now backend cutoff now w] by simp
  next
    case (other t now w' w)
    then show ?thesis using now s by simp
  qed
qed

interpretation env_places: capped_steps "\<lambda>_. True" "\<lambda>s. count_active T (fst s) (ew_environments (snd s))"
    "env_step content_hash st" "es_max_concurrent st" for content_hash st T
  by unfold_locales (blast intro: env_step_within)+

definition no_environments :: env_world where
  "no_environments = \<lparr>ew_environments = [], ew_decisions = [], ew_resolved = Map.empty, ew_secrets = no_secrets [] [],
     ew_artifacts = empty_artifacts, ew_events = []\<rparr>"

text \<open>
  C19. The ceiling on environments. In any sequence of provisions, teardowns and sweeps, of any
  tenants and in any order, a tenant never has more active environments than the configured maximum.
\<close>

theorem environments_within_ceiling:
  assumes "(env_step content_hash st)\<^sup>*\<^sup>* (t, w) (t', w')" and "ew_environments w = []" and "0 \<le> es_max_concurrent st"
  shows "count_active T t' (ew_environments w') \<le> es_max_concurrent st"
  using env_places.reachable_within [OF assms(1), of T] assms(2,3) by (simp add: count_active_def)

definition sample_env_settings :: env_settings where
  "sample_env_settings = \<lparr>es_backend = [], es_max_concurrent = 1, es_ttl_seconds = 60\<rparr>"

theorem environments_within_ceiling_witness:
  "\<exists>w'. (env_step (\<lambda>_. []) sample_env_settings)\<^sup>*\<^sup>* (0, no_environments) (6, w') \<and>
     count_active ''acme'' 6 (ew_environments w') = 1 \<and> count_active ''acme'' 6 (ew_environments w') \<le> es_max_concurrent sample_env_settings"
proof -
  let ?w1 = "snd (provision (\<lambda>_. []) sample_env_settings ''a'' ''r1'' ''acme'' None [''/''] 5 5 5 5 5 no_environments)"
  let ?w2 = "snd (provision (\<lambda>_. []) sample_env_settings ''b'' ''r2'' ''acme'' None [''/''] 6 6 6 6 6 ?w1)"
  have "env_step (\<lambda>_. []) sample_env_settings (0, no_environments) (5, ?w1)" by (rule env_step.provision) simp
  moreover have "env_step (\<lambda>_. []) sample_env_settings (5, ?w1) (6, ?w2)" by (rule env_step.provision) simp
  ultimately have "(env_step (\<lambda>_. []) sample_env_settings)\<^sup>*\<^sup>* (0, no_environments) (6, ?w2)"
    by (meson converse_rtranclp_into_rtranclp rtranclp.rtrancl_refl)
  moreover from this have "count_active ''acme'' 6 (ew_environments ?w2) \<le> es_max_concurrent sample_env_settings"
    by (rule environments_within_ceiling) (simp_all add: no_environments_def sample_env_settings_def)
  moreover have "count_active ''acme'' 6 (ew_environments ?w2) = 1" by code_simp
  ultimately show ?thesis by blast
qed

subsection \<open>Provisioning\<close>

text \<open>
  C20. Provisioning fails closed. A request is refused, with no environment created, exactly when the
  tenant is at its ceiling, the configured backend is not the recognised one, or the profile asks for
  an allowlist that cannot be enforced; otherwise one active environment of the tenant is created
  with the configured time to live. Expired environments, of all tenants, are orphaned first in
  either case, and nothing else changes.
\<close>

theorem provision_fails_closed:
  assumes "keyed en_environment_id (ew_environments w)" and "select_one en_environment_id (''env_'' @ hex) (ew_environments w) = None"
    and "provision content_hash st hex run tenant (Some profile) workspace cutoff torn now created now' w = (r, w')"
  shows "let swept = update_where (expired_active cutoff) (orphaned torn) (ew_environments w);
      admitted = (count_active tenant now swept < es_max_concurrent st \<and> isolates st profile)
    in ew_environments w' = swept @
         (if admitted then [fresh_environment content_hash st hex run tenant profile workspace created now'] else []) \<and>
       (if admitted then \<exists>handle. r = Inr handle \<and> eh_environment_id handle = ''env_'' @ hex \<and> eh_tenant_id handle = tenant
        else if es_max_concurrent st \<le> count_active tenant now swept then r = Inl (CapacityExceeded tenant (es_max_concurrent st))
        else \<exists>reason. r = Inl (EnvironmentBackendError reason)) \<and>
       ew_secrets w' = ew_secrets w \<and> ew_artifacts w' = ew_artifacts w \<and> ew_decisions w' = ew_decisions w"
proof -
  let ?swept = "update_where (expired_active cutoff) (orphaned torn) (ew_environments w)"
  let ?s = "snd (reap_orphans (resolve_backend (es_backend st)) cutoff torn w)"
  have s: "ew_environments ?s = ?swept" "ew_secrets ?s = ew_secrets w" "ew_artifacts ?s = ew_artifacts w" "ew_decisions ?s = ew_decisions w"
    using reap_orphans_effect [OF assms(1), of "resolve_backend (es_backend st)" cutoff torn] by auto
  have none: "select_one en_environment_id (''env_'' @ hex) ?swept = None"
    using assms(2) by (subst select_one_update_where) (auto simp: orphaned_def)
  note outcome = provision_outcome [OF assms(3)]
  show ?thesis
  proof (cases "es_max_concurrent st \<le> count_active tenant now ?swept")
    case True
    then show ?thesis using outcome s by (auto simp: Let_def)
  next
    case False
    then have est: "establish content_hash st hex run tenant profile workspace created now' ?s = (r, w')" using outcome s by simp
    have "ew_decisions w' = ew_decisions ?s"
      using est by (auto simp: establish_def bind_a_def then_a_def lift_a_def in_environments_def emit_env_def modify_a_def return_a_def
          split: sum.splits prod.splits)
    then show ?thesis using False establish_outcome [OF est] s none by (auto simp: Let_def split: if_splits)
  qed
qed

theorem provision_fails_closed_witness:
  "(case provision (\<lambda>_. []) (sample_env_settings\<lparr>es_backend := ''hardend_container''\<rparr>) ''a'' ''r1'' ''acme'' (Some default_profile) [''/''] 5 5 5 5 5 no_environments of
      (Inl (EnvironmentBackendError reason), w') \<Rightarrow> ew_environments w' = [] | _ \<Rightarrow> False) \<and>
   (case provision (\<lambda>_. []) sample_env_settings ''a'' ''r1'' ''acme'' (Some default_profile) [''/''] 5 5 5 5 5 no_environments of
      (Inr handle, w') \<Rightarrow> length (ew_environments w') = 1 | _ \<Rightarrow> False)"
proof -
  let ?typo = "sample_env_settings\<lparr>es_backend := ''hardend_container''\<rparr>"
  have "resolve_backend ''hardend_container'' = UNAVAILABLE \<and> resolve_backend [] = HARDENED_CONTAINER" by code_simp
  then have i: "\<not> isolates ?typo default_profile" "isolates sample_env_settings default_profile"
    by (simp_all add: isolates_def sample_env_settings_def default_profile_def)
  obtain r w1 where one: "provision (\<lambda>_. []) ?typo ''a'' ''r1'' ''acme'' (Some default_profile) [''/''] 5 5 5 5 5 no_environments = (r, w1)" by (metis prod.exhaust)
  obtain q w2 where two: "provision (\<lambda>_. []) sample_env_settings ''a'' ''r1'' ''acme'' (Some default_profile) [''/''] 5 5 5 5 5 no_environments = (q, w2)" by (metis prod.exhaust)
  have k: "keyed en_environment_id (ew_environments no_environments)" "select_one en_environment_id (''env_'' @ ''a'') (ew_environments no_environments) = None"
    and c: "count_active ''acme'' 5 (update_where (expired_active 5) (orphaned 5) (ew_environments no_environments)) = 0"
    and e: "update_where (expired_active 5) (orphaned 5) (ew_environments no_environments) = []"
    and m: "es_max_concurrent ?typo = 1" "es_max_concurrent sample_env_settings = 1"
    by (simp_all add: no_environments_def count_active_def update_where_def sample_env_settings_def)
  show ?thesis using provision_fails_closed [OF k one] provision_fails_closed [OF k two] i c e m one two
    by (cases r; cases q) (auto simp: Let_def split: env_error.splits)
qed

text \<open>
  Counting and creating are separate transactions. Two requests of one tenant that are both counted
  before either is recorded are both admitted to the last free place, and the tenant is above its
  ceiling.
\<close>

theorem interleaved_provisions_exceed:
  assumes "filter (expired_active cutoff) (ew_environments w) = []" and "isolates st profile" and "hex1 \<noteq> hex2"
    and "select_one en_environment_id (''env_'' @ hex1) (ew_environments w) = None"
    and "select_one en_environment_id (''env_'' @ hex2) (ew_environments w) = None"
    and "count_active tenant now (ew_environments w) = es_max_concurrent st - 1" and "0 < es_ttl_seconds st" and "now \<le> now1" and "now \<le> now2"
  shows "\<exists>w1 w2. admit st tenant cutoff torn now w = (Inr (), w1) \<and> admit st tenant cutoff torn now w1 = (Inr (), w2) \<and>
    (\<exists>h1 h2 w3 w4. establish content_hash st hex1 run1 tenant profile workspace created now1 w2 = (Inr h1, w3) \<and>
      establish content_hash st hex2 run2 tenant profile workspace created now2 w3 = (Inr h2, w4) \<and>
      count_active tenant now (ew_environments w4) = es_max_concurrent st + 1)"
proof -
  have "list_expired_active cutoff (ew_environments w) = []"
    using assms(1) by (simp add: list_expired_active_def expired_active_def [abs_def])
  then have "snd (reap_orphans backend cutoff torn w) = w" for backend
    by (simp add: reap_orphans_def bind_a_def then_a_def gets_a_def return_a_def)
  then have ad: "admit st tenant cutoff torn now w = (Inr (), w)" using assms(6) by (simp add: admit_effect Let_def)
  obtain r3 w3 where e1: "establish content_hash st hex1 run1 tenant profile workspace created now1 w = (r3, w3)" by (metis prod.exhaust)
  obtain r4 w4 where e2: "establish content_hash st hex2 run2 tenant profile workspace created now2 w3 = (r4, w4)" by (metis prod.exhaust)
  from establish_outcome [OF e1] assms(2,4) have one: "\<exists>h1. r3 = Inr h1"
      "ew_environments w3 = ew_environments w @ [fresh_environment content_hash st hex1 run1 tenant profile workspace created now1]"
    by (auto split: if_splits)
  have "select_one en_environment_id (''env_'' @ hex2) (ew_environments w3) = None"
    using assms(3,5) one(2) by (simp add: select_one_append fresh_environment_def)
  with establish_outcome [OF e2] assms(2) have two: "\<exists>h2. r4 = Inr h2"
      "ew_environments w4 = ew_environments w3 @ [fresh_environment content_hash st hex2 run2 tenant profile workspace created now2]"
    by (auto split: if_splits)
  have "0 < es_ttl_seconds st * MICROS" using assms(7) by (simp add: MICROS_def)
  then have "count_active tenant now (ew_environments w4) = es_max_concurrent st + 1"
    using assms(6,8,9) by (simp add: one(2) two(2) env_count_amount env_live_def fresh_environment_def)
  then show ?thesis using ad one(1) two(1) e1 e2 by blast
qed

theorem interleaved_provisions_exceed_witness:
  "\<exists>w1 w2. admit sample_env_settings ''acme'' 5 5 5 no_environments = (Inr (), w1) \<and> admit sample_env_settings ''acme'' 5 5 5 w1 = (Inr (), w2) \<and>
    (\<exists>h1 h2 w3 w4. establish (\<lambda>_. []) sample_env_settings ''a'' ''r1'' ''acme'' default_profile [''/''] 5 5 w2 = (Inr h1, w3) \<and>
      establish (\<lambda>_. []) sample_env_settings ''b'' ''r2'' ''acme'' default_profile [''/''] 5 5 w3 = (Inr h2, w4) \<and>
      count_active ''acme'' 5 (ew_environments w4) = 2)"
proof -
  have "resolve_backend [] = HARDENED_CONTAINER" by code_simp
  then have i: "isolates sample_env_settings default_profile" by (simp add: isolates_def sample_env_settings_def default_profile_def)
  have m: "es_max_concurrent sample_env_settings = 1" "0 < es_ttl_seconds sample_env_settings" by (simp_all add: sample_env_settings_def)
  have n: "ew_environments no_environments = []" by (simp add: no_environments_def)
  show ?thesis
    using interleaved_provisions_exceed [of 5 no_environments sample_env_settings default_profile "''a''" "''b''" "''acme''" 5 5 5 5 "\<lambda>_. []" "''r1''" "[''/'']" 5 "''r2''"]
      i m n by (simp add: count_active_def)
qed

end
