(* ===== verification/Environment_Egress.thy ===== *)
theory Environment_Egress
  imports Environments
begin

text \<open>
  What leaves an environment: the secrets that were injected into it do not, as long as the
  environment is neither torn down nor reaped before its artifacts are collected.
\<close>

subsection \<open>Encoded texts\<close>

lemma encode_simps [simp]: "encode_utf8 [] = []" "encode_utf8 (c # s) = utf8_char c @ encode_utf8 s"
  by (simp_all add: encode_utf8_def)

lemma utf8_char_cases:
  obtains (plain) "(of_char c :: nat) < 128" and "utf8_char c = [c]"
  | (pair) a b where "128 \<le> (of_char c :: nat)" and "utf8_char c = [a, b]" and "(of_char a :: nat) = 192 + of_char c div 64"
      and "(of_char b :: nat) = 128 + of_char c mod 64"
proof (cases "(of_char c :: nat) < 128")
  case True
  then show ?thesis by (intro plain) (simp_all add: utf8_char_def)
next
  case False
  let ?n = "of_char c :: nat"
  have "?n < 256" by (rule nat_of_char_less_256)
  then have "?n div 64 < 4" by (simp add: less_mult_imp_div_less)
  moreover have "?n mod 64 < 64" by simp
  ultimately have "(of_char (char_of (192 + ?n div 64) :: char) :: nat) = 192 + ?n div 64" "(of_char (char_of (128 + ?n mod 64) :: char) :: nat) = 128 + ?n mod 64"
    by (simp_all add: mod_less)
  then show ?thesis using False by (intro pair [of "char_of (192 + ?n div 64)" "char_of (128 + ?n mod 64)"]) (simp_all add: utf8_char_def Let_def)
qed

text \<open>The encoding of a character is neither a part nor the beginning of that of another one.\<close>

lemma utf8_char_unique: "utf8_char x @ p = utf8_char c @ q \<Longrightarrow> x = c \<and> p = q"
proof -
  assume eq: "utf8_char x @ p = utf8_char c @ q"
  show ?thesis
  proof (cases x rule: utf8_char_cases)
    case plain
    then show ?thesis using eq by (cases c rule: utf8_char_cases) auto
  next
    case x: (pair a b)
    show ?thesis
    proof (cases c rule: utf8_char_cases)
      case plain
      then show ?thesis using eq x by auto
    next
      case (pair a' b')
      then have "a' = a" "b' = b" "p = q" using eq x(2) by auto
      then have "(of_char x :: nat) div 64 = of_char c div 64" "(of_char x :: nat) mod 64 = of_char c mod 64" using x(3,4) pair(3,4) by auto
      then have "(of_char x :: nat) = of_char c" by (metis div_mult_mod_eq)
      then show ?thesis using \<open>p = q\<close> of_char_eq_iff by blast
    qed
  qed
qed

lemma encode_prefix: "prefix (encode_utf8 v) (encode_utf8 s) \<Longrightarrow> prefix v s"
proof (induction v arbitrary: s)
  case (Cons x v)
  have ne: "utf8_char x \<noteq> []" by (cases x rule: utf8_char_cases) auto
  obtain c s' where s: "s = c # s'" using Cons.prems ne by (cases s) auto
  obtain r where "utf8_char x @ (encode_utf8 v @ r) = utf8_char c @ encode_utf8 s'" using Cons.prems s by (auto simp: prefix_def)
  then have "x = c" "prefix (encode_utf8 v) (encode_utf8 s')" using utf8_char_unique by (blast, metis prefixI utf8_char_unique)
  then show ?case using Cons.IH s by simp
qed simp

lemma encode_sublist: "v \<noteq> [] \<Longrightarrow> sublist (encode_utf8 v) (encode_utf8 s) \<Longrightarrow> sublist v s"
proof (induction s)
  case Nil
  then show ?case by (cases v; cases "hd v" rule: utf8_char_cases) auto
next
  case (Cons c s)
  have "\<not> prefix (encode_utf8 v) (b # encode_utf8 s)" if b: "128 \<le> (of_char b :: nat)" "(of_char b :: nat) < 192" for b
  proof (cases v)
    case (Cons x v')
    then show ?thesis using b by (cases x rule: utf8_char_cases) auto
  qed (use Cons.prems in simp)
  then have "prefix (encode_utf8 v) (encode_utf8 (c # s)) \<or> sublist (encode_utf8 v) (encode_utf8 s)"
    using Cons.prems(2) by (cases c rule: utf8_char_cases) (auto simp: sublist_Cons_right)
  then show ?case
  proof
    assume "prefix (encode_utf8 v) (encode_utf8 (c # s))"
    then have "prefix v (c # s)" by (rule encode_prefix)
    then show ?thesis by (rule prefix_imp_sublist)
  next
    assume "sublist (encode_utf8 v) (encode_utf8 s)"
    then show ?thesis using Cons by (simp add: sublist_Cons_right)
  qed
qed

subsection \<open>What a collection writes\<close>

definition clean :: "string \<Rightarrow> string \<Rightarrow> bool" where
  "clean v payload \<longleftrightarrow> \<not> sublist (encode_utf8 v) payload"

lemma clean_take: "clean v payload \<Longrightarrow> clean v (take n payload)"
  unfolding clean_def by (meson sublist_order.order_trans sublist_take)

lemma clean_scrubbed:
  assumes "removable v" and "v \<in> set (map fst live)"
  shows "clean v (encode_utf8 (redactor_scrub live body))"
  using scrub_removes [OF assms, of body] encode_sublist [of v] assms(1) unfolding clean_def redactor_scrub_def removable_def by blast

text \<open>Every file is one of the files \<open>old\<close> or does not hold the secret.\<close>

definition contained :: "stored_file set \<Rightarrow> string \<Rightarrow> local_store \<Rightarrow> bool" where
  "contained old v s \<longleftrightarrow> (\<forall>f\<in>set (fs_files s). f \<in> old \<or> clean v (fl_payload f))"

lemma contained_write: "contained old v s \<Longrightarrow> clean v payload \<Longrightarrow> contained old v (write_file p payload now s)"
  by (auto simp: contained_def write_file_def dest!: set_upsert_row)

lemma contained_dirs [simp]: "contained old v (s\<lparr>fs_dirs := ds\<rparr>) = contained old v s"
  by (simp add: contained_def)

lemma put_contained:
  "clean v payload \<Longrightarrow> preserves (contained old v) (put_artifact digest io kind key payload ct)"
  by (auto simp: preserves_def put_artifact_def Let_def split: sum.splits write_outcome.splits intro!: contained_write clean_take)

lemma preserves_on:
  "preserves P m \<Longrightarrow> preserves (\<lambda>w. P (aw_store w)) (on_store m)"
  "preserves (\<lambda>w. P (aw_store w)) (on_quota q)" "preserves (\<lambda>w. P (aw_store w)) (on_pointers t)"
  "preserves R n \<Longrightarrow> preserves (\<lambda>w. R (ew_artifacts w)) (on_artifacts n)"
  by (auto simp: preserves_def on_store_def on_quota_def on_pointers_def on_artifacts_def split: prod.splits)

lemma preserves_case_bool:
  "(b \<Longrightarrow> preserves I m) \<Longrightarrow> (\<not> b \<Longrightarrow> preserves I n) \<Longrightarrow> preserves I (case b of True \<Rightarrow> m | False \<Rightarrow> n)"
  by (cases b) auto

lemma persist_contained:
  assumes "clean v payload"
  shows "preserves (\<lambda>w. contained old v (aw_store w)) (persist_artifact st digest io kind key payload ct tenant ctx)"
  unfolding persist_artifact_def
  by (intro preserves_intros preserves_on put_contained assms preserves_case_bool)

definition store_of :: "env_world \<Rightarrow> local_store" where
  "store_of w = aw_store (ew_artifacts w)"

lemma emit_contained: "preserves (\<lambda>w. P (store_of w)) (emit_env ty tenant part data)"
  by (simp add: preserves_def emit_env_def modify_a_def store_of_def)

lemma audit_contained: "preserves (\<lambda>w. P (store_of w)) (audit_leaks live body handle location)"
  unfolding audit_leaks_def by (intro preserves_intros emit_contained)

lemma try_persist_contained:
  assumes "clean v payload"
  shows "preserves (\<lambda>w. contained old v (store_of w)) (try_persist eg kind key payload ct handle)"
proof -
  have "preserves (\<lambda>w. contained old v (store_of w)) (case e of ArtifactFailed OsError \<Rightarrow> return_a False
        | ArtifactFailed (QuotaFailed (QuotaExceeded _ _ _ _)) \<Rightarrow> return_a False | _ \<Rightarrow> raise_a e)" for e
    by (auto simp: preserves_def return_a_def raise_a_def split: env_error.splits artifact_error.splits quota_error.splits)
  then show ?thesis unfolding try_persist_def
    by (intro preserves_intros preserves_on(4) [where R = "\<lambda>a. contained old v (aw_store a)", folded store_of_def] persist_contained assms)
qed

lemma egress_contained:
  "removable v \<Longrightarrow> v \<in> set (map fst live) \<Longrightarrow>
   preserves (\<lambda>w. contained old v (store_of w)) (egress eg live handle kind key body ct)"
  unfolding egress_def by (intro preserves_intros audit_contained try_persist_contained clean_scrubbed)

lemma collect_each_contained:
  "removable v \<Longrightarrow> v \<in> set (map fst live) \<Longrightarrow>
   preserves (\<lambda>w. contained old v (store_of w)) (collect_each eg live handle results)"
proof (induction results)
  case (Cons r results)
  note IH = Cons.IH [OF Cons.prems] and out = egress_contained [OF Cons.prems]
  show ?case unfolding collect_each.simps by (intro preserves_intros IH out)
qed (auto intro!: preserves_intros)

subsection \<open>Injected secrets\<close>

lemma set_update_alist: "set (AList.update k v al) \<subseteq> insert (k, v) (set al)"
  by (induction al) auto

lemma resolve_names_values:
  assumes "resolve_names decrypt handle names extra live w = (Inr (extra', live'), w')" and "snd ` set extra \<subseteq> fst ` set live"
  shows "snd ` set extra' \<subseteq> fst ` set live'"
  using assms
proof (induction names arbitrary: extra live w)
  case (Cons name names)
  have step: "snd ` set (AList.update name v extra) \<subseteq> fst ` set (AList.update v ref live)" for v ref
    using Cons.prems(2) set_update_alist [of name v extra] by (force simp: dom_update)
  obtain ref where ref: "make_reference (eh_tenant_id handle) (ep_profile_id (eh_profile handle)) name = Inr ref"
    using Cons.prems(1)
    by (cases "make_reference (eh_tenant_id handle) (ep_profile_id (eh_profile handle)) name") (auto simp: bind_a_def lift_a_def)
  obtain q w1 where q: "on_secrets (resolve_for_injection decrypt ref (eh_environment_id handle)) w = (q, w1)" by (metis prod.exhaust)
  show ?case
  proof (cases q)
    case (Inl e)
    then have "resolve_names decrypt handle names extra live w1 = (Inr (extra', live'), w')"
      using Cons.prems(1) ref q by (auto simp: bind_a_def lift_a_def try_a_def raise_a_def split: env_error.splits secret_error.splits)
    then show ?thesis using Cons by blast
  next
    case (Inr h)
    then have "resolve_names decrypt handle names (AList.update name (sh_value h) extra) (AList.update (sh_value h) ref live) w1 =
        (Inr (extra', live'), w')"
      using Cons.prems(1) ref q by (auto simp: bind_a_def lift_a_def try_a_def)
    then show ?thesis using Cons.IH step by blast
  qed
qed (simp add: return_a_def)

lemma resolve_secrets_effect:
  assumes "resolve_secrets_for_profile decrypt handle w = (Inr extra, w1)"
  obtains live where "ew_resolved w1 (eh_environment_id handle) = Some live" and "snd ` set extra \<subseteq> fst ` set live"
proof -
  obtain q w2 where q: "resolve_names decrypt handle (ep_env_allowlist (eh_profile handle)) [] [] w = (q, w2)" by (metis prod.exhaust)
  then obtain live where "q = Inr (extra, live)" "ew_resolved w1 (eh_environment_id handle) = Some live"
    using assms by (cases q) (auto simp: resolve_secrets_for_profile_def bind_a_def then_a_def modify_a_def return_a_def)
  then show thesis using that resolve_names_values [of decrypt handle _ "[]" "[]" w] q by simp
qed

text \<open>
  C11. Injected secrets stay inside. After the secrets of an environment's allowlist have been resolved
  for injection, and while the environment is neither torn down nor reaped, whatever its actions
  print, whatever the other secrets are and however the writes fail, no file that the collection of its
  artifacts creates contains the UTF-8 encoding of an injected value, provided that the value is not
  empty, has no asterisk and is not a part of the marker's own text.
\<close>

theorem injected_secrets_stay_inside:
  assumes "resolve_secrets_for_profile decrypt handle w = (Inr extra, w1)"
    and "ew_resolved w2 (eh_environment_id handle) = ew_resolved w1 (eh_environment_id handle)"
    and "collect_artifacts available eg handle results w2 = (r, w3)"
    and "f \<in> set (fs_files (store_of w3))" and "f \<notin> set (fs_files (store_of w2))" and "(name, v) \<in> set extra" and "removable v"
  shows "\<not> sublist (encode_utf8 v) (fl_payload f)"
proof -
  obtain live where live: "ew_resolved w1 (eh_environment_id handle) = Some live" "snd ` set extra \<subseteq> fst ` set live"
    using resolve_secrets_effect [OF assms(1)] .
  then have v: "v \<in> set (map fst live)" using assms(6) by force
  let ?old = "set (fs_files (store_of w2))"
  have "contained ?old v (store_of w2)" by (simp add: contained_def)
  then have "contained ?old v (store_of (snd (collect_each eg live handle results w2)))"
    by (rule preservesD [OF collect_each_contained [OF assms(7) v]])
  then have "contained ?old v (store_of w3)"
    using assms(2,3) live(1)
    by (auto simp: collect_artifacts_def bind_a_def gets_a_def return_a_def contained_def split: if_splits)
  then show ?thesis using assms(4,5) by (auto simp: contained_def clean_def)
qed

definition env_secret_action :: execution_result where
  "env_secret_action = \<lparr>er_action_id = ''act1'', er_task_id = ''t'', er_step_key = ''s'', er_status = ''succeeded'', er_started_at = 0, er_completed_at = 0,
     er_stdout = [], er_stderr = [], er_exit_code = None, er_diff = ''+key=hunter2'', er_artifacts = [], er_error = None, er_environment = [],
     er_command = None, er_path = None, er_failure_kind = None\<rparr>"

definition env_secret_handle :: environment_handle where
  "env_secret_handle = \<lparr>eh_environment_id = ''env_a'', eh_run_id = ''r1'', eh_tenant_id = ''acme'',
     eh_profile = default_profile\<lparr>ep_env_allowlist := [''TOKEN'', ''HOME'']\<rparr>, eh_backend_kind = HARDENED_CONTAINER, eh_workspace_path = [''/'']\<rparr>"

definition sample_egress :: egress_env where
  "sample_egress = \<lparr>eg_quota = sample_settings False, eg_digest = rev, eg_io = (\<lambda>_. sample_io 7)\<rparr>"

text \<open>A world with a provisioned environment and a stored secret, whose values have been resolved.\<close>

definition env_secret_world :: env_world where
  "env_secret_world = (let w = snd (provision (\<lambda>_. []) sample_env_settings ''a'' ''r1'' ''acme'' (Some (eh_profile env_secret_handle)) [''/''] 5 5 5 5 5 no_environments)
     in w\<lparr>ew_secrets := snd (service_create toy_encrypt sample_reference ''hunter2'' ''admin'' ''nonce'' 1 (ew_secrets w))\<rparr>)"

definition env_resolved_world :: env_world where
  "env_resolved_world = snd (resolve_secrets_for_profile toy_decrypt env_secret_handle env_secret_world)"

theorem injected_secrets_stay_inside_witness:
  "fst (resolve_secrets_for_profile toy_decrypt env_secret_handle env_secret_world) = Inr [(''TOKEN'', ''hunter2'')] \<and>
   (\<exists>f\<in>set (fs_files (store_of (snd (collect_artifacts True sample_egress env_secret_handle [env_secret_action] env_resolved_world)))).
      fl_payload f = ''+key='' @ REDACTED_MARKER \<and> \<not> sublist ''hunter2'' (fl_payload f))"
proof -
  let ?w3 = "snd (collect_artifacts True sample_egress env_secret_handle [env_secret_action] env_resolved_world)"
  have e: "fst (resolve_secrets_for_profile toy_decrypt env_secret_handle env_secret_world) = Inr [(''TOKEN'', ''hunter2'')]" by code_simp
  then have res: "resolve_secrets_for_profile toy_decrypt env_secret_handle env_secret_world = (Inr [(''TOKEN'', ''hunter2'')], env_resolved_world)"
    by (simp add: env_resolved_world_def prod_eq_iff)
  have rm: "removable ''hunter2''" by code_simp
  have enc: "encode_utf8 ''hunter2'' = ''hunter2''" by code_simp
  have old: "fs_files (store_of env_resolved_world) = []" by code_simp
  have "map fl_payload (fs_files (store_of ?w3)) = [''+key='' @ REDACTED_MARKER]" by code_simp
  then obtain f where f: "fs_files (store_of ?w3) = [f]" "fl_payload f = ''+key='' @ REDACTED_MARKER" by auto
  have "\<not> sublist ''hunter2'' (fl_payload f)"
    using injected_secrets_stay_inside [OF res refl, of True sample_egress "[env_secret_action]" "fst (collect_artifacts True sample_egress env_secret_handle [env_secret_action] env_resolved_world)"
        ?w3 f "''TOKEN''" "''hunter2''"] f old rm enc by simp
  then show ?thesis using e f by simp
qed

subsection \<open>When the secrets are forgotten too early\<close>

lemma persisted_readable:
  assumes "persist_artifact st digest io kind key payload ct tenant ctx w = (Inr a, w')"
  shows "get_artifact (bucket_for kind) key (aw_store w') = Inr payload"
proof -
  obtain p w1 w2 where wr: "write_artifact digest io kind key payload ct tenant ctx w1 = (Inr (p, a), w2)" and "aw_store w' = aw_store w2"
    using assms unfolding persist_artifact_def write_artifact_def [symmetric]
    by (auto simp: bind_a_def then_a_def try_a_def return_a_def raise_a_def on_quota_def service_commit_storage_def modify_a_def
        split: prod.splits sum.splits bool.splits option.splits)
  then have "get_artifact (bucket_for kind) (strip key) (aw_store w') = Inr payload" using write_artifact_effect [OF wr] by auto
  then show ?thesis by (simp add: get_artifact_def validate_object_key_def strip_idem)
qed

lemma map_sum_InrD: "map_sum f id x = Inr y \<Longrightarrow> x = Inr y"
  by (cases x) auto

lemma egress_readable:
  assumes "egress eg live handle kind key body ct w = (Inr [key'], w')"
  shows "get_artifact (bucket_for kind) key (store_of w') = Inr (encode_utf8 (redactor_scrub live body))"
proof -
  obtain w1 ok where "try_persist eg kind key (encode_utf8 (redactor_scrub live body)) ct handle w1 = (Inr ok, w')" "ok"
    using assms by (auto simp: egress_def bind_a_def then_a_def return_a_def split: prod.splits sum.splits if_splits)
  then obtain a a' where "persist_artifact (eg_quota eg) (eg_digest eg) (eg_io eg key) kind key (encode_utf8 (redactor_scrub live body)) ct (eh_tenant_id handle)
        [(''environmentId'', PStr (eh_environment_id handle)), (''runId'', PStr (eh_run_id handle))] (ew_artifacts w1) = (Inr a, a')" "w' = w1\<lparr>ew_artifacts := a'\<rparr>"
    by (auto simp: try_persist_def try_a_def on_artifacts_def return_a_def raise_a_def
        split: prod.splits sum.splits env_error.splits artifact_error.splits quota_error.splits dest!: map_sum_InrD)
  then show ?thesis using persisted_readable by (simp add: store_of_def)
qed

text \<open>
  C40. The sweep for orphans forgets the secrets of every environment past its time to live, also of one
  whose batch is still running. What such a batch then collects is stored in clear.
\<close>

theorem reaped_environment_leaks:
  assumes "keyed en_environment_id (ew_environments w)" and "row \<in> set (ew_environments w)" and "expired_active cutoff row"
    and "eh_environment_id handle = en_environment_id row" and "reap_orphans backend cutoff torn w = (n, w1)"
    and "er_stdout res = []" and "er_stderr res = []" and "er_diff res \<noteq> []"
    and "collect_artifacts True eg handle [res] w1 = (Inr [key], w2)"
  shows "get_artifact (bucket_for KindRunExport) (artifact_key handle res ''.diff'') (store_of w2) = Inr (encode_utf8 (er_diff res))"
proof -
  have "ew_resolved w1 (eh_environment_id handle) = None"
    using reap_orphans_effect [OF assms(1), of backend cutoff torn] assms(2-5) by auto
  then have "\<exists>keys. egress eg [] handle KindRunExport (artifact_key handle res ''.diff'') (er_diff res) ''text/x-diff'' w1 = (Inr keys, w2) \<and> keys = [key]"
    using assms(6-9)
    by (auto simp: collect_artifacts_def bind_a_def gets_a_def return_a_def split: prod.splits sum.splits)
  then show ?thesis using egress_readable by (fastforce simp: redactor_scrub_def)
qed

theorem reaped_environment_leaks_witness:
  "get_artifact ''run-exports'' ''acme/environments/env_a/act1.diff''
     (store_of (snd (collect_artifacts True sample_egress env_secret_handle [env_secret_action]
       (snd (reap_orphans HARDENED_CONTAINER (70 * MICROS) (70 * MICROS) env_resolved_world))))) = Inr ''+key=hunter2''"
proof -
  let ?w1 = "snd (reap_orphans HARDENED_CONTAINER (70 * MICROS) (70 * MICROS) env_resolved_world)"
  let ?c = "collect_artifacts True sample_egress env_secret_handle [env_secret_action] ?w1"
  have "list_all (expired_active (70 * MICROS)) (ew_environments env_resolved_world) \<and>
      map en_environment_id (ew_environments env_resolved_world) = [''env_a'']" by code_simp
  then obtain row where row: "ew_environments env_resolved_world = [row]" "expired_active (70 * MICROS) row" "en_environment_id row = ''env_a''" by auto
  have "fst ?c = Inr [''acme/environments/env_a/act1.diff'']" by code_simp
  then have c: "?c = (Inr [''acme/environments/env_a/act1.diff''], snd ?c)" by (simp add: prod_eq_iff)
  have r: "reap_orphans HARDENED_CONTAINER (70 * MICROS) (70 * MICROS) env_resolved_world = (fst (reap_orphans HARDENED_CONTAINER (70 * MICROS) (70 * MICROS) env_resolved_world), ?w1)" by simp
  have k: "keyed en_environment_id (ew_environments env_resolved_world)" "row \<in> set (ew_environments env_resolved_world)"
      "eh_environment_id env_secret_handle = en_environment_id row" "er_stdout env_secret_action = []" "er_stderr env_secret_action = []" "er_diff env_secret_action \<noteq> []"
    using row by (simp_all add: keyed_def env_secret_handle_def env_secret_action_def)
  have "artifact_key env_secret_handle env_secret_action ''.diff'' = ''acme/environments/env_a/act1.diff''"
      "encode_utf8 (er_diff env_secret_action) = ''+key=hunter2''" by code_simp+
  then show ?thesis using reaped_environment_leaks [OF k(1,2) row(2) k(3) r k(4-6) c] by simp
qed

lemma each_events:
  assumes "\<And>x w. \<exists>evs. f x w = (Inr (), w\<lparr>ew_events := evs\<rparr>)"
  shows "\<exists>evs. each_a f xs w = (Inr (), w\<lparr>ew_events := evs\<rparr>)"
proof (induction xs arbitrary: w)
  case Nil
  have "w = w\<lparr>ew_events := ew_events w\<rparr>" by simp
  then show ?case by (metis each_a.simps(1) return_a_def)
next
  case (Cons x xs)
  obtain e1 where "f x w = (Inr (), w\<lparr>ew_events := e1\<rparr>)" using assms by blast
  then show ?case using Cons.IH [of "w\<lparr>ew_events := e1\<rparr>"] by (simp add: then_a_def bind_a_def)
qed

lemma audit_events: "\<exists>evs. audit_leaks live body handle location w = (Inr (), w\<lparr>ew_events := evs\<rparr>)"
  unfolding audit_leaks_def by (rule each_events) (auto simp: emit_env_def modify_a_def)

text \<open>
  Egress is not best-effort for a tenant without a quota policy. The error of the missing policy is
  not among those that the collection catches, so ending the scope of a batch raises it before the
  teardown, and the environment stays active.
\<close>

theorem missing_policy_skips_teardown:
  assumes "resolve_policy (eg_quota eg) (eh_tenant_id handle) (quota_rows (ew_artifacts w)) = Inl (QuotaPolicyMissing tenant)"
    and "sc_handle scope = Some handle" and "er_diff res \<noteq> [] \<or> er_stdout res \<noteq> [] \<or> er_stderr res \<noteq> []"
    and "scope_teardown backend True eg scope (res # results) now w = (r, w')"
  shows "r = Inl (ArtifactFailed (QuotaFailed (QuotaPolicyMissing tenant))) \<and> ew_environments w' = ew_environments w"
proof -
  have persist: "persist_artifact (eg_quota eg) digest io kind key payload ct (eh_tenant_id handle) ctx a = (Inl (QuotaFailed (QuotaPolicyMissing tenant)), a)"
    if "aw_quota a = aw_quota (ew_artifacts w)" for digest io kind key payload ct ctx a
    using assms(1) that
    by (cases a) (simp add: persist_artifact_def bind_a_def on_quota_def service_reserve_storage_def resolve_policy_a_def quota_rows_def)
  have eg: "\<exists>evs. egress eg live handle kind key body ct w = (Inl (ArtifactFailed (QuotaFailed (QuotaPolicyMissing tenant))), w\<lparr>ew_events := evs\<rparr>)" for live kind key body ct
    using audit_events [of live body handle key w] persist
    by (cases w) (auto simp: egress_def then_a_def bind_a_def try_persist_def try_a_def on_artifacts_def raise_a_def)
  let ?live = "case ew_resolved w (eh_environment_id handle) of None \<Rightarrow> [] | Some live \<Rightarrow> live"
  obtain e1 e2 where out:
    "egress eg ?live handle KindLog (artifact_key handle res ''.log'') (transcript res) ''text/plain'' w =
       (Inl (ArtifactFailed (QuotaFailed (QuotaPolicyMissing tenant))), w\<lparr>ew_events := e1\<rparr>)"
    "egress eg ?live handle KindRunExport (artifact_key handle res ''.diff'') (er_diff res) ''text/x-diff'' w =
       (Inl (ArtifactFailed (QuotaFailed (QuotaPolicyMissing tenant))), w\<lparr>ew_events := e2\<rparr>)"
    using eg by blast
  show ?thesis using assms(2-4)
    by (cases "er_stdout res = [] \<and> er_stderr res = []")
      (auto simp: scope_teardown_def collect_artifacts_def then_a_def bind_a_def gets_a_def return_a_def out)
qed

theorem missing_policy_skips_teardown_witness:
  "fst (scope_teardown HARDENED_CONTAINER True (sample_egress\<lparr>eg_quota := sample_settings True\<rparr>)
       \<lparr>sc_handle = Some env_secret_handle, sc_denied_reason = None, sc_extra_env = []\<rparr> [env_secret_action] 9 env_resolved_world) =
     Inl (ArtifactFailed (QuotaFailed (QuotaPolicyMissing ''acme''))) \<and>
   map en_status (ew_environments (snd (scope_teardown HARDENED_CONTAINER True (sample_egress\<lparr>eg_quota := sample_settings True\<rparr>)
       \<lparr>sc_handle = Some env_secret_handle, sc_denied_reason = None, sc_extra_env = []\<rparr> [env_secret_action] 9 env_resolved_world))) = [EnvActive]"
proof -
  let ?t = "scope_teardown HARDENED_CONTAINER True (sample_egress\<lparr>eg_quota := sample_settings True\<rparr>)
       \<lparr>sc_handle = Some env_secret_handle, sc_denied_reason = None, sc_extra_env = []\<rparr> [env_secret_action] 9 env_resolved_world"
  have "(case resolve_policy (sample_settings True) ''acme'' (quota_rows (ew_artifacts env_resolved_world)) of
      Inl (QuotaPolicyMissing t) \<Rightarrow> t = ''acme'' | _ \<Rightarrow> False) \<and> map en_status (ew_environments env_resolved_world) = [EnvActive]" by code_simp
  moreover from this have "resolve_policy (eg_quota (sample_egress\<lparr>eg_quota := sample_settings True\<rparr>)) (eh_tenant_id env_secret_handle)
      (quota_rows (ew_artifacts env_resolved_world)) = Inl (QuotaPolicyMissing ''acme'')"
    by (auto simp: env_secret_handle_def split: sum.splits quota_error.splits)
  moreover have "er_diff env_secret_action \<noteq> []" by (simp add: env_secret_action_def)
  ultimately show ?thesis
    using missing_policy_skips_teardown [of "sample_egress\<lparr>eg_quota := sample_settings True\<rparr>" env_secret_handle env_resolved_world "''acme''"
        "\<lparr>sc_handle = Some env_secret_handle, sc_denied_reason = None, sc_extra_env = []\<rparr>" env_secret_action HARDENED_CONTAINER "[]" 9 "fst ?t" "snd ?t"]
    by simp
qed

end
