(* ===== verification/Agent_Selector.thy ===== *)
theory Agent_Selector
  imports Py_Value "HOL-Library.AList" "HOL-Library.List_Lexorder" "HOL-Library.Char_ord" "HOL-Library.Multiset"
begin

text \<open>
  The selector of agents (\<^verbatim>\<open>backend/routing/selector.py\<close> and \<^verbatim>\<open>selector_scoring.py\<close>, with
  \<open>find_by_capability\<close> of \<^verbatim>\<open>backend/agents/registry_v2.py\<close>). The registry is the list of the registered versions,
  unique by agent and version, as its primary key has it. The order of versions is the \<^verbatim>\<open>packaging\<close> library's: the
  parameters \<open>vkey\<close>, which maps the text of a version to its place in that order, and \<open>major\<close>. A set is
  iterated in an arbitrary order, the parameter \<open>shuffle\<close>. Floats are rational numbers, so that sums are exact.
\<close>

subsection \<open>Agents and requests\<close>

record agent_budgets =
  ab_tokens_input :: int
  ab_tokens_output :: int
  ab_cost_usd :: rat
  ab_wall_clock_seconds :: int
  ab_max_steps :: int
  ab_max_tool_calls :: int
  ab_on_exceeded :: string

record agent_capability =
  ac_id :: string
  ac_version :: string
  ac_level :: string

text \<open>What the selector reads of a manifest.\<close>

record agent_manifest =
  am_capabilities :: "agent_capability list"
  am_budgets :: agent_budgets
  am_policy :: "(string \<times> pyval) list"

record agent_ref =
  ag_agent_id :: string
  ag_version :: string
  ag_plugin_id :: string
  ag_manifest :: agent_manifest
  ag_score :: rat
  ag_deprecated :: bool
  ag_deprecation_reason :: string

record select_budget =
  sb_tokens :: int
  sb_cost_usd :: rat
  sb_time_s :: int

record select_fallback =
  sf_agent_id :: string
  sf_model :: string
  sf_reasoning_strategy :: string

record select_decision =
  sd_agent_id :: string
  sd_agent_version :: string
  sd_model :: string
  sd_reasoning_strategy :: string
  sd_budget :: select_budget
  sd_fallbacks :: "select_fallback list"
  sd_score_basis :: string

record score_aggregate =
  sa_quality :: rat
  sa_cost_usd :: rat
  sa_latency_seconds :: rat
  sa_sample_count :: nat

record score_snapshot =
  ss_snapshot_id :: string
  ss_scores :: "(string \<times> rat) list"
  ss_agent_scores :: "(string \<times> score_aggregate) list"
  ss_sample_count :: nat
  ss_created_at :: string
  ss_source_run_ids :: "string list"

datatype selector_stage =
    CapabilityMatching bool
  | CostAware string bool
  | ScoreWeighted "(string \<times> rat) list"

record selector_pipeline =
  sp_stages :: "selector_stage list"
  sp_tie_breaker :: string

datatype select_error = NoEligibleAgent "string list"

definition ref_key :: "agent_ref \<Rightarrow> string \<times> string" where
  "ref_key r = (ag_agent_id r, ag_version r)"

text \<open>\<open>sort(reverse=True)\<close> keeps the order of equal elements.\<close>

definition rsort_key :: "('a \<Rightarrow> 'b::linorder) \<Rightarrow> 'a list \<Rightarrow> 'a list" where
  "rsort_key k xs = rev (sort_key k (rev xs))"

subsection \<open>Capabilities\<close>

definition find_by_capability :: "(string \<Rightarrow> 'v::linorder) \<Rightarrow> (string \<Rightarrow> nat) \<Rightarrow> string \<Rightarrow> agent_ref list \<Rightarrow> agent_ref list" where
  "find_by_capability vkey major capability registry =
     rsort_key ag_score (rsort_key (\<lambda>r. vkey (ag_version r)) (rsort_key ag_agent_id
       (List.map_filter (\<lambda>r. map_option (\<lambda>c. r\<lparr>ag_score := (if ac_level c = ''primary'' then 100 else 50) + of_nat (major (ag_version r))\<rparr>)
          (List.find (\<lambda>c. ac_id c = capability) (am_capabilities (ag_manifest r)))) registry)))"

definition ref_dict :: "agent_ref list \<Rightarrow> ((string \<times> string) \<times> agent_ref) list" where
  "ref_dict refs = fold (\<lambda>r. AList.update (ref_key r) r) refs []"

text \<open>\<open>list(dict.fromkeys(xs))\<close>: the first occurrences, in order.\<close>

definition from_keys :: "'a list \<Rightarrow> 'a list" where
  "from_keys xs = rev (remdups (rev xs))"

fun set_intersection :: "'a list list \<Rightarrow> 'a list" where
  "set_intersection [] = []"
| "set_intersection [xs] = xs"
| "set_intersection (xs # yss) = filter (\<lambda>x. x \<in> set (set_intersection yss)) xs"

definition summed_score :: "((string \<times> string) \<times> agent_ref) list list \<Rightarrow> string \<times> string \<Rightarrow> rat" where
  "summed_score per k = sum_list (map (\<lambda>d. case map_of d k of None \<Rightarrow> 0 | Some r \<Rightarrow> ag_score r) per)"

definition last_reference :: "((string \<times> string) \<times> agent_ref) list list \<Rightarrow> string \<times> string \<Rightarrow> agent_ref option" where
  "last_reference per k = (case List.map_filter (\<lambda>d. map_of d k) per of [] \<Rightarrow> None | r # rs \<Rightarrow> Some (last (r # rs)))"

type_synonym key_order = "(string \<times> string) list \<Rightarrow> (string \<times> string) list"

definition match_capabilities :: "key_order \<Rightarrow> (string \<Rightarrow> 'v::linorder) \<Rightarrow> (string \<Rightarrow> nat) \<Rightarrow> agent_ref list \<Rightarrow> string list \<Rightarrow> bool \<Rightarrow>
    agent_ref list option \<Rightarrow> agent_ref list" where
  "match_capabilities shuffle vkey major registry required require_all candidates =
     (if required = [] then (case candidates of Some cs \<Rightarrow> cs | None \<Rightarrow> registry)
      else
        (let in_pool = (\<lambda>r. case candidates of None \<Rightarrow> True | Some cs \<Rightarrow> ref_key r \<in> ref_key ` set cs);
             per = map (\<lambda>c. ref_dict (filter in_pool (find_by_capability vkey major c registry))) (from_keys required);
             key_sets = map (map fst) per;
             keys = (if require_all then set_intersection key_sets else remdups (concat key_sets))
         in List.map_filter (\<lambda>k. map_option (\<lambda>r. r\<lparr>ag_score := summed_score per k\<rparr>) (last_reference per k)) (shuffle keys)))"

subsection \<open>Budgets\<close>

definition fits_run_budget :: "agent_budgets \<Rightarrow> select_budget \<Rightarrow> bool" where
  "fits_run_budget b run \<longleftrightarrow>
     \<not> (0 < sb_tokens run \<and> sb_tokens run < ab_tokens_input b + ab_tokens_output b) \<and>
     \<not> (0 < sb_cost_usd run \<and> sb_cost_usd run < ab_cost_usd b) \<and>
     \<not> (0 < sb_time_s run \<and> sb_time_s run < ab_wall_clock_seconds b)"

definition apply_cost_aware :: "agent_ref list \<Rightarrow> select_budget \<Rightarrow> bool \<Rightarrow> agent_ref list" where
  "apply_cost_aware candidates budget respect_run_budget =
     (if \<not> respect_run_budget then candidates else filter (\<lambda>r. fits_run_budget (am_budgets (ag_manifest r)) budget) candidates)"

definition select_budget_for_candidate :: "agent_budgets \<Rightarrow> select_budget \<Rightarrow> select_budget" where
  "select_budget_for_candidate b run =
     (let tokens = ab_tokens_input b + ab_tokens_output b
      in \<lparr>sb_tokens = (if 0 < sb_tokens run then min tokens (sb_tokens run) else tokens),
          sb_cost_usd = (if 0 < sb_cost_usd run then min (ab_cost_usd b) (sb_cost_usd run) else ab_cost_usd b),
          sb_time_s = (if 0 < sb_time_s run then min (ab_wall_clock_seconds b) (sb_time_s run) else ab_wall_clock_seconds b)\<rparr>)"

subsection \<open>Scores\<close>

definition resolve_agent_score :: "agent_ref \<Rightarrow> score_snapshot \<Rightarrow> score_aggregate option" where
  "resolve_agent_score r s =
     (let versioned = ag_agent_id r @ ''@'' @ ag_version r;
          plain = (\<lambda>q. \<lparr>sa_quality = q, sa_cost_usd = 0, sa_latency_seconds = 0, sa_sample_count = 0\<rparr>)
      in case map_of (ss_agent_scores s) versioned of
           Some a \<Rightarrow> Some a
         | None \<Rightarrow> (case map_of (ss_agent_scores s) (ag_agent_id r) of
             Some a \<Rightarrow> Some a
           | None \<Rightarrow> (case map_of (ss_scores s) versioned of
               Some q \<Rightarrow> Some (plain q)
             | None \<Rightarrow> map_option plain (map_of (ss_scores s) (ag_agent_id r)))))"

definition value_range :: "rat list \<Rightarrow> rat \<times> rat" where
  "value_range vs = (case vs of [] \<Rightarrow> (0, 0) | v # rest \<Rightarrow> (fold min rest v, fold max rest v))"

definition normalize_value :: "rat \<Rightarrow> rat \<times> rat \<Rightarrow> rat" where
  "normalize_value v bounds = (if snd bounds \<le> fst bounds then 1 / 2 else (v - fst bounds) / (snd bounds - fst bounds))"

definition weight_of :: "string \<Rightarrow> (string \<times> rat) list \<Rightarrow> rat" where
  "weight_of k weights = (case map_of weights k of None \<Rightarrow> 0 | Some x \<Rightarrow> x)"

definition blended_score :: "(string \<times> rat) list \<Rightarrow> rat \<times> rat \<Rightarrow> rat \<times> rat \<Rightarrow> score_aggregate option \<Rightarrow> rat" where
  "blended_score weights cost_range latency_range aggregate =
     (case aggregate of
        None \<Rightarrow> 0
      | Some a \<Rightarrow> weight_of ''quality'' weights * sa_quality a +
          weight_of ''cost'' weights * (1 - normalize_value (sa_cost_usd a) cost_range) +
          weight_of ''latency'' weights * (1 - normalize_value (sa_latency_seconds a) latency_range))"

definition apply_score_weighted :: "agent_ref list \<Rightarrow> (string \<times> rat) list \<Rightarrow> score_snapshot option \<Rightarrow> agent_ref list \<times> bool" where
  "apply_score_weighted candidates weights scores =
     (case scores of
        None \<Rightarrow> (candidates, False)
      | Some s \<Rightarrow>
          if weights = [] then (candidates, False)
          else (let present = List.map_filter (\<lambda>r. resolve_agent_score r s) candidates;
                    cost_range = value_range (map sa_cost_usd present);
                    latency_range = value_range (map sa_latency_seconds present)
                in (map (\<lambda>r. r\<lparr>ag_score := blended_score weights cost_range latency_range (resolve_agent_score r s)\<rparr>) candidates, True)))"

subsection \<open>The pipeline\<close>

definition objective_sort_key :: "string \<Rightarrow> agent_ref \<Rightarrow> rat" where
  "objective_sort_key objective r =
     (if objective = ''minimize_latency'' then of_int (ab_wall_clock_seconds (am_budgets (ag_manifest r)))
      else if objective = ''maximize_quality'' then - ag_score r
      else ab_cost_usd (am_budgets (ag_manifest r)))"

definition deterministic_order :: "(string \<Rightarrow> 'v::linorder) \<Rightarrow> string \<Rightarrow> string \<Rightarrow> agent_ref list \<Rightarrow> agent_ref list" where
  "deterministic_order vkey objective tie_breaker candidates =
     (let by_id = sort_key ag_agent_id candidates;
          by_version = rsort_key (\<lambda>r. vkey (ag_version r)) by_id;
          by_cost = (if tie_breaker = ''lowest_cost'' then sort_key (\<lambda>r. ab_cost_usd (am_budgets (ag_manifest r))) by_version else by_version)
      in sort_key (objective_sort_key objective) by_cost)"

fun evaluate_selector_stage :: "key_order \<Rightarrow> (string \<Rightarrow> 'v::linorder) \<Rightarrow> (string \<Rightarrow> nat) \<Rightarrow> string list \<Rightarrow> select_budget \<Rightarrow> agent_ref list \<Rightarrow>
    score_snapshot option \<Rightarrow> selector_stage \<Rightarrow> agent_ref list option \<times> string \<Rightarrow> agent_ref list option \<times> string" where
  "evaluate_selector_stage shuffle vkey major required budget registry scores (CapabilityMatching require_all) (candidates, objective) =
     (Some (match_capabilities shuffle vkey major registry required require_all candidates), objective)"
| "evaluate_selector_stage shuffle vkey major required budget registry scores (CostAware stage_objective respect) (candidates, objective) =
     (Some (apply_cost_aware (case candidates of Some cs \<Rightarrow> cs | None \<Rightarrow> registry) budget respect), stage_objective)"
| "evaluate_selector_stage shuffle vkey major required budget registry scores (ScoreWeighted weights) (candidates, objective) =
     (let (weighted, applied) = apply_score_weighted (case candidates of Some cs \<Rightarrow> cs | None \<Rightarrow> registry) weights scores
      in (Some weighted, if applied then ''maximize_quality'' else objective))"

definition run_pipeline :: "key_order \<Rightarrow> (string \<Rightarrow> 'v::linorder) \<Rightarrow> (string \<Rightarrow> nat) \<Rightarrow> string list \<Rightarrow> select_budget \<Rightarrow> selector_pipeline \<Rightarrow>
    agent_ref list \<Rightarrow> score_snapshot option \<Rightarrow> agent_ref list" where
  "run_pipeline shuffle vkey major required budget pipeline registry scores =
     (let (candidates, objective) = fold (evaluate_selector_stage shuffle vkey major required budget registry scores) (sp_stages pipeline) (None, ''minimize_cost'')
      in deterministic_order vkey objective (sp_tie_breaker pipeline) (case candidates of Some cs \<Rightarrow> cs | None \<Rightarrow> registry))"

subsection \<open>Decisions\<close>

definition DEFAULT_MODEL :: string where "DEFAULT_MODEL = ''provider/default-model''"
definition DEFAULT_REASONING_STRATEGY :: string where "DEFAULT_REASONING_STRATEGY = ''react''"
definition MAX_FALLBACKS :: nat where "MAX_FALLBACKS = 3"

definition policy_text :: "string \<Rightarrow> string \<Rightarrow> agent_manifest \<Rightarrow> string" where
  "policy_text key fallback m = (case map_of (am_policy m) key of Some (PStr s) \<Rightarrow> if s \<noteq> [] then s else fallback | _ \<Rightarrow> fallback)"

definition resolve_model :: "agent_manifest \<Rightarrow> string" where
  "resolve_model m = policy_text ''model'' DEFAULT_MODEL m"

definition resolve_reasoning_strategy :: "agent_manifest \<Rightarrow> string" where
  "resolve_reasoning_strategy m = policy_text ''reasoning_strategy'' DEFAULT_REASONING_STRATEGY m"

definition to_select_decision :: "agent_ref \<Rightarrow> agent_ref list \<Rightarrow> select_budget \<Rightarrow> score_snapshot option \<Rightarrow> select_decision" where
  "to_select_decision chosen fallbacks budget scores =
     \<lparr>sd_agent_id = ag_agent_id chosen, sd_agent_version = ag_version chosen, sd_model = resolve_model (ag_manifest chosen),
      sd_reasoning_strategy = resolve_reasoning_strategy (ag_manifest chosen),
      sd_budget = select_budget_for_candidate (am_budgets (ag_manifest chosen)) budget,
      sd_fallbacks = map (\<lambda>r. \<lparr>sf_agent_id = ag_agent_id r, sf_model = resolve_model (ag_manifest r),
        sf_reasoning_strategy = resolve_reasoning_strategy (ag_manifest r)\<rparr>) fallbacks,
      sd_score_basis = (case scores of Some s \<Rightarrow> ss_snapshot_id s | None \<Rightarrow> [])\<rparr>"

definition select_agent :: "key_order \<Rightarrow> (string \<Rightarrow> 'v::linorder) \<Rightarrow> (string \<Rightarrow> nat) \<Rightarrow> string list \<Rightarrow> select_budget \<Rightarrow> selector_pipeline \<Rightarrow>
    agent_ref list \<Rightarrow> score_snapshot option \<Rightarrow> (select_error, select_decision) result" where
  "select_agent shuffle vkey major required budget pipeline registry scores =
     (case run_pipeline shuffle vkey major required budget pipeline registry scores of
        [] \<Rightarrow> Inl (NoEligibleAgent required)
      | chosen # rest \<Rightarrow> Inr (to_select_decision chosen (take MAX_FALLBACKS rest) budget scores))"

subsection \<open>Stable sorting\<close>

text \<open>A stable sort refines the order of the list by the key.\<close>

definition refine_by :: "('a \<Rightarrow> 'b::linorder) \<Rightarrow> ('a \<Rightarrow> 'a \<Rightarrow> bool) \<Rightarrow> 'a \<Rightarrow> 'a \<Rightarrow> bool" where
  "refine_by k R a b \<longleftrightarrow> k a < k b \<or> k a = k b \<and> R a b"

definition refine_down :: "('a \<Rightarrow> 'b::linorder) \<Rightarrow> ('a \<Rightarrow> 'a \<Rightarrow> bool) \<Rightarrow> 'a \<Rightarrow> 'a \<Rightarrow> bool" where
  "refine_down k R a b \<longleftrightarrow> k b < k a \<or> k a = k b \<and> R a b"

lemma insort_refines:
  "sorted_wrt (refine_by k R) zs \<Longrightarrow> \<forall>z\<in>set zs. R x z \<Longrightarrow> sorted_wrt (refine_by k R) (insort_key k x zs)"
proof (induction zs)
  case (Cons y zs)
  show ?case
  proof (cases "k x \<le> k y")
    case True
    have "refine_by k R x z" if "z \<in> set (y # zs)" for z
      using True that Cons.prems by (auto simp: refine_by_def)
    then show ?thesis using True Cons.prems by simp
  next
    case False
    then show ?thesis using Cons by (auto simp: refine_by_def set_insort_key)
  qed
qed simp

lemma sort_refines: "sorted_wrt R xs \<Longrightarrow> sorted_wrt (refine_by k R) (sort_key k xs)"
  by (induction xs) (auto intro: insort_refines)

lemma rsort_refines: "sorted_wrt R xs \<Longrightarrow> sorted_wrt (refine_down k R) (rsort_key k xs)"
proof -
  assume "sorted_wrt R xs"
  then have "sorted_wrt (\<lambda>a b. R b a) (rev xs)" by (simp add: sorted_wrt_rev)
  then have "sorted_wrt (refine_by k (\<lambda>a b. R b a)) (sort_key k (rev xs))" by (rule sort_refines)
  moreover have "(\<lambda>a b. refine_down k R b a) = refine_by k (\<lambda>a b. R b a)" by (auto simp: fun_eq_iff refine_by_def refine_down_def)
  ultimately show ?thesis by (simp add: rsort_key_def sorted_wrt_rev)
qed

lemma set_rsort [simp]: "set (rsort_key k xs) = set xs"
  by (simp add: rsort_key_def)

lemma distinct_rsort: "distinct (map f (rsort_key k xs)) = distinct (map f xs)"
proof -
  have "mset (map f (rsort_key k xs)) = mset (map f xs)" by (simp add: rsort_key_def)
  then show ?thesis by (metis mset_eq_imp_distinct_iff)
qed

lemma distinct_sort_key: "distinct (map f (sort_key k xs)) = distinct (map f xs)"
proof -
  have "mset (map f (sort_key k xs)) = mset (map f xs)" by simp
  then show ?thesis by (metis mset_eq_imp_distinct_iff)
qed

text \<open>There is one way to arrange a set along an order that is antisymmetric on it.\<close>

lemma sorted_wrt_unique:
  assumes "sorted_wrt L xs" and "sorted_wrt L ys" and "distinct xs" and "distinct ys" and "set xs = set ys"
    and "\<And>a b. a \<in> set xs \<Longrightarrow> b \<in> set xs \<Longrightarrow> L a b \<Longrightarrow> L b a \<Longrightarrow> a = b"
  shows "xs = ys"
  using assms
proof (induction xs arbitrary: ys)
  case (Cons x xs)
  obtain y ys' where ys: "ys = y # ys'" using Cons.prems(5) by (cases ys) auto
  have "x = y"
  proof (rule ccontr)
    assume "x \<noteq> y"
    then have "y \<in> set xs" "x \<in> set ys'" using Cons.prems(5) ys by auto
    then have "L x y" "L y x" using Cons.prems(1,2) ys by auto
    then show False using Cons.prems(6) \<open>y \<in> set xs\<close> \<open>x \<noteq> y\<close> by auto
  qed
  moreover have "set xs = set ys'" using Cons.prems(3-5) ys \<open>x = y\<close> by auto
  ultimately show ?case using Cons ys by auto
qed simp

definition preferred :: "(string \<Rightarrow> 'v::linorder) \<Rightarrow> string \<Rightarrow> string \<Rightarrow> agent_ref \<Rightarrow> agent_ref \<Rightarrow> bool" where
  "preferred vkey objective tie_breaker =
     (let by_version = refine_down (\<lambda>r. vkey (ag_version r)) (refine_by ag_agent_id (\<lambda>_ _. True))
      in refine_by (objective_sort_key objective)
           (if tie_breaker = ''lowest_cost'' then refine_by (\<lambda>r. ab_cost_usd (am_budgets (ag_manifest r))) by_version else by_version))"

lemma order_preferred: "sorted_wrt (preferred vkey objective tie_breaker) (deterministic_order vkey objective tie_breaker candidates)"
proof -
  have "sorted_wrt (\<lambda>_ _. True) candidates" by (induction candidates) auto
  then show ?thesis unfolding deterministic_order_def preferred_def Let_def
    by (auto intro!: sort_refines rsort_refines)
qed

lemma set_order [simp]: "set (deterministic_order vkey objective tie_breaker candidates) = set candidates"
  by (simp add: deterministic_order_def Let_def)

lemma distinct_order: "distinct (map f (deterministic_order vkey objective tie_breaker candidates)) = distinct (map f candidates)"
  by (simp add: deterministic_order_def Let_def distinct_sort_key distinct_rsort del: distinct_map)

lemma preferred_antisym: "preferred vkey objective tie_breaker a b \<Longrightarrow> preferred vkey objective tie_breaker b a \<Longrightarrow>
   ag_agent_id a = ag_agent_id b \<and> vkey (ag_version a) = vkey (ag_version b)"
  by (auto simp: preferred_def refine_by_def refine_down_def Let_def split: if_splits)

subsection \<open>What the stages keep\<close>

definition base :: "agent_ref \<Rightarrow> agent_ref" where
  "base r = r\<lparr>ag_score := 0\<rparr>"

definition declares :: "agent_ref \<Rightarrow> string \<Rightarrow> bool" where
  "declares r c \<longleftrightarrow> (\<exists>k\<in>set (am_capabilities (ag_manifest r)). ac_id k = c)"

text \<open>A limit of zero does not constrain.\<close>

definition affordable :: "agent_budgets \<Rightarrow> select_budget \<Rightarrow> bool" where
  "affordable b run \<longleftrightarrow> (0 < sb_tokens run \<longrightarrow> ab_tokens_input b + ab_tokens_output b \<le> sb_tokens run) \<and>
     (0 < sb_cost_usd run \<longrightarrow> ab_cost_usd b \<le> sb_cost_usd run) \<and> (0 < sb_time_s run \<longrightarrow> ab_wall_clock_seconds b \<le> sb_time_s run)"

fun passes :: "string list \<Rightarrow> select_budget \<Rightarrow> selector_stage \<Rightarrow> agent_ref \<Rightarrow> bool" where
  "passes required budget (CapabilityMatching require_all) r \<longleftrightarrow>
     required = [] \<or> (if require_all then \<forall>c\<in>set required. declares r c else \<exists>c\<in>set required. declares r c)"
| "passes required budget (CostAware objective respect) r \<longleftrightarrow> (respect \<longrightarrow> affordable (am_budgets (ag_manifest r)) budget)"
| "passes required budget (ScoreWeighted weights) r \<longleftrightarrow> True"

lemma fits_run_budget_iff: "fits_run_budget b run = affordable b run"
  by (auto simp: fits_run_budget_def affordable_def)

definition shuffle_ok :: "key_order \<Rightarrow> bool" where
  "shuffle_ok shuffle \<longleftrightarrow> (\<forall>ks. distinct ks \<longrightarrow> distinct (shuffle ks) \<and> set (shuffle ks) = set ks)"

lemma base_keeps [simp]:
  "ref_key (base r) = ref_key r" "ag_manifest (base r) = ag_manifest r" "base (r\<lparr>ag_score := x\<rparr>) = base r"
  "ref_key (r\<lparr>ag_score := x\<rparr>) = ref_key r" "base (base r) = base r"
  by (simp_all add: base_def ref_key_def)

lemma passes_base: "base r = base r' \<Longrightarrow> passes required budget stage r = passes required budget stage r'"
proof -
  assume "base r = base r'"
  then have "ag_manifest r = ag_manifest r'" by (metis base_keeps(2))
  then show ?thesis by (cases stage) (simp_all add: declares_def)
qed

lemma key_base: "distinct (map ref_key rs) \<Longrightarrow> r \<in> set rs \<Longrightarrow> r' \<in> set rs \<Longrightarrow> ref_key r = ref_key r' \<Longrightarrow> r = r'"
  by (auto simp: distinct_map dest: inj_onD)

lemma find_by_capability_set:
  "x \<in> set (find_by_capability vkey major c registry) \<Longrightarrow> \<exists>r\<in>set registry. declares r c \<and> base x = base r"
  "r \<in> set registry \<Longrightarrow> declares r c \<Longrightarrow> \<exists>x\<in>set (find_by_capability vkey major c registry). base x = base r"
proof -
  let ?f = "\<lambda>r. map_option (\<lambda>k. r\<lparr>ag_score := (if ac_level k = ''primary'' then 100 else 50) + of_nat (major (ag_version r))\<rparr>)
    (List.find (\<lambda>k. ac_id k = c) (am_capabilities (ag_manifest r)))"
  have set: "set (find_by_capability vkey major c registry) = {x. \<exists>r\<in>set registry. ?f r = Some x}"
    by (force simp: find_by_capability_def map_filter_def)
  have f: "?f r = Some x \<Longrightarrow> declares r c \<and> base x = base r" for r x
    by (auto simp: declares_def dest!: find_SomeD)
  show "x \<in> set (find_by_capability vkey major c registry) \<Longrightarrow> \<exists>r\<in>set registry. declares r c \<and> base x = base r"
    using set f by blast
  assume r: "r \<in> set registry" "declares r c"
  then obtain x where "?f r = Some x" by (cases "?f r") (auto simp: declares_def find_None_iff)
  then show "\<exists>x\<in>set (find_by_capability vkey major c registry). base x = base r" using set f r(1) by blast
qed

lemma find_by_capability_keys: "distinct (map ref_key registry) \<Longrightarrow> distinct (map ref_key (find_by_capability vkey major c registry))"
proof -
  let ?f = "\<lambda>r. map_option (\<lambda>k. r\<lparr>ag_score := (if ac_level k = ''primary'' then 100 else 50) + of_nat (major (ag_version r))\<rparr>)
    (List.find (\<lambda>k. ac_id k = c) (am_capabilities (ag_manifest r)))"
  have "map ref_key (List.map_filter ?f rs) = map ref_key (filter (\<lambda>r. ?f r \<noteq> None) rs)" for rs
    by (induction rs) (auto simp: map_filter_simps split: option.splits)
  then show "distinct (map ref_key registry) \<Longrightarrow> ?thesis"
    by (simp add: find_by_capability_def distinct_rsort distinct_map_filter del: distinct_map)
qed

lemma ref_dict_map: "distinct (map ref_key refs) \<Longrightarrow> ref_dict refs = map (\<lambda>r. (ref_key r, r)) refs"
proof -
  have app: "k \<notin> fst ` set d \<Longrightarrow> AList.update k v d = d @ [(k, v)]" for k v and d :: "((string \<times> string) \<times> agent_ref) list"
    by (induction d) auto
  have "distinct (map ref_key refs) \<Longrightarrow> ref_key ` set refs \<inter> fst ` set d = {} \<Longrightarrow>
      fold (\<lambda>r. AList.update (ref_key r) r) refs d = d @ map (\<lambda>r. (ref_key r, r)) refs" for d
  proof (induction refs arbitrary: d)
    case (Cons r refs)
    then have "AList.update (ref_key r) r d = d @ [(ref_key r, r)]" by (intro app) auto
    moreover have "ref_key ` set refs \<inter> fst ` set (d @ [(ref_key r, r)]) = {}" using Cons.prems by auto
    ultimately show ?case using Cons.IH [of "d @ [(ref_key r, r)]"] Cons.prems(1) by simp
  qed simp
  then show "distinct (map ref_key refs) \<Longrightarrow> ?thesis" by (simp add: ref_dict_def)
qed

lemma set_intersection_set: "xss \<noteq> [] \<Longrightarrow> set (set_intersection xss) = {x. \<forall>xs\<in>set xss. x \<in> set xs}"
  by (induction xss rule: set_intersection.induct) auto

lemma set_intersection_distinct: "\<forall>xs\<in>set xss. distinct xs \<Longrightarrow> distinct (set_intersection xss)"
  by (induction xss rule: set_intersection.induct) auto

lemma from_keys_set [simp]: "set (from_keys xs) = set xs" "from_keys xs = [] \<longleftrightarrow> xs = []"
  by (simp_all add: from_keys_def)

lemma last_reference_Some:
  "last_reference per k = Some r \<Longrightarrow> \<exists>d\<in>set per. map_of d k = Some r"
  "d \<in> set per \<Longrightarrow> map_of d k \<noteq> None \<Longrightarrow> last_reference per k \<noteq> None"
proof -
  have set: "x \<in> set (List.map_filter (\<lambda>d. map_of d k) per) \<longleftrightarrow> (\<exists>d\<in>set per. map_of d k = Some x)" for x
    by (force simp: map_filter_def)
  then show "d \<in> set per \<Longrightarrow> map_of d k \<noteq> None \<Longrightarrow> last_reference per k \<noteq> None"
    by (cases "List.map_filter (\<lambda>d. map_of d k) per") (auto simp: last_reference_def)
  assume "last_reference per k = Some r"
  then have "List.map_filter (\<lambda>d. map_of d k) per \<noteq> [] \<and> r = last (List.map_filter (\<lambda>d. map_of d k) per)"
    by (auto simp: last_reference_def split: list.splits)
  then show "\<exists>d\<in>set per. map_of d k = Some r" using set last_in_set by blast
qed

text \<open>The pool a stage works on, as the registered versions that the earlier stages let pass.\<close>

definition pool_ok :: "agent_ref list \<Rightarrow> (agent_ref \<Rightarrow> bool) \<Rightarrow> agent_ref list \<Rightarrow> bool" where
  "pool_ok registry P cs \<longleftrightarrow> distinct (map ref_key cs) \<and> base ` set cs = base ` {r \<in> set registry. P r}"

lemma pool_keys:
  assumes "distinct (map ref_key registry)" and "pool_ok registry P cs" and "r \<in> set registry"
  shows "ref_key r \<in> ref_key ` set cs \<longleftrightarrow> (\<exists>r'\<in>set registry. P r' \<and> r' = r)"
proof -
  have "ref_key ` set cs = ref_key ` {r \<in> set registry. P r}"
    using assms(2) unfolding pool_ok_def by (metis (no_types, lifting) base_keeps(1) image_cong image_image)
  then show ?thesis using key_base [OF assms(1,3)] assms(3) by auto
qed

text \<open>The versions in a pool that declare a capability, as the stage finds them and as they are registered.\<close>

definition found :: "(string \<Rightarrow> 'v::linorder) \<Rightarrow> (string \<Rightarrow> nat) \<Rightarrow> agent_ref list \<Rightarrow> (agent_ref \<Rightarrow> bool) \<Rightarrow> string \<Rightarrow> agent_ref list" where
  "found vkey major registry inp c = filter inp (find_by_capability vkey major c registry)"

definition dicts :: "(string \<Rightarrow> 'v::linorder) \<Rightarrow> (string \<Rightarrow> nat) \<Rightarrow> agent_ref list \<Rightarrow> (agent_ref \<Rightarrow> bool) \<Rightarrow> string list \<Rightarrow>
    ((string \<times> string) \<times> agent_ref) list list" where
  "dicts vkey major registry inp required = map (\<lambda>c. ref_dict (found vkey major registry inp c)) (from_keys required)"

definition keys_of :: "bool \<Rightarrow> ((string \<times> string) \<times> agent_ref) list list \<Rightarrow> (string \<times> string) list" where
  "keys_of require_all per = (if require_all then set_intersection (map (map fst) per) else remdups (concat (map (map fst) per)))"

definition by_base :: "(agent_ref \<Rightarrow> bool) \<Rightarrow> bool" where
  "by_base inp \<longleftrightarrow> (\<forall>x r. base x = base r \<longrightarrow> inp x = inp r)"

lemma found_dict:
  assumes "distinct (map ref_key registry)"
  shows "ref_dict (found vkey major registry inp c) = map (\<lambda>r. (ref_key r, r)) (found vkey major registry inp c)"
    and "distinct (map ref_key (found vkey major registry inp c))"
  using distinct_map_filter [OF find_by_capability_keys [OF assms]] ref_dict_map unfolding found_def by blast+

lemma found_base:
  assumes "by_base inp"
  shows "base ` set (found vkey major registry inp c) = base ` {r \<in> set registry. declares r c \<and> inp r}"
proof (intro set_eqI iffI)
  fix b assume "b \<in> base ` set (found vkey major registry inp c)"
  then obtain x where x: "x \<in> set (find_by_capability vkey major c registry)" "inp x" "b = base x" by (auto simp: found_def)
  then obtain r where "r \<in> set registry" "declares r c" "base x = base r" using find_by_capability_set(1) by blast
  then show "b \<in> base ` {r \<in> set registry. declares r c \<and> inp r}" using x assms unfolding by_base_def by blast
next
  fix b assume "b \<in> base ` {r \<in> set registry. declares r c \<and> inp r}"
  then obtain r where r: "r \<in> set registry" "declares r c" "inp r" "b = base r" by blast
  then obtain x where x: "x \<in> set (find_by_capability vkey major c registry)" "base x = base r" using find_by_capability_set(2) by blast
  then have "inp x" using r(3) assms unfolding by_base_def by blast
  then have "x \<in> set (found vkey major registry inp c)" using x(1) by (simp add: found_def)
  then show "b \<in> base ` set (found vkey major registry inp c)" using r(4) x(2) by (metis image_eqI)
qed

lemma found_keys:
  assumes "distinct (map ref_key registry)" and "by_base inp"
  shows "fst ` set (ref_dict (found vkey major registry inp c)) = ref_key ` {r \<in> set registry. declares r c \<and> inp r}"
proof -
  have "fst ` set (ref_dict (found vkey major registry inp c)) = ref_key ` base ` set (found vkey major registry inp c)"
    unfolding found_dict(1) [OF assms(1)] by (simp add: image_image)
  then show ?thesis unfolding found_base [OF assms(2)] by (simp add: image_image)
qed

definition wanted :: "string list \<Rightarrow> bool \<Rightarrow> agent_ref \<Rightarrow> bool" where
  "wanted required require_all r \<longleftrightarrow> (if require_all then \<forall>c\<in>set required. declares r c else \<exists>c\<in>set required. declares r c)"

lemma keys_wanted:
  assumes "distinct (map ref_key registry)" and "by_base inp" and "required \<noteq> []"
  shows "set (keys_of require_all (dicts vkey major registry inp required)) = ref_key ` {r \<in> set registry. inp r \<and> wanted required require_all r}"
proof (cases require_all)
  case True
  have "set (keys_of require_all (dicts vkey major registry inp required)) =
      {k. \<forall>c\<in>set required. k \<in> ref_key ` {r \<in> set registry. declares r c \<and> inp r}}"
    using True assms(3) found_keys [OF assms(1,2), of vkey major]
    by (auto simp: keys_of_def dicts_def set_intersection_set)
  also have "\<dots> = ref_key ` {r \<in> set registry. inp r \<and> wanted required require_all r}"
  proof (intro set_eqI iffI)
    fix k assume "k \<in> {k. \<forall>c\<in>set required. k \<in> ref_key ` {r \<in> set registry. declares r c \<and> inp r}}"
    then have all: "\<And>c. c \<in> set required \<Longrightarrow> \<exists>r\<in>set registry. declares r c \<and> inp r \<and> ref_key r = k" by auto
    obtain c where "c \<in> set required" using assms(3) by (cases required) auto
    then obtain r where r: "r \<in> set registry" "inp r" "ref_key r = k" using all by blast
    have "declares r c" if "c \<in> set required" for c
      using all [OF that] key_base [OF assms(1) r(1)] r(3) by metis
    then show "k \<in> ref_key ` {r \<in> set registry. inp r \<and> wanted required require_all r}" using r True by (auto simp: wanted_def)
  qed (auto simp: wanted_def True)
  finally show ?thesis .
next
  case False
  then have "set (keys_of require_all (dicts vkey major registry inp required)) =
      (\<Union>c\<in>set required. fst ` set (ref_dict (found vkey major registry inp c)))"
    by (auto simp: keys_of_def dicts_def)
  then show ?thesis unfolding found_keys [OF assms(1,2)] using False by (auto simp: wanted_def)
qed

lemma keys_distinct:
  assumes "distinct (map ref_key registry)"
  shows "distinct (keys_of require_all (dicts vkey major registry inp required))"
proof -
  have "\<forall>xs\<in>set (map (map fst) (dicts vkey major registry inp required)). distinct xs"
    using found_dict [OF assms, of vkey major inp] by (auto simp: dicts_def comp_def simp del: distinct_map)
  from set_intersection_distinct [OF this] show ?thesis by (simp add: keys_of_def)
qed

lemma reference_found:
  assumes "distinct (map ref_key registry)" and "by_base inp" and "required \<noteq> []"
    and "r \<in> set registry" and "inp r" and "wanted required require_all r"
  shows "\<exists>x. last_reference (dicts vkey major registry inp required) (ref_key r) = Some x \<and> base x = base r"
proof -
  let ?per = "dicts vkey major registry inp required"
  obtain c where c: "c \<in> set required" "declares r c" using assms(3,6) by (cases require_all; cases required) (auto simp: wanted_def)
  then have "ref_key r \<in> fst ` set (ref_dict (found vkey major registry inp c))" using assms(4,5) found_keys [OF assms(1,2)] by blast
  then have "map_of (ref_dict (found vkey major registry inp c)) (ref_key r) \<noteq> None" by (simp add: map_of_eq_None_iff)
  moreover have "ref_dict (found vkey major registry inp c) \<in> set ?per" using c(1) by (auto simp: dicts_def)
  ultimately obtain x where x: "last_reference ?per (ref_key r) = Some x" using last_reference_Some(2) by blast
  then obtain c' where "map_of (ref_dict (found vkey major registry inp c')) (ref_key r) = Some x"
    using last_reference_Some(1) [OF x] by (auto simp: dicts_def)
  then have "x \<in> set (found vkey major registry inp c')" "ref_key x = ref_key r" unfolding found_dict(1) [OF assms(1)] by (auto dest!: map_of_SomeD)
  moreover from this obtain r' where "r' \<in> set registry" "base x = base r'" using found_base [OF assms(2)] by blast
  ultimately have "r' = r" using key_base [OF assms(1) _ assms(4)] by (metis base_keeps(1))
  then show ?thesis using x \<open>base x = base r'\<close> by blast
qed

text \<open>The score of a version for one capability and for all that are asked for.\<close>

definition capability_score :: "(string \<Rightarrow> nat) \<Rightarrow> string \<Rightarrow> agent_ref \<Rightarrow> rat" where
  "capability_score major c r = (case List.find (\<lambda>k. ac_id k = c) (am_capabilities (ag_manifest r)) of
     None \<Rightarrow> 0 | Some k \<Rightarrow> (if ac_level k = ''primary'' then 100 else 50) + of_nat (major (ag_version r)))"

definition total_score :: "(string \<Rightarrow> nat) \<Rightarrow> string list \<Rightarrow> agent_ref \<Rightarrow> rat" where
  "total_score major required r = (\<Sum>c\<leftarrow>from_keys required. capability_score major c r)"

lemma find_by_capability_score: "x \<in> set (find_by_capability vkey major c registry) \<Longrightarrow> ag_score x = capability_score major c x"
  by (auto simp: find_by_capability_def map_filter_def capability_score_def)

lemma capability_score_base: "base x = base r \<Longrightarrow> capability_score major c x = capability_score major c r"
  by (cases x; cases r) (simp add: capability_score_def base_def cong: option.case_cong)

lemma capability_score_none: "\<not> declares r c \<Longrightarrow> capability_score major c r = 0"
proof -
  assume "\<not> declares r c"
  then have "List.find (\<lambda>k. ac_id k = c) (am_capabilities (ag_manifest r)) = None" by (auto simp: declares_def find_None_iff)
  then show ?thesis by (simp add: capability_score_def)
qed

lemma base_score: "base x = base r \<Longrightarrow> x\<lparr>ag_score := s\<rparr> = r\<lparr>ag_score := s\<rparr>"
  by (cases x; cases r) (simp add: base_def)

lemma summed_total:
  assumes "distinct (map ref_key registry)" and "by_base inp" and "r \<in> set registry" and "inp r"
  shows "summed_score (dicts vkey major registry inp required) (ref_key r) = total_score major required r"
proof -
  have "(case map_of (ref_dict (found vkey major registry inp c)) (ref_key r) of None \<Rightarrow> 0 | Some x \<Rightarrow> ag_score x) = capability_score major c r" for c
  proof (cases "map_of (ref_dict (found vkey major registry inp c)) (ref_key r)")
    case None
    then have "ref_key r \<notin> fst ` set (ref_dict (found vkey major registry inp c))" by (simp add: map_of_eq_None_iff)
    then have "\<not> declares r c" using assms(3,4) unfolding found_keys [OF assms(1,2)] by blast
    then show ?thesis using None by (simp add: capability_score_none)
  next
    case (Some x)
    then have x: "x \<in> set (found vkey major registry inp c)" "ref_key x = ref_key r"
      unfolding found_dict(1) [OF assms(1)] by (auto dest!: map_of_SomeD)
    then obtain r' where r': "r' \<in> set registry" "base x = base r'" using found_base [OF assms(2)] by blast
    have "ref_key r' = ref_key r" using x(2) arg_cong [OF r'(2), of ref_key] by simp
    then have "r' = r" by (rule key_base [OF assms(1) r'(1) assms(3)])
    moreover have "ag_score x = capability_score major c x" using x(1) by (intro find_by_capability_score) (auto simp: found_def)
    ultimately show ?thesis using Some capability_score_base [OF r'(2), of major c] by simp
  qed
  then show ?thesis by (simp add: summed_score_def dicts_def total_score_def comp_def)
qed

definition in_pool :: "agent_ref list option \<Rightarrow> agent_ref \<Rightarrow> bool" where
  "in_pool candidates r \<longleftrightarrow> (case candidates of None \<Rightarrow> True | Some cs \<Rightarrow> ref_key r \<in> ref_key ` set cs)"

text \<open>Matching, exactly: the wanted versions of the pool with their total scores, in the order of the set.\<close>

lemma in_pool_by_base: "by_base (in_pool candidates)"
  unfolding by_base_def
proof (intro allI impI)
  fix x r :: agent_ref assume "base x = base r"
  from arg_cong [OF this, of ref_key] show "in_pool candidates x = in_pool candidates r" by (simp add: in_pool_def split: option.split)
qed

lemma match_capabilities_exact:
  assumes "distinct (map ref_key registry)" and "shuffle_ok shuffle" and "required \<noteq> []"
  shows "set (match_capabilities shuffle vkey major registry required require_all candidates) =
      (\<lambda>r. r\<lparr>ag_score := total_score major required r\<rparr>) ` {r \<in> set registry. in_pool candidates r \<and> wanted required require_all r}" (is "?set")
    and "distinct (map ref_key (match_capabilities shuffle vkey major registry required require_all candidates))" (is "?dist")
proof -
  let ?in = "in_pool candidates"
  let ?per = "dicts vkey major registry ?in required"
  let ?keys = "keys_of require_all ?per"
  let ?g = "\<lambda>k. map_option (\<lambda>r. r\<lparr>ag_score := summed_score ?per k\<rparr>) (last_reference ?per k)"
  note keys = keys_wanted [OF assms(1) in_pool_by_base assms(3), of require_all vkey major]
  have m: "match_capabilities shuffle vkey major registry required require_all candidates = List.map_filter ?g (shuffle ?keys)"
    using assms(3) unfolding match_capabilities_def keys_of_def dicts_def found_def in_pool_def [abs_def] Let_def by simp
  have sh: "distinct (shuffle ?keys)" "set (shuffle ?keys) = set ?keys"
    using assms(2) keys_distinct [OF assms(1)] unfolding shuffle_ok_def by blast+
  have g: "?g (ref_key r) = Some (r\<lparr>ag_score := total_score major required r\<rparr>)"
    if r: "r \<in> set registry" "?in r" "wanted required require_all r" for r
  proof -
    obtain x where x: "last_reference ?per (ref_key r) = Some x" "base x = base r"
      using reference_found [OF assms(1) in_pool_by_base assms(3) r] by blast
    then show ?thesis using summed_total [OF assms(1) in_pool_by_base r(1,2), of vkey major required] base_score [OF x(2)] by simp
  qed
  then have key: "\<exists>x. ?g k = Some x \<and> ref_key x = k" if "k \<in> set ?keys" for k
    using that unfolding keys by fastforce
  have "\<forall>k\<in>set ks. \<exists>x. ?g k = Some x \<and> ref_key x = k \<Longrightarrow> map ref_key (List.map_filter ?g ks) = ks" for ks
    by (induction ks) (auto simp: map_filter_simps)
  then have "map ref_key (List.map_filter ?g (shuffle ?keys)) = shuffle ?keys" using key sh(2) by blast
  then show ?dist using sh(1) m by simp
  have "set (List.map_filter ?g ks) = {x. \<exists>k\<in>set ks. ?g k = Some x}" for ks by (force simp: map_filter_def)
  then have "set (List.map_filter ?g (shuffle ?keys)) = {x. \<exists>k\<in>set ?keys. ?g k = Some x}" using sh(2) by simp
  also have "\<dots> = (\<lambda>r. r\<lparr>ag_score := total_score major required r\<rparr>) ` {r \<in> set registry. ?in r \<and> wanted required require_all r}"
  proof -
    have "{x. \<exists>k\<in>ref_key ` A. G k = Some x} = h ` A" if "\<And>r. r \<in> A \<Longrightarrow> G (ref_key r) = Some (h r)" for A G h
      using that by force
    note set = this
    show ?thesis unfolding keys by (rule set) (use g in blast)
  qed
  finally show ?set unfolding m .
qed

subsection \<open>What a pipeline selects\<close>

definition pool_of :: "agent_ref list \<Rightarrow> agent_ref list option \<Rightarrow> agent_ref list" where
  "pool_of registry candidates = (case candidates of Some cs \<Rightarrow> cs | None \<Rightarrow> registry)"

lemma base_key: "base a = base b \<Longrightarrow> ref_key a = ref_key b"
  by (cases a; cases b) (simp add: base_def ref_key_def)

lemma base_manifest: "base a = base b \<Longrightarrow> ag_manifest a = ag_manifest b"
  by (cases a; cases b) (simp add: base_def)

lemma pool_members:
  assumes "distinct (map ref_key registry)" and "pool_ok registry P (pool_of registry candidates)" and "r \<in> set registry"
  shows "in_pool candidates r \<longleftrightarrow> candidates = None \<or> P r"
proof (cases candidates)
  case (Some cs)
  then have "in_pool candidates r \<longleftrightarrow> (\<exists>r'\<in>set registry. P r' \<and> r' = r)"
    using pool_keys [OF assms(1) _ assms(3), of P cs] assms(2) by (simp add: in_pool_def pool_of_def)
  then show ?thesis using Some assms(3) by auto
qed (simp add: in_pool_def)

lemma pool_all:
  assumes "distinct (map ref_key registry)" and "pool_ok registry P registry" and "r \<in> set registry"
  shows "P r"
proof -
  have "base r \<in> base ` {r \<in> set registry. P r}" using assms(2,3) by (auto simp: pool_ok_def)
  then obtain r' where r': "r' \<in> set registry" "P r'" "base r = base r'" by auto
  then have "r = r'" using key_base [OF assms(1,3) r'(1) base_key] by blast
  then show ?thesis using r'(2) by simp
qed

lemma filter_pool:
  assumes "pool_ok registry P cs" and "by_base fit"
  shows "pool_ok registry (\<lambda>r. P r \<and> fit r) (filter fit cs)"
proof -
  have eq: "base ` set cs = base ` {r \<in> set registry. P r}" using assms(1) by (simp add: pool_ok_def)
  have fit: "base a = base b \<Longrightarrow> fit a = fit b" for a b using assms(2) unfolding by_base_def by blast
  have "base ` set (filter fit cs) = base ` {r \<in> set registry. P r \<and> fit r}"
  proof (intro set_eqI iffI)
    fix b assume "b \<in> base ` set (filter fit cs)"
    then obtain a where a: "a \<in> set cs" "fit a" "b = base a" by auto
    then obtain r where r: "r \<in> set registry" "P r" "base a = base r" using eq by blast
    then show "b \<in> base ` {r \<in> set registry. P r \<and> fit r}" using a fit [OF r(3)] by blast
  next
    fix b assume "b \<in> base ` {r \<in> set registry. P r \<and> fit r}"
    then obtain r where r: "r \<in> set registry" "P r" "fit r" "b = base r" by blast
    then obtain a where a: "a \<in> set cs" "base r = base a" using eq by blast
    then have "a \<in> set (filter fit cs)" using r(3) fit [OF a(2)] by simp
    then show "b \<in> base ` set (filter fit cs)" using r(4) a(2) by blast
  qed
  then show ?thesis using assms(1) by (simp add: pool_ok_def distinct_map_filter del: distinct_map)
qed

lemma pool_registered: "pool_ok registry P cs \<Longrightarrow> a \<in> set cs \<Longrightarrow> \<exists>r\<in>set registry. base a = base r"
  unfolding pool_ok_def by blast

lemma rescored_pool: "pool_ok registry P (map (\<lambda>r. r\<lparr>ag_score := f r\<rparr>) cs) = pool_ok registry P cs"
  by (simp add: pool_ok_def image_image comp_def)

text \<open>The scores a score-weighted stage gives, from the pool as a set.\<close>

definition pool_range :: "(score_aggregate \<Rightarrow> rat) \<Rightarrow> agent_ref set \<Rightarrow> score_snapshot \<Rightarrow> rat \<times> rat" where
  "pool_range f cs s = (let vs = f ` {a. \<exists>r\<in>cs. resolve_agent_score r s = Some a} in if vs = {} then (0, 0) else (Min vs, Max vs))"

definition stage_score :: "(string \<times> rat) list \<Rightarrow> score_snapshot option \<Rightarrow> agent_ref set \<Rightarrow> agent_ref \<Rightarrow> rat" where
  "stage_score weights scores cs r = (case scores of
     None \<Rightarrow> ag_score r
   | Some s \<Rightarrow> if weights = [] then ag_score r
       else blended_score weights (pool_range sa_cost_usd cs s) (pool_range sa_latency_seconds cs s) (resolve_agent_score r s))"

lemma value_range_set: "value_range vs = (if set vs = {} then (0, 0) else (Min (set vs), Max (set vs)))"
  by (cases vs) (simp_all add: value_range_def Min.set_eq_fold Max.set_eq_fold del: set_simps)

lemma value_range_pool: "value_range (map f (List.map_filter (\<lambda>r. resolve_agent_score r s) cs)) = pool_range f (set cs) s"
proof -
  have "set (map f (List.map_filter (\<lambda>r. resolve_agent_score r s) cs)) = f ` {a. \<exists>r\<in>set cs. resolve_agent_score r s = Some a}"
    by (force simp: map_filter_def)
  then show ?thesis unfolding value_range_set pool_range_def Let_def by simp
qed

lemma apply_score_weighted_eq:
  "apply_score_weighted cs weights scores = (map (\<lambda>r. r\<lparr>ag_score := stage_score weights scores (set cs) r\<rparr>) cs, scores \<noteq> None \<and> weights \<noteq> [])"
  by (auto simp: apply_score_weighted_def stage_score_def Let_def value_range_pool map_idI split: option.split)

lemma stage_pool:
  assumes "distinct (map ref_key registry)" and "shuffle_ok shuffle" and "pool_ok registry P (pool_of registry candidates)"
    and "evaluate_selector_stage shuffle vkey major required budget registry scores stage (candidates, objective) = (candidates', objective')"
  shows "pool_ok registry (\<lambda>r. P r \<and> passes required budget stage r) (pool_of registry candidates')"
proof (cases stage)
  case (CapabilityMatching require_all)
  then have c': "candidates' = Some (match_capabilities shuffle vkey major registry required require_all candidates)" using assms(4) by simp
  show ?thesis
  proof (cases "required = []")
    case True
    then show ?thesis using c' assms(3) CapabilityMatching by (simp add: match_capabilities_def pool_of_def)
  next
    case False
    have "{r \<in> set registry. in_pool candidates r \<and> wanted required require_all r} = {r \<in> set registry. P r \<and> wanted required require_all r}"
      using pool_members [OF assms(1,3)] pool_all [OF assms(1)] assms(3) by (auto simp: pool_of_def)
    then show ?thesis using match_capabilities_exact [OF assms(1,2) False, of vkey major require_all candidates] c' False CapabilityMatching
      by (simp add: pool_ok_def pool_of_def wanted_def image_image)
  qed
next
  case (CostAware obj respect)
  let ?fit = "\<lambda>r. respect \<longrightarrow> affordable (am_budgets (ag_manifest r)) budget"
  have "pool_of registry candidates' = filter ?fit (pool_of registry candidates)"
    using assms(4) CostAware by (auto simp: apply_cost_aware_def fits_run_budget_iff pool_of_def split: option.splits)
  moreover have "by_base ?fit" unfolding by_base_def using base_manifest by metis
  ultimately show ?thesis using filter_pool [OF assms(3)] CostAware by simp
next
  case (ScoreWeighted weights)
  then have "pool_of registry candidates' = map (\<lambda>r. r\<lparr>ag_score := stage_score weights scores (set (pool_of registry candidates)) r\<rparr>) (pool_of registry candidates)"
    using assms(4) by (auto simp: apply_score_weighted_eq pool_of_def)
  then show ?thesis using assms(3) ScoreWeighted by (simp add: rescored_pool)
qed

lemma stages_pool:
  assumes "distinct (map ref_key registry)" and "shuffle_ok shuffle" and "pool_ok registry P (pool_of registry candidates)"
    and "fold (evaluate_selector_stage shuffle vkey major required budget registry scores) stages (candidates, objective) = (candidates', objective')"
  shows "pool_ok registry (\<lambda>r. P r \<and> (\<forall>stage\<in>set stages. passes required budget stage r)) (pool_of registry candidates')"
  using assms(3,4)
proof (induction stages arbitrary: P candidates objective)
  case Nil
  then show ?case by simp
next
  case (Cons stage stages)
  obtain c o' where st: "evaluate_selector_stage shuffle vkey major required budget registry scores stage (candidates, objective) = (c, o')" by fastforce
  have "pool_ok registry (\<lambda>r. P r \<and> passes required budget stage r) (pool_of registry c)" using stage_pool [OF assms(1,2) Cons.prems(1) st] .
  from Cons.IH [OF this] show ?case using Cons.prems(2) st by (simp add: conj_assoc)
qed

text \<open>
  The score of a registered version after the stages: the sum over the matched capabilities, or the blend
  of the snapshot, whose costs and latencies are normalized over the versions that pass so far.
\<close>

fun score_after :: "(string \<Rightarrow> nat) \<Rightarrow> string list \<Rightarrow> select_budget \<Rightarrow> score_snapshot option \<Rightarrow> selector_stage list \<Rightarrow>
    agent_ref list \<Rightarrow> (agent_ref \<Rightarrow> rat) \<Rightarrow> agent_ref \<Rightarrow> rat" where
  "score_after major required budget scores [] A f = f"
| "score_after major required budget scores (stage # stages) A f =
     score_after major required budget scores stages (filter (passes required budget stage) A)
       (case stage of
          CapabilityMatching _ \<Rightarrow> if required = [] then f else total_score major required
        | CostAware _ _ \<Rightarrow> f
        | ScoreWeighted weights \<Rightarrow>
            (case scores of
               None \<Rightarrow> f
             | Some s \<Rightarrow> if weights = [] then f
                 else (\<lambda>r. blended_score weights (pool_range sa_cost_usd (set A) s) (pool_range sa_latency_seconds (set A) s) (resolve_agent_score r s))))"

definition scored :: "agent_ref list \<Rightarrow> (agent_ref \<Rightarrow> rat) \<Rightarrow> agent_ref list \<Rightarrow> bool" where
  "scored A f cs \<longleftrightarrow> (\<forall>x\<in>set cs. \<exists>r\<in>set A. base x = base r \<and> ag_score x = f r)"

lemma resolve_agent_score_base: "base a = base b \<Longrightarrow> resolve_agent_score a s = resolve_agent_score b s"
  by (cases a; cases b) (simp add: base_def resolve_agent_score_def Let_def cong: option.case_cong)

lemma pool_range_base: "base ` A = base ` B \<Longrightarrow> pool_range f A s = pool_range f B s"
proof -
  have sub: "{a. \<exists>r\<in>A. resolve_agent_score r s = Some a} \<subseteq> {a. \<exists>r\<in>B. resolve_agent_score r s = Some a}" if ab: "base ` A \<subseteq> base ` B" for A B
  proof
    fix a assume "a \<in> {a. \<exists>r\<in>A. resolve_agent_score r s = Some a}"
    then obtain r where r: "r \<in> A" "resolve_agent_score r s = Some a" by blast
    then obtain r' where r': "r' \<in> B" "base r = base r'" using ab by blast
    show "a \<in> {a. \<exists>r\<in>B. resolve_agent_score r s = Some a}" using r r'(1) resolve_agent_score_base [OF r'(2), of s] by auto
  qed
  assume "base ` A = base ` B"
  then have "{a. \<exists>r\<in>A. resolve_agent_score r s = Some a} = {a. \<exists>r\<in>B. resolve_agent_score r s = Some a}" using sub [of A B] sub [of B A] by blast
  then show ?thesis by (simp add: pool_range_def)
qed

lemma scored_filter:
  assumes "scored A f cs" and "by_base fit"
  shows "scored (filter fit A) f (filter fit cs)"
  unfolding scored_def
proof
  fix x assume "x \<in> set (filter fit cs)"
  then obtain r where r: "r \<in> set A" "base x = base r" "ag_score x = f r" "fit x" using assms(1) by (auto simp: scored_def)
  then have "fit r" using assms(2) unfolding by_base_def by blast
  then show "\<exists>r\<in>set (filter fit A). base x = base r \<and> ag_score x = f r" using r by auto
qed

lemma match_scored:
  assumes "distinct (map ref_key registry)" and "shuffle_ok shuffle" and "pool_ok registry P (pool_of registry candidates)" and "required \<noteq> []"
  shows "scored (filter (\<lambda>r. P r \<and> wanted required require_all r) registry) (total_score major required)
    (match_capabilities shuffle vkey major registry required require_all candidates)"
proof -
  have "{r \<in> set registry. in_pool candidates r \<and> wanted required require_all r} = {r \<in> set registry. P r \<and> wanted required require_all r}"
    using pool_members [OF assms(1,3)] pool_all [OF assms(1)] assms(3) by (auto simp: pool_of_def)
  then show ?thesis unfolding scored_def match_capabilities_exact(1) [OF assms(1,2,4)] by auto
qed

lemma weighted_scored:
  assumes "pool_ok registry P cs" and "scored (filter P registry) f cs" and "scores = Some s" and "weights \<noteq> []"
  shows "scored (filter P registry) (\<lambda>r. blended_score weights (pool_range sa_cost_usd (set (filter P registry)) s)
      (pool_range sa_latency_seconds (set (filter P registry)) s) (resolve_agent_score r s))
    (map (\<lambda>r. r\<lparr>ag_score := stage_score weights scores (set cs) r\<rparr>) cs)"
  unfolding scored_def
proof
  fix y assume "y \<in> set (map (\<lambda>r. r\<lparr>ag_score := stage_score weights scores (set cs) r\<rparr>) cs)"
  then obtain x where x: "x \<in> set cs" "y = x\<lparr>ag_score := stage_score weights scores (set cs) x\<rparr>" by auto
  then obtain r where r: "r \<in> set (filter P registry)" "base x = base r" using assms(2) by (auto simp: scored_def)
  have "base ` set cs = base ` set (filter P registry)" using assms(1) by (simp add: pool_ok_def)
  note range = pool_range_base [OF this, of _ s]
  have "ag_score y = blended_score weights (pool_range sa_cost_usd (set (filter P registry)) s)
      (pool_range sa_latency_seconds (set (filter P registry)) s) (resolve_agent_score r s)"
    unfolding x(2) range [symmetric] resolve_agent_score_base [OF r(2), of s, symmetric] using assms(3,4) by (simp add: stage_score_def)
  moreover have "base y = base r" using x(2) r(2) by simp
  ultimately show "\<exists>r\<in>set (filter P registry). base y = base r \<and> ag_score y = blended_score weights (pool_range sa_cost_usd (set (filter P registry)) s)
      (pool_range sa_latency_seconds (set (filter P registry)) s) (resolve_agent_score r s)" using r(1) by blast
qed

lemma stage_scored:
  assumes "distinct (map ref_key registry)" and "shuffle_ok shuffle" and "pool_ok registry P (pool_of registry candidates)"
    and "scored (filter P registry) f (pool_of registry candidates)"
    and st: "evaluate_selector_stage shuffle vkey major required budget registry scores stage (candidates, objective) = (c, o')"
  obtains f' where "\<And>stages. score_after major required budget scores (stage # stages) (filter P registry) f =
      score_after major required budget scores stages (filter (\<lambda>r. P r \<and> passes required budget stage r) registry) f'"
    and "scored (filter (\<lambda>r. P r \<and> passes required budget stage r) registry) f' (pool_of registry c)"
proof (cases stage)
  case (CapabilityMatching ra)
  then have c: "c = Some (match_capabilities shuffle vkey major registry required ra candidates)" using st by simp
  show ?thesis
  proof (cases "required = []")
    case True
    then show ?thesis using that [of f] assms(4) c CapabilityMatching by (simp add: match_capabilities_def pool_of_def conj_commute)
  next
    case False
    then have "passes required budget stage = wanted required ra" by (simp add: CapabilityMatching wanted_def fun_eq_iff)
    then show ?thesis using that [of "total_score major required"] match_scored [OF assms(1-3) False, of ra major vkey] c False CapabilityMatching
      by (simp add: pool_of_def conj_commute)
  qed
next
  case (CostAware obj respect)
  let ?fit = "\<lambda>r. respect \<longrightarrow> affordable (am_budgets (ag_manifest r)) budget"
  have "pool_of registry c = filter ?fit (pool_of registry candidates)"
    using st CostAware by (auto simp: apply_cost_aware_def fits_run_budget_iff pool_of_def split: option.splits)
  moreover have "by_base ?fit" unfolding by_base_def using base_manifest by metis
  ultimately show ?thesis using that [of f] scored_filter [OF assms(4), of ?fit] CostAware by (simp add: conj_commute)
next
  case (ScoreWeighted weights)
  have c: "pool_of registry c = map (\<lambda>r. r\<lparr>ag_score := stage_score weights scores (set (pool_of registry candidates)) r\<rparr>) (pool_of registry candidates)"
    using st ScoreWeighted by (auto simp: apply_score_weighted_eq pool_of_def)
  show ?thesis
  proof (cases "scores = None \<or> weights = []")
    case True
    then have "pool_of registry c = pool_of registry candidates" unfolding c by (intro map_idI) (auto simp: stage_score_def split: option.splits)
    then show ?thesis using that [of f] assms(4) True ScoreWeighted by (auto split: option.splits)
  next
    case False
    then obtain s where s: "scores = Some s" by (cases scores) auto
    from weighted_scored [OF assms(3,4) s] False s show ?thesis by (intro that) (simp_all add: ScoreWeighted c)
  qed
qed

lemma stages_scored:
  assumes "distinct (map ref_key registry)" and "shuffle_ok shuffle" and "pool_ok registry P (pool_of registry candidates)"
    and "scored (filter P registry) f (pool_of registry candidates)"
    and "fold (evaluate_selector_stage shuffle vkey major required budget registry scores) stages (candidates, objective) = (candidates', objective')"
  shows "scored (filter (\<lambda>r. P r \<and> (\<forall>stage\<in>set stages. passes required budget stage r)) registry)
    (score_after major required budget scores stages (filter P registry) f) (pool_of registry candidates')"
  using assms(3-5)
proof (induction stages arbitrary: P candidates objective f)
  case (Cons stage stages)
  obtain c o' where st: "evaluate_selector_stage shuffle vkey major required budget registry scores stage (candidates, objective) = (c, o')" by fastforce
  then have rest: "fold (evaluate_selector_stage shuffle vkey major required budget registry scores) stages (c, o') = (candidates', objective')"
    using Cons.prems(3) by simp
  obtain f' where f': "score_after major required budget scores (stage # stages) (filter P registry) f =
      score_after major required budget scores stages (filter (\<lambda>r. P r \<and> passes required budget stage r) registry) f'"
    and sc: "scored (filter (\<lambda>r. P r \<and> passes required budget stage r) registry) f' (pool_of registry c)"
    using stage_scored [OF assms(1,2) Cons.prems(1,2) st] by blast
  show ?case using Cons.IH [OF stage_pool [OF assms(1,2) Cons.prems(1) st] sc rest] unfolding f' by (simp add: conj_assoc)
qed simp

text \<open>The objective that the final order follows.\<close>

fun objective_after :: "score_snapshot option \<Rightarrow> string \<Rightarrow> selector_stage list \<Rightarrow> string" where
  "objective_after scores objective [] = objective"
| "objective_after scores objective (CapabilityMatching _ # stages) = objective_after scores objective stages"
| "objective_after scores objective (CostAware obj _ # stages) = objective_after scores obj stages"
| "objective_after scores objective (ScoreWeighted weights # stages) =
     objective_after scores (if scores \<noteq> None \<and> weights \<noteq> [] then ''maximize_quality'' else objective) stages"

lemma stages_objective:
  "snd (fold (evaluate_selector_stage shuffle vkey major required budget registry scores) stages (candidates, objective)) =
   objective_after scores objective stages"
proof (induction stages arbitrary: candidates objective)
  case (Cons stage stages)
  then show ?case by (cases stage) (simp_all add: apply_score_weighted_eq)
qed simp

definition eligible :: "string list \<Rightarrow> select_budget \<Rightarrow> selector_pipeline \<Rightarrow> agent_ref list \<Rightarrow> agent_ref list" where
  "eligible required budget pipeline registry = filter (\<lambda>r. \<forall>stage\<in>set (sp_stages pipeline). passes required budget stage r) registry"

lemma run_pipeline_pool:
  assumes "distinct (map ref_key registry)" and "shuffle_ok shuffle"
    and "out = run_pipeline shuffle vkey major required budget pipeline registry scores"
  shows "pool_ok registry (\<lambda>r. \<forall>stage\<in>set (sp_stages pipeline). passes required budget stage r) out"
    and "sorted_wrt (preferred vkey (objective_after scores ''minimize_cost'' (sp_stages pipeline)) (sp_tie_breaker pipeline)) out"
    and "scored (filter (\<lambda>r. \<forall>stage\<in>set (sp_stages pipeline). passes required budget stage r) registry)
      (score_after major required budget scores (sp_stages pipeline) registry ag_score) out"
proof -
  obtain c obj where f: "fold (evaluate_selector_stage shuffle vkey major required budget registry scores) (sp_stages pipeline) (None, ''minimize_cost'') = (c, obj)"
    by fastforce
  then have out: "out = deterministic_order vkey obj (sp_tie_breaker pipeline) (pool_of registry c)" by (simp add: assms(3) run_pipeline_def pool_of_def)
  have start: "pool_ok registry (\<lambda>r. True) (pool_of registry None)" using assms(1) by (simp add: pool_ok_def pool_of_def)
  from stages_pool [OF assms(1,2) start f] show "pool_ok registry (\<lambda>r. \<forall>stage\<in>set (sp_stages pipeline). passes required budget stage r) out"
    by (simp add: out pool_ok_def distinct_order del: distinct_map)
  have "scored (filter (\<lambda>r. True) registry) ag_score (pool_of registry None)" by (auto simp: scored_def pool_of_def)
  from stages_scored [OF assms(1,2) start this f] show "scored (filter (\<lambda>r. \<forall>stage\<in>set (sp_stages pipeline). passes required budget stage r) registry)
      (score_after major required budget scores (sp_stages pipeline) registry ag_score) out"
    by (simp add: out scored_def)
  have "obj = objective_after scores ''minimize_cost'' (sp_stages pipeline)"
    using stages_objective [of shuffle vkey major required budget registry scores "sp_stages pipeline" None "''minimize_cost''"] f by simp
  then show "sorted_wrt (preferred vkey (objective_after scores ''minimize_cost'' (sp_stages pipeline)) (sp_tie_breaker pipeline)) out"
    unfolding out using order_preferred by blast
qed

definition within_run :: "select_budget \<Rightarrow> select_budget \<Rightarrow> bool" where
  "within_run b run \<longleftrightarrow> (0 < sb_tokens run \<longrightarrow> sb_tokens b \<le> sb_tokens run) \<and> (0 < sb_cost_usd run \<longrightarrow> sb_cost_usd b \<le> sb_cost_usd run) \<and>
     (0 < sb_time_s run \<longrightarrow> sb_time_s b \<le> sb_time_s run)"

lemma budget_within: "within_run (select_budget_for_candidate b run) run"
  by (simp add: within_run_def select_budget_for_candidate_def Let_def)

lemma pool_length:
  assumes "distinct (map ref_key registry)" and "pool_ok registry P cs"
  shows "length cs = length (filter P registry)"
proof -
  have k: "ref_key ` set cs = ref_key ` set (filter P registry)"
    using assms(2) unfolding pool_ok_def set_filter by (metis (no_types, lifting) base_keeps(1) image_cong image_image)
  have "length cs = card (ref_key ` set cs)" using assms(2) distinct_card [of "map ref_key cs"] by (simp add: pool_ok_def del: distinct_map)
  also have "\<dots> = length (filter P registry)"
    unfolding k using distinct_map_filter [OF assms(1)] distinct_card [of "map ref_key (filter P registry)"] by (simp del: distinct_map)
  finally show ?thesis .
qed

text \<open>
  C23. Selection is exact. It fails exactly when no registered version passes all stages of the
  pipeline; otherwise it chooses a registered version that does, the best of them under the objective
  of the pipeline: the cheapest one by default, the fastest one, or the one with the highest score, the
  blend of the score snapshot when a score-weighted stage applied it. Its budget is within the run's, and
  there are as many fallbacks, of versions that pass as well, as there are, up to three.
\<close>

theorem select_agent_exact:
  assumes "distinct (map ref_key registry)" and "shuffle_ok shuffle"
  shows "case select_agent shuffle vkey major required budget pipeline registry scores of
      Inl e \<Rightarrow> eligible required budget pipeline registry = [] \<and> e = NoEligibleAgent required
    | Inr d \<Rightarrow> (\<exists>r\<in>set (eligible required budget pipeline registry).
          (sd_agent_id d, sd_agent_version d) = ref_key r \<and> sd_model d = resolve_model (ag_manifest r) \<and>
          (\<forall>r'\<in>set (eligible required budget pipeline registry).
            (objective_after scores ''minimize_cost'' (sp_stages pipeline) = ''minimize_cost'' \<longrightarrow>
               ab_cost_usd (am_budgets (ag_manifest r)) \<le> ab_cost_usd (am_budgets (ag_manifest r'))) \<and>
            (objective_after scores ''minimize_cost'' (sp_stages pipeline) = ''minimize_latency'' \<longrightarrow>
               ab_wall_clock_seconds (am_budgets (ag_manifest r)) \<le> ab_wall_clock_seconds (am_budgets (ag_manifest r'))) \<and>
            (objective_after scores ''minimize_cost'' (sp_stages pipeline) = ''maximize_quality'' \<longrightarrow>
               score_after major required budget scores (sp_stages pipeline) registry ag_score r' \<le>
               score_after major required budget scores (sp_stages pipeline) registry ag_score r))) \<and>
        within_run (sd_budget d) budget \<and>
        sf_agent_id ` set (sd_fallbacks d) \<subseteq> ag_agent_id ` set (eligible required budget pipeline registry) \<and>
        length (sd_fallbacks d) = min MAX_FALLBACKS (length (eligible required budget pipeline registry) - 1)"
proof -
  let ?P = "\<lambda>r. \<forall>stage\<in>set (sp_stages pipeline). passes required budget stage r"
  let ?E = "eligible required budget pipeline registry"
  let ?obj = "objective_after scores ''minimize_cost'' (sp_stages pipeline)"
  let ?out = "run_pipeline shuffle vkey major required budget pipeline registry scores"
  note run = run_pipeline_pool [OF assms refl, where vkey = vkey and major = major and required = required and budget = budget and pipeline = pipeline and scores = scores]
  have len: "length ?out = length ?E" using pool_length [OF assms(1) run(1)] by (simp add: eligible_def)
  have bs: "base ` set ?out = base ` set ?E" using run(1) by (simp add: pool_ok_def eligible_def)
  show ?thesis
  proof (cases ?out)
    case Nil
    then show ?thesis using len by (simp add: select_agent_def)
  next
    case (Cons x xs)
    then have "base x \<in> base ` set ?E" using bs by auto
    then obtain r where r: "r \<in> set ?E" "base x = base r" by blast
    have least: "objective_sort_key ?obj x \<le> objective_sort_key ?obj y" if "y \<in> set (x # xs)" for y
      using run(2) that unfolding Cons by (auto simp: preferred_def refine_by_def Let_def)
    let ?f = "score_after major required budget scores (sp_stages pipeline) registry ag_score"
    have score: "ag_score y = ?f r'" if y: "y \<in> set (x # xs)" "r' \<in> set ?E" "base y = base r'" for y r'
    proof -
      obtain q where q: "q \<in> set ?E" "base y = base q" "ag_score y = ?f q"
        using bspec [OF run(3) [unfolded scored_def Cons] y(1)] unfolding eligible_def by (elim bexE conjE)
      have "ref_key q = ref_key r'" by (rule base_key) (rule trans [OF q(2) [symmetric] y(3)])
      then have "q = r'" using q(1) y(2) by (intro key_base [OF assms(1)]) (simp_all add: eligible_def)
      then show ?thesis using q(3) by simp
    qed
    have best: "\<exists>y\<in>set (x # xs). base y = base r'" if "r' \<in> set ?E" for r'
    proof -
      have "base r' \<in> base ` set (x # xs)" using imageI [OF that, of base] unfolding bs [symmetric] Cons .
      then obtain y where y: "y \<in> set (x # xs)" "base r' = base y" by blast
      then show ?thesis using y(2) [symmetric] by blast
    qed
    have fa: "ag_agent_id y \<in> ag_agent_id ` set ?E" if "y \<in> set xs" for y
    proof -
      have "base y \<in> base ` set ?E" using that bs Cons by auto
      then obtain r' where r': "r' \<in> set ?E" "base y = base r'" by blast
      then show ?thesis using base_key [OF r'(2)] by (auto simp: ref_key_def)
    qed
    have fb: "ag_agent_id ` set (take MAX_FALLBACKS xs) \<subseteq> ag_agent_id ` set ?E"
      by (rule image_subsetI) (rule fa [OF in_set_takeD])
    have opt: "(?obj = ''minimize_cost'' \<longrightarrow> ab_cost_usd (am_budgets (ag_manifest r)) \<le> ab_cost_usd (am_budgets (ag_manifest r'))) \<and>
        (?obj = ''minimize_latency'' \<longrightarrow> ab_wall_clock_seconds (am_budgets (ag_manifest r)) \<le> ab_wall_clock_seconds (am_budgets (ag_manifest r'))) \<and>
        (?obj = ''maximize_quality'' \<longrightarrow> ?f r' \<le> ?f r)"
      if r': "r' \<in> set ?E" for r'
    proof -
      obtain y where y: "y \<in> set (x # xs)" "base y = base r'" using best [OF r'] by blast
      have "ag_score x = ?f r" by (rule score [OF _ r]) simp
      then show ?thesis using least [OF y(1)] base_manifest [OF r(2)] base_manifest [OF y(2)] score [OF y(1) r' y(2)]
        by (auto simp: objective_sort_key_def)
    qed
    show ?thesis using r(1) base_key [OF r(2)] base_manifest [OF r(2)] opt fb len Cons budget_within
      by (auto simp: select_agent_def to_select_decision_def ref_key_def image_image intro!: bexI [of _ r])
  qed
qed

definition sample_agent :: "string \<Rightarrow> string \<Rightarrow> string \<Rightarrow> rat \<Rightarrow> agent_ref" where
  "sample_agent ident version capability cost = \<lparr>ag_agent_id = ident, ag_version = version, ag_plugin_id = ''p'',
     ag_manifest = \<lparr>am_capabilities = [\<lparr>ac_id = capability, ac_version = ''1.0.0'', ac_level = ''primary''\<rparr>],
       am_budgets = \<lparr>ab_tokens_input = 10, ab_tokens_output = 10, ab_cost_usd = cost, ab_wall_clock_seconds = 60,
         ab_max_steps = 24, ab_max_tool_calls = 40, ab_on_exceeded = ''fail-closed''\<rparr>, am_policy = []\<rparr>,
     ag_score = 0, ag_deprecated = False, ag_deprecation_reason = []\<rparr>"

definition sample_registry :: "agent_ref list" where
  "sample_registry = [sample_agent ''coder'' ''1.0.0'' ''python'' 2, sample_agent ''coder'' ''2.0.0'' ''python'' 1,
     sample_agent ''writer'' ''1.0.0'' ''docs'' 1, sample_agent ''expert'' ''1.0.0'' ''python'' 9]"

definition sample_pipeline :: selector_pipeline where
  "sample_pipeline = \<lparr>sp_stages = [CapabilityMatching True, CostAware ''minimize_cost'' True], sp_tie_breaker = ''lowest_cost''\<rparr>"

definition sample_select :: "key_order \<Rightarrow> agent_ref list \<Rightarrow> (select_error, select_decision) result" where
  "sample_select shuffle registry = select_agent shuffle (\<lambda>v. v) (\<lambda>_. 1) [''python''] \<lparr>sb_tokens = 0, sb_cost_usd = 3, sb_time_s = 90\<rparr> sample_pipeline registry None"

lemma shuffle_samples: "shuffle_ok rev" "shuffle_ok (\<lambda>ks. ks)"
  by (simp_all add: shuffle_ok_def)

theorem select_agent_exact_witness:
  "\<exists>d. sample_select rev sample_registry = Inr d \<and> sd_agent_version d = ''2.0.0'' \<and> within_run (sd_budget d) \<lparr>sb_tokens = 0, sb_cost_usd = 3, sb_time_s = 90\<rparr> \<and>
     length (sd_fallbacks d) = 1"
proof -
  have "distinct (map ref_key sample_registry)" by code_simp
  note exact = select_agent_exact [OF this shuffle_samples(1), where vkey = "\<lambda>v. v" and major = "\<lambda>_. 1" and required = "[''python'']" and
    budget = "\<lparr>sb_tokens = 0, sb_cost_usd = 3, sb_time_s = 90\<rparr>" and pipeline = sample_pipeline and scores = None]
  have "eligible [''python''] \<lparr>sb_tokens = 0, sb_cost_usd = 3, sb_time_s = 90\<rparr> sample_pipeline sample_registry =
      [sample_agent ''coder'' ''1.0.0'' ''python'' 2, sample_agent ''coder'' ''2.0.0'' ''python'' 1]" by code_simp
  moreover have "case sample_select rev sample_registry of Inl _ \<Rightarrow> False | Inr d \<Rightarrow> sd_agent_version d = ''2.0.0''" by code_simp
  ultimately show ?thesis using exact by (auto simp: sample_select_def MAX_FALLBACKS_def split: sum.splits)
qed

subsection \<open>Determinism\<close>

text \<open>Two pools that hold the same versions with the same scores, in whatever order.\<close>

definition same_pool :: "agent_ref list \<Rightarrow> agent_ref list \<Rightarrow> bool" where
  "same_pool cs cs' \<longleftrightarrow> distinct (map ref_key cs) \<and> distinct (map ref_key cs') \<and> set cs = set cs'"

definition same_candidates :: "agent_ref list option \<Rightarrow> agent_ref list option \<Rightarrow> bool" where
  "same_candidates a b \<longleftrightarrow> (case (a, b) of (None, None) \<Rightarrow> True | (Some cs, Some cs') \<Rightarrow> same_pool cs cs' | _ \<Rightarrow> False)"

lemma same_candidates_pool: "same_pool registry registry' \<Longrightarrow> same_candidates a b \<Longrightarrow> same_pool (pool_of registry a) (pool_of registry' b)"
  by (auto simp: same_candidates_def pool_of_def split: option.splits)

lemma same_candidates_in: "same_candidates a b \<Longrightarrow> in_pool a = in_pool b"
  by (auto simp: same_candidates_def same_pool_def in_pool_def fun_eq_iff split: option.splits)

lemma stage_same:
  assumes "same_pool registry registry'" and "shuffle_ok shuffle" and "shuffle_ok shuffle'" and "same_candidates a b"
  shows "same_candidates (fst (evaluate_selector_stage shuffle vkey major required budget registry scores stage (a, objective)))
      (fst (evaluate_selector_stage shuffle' vkey major required budget registry' scores stage (b, objective)))"
proof (cases stage)
  case (CapabilityMatching require_all)
  have reg: "distinct (map ref_key registry)" "distinct (map ref_key registry')" "set registry = set registry'" using assms(1) by (auto simp: same_pool_def)
  show ?thesis
  proof (cases "required = []")
    case True
    then show ?thesis using same_candidates_pool [OF assms(1,4)] CapabilityMatching
      by (simp add: match_capabilities_def same_candidates_def pool_of_def)
  next
    case False
    then show ?thesis using match_capabilities_exact [OF reg(1) assms(2) False, of vkey major require_all a]
        match_capabilities_exact [OF reg(2) assms(3) False, of vkey major require_all b]
        same_candidates_in [OF assms(4)] reg(3) CapabilityMatching
      by (simp add: same_candidates_def same_pool_def)
  qed
next
  case (CostAware obj respect)
  then show ?thesis using same_candidates_pool [OF assms(1,4)]
    by (auto simp: same_candidates_def same_pool_def apply_cost_aware_def pool_of_def [symmetric] distinct_map_filter simp del: distinct_map)
next
  case (ScoreWeighted weights)
  then show ?thesis using same_candidates_pool [OF assms(1,4)]
    by (auto simp: same_candidates_def same_pool_def apply_score_weighted_eq pool_of_def [symmetric] comp_def simp del: distinct_map)
qed

lemma stages_same:
  assumes "same_pool registry registry'" and "shuffle_ok shuffle" and "shuffle_ok shuffle'" and "same_candidates a b"
  shows "same_candidates (fst (fold (evaluate_selector_stage shuffle vkey major required budget registry scores) stages (a, objective)))
      (fst (fold (evaluate_selector_stage shuffle' vkey major required budget registry' scores) stages (b, objective)))"
  using assms(4)
proof (induction stages arbitrary: a b objective)
  case (Cons stage stages)
  obtain c o1 where 1: "evaluate_selector_stage shuffle vkey major required budget registry scores stage (a, objective) = (c, o1)" by fastforce
  obtain d o2 where 2: "evaluate_selector_stage shuffle' vkey major required budget registry' scores stage (b, objective) = (d, o2)" by fastforce
  have "same_candidates c d" using stage_same [OF assms(1-3) Cons.prems, of vkey major required budget scores stage objective] 1 2 by simp
  moreover have "o1 = o2" using 1 2 by (cases stage) (auto simp: apply_score_weighted_eq)
  ultimately show ?case using Cons.IH 1 2 by simp
qed simp

lemma order_same:
  assumes "same_pool cs cs'" and "\<And>a b. a \<in> set cs \<Longrightarrow> b \<in> set cs \<Longrightarrow> ag_agent_id a = ag_agent_id b \<Longrightarrow> vkey (ag_version a) = vkey (ag_version b) \<Longrightarrow> a = b"
  shows "deterministic_order vkey objective tie_breaker cs = deterministic_order vkey objective tie_breaker cs'"
proof (rule sorted_wrt_unique [OF order_preferred order_preferred])
  have "distinct (map ref_key (deterministic_order vkey objective tie_breaker cs))" "distinct (map ref_key (deterministic_order vkey objective tie_breaker cs'))"
    using assms(1) unfolding same_pool_def distinct_order by blast+
  then show "distinct (deterministic_order vkey objective tie_breaker cs)" "distinct (deterministic_order vkey objective tie_breaker cs')"
    by (simp_all add: distinct_map)
  show "set (deterministic_order vkey objective tie_breaker cs) = set (deterministic_order vkey objective tie_breaker cs')"
    using assms(1) by (simp add: same_pool_def)
  show "a = b" if "a \<in> set (deterministic_order vkey objective tie_breaker cs)" "b \<in> set (deterministic_order vkey objective tie_breaker cs)"
    "preferred vkey objective tie_breaker a b" "preferred vkey objective tie_breaker b a" for a b
    using that(1,2) preferred_antisym [OF that(3,4)] assms(2) by simp
qed

text \<open>
  C24. Selection is deterministic. The decision, with its fallbacks, does not depend on the order in
  which the registry lists the versions and sets are iterated, as long as the texts of two versions of
  one agent are never equal as versions.
\<close>

theorem select_agent_deterministic:
  assumes "distinct (map ref_key registry)" and "distinct (map ref_key registry')" and "set registry = set registry'"
    and "shuffle_ok shuffle" and "shuffle_ok shuffle'"
    and "\<forall>a\<in>set registry. \<forall>b\<in>set registry. ag_agent_id a = ag_agent_id b \<and> vkey (ag_version a) = vkey (ag_version b) \<longrightarrow> ag_version a = ag_version b"
  shows "select_agent shuffle vkey major required budget pipeline registry scores =
    select_agent shuffle' vkey major required budget pipeline registry' scores"
proof -
  have reg: "same_pool registry registry'" using assms(1-3) by (simp add: same_pool_def)
  let ?run = "\<lambda>shuffle registry. fold (evaluate_selector_stage shuffle vkey major required budget registry scores) (sp_stages pipeline) (None, ''minimize_cost'')"
  obtain c obj where c: "?run shuffle registry = (c, obj)" by fastforce
  obtain d obj' where d: "?run shuffle' registry' = (d, obj')" by fastforce
  have "same_candidates c d"
    using stages_same [OF reg assms(4,5), of None None vkey major required budget scores "sp_stages pipeline" "''minimize_cost''"] c d
    by (simp add: same_candidates_def)
  then have pools: "same_pool (pool_of registry c) (pool_of registry' d)" by (rule same_candidates_pool [OF reg])
  have obj: "obj = obj'"
    using stages_objective [of shuffle vkey major required budget registry scores "sp_stages pipeline" None "''minimize_cost''"]
      stages_objective [of shuffle' vkey major required budget registry' scores "sp_stages pipeline" None "''minimize_cost''"] c d by simp
  have "pool_ok registry (\<lambda>r. True) (pool_of registry None)" using assms(1) by (simp add: pool_ok_def pool_of_def)
  from stages_pool [OF assms(1,4) this c] have pool: "pool_ok registry (\<lambda>r. \<forall>stage\<in>set (sp_stages pipeline). passes required budget stage r) (pool_of registry c)"
    by simp
  have "deterministic_order vkey obj (sp_tie_breaker pipeline) (pool_of registry c) = deterministic_order vkey obj (sp_tie_breaker pipeline) (pool_of registry' d)"
  proof (rule order_same [OF pools])
    fix a b assume ab: "a \<in> set (pool_of registry c)" "b \<in> set (pool_of registry c)" "ag_agent_id a = ag_agent_id b" "vkey (ag_version a) = vkey (ag_version b)"
    obtain ra rb where r: "ra \<in> set registry" "base a = base ra" "rb \<in> set registry" "base b = base rb" using pool_registered [OF pool] ab(1,2) by metis
    have "ref_key a = ref_key ra" "ref_key b = ref_key rb" using base_key r(2,4) by blast+
    then have "ag_version a = ag_version b" using assms(6) ab(3,4) r(1,3) by (auto simp: ref_key_def)
    then have "ref_key a = ref_key b" using ab(3) by (simp add: ref_key_def)
    then show "a = b" using key_base [of "pool_of registry c" a b] pool ab(1,2) by (simp add: pool_ok_def del: distinct_map)
  qed
  then show ?thesis using c d obj by (simp add: select_agent_def run_pipeline_def pool_of_def)
qed

theorem select_agent_deterministic_witness:
  "sample_select rev sample_registry = sample_select (\<lambda>ks. ks) (rev sample_registry) \<and> \<not> isl (sample_select rev sample_registry)"
proof
  have d: "distinct (map ref_key sample_registry)" "distinct (map ref_key (rev sample_registry))" by code_simp+
  show "sample_select rev sample_registry = sample_select (\<lambda>ks. ks) (rev sample_registry)"
    unfolding sample_select_def by (rule select_agent_deterministic [OF d _ shuffle_samples]) simp_all
  show "\<not> isl (sample_select rev sample_registry)" by code_simp
qed

text \<open>
  Two texts that are equal as versions, such as \<^verbatim>\<open>1.0.0-rc1\<close> and \<^verbatim>\<open>1.0.0-rc.1\<close>, are two registrations,
  and between them the order in which they are listed decides.
\<close>

theorem tied_versions_undecided:
  assumes "ag_agent_id a = ag_agent_id b" and "vkey (ag_version a) = vkey (ag_version b)" and "ag_manifest a = ag_manifest b"
    and "ag_version a \<noteq> ag_version b" and "sp_stages pipeline = []"
  shows "select_agent shuffle vkey major required budget pipeline [a, b] scores \<noteq> select_agent shuffle' vkey major required budget pipeline [b, a] scores"
  using assms by (auto simp: select_agent_def run_pipeline_def deterministic_order_def rsort_key_def objective_sort_key_def Let_def to_select_decision_def)

theorem tied_versions_undecided_witness:
  "\<exists>a b. select_agent rev (\<lambda>v. length (filter (\<lambda>c. c \<noteq> CHR ''.'') v)) (\<lambda>_. 1) [] \<lparr>sb_tokens = 0, sb_cost_usd = 0, sb_time_s = 0\<rparr>
       \<lparr>sp_stages = [], sp_tie_breaker = []\<rparr> [a, b] None \<noteq>
     select_agent rev (\<lambda>v. length (filter (\<lambda>c. c \<noteq> CHR ''.'') v)) (\<lambda>_. 1) [] \<lparr>sb_tokens = 0, sb_cost_usd = 0, sb_time_s = 0\<rparr>
       \<lparr>sp_stages = [], sp_tie_breaker = []\<rparr> [b, a] None"
  by (rule exI [of _ "sample_agent ''coder'' ''1.0.0-rc1'' ''python'' 2"], rule exI [of _ "sample_agent ''coder'' ''1.0.0-rc.1'' ''python'' 2"])
    (rule tied_versions_undecided; simp add: sample_agent_def)

end
