(* ===== verification/Spec2Isabelle.thy ===== *)
theory Spec2Isabelle
  imports Flow_Run_Properties Flow_Human_Properties Flow_Expr_Roundtrip Flow_Triggers Flow_Composite_Properties
    Quota_Service Exec_Executor Plan_Approval Event_Bus Coordination Job_Queue Environment_Egress
    Agent_Selector
begin

text \<open>
  A verification of the core of AutoDev (\<^verbatim>\<open>src/backend\<close>): the flow engine (\<^verbatim>\<open>flows\<close>), the tenant
  quotas (\<^verbatim>\<open>quotas\<close>), the policy, the human decisions and the executor of plan tasks (\<^verbatim>\<open>execution\<close>), the
  step-by-step approval of plans (\<^verbatim>\<open>plans\<close>, \<^verbatim>\<open>api/routers/plan_approval_v2.py\<close>), the events (\<^verbatim>\<open>events\<close>),
  the secrets (\<^verbatim>\<open>secret_store\<close>), the artifacts (\<^verbatim>\<open>artifacts\<close>), the execution environments (\<^verbatim>\<open>environments\<close>) and the
  selection of agents (\<^verbatim>\<open>routing/selector.py\<close>).

  \<^bold>\<open>The flow engine.\<close> A flow is a declarative graph of nodes (agents, skills, tools, conditionals, human
  gates, sub-flows and maps) with guarded edges. A manifest is parsed and validated
  (\<^verbatim>\<open>manifest.py\<close>, \<^verbatim>\<open>fields.py\<close>, \<^verbatim>\<open>graph.py\<close>, \<^verbatim>\<open>model.py\<close>), registered under an id and a version
  (\<^verbatim>\<open>registry.py\<close>) and executed by the engine (\<^verbatim>\<open>engine.py\<close>, \<^verbatim>\<open>activation.py\<close>, \<^verbatim>\<open>pause.py\<close>), which
  walks the graph from a durable cursor, invokes a handler for each node (\<^verbatim>\<open>handlers.py\<close>), and
  persists runs, steps and events (\<^verbatim>\<open>state.py\<close>, \<^verbatim>\<open>records.py\<close>) so that a run can be resumed after a
  crash and replayed deterministically (\<^verbatim>\<open>checkpoint.py\<close>), under budgets (\<^verbatim>\<open>budgets.py\<close>). Edge
  predicates and input bindings are written in a small expression language (\<^verbatim>\<open>expressions.py\<close>).
  A run pauses at a human node until a decision or a timeout (\<^verbatim>\<open>human.py\<close>); sub-flow and map nodes
  run other flows as children of the run (\<^verbatim>\<open>composite.py\<close>); events and schedules start runs
  (\<^verbatim>\<open>triggers.py\<close>).

  \<^bold>\<open>Around the engine.\<close> A request is admitted by the tenant's quotas: leases on concurrent runs, storage
  reservations, request slots per minute and monthly usage (\<^verbatim>\<open>quotas/store.py\<close>, \<^verbatim>\<open>quotas/service.py\<close>). The
  tasks of a plan become actions (\<^verbatim>\<open>execution/executor.py\<close>) that run only when a policy rule
  (\<^verbatim>\<open>execution/policy.py\<close>) or a human decision (\<^verbatim>\<open>execution/decisions.py\<close>) admits them. The steps of a plan
  are reviewed, approved and executed one by one (\<^verbatim>\<open>plans/step_state.py\<close> and the version 2 routes). All of them
  emit events through \<^verbatim>\<open>events/runtime.py\<close>, which redacts live secrets, validates the payload against the catalog
  (\<^verbatim>\<open>events/catalog.py\<close>), publishes on the bus (\<^verbatim>\<open>events/bus.py\<close>) and appends to the durable event store
  (\<^verbatim>\<open>events/store.py\<close>). The actions of a batch run in an execution environment that the manager provisions
  (\<^verbatim>\<open>environments/manager.py\<close>, \<^verbatim>\<open>orchestrator/service/environment_scope.py\<close>): secrets of the encrypted store
  (\<^verbatim>\<open>secret_store/service.py\<close>) are injected into it, its outputs are redacted and persisted as artifacts under
  the storage quota (\<^verbatim>\<open>artifacts/pointers.py\<close>), and it is torn down or reaped when its time is over.

  \<^bold>\<open>The theories\<close>, in the order of the imports:

  \<^item> \<open>Flow_Prelude\<close>: results as sums, and generic lemmas on lists and maps.
  \<^item> \<open>Py_Value\<close>: the Python values the code computes with (dictionaries keep insertion order),
    equality, truth, \<open>str\<close> and \<open>repr\<close>, and the JSON round trip of \<open>json.dumps\<close>/\<open>json.loads\<close>.
    Floats are rationals; their textual form, the \<open>repr\<close> of other objects and ISO timestamps are
    parameters (\<open>py_env\<close>).
  \<^item> \<open>Flow_Expressions\<close>, \<open>Flow_Expr_Roundtrip\<close>: lexer, parser, evaluator, templates; a printer and the
    proof that compiling inverts it. The parser's fuel is bounded by the number of tokens and is
    proved to be enough.
  \<^item> \<open>Flow_Model\<close>, \<open>Flow_Graph\<close>: the manifest types; the graph checks, with the depth-first search
    proved against acyclicity and the reachability loop against the reflexive transitive closure.
  \<^item> \<open>Flow_Monad\<close>: actions on a world that return or raise, their weakest preconditions
    (\<open>wp\<close>) and preserved predicates (\<open>preserves\<close>).
  \<^item> \<open>Sequenced_Log\<close>: rows with sequence numbers per owner and the locale \<open>sequenced_log\<close>, interpreted by the
    step and the event log of the flow runs and by the durable event store.
  \<^item> \<open>Flow_Budgets\<close>: budgets as a meet semilattice, the persisted cap, the budget gate.
  \<^item> \<open>Flow_Store\<close>, \<open>Flow_Store_Laws\<close>: the tables and every operation of the store as actions on
    \<open>world\<close>; the two logs as sequenced logs; the invariant \<open>store_inv\<close>; the abstract store (\<open>view\<close>, \<open>run_at\<close>) the operations refine.
  \<^item> \<open>Flow_Checkpoint\<close>: backoff, canonical outputs, routing, replay; \<open>follow\<close> is the specification
    of replay.
  \<^item> \<open>Flow_Manifest\<close>, \<open>Flow_Registry\<close>: validation of decoded documents, the versioned registry.
    The version library is a parameter (\<open>version_lib\<close>).
  \<^item> \<open>Flow_Handlers\<close>: the registries and the built-in handlers; the locale
    \<open>node_handler_contract\<close> (a handler leaves its run alone) and the stronger \<open>detached_handler\<close> (it
    leaves every existing run alone), interpreted by the conditional, human and callable handlers. The
    callables, the agent runtime and the plugin loader are parameters.
  \<^item> \<open>Flow_Engine\<close>, \<open>Flow_Engine_Laws\<close>: activation, retries, pausing and the run loop, which
    terminates because the activations are capped; the trace invariant that links the checkpoint to
    the completed steps, from a base that is the start of the run or the last human decision.
  \<^item> \<open>Flow_Runs\<close>, \<open>Flow_Recovery\<close>: replay, starting and resuming runs.
  \<^item> \<open>Flow_Example\<close>, \<open>Flow_Run_Properties\<close>: a concrete flow and store, and the properties of runs.
  \<^item> \<open>Flow_Human\<close>, \<open>Flow_Human_Laws\<close>, \<open>Flow_Human_Properties\<close>: pending requests, decisions with form
    validation and edits, timeouts; a decision completes the waiting step, is recorded and resumes the
    run where routing leads, an expired wait is recorded and takes its timeout route, a refused decision
    writes nothing.
  \<^item> \<open>Flow_Triggers\<close>: authorization of triggers and cron matching, with cron fields specified as sets.
  \<^item> \<open>Flow_Frame\<close>: the locale \<open>engine_invariant\<close>, which lifts a predicate from the writes and handlers to
    the whole engine, interpreted by the frame of a run: executing a run leaves every other run alone.
  \<^item> \<open>Flow_History\<close>: a further interpretation, by the history of a run: steps and events recorded before
    an execution stay recorded as they were.
  \<^item> \<open>Flow_Composite\<close>, \<open>Flow_Composite_Laws\<close>: sub-flow and map nodes over nested engines
    (\<open>composite_engine\<close>), the depth guard and the budget caps of children.
  \<^item> \<open>Flow_Map_Laws\<close>: the ledger of a map as a step relation, its invariant under any order of launches
    and completions, and the loop of the handler, which ends and collects one child per item; on whole
    token counts the ledger in rounded floats is the exact one.
  \<^item> \<open>Flow_Nesting\<close>: engines that agree under an invariant; more levels than the depth cap allows make no
    difference, so the number of levels is not a limit of the model.
  \<^item> \<open>Flow_Composite_Properties\<close>: the properties of composite nodes.
  \<^item> \<open>Sql_Table\<close>, \<open>Evolution\<close>: the SQL statements of the stores below, on lists of rows; the locale
    \<open>evolving\<close> of components whose steps keep an invariant and never undo what a preorder fixes.
  \<^item> \<open>Quota_Contracts\<close>, \<open>Quota_Store\<close>, \<open>Quota_Service\<close>: budgets as a meet semilattice, policies and their
    documents, the tables and every transaction of the store, the service with its events.
  \<^item> \<open>Quota_Laws\<close>: the locales \<open>capped_steps\<close> (a step keeps an amount below a ceiling) and \<open>quota_gate\<close>
    (a gate grants exactly while the limit allows), interpreted by leases and storage, and by request slots and
    monthly usage.
  \<^item> \<open>Py_Glob\<close>: \<open>fnmatch\<close>, which the policy rules use.
  \<^item> \<open>Exec_Policy\<close>, \<open>Exec_Decisions\<close>, \<open>Exec_Executor\<close>: rules, permissions, audit and pending decisions; the
    decision of the policy against a reference; decisions as an evolving component; the executor and the gate of the
    orchestrator, where nothing runs without authority. What runs an action is the parameter \<open>runner\<close>.
  \<^item> \<open>Plan_Steps\<close>, \<open>Plan_Approval\<close>: the step table, which refines a list of contents and states per plan, its
    histories as an evolving component; the plan documents and all handlers of the version 2 routes.
  \<^item> \<open>Event_Catalog\<close>: the payload models, the catalog and envelopes; pydantic is the parameter \<open>model_validate\<close>.
  \<^item> \<open>Event_Store\<close>, \<open>Event_Laws\<close>: the log, its projections, reconstruction and retention; the projection summarizes
    the history, the log resumes, and sequence numbers restart after a purge.
  \<^item> \<open>Secret_Redaction\<close>, \<open>Event_Bus\<close>: replacement of live secrets in texts and payloads, which removes every secret that
    is not empty, has no asterisk and is not part of the marker, but passes dictionary keys and tuples through;
    subscriptions, publishing, replay by cursor, and the emission of events over all of the above.
  \<^item> \<open>Coordination\<close>: the in-process cache and locks (\<^verbatim>\<open>coordination/redis.py\<close>), with their mutual exclusion.
  \<^item> \<open>Job_Queue\<close>: the in-process job queue (\<^verbatim>\<open>jobs/queue.py\<close>), its critical sections interleaved with the pool as a
    step relation; the counters are exact, no unfinished job is swept, and jobs only go forward.
  \<^item> \<open>Secret_Store\<close>: the encrypted, versioned table of secrets and its service; the locale \<open>answers_alike\<close> (a
    simulation that answers like its specification), interpreted by the service against a list of plain values per
    reference.
  \<^item> \<open>Artifacts\<close>: object keys, the local store as a tree of files whose writes may be refused or torn, the table of
    pointers, persisting under the quota and the sweep, which removes exactly the garbage.
  \<^item> \<open>Environments\<close>, \<open>Environment_Egress\<close>: profiles, backends, the table of environments and the manager;
    provisioning fails closed and keeps to the ceiling (a further \<open>capped_steps\<close>), and the artifacts of a live
    environment contain no injected secret that the redaction can remove.
  \<^item> \<open>Agent_Selector\<close>: the pipeline that selects an agent (\<^verbatim>\<open>routing/selector.py\<close>, \<^verbatim>\<open>selector_scoring.py\<close>), with stable
    sorts as refinements of orders; it finds an agent exactly when one passes all stages, the best one by the final
    objective (cost, latency or score), whatever the
    order in which the registry and sets are iterated.

  \<^bold>\<open>The worlds.\<close> Each component keeps its own state: \<open>quota_db\<close>, \<open>policy_db\<close> within \<open>exec_world\<close>,
  \<open>step_table\<close> within \<open>plan_world\<close>, \<open>event_db\<close> and \<open>memory_bus\<close>; \<open>env_world\<close> of the environments contains
  the \<open>secret_world\<close> and the \<open>artifact_world\<close>, which contains the quotas. The components other than the bus record the
  events they hand to \<open>emit_event\<close>, which is proved never to raise. Instants are microseconds, and ISO texts of
  UTC instants compare as the instants do; the clock readings and identifiers of an operation are its
  arguments. The \<open>world\<close> of the flows holds the four tables, a supply of identifiers (\<open>uuid4\<close> draws the next one), a
  wall clock and a monotonic clock given as arbitrary sequences of readings, the sleeps, and the
  notifications handed to the event bus. Each store operation is one transaction. An exception leaves
  the writes made before it.

  \<^bold>\<open>Bounds.\<close> The loops of the code are recursive functions: the run loop is bounded by the cap on
  activations, the attempts by the retry policy, the parser by the number of tokens, the rounds of a
  map by the number of items (and proved to settle all of them), the nesting of engines by the depth
  cap (and proved not to matter above it).

  \<^bold>\<open>Hypotheses.\<close> The theorems on runs assume that a handler does not write to the run it was invoked
  for (\<open>handlers_isolated\<close>), nothing about what it returns or raises, and that manifests were
  registered through the JSON column (\<open>bindings_json\<close>). The theorems on composite nodes assume that the
  callables and the agent runtime leave existing flow runs alone (\<open>detached\<close>); the default handlers,
  composite ones included, then satisfy both. Pydantic is assumed to accept payloads with values of the
  annotated types (\<open>validates_conforming\<close>), and the Fernet cipher to decrypt what it encrypted (\<open>fernet_ok\<close>). The
  tree of files has no symbolic links; path resolution, digests and the hash of a profile are arbitrary functions.

  \<^bold>\<open>Concurrency.\<close> The branches of a map run on threads. Each branch is one action of the model, and a
  schedule, an arbitrary function, decides which branches are done in each round. The invariant of the
  ledger is proved for every order of launches and completions. The interleaving of the store
  operations of two branches is not modelled; each operation is one transaction of the database.

  \<^bold>\<open>Floats.\<close> Costs, scores and token counts are exact rationals where the code has floats. Comparisons of single
  amounts, and sums of whole token counts below \<open>2\<^sup>5\<^sup>3\<close>, are the same in floats, which \<open>Flow_Map_Laws\<close> proves for the
  ledger of a map; sums of costs are not, so the facts on the costs of a map hold of exact amounts only and are not
  stated as a property, and scores may differ from the code's in the last digits.

  \<^bold>\<open>Not modelled.\<close> SQL dialects, connections and migrations; reading and decoding YAML files; traces
  and the payload of bus notifications; the texts of error messages where only the kind of the error
  matters (they are the parameter \<open>exc_texts\<close> where a message quotes them); rounding of
  floats apart from the above; text beyond ASCII (beyond 255 where artifacts are encoded); infinities and NaN; \<open>RecursionError\<close> on
  deeply nested expressions or values; handlers of jobs that raise a \<open>BaseException\<close> which is no \<open>Exception\<close>. The
  payloads of flow events are typed: strings, numbers, and a decision or an expiry that was serialized before, so the
  case that \<open>json.dumps\<close> refuses one does not arise in \<open>append_event\<close>. Of the parts around the engine: the PostgreSQL and Redis
  variants of the stores and the bus, the MinIO client, the sandbox that runs an action, the HTTP layer, and subscribers
  that publish from within a delivery. The other packages are listed in the manifest with the reason.
\<close>

end
